(* ===== verification/Studio_Monad.thy ===== *)
theory Studio_Monad imports Main begin

text \<open>
  The state-and-exception monad in which every stateful operation of the studio is written,
  and a small Hoare logic over it.

  A Python function that reads and writes shared state and may raise is a function from the
  state to a pair: what it gave back (\<open>Inl\<close> of the exception it raised, or \<open>Inr\<close> of the value
  it returned) and the state it left behind. A state change made before an exception stays, as
  it does in the code. \<open>catch\<close> is \<open>try/except\<close>, \<open>finally_do\<close> is \<open>try/finally\<close>, \<open>attempt\<close> turns an
  exception into a value, and \<open>for_each\<close> is a \<open>for\<close> loop whose body may raise.

  \<open>triple P m Q E\<close> is total correctness of one run: from a state satisfying \<open>P\<close>, a normal
  return satisfies \<open>Q\<close> and an exception satisfies \<open>E\<close>. \<open>holds_along R m\<close> says that the states
  before and after are related by \<open>R\<close>, whatever the outcome; for a preorder it composes.
\<close>

section \<open>The monad\<close>

type_synonym ('s, 'e, 'a) io = "'s \<Rightarrow> ('e + 'a) \<times> 's"

definition ret :: "'a \<Rightarrow> ('s, 'e, 'a) io" where
  "ret x = (\<lambda>w. (Inr x, w))"

definition raise :: "'e \<Rightarrow> ('s, 'e, 'a) io" where
  "raise e = (\<lambda>w. (Inl e, w))"

definition bnd :: "('s, 'e, 'a) io \<Rightarrow> ('a \<Rightarrow> ('s, 'e, 'b) io) \<Rightarrow> ('s, 'e, 'b) io" where
  "bnd m f = (\<lambda>w. case m w of (Inl e, w') \<Rightarrow> (Inl e, w') | (Inr x, w') \<Rightarrow> f x w')"

definition catch :: "('s, 'e, 'a) io \<Rightarrow> ('e \<Rightarrow> ('s, 'e, 'a) io) \<Rightarrow> ('s, 'e, 'a) io" where
  "catch m h = (\<lambda>w. case m w of (Inl e, w') \<Rightarrow> h e w' | (Inr x, w') \<Rightarrow> (Inr x, w'))"

definition attempt :: "('s, 'e, 'a) io \<Rightarrow> ('s, 'e, 'e + 'a) io" where
  "attempt m = (\<lambda>w. case m w of (r, w') \<Rightarrow> (Inr r, w'))"

definition finally_do :: "('s, 'e, 'a) io \<Rightarrow> ('s \<Rightarrow> 's) \<Rightarrow> ('s, 'e, 'a) io" where
  "finally_do m f = (\<lambda>w. case m w of (r, w') \<Rightarrow> (r, f w'))"

definition gets :: "('s \<Rightarrow> 'a) \<Rightarrow> ('s, 'e, 'a) io" where
  "gets f = (\<lambda>w. (Inr (f w), w))"

definition modify :: "('s \<Rightarrow> 's) \<Rightarrow> ('s, 'e, unit) io" where
  "modify f = (\<lambda>w. (Inr (), f w))"

definition lift_result :: "'e + 'a \<Rightarrow> ('s, 'e, 'a) io" where
  "lift_result r = (\<lambda>w. (r, w))"

fun for_each :: "('x \<Rightarrow> ('s, 'e, unit) io) \<Rightarrow> 'x list \<Rightarrow> ('s, 'e, unit) io" where
  "for_each body [] = ret ()"
| "for_each body (x # xs) = bnd (body x) (\<lambda>_. for_each body xs)"

text \<open>A loop that collects the values its body gives back.\<close>

fun collect :: "('x \<Rightarrow> ('s, 'e, 'b) io) \<Rightarrow> 'x list \<Rightarrow> ('s, 'e, 'b list) io" where
  "collect body [] = ret []"
| "collect body (x # xs) = bnd (body x) (\<lambda>y. bnd (collect body xs) (\<lambda>ys. ret (y # ys)))"

named_theorems io_defs \<open>unfolds the monad for evaluation on a concrete state\<close>

lemmas io_unfold [io_defs] =
  ret_def raise_def bnd_def catch_def attempt_def finally_do_def gets_def modify_def
  lift_result_def

lemma bnd_ret [simp]: "bnd (ret x) f = f x"
  by (simp add: bnd_def ret_def)

lemma bnd_raise [simp]: "bnd (raise e) f = raise e"
  by (simp add: bnd_def raise_def)

lemma bnd_assoc: "bnd (bnd m f) g = bnd m (\<lambda>x. bnd (f x) g)"
  by (rule ext) (simp add: bnd_def split: prod.splits sum.splits)

lemma catch_ret [simp]: "catch (ret x) h = ret x"
  by (simp add: catch_def ret_def)

lemma catch_raise [simp]: "catch (raise e) h = h e"
  by (simp add: catch_def raise_def)

lemma bnd_runs:
  assumes "bnd m f w = (r, w')"
  obtains (raised) e where "m w = (Inl e, w')" and "r = Inl e"
  | (went_on) x w1 where "m w = (Inr x, w1)" and "f x w1 = (r, w')"
proof -
  obtain q w1 where "m w = (q, w1)" by (cases "m w")
  with assms raised went_on show thesis by (cases q) (auto simp: bnd_def)
qed

lemma catch_runs:
  assumes "catch m h w = (r, w')"
  obtains (passed) x where "m w = (Inr x, w')" and "r = Inr x"
  | (handled) e w1 where "m w = (Inl e, w1)" and "h e w1 = (r, w')"
proof -
  obtain q w1 where "m w = (q, w1)" by (cases "m w")
  with assms passed handled show thesis by (cases q) (auto simp: catch_def)
qed

lemma attempt_runs:
  assumes "attempt m w = (r, w')"
  obtains q where "m w = (q, w')" and "r = Inr q"
  using assms by (auto simp: attempt_def split: prod.splits)

lemma finally_runs:
  assumes "finally_do m f w = (r, w')"
  obtains w1 where "m w = (r, w1)" and "w' = f w1"
  using assms by (auto simp: finally_do_def split: prod.splits)

lemma ret_runs [simp]: "ret x w = (r, w') \<longleftrightarrow> r = Inr x \<and> w' = w"
  by (auto simp: ret_def)

lemma raise_runs [simp]: "raise e w = (r, w') \<longleftrightarrow> r = Inl e \<and> w' = w"
  by (auto simp: raise_def)

lemma lift_result_runs [simp]: "lift_result q w = (r, w') \<longleftrightarrow> r = q \<and> w' = w"
  by (auto simp: lift_result_def)

section \<open>Triples\<close>

definition triple ::
  "('s \<Rightarrow> bool) \<Rightarrow> ('s, 'e, 'a) io \<Rightarrow> ('a \<Rightarrow> 's \<Rightarrow> bool) \<Rightarrow> ('e \<Rightarrow> 's \<Rightarrow> bool) \<Rightarrow> bool" where
  "triple P m Q E \<longleftrightarrow>
     (\<forall>w. P w \<longrightarrow> (case m w of (Inl e, w') \<Rightarrow> E e w' | (Inr x, w') \<Rightarrow> Q x w'))"

lemma tripleI:
  assumes "\<And>w x w'. P w \<Longrightarrow> m w = (Inr x, w') \<Longrightarrow> Q x w'"
    and "\<And>w e w'. P w \<Longrightarrow> m w = (Inl e, w') \<Longrightarrow> E e w'"
  shows "triple P m Q E"
  using assms by (auto simp: triple_def split: prod.splits sum.splits)

lemma triple_returns: "triple P m Q E \<Longrightarrow> P w \<Longrightarrow> m w = (Inr x, w') \<Longrightarrow> Q x w'"
  by (auto simp: triple_def split: prod.splits sum.splits)

lemma triple_raises: "triple P m Q E \<Longrightarrow> P w \<Longrightarrow> m w = (Inl e, w') \<Longrightarrow> E e w'"
  by (auto simp: triple_def split: prod.splits sum.splits)

lemma triple_weaken:
  assumes "triple P' m Q' E'" and "\<And>w. P w \<Longrightarrow> P' w"
    and "\<And>x w. Q' x w \<Longrightarrow> Q x w" and "\<And>e w. E' e w \<Longrightarrow> E e w"
  shows "triple P m Q E"
  using assms by (fastforce simp: triple_def split: prod.splits sum.splits)

lemma triple_ret: "(\<And>w. P w \<Longrightarrow> Q x w) \<Longrightarrow> triple P (ret x) Q E"
  by (simp add: triple_def ret_def)

lemma triple_raise: "(\<And>w. P w \<Longrightarrow> E e w) \<Longrightarrow> triple P (raise e) Q E"
  by (simp add: triple_def raise_def)

lemma triple_bnd:
  assumes "triple P m R E" and "\<And>x. triple (R x) (f x) Q E"
  shows "triple P (bnd m f) Q E"
  using assms by (fastforce simp: triple_def bnd_def split: prod.splits sum.splits)

lemma triple_catch:
  assumes "triple P m Q R" and "\<And>e. triple (R e) (h e) Q E"
  shows "triple P (catch m h) Q E"
  using assms by (fastforce simp: triple_def catch_def split: prod.splits sum.splits)

lemma triple_attempt:
  assumes "triple P m (\<lambda>x. Q (Inr x)) (\<lambda>e. Q (Inl e))"
  shows "triple P (attempt m) Q E"
  unfolding triple_def
proof (intro allI impI)
  fix w assume "P w"
  then show "case attempt m w of (Inl e, w') \<Rightarrow> E e w' | (Inr x, w') \<Rightarrow> Q x w'"
    using assms by (cases "m w"; cases "fst (m w)") (auto simp: triple_def attempt_def)
qed

lemma triple_finally:
  assumes "triple P m (\<lambda>x w. Q x (f w)) (\<lambda>e w. E e (f w))"
  shows "triple P (finally_do m f) Q E"
  using assms by (auto simp: triple_def finally_do_def split: prod.splits sum.splits)

lemma triple_modify: "(\<And>w. P w \<Longrightarrow> Q () (f w)) \<Longrightarrow> triple P (modify f) Q E"
  by (simp add: triple_def modify_def)

lemma triple_gets: "(\<And>w. P w \<Longrightarrow> Q (f w) w) \<Longrightarrow> triple P (gets f) Q E"
  by (simp add: triple_def gets_def)

lemma triple_if:
  assumes "c \<Longrightarrow> triple P m Q E" and "\<not> c \<Longrightarrow> triple P n Q E"
  shows "triple P (if c then m else n) Q E"
  using assms by simp

lemma triple_pre_fact:
  assumes "\<And>w. P w \<Longrightarrow> c" and "c \<Longrightarrow> triple P m Q E"
  shows "triple P m Q E"
  using assms by (auto simp: triple_def)

section \<open>Relations kept from start to end\<close>

definition holds_along :: "('s \<Rightarrow> 's \<Rightarrow> bool) \<Rightarrow> ('s, 'e, 'a) io \<Rightarrow> bool" where
  "holds_along R m \<longleftrightarrow> (\<forall>w. R w (snd (m w)))"

named_theorems along \<open>relations kept by an operation whatever its outcome\<close>

locale step_preorder =
  fixes R :: "'s \<Rightarrow> 's \<Rightarrow> bool"
  assumes R_refl: "R w w"
    and R_trans: "R u v \<Longrightarrow> R v w \<Longrightarrow> R u w"
begin

lemma along_ret: "holds_along R (ret x)"
  by (simp add: holds_along_def ret_def R_refl)

lemma along_raise: "holds_along R (raise e)"
  by (simp add: holds_along_def raise_def R_refl)

lemma along_gets: "holds_along R (gets f)"
  by (simp add: holds_along_def gets_def R_refl)

lemma along_lift: "holds_along R (lift_result r)"
  by (simp add: holds_along_def lift_result_def R_refl)

lemma along_bnd:
  assumes "holds_along R m" and "\<And>x. holds_along R (f x)"
  shows "holds_along R (bnd m f)"
  unfolding holds_along_def
proof
  fix w
  have step: "R w (snd (m w))" using assms(1) by (simp add: holds_along_def)
  have "R v (snd (f x v))" for x v using assms(2) by (simp add: holds_along_def)
  with step show "R w (snd (bnd m f w))"
    by (auto simp: bnd_def split: prod.splits sum.splits intro: R_trans)
qed

lemma along_catch:
  assumes "holds_along R m" and "\<And>e. holds_along R (h e)"
  shows "holds_along R (catch m h)"
  unfolding holds_along_def
proof
  fix w
  have step: "R w (snd (m w))" using assms(1) by (simp add: holds_along_def)
  have "R v (snd (h e v))" for e v using assms(2) by (simp add: holds_along_def)
  with step show "R w (snd (catch m h w))"
    by (auto simp: catch_def split: prod.splits sum.splits intro: R_trans)
qed

lemma along_attempt: "holds_along R m \<Longrightarrow> holds_along R (attempt m)"
  by (auto simp: holds_along_def attempt_def split: prod.splits) (metis snd_conv)

lemma along_finally:
  assumes "holds_along R m" and "\<And>w. R w (f w)"
  shows "holds_along R (finally_do m f)"
  unfolding holds_along_def
proof
  fix w
  have "R w (snd (m w))" using assms(1) by (simp add: holds_along_def)
  with assms(2) show "R w (snd (finally_do m f w))"
    by (auto simp: finally_do_def split: prod.splits intro: R_trans)
qed

lemma along_modify: "(\<And>w. R w (f w)) \<Longrightarrow> holds_along R (modify f)"
  by (simp add: holds_along_def modify_def)

lemma along_for_each: "(\<And>x. holds_along R (body x)) \<Longrightarrow> holds_along R (for_each body xs)"
  by (induction xs) (auto intro: along_ret along_bnd)

lemma along_collect: "(\<And>x. holds_along R (body x)) \<Longrightarrow> holds_along R (collect body xs)"
  by (induction xs) (auto intro: along_ret along_bnd)

lemmas along_rules =
  along_ret along_raise along_gets along_lift along_bnd along_catch along_attempt
  along_finally along_modify along_for_each along_collect

end

end
