(* ===== verification/Job_Status.thy ===== *)
theory Job_Status imports Main begin

text \<open>
  The job status vocabulary and the transition contract: \<open>core/jobs/statuses.py\<close>, with the
  recovery classification of \<open>core/jobs/recovery.py\<close>.

  \<open>job_status\<close> is the \<open>GenerationStatus\<close> literal type. The \<open>status\<close> column of the jobs table is
  text that no constraint ties to that vocabulary, so a persisted status is a \<open>raw_status\<close>: a
  known status, or some other text. The interface \<open>status_contract\<close> states what the code that
  moves jobs relies on (final statuses have no way out, every real edge makes progress); the
  consequences for whole histories are proved once from it.
\<close>

section \<open>Statuses\<close>

datatype job_status =
  Queued | Preparing | Running | Postprocessing | Cancel_requested | Succeeded | Failed | Cancelled

fun status_text :: "job_status \<Rightarrow> string" where
  "status_text Queued = ''queued''"
| "status_text Preparing = ''preparing''"
| "status_text Running = ''running''"
| "status_text Postprocessing = ''postprocessing''"
| "status_text Cancel_requested = ''cancel_requested''"
| "status_text Succeeded = ''succeeded''"
| "status_text Failed = ''failed''"
| "status_text Cancelled = ''cancelled''"

definition JOB_STATUSES :: "job_status list" where
  "JOB_STATUSES =
     [Queued, Preparing, Running, Postprocessing, Cancel_requested, Succeeded, Failed, Cancelled]"

definition TERMINAL_JOB_STATUSES :: "job_status list" where
  "TERMINAL_JOB_STATUSES = [Succeeded, Failed, Cancelled]"

definition ACTIVE_JOB_STATUSES :: "job_status list" where
  "ACTIVE_JOB_STATUSES = [Queued, Preparing, Running, Postprocessing, Cancel_requested]"

fun ALLOWED_TRANSITIONS :: "job_status \<Rightarrow> job_status list" where
  "ALLOWED_TRANSITIONS Queued = [Preparing, Cancelled, Failed]"
| "ALLOWED_TRANSITIONS Preparing = [Running, Cancel_requested, Failed]"
| "ALLOWED_TRANSITIONS Running = [Postprocessing, Cancel_requested, Failed]"
| "ALLOWED_TRANSITIONS Postprocessing = [Succeeded, Cancel_requested, Failed]"
| "ALLOWED_TRANSITIONS Cancel_requested = [Cancelled, Failed]"
| "ALLOWED_TRANSITIONS Succeeded = []"
| "ALLOWED_TRANSITIONS Failed = []"
| "ALLOWED_TRANSITIONS Cancelled = []"

definition is_terminal_status :: "job_status \<Rightarrow> bool" where
  "is_terminal_status s = (s \<in> set TERMINAL_JOB_STATUSES)"

definition is_valid_transition :: "job_status \<Rightarrow> job_status \<Rightarrow> bool" where
  "is_valid_transition current target =
     (if target = current then True else target \<in> set (ALLOWED_TRANSITIONS current))"

text \<open>The \<open>transition_sources\<close> of every guarded update: the statuses a target may be reached from.\<close>

definition transition_sources :: "job_status \<Rightarrow> job_status list" where
  "transition_sources target = filter (\<lambda>current. is_valid_transition current target) JOB_STATUSES"

section \<open>Persisted statuses\<close>

datatype raw_status = Known job_status | Unknown string

definition raw_in :: "raw_status \<Rightarrow> job_status list \<Rightarrow> bool" where
  "raw_in r ss = (case r of Known s \<Rightarrow> s \<in> set ss | Unknown _ \<Rightarrow> False)"

definition parse_status :: "string \<Rightarrow> raw_status" where
  "parse_status t =
     (case filter (\<lambda>s. status_text s = t) JOB_STATUSES of [] \<Rightarrow> Unknown t | s # _ \<Rightarrow> Known s)"

section \<open>Recovery classification\<close>

datatype recovery_classification =
  Requeue_candidate | Interrupted_failure_candidate | Cancelled_candidate
| Completion_reconciliation_candidate | Terminal_reconciliation_candidate

fun classify_status :: "job_status \<Rightarrow> recovery_classification" where
  "classify_status Queued = Requeue_candidate"
| "classify_status Preparing = Interrupted_failure_candidate"
| "classify_status Running = Interrupted_failure_candidate"
| "classify_status Postprocessing = Interrupted_failure_candidate"
| "classify_status Cancel_requested = Cancelled_candidate"
| "classify_status Succeeded = Completion_reconciliation_candidate"
| "classify_status Failed = Terminal_reconciliation_candidate"
| "classify_status Cancelled = Terminal_reconciliation_candidate"

section \<open>Order and progress\<close>

text \<open>The order in which \<open>JOB_STATUSES\<close> lists them, as the type's linear order.\<close>

fun status_index :: "job_status \<Rightarrow> nat" where
  "status_index Queued = 0"
| "status_index Preparing = 1"
| "status_index Running = 2"
| "status_index Postprocessing = 3"
| "status_index Cancel_requested = 4"
| "status_index Succeeded = 5"
| "status_index Failed = 6"
| "status_index Cancelled = 7"

instantiation job_status :: linorder
begin

definition less_eq_job_status :: "job_status \<Rightarrow> job_status \<Rightarrow> bool" where
  "less_eq_job_status s t = (status_index s \<le> status_index t)"

definition less_job_status :: "job_status \<Rightarrow> job_status \<Rightarrow> bool" where
  "less_job_status s t = (status_index s < status_index t)"

lemma status_index_inj: "status_index s = status_index t \<Longrightarrow> s = t"
  by (cases s; cases t) auto

instance
  by standard (auto simp: less_eq_job_status_def less_job_status_def intro: status_index_inj)

end

text \<open>How far along a status is: the three terminal statuses are equally far.\<close>

definition status_rank :: "job_status \<Rightarrow> nat" where
  "status_rank s = min (status_index s) 5"

named_theorems status_simps \<open>unfolds the status vocabulary on known statuses\<close>

lemmas status_vocabulary [status_simps] =
  is_valid_transition_def is_terminal_status_def TERMINAL_JOB_STATUSES_def
  ACTIVE_JOB_STATUSES_def JOB_STATUSES_def raw_in_def

lemma is_terminal_simps [simp]:
  "is_terminal_status Succeeded" "is_terminal_status Failed" "is_terminal_status Cancelled"
  "\<not> is_terminal_status Queued" "\<not> is_terminal_status Preparing"
  "\<not> is_terminal_status Running" "\<not> is_terminal_status Postprocessing"
  "\<not> is_terminal_status Cancel_requested"
  by (simp_all add: is_terminal_status_def TERMINAL_JOB_STATUSES_def)

lemma JOB_STATUSES_all [simp]: "s \<in> set JOB_STATUSES"
  by (cases s) (simp_all add: JOB_STATUSES_def)

lemma raw_in_JOB_STATUSES: "raw_in r JOB_STATUSES \<longleftrightarrow> (\<exists>s. r = Known s)"
  by (cases r) (simp_all add: raw_in_def)

lemma raw_in_Known [simp]: "raw_in (Known s) ss \<longleftrightarrow> s \<in> set ss"
  by (simp add: raw_in_def)

lemma raw_in_Unknown [simp]: "\<not> raw_in (Unknown t) ss"
  by (simp add: raw_in_def)

lemma raw_in_iff: "raw_in r ss \<longleftrightarrow> (\<exists>s \<in> set ss. r = Known s)"
  by (cases r) auto

lemma transition_sources_iff: "s \<in> set (transition_sources t) \<longleftrightarrow> is_valid_transition s t"
  by (simp add: transition_sources_def)

lemma status_text_inj: "status_text s = status_text t \<longleftrightarrow> s = t"
  by (cases s; cases t) simp_all

lemma active_iff_not_terminal: "s \<in> set ACTIVE_JOB_STATUSES \<longleftrightarrow> \<not> is_terminal_status s"
  by (cases s) (simp_all add: status_simps)

lemma parse_status_text: "parse_status (status_text s) = Known s"
  by (cases s) (simp_all add: parse_status_def JOB_STATUSES_def)

lemma parse_status_Known: "parse_status t = Known s \<Longrightarrow> status_text s = t"
  by (auto simp: parse_status_def JOB_STATUSES_def split: if_splits)

section \<open>The contract of a status vocabulary\<close>

locale status_contract =
  fixes edge :: "'s \<Rightarrow> 's \<Rightarrow> bool"
    and final :: "'s \<Rightarrow> bool"
    and rank :: "'s \<Rightarrow> nat"
  assumes final_stays: "final s \<Longrightarrow> edge s t \<Longrightarrow> t = s"
    and edge_ranks: "edge s t \<Longrightarrow> t \<noteq> s \<Longrightarrow> rank s < rank t"
begin

lemma final_absorbing: "edge\<^sup>*\<^sup>* s t \<Longrightarrow> final s \<Longrightarrow> t = s"
  by (induction rule: rtranclp_induct) (auto dest: final_stays)

lemma reach_ranks: "edge\<^sup>*\<^sup>* s t \<Longrightarrow> t = s \<or> rank s < rank t"
  by (induction rule: rtranclp_induct) (auto dest: edge_ranks less_trans)

lemma no_return: "edge\<^sup>*\<^sup>* s t \<Longrightarrow> edge\<^sup>*\<^sup>* t s \<Longrightarrow> t = s"
  using reach_ranks [of s t] reach_ranks [of t s] by auto

lemma left_for_good: "edge\<^sup>*\<^sup>* s t \<Longrightarrow> t \<noteq> s \<Longrightarrow> \<not> edge\<^sup>*\<^sup>* t s"
  using no_return by blast

lemma history_ranks: "successively (\<lambda>s t. edge s t \<and> t \<noteq> s) (s # ss) \<Longrightarrow> length ss + rank s \<le> rank (last (s # ss))"
proof (induction ss arbitrary: s)
  case (Cons t ts)
  then have "rank s < rank t" by (auto dest: edge_ranks)
  moreover have "length ts + rank t \<le> rank (last (t # ts))" using Cons by simp
  ultimately show ?case by simp
qed simp

end

lemma valid_transition_ranks:
  "is_valid_transition s t \<Longrightarrow> t \<noteq> s \<Longrightarrow> status_rank s < status_rank t"
  by (cases s; cases t) (simp_all add: status_simps status_rank_def)

lemma terminal_no_exit: "is_terminal_status s \<Longrightarrow> is_valid_transition s t \<Longrightarrow> t = s"
  by (cases s; cases t) (simp_all add: status_simps)

interpretation job_life: status_contract is_valid_transition is_terminal_status status_rank
  by unfold_locales (auto intro: terminal_no_exit valid_transition_ranks)

lemma cancel_requested_next:
  "is_valid_transition Cancel_requested t \<Longrightarrow> t \<in> {Cancel_requested, Cancelled, Failed}"
  by (cases t) (simp_all add: status_simps)

lemma cancel_requested_reach:
  "is_valid_transition\<^sup>*\<^sup>* Cancel_requested t \<Longrightarrow> t \<in> {Cancel_requested, Cancelled, Failed}"
proof (induction rule: rtranclp_induct)
  case base
  show ?case by simp
next
  case (step s t)
  then show ?case
    using cancel_requested_next [of t] terminal_no_exit [of s t] by auto
qed

lemma into_succeeded: "is_valid_transition s Succeeded \<Longrightarrow> s = Postprocessing \<or> s = Succeeded"
  by (cases s) (simp_all add: status_simps)

lemma into_queued: "is_valid_transition s Queued \<Longrightarrow> s = Queued"
  by (cases s) (simp_all add: status_simps)

lemma into_preparing: "is_valid_transition s Preparing \<Longrightarrow> s = Queued \<or> s = Preparing"
  by (cases s) (simp_all add: status_simps)

lemma reach_queued: "is_valid_transition\<^sup>*\<^sup>* s Queued \<Longrightarrow> s = Queued"
  by (induction rule: converse_rtranclp_induct) (auto dest: into_queued)

section \<open>Properties\<close>

text \<open>
  C40: what a job can become. Over any sequence of permitted transitions: a terminal
  job keeps its status; a job whose cancellation was requested ends up cancelled or failed, if
  it moves at all, and never succeeds; a job never becomes queued again; a job that
  succeeded either was so at the start or passed through postprocessing; a status once left is
  never taken again; and a history moves at most as often as its end is further along than its
  start, so at most five times in a job's life.
\<close>

theorem status_history_contract:
  "is_valid_transition\<^sup>*\<^sup>* s t \<Longrightarrow>
     (is_terminal_status s \<longrightarrow> t = s) \<and>
     (s = Cancel_requested \<longrightarrow> t \<in> {Cancel_requested, Cancelled, Failed}) \<and>
     (t = Queued \<longrightarrow> s = Queued) \<and>
     (t = Succeeded \<longrightarrow> s = Succeeded \<or> is_valid_transition\<^sup>*\<^sup>* s Postprocessing) \<and>
     (t \<noteq> s \<longrightarrow> \<not> is_valid_transition\<^sup>*\<^sup>* t s) \<and>
     (\<forall>ss. successively (\<lambda>a b. is_valid_transition a b \<and> b \<noteq> a) (s # ss) \<and> last (s # ss) = t \<longrightarrow>
        length ss + status_rank s \<le> status_rank t \<and> length ss \<le> 5)"
proof (intro conjI impI allI)
  assume st: "is_valid_transition\<^sup>*\<^sup>* s t"
  show "is_terminal_status s \<Longrightarrow> t = s" using job_life.final_absorbing [OF st] by simp
  show "s = Cancel_requested \<Longrightarrow> t \<in> {Cancel_requested, Cancelled, Failed}"
    using st cancel_requested_reach by blast
  show "t = Queued \<Longrightarrow> s = Queued" using st reach_queued by blast
  show "s = Succeeded \<or> is_valid_transition\<^sup>*\<^sup>* s Postprocessing" if "t = Succeeded"
    using st that by (induction rule: rtranclp_induct) (auto dest: into_succeeded)
  show "\<not> is_valid_transition\<^sup>*\<^sup>* t s" if "t \<noteq> s" using job_life.left_for_good [OF st that] .
  fix ss
  assume "successively (\<lambda>a b. is_valid_transition a b \<and> b \<noteq> a) (s # ss) \<and> last (s # ss) = t"
  with job_life.history_ranks [of s ss] show moves: "length ss + status_rank s \<le> status_rank t" by simp
  have "status_rank t \<le> 5" by (simp add: status_rank_def)
  with moves show "length ss \<le> 5" by simp
qed

theorem status_history_contract_witness:
  "is_valid_transition\<^sup>*\<^sup>* Cancel_requested Cancelled \<and>
   Cancelled \<in> {Cancel_requested, Cancelled, Failed} \<and> (Cancelled :: job_status) \<noteq> Queued \<and>
   \<not> is_valid_transition\<^sup>*\<^sup>* Cancelled Cancel_requested"
proof -
  have "is_valid_transition Cancel_requested Cancelled" by (simp add: status_simps)
  then have h: "is_valid_transition\<^sup>*\<^sup>* Cancel_requested Cancelled" by (rule r_into_rtranclp)
  show ?thesis using h status_history_contract [OF h] by (intro conjI) simp_all
qed

end
