(* ===== verification/Job_Schemas.thy ===== *)
theory Job_Schemas imports Job_Status Complex_Main begin

text \<open>
  The data the pipeline passes around: JSON values, generation requests and results
  (\<open>core/schemas/generation.py\<close>), reference images (\<open>core/reference_capabilities.py\<close>) and the
  persisted job record (\<open>core/jobs/schemas.py\<close>).

  A JSON object is an association list in insertion order. Python compares dictionaries by
  content and numbers across \<open>bool\<close>, \<open>int\<close> and \<open>float\<close>; \<open>json_eq\<close> and \<open>request_eq\<close> are that
  equality, which the create-or-reuse contract of the job service depends on.
\<close>

section \<open>JSON values\<close>

datatype json =
  JNull | JBool bool | JInt int | JFloat rat | JStr string
| JArr "json list" | JObj "(string \<times> json) list"

definition json_number :: "json \<Rightarrow> rat option" where
  "json_number j =
     (case j of JBool b \<Rightarrow> Some (if b then 1 else 0) | JInt n \<Rightarrow> Some (of_int n)
      | JFloat x \<Rightarrow> Some x | _ \<Rightarrow> None)"

fun json_eq :: "json \<Rightarrow> json \<Rightarrow> bool"
  and json_list_eq :: "json list \<Rightarrow> json list \<Rightarrow> bool"
  and json_fields_in :: "(string \<times> json) list \<Rightarrow> (string \<times> json) list \<Rightarrow> bool" where
  "json_eq JNull y = (y = JNull)"
| "json_eq (JStr a) y = (y = JStr a)"
| "json_eq (JArr xs) y = (case y of JArr ys \<Rightarrow> json_list_eq xs ys | _ \<Rightarrow> False)"
| "json_eq (JObj xs) y =
     (case y of JObj ys \<Rightarrow> length xs = length ys \<and> json_fields_in xs ys | _ \<Rightarrow> False)"
| "json_eq (JBool b) y = (json_number y = Some (if b then 1 else 0))"
| "json_eq (JInt n) y = (json_number y = Some (of_int n))"
| "json_eq (JFloat x) y = (json_number y = Some x)"
| "json_list_eq [] ys = (ys = [])"
| "json_list_eq (x # xs) ys =
     (case ys of [] \<Rightarrow> False | y # ys' \<Rightarrow> json_eq x y \<and> json_list_eq xs ys')"
| "json_fields_in [] ys = True"
| "json_fields_in ((k, x) # xs) ys =
     (case map_of ys k of None \<Rightarrow> False | Some y \<Rightarrow> json_eq x y \<and> json_fields_in xs ys)"

text \<open>Every object has distinct keys, as a dictionary does.\<close>

fun json_ok :: "json \<Rightarrow> bool" where
  "json_ok (JArr xs) = (\<forall>x \<in> set xs. json_ok x)"
| "json_ok (JObj xs) = (distinct (map fst xs) \<and> (\<forall>(k, x) \<in> set xs. json_ok x))"
| "json_ok _ = True"

section \<open>References, requests and results\<close>

datatype media_type = Media_image | Media_video | Media_audio | Media_text

fun media_text :: "media_type \<Rightarrow> string" where
  "media_text Media_image = ''image''"
| "media_text Media_video = ''video''"
| "media_text Media_audio = ''audio''"
| "media_text Media_text = ''text''"

datatype reference_role = Character_role | Location_role

datatype reference_preprocessing = Pre_none | Pre_auto | Pre_face_crop | Pre_canny | Pre_depth

datatype conditioning_mode = Mode_ip_adapter | Mode_img2img

record reference_input =
  ref_asset_id :: string
  ref_role :: reference_role
  ref_strength :: rat
  ref_preprocessing :: reference_preprocessing

record generation_request =
  req_media_type :: media_type
  req_task_type :: "string option"
  req_prompt :: string
  req_negative_prompt :: "string option"
  req_model_id :: string
  req_seed :: "int option"
  req_output_format :: "string option"
  req_params :: "(string \<times> json) list"
  req_references :: "reference_input list"

record generation_result =
  res_job_id :: string
  res_status :: job_status
  res_outputs :: "string list"
  res_previews :: "string list"
  res_metadata :: "(string \<times> json) list"
  res_error_message :: "string option"

definition request_eq :: "generation_request \<Rightarrow> generation_request \<Rightarrow> bool" where
  "request_eq a b \<longleftrightarrow>
     req_media_type a = req_media_type b \<and> req_task_type a = req_task_type b \<and>
     req_prompt a = req_prompt b \<and> req_negative_prompt a = req_negative_prompt b \<and>
     req_model_id a = req_model_id b \<and> req_seed a = req_seed b \<and>
     req_output_format a = req_output_format b \<and>
     json_eq (JObj (req_params a)) (JObj (req_params b)) \<and>
     req_references a = req_references b"

section \<open>Job records\<close>

datatype completion_state = Completion_pending | Completion_done

record job_record =
  jr_id :: string
  jr_project_id :: "string option"
  jr_media_type :: media_type
  jr_status :: job_status
  jr_request :: generation_request
  jr_result :: "generation_result option"
  jr_progress :: rat
  jr_error_message :: "string option"
  jr_completion_state :: completion_state
  jr_completion_error :: "string option"
  jr_created_at :: string
  jr_updated_at :: string

text \<open>\<open>classify_job\<close> looks at the status only.\<close>

definition classify_job :: "job_record \<Rightarrow> recovery_classification" where
  "classify_job job = classify_status (jr_status job)"

section \<open>Equality is reflexive on dictionaries\<close>

lemma json_eq_refl_list: "(\<And>x. x \<in> set xs \<Longrightarrow> json_eq x x) \<Longrightarrow> json_list_eq xs xs"
  by (induction xs) auto

lemma json_fields_refl:
  "(\<forall>(k, x) \<in> set xs. json_eq x x \<and> map_of ys k = Some x) \<Longrightarrow> json_fields_in xs ys"
  by (induction xs) auto

lemma json_eq_refl: "json_ok j \<Longrightarrow> json_eq j j"
proof (induction j)
  case (JArr xs)
  then show ?case by (auto intro: json_eq_refl_list)
next
  case (JObj xs)
  have "json_eq x x" if "(k, x) \<in> set xs" for k x
    by (rule JObj.IH [OF that]) (use JObj.prems that in auto)
  then have "json_fields_in xs xs"
    using JObj.prems by (intro json_fields_refl) auto
  then show ?case by simp
qed (simp_all add: json_number_def)

definition request_ok :: "generation_request \<Rightarrow> bool" where
  "request_ok r \<longleftrightarrow> json_ok (JObj (req_params r))"

lemma request_eq_refl: "request_ok r \<Longrightarrow> request_eq r r"
  unfolding request_ok_def request_eq_def using json_eq_refl [of "JObj (req_params r)"] by blast

end
