(* ===== verification/Job_Store.thy ===== *)
theory Job_Store imports Job_Schemas "HOL-Library.List_Lexorder" "HOL-Library.Product_Lexorder" "HOL-Library.Char_ord" begin

text \<open>
  The \<open>jobs\<close> table of \<open>core/storage/repositories/job_repository.py\<close> as SQLite keeps it, and the
  statements the repository runs against it.

  A row holds what is on disk, readable or not: SQLite enforces neither the JSON of the payload
  columns nor the type of a cell, so each column says whether the models accept it.
  \<open>row_to_record\<close> is the reading of a row, with every reason for \<open>JobRecordDecodeError\<close> as a
  value. A statement is a function of the row list; its \<open>WHERE\<close> clause is a guard on the row it
  updates, evaluated on the row as it is at that moment.
\<close>

section \<open>Rows\<close>

text \<open>A cell the model accepts, or the message its validation fails with.\<close>

datatype 'a column = Good 'a | Bad string

text \<open>
  A nullable text cell. A BLOB is coerced by the model where its bytes are UTF-8 text and
  rejected otherwise.
\<close>

datatype text_cell = Null_cell | Text_cell string | Blob_cell "string option"

text \<open>
  A JSON payload: NULL, one the model accepts, JSON the model rejects with a message, or bytes
  that do not decode, with the decoder's message.
\<close>

datatype 'a payload = Payload_null | Payload 'a | Payload_invalid json string | Payload_broken string

text \<open>A timestamp: an ISO date, other text, or a BLOB.\<close>

datatype time_cell = Iso_time string | Text_time string | Blob_time string

record job_row =
  col_id :: string
  col_project_id :: text_cell
  col_media_type :: "media_type column"
  col_status :: raw_status
  col_request :: "generation_request payload"
  col_result :: "generation_result payload"
  col_progress :: "rat column"
  col_error_message :: text_cell
  col_completion_state :: "completion_state column"
  col_completion_error :: text_cell
  col_created_at :: time_cell
  col_updated_at :: time_cell

section \<open>Writing a payload\<close>

text \<open>\<open>json.dumps(..., sort_keys=True)\<close> and back: the same value with every object's keys sorted.\<close>

fun json_dump :: "json \<Rightarrow> json" where
  "json_dump (JArr xs) = JArr (map json_dump xs)"
| "json_dump (JObj kvs) = JObj (sort_key fst (map (\<lambda>(k, x). (k, json_dump x)) kvs))"
| "json_dump j = j"

fun dump_fields :: "(string \<times> json) list \<Rightarrow> (string \<times> json) list" where
  "dump_fields kvs = (case json_dump (JObj kvs) of JObj kvs' \<Rightarrow> kvs' | _ \<Rightarrow> [])"

definition dump_request :: "generation_request \<Rightarrow> generation_request" where
  "dump_request r = r\<lparr>req_params := dump_fields (req_params r)\<rparr>"

definition dump_result :: "generation_result \<Rightarrow> generation_result" where
  "dump_result r = r\<lparr>res_metadata := dump_fields (res_metadata r)\<rparr>"

definition text_value :: "string option \<Rightarrow> text_cell" where
  "text_value t = (case t of None \<Rightarrow> Null_cell | Some s \<Rightarrow> Text_cell s)"

definition result_value :: "generation_result option \<Rightarrow> generation_result payload" where
  "result_value r = (case r of None \<Rightarrow> Payload_null | Some x \<Rightarrow> Payload (dump_result x))"

definition record_to_row :: "job_record \<Rightarrow> job_row" where
  "record_to_row job =
     \<lparr>col_id = jr_id job, col_project_id = text_value (jr_project_id job),
      col_media_type = Good (jr_media_type job), col_status = Known (jr_status job),
      col_request = Payload (dump_request (jr_request job)), col_result = result_value (jr_result job),
      col_progress = Good (jr_progress job), col_error_message = text_value (jr_error_message job),
      col_completion_state = Good (jr_completion_state job),
      col_completion_error = text_value (jr_completion_error job),
      col_created_at = Iso_time (jr_created_at job), col_updated_at = Iso_time (jr_updated_at job)\<rparr>"

section \<open>Reading a row\<close>

definition and_then :: "'e + 'a \<Rightarrow> ('a \<Rightarrow> 'e + 'b) \<Rightarrow> 'e + 'b" where
  "and_then r f = (case r of Inl e \<Rightarrow> Inl e | Inr x \<Rightarrow> f x)"

definition read_column :: "'a column \<Rightarrow> string + 'a" where
  "read_column c = (case c of Good x \<Rightarrow> Inr x | Bad message \<Rightarrow> Inl message)"

definition read_text :: "text_cell \<Rightarrow> string + string option" where
  "read_text c =
     (case c of Null_cell \<Rightarrow> Inr None | Text_cell s \<Rightarrow> Inr (Some s)
      | Blob_cell (Some s) \<Rightarrow> Inr (Some s) | Blob_cell None \<Rightarrow> Inl ''Input should be a valid string'')"

definition read_request :: "generation_request payload \<Rightarrow> string + generation_request" where
  "read_request c =
     (case c of Payload r \<Rightarrow> Inr r | Payload_null \<Rightarrow> Inl ''Field required''
      | Payload_invalid _ message \<Rightarrow> Inl message | Payload_broken message \<Rightarrow> Inl message)"

definition read_result :: "generation_result payload \<Rightarrow> string + generation_result option" where
  "read_result c =
     (case c of Payload_null \<Rightarrow> Inr None | Payload r \<Rightarrow> Inr (Some r)
      | Payload_invalid j message \<Rightarrow> if j = JNull then Inr None else Inl message
      | Payload_broken message \<Rightarrow> Inl message)"

definition read_time :: "time_cell \<Rightarrow> string + string" where
  "read_time c =
     (case c of Iso_time s \<Rightarrow> Inr s | Text_time _ \<Rightarrow> Inl ''Invalid isoformat string''
      | Blob_time _ \<Rightarrow> Inl ''fromisoformat: argument must be str'')"

definition read_status :: "raw_status \<Rightarrow> string + job_status" where
  "read_status c = (case c of Known s \<Rightarrow> Inr s | Unknown _ \<Rightarrow> Inl ''Input should be a job status'')"

definition read_progress :: "rat column \<Rightarrow> string + rat" where
  "read_progress c =
     and_then (read_column c)
       (\<lambda>p. if 0 \<le> p \<and> p \<le> 1 then Inr p else Inl ''Input should be between 0 and 1'')"

definition row_to_record :: "job_row \<Rightarrow> string + job_record" where
  "row_to_record row =
     and_then (read_request (col_request row)) (\<lambda>request.
     and_then (read_result (col_result row)) (\<lambda>result.
     and_then (read_time (col_created_at row)) (\<lambda>created_at.
     and_then (read_time (col_updated_at row)) (\<lambda>updated_at.
     and_then (if col_id row = [] then Inl ''String should have at least 1 character''
               else Inr (col_id row)) (\<lambda>job_id.
     and_then (read_text (col_project_id row)) (\<lambda>project_id.
     and_then (read_column (col_media_type row)) (\<lambda>media_type.
     and_then (read_status (col_status row)) (\<lambda>status.
     and_then (read_progress (col_progress row)) (\<lambda>progress.
     and_then (read_text (col_error_message row)) (\<lambda>error_message.
     and_then (read_column (col_completion_state row)) (\<lambda>completion_state.
     and_then (read_text (col_completion_error row)) (\<lambda>completion_error.
       Inr \<lparr>jr_id = job_id, jr_project_id = project_id, jr_media_type = media_type,
            jr_status = status, jr_request = request, jr_result = result, jr_progress = progress,
            jr_error_message = error_message, jr_completion_state = completion_state,
            jr_completion_error = completion_error, jr_created_at = created_at,
            jr_updated_at = updated_at\<rparr>))))))))))))"

definition readable :: "job_row \<Rightarrow> bool" where
  "readable row \<longleftrightarrow> (case row_to_record row of Inl _ \<Rightarrow> False | Inr _ \<Rightarrow> True)"

section \<open>Statements\<close>

text \<open>The columns an \<open>UPDATE\<close> of the repository assigns; \<open>None\<close> leaves a column alone.\<close>

record patch =
  pt_status :: "job_status option"
  pt_progress :: "rat option"
  pt_project_id :: "string option option"
  pt_result :: "generation_result option option"
  pt_error_message :: "string option option"

definition no_patch :: patch where
  "no_patch = \<lparr>pt_status = None, pt_progress = None, pt_project_id = None, pt_result = None,
     pt_error_message = None\<rparr>"

definition apply_patch :: "patch \<Rightarrow> string \<Rightarrow> job_row \<Rightarrow> job_row" where
  "apply_patch p now row =
     row\<lparr>col_status := (case pt_status p of None \<Rightarrow> col_status row | Some s \<Rightarrow> Known s),
         col_progress := (case pt_progress p of None \<Rightarrow> col_progress row | Some x \<Rightarrow> Good x),
         col_project_id := (case pt_project_id p of None \<Rightarrow> col_project_id row | Some x \<Rightarrow> text_value x),
         col_result := (case pt_result p of None \<Rightarrow> col_result row | Some x \<Rightarrow> result_value x),
         col_error_message :=
           (case pt_error_message p of None \<Rightarrow> col_error_message row | Some x \<Rightarrow> text_value x),
         col_updated_at := Iso_time now\<rparr>"

definition row_find :: "string \<Rightarrow> job_row list \<Rightarrow> job_row option" where
  "row_find job_id rows = find (\<lambda>row. col_id row = job_id) rows"

text \<open>\<open>UPDATE jobs SET ... WHERE id = ? AND ...\<close>: whether a row matched, and the table after.\<close>

definition sql_update ::
  "string \<Rightarrow> (job_row \<Rightarrow> bool) \<Rightarrow> (job_row \<Rightarrow> job_row) \<Rightarrow> job_row list \<Rightarrow> bool \<times> job_row list" where
  "sql_update job_id guard change rows =
     (case row_find job_id rows of
        None \<Rightarrow> (False, rows)
      | Some row \<Rightarrow>
          if guard row then
            (True, map (\<lambda>r. if col_id r = job_id then change r else r) rows)
          else (False, rows))"

text \<open>The one record the pipeline ever inserts: a new job of the service.\<close>

definition new_job :: "string \<Rightarrow> string option \<Rightarrow> generation_request \<Rightarrow> string \<Rightarrow> job_record" where
  "new_job job_id project_id request now =
     \<lparr>jr_id = job_id, jr_project_id = project_id, jr_media_type = req_media_type request,
      jr_status = Queued, jr_request = request, jr_result = None, jr_progress = 0,
      jr_error_message = None, jr_completion_state = Completion_pending, jr_completion_error = None,
      jr_created_at = now, jr_updated_at = now\<rparr>"

text \<open>\<open>INSERT\<close>: \<open>None\<close> is the \<open>IntegrityError\<close> of a taken primary key.\<close>

definition sql_insert :: "job_row \<Rightarrow> job_row list \<Rightarrow> job_row list option" where
  "sql_insert row rows =
     (case row_find (col_id row) rows of None \<Rightarrow> Some (rows @ [row]) | Some _ \<Rightarrow> None)"

text \<open>The guard of a guarded update: the expected statuses and the transition contract.\<close>

definition update_guard :: "job_status list option \<Rightarrow> job_status option \<Rightarrow> job_row \<Rightarrow> bool" where
  "update_guard expected status row \<longleftrightarrow>
     (case expected of None \<Rightarrow> True | Some es \<Rightarrow> raw_in (col_status row) es) \<and>
     (case status of None \<Rightarrow> True | Some s \<Rightarrow> raw_in (col_status row) (transition_sources s))"

definition quarantine_row :: "string \<Rightarrow> string \<Rightarrow> job_row \<Rightarrow> job_row" where
  "quarantine_row message now row =
     row\<lparr>col_status := Known Failed, col_progress := Good 1,
         col_error_message := Text_cell message, col_updated_at := Iso_time now\<rparr>"

text \<open>Where a cancel request moves a job, and the columns it assigns.\<close>

definition cancel_target :: "job_status \<Rightarrow> job_status option" where
  "cancel_target s =
     (if s = Queued then Some Cancelled
      else if s \<in> {Preparing, Running, Postprocessing} then Some Cancel_requested
      else None)"

definition cancel_patch :: "job_status \<Rightarrow> patch" where
  "cancel_patch target =
     no_patch\<lparr>pt_status := Some target, pt_progress := (if target = Cancelled then Some 1 else None)\<rparr>"

definition cancel_row :: "string \<Rightarrow> job_row \<Rightarrow> job_row" where
  "cancel_row now row =
     (case col_status row of
        Unknown _ \<Rightarrow> row
      | Known s \<Rightarrow>
          (case cancel_target s of None \<Rightarrow> row | Some t \<Rightarrow> apply_patch (cancel_patch t) now row))"

definition status_unknown :: "job_row \<Rightarrow> bool" where
  "status_unknown row \<longleftrightarrow> \<not> raw_in (col_status row) JOB_STATUSES"

definition completion_done_row :: "string \<Rightarrow> job_row \<Rightarrow> job_row" where
  "completion_done_row now row =
     row\<lparr>col_completion_state := Good Completion_done, col_completion_error := Null_cell,
         col_updated_at := Iso_time now\<rparr>"

definition completion_error_row :: "string \<Rightarrow> string \<Rightarrow> job_row \<Rightarrow> job_row" where
  "completion_error_row message now row =
     row\<lparr>col_completion_error := Text_cell message, col_updated_at := Iso_time now\<rparr>"

definition row_terminal :: "job_row \<Rightarrow> bool" where
  "row_terminal row \<longleftrightarrow> raw_in (col_status row) TERMINAL_JOB_STATUSES"

definition completion_pending :: "job_row \<Rightarrow> bool" where
  "completion_pending row \<longleftrightarrow> col_completion_state row = Good Completion_pending"

text \<open>
  \<open>ORDER BY created_at\<close>: text in code-point order, BLOBs after text. SQLite leaves the order of
  equal keys open; here they stay in table order.
\<close>

definition created_key :: "job_row \<Rightarrow> string \<times> string" where
  "created_key row =
     (case col_created_at row of Iso_time s \<Rightarrow> ([], s) | Text_time s \<Rightarrow> ([], s) | Blob_time s \<Rightarrow> (''b'', s))"

definition order_by_created :: "job_row list \<Rightarrow> job_row list" where
  "order_by_created rows = sort_key created_key rows"

definition order_by_created_desc :: "job_row list \<Rightarrow> job_row list" where
  "order_by_created_desc rows = rev (order_by_created (rev rows))"

section \<open>The contract of a guarded store\<close>

text \<open>
  What the pipeline relies on: an update is decided by its guard on the present value and
  changes nothing else.
\<close>

locale guarded_store =
  fixes lookup :: "'k \<Rightarrow> 's \<Rightarrow> 'v option"
    and update :: "'k \<Rightarrow> ('v \<Rightarrow> bool) \<Rightarrow> ('v \<Rightarrow> 'v) \<Rightarrow> 's \<Rightarrow> bool \<times> 's"
    and key :: "'v \<Rightarrow> 'k"
  assumes hit: "lookup k s = Some v \<Longrightarrow> guard v \<Longrightarrow> (\<And>v. key (change v) = key v) \<Longrightarrow>
      fst (update k guard change s) \<and> lookup k (snd (update k guard change s)) = Some (change v)"
    and miss: "(\<And>v. lookup k s = Some v \<Longrightarrow> \<not> guard v) \<Longrightarrow> update k guard change s = (False, s)"
    and frame: "k' \<noteq> k \<Longrightarrow> (\<And>v. key (change v) = key v) \<Longrightarrow>
      lookup k' (snd (update k guard change s)) = lookup k' s"
begin

lemma update_wins:
  assumes "fst (update k guard change s)" and "\<And>v. key (change v) = key v"
  obtains v where "lookup k s = Some v" and "guard v"
    and "lookup k (snd (update k guard change s)) = Some (change v)"
  using assms hit [of k s _ guard change] miss [of k s guard change] by (metis fst_conv)

lemma update_loses:
  assumes "\<not> fst (update k guard change s)" and "\<And>v. key (change v) = key v"
  shows "snd (update k guard change s) = s" and "lookup k s = Some v \<Longrightarrow> \<not> guard v"
  using assms hit [of k s _ guard change] miss [of k s guard change] by (metis snd_conv)+

end

text \<open>
  Values that are born in a known shape and only move along a preorder, and stores that follow
  it key by key.
\<close>

locale lifecycle_store = guarded_store +
  fixes follows :: "'v \<Rightarrow> 'v \<Rightarrow> bool"
    and born :: "'v \<Rightarrow> bool"
    and grows :: "'s \<Rightarrow> 's \<Rightarrow> bool"
  assumes follows_refl: "follows v v"
    and follows_trans: "follows u v \<Longrightarrow> follows v w \<Longrightarrow> follows u w"
    and grows_iff: "grows s s' \<longleftrightarrow>
      (\<forall>k v. lookup k s = Some v \<longrightarrow> (\<exists>v'. lookup k s' = Some v' \<and> follows v v')) \<and>
      (\<forall>k v'. lookup k s = None \<and> lookup k s' = Some v' \<longrightarrow> (\<exists>v. born v \<and> follows v v'))"
begin

lemma grows_refl: "grows s s"
  by (auto simp: grows_iff intro: follows_refl)

lemma grows_old: "grows s t \<Longrightarrow> lookup k s = Some v \<Longrightarrow> \<exists>v'. lookup k t = Some v' \<and> follows v v'"
  by (simp add: grows_iff)

lemma grows_new:
  "grows s t \<Longrightarrow> lookup k s = None \<Longrightarrow> lookup k t = Some v' \<Longrightarrow> \<exists>v. born v \<and> follows v v'"
  by (simp add: grows_iff)

lemma grows_trans:
  assumes "grows r s" and "grows s t"
  shows "grows r t"
proof -
  have "\<exists>v'. lookup k t = Some v' \<and> follows v v'" if "lookup k r = Some v" for k v
    using grows_old [OF assms(1) that] grows_old [OF assms(2)] by (blast intro: follows_trans)
  moreover have "\<exists>v. born v \<and> follows v v'" if absent: "lookup k r = None" and now: "lookup k t = Some v'" for k v'
  proof (cases "lookup k s")
    case None
    with now assms(2) show ?thesis by (blast dest: grows_new)
  next
    case (Some u)
    obtain v where "born v" "follows v u" using grows_new [OF assms(1) absent Some] by blast
    moreover have "follows u v'" using grows_old [OF assms(2) Some] now by auto
    ultimately show ?thesis by (blast intro: follows_trans)
  qed
  ultimately show ?thesis unfolding grows_iff by blast
qed

lemma lookup_update_None:
  assumes "\<And>v. key (change v) = key v" and "lookup k' s = None"
  shows "lookup k' (snd (update k guard change s)) = None"
  using assms(2) frame [of k' k change guard s] miss [of k s guard change] assms(1) by (cases "k' = k") auto

lemma grows_update:
  assumes "\<And>v. key (change v) = key v" and "\<And>v. guard v \<Longrightarrow> follows v (change v)"
  shows "grows s (snd (update k guard change s))"
proof (cases "fst (update k guard change s)")
  case True
  then obtain v where v: "lookup k s = Some v" "guard v"
    "lookup k (snd (update k guard change s)) = Some (change v)"
    using assms(1) by (rule update_wins)
  have "\<exists>u'. lookup k' (snd (update k guard change s)) = Some u' \<and> follows u u'"
    if "lookup k' s = Some u" for k' u
  proof (cases "k' = k")
    case True
    with that v assms(2) show ?thesis by auto
  next
    case False
    with that frame [OF False, of change guard s] assms(1) show ?thesis by (auto intro: follows_refl)
  qed
  with lookup_update_None [OF assms(1)] show ?thesis by (auto simp: grows_iff)
next
  case False
  with update_loses(1) [OF False] assms(1) show ?thesis by (simp add: grows_refl)
qed

text \<open>One winner: an update whose guard never holds again after it is won at most once.\<close>

lemma one_winner:
  assumes "fst (update k guard change s)" and "\<And>v. key (change v) = key v"
    and "\<And>v v'. guard v \<Longrightarrow> follows (change v) v' \<Longrightarrow> \<not> guard' v'"
    and "grows (snd (update k guard change s)) t"
  shows "\<not> fst (update k guard' change' t)"
proof -
  obtain v where v: "guard v" "lookup k (snd (update k guard change s)) = Some (change v)"
    using assms(1,2) by (rule update_wins)
  then obtain v' where "lookup k t = Some v'" "follows (change v) v'"
    using assms(4) unfolding grows_iff by blast
  with v assms(3) miss [of k t guard' change'] show ?thesis by auto
qed

end

section \<open>The jobs table keeps the contract\<close>

lemma row_find_id: "row_find job_id rows = Some row \<Longrightarrow> col_id row = job_id"
  by (auto simp: row_find_def find_Some_iff)

lemma row_find_None: "row_find job_id rows = None \<longleftrightarrow> job_id \<notin> col_id ` set rows"
  by (auto simp: row_find_def find_None_iff image_iff)

lemma row_find_Some_mem: "row_find job_id rows = Some row \<Longrightarrow> row \<in> set rows"
  by (auto simp: row_find_def find_Some_iff)

lemma row_find_append:
  "row_find job_id (rows @ rows') =
     (case row_find job_id rows of None \<Rightarrow> row_find job_id rows' | Some row \<Rightarrow> Some row)"
  by (induction rows) (auto simp: row_find_def)

lemma row_find_single: "row_find job_id [row] = (if col_id row = job_id then Some row else None)"
  by (simp add: row_find_def)

lemma row_find_map:
  "(\<And>row. col_id (change row) = col_id row) \<Longrightarrow>
   row_find a (map (\<lambda>r. if col_id r = b then change r else r) rows) =
     map_option (\<lambda>r. if a = b then change r else r) (row_find a rows)"
  by (induction rows) (auto simp: row_find_def)

text \<open>The life of a row: what the pipeline's statements may change, whoever runs them.\<close>

definition raw_follows :: "raw_status \<Rightarrow> raw_status \<Rightarrow> bool" where
  "raw_follows r r' \<longleftrightarrow>
     (case r of
        Known s \<Rightarrow> (\<exists>t. r' = Known t \<and> is_valid_transition\<^sup>*\<^sup>* s t)
      | Unknown _ \<Rightarrow> r' = r \<or> r' = Known Failed)"

definition row_follows :: "job_row \<Rightarrow> job_row \<Rightarrow> bool" where
  "row_follows row row' \<longleftrightarrow>
     col_id row' = col_id row \<and> raw_follows (col_status row) (col_status row') \<and>
     col_request row' = col_request row \<and> col_media_type row' = col_media_type row \<and>
     col_created_at row' = col_created_at row \<and>
     (col_completion_state row' \<noteq> col_completion_state row \<longrightarrow>
        col_completion_state row' = Good Completion_done \<and> row_terminal row')"

text \<open>A row begins its life queued, its completion still owed.\<close>

definition fresh_row :: "job_row \<Rightarrow> bool" where
  "fresh_row row \<longleftrightarrow>
     col_status row = Known Queued \<and> col_completion_state row = Good Completion_pending"

definition table_follows :: "job_row list \<Rightarrow> job_row list \<Rightarrow> bool" where
  "table_follows rows rows' \<longleftrightarrow>
     (\<forall>job_id row. row_find job_id rows = Some row \<longrightarrow>
        (\<exists>row'. row_find job_id rows' = Some row' \<and> row_follows row row')) \<and>
     (\<forall>job_id row'. row_find job_id rows = None \<and> row_find job_id rows' = Some row' \<longrightarrow>
        (\<exists>row. fresh_row row \<and> row_follows row row'))"

lemma raw_follows_refl: "raw_follows r r"
  by (cases r) (auto simp: raw_follows_def)

lemma terminal_stays: "is_valid_transition\<^sup>*\<^sup>* s t \<Longrightarrow> s \<in> set TERMINAL_JOB_STATUSES \<Longrightarrow> t = s"
  using job_life.final_absorbing [of s t] by (auto simp: is_terminal_status_def)

lemma failed_stays: "is_valid_transition\<^sup>*\<^sup>* Failed t \<longleftrightarrow> t = Failed"
  using terminal_stays [of Failed t] by (auto simp: TERMINAL_JOB_STATUSES_def)

lemma raw_follows_trans: "raw_follows p q \<Longrightarrow> raw_follows q r \<Longrightarrow> raw_follows p r"
  by (cases p; cases q) (auto simp: raw_follows_def failed_stays intro: rtranclp_trans)

lemma raw_terminal_stays:
  "raw_in r TERMINAL_JOB_STATUSES \<Longrightarrow> raw_follows r r' \<Longrightarrow> r' = r"
  by (cases r) (auto simp: raw_follows_def terminal_stays)

lemma row_follows_refl: "row_follows row row"
  by (simp add: row_follows_def raw_follows_refl)

lemma row_follows_trans: "row_follows p q \<Longrightarrow> row_follows q r \<Longrightarrow> row_follows p r"
  unfolding row_follows_def row_terminal_def
  by (metis raw_follows_trans raw_terminal_stays)

interpretation jobs_table: lifecycle_store row_find sql_update col_id row_follows fresh_row table_follows
proof unfold_locales
  show "fst (sql_update k guard change s) \<and> row_find k (snd (sql_update k guard change s)) = Some (change v)"
    if "row_find k s = Some v" "guard v" "\<And>v. col_id (change v) = col_id v" for k s v guard change
    using that by (simp add: sql_update_def row_find_map)
  show "sql_update k guard change s = (False, s)"
    if "\<And>v. row_find k s = Some v \<Longrightarrow> \<not> guard v" for k s guard change
    using that by (simp add: sql_update_def split: option.splits)
  show "row_find k' (snd (sql_update k guard change s)) = row_find k' s"
    if "k' \<noteq> k" "\<And>v. col_id (change v) = col_id v" for k' k s guard change
    using that by (simp add: sql_update_def row_find_map option.map_ident split: option.splits)
qed (auto simp: table_follows_def intro: row_follows_refl row_follows_trans)

lemma table_follows_find:
  assumes "table_follows rows rows'" and "row_find job_id rows = Some row"
  obtains row' where "row_find job_id rows' = Some row'" and "row_follows row row'"
  using jobs_table.grows_old [OF assms] by blast

lemma table_follows_insert:
  "sql_insert row rows = Some rows' \<Longrightarrow> fresh_row row \<Longrightarrow> table_follows rows rows'"
  using row_follows_refl [of row]
  by (auto simp: sql_insert_def table_follows_def row_find_append row_find_single
      intro: row_follows_refl split: option.splits if_splits)

text \<open>The primary key.\<close>

definition ids_unique :: "job_row list \<Rightarrow> bool" where
  "ids_unique rows \<longleftrightarrow> distinct (map col_id rows)"

lemma sql_update_ids:
  "(\<And>row. col_id (change row) = col_id row) \<Longrightarrow>
   ids_unique (snd (sql_update job_id guard change rows)) = ids_unique rows"
proof -
  assume "\<And>row. col_id (change row) = col_id row"
  then have "map col_id (snd (sql_update job_id guard change rows)) = map col_id rows"
    by (auto simp: sql_update_def comp_def split: option.splits)
  then show ?thesis by (simp add: ids_unique_def)
qed

lemma sql_insert_ids: "sql_insert row rows = Some rows' \<Longrightarrow> ids_unique rows \<Longrightarrow> ids_unique rows'"
  by (auto simp: sql_insert_def ids_unique_def row_find_None split: option.splits)

section \<open>What each statement does to a row\<close>

named_theorems row_simps \<open>columns of a row after a statement\<close>

lemma apply_patch_columns [row_simps]:
  "col_id (apply_patch p now row) = col_id row"
  "col_request (apply_patch p now row) = col_request row"
  "col_media_type (apply_patch p now row) = col_media_type row"
  "col_created_at (apply_patch p now row) = col_created_at row"
  "col_completion_state (apply_patch p now row) = col_completion_state row"
  "col_completion_error (apply_patch p now row) = col_completion_error row"
  "col_status (apply_patch p now row) = (case pt_status p of None \<Rightarrow> col_status row | Some s \<Rightarrow> Known s)"
  "col_updated_at (apply_patch p now row) = Iso_time now"
  by (simp_all add: apply_patch_def)

lemma update_guard_follows:
  "update_guard expected (pt_status p) row \<Longrightarrow> row_follows row (apply_patch p now row)"
  using raw_follows_refl [of "col_status row"]
  by (cases "pt_status p")
    (auto simp: row_follows_def row_simps update_guard_def raw_follows_def raw_in_iff
      transition_sources_iff split: option.splits)

lemma quarantine_columns [row_simps]:
  "col_id (quarantine_row m now row) = col_id row"
  "col_status (quarantine_row m now row) = Known Failed"
  "col_request (quarantine_row m now row) = col_request row"
  by (simp_all add: quarantine_row_def)

lemma quarantine_follows: "status_unknown row \<Longrightarrow> row_follows row (quarantine_row m now row)"
  by (cases "col_status row")
    (auto simp: status_unknown_def raw_in_JOB_STATUSES row_follows_def quarantine_row_def raw_follows_def)

lemma completion_columns [row_simps]:
  "col_id (completion_done_row now row) = col_id row"
  "col_status (completion_done_row now row) = col_status row"
  "col_id (completion_error_row m now row) = col_id row"
  "col_status (completion_error_row m now row) = col_status row"
  by (simp_all add: completion_done_row_def completion_error_row_def)

lemma completion_done_follows: "row_terminal row \<Longrightarrow> row_follows row (completion_done_row now row)"
  by (auto simp: row_follows_def completion_done_row_def row_terminal_def raw_follows_refl)

lemma completion_error_follows: "row_follows row (completion_error_row m now row)"
  by (auto simp: row_follows_def completion_error_row_def raw_follows_refl)

lemma cancel_target_valid: "cancel_target s = Some t \<Longrightarrow> is_valid_transition s t"
  by (cases s) (auto simp: cancel_target_def status_simps)

lemma cancel_columns [row_simps]: "col_id (cancel_row now row) = col_id row"
  by (auto simp: cancel_row_def row_simps split: raw_status.splits option.splits)

lemma cancel_follows: "row_follows row (cancel_row now row)"
proof (cases "\<exists>s t. col_status row = Known s \<and> cancel_target s = Some t")
  case True
  then obtain s t where st: "col_status row = Known s" "cancel_target s = Some t" by blast
  have "update_guard (Some [s]) (pt_status (cancel_patch t)) row"
    using st cancel_target_valid [OF st(2)]
    by (simp add: update_guard_def cancel_patch_def transition_sources_iff)
  from update_guard_follows [OF this] st show ?thesis by (simp add: cancel_row_def)
next
  case False
  then have "cancel_row now row = row" by (auto simp: cancel_row_def split: raw_status.splits option.splits)
  then show ?thesis by (simp add: row_follows_refl)
qed

lemmas statement_follows = cancel_follows
  update_guard_follows quarantine_follows completion_done_follows completion_error_follows

section \<open>Reading what was written\<close>

lemma and_then_Inr: "and_then r f = Inr y \<longleftrightarrow> (\<exists>x. r = Inr x \<and> f x = Inr y)"
  by (cases r) (auto simp: and_then_def)

lemma read_column_Inr: "read_column c = Inr x \<longleftrightarrow> c = Good x"
  by (cases c) (auto simp: read_column_def)

lemma read_status_Inr: "read_status c = Inr x \<longleftrightarrow> c = Known x"
  by (cases c) (auto simp: read_status_def)

lemma read_request_Inr: "read_request c = Inr x \<longleftrightarrow> c = Payload x"
  by (cases c) (auto simp: read_request_def)

lemma read_progress_Inr: "read_progress c = Inr x \<longleftrightarrow> c = Good x \<and> 0 \<le> x \<and> x \<le> 1"
  by (auto simp: read_progress_def and_then_Inr read_column_Inr)

lemma if_Inr: "(if c then Inl e else Inr x) = Inr y \<longleftrightarrow> \<not> c \<and> x = y"
  by simp

lemmas read_Inr = and_then_Inr read_column_Inr read_status_Inr read_request_Inr read_progress_Inr if_Inr

text \<open>What reading a row means, column by column.\<close>

definition reads_as :: "job_row \<Rightarrow> job_record \<Rightarrow> bool" where
  "reads_as row j \<longleftrightarrow>
     col_id row \<noteq> [] \<and> jr_id j = col_id row \<and> col_status row = Known (jr_status j) \<and>
     col_request row = Payload (jr_request j) \<and> col_media_type row = Good (jr_media_type j) \<and>
     col_progress row = Good (jr_progress j) \<and> 0 \<le> jr_progress j \<and> jr_progress j \<le> 1 \<and>
     read_result (col_result row) = Inr (jr_result j) \<and>
     read_text (col_error_message row) = Inr (jr_error_message j) \<and>
     read_text (col_project_id row) = Inr (jr_project_id j) \<and>
     read_text (col_completion_error row) = Inr (jr_completion_error j) \<and>
     col_completion_state row = Good (jr_completion_state j) \<and>
     read_time (col_created_at row) = Inr (jr_created_at j) \<and>
     read_time (col_updated_at row) = Inr (jr_updated_at j)"

lemma row_to_record_iff: "row_to_record row = Inr j \<longleftrightarrow> reads_as row j"
proof
  show "row_to_record row = Inr j \<Longrightarrow> reads_as row j"
    unfolding row_to_record_def read_Inr reads_as_def by (elim exE conjE) (auto simp: Let_def)
  show "reads_as row j \<Longrightarrow> row_to_record row = Inr j"
    unfolding row_to_record_def read_Inr reads_as_def by (intro exI conjI) auto
qed

lemma readable_iff: "readable row \<longleftrightarrow> (\<exists>j. reads_as row j)"
  by (auto simp: readable_def row_to_record_iff [symmetric] split: sum.splits)

lemma read_value [simp]:
  "read_text (text_value t) = Inr t" "read_result (result_value r) = Inr (map_option dump_result r)"
  by (cases t; simp add: read_text_def text_value_def)
    (cases r; simp add: read_result_def result_value_def)

definition patch_ok :: "patch \<Rightarrow> bool" where
  "patch_ok p \<longleftrightarrow> (case pt_progress p of None \<Rightarrow> True | Some x \<Rightarrow> 0 \<le> x \<and> x \<le> 1)"

definition patched :: "patch \<Rightarrow> string \<Rightarrow> job_record \<Rightarrow> job_record" where
  "patched p now j =
     j\<lparr>jr_status := (case pt_status p of None \<Rightarrow> jr_status j | Some s \<Rightarrow> s),
       jr_progress := (case pt_progress p of None \<Rightarrow> jr_progress j | Some x \<Rightarrow> x),
       jr_project_id := (case pt_project_id p of None \<Rightarrow> jr_project_id j | Some x \<Rightarrow> x),
       jr_result := (case pt_result p of None \<Rightarrow> jr_result j | Some x \<Rightarrow> map_option dump_result x),
       jr_error_message := (case pt_error_message p of None \<Rightarrow> jr_error_message j | Some x \<Rightarrow> x),
       jr_updated_at := now\<rparr>"

lemma reads_as_patch:
  "reads_as row j \<Longrightarrow> patch_ok p \<Longrightarrow> reads_as (apply_patch p now row) (patched p now j)"
  by (auto simp: reads_as_def apply_patch_def patched_def patch_ok_def read_time_def split: option.splits)

lemma reads_as_unique: "reads_as row j \<Longrightarrow> reads_as row j' \<Longrightarrow> j = j'"
  by (simp add: row_to_record_iff [symmetric])

lemma json_fields_in_iff:
  "json_fields_in xs ys \<longleftrightarrow> (\<forall>(k, x) \<in> set xs. \<exists>y. map_of ys k = Some y \<and> json_eq x y)"
  by (induction xs) (auto split: option.splits)

lemma json_list_eq_map: "(\<And>x. x \<in> set xs \<Longrightarrow> json_eq (f x) x) \<Longrightarrow> json_list_eq (map f xs) xs"
  by (induction xs) auto

lemma json_eq_dump: "json_ok j \<Longrightarrow> json_eq (json_dump j) j"
proof (induction j rule: json_dump.induct)
  case (1 xs)
  then show ?case by (auto intro: json_list_eq_map)
next
  case (2 kvs)
  have "json_eq (json_dump x) x \<and> map_of kvs k = Some x" if "(k, x) \<in> set kvs" for k x
    using 2 that by fastforce
  then show ?case by (auto simp: json_fields_in_iff)
qed (simp_all add: json_number_def)

lemma request_eq_dump: "request_ok r \<Longrightarrow> request_eq (dump_request r) r"
  using json_eq_dump [of "JObj (req_params r)"]
  by (simp add: request_ok_def request_eq_def dump_request_def)

definition stored :: "job_record \<Rightarrow> job_record" where
  "stored job = job\<lparr>jr_request := dump_request (jr_request job),
     jr_result := map_option dump_result (jr_result job)\<rparr>"

definition record_ok :: "job_record \<Rightarrow> bool" where
  "record_ok job \<longleftrightarrow> jr_id job \<noteq> [] \<and> 0 \<le> jr_progress job \<and> jr_progress job \<le> 1"

lemma reads_as_record: "record_ok job \<Longrightarrow> reads_as (record_to_row job) (stored job)"
  by (auto simp: reads_as_def record_to_row_def stored_def record_ok_def read_time_def)

lemma fresh_new_job [simp]: "fresh_row (record_to_row (new_job job_id project_id request now))"
  by (simp add: fresh_row_def record_to_row_def new_job_def)

lemma record_to_row_columns [row_simps]:
  "col_id (record_to_row job) = jr_id job" "col_status (record_to_row job) = Known (jr_status job)"
  by (simp_all add: record_to_row_def)

section \<open>A record's row\<close>

text \<open>
  The row a record is written to reads back as that record, with the keys of its JSON objects sorted.
  What a column holds is taken as the value it encodes: the encodings themselves (\<open>model_dump\<close>,
  \<open>json.dumps\<close>, ISO dates) and \<open>_normalize_timestamp\<close>, which gives a date without a zone UTC's, are
  not modelled, so this says which columns a record is made of and read from, and no more.
\<close>

lemma job_row_round_trip:
  "record_ok job \<Longrightarrow> request_ok (jr_request job) \<Longrightarrow>
     row_to_record (record_to_row job) = Inr (stored job) \<and>
     request_eq (jr_request (stored job)) (jr_request job)"
  by (auto simp: row_to_record_iff reads_as_record stored_def [symmetric]) (simp add: stored_def request_eq_dump)

definition sample_job_request :: generation_request where
  "sample_job_request = \<lparr>req_media_type = Media_image, req_task_type = None, req_prompt = ''a pot'',
     req_negative_prompt = None, req_model_id = ''sdxl'', req_seed = Some 7, req_output_format = None,
     req_params = [(''width'', JInt 512), (''height'', JInt 512)], req_references = []\<rparr>"

definition sample_job :: job_record where
  "sample_job = \<lparr>jr_id = ''job_1'', jr_project_id = None, jr_media_type = Media_image,
     jr_status = Queued, jr_request = sample_job_request, jr_result = None, jr_progress = 0,
     jr_error_message = None, jr_completion_state = Completion_pending, jr_completion_error = None,
     jr_created_at = ''t0'', jr_updated_at = ''t0''\<rparr>"

end
