(* ===== verification/Json_Store.thy ===== *)
theory Json_Store imports Job_Store "HOL-Library.AList" begin

text \<open>
  Dictionaries of JSON values, and a directory of JSON documents, one file per document, as
  the asset and story repositories keep them (\<open>core/storage/json_files.py\<close>).

  A file holds a document of the repository's type or content that does not load as one.
  \<open>write_json_atomic\<close> replaces a file in one step or not at all, so a directory's files are
  always whole. The state of a directory is an association list; listings are sorted by file
  name, as the repositories sort them.
\<close>

section \<open>Dictionaries\<close>

type_synonym dict = "(string \<times> json) list"

definition dict_set :: "string \<Rightarrow> json \<Rightarrow> dict \<Rightarrow> dict" where
  "dict_set = AList.update"

definition dict_pop :: "string \<Rightarrow> dict \<Rightarrow> dict" where
  "dict_pop = AList.delete"

fun dict_update :: "dict \<Rightarrow> dict \<Rightarrow> dict" where
  "dict_update d [] = d"
| "dict_update d ((k, v) # e) = dict_update (dict_set k v d) e"

text \<open>Python's truth value of a JSON value.\<close>

fun json_truthy :: "json \<Rightarrow> bool" where
  "json_truthy JNull = False"
| "json_truthy (JBool b) = b"
| "json_truthy (JInt n) = (n \<noteq> 0)"
| "json_truthy (JFloat x) = (x \<noteq> 0)"
| "json_truthy (JStr s) = (s \<noteq> [])"
| "json_truthy (JArr xs) = (xs \<noteq> [])"
| "json_truthy (JObj kvs) = (kvs \<noteq> [])"

definition dict_eq :: "dict \<Rightarrow> dict \<Rightarrow> bool" where
  "dict_eq d e = json_eq (JObj d) (JObj e)"

definition dict_ok :: "dict \<Rightarrow> bool" where
  "dict_ok d = json_ok (JObj d)"

lemma dict_get_set [simp]: "map_of (dict_set k v d) = (map_of d)(k \<mapsto> v)"
  by (simp add: dict_set_def update_conv')

lemma dict_get_update: "map_of (dict_update d e) = map_of d ++ map_of (rev e)"
  by (induction d e rule: dict_update.induct) (auto simp: map_add_def fun_eq_iff split: option.splits)

lemma dict_keys_set: "fst ` set (dict_set k v d) = insert k (fst ` set d)"
  by (simp add: dict_set_def update_conv' flip: dom_map_of_conv_image_fst)

lemma dict_distinct_set [simp]: "distinct (map fst d) \<Longrightarrow> distinct (map fst (dict_set k v d))"
  by (simp add: dict_set_def distinct_update)

lemma dict_distinct_update [simp]: "distinct (map fst d) \<Longrightarrow> distinct (map fst (dict_update d e))"
  by (induction d e rule: dict_update.induct) auto

lemma dict_eq_iff:
  assumes "distinct (map fst d)" and "distinct (map fst e)"
  shows "dict_eq d e \<longleftrightarrow>
     dom (map_of d) = dom (map_of e) \<and>
     (\<forall>k x y. map_of d k = Some x \<and> map_of e k = Some y \<longrightarrow> json_eq x y)"
proof -
  have keys: "length d = card (dom (map_of d))" "length e = card (dom (map_of e))"
    using assms by (simp_all add: dom_map_of_conv_image_fst distinct_card flip: set_map)
  have fin: "finite (dom (map_of d))" "finite (dom (map_of e))" by (simp_all add: finite_dom_map_of)
  show ?thesis
  proof
    assume eq: "dict_eq d e"
    then have fields: "\<forall>(k, x) \<in> set d. \<exists>y. map_of e k = Some y \<and> json_eq x y" and len: "length d = length e"
      by (simp_all add: dict_eq_def json_fields_in_iff)
    have "dom (map_of d) \<subseteq> dom (map_of e)"
    proof
      fix k assume "k \<in> dom (map_of d)"
      then obtain x where "(k, x) \<in> set d" using map_of_SomeD by fastforce
      with fields show "k \<in> dom (map_of e)" by fastforce
    qed
    then have "dom (map_of d) = dom (map_of e)" using len keys fin by (metis card_subset_eq)
    moreover have "json_eq x y" if "map_of d k = Some x" "map_of e k = Some y" for k x y
      using fields that map_of_SomeD by fastforce
    ultimately show "dom (map_of d) = dom (map_of e) \<and>
        (\<forall>k x y. map_of d k = Some x \<and> map_of e k = Some y \<longrightarrow> json_eq x y)" by blast
  next
    assume same: "dom (map_of d) = dom (map_of e) \<and>
        (\<forall>k x y. map_of d k = Some x \<and> map_of e k = Some y \<longrightarrow> json_eq x y)"
    then have "length d = length e" using keys by simp
    moreover have "\<exists>y. map_of e k = Some y \<and> json_eq x y" if "(k, x) \<in> set d" for k x
    proof -
      have "map_of d k = Some x" using assms(1) that by simp
      moreover from this have "k \<in> dom (map_of e)" using same by auto
      ultimately show ?thesis using same by blast
    qed
    ultimately show "dict_eq d e" by (auto simp: dict_eq_def json_fields_in_iff)
  qed
qed

lemma dict_ok_iff: "dict_ok d \<longleftrightarrow> distinct (map fst d) \<and> (\<forall>k v. map_of d k = Some v \<longrightarrow> json_ok v)"
proof -
  have "distinct (map fst d) \<Longrightarrow> (\<forall>(k, v) \<in> set d. json_ok v) = (\<forall>k v. map_of d k = Some v \<longrightarrow> json_ok v)"
    by (auto dest: map_of_SomeD)
  then show ?thesis by (auto simp: dict_ok_def)
qed

lemma dict_ok_Nil [simp]: "dict_ok []"
  by (simp add: dict_ok_def)

lemma dict_ok_set: "dict_ok d \<Longrightarrow> json_ok v \<Longrightarrow> dict_ok (dict_set k v d)"
  by (auto simp: dict_ok_iff split: if_splits)

lemma dict_ok_pop: "dict_ok d \<Longrightarrow> dict_ok (dict_pop k d)"
  by (auto simp: dict_ok_iff dict_pop_def distinct_delete delete_conv' split: if_splits)

lemma dict_ok_update: "dict_ok d \<Longrightarrow> dict_ok e \<Longrightarrow> dict_ok (dict_update d e)"
proof (induction d e rule: dict_update.induct)
  case (2 d k v e)
  then show ?case by (auto simp: dict_ok_def [of "_ # _"] dict_ok_def [of e] intro!: dict_ok_set)
qed simp

lemma dict_eq_same: "dict_ok d \<Longrightarrow> dict_ok e \<Longrightarrow> map_of d = map_of e \<Longrightarrow> dict_eq d e"
  by (subst dict_eq_iff; simp add: dict_ok_iff del: map_of_eq_Some_iff) (metis json_eq_refl option.inject)

section \<open>Directories\<close>

datatype 'd json_file = Document 'd | Malformed

type_synonym 'd directory = "(string \<times> 'd json_file) list"

definition dir_write :: "string \<Rightarrow> 'd \<Rightarrow> 'd directory \<Rightarrow> 'd directory" where
  "dir_write name doc dir = AList.update name (Document doc) dir"

definition dir_change :: "string \<Rightarrow> 'd json_file option \<Rightarrow> 'd directory \<Rightarrow> 'd directory" where
  "dir_change name f dir = (case f of None \<Rightarrow> AList.delete name dir | Some x \<Rightarrow> AList.update name x dir)"

text \<open>\<open>_try_load\<close>: a document that does not load is none.\<close>

definition loaded :: "'d json_file option \<Rightarrow> 'd option" where
  "loaded f = (case f of Some (Document d) \<Rightarrow> Some d | _ \<Rightarrow> None)"

definition dir_get :: "string \<Rightarrow> 'd directory \<Rightarrow> 'd option" where
  "dir_get name dir = loaded (map_of dir name)"

definition dir_names :: "'d directory \<Rightarrow> string list" where
  "dir_names dir = sort_key (\<lambda>name. name @ ''.json'') (map fst dir)"

lemma dir_find_write [simp]: "map_of (dir_write name doc dir) = (map_of dir)(name \<mapsto> Document doc)"
  by (simp add: dir_write_def update_conv')

lemma dir_get_write [simp]: "dir_get a (dir_write name doc dir) = (if a = name then Some doc else dir_get a dir)"
  by (simp add: dir_get_def loaded_def)

lemma dir_names_set [simp]: "set (dir_names dir) = fst ` set dir"
  by (simp add: dir_names_def)

end
