(* ===== verification/Media_Schemas.thy ===== *)
theory Media_Schemas imports Json_Store begin

text \<open>
  What the studio keeps of finished work: the asset records of \<open>core/assets/__init__.py\<close> and the
  story documents of \<open>core/story/schemas.py\<close>. A time is its text, as in the job records.
\<close>

section \<open>Assets\<close>

record asset =
  as_id :: string
  as_job_id :: string
  as_project_id :: "string option"
  as_media_type :: string
  as_kind :: string
  as_title :: string
  as_prompt :: string
  as_model_id :: string
  as_path :: string
  as_preview_path :: "string option"
  as_parent_asset_id :: "string option"
  as_lineage :: "string list"
  as_export_paths :: "string list"
  as_tags :: "string list"
  as_metadata :: dict
  as_created_at :: string
  as_updated_at :: string

section \<open>Stories\<close>

record beat =
  bt_id :: string
  bt_act :: string
  bt_purpose :: string
  bt_summary :: string
  bt_order :: int

record dialogue_line =
  dl_speaker :: string
  dl_text :: string
  dl_direction :: "string option"

record scene =
  sc_id :: string
  sc_order :: int
  sc_beat_id :: "string option"
  sc_heading :: string
  sc_summary :: string
  sc_narration :: string
  sc_dialogue :: "dialogue_line list"
  sc_image_prompt :: string
  sc_image_negative :: string
  sc_bgm_mood :: string
  sc_duration_seconds :: rat
  sc_camera :: string
  sc_bible_refs :: "string list"
  sc_asset_ids :: "(string \<times> string) list"
  sc_job_ids :: "string list"

record story_chapter =
  ch_id :: string
  ch_order :: int
  ch_title :: string
  ch_prose_markdown :: string
  ch_word_count :: int
  ch_continuity_as_of :: "string option"
  ch_stale_after :: "string option"

record story_document =
  st_id :: string
  st_title :: string
  st_project_id :: "string option"
  st_logline :: string
  st_premise :: string
  st_genre :: string
  st_tone :: string
  st_audience :: string
  st_language :: string
  st_format :: string
  st_structure :: string
  st_characters :: "string list"
  st_beats :: "beat list"
  st_scenes :: "scene list"
  st_chapters :: "story_chapter list"
  st_source_job_ids :: "string list"
  st_metadata :: dict
  st_created_at :: string
  st_updated_at :: string

definition SCENE_ASSET_ROLES :: "string list" where
  "SCENE_ASSET_ROLES = [''visual'', ''narration'', ''music'']"

definition STORY_FORMATS :: "string list" where
  "STORY_FORMATS = [''short-video'', ''novel'', ''picture-book'', ''ad'']"

end
