(* ===== verification/Py_Float.thy ===== *)
theory Py_Float imports Complex_Main "HOL-Library.Log_Nat" begin

text \<open>
  Python floats as exact rationals with the rounding of IEEE binary64 written out: \<open>fl\<close> rounds a
  rational to the nearest double, ties to even, down to the subnormal spacing \<open>2 ^ -1074\<close>, and
  every float operation of the code is the exact operation followed by \<open>fl\<close>. Infinities and NaN
  are outside the model: the code that uses it works on bounded fractions. The one fact the rest
  needs is that rounding is monotone, so that bounds survive it.
\<close>

section \<open>Rounding\<close>

definition half_even :: "rat \<Rightarrow> int" where
  "half_even q =
     (let f = \<lfloor>q\<rfloor>; d = q - of_int f in
      if d < 1 / 2 then f else if 1 / 2 < d then f + 1 else if even f then f else f + 1)"

definition pow2 :: "int \<Rightarrow> rat" where
  "pow2 k = (if 0 \<le> k then 2 ^ nat k else 1 / 2 ^ nat (- k))"

text \<open>The binade of a positive rational: \<open>pow2 (binade x) \<le> x < pow2 (binade x + 1)\<close>.\<close>

definition binade :: "rat \<Rightarrow> int" where
  "binade x =
     (let (n, d) = quotient_of x;
          k = bitlen n - bitlen d in
      if pow2 k \<le> x then k else k - 1)"

definition fl_pos :: "rat \<Rightarrow> rat" where
  "fl_pos x = (let e = max (binade x - 52) (- 1074) in of_int (half_even (x / pow2 e)) * pow2 e)"

definition fl :: "rat \<Rightarrow> rat" where
  "fl x = (if x = 0 then 0 else if x < 0 then - fl_pos (- x) else fl_pos x)"

definition fadd :: "rat \<Rightarrow> rat \<Rightarrow> rat" where "fadd x y = fl (x + y)"

definition fsub :: "rat \<Rightarrow> rat \<Rightarrow> rat" where "fsub x y = fl (x - y)"

definition fmul :: "rat \<Rightarrow> rat \<Rightarrow> rat" where "fmul x y = fl (x * y)"

text \<open>\<open>int(x)\<close> of a float: towards zero.\<close>

definition py_trunc :: "rat \<Rightarrow> int" where
  "py_trunc x = (if 0 \<le> x then \<lfloor>x\<rfloor> else \<lceil>x\<rceil>)"

section \<open>Monotonicity\<close>

lemma half_even_bounds: "\<lfloor>q\<rfloor> \<le> half_even q \<and> half_even q \<le> \<lfloor>q\<rfloor> + 1"
  by (simp add: half_even_def Let_def)

lemma half_even_mono:
  assumes "x \<le> y" shows "half_even x \<le> half_even y"
proof (cases "\<lfloor>x\<rfloor> = \<lfloor>y\<rfloor>")
  case True
  with assms show ?thesis by (auto simp: half_even_def Let_def)
next
  case False
  then have "\<lfloor>x\<rfloor> + 1 \<le> \<lfloor>y\<rfloor>" using floor_mono [OF assms] by linarith
  then show ?thesis using half_even_bounds [of x] half_even_bounds [of y] by linarith
qed

lemma half_even_of_int [simp]: "half_even (of_int n) = n"
  by (simp add: half_even_def)

lemma half_even_le: "x \<le> of_int n \<Longrightarrow> half_even x \<le> n"
  using half_even_mono [of x "of_int n"] by simp

lemma half_even_ge: "of_int n \<le> x \<Longrightarrow> n \<le> half_even x"
  using half_even_mono [of "of_int n" x] by simp

lemma pow2_pos [simp]: "0 < pow2 k"
  by (simp add: pow2_def)

lemma pow2_power_int: "pow2 k = 2 powi k"
  by (simp add: pow2_def power_int_def power_one_over field_simps)

lemma pow2_add: "pow2 (a + b) = pow2 a * pow2 b"
  by (simp add: pow2_power_int power_int_add)

lemma pow2_mono: "a \<le> b \<Longrightarrow> pow2 a \<le> pow2 b"
  by (simp add: pow2_power_int power_int_increasing)

lemma pow2_less: "pow2 a < pow2 b \<Longrightarrow> a < b"
  using pow2_mono [of b a] by fastforce

lemma pow2_nat: "pow2 (int n) = 2 ^ n"
  by (simp add: pow2_def)

lemma bit_length_bounds:
  assumes "0 < n"
  shows "pow2 (int (floorlog 2 n) - 1) \<le> of_nat n \<and> of_nat n < pow2 (int (floorlog 2 n))"
proof -
  have b: "2 ^ (floorlog 2 n - 1) \<le> n" "n < 2 ^ floorlog 2 n" "0 < floorlog 2 n"
    using assms floorlog_bounds [of n 2] by (auto simp: floorlog_def)
  have "(2::rat) ^ (floorlog 2 n - 1) \<le> of_nat n" "of_nat n < (2::rat) ^ floorlog 2 n"
    using b(1,2) by (metis of_nat_le_iff of_nat_power of_nat_numeral,
        metis of_nat_less_iff of_nat_power of_nat_numeral)
  moreover have "int (floorlog 2 n) - 1 = int (floorlog 2 n - 1)" using b(3) by simp
  ultimately show ?thesis by (simp only: pow2_nat)
qed

lemma binade_bounds:
  assumes "0 < x"
  shows "pow2 (binade x) \<le> x \<and> x < pow2 (binade x + 1)"
proof -
  obtain n d where q: "quotient_of x = (n, d)" by (cases "quotient_of x")
  have x: "x = of_int n / of_int d" and d: "0 < d"
    using quotient_of_div [OF q] quotient_of_denom_pos [OF q] by auto
  have n: "0 < n" using assms x d by (simp add: zero_less_divide_iff)
  define a where "a = int (floorlog 2 (nat n))"
  define b where "b = int (floorlog 2 (nat d))"
  have nr: "pow2 (a - 1) \<le> of_int n" "of_int n < pow2 a"
    and dr: "pow2 (b - 1) \<le> of_int d" "of_int d < pow2 b"
    using bit_length_bounds [of "nat n"] bit_length_bounds [of "nat d"] n d
    by (simp_all add: a_def b_def)
  have "pow2 (a - b - 1) * of_int d \<le> pow2 (a - b - 1) * pow2 b"
    using dr(2) by (intro mult_left_mono) (simp_all add: less_imp_le)
  also have "\<dots> = pow2 (a - 1)" by (simp add: pow2_add [symmetric])
  finally have lower: "pow2 (a - b - 1) \<le> x" using nr(1) d by (simp add: x pos_le_divide_eq)
  have "of_int n < pow2 a" by (rule nr(2))
  also have "pow2 a = pow2 (a - b + 1) * pow2 (b - 1)" by (simp add: pow2_add [symmetric])
  also have "\<dots> \<le> pow2 (a - b + 1) * of_int d"
    using dr(1) by (intro mult_left_mono) (simp_all add: less_imp_le)
  finally have upper: "x < pow2 (a - b + 1)" using d by (simp add: x pos_divide_less_eq)
  show ?thesis
    using lower upper by (auto simp: binade_def q a_def b_def Let_def bitlen_def)
qed

lemma binade_mono:
  assumes "0 < x" "x \<le> y" shows "binade x \<le> binade y"
proof -
  have "pow2 (binade x) < pow2 (binade y + 1)"
    using binade_bounds [of x] binade_bounds [of y] assms by simp
  then show ?thesis using pow2_less by force
qed

lemma fl_pos_scaled:
  "fl_pos x = of_int (half_even (x / pow2 e)) * pow2 e" if "e = max (binade x - 52) (- 1074)"
  using that by (simp add: fl_pos_def Let_def)

lemma fl_pos_mono:
  assumes "0 < x" "x \<le> y" shows "fl_pos x \<le> fl_pos y"
proof -
  define ex where "ex = max (binade x - 52) (- 1074)"
  define ey where "ey = max (binade y - 52) (- 1074)"
  have fx: "fl_pos x = of_int (half_even (x / pow2 ex)) * pow2 ex"
    and fy: "fl_pos y = of_int (half_even (y / pow2 ey)) * pow2 ey"
    by (simp_all add: fl_pos_scaled ex_def ey_def)
  have le: "ex \<le> ey" using binade_mono [OF assms] by (auto simp: ex_def ey_def)
  show ?thesis
  proof (cases "ex = ey")
    case True
    have "half_even (x / pow2 ex) \<le> half_even (y / pow2 ex)"
      using assms by (intro half_even_mono) (simp add: divide_right_mono less_imp_le)
    then show ?thesis unfolding fx fy True [symmetric]
      by (intro mult_right_mono) (simp_all add: less_imp_le)
  next
    case False
    with le have less: "ex < ey" by simp
    then have ey: "ey = binade y - 52" by (auto simp: ey_def ex_def)
    have "x / pow2 ex \<le> of_int (2 ^ 53)"
    proof -
      have "x < pow2 (binade x + 1)" using binade_bounds assms(1) by blast
      also have "\<dots> \<le> pow2 (ex + 53)" by (rule pow2_mono) (simp add: ex_def)
      also have "\<dots> = of_int (2 ^ 53) * pow2 ex"
        using pow2_nat [of 53] by (simp add: pow2_add)
      finally show ?thesis by (simp add: pos_divide_le_eq)
    qed
    then have "fl_pos x \<le> of_int (2 ^ 53) * pow2 ex"
      unfolding fx using half_even_le by (intro mult_right_mono) (simp_all only: of_int_le_iff less_imp_le pow2_pos)
    also have "\<dots> = pow2 (ex + 53)" using pow2_nat [of 53] by (simp add: pow2_add)
    also have "\<dots> \<le> pow2 (ey + 52)" using less by (intro pow2_mono) simp
    also have "\<dots> = of_int (2 ^ 52) * pow2 ey" using pow2_nat [of 52] by (simp add: pow2_add)
    also have "\<dots> \<le> fl_pos y"
    proof -
      have "pow2 (ey + 52) \<le> y" using binade_bounds [of y] assms by (simp add: ey)
      then have "of_int (2 ^ 52) \<le> y / pow2 ey"
        using pow2_nat [of 52] by (simp add: pow2_add pos_le_divide_eq mult.commute)
      then show ?thesis
        unfolding fy using half_even_ge by (intro mult_right_mono) (simp_all only: of_int_le_iff less_imp_le pow2_pos)
    qed
    finally show ?thesis .
  qed
qed

lemma fl_pos_nonneg: "0 < x \<Longrightarrow> 0 \<le> fl_pos x"
proof -
  assume "0 < x"
  then have "0 \<le> half_even (x / pow2 (max (binade x - 52) (- 1074)))"
    by (intro half_even_ge) (simp add: less_imp_le)
  then show ?thesis by (simp add: fl_pos_def Let_def less_imp_le)
qed

lemma fl_mono: "x \<le> y \<Longrightarrow> fl x \<le> fl y"
  using fl_pos_mono [of x y] fl_pos_mono [of "- y" "- x"] fl_pos_nonneg [of "- x"] fl_pos_nonneg [of y]
  by (auto simp: fl_def)

lemma fl_0 [simp]: "fl 0 = 0"
  by (simp add: fl_def)

lemma fl_1 [simp]: "fl 1 = 1"
  by code_simp

lemma fl_nonneg: "0 \<le> x \<Longrightarrow> 0 \<le> fl x"
  using fl_mono [of 0 x] by simp

lemma fl_le_1: "x \<le> 1 \<Longrightarrow> fl x \<le> 1"
  using fl_mono [of x 1] by simp

end
