(* ===== verification/Job_Signals.thy ===== *)
theory Job_Signals imports Job_Schemas Py_Float Studio_Monad begin

text \<open>
  The in-process signalling of the job pipeline: cancellation events
  (\<open>CancellationRegistry\<close> of \<open>core/jobs/cancellation.py\<close>), the bounded event log with its
  subscribers (\<open>EventBus\<close> of \<open>core/jobs/events.py\<close>) and the progress throttle handed to
  generators (\<open>GenerationContext\<close> of \<open>core/jobs/context.py\<close>).

  A \<open>threading.Event\<close> is a number, its identity; the set of numbers that were set is part of
  the state, because a registration and a runner may hold the same event. A subscriber is a
  number too; what a subscriber does when it is called is a parameter of the definitions that
  publish.
\<close>

section \<open>Cancellation registry\<close>

record registry =
  rg_events :: "string \<rightharpoonup> nat"
  rg_set :: "nat set"
  rg_next :: nat

definition init_registry :: registry where
  "init_registry = \<lparr>rg_events = Map.empty, rg_set = {}, rg_next = 0\<rparr>"

definition registry_begin :: "string \<Rightarrow> registry \<Rightarrow> nat \<times> registry" where
  "registry_begin job_id r =
     (case rg_events r job_id of
        None \<Rightarrow> (rg_next r, r\<lparr>rg_events := (rg_events r)(job_id \<mapsto> rg_next r), rg_next := rg_next r + 1\<rparr>)
      | Some event \<Rightarrow> (event, r))"

definition registry_request_cancel :: "string \<Rightarrow> registry \<Rightarrow> registry" where
  "registry_request_cancel job_id r =
     (case rg_events r job_id of
        None \<Rightarrow> r
      | Some event \<Rightarrow> r\<lparr>rg_set := insert event (rg_set r)\<rparr>)"

definition registry_is_cancelled :: "string \<Rightarrow> registry \<Rightarrow> bool" where
  "registry_is_cancelled job_id r =
     (case rg_events r job_id of None \<Rightarrow> False | Some event \<Rightarrow> event \<in> rg_set r)"

definition registry_end :: "string \<Rightarrow> nat \<Rightarrow> registry \<Rightarrow> registry" where
  "registry_end job_id token r =
     (if rg_events r job_id = Some token then r\<lparr>rg_events := (rg_events r)(job_id := None)\<rparr> else r)"

text \<open>Every registered or set event was made by \<open>begin\<close>, and no two jobs share one.\<close>

definition registry_ok :: "registry \<Rightarrow> bool" where
  "registry_ok r \<longleftrightarrow>
     (\<forall>job_id event. rg_events r job_id = Some event \<longrightarrow> event < rg_next r) \<and>
     (\<forall>event \<in> rg_set r. event < rg_next r) \<and>
     (\<forall>a b event. rg_events r a = Some event \<longrightarrow> rg_events r b = Some event \<longrightarrow> a = b)"

text \<open>What a registration means: the event of each job and whether it was set.\<close>

definition registration :: "registry \<Rightarrow> string \<Rightarrow> (nat \<times> bool) option" where
  "registration r job_id = map_option (\<lambda>event. (event, event \<in> rg_set r)) (rg_events r job_id)"

lemma registry_ok_init: "registry_ok init_registry"
  by (simp add: registry_ok_def init_registry_def)

lemma registry_ok_begin: "registry_ok r \<Longrightarrow> registry_ok (snd (registry_begin job_id r))"
  unfolding registry_ok_def registry_begin_def
  by (auto split: option.splits if_splits intro: less_SucI)

lemma registry_ok_cancel: "registry_ok r \<Longrightarrow> registry_ok (registry_request_cancel job_id r)"
  unfolding registry_ok_def registry_request_cancel_def by (auto split: option.splits)

lemma registry_ok_end: "registry_ok r \<Longrightarrow> registry_ok (registry_end job_id token r)"
  unfolding registry_ok_def registry_end_def by auto

lemma registration_begin:
  "registry_ok r \<Longrightarrow> registration (snd (registry_begin job_id r)) =
     (case registration r job_id of
        None \<Rightarrow> (registration r)(job_id \<mapsto> (fst (registry_begin job_id r), False))
      | Some _ \<Rightarrow> registration r)"
  by (rule ext) (auto simp: registration_def registry_begin_def registry_ok_def split: option.splits)

lemma registration_cancel:
  "registry_ok r \<Longrightarrow> registration (registry_request_cancel job_id r) =
     (registration r)(job_id := map_option (\<lambda>(event, _). (event, True)) (registration r job_id))"
proof (rule ext)
  fix x
  assume ok: "registry_ok r"
  show "registration (registry_request_cancel job_id r) x =
     ((registration r)(job_id := map_option (\<lambda>(event, _). (event, True)) (registration r job_id))) x"
    using ok by (cases "rg_events r x"; cases "rg_events r job_id")
      (auto simp: registration_def registry_request_cancel_def registry_ok_def)
qed

lemma registration_end:
  "registration (registry_end job_id token r) =
     (if map_option fst (registration r job_id) = Some token then (registration r)(job_id := None)
      else registration r)"
  by (rule ext) (auto simp: registration_def registry_end_def fun_upd_def split: if_splits)

lemma registry_is_cancelled_iff:
  "registry_is_cancelled job_id r \<longleftrightarrow> (\<exists>event. registration r job_id = Some (event, True))"
  by (auto simp: registry_is_cancelled_def registration_def split: option.splits)

lemma registry_begin_registers:
  "rg_events (snd (registry_begin job_id r)) job_id = Some (fst (registry_begin job_id r))"
  by (auto simp: registry_begin_def split: option.splits)

lemma registry_begin_other:
  "a \<noteq> job_id \<Longrightarrow> rg_events (snd (registry_begin job_id r)) a = rg_events r a"
  by (auto simp: registry_begin_def split: option.splits)

lemma registry_cancel_events [simp]: "rg_events (registry_request_cancel job_id r) = rg_events r"
  by (auto simp: registry_request_cancel_def split: option.splits)

section \<open>Event bus\<close>

record job_event =
  ev_type :: string
  ev_payload :: "(string \<times> json) list"
  ev_created_at :: string

record event_bus =
  eb_max_events :: nat
  eb_events :: "job_event list"
  eb_subscribers :: "nat list"

definition DEFAULT_MAX_EVENTS :: int where "DEFAULT_MAX_EVENTS = 1000"

text \<open>\<open>None\<close> is the \<open>ValueError\<close> of a bound below one.\<close>

definition init_event_bus :: "int \<Rightarrow> event_bus option" where
  "init_event_bus max_events =
     (if max_events < 1 then None
      else Some \<lparr>eb_max_events = nat max_events, eb_events = [], eb_subscribers = []\<rparr>)"

definition last_n :: "nat \<Rightarrow> 'a list \<Rightarrow> 'a list" where
  "last_n n xs = drop (length xs - n) xs"

definition bus_append :: "job_event \<Rightarrow> event_bus \<Rightarrow> event_bus" where
  "bus_append event bus =
     bus\<lparr>eb_events := last_n (eb_max_events bus) (eb_events bus @ [event])\<rparr>"

definition bus_subscribe :: "nat \<Rightarrow> event_bus \<Rightarrow> event_bus" where
  "bus_subscribe s bus =
     (if s \<in> set (eb_subscribers bus) then bus
      else bus\<lparr>eb_subscribers := eb_subscribers bus @ [s]\<rparr>)"

definition bus_unsubscribe :: "nat \<Rightarrow> event_bus \<Rightarrow> event_bus" where
  "bus_unsubscribe s bus = bus\<lparr>eb_subscribers := remove1 s (eb_subscribers bus)\<rparr>"

definition bus_list_events :: "event_bus \<Rightarrow> job_event list" where
  "bus_list_events bus = eb_events bus"

text \<open>The subscribers of the snapshot, each in its own \<open>try\<close>.\<close>

definition deliver_all ::
  "(nat \<Rightarrow> job_event \<Rightarrow> ('s, 'e, unit) io) \<Rightarrow> job_event \<Rightarrow> nat list \<Rightarrow> ('s, 'e, unit) io" where
  "deliver_all deliver event subscribers =
     for_each (\<lambda>s. bnd (attempt (deliver s event)) (\<lambda>_. ret ())) subscribers"

definition bus_ok :: "event_bus \<Rightarrow> bool" where
  "bus_ok bus \<longleftrightarrow>
     1 \<le> eb_max_events bus \<and> length (eb_events bus) \<le> eb_max_events bus \<and> distinct (eb_subscribers bus)"

lemma bus_ok_init: "init_event_bus n = Some bus \<Longrightarrow> bus_ok bus"
  by (auto simp: init_event_bus_def bus_ok_def split: if_splits)

lemma bus_ok_append: "bus_ok bus \<Longrightarrow> bus_ok (bus_append event bus)"
  by (auto simp: bus_ok_def bus_append_def last_n_def)

lemma bus_ok_subscribe: "bus_ok bus \<Longrightarrow> bus_ok (bus_subscribe s bus)"
  by (auto simp: bus_ok_def bus_subscribe_def)

lemma bus_ok_unsubscribe: "bus_ok bus \<Longrightarrow> bus_ok (bus_unsubscribe s bus)"
  by (auto simp: bus_ok_def bus_unsubscribe_def distinct_remove1)

lemma eb_max_append [simp]: "eb_max_events (bus_append event bus) = eb_max_events bus"
  by (simp add: bus_append_def)

lemma deliver_all_returns: "fst (deliver_all deliver event subscribers w) = Inr ()"
  unfolding deliver_all_def
  by (induction subscribers arbitrary: w) (auto simp: io_unfold split: prod.splits)

lemma last_n_snoc: "last_n n (last_n n xs @ [x]) = last_n n (xs @ [x])"
proof (cases "length xs < n")
  case False
  then have "Suc (length xs - n) = Suc (length xs) - n" by simp
  with False show ?thesis by (simp add: last_n_def)
qed (simp add: last_n_def)

lemma eb_events_append:
  "eb_events (bus_append event bus) = last_n (eb_max_events bus) (eb_events bus @ [event])"
  by (simp add: bus_append_def)

lemma eb_max_run: "eb_max_events (fold bus_append events bus) = eb_max_events bus"
  by (induction events arbitrary: bus) auto

section \<open>Progress throttle\<close>

record gen_context =
  gc_min_interval :: rat
  gc_min_delta :: rat
  gc_last_reported :: "rat option"
  gc_last_reported_at :: "rat option"

definition init_context :: gen_context where
  "init_context = \<lparr>gc_min_interval = 1 / 2, gc_min_delta = fl (5 / 100),
     gc_last_reported = None, gc_last_reported_at = None\<rparr>"

definition clamp :: "rat \<Rightarrow> rat" where
  "clamp fraction = max 0 (min 1 fraction)"

text \<open>
  \<open>report_progress\<close> up to its call of the callback: what it hands on, if anything, and the
  context it leaves, which is already updated when the callback runs.
\<close>

definition report_progress :: "rat \<Rightarrow> rat \<Rightarrow> gen_context \<Rightarrow> rat option \<times> gen_context" where
  "report_progress fraction0 now c =
     (let fraction = clamp fraction0 in
      case gc_last_reported c of
        None \<Rightarrow>
          (Some fraction, c\<lparr>gc_last_reported := Some fraction, gc_last_reported_at := Some now\<rparr>)
      | Some previous \<Rightarrow>
          let fraction' = max previous fraction;
              delta = fsub fraction' previous;
              elapsed = fsub now (case gc_last_reported_at c of None \<Rightarrow> 0 | Some t \<Rightarrow> t) in
          if delta = 0 then (None, c)
          else if delta < gc_min_delta c \<and> elapsed < gc_min_interval c then (None, c)
          else (Some fraction', c\<lparr>gc_last_reported := Some fraction', gc_last_reported_at := Some now\<rparr>))"

text \<open>A run of reports, each at its time, and what reaches the callback.\<close>

fun report_run :: "(rat \<times> rat) list \<Rightarrow> gen_context \<Rightarrow> (rat \<times> rat) list \<times> gen_context" where
  "report_run [] c = ([], c)"
| "report_run ((fraction, now) # reports) c =
     (case report_progress fraction now c of
        (None, c') \<Rightarrow> report_run reports c'
      | (Some x, c') \<Rightarrow> (case report_run reports c' of (xs, c'') \<Rightarrow> ((x, now) # xs, c'')))"

definition context_ok :: "gen_context \<Rightarrow> bool" where
  "context_ok c \<longleftrightarrow>
     (case gc_last_reported c of None \<Rightarrow> True | Some x \<Rightarrow> 0 \<le> x \<and> x \<le> 1 \<and> gc_last_reported_at c \<noteq> None)"

lemma clamp_bounds: "0 \<le> clamp x" "clamp x \<le> 1"
  by (auto simp: clamp_def)

text \<open>What a context forwards next, given the last value and its time.\<close>

definition spaced :: "gen_context \<Rightarrow> rat \<times> rat \<Rightarrow> rat \<times> rat \<Rightarrow> bool" where
  "spaced c p q \<longleftrightarrow>
     fst p < fst q \<and>
     (gc_min_delta c \<le> fsub (fst q) (fst p) \<or> gc_min_interval c \<le> fsub (snd q) (snd p))"

fun chain :: "('a \<Rightarrow> 'a \<Rightarrow> bool) \<Rightarrow> 'a list \<Rightarrow> bool" where
  "chain P (x # y # zs) \<longleftrightarrow> P x y \<and> chain P (y # zs)"
| "chain P _ \<longleftrightarrow> True"

definition last_report :: "gen_context \<Rightarrow> (rat \<times> rat) list" where
  "last_report c =
     (case (gc_last_reported c, gc_last_reported_at c) of (Some x, Some t) \<Rightarrow> [(x, t)] | _ \<Rightarrow> [])"

lemma report_progress_step:
  assumes "context_ok c" and "report_progress fraction now c = (r, c')"
  shows "context_ok c' \<and> gc_min_delta c' = gc_min_delta c \<and> gc_min_interval c' = gc_min_interval c \<and>
    (case r of None \<Rightarrow> last_report c' = last_report c
     | Some x \<Rightarrow> last_report c' = [(x, now)] \<and> 0 \<le> x \<and> x \<le> 1 \<and>
         chain (spaced c) (last_report c @ [(x, now)]))"
proof (cases "gc_last_reported c")
  case None
  with assms show ?thesis
    by (auto simp: report_progress_def context_ok_def last_report_def clamp_bounds Let_def)
next
  case (Some x)
  then obtain t where t: "gc_last_reported_at c = Some t" and x: "0 \<le> x" "x \<le> 1"
    using assms(1) by (auto simp: context_ok_def)
  let ?y = "max x (clamp fraction)"
  have y: "0 \<le> ?y" "?y \<le> 1" using x clamp_bounds [of fraction] by auto
  have less: "x < ?y" if "fsub ?y x \<noteq> 0"
    using that by (cases "x < clamp fraction") (auto simp: fsub_def fl_0)
  show ?thesis
  proof (cases r)
    case None
    with assms Some t show ?thesis by (auto simp: report_progress_def Let_def split: if_splits)
  next
    case (Some v)
    with assms(2) \<open>gc_last_reported c = Some x\<close> t have v: "v = ?y"
      and c': "c' = c\<lparr>gc_last_reported := Some ?y, gc_last_reported_at := Some now\<rparr>"
      and "fsub ?y x \<noteq> 0"
      and "\<not> (fsub ?y x < gc_min_delta c \<and> fsub now t < gc_min_interval c)"
      by (auto simp: report_progress_def Let_def split: if_splits)
    with less have "spaced c (x, t) (?y, now)" by (auto simp: spaced_def)
    then show ?thesis
      using Some v c' y t \<open>gc_last_reported c = Some x\<close>
      by (simp add: last_report_def context_ok_def)
  qed
qed

lemma spaced_cong:
  "gc_min_delta c' = gc_min_delta c \<Longrightarrow> gc_min_interval c' = gc_min_interval c \<Longrightarrow> spaced c' = spaced c"
  by (rule ext, rule ext) (simp add: spaced_def)

lemma chain_join: "chain P (xs @ [y]) \<Longrightarrow> chain P (y # ys) \<Longrightarrow> chain P (xs @ y # ys)"
  by (induction P xs rule: chain.induct) auto

lemma last_report_short: "length (last_report c) \<le> 1"
  by (simp add: last_report_def split: option.splits)

lemma report_run_chain:
  "context_ok c \<Longrightarrow> report_run reports c = (xs, c') \<Longrightarrow>
   chain (spaced c) (last_report c @ xs) \<and> (\<forall>(x, t) \<in> set xs. 0 \<le> x \<and> x \<le> 1)"
proof (induction reports arbitrary: c xs)
  case Nil
  then show ?case using last_report_short [of c] by (cases "last_report c") auto
next
  case (Cons report reports)
  obtain fraction now where report: "report = (fraction, now)" by (cases report)
  obtain r d where r: "report_progress fraction now c = (r, d)"
    by (cases "report_progress fraction now c")
  note step = report_progress_step [OF Cons.prems(1) r]
  have same: "spaced d = spaced c" using step by (intro spaced_cong) auto
  show ?case
  proof (cases r)
    case None
    with Cons.prems(2) report r have "report_run reports d = (xs, c')" by simp
    from Cons.IH [OF _ this] step None same show ?thesis by simp
  next
    case (Some x)
    with Cons.prems(2) report r obtain ys where ys: "report_run reports d = (ys, c')" "xs = (x, now) # ys"
      by (auto split: prod.splits)
    from Cons.IH [OF _ ys(1)] step Some same ys(2) chain_join [of "spaced c" "last_report c" "(x, now)" ys]
    show ?thesis by auto
  qed
qed

section \<open>Properties\<close>

text \<open>
  A cancel signal reaches the registered job and no other. In a well-formed registry,
  \<open>request_cancel\<close> marks exactly the registration of its job; \<open>begin\<close> keeps an existing
  registration with its signal and otherwise adds one that is not cancelled; and \<open>end\<close> removes a
  registration only for the token that owns it, so a stale owner cannot end its successor's.
\<close>

theorem registry_signal:
  "registry_ok r \<Longrightarrow>
     registration (registry_request_cancel job_id r) =
       (registration r)(job_id := map_option (\<lambda>(event, _). (event, True)) (registration r job_id)) \<and>
     registration (snd (registry_begin job_id r)) =
       (case registration r job_id of
          None \<Rightarrow> (registration r)(job_id \<mapsto> (fst (registry_begin job_id r), False))
        | Some _ \<Rightarrow> registration r) \<and>
     registration (registry_end job_id token r) =
       (if map_option fst (registration r job_id) = Some token then (registration r)(job_id := None)
        else registration r)"
  by (simp only: registration_cancel registration_begin registration_end simp_thms)

theorem registry_signal_witness:
  "registration (registry_request_cancel ''b'' (snd (registry_begin ''a'' init_registry))) ''a'' = Some (0, False)"
proof -
  have ok: "registry_ok (snd (registry_begin ''a'' init_registry))"
    by (intro registry_ok_begin registry_ok_init)
  show ?thesis
    using registry_signal [OF ok, of "''b''"]
    by (simp add: registration_def registry_begin_def init_registry_def)
qed

text \<open>
  The event log is bounded and in order. From an empty bus with a bound that the
  constructor accepts, publishing any sequence of events keeps the last ones, as many as the
  bound, in publication order, and nothing else of the bus changes.
\<close>

theorem event_log_bounded:
  "init_event_bus n = Some bus \<Longrightarrow>
     bus_list_events (fold bus_append events bus) = drop (length events - nat n) events \<and>
     length (bus_list_events (fold bus_append events bus)) \<le> nat n \<and>
     eb_subscribers (fold bus_append events bus) = []"
proof -
  assume init: "init_event_bus n = Some bus"
  have run: "eb_events (fold bus_append events bus) = last_n (eb_max_events bus) events"
  proof (induction events rule: rev_induct)
    case (snoc x events)
    then show ?case by (simp add: eb_events_append eb_max_run last_n_snoc)
  qed (use init in \<open>auto simp: init_event_bus_def last_n_def split: if_splits\<close>)
  have subs: "eb_subscribers (fold bus_append es b) = eb_subscribers b" for es b
    by (induction es arbitrary: b) (auto simp: bus_append_def)
  show ?thesis
    using run subs init by (auto simp: init_event_bus_def bus_list_events_def last_n_def split: if_splits)
qed

theorem event_log_bounded_witness:
  "\<exists>bus. init_event_bus 2 = Some bus \<and>
     map ev_type (bus_list_events (fold bus_append
       (map (\<lambda>t. \<lparr>ev_type = t, ev_payload = [], ev_created_at = []\<rparr>) [''a'', ''b'', ''c'']) bus)) = [''b'', ''c'']"
proof -
  have init: "init_event_bus 2 = Some \<lparr>eb_max_events = nat 2, eb_events = [], eb_subscribers = []\<rparr>"
    by (simp add: init_event_bus_def)
  show ?thesis
    by (rule exI, rule conjI, rule init, subst conjunct1 [OF event_log_bounded [OF init]])
      (simp add: eval_nat_numeral)
qed

text \<open>
  Progress reports are monotone, bounded and throttled. Whatever fractions a generator
  reports and whenever, the values that reach the callback stay in the unit interval and grow
  strictly; two consecutive ones differ by at least the minimal step, or lie at least the
  minimal interval apart.
\<close>

theorem report_run_throttled:
  "chain (\<lambda>p q. fst p < fst q \<and>
      (fl (5 / 100) \<le> fsub (fst q) (fst p) \<or> 1 / 2 \<le> fsub (snd q) (snd p)))
     (fst (report_run reports init_context)) \<and>
   list_all (\<lambda>(x, t). 0 \<le> x \<and> x \<le> 1) (fst (report_run reports init_context))"
proof -
  obtain xs c' where run: "report_run reports init_context = (xs, c')"
    by (cases "report_run reports init_context")
  have "spaced init_context = (\<lambda>p q. fst p < fst q \<and>
      (fl (5 / 100) \<le> fsub (fst q) (fst p) \<or> 1 / 2 \<le> fsub (snd q) (snd p)))"
    by (intro ext) (simp add: spaced_def init_context_def)
  moreover have "context_ok init_context" "last_report init_context = []"
    by (simp_all add: context_ok_def last_report_def init_context_def)
  ultimately show ?thesis
    using report_run_chain [OF _ run] run by (auto simp: list_all_iff)
qed

end
