(* ===== verification/Py_Text.thy ===== *)
theory Py_Text imports Main begin

text \<open>
  The parts of Python's \<open>str\<close> and \<open>int\<close> the studio's configuration parsers use, on strings
  whose characters are code points below 256: \<open>strip\<close>, \<open>split\<close> on one separator, \<open>partition\<close>
  and \<open>int(text)\<close> in base ten (surrounding white space, one optional sign, digits, single
  underscores between digits). \<open>show_nat\<close> is decimal notation, with which the lane round
  trip is stated.
\<close>

section \<open>White space and splitting\<close>

definition code_point :: "char \<Rightarrow> nat" where
  "code_point c = of_char c"

definition py_isspace :: "char \<Rightarrow> bool" where
  "py_isspace c =
     (let n = code_point c in (9 \<le> n \<and> n \<le> 13) \<or> (28 \<le> n \<and> n \<le> 32) \<or> n = 133 \<or> n = 160)"

definition py_strip :: "string \<Rightarrow> string" where
  "py_strip s = rev (dropWhile py_isspace (rev (dropWhile py_isspace s)))"

fun py_split :: "char \<Rightarrow> string \<Rightarrow> string list" where
  "py_split sep [] = [[]]"
| "py_split sep (c # cs) =
     (if c = sep then [] # py_split sep cs
      else (case py_split sep cs of [] \<Rightarrow> [[c]] | w # ws \<Rightarrow> (c # w) # ws))"

text \<open>\<open>text.partition(sep)\<close> without its middle part: before and after the first separator.\<close>

definition py_partition :: "char \<Rightarrow> string \<Rightarrow> string \<times> string" where
  "py_partition sep s = (takeWhile (\<lambda>c. c \<noteq> sep) s, tl (dropWhile (\<lambda>c. c \<noteq> sep) s))"

fun py_join :: "char \<Rightarrow> string list \<Rightarrow> string" where
  "py_join sep [] = []"
| "py_join sep [w] = w"
| "py_join sep (w # ws) = w @ sep # py_join sep ws"

section \<open>Integers\<close>

definition is_dec_digit :: "char \<Rightarrow> bool" where
  "is_dec_digit c = (48 \<le> code_point c \<and> code_point c \<le> 57)"

definition dec_value :: "char \<Rightarrow> nat" where
  "dec_value c = code_point c - 48"

fun dec_tail :: "nat \<Rightarrow> string \<Rightarrow> nat option" where
  "dec_tail acc [] = Some acc"
| "dec_tail acc [c] = (if is_dec_digit c then Some (acc * 10 + dec_value c) else None)"
| "dec_tail acc (c # d # cs) =
     (if is_dec_digit c then dec_tail (acc * 10 + dec_value c) (d # cs)
      else if c = CHR ''_'' \<and> is_dec_digit d then dec_tail (acc * 10 + dec_value d) cs
      else None)"

definition dec_nat :: "string \<Rightarrow> nat option" where
  "dec_nat s =
     (case s of [] \<Rightarrow> None
      | c # cs \<Rightarrow> if is_dec_digit c then dec_tail (dec_value c) cs else None)"

definition py_int :: "string \<Rightarrow> int option" where
  "py_int s =
     (case py_strip s of
        [] \<Rightarrow> None
      | c # cs \<Rightarrow>
          if c = CHR ''-'' then map_option (\<lambda>n. - int n) (dec_nat cs)
          else if c = CHR ''+'' then map_option int (dec_nat cs)
          else map_option int (dec_nat (c # cs)))"

definition dec_char :: "nat \<Rightarrow> char" where
  "dec_char n = char_of (n + 48)"

fun show_nat :: "nat \<Rightarrow> string" where
  "show_nat n = (if n < 10 then [dec_char n] else show_nat (n div 10) @ [dec_char (n mod 10)])"

declare show_nat.simps [simp del]

section \<open>Facts\<close>

lemma code_point_dec_char: "n < 10 \<Longrightarrow> code_point (dec_char n) = n + 48"
  by (simp add: code_point_def dec_char_def take_bit_eq_mod)

lemma is_dec_digit_dec_char [simp]: "n < 10 \<Longrightarrow> is_dec_digit (dec_char n)"
  by (simp add: is_dec_digit_def code_point_dec_char)

lemma dec_value_dec_char [simp]: "n < 10 \<Longrightarrow> dec_value (dec_char n) = n"
  by (simp add: dec_value_def code_point_dec_char)

lemma dec_tail_snoc:
  "dec_tail acc s = Some n \<Longrightarrow> is_dec_digit c \<Longrightarrow>
   dec_tail acc (s @ [c]) = Some (n * 10 + dec_value c)"
  by (induction acc s arbitrary: n rule: dec_tail.induct) (auto split: if_splits)

lemma dec_nat_snoc:
  "dec_nat s = Some n \<Longrightarrow> is_dec_digit c \<Longrightarrow> dec_nat (s @ [c]) = Some (n * 10 + dec_value c)"
  by (auto simp: dec_nat_def dec_tail_snoc split: list.splits if_splits)

lemma dec_nat_show_nat: "dec_nat (show_nat n) = Some n"
proof (induction n rule: show_nat.induct)
  case (1 n)
  show ?case
  proof (cases "n < 10")
    case True
    then show ?thesis by (subst show_nat.simps) (simp add: dec_nat_def)
  next
    case False
    with 1 have "dec_nat (show_nat (n div 10)) = Some (n div 10)" by simp
    then have "dec_nat (show_nat (n div 10) @ [dec_char (n mod 10)]) =
        Some (n div 10 * 10 + dec_value (dec_char (n mod 10)))"
      by (rule dec_nat_snoc) simp
    with False show ?thesis by (subst show_nat.simps) simp
  qed
qed

lemma show_nat_digits: "c \<in> set (show_nat n) \<Longrightarrow> is_dec_digit c"
proof (induction n rule: show_nat.induct)
  case (1 n)
  show ?case
  proof (cases "n < 10")
    case True
    with "1.prems" have "c = dec_char n" by (simp add: show_nat.simps [of n])
    with True show ?thesis by simp
  next
    case False
    with "1.prems" have "c \<in> set (show_nat (n div 10)) \<or> c = dec_char (n mod 10)"
      by (subst (asm) show_nat.simps) auto
    with False "1.IH" show ?thesis by auto
  qed
qed

lemma show_nat_ne [simp]: "show_nat n \<noteq> []"
  by (subst show_nat.simps) simp

lemma dec_digit_facts:
  "is_dec_digit c \<Longrightarrow> \<not> py_isspace c"
  "is_dec_digit c \<Longrightarrow> c \<noteq> CHR '',''"
  "is_dec_digit c \<Longrightarrow> c \<noteq> CHR '':''"
  "is_dec_digit c \<Longrightarrow> c \<noteq> CHR ''-''"
  "is_dec_digit c \<Longrightarrow> c \<noteq> CHR ''+''"
  by (auto simp: is_dec_digit_def py_isspace_def code_point_def Let_def)

lemma dropWhile_id: "(\<And>c. c \<in> set s \<Longrightarrow> \<not> P c) \<Longrightarrow> dropWhile P s = s"
  by (cases s) auto

definition unpadded :: "string \<Rightarrow> bool" where
  "unpadded s \<longleftrightarrow> s = [] \<or> (\<not> py_isspace (hd s) \<and> \<not> py_isspace (last s))"

lemma dropWhile_hd: "s = [] \<or> \<not> P (hd s) \<Longrightarrow> dropWhile P s = s"
  by (cases s) auto

lemma py_strip_unpadded [simp]: "unpadded s \<Longrightarrow> py_strip s = s"
  by (auto simp: unpadded_def py_strip_def dropWhile_hd hd_rev)

lemma unpadded_py_strip: "unpadded (py_strip s)"
proof -
  define t where "t = dropWhile py_isspace s"
  define u where "u = rev (dropWhile py_isspace (rev t))"
  have "u = [] \<or> \<not> py_isspace (last u)"
    unfolding u_def by (metis hd_dropWhile last_rev rev_is_Nil_conv)
  moreover have "u = [] \<or> \<not> py_isspace (hd u)"
  proof -
    obtain v where "rev t = v @ dropWhile py_isspace (rev t)"
      by (metis takeWhile_dropWhile_id)
    then have "t = u @ rev v" unfolding u_def by (metis rev_append rev_rev_ident)
    moreover have "t = [] \<or> \<not> py_isspace (hd t)"
      unfolding t_def by (metis hd_dropWhile)
    ultimately show ?thesis by (cases u) auto
  qed
  ultimately show ?thesis by (auto simp: unpadded_def py_strip_def u_def t_def)
qed

lemma unpadded_show_nat [simp]: "unpadded (show_nat n)"
proof -
  have "\<not> py_isspace c" if "c \<in> set (show_nat n)" for c
    using that by (auto dest: show_nat_digits dec_digit_facts)
  then show ?thesis
    by (auto simp: unpadded_def)
qed

lemma py_int_show_nat: "py_int (show_nat n) = Some (int n)"
proof -
  obtain c cs where s: "show_nat n = c # cs" by (cases "show_nat n") auto
  then have "is_dec_digit c" using show_nat_digits [of c n] by simp
  then show ?thesis
    using dec_nat_show_nat [of n] unfolding py_int_def
    by (simp add: s dec_digit_facts py_strip_unpadded [OF unpadded_show_nat [of n], unfolded s])
qed

lemma py_split_ne [simp]: "py_split sep s \<noteq> []"
  by (induction s) (auto split: list.splits)

lemma py_split_plain: "sep \<notin> set s \<Longrightarrow> py_split sep s = [s]"
  by (induction s) auto

lemma py_split_cons:
  "sep \<notin> set w \<Longrightarrow> py_split sep (w @ sep # s) = w # py_split sep s"
  by (induction w) auto

lemma py_split_join:
  "ws \<noteq> [] \<Longrightarrow> (\<And>w. w \<in> set ws \<Longrightarrow> sep \<notin> set w) \<Longrightarrow> py_split sep (py_join sep ws) = ws"
proof (induction sep ws rule: py_join.induct)
  case (3 sep w v ws)
  then show ?case by (simp add: py_split_cons)
qed (auto simp: py_split_plain)

lemma py_partition_append:
  "sep \<notin> set a \<Longrightarrow> py_partition sep (a @ sep # b) = (a, b)"
  by (induction a) (auto simp: py_partition_def)

lemma py_join_eq_Nil: "py_join sep ws = [] \<longleftrightarrow> ws = [] \<or> ws = [[]]"
  by (induction sep ws rule: py_join.induct) auto

end
