(* ===== verification/Job_Lanes.thy ===== *)
theory Job_Lanes imports Py_Text begin

text \<open>
  Lane configuration and lane assignment: \<open>core/jobs/lanes.py\<close>.

  \<open>lane_config\<close> is \<open>LaneConfig.concurrency\<close>, a dictionary from lane names to worker counts whose
  insertion order matters, as an association list. Every \<open>raise ValueError\<close> of the parser and of
  the assignment is a constructor of \<open>lanes_error\<close>. \<open>render_job_lanes\<close> writes a configuration
  down and is the specification side of the round trip; it is not code of the repository.
\<close>

section \<open>Configuration\<close>

type_synonym lane_config = "(string \<times> int) list"

datatype lanes_error =
  Lanes_empty
| Lanes_empty_entry
| Lanes_missing_colon string
| Lanes_empty_name string
| Lanes_duplicate string
| Lanes_bad_count string string
| Lanes_count_below_one string int
| Lanes_unknown_media string
| Lanes_not_configured string

definition LANE_HEAVY :: string where "LANE_HEAVY = ''heavy''"

definition LANE_LIGHT :: string where "LANE_LIGHT = ''light''"

definition DEFAULT_JOB_LANES :: string where "DEFAULT_JOB_LANES = ''heavy:1,light:1''"

definition lane_names :: "lane_config \<Rightarrow> string list" where
  "lane_names lanes = map fst lanes"

definition is_single_lane :: "lane_config \<Rightarrow> bool" where
  "is_single_lane lanes = (length lanes = 1)"

definition parse_lane_entry :: "lane_config \<Rightarrow> string \<Rightarrow> lanes_error + (string \<times> int)" where
  "parse_lane_entry concurrency segment =
     (let entry = py_strip segment in
      if entry = [] then Inl Lanes_empty_entry
      else if CHR '':'' \<notin> set entry then Inl (Lanes_missing_colon entry)
      else
        (let name = py_strip (fst (py_partition (CHR '':'') entry));
             count_text = py_strip (snd (py_partition (CHR '':'') entry)) in
         if name = [] then Inl (Lanes_empty_name entry)
         else if name \<in> set (lane_names concurrency) then Inl (Lanes_duplicate name)
         else
           (case py_int count_text of
              None \<Rightarrow> Inl (Lanes_bad_count name count_text)
            | Some count \<Rightarrow>
                if count < 1 then Inl (Lanes_count_below_one name count)
                else Inr (name, count))))"

fun parse_lane_entries :: "lane_config \<Rightarrow> string list \<Rightarrow> lanes_error + lane_config" where
  "parse_lane_entries concurrency [] = Inr concurrency"
| "parse_lane_entries concurrency (segment # segments) =
     (case parse_lane_entry concurrency segment of
        Inl e \<Rightarrow> Inl e
      | Inr entry \<Rightarrow> parse_lane_entries (concurrency @ [entry]) segments)"

text \<open>\<open>environ\<close> is the process's \<open>JOB_LANES\<close> variable, read only when no value is given.\<close>

definition parse_job_lanes :: "string option \<Rightarrow> string option \<Rightarrow> lanes_error + lane_config" where
  "parse_job_lanes environ raw_value =
     (let raw = (case raw_value of Some v \<Rightarrow> v
                 | None \<Rightarrow> (case environ of Some v \<Rightarrow> v | None \<Rightarrow> DEFAULT_JOB_LANES));
          normalized = py_strip raw in
      if normalized = [] then Inl Lanes_empty
      else parse_lane_entries [] (py_split (CHR '','') normalized))"

section \<open>Assignment\<close>

definition LIGHT_TASK_TYPE_OVERRIDES :: "(string \<times> string) list" where
  "LIGHT_TASK_TYPE_OVERRIDES = [(''audio'', ''text-to-speech''), (''video'', ''assembly'')]"

definition MEDIA_TYPE_LANES :: "(string \<times> string) list" where
  "MEDIA_TYPE_LANES =
     [(''image'', LANE_HEAVY), (''video'', LANE_HEAVY), (''audio'', LANE_HEAVY),
      (''text'', LANE_LIGHT)]"

definition resolve_lane :: "string \<Rightarrow> string option \<Rightarrow> lanes_error + string" where
  "resolve_lane media_type task_type =
     (if (\<exists>task \<in> set_option task_type. (media_type, task) \<in> set LIGHT_TASK_TYPE_OVERRIDES)
      then Inr LANE_LIGHT
      else (case map_of MEDIA_TYPE_LANES media_type of
              Some lane \<Rightarrow> Inr lane
            | None \<Rightarrow> Inl (Lanes_unknown_media media_type)))"

definition assign_lane :: "string \<Rightarrow> string option \<Rightarrow> lane_config \<Rightarrow> lanes_error + string" where
  "assign_lane media_type task_type lanes =
     (if is_single_lane lanes then Inr (hd (lane_names lanes))
      else
        (case resolve_lane media_type task_type of
           Inl e \<Rightarrow> Inl e
         | Inr lane \<Rightarrow>
             if lane \<notin> set (lane_names lanes) then Inl (Lanes_not_configured lane)
             else Inr lane))"

section \<open>Well-formed configurations\<close>

definition lane_name_ok :: "string \<Rightarrow> bool" where
  "lane_name_ok name \<longleftrightarrow>
     name \<noteq> [] \<and> unpadded name \<and> CHR '','' \<notin> set name \<and> CHR '':'' \<notin> set name"

definition lanes_ok :: "lane_config \<Rightarrow> bool" where
  "lanes_ok lanes \<longleftrightarrow>
     distinct (lane_names lanes) \<and> (\<forall>(name, count) \<in> set lanes. lane_name_ok name \<and> 1 \<le> count)"

definition render_job_lanes :: "lane_config \<Rightarrow> string" where
  "render_job_lanes lanes =
     py_join (CHR '','') (map (\<lambda>(name, count). name @ CHR '':'' # show_nat (nat count)) lanes)"

section \<open>Facts about the parser\<close>

lemma set_py_strip: "set (py_strip s) \<subseteq> set s"
  by (auto simp: py_strip_def dest!: set_dropWhileD)

lemma py_split_plain_parts: "w \<in> set (py_split sep s) \<Longrightarrow> sep \<notin> set w"
  by (induction s arbitrary: w) (auto split: if_splits list.splits)

lemma partition_no_sep: "sep \<notin> set (fst (py_partition sep s))"
  using set_takeWhileD by (fastforce simp: py_partition_def)

lemma parse_lane_entry_ok:
  assumes "parse_lane_entry acc segment = Inr (name, count)" and "CHR '','' \<notin> set segment"
  shows "lane_name_ok name \<and> 1 \<le> count \<and> name \<notin> set (lane_names acc)"
proof -
  let ?entry = "py_strip segment"
  have name: "name = py_strip (fst (py_partition (CHR '':'') ?entry))"
    and rest: "name \<noteq> []" "name \<notin> set (lane_names acc)" "1 \<le> count"
    using assms(1) by (auto simp: parse_lane_entry_def Let_def split: if_splits option.splits)
  have inside: "set name \<subseteq> set (fst (py_partition (CHR '':'') ?entry))"
    unfolding name by (rule set_py_strip)
  moreover have "set (fst (py_partition (CHR '':'') ?entry)) \<subseteq> set segment"
    using set_takeWhileD set_py_strip [of segment] by (fastforce simp: py_partition_def)
  ultimately have "CHR '','' \<notin> set name" using assms(2) by blast
  moreover have "CHR '':'' \<notin> set name" using inside partition_no_sep by blast
  moreover have "unpadded name" unfolding name by (rule unpadded_py_strip)
  ultimately show ?thesis using rest by (simp add: lane_name_ok_def)
qed

lemma parse_lane_entries_ok:
  "parse_lane_entries acc segments = Inr lanes \<Longrightarrow> lanes_ok acc \<Longrightarrow>
   (\<And>s. s \<in> set segments \<Longrightarrow> CHR '','' \<notin> set s) \<Longrightarrow>
   lanes_ok lanes \<and> length lanes = length acc + length segments"
proof (induction acc segments rule: parse_lane_entries.induct)
  case (1 acc)
  then show ?case by simp
next
  case (2 acc segment segments)
  then obtain name count where entry: "parse_lane_entry acc segment = Inr (name, count)"
    by (cases "parse_lane_entry acc segment") auto
  with 2 have "lane_name_ok name \<and> 1 \<le> count \<and> name \<notin> set (lane_names acc)"
    by (intro parse_lane_entry_ok) auto
  with "2.prems"(2) have "lanes_ok (acc @ [(name, count)])"
    by (auto simp: lanes_ok_def lane_names_def)
  with 2 entry show ?case by fastforce
qed

lemma parse_rendered_entry:
  assumes "lane_name_ok name" and "1 \<le> count" and "name \<notin> set (lane_names acc)"
  shows "parse_lane_entry acc (name @ CHR '':'' # show_nat (nat count)) = Inr (name, count)"
proof -
  have "\<not> py_isspace (last (show_nat (nat count)))"
    by (metis last_in_set show_nat_ne show_nat_digits dec_digit_facts(1))
  with assms(1) have "unpadded (name @ CHR '':'' # show_nat (nat count))"
    by (auto simp: unpadded_def lane_name_ok_def)
  moreover have "py_partition (CHR '':'') (name @ CHR '':'' # show_nat (nat count)) =
      (name, show_nat (nat count))"
    using assms(1) by (simp add: lane_name_ok_def py_partition_append)
  ultimately show ?thesis
    using assms by (simp add: parse_lane_entry_def Let_def py_int_show_nat lane_name_ok_def)
qed

lemma parse_rendered_entries:
  "lanes_ok (acc @ lanes) \<Longrightarrow>
   parse_lane_entries acc
     (map (\<lambda>(name, count). name @ CHR '':'' # show_nat (nat count)) lanes) = Inr (acc @ lanes)"
proof (induction lanes arbitrary: acc)
  case Nil
  then show ?case by simp
next
  case (Cons entry lanes)
  obtain name count where entry: "entry = (name, count)" by (cases entry)
  from Cons.prems entry have "parse_lane_entry acc (name @ CHR '':'' # show_nat (nat count)) =
      Inr (name, count)"
    by (intro parse_rendered_entry) (auto simp: lanes_ok_def lane_names_def)
  moreover have "lanes_ok ((acc @ [(name, count)]) @ lanes)" using Cons.prems entry by simp
  ultimately show ?case using Cons.IH [of "acc @ [(name, count)]"] entry by simp
qed

lemma rendered_entry_plain:
  "lane_name_ok name \<Longrightarrow> CHR '','' \<notin> set (name @ CHR '':'' # show_nat n)"
  by (auto simp: lane_name_ok_def dest: show_nat_digits dec_digit_facts)

lemma unpadded_join:
  "ws \<noteq> [] \<Longrightarrow> (\<And>w. w \<in> set ws \<Longrightarrow> w \<noteq> [] \<and> unpadded w) \<Longrightarrow>
   py_join sep ws \<noteq> [] \<and> unpadded (py_join sep ws)"
proof (induction sep ws rule: py_join.induct)
  case (3 sep w v ws)
  then have "py_join sep (v # ws) \<noteq> [] \<and> unpadded (py_join sep (v # ws))"
    and "w \<noteq> [] \<and> unpadded w" by auto
  then show ?case by (auto simp: unpadded_def)
qed auto

lemma unpadded_rendered_entry:
  "lane_name_ok name \<Longrightarrow> unpadded (name @ CHR '':'' # show_nat n)"
proof -
  assume "lane_name_ok name"
  moreover have "\<not> py_isspace (last (show_nat n))"
    by (metis last_in_set show_nat_ne show_nat_digits dec_digit_facts(1))
  ultimately show ?thesis by (auto simp: unpadded_def lane_name_ok_def)
qed

section \<open>Properties\<close>

text \<open>
  What the parser accepts is a usable configuration. Every \<open>JOB_LANES\<close> value that
  parses gives at least one lane, no lane twice, only names that are not empty, not padded and
  free of the two separators, and at least one worker per lane.
\<close>

theorem parse_job_lanes_well_formed:
  assumes "parse_job_lanes environ raw_value = Inr lanes"
  shows "lanes_ok lanes \<and> lanes \<noteq> []"
proof -
  obtain normalized where "parse_lane_entries [] (py_split (CHR '','') normalized) = Inr lanes"
    using assms by (auto simp: parse_job_lanes_def Let_def split: if_splits)
  then have "lanes_ok lanes \<and>
      length lanes = length ([] :: lane_config) + length (py_split (CHR '','') normalized)"
    by (rule parse_lane_entries_ok) (auto simp: lanes_ok_def lane_names_def dest: py_split_plain_parts)
  then show ?thesis by auto
qed

theorem parse_job_lanes_well_formed_witness:
  "parse_job_lanes None (Some ''gpu:2, cpu : 1'') = Inr [(''gpu'', 2), (''cpu'', 1)] \<and>
   lanes_ok [(''gpu'', 2), (''cpu'', 1)]"
proof -
  have h: "parse_job_lanes None (Some ''gpu:2, cpu : 1'') = Inr [(''gpu'', 2), (''cpu'', 1)]"
    by code_simp
  show ?thesis using h parse_job_lanes_well_formed [OF h] by simp
qed

text \<open>
  The configuration text loses nothing. A well-formed, non-empty configuration written as
  \<open>name:count\<close> entries joined by commas parses back to exactly itself, in the same order.
\<close>

theorem parse_job_lanes_render:
  assumes "lanes_ok lanes" and "lanes \<noteq> []"
  shows "parse_job_lanes environ (Some (render_job_lanes lanes)) = Inr lanes"
proof -
  let ?entries = "map (\<lambda>(name, count). name @ CHR '':'' # show_nat (nat count)) lanes"
  have entry: "e \<noteq> [] \<and> unpadded e \<and> CHR '','' \<notin> set e" if "e \<in> set ?entries" for e
  proof -
    from that obtain name n where e: "e = name @ CHR '':'' # show_nat n" and "lane_name_ok name"
      using assms(1) by (auto simp: lanes_ok_def)
    then show ?thesis
      using rendered_entry_plain [of name n] unpadded_rendered_entry [of name n] by simp
  qed
  have "render_job_lanes lanes \<noteq> [] \<and> unpadded (render_job_lanes lanes)"
    unfolding render_job_lanes_def using assms(2) entry by (intro unpadded_join) auto
  moreover have "py_split (CHR '','') (render_job_lanes lanes) = ?entries"
    unfolding render_job_lanes_def using assms(2) entry by (intro py_split_join) auto
  ultimately show ?thesis
    using parse_rendered_entries [of "[]" lanes] assms(1) by (simp add: parse_job_lanes_def)
qed

theorem parse_job_lanes_render_witness:
  "parse_job_lanes None (Some (render_job_lanes [(''heavy'', 1), (''light'', 12)])) =
     Inr [(''heavy'', 1), (''light'', 12)]"
proof -
  have h: "lanes_ok [(''heavy'', 1), (''light'', 12)]" by code_simp
  show ?thesis using parse_job_lanes_render [OF h] by simp
qed

text \<open>
  Every job lands in a lane that exists. Whatever the configuration, a lane that is
  assigned is one the configuration defines; a single-lane configuration takes every job; and
  under the default configuration every media type of the API has a lane, with speech and
  assembly on the light one.
\<close>

theorem assign_lane_configured:
  "(\<forall>lane. assign_lane media_type task_type lanes = Inr lane \<longrightarrow> lane \<in> set (lane_names lanes)) \<and>
   (is_single_lane lanes \<longrightarrow> assign_lane media_type task_type lanes = Inr (hd (lane_names lanes))) \<and>
   (media_type \<in> {''image'', ''video'', ''audio'', ''text''} \<longrightarrow>
      assign_lane media_type task_type [(''heavy'', 1), (''light'', 1)] =
        Inr (if media_type = ''text'' \<or> (media_type, task_type) = (''audio'', Some ''text-to-speech'')
               \<or> (media_type, task_type) = (''video'', Some ''assembly'')
             then ''light'' else ''heavy''))"
proof (intro conjI)
  show "\<forall>lane. assign_lane media_type task_type lanes = Inr lane \<longrightarrow> lane \<in> set (lane_names lanes)"
    by (cases lanes)
      (auto simp: assign_lane_def is_single_lane_def lane_names_def split: if_splits sum.splits)
  show "is_single_lane lanes \<longrightarrow> assign_lane media_type task_type lanes = Inr (hd (lane_names lanes))"
    by (simp add: assign_lane_def)
  show "media_type \<in> {''image'', ''video'', ''audio'', ''text''} \<longrightarrow>
      assign_lane media_type task_type [(''heavy'', 1), (''light'', 1)] =
        Inr (if media_type = ''text'' \<or> (media_type, task_type) = (''audio'', Some ''text-to-speech'')
               \<or> (media_type, task_type) = (''video'', Some ''assembly'')
             then ''light'' else ''heavy'')"
    by (cases task_type)
      (auto simp: assign_lane_def is_single_lane_def lane_names_def resolve_lane_def
        MEDIA_TYPE_LANES_def LIGHT_TASK_TYPE_OVERRIDES_def LANE_HEAVY_def LANE_LIGHT_def)
qed

theorem assign_lane_configured_witness:
  "assign_lane ''audio'' (Some ''text-to-speech'') [(''heavy'', 1), (''light'', 1)] = Inr ''light''"
  using assign_lane_configured [of "''audio''" "Some ''text-to-speech''" "[]"] by simp

end
