(* ===== verification/Job_Queue.thy ===== *)
theory Job_Queue imports Main begin

text \<open>
  The in-memory queue of pending job ids with lane routing: \<open>core/jobs/queue.py\<close>.

  The record holds the object's three fields. \<open>enqueue\<close>, \<open>dequeue\<close> and \<open>size\<close> run under the
  object's lock, so each is one function of the record. The interface \<open>lane_queue\<close> is what the
  job service and the workers rely on; the queue's own definitions interpret it, and the
  delivery properties rest on that interpretation.
\<close>

section \<open>State and operations\<close>

record job_queue =
  q_lane_names :: "string list"
  q_queues :: "string \<rightharpoonup> string list"
  q_job_lane :: "string \<rightharpoonup> string"

datatype queue_error =
  Queue_duplicate_lanes "string list"
| Queue_lane_required
| Queue_unknown_lane string
| Queue_other_lane string string string

definition DEFAULT_LANE :: string where "DEFAULT_LANE = ''default''"

definition init_queue :: "string list option \<Rightarrow> queue_error + job_queue" where
  "init_queue lanes =
     (let lane_names = (case lanes of None \<Rightarrow> [DEFAULT_LANE]
                        | Some ls \<Rightarrow> if ls = [] then [DEFAULT_LANE] else ls) in
      if \<not> distinct lane_names then Inl (Queue_duplicate_lanes lane_names)
      else Inr \<lparr>q_lane_names = lane_names,
                q_queues = map_of (map (\<lambda>name. (name, [])) lane_names),
                q_job_lane = Map.empty\<rparr>)"

definition queue_is_single_lane :: "job_queue \<Rightarrow> bool" where
  "queue_is_single_lane q = (length (q_lane_names q) = 1)"

definition queue_resolve_lane :: "job_queue \<Rightarrow> string option \<Rightarrow> queue_error + string" where
  "queue_resolve_lane q lane =
     (case lane of
        None \<Rightarrow> if \<not> queue_is_single_lane q then Inl Queue_lane_required
                else Inr (hd (q_lane_names q))
      | Some l \<Rightarrow> if q_queues q l = None then Inl (Queue_unknown_lane l) else Inr l)"

text \<open>The ids waiting in a lane; no lane of that name holds none.\<close>

definition pending :: "job_queue \<Rightarrow> string \<Rightarrow> string list" where
  "pending q lane = (case q_queues q lane of None \<Rightarrow> [] | Some jobs \<Rightarrow> jobs)"

definition enqueue :: "string \<Rightarrow> string option \<Rightarrow> job_queue \<Rightarrow> queue_error + job_queue" where
  "enqueue job_id lane q =
     (case queue_resolve_lane q lane of
        Inl e \<Rightarrow> Inl e
      | Inr target \<Rightarrow>
          (case q_job_lane q job_id of
             Some existing_lane \<Rightarrow>
               if existing_lane \<noteq> target then Inl (Queue_other_lane job_id existing_lane target)
               else Inr q
           | None \<Rightarrow>
               Inr (q\<lparr>q_job_lane := (q_job_lane q)(job_id \<mapsto> target),
                      q_queues := (q_queues q)(target \<mapsto> pending q target @ [job_id])\<rparr>)))"

definition dequeue :: "string option \<Rightarrow> job_queue \<Rightarrow> queue_error + (string option \<times> job_queue)" where
  "dequeue lane q =
     (case queue_resolve_lane q lane of
        Inl e \<Rightarrow> Inl e
      | Inr target \<Rightarrow>
          (case pending q target of
             [] \<Rightarrow> Inr (None, q)
           | job_id # rest \<Rightarrow>
               Inr (Some job_id,
                    q\<lparr>q_queues := (q_queues q)(target \<mapsto> rest),
                      q_job_lane := (q_job_lane q)(job_id := None)\<rparr>)))"

definition queue_size :: "string option \<Rightarrow> job_queue \<Rightarrow> queue_error + nat" where
  "queue_size lane q =
     (if lane = None \<and> \<not> queue_is_single_lane q
      then Inr (sum_list (map (\<lambda>l. length (pending q l)) (q_lane_names q)))
      else (case queue_resolve_lane q lane of
              Inl e \<Rightarrow> Inl e
            | Inr target \<Rightarrow> Inr (length (pending q target))))"

section \<open>Invariant\<close>

definition queue_ok :: "job_queue \<Rightarrow> bool" where
  "queue_ok q \<longleftrightarrow>
     q_lane_names q \<noteq> [] \<and> distinct (q_lane_names q) \<and>
     dom (q_queues q) = set (q_lane_names q) \<and>
     (\<forall>lane. distinct (pending q lane)) \<and>
     (\<forall>job_id lane. q_job_lane q job_id = Some lane \<longleftrightarrow> job_id \<in> set (pending q lane))"

definition queue_target :: "job_queue \<Rightarrow> string option \<Rightarrow> string option" where
  "queue_target q lane = (case queue_resolve_lane q lane of Inl _ \<Rightarrow> None | Inr t \<Rightarrow> Some t)"

lemma pending_upd [simp]:
  "pending (q\<lparr>q_queues := (q_queues q)(t \<mapsto> xs), q_job_lane := m\<rparr>) l =
   (if l = t then xs else pending q l)"
  "pending (q\<lparr>q_job_lane := m, q_queues := (q_queues q)(t \<mapsto> xs)\<rparr>) l =
   (if l = t then xs else pending q l)"
  by (simp_all add: pending_def)

lemma resolve_in_dom: "queue_ok q \<Longrightarrow> queue_resolve_lane q lane = Inr t \<Longrightarrow> t \<in> dom (q_queues q)"
  by (auto simp: queue_resolve_lane_def queue_ok_def split: option.splits if_splits)

lemma resolve_same_lanes:
  assumes "q_lane_names q' = q_lane_names q" and "dom (q_queues q') = dom (q_queues q)"
  shows "queue_resolve_lane q' lane = queue_resolve_lane q lane"
proof -
  have "q_queues q' l = None \<longleftrightarrow> q_queues q l = None" for l using assms(2) by (metis domIff)
  with assms(1) show ?thesis
    by (simp add: queue_resolve_lane_def queue_is_single_lane_def split: option.splits)
qed

lemma init_queue_ok: "init_queue lanes = Inr q \<Longrightarrow> queue_ok q \<and> (\<forall>l. pending q l = [])"
proof -
  assume "init_queue lanes = Inr q"
  then obtain ls where ls: "ls \<noteq> []" "distinct ls"
    and q: "q = \<lparr>q_lane_names = ls, q_queues = map_of (map (\<lambda>name. (name, [])) ls),
                q_job_lane = Map.empty\<rparr>"
    by (auto simp: init_queue_def Let_def split: option.splits if_splits)
  have empty: "pending q l = []" for l
    by (auto simp: q pending_def split: option.splits dest!: map_of_SomeD)
  with ls show ?thesis by (auto simp: queue_ok_def q dom_map_of_conv_image_fst image_image)
qed

lemma enqueue_cases:
  assumes "queue_ok q" and "enqueue j lane q = Inr q'"
  obtains t where "queue_resolve_lane q lane = Inr t" and "q_lane_names q' = q_lane_names q"
    and "dom (q_queues q') = dom (q_queues q)"
    and "q' = q \<and> j \<in> set (pending q t) \<or>
         (\<forall>l. j \<notin> set (pending q l)) \<and>
         q' = q\<lparr>q_job_lane := (q_job_lane q)(j \<mapsto> t),
                q_queues := (q_queues q)(t \<mapsto> pending q t @ [j])\<rparr>"
proof -
  obtain t where t: "queue_resolve_lane q lane = Inr t"
    using assms(2) by (auto simp: enqueue_def split: sum.splits)
  show thesis
  proof (cases "q_job_lane q j")
    case None
    with assms(1) have fresh: "\<forall>l. j \<notin> set (pending q l)" by (metis queue_ok_def option.distinct(1))
    have q': "q' = q\<lparr>q_job_lane := (q_job_lane q)(j \<mapsto> t),
                q_queues := (q_queues q)(t \<mapsto> pending q t @ [j])\<rparr>"
      using assms(2) t None by (simp add: enqueue_def)
    have names: "q_lane_names q' = q_lane_names q" by (simp add: q')
    have dom: "dom (q_queues q') = dom (q_queues q)"
      using resolve_in_dom [OF assms(1) t] by (auto simp: q')
    show thesis by (rule that [OF t names dom]) (use fresh q' in blast)
  next
    case (Some l)
    with assms(2) t have "q' = q" "l = t" by (auto simp: enqueue_def split: if_splits)
    moreover have "j \<in> set (pending q l)" using assms(1) Some by (simp add: queue_ok_def)
    ultimately show thesis using that t by simp
  qed
qed

lemma enqueue_ok:
  assumes "queue_ok q" and "enqueue j lane q = Inr q'"
  shows "queue_ok q'"
  using assms
proof (cases rule: enqueue_cases)
  case (1 t)
  from 1(4) show ?thesis
  proof
    assume "q' = q \<and> j \<in> set (pending q t)"
    with assms(1) show ?thesis by simp
  next
    assume new: "(\<forall>l. j \<notin> set (pending q l)) \<and>
      q' = q\<lparr>q_job_lane := (q_job_lane q)(j \<mapsto> t),
             q_queues := (q_queues q)(t \<mapsto> pending q t @ [j])\<rparr>"
    then have q': "q' = q\<lparr>q_job_lane := (q_job_lane q)(j \<mapsto> t),
             q_queues := (q_queues q)(t \<mapsto> pending q t @ [j])\<rparr>" by simp
    have fresh: "j \<notin> set (pending q l)" for l using new by simp
    have ok: "q_lane_names q \<noteq> []" "distinct (q_lane_names q)"
        "dom (q_queues q) = set (q_lane_names q)" "\<And>l. distinct (pending q l)"
        "\<And>i l. q_job_lane q i = Some l \<longleftrightarrow> i \<in> set (pending q l)"
      using assms(1) by (auto simp: queue_ok_def)
    have "t \<in> dom (q_queues q)" using resolve_in_dom [OF assms(1) 1(1)] .
    with ok fresh show ?thesis by (auto simp: queue_ok_def q')
  qed
qed

lemma dequeue_cases:
  assumes "queue_ok q" and "dequeue lane q = Inr (r, q')"
  obtains t where "queue_resolve_lane q lane = Inr t" and "q_lane_names q' = q_lane_names q"
    and "dom (q_queues q') = dom (q_queues q)"
    and "r = None \<and> pending q t = [] \<and> q' = q \<or>
         (\<exists>j rest. r = Some j \<and> pending q t = j # rest \<and>
            q' = q\<lparr>q_queues := (q_queues q)(t \<mapsto> rest), q_job_lane := (q_job_lane q)(j := None)\<rparr>)"
proof -
  obtain t where t: "queue_resolve_lane q lane = Inr t"
    using assms(2) by (auto simp: dequeue_def split: sum.splits)
  have dom: "t \<in> dom (q_queues q)" using resolve_in_dom [OF assms(1) t] .
  show thesis
  proof (cases "pending q t")
    case Nil
    with assms(2) t that show thesis by (auto simp: dequeue_def)
  next
    case (Cons j rest)
    with assms(2) t have r: "r = Some j"
      and q': "q' = q\<lparr>q_queues := (q_queues q)(t \<mapsto> rest), q_job_lane := (q_job_lane q)(j := None)\<rparr>"
      by (auto simp: dequeue_def)
    have "dom (q_queues q') = dom (q_queues q)" using dom by (auto simp: q')
    with r q' Cons t that show thesis by simp
  qed
qed

lemma dequeue_ok:
  assumes "queue_ok q" and "dequeue lane q = Inr (r, q')"
  shows "queue_ok q'"
  using assms
proof (cases rule: dequeue_cases)
  case (1 t)
  from 1(4) show ?thesis
  proof
    assume "r = None \<and> pending q t = [] \<and> q' = q"
    with assms(1) show ?thesis by simp
  next
    assume "\<exists>j rest. r = Some j \<and> pending q t = j # rest \<and>
      q' = q\<lparr>q_queues := (q_queues q)(t \<mapsto> rest), q_job_lane := (q_job_lane q)(j := None)\<rparr>"
    then obtain j rest where pend: "pending q t = j # rest"
      and q': "q' = q\<lparr>q_queues := (q_queues q)(t \<mapsto> rest), q_job_lane := (q_job_lane q)(j := None)\<rparr>"
      by blast
    have ok: "q_lane_names q \<noteq> []" "distinct (q_lane_names q)"
        "dom (q_queues q) = set (q_lane_names q)" "\<And>l. distinct (pending q l)"
        "\<And>i l. q_job_lane q i = Some l \<longleftrightarrow> i \<in> set (pending q l)"
      using assms(1) by (auto simp: queue_ok_def)
    have dist: "j \<notin> set rest" "distinct rest" using ok(4) [of t] pend by auto
    have only: "j \<in> set (pending q l) \<longleftrightarrow> l = t" for l
      using ok(5) [of j l] ok(5) [of j t] pend by auto
    have "q_job_lane q i = Some t \<longleftrightarrow> i = j \<or> i \<in> set rest" for i
      using ok(5) [of i t] pend by auto
    with ok dist only 1(3) show ?thesis by (auto simp: queue_ok_def q')
  qed
qed

lemma enqueue_dom:
  "queue_ok q \<Longrightarrow> enqueue j lane q = Inr q' \<Longrightarrow> dom (q_queues q') = dom (q_queues q)"
  by (erule (1) enqueue_cases)

lemma dequeue_dom:
  "queue_ok q \<Longrightarrow> dequeue lane q = Inr (x, q') \<Longrightarrow> dom (q_queues q') = dom (q_queues q)"
  by (erule (1) dequeue_cases)

section \<open>The interface its clients rely on\<close>

locale lane_queue =
  fixes ok :: "'q \<Rightarrow> bool"
    and enq :: "'j \<Rightarrow> 'r \<Rightarrow> 'q \<Rightarrow> 'e + 'q"
    and deq :: "'r \<Rightarrow> 'q \<Rightarrow> 'e + ('j option \<times> 'q)"
    and waiting :: "'q \<Rightarrow> 'l \<Rightarrow> 'j list"
    and target :: "'q \<Rightarrow> 'r \<Rightarrow> 'l option"
  assumes ok_enq: "ok q \<Longrightarrow> enq j r q = Inr q' \<Longrightarrow> ok q'"
    and ok_deq: "ok q \<Longrightarrow> deq r q = Inr (x, q') \<Longrightarrow> ok q'"
    and target_enq: "ok q \<Longrightarrow> enq j r q = Inr q' \<Longrightarrow> target q' = target q"
    and target_deq: "ok q \<Longrightarrow> deq r q = Inr (x, q') \<Longrightarrow> target q' = target q"
    and one_lane: "ok q \<Longrightarrow> j \<in> set (waiting q l) \<Longrightarrow> j \<in> set (waiting q l') \<Longrightarrow> l = l'"
    and once: "ok q \<Longrightarrow> distinct (waiting q l)"
    and enq_effect: "ok q \<Longrightarrow> enq j r q = Inr q' \<Longrightarrow>
      \<exists>l. target q r = Some l \<and>
        ((j \<in> set (waiting q l) \<and> q' = q) \<or>
         ((\<forall>l'. j \<notin> set (waiting q l')) \<and> waiting q' = (waiting q)(l := waiting q l @ [j])))"
    and enq_total: "ok q \<Longrightarrow> target q r = Some l \<Longrightarrow> (\<forall>l'. l' \<noteq> l \<longrightarrow> j \<notin> set (waiting q l')) \<Longrightarrow>
      \<exists>q'. enq j r q = Inr q'"
    and deq_effect: "ok q \<Longrightarrow> deq r q = Inr (x, q') \<Longrightarrow>
      \<exists>l. target q r = Some l \<and>
        ((x = None \<and> waiting q l = [] \<and> q' = q) \<or>
         (\<exists>j. x = Some j \<and> waiting q l = j # waiting q' l \<and>
              waiting q' = (waiting q)(l := waiting q' l)))"
    and deq_total: "ok q \<Longrightarrow> target q r = Some l \<Longrightarrow> \<exists>x q'. deq r q = Inr (x, q')"
begin

text \<open>After a successful enqueue the job waits in exactly the lane it was sent to.\<close>

lemma enq_waits:
  assumes "ok q" and "enq j r q = Inr q'"
  shows "\<exists>l. target q r = Some l \<and> j \<in> set (waiting q' l) \<and> (\<forall>l'. l' \<noteq> l \<longrightarrow> j \<notin> set (waiting q' l'))"
proof -
  obtain l where l: "target q r = Some l"
    and "(j \<in> set (waiting q l) \<and> q' = q) \<or>
         ((\<forall>l'. j \<notin> set (waiting q l')) \<and> waiting q' = (waiting q)(l := waiting q l @ [j]))"
    using enq_effect [OF assms] by blast
  then have j: "j \<in> set (waiting q' l)" by auto
  then have "j \<notin> set (waiting q' l')" if "l' \<noteq> l" for l'
    using that one_lane [OF ok_enq [OF assms]] by blast
  with l j show ?thesis by blast
qed

text \<open>A job taken from a lane is gone from every lane until it is enqueued again.\<close>

lemma deq_taken:
  assumes "ok q" and "deq r q = Inr (Some j, q')"
  shows "\<forall>l. j \<notin> set (waiting q' l)"
proof
  fix l'
  obtain l where wait: "waiting q l = j # waiting q' l"
    and upd: "waiting q' = (waiting q)(l := waiting q' l)"
    using deq_effect [OF assms] by auto
  have "j \<notin> set (waiting q' l)" using once [OF assms(1), of l] wait by simp
  moreover have "j \<notin> set (waiting q' l')" if "l' \<noteq> l"
  proof
    assume "j \<in> set (waiting q' l')"
    moreover have "waiting q' l' = waiting q l'" using fun_cong [OF upd, of l'] that by simp
    ultimately have "j \<in> set (waiting q l')" by simp
    moreover have "j \<in> set (waiting q l)" using wait by simp
    ultimately show False using one_lane [OF assms(1)] that by blast
  qed
  ultimately show "j \<notin> set (waiting q' l')" by (cases "l' = l") auto
qed

text \<open>
  Redelivery: a job just taken through a route can always be put back through the same route,
  and then waits in the lane it came from.
\<close>

lemma redeliver:
  assumes "ok q" and "deq r q = Inr (Some j, q')"
  shows "\<exists>q''. enq j r q' = Inr q''"
proof -
  obtain l where l: "target q r = Some l" using deq_effect [OF assms] by auto
  have "ok q'" and "target q' r = Some l"
    using ok_deq [OF assms] target_deq [OF assms] l by simp_all
  then show ?thesis using enq_total deq_taken [OF assms] by blast
qed

end

lemma target_enqueue: "queue_ok q \<Longrightarrow> enqueue j lane q = Inr q' \<Longrightarrow> queue_target q' = queue_target q"
  by (erule (1) enqueue_cases)
    (simp only: fun_eq_iff queue_target_def resolve_same_lanes [of q' q], simp)

lemma target_dequeue:
  "queue_ok q \<Longrightarrow> dequeue lane q = Inr (x, q') \<Longrightarrow> queue_target q' = queue_target q"
  by (erule (1) dequeue_cases)
    (simp only: fun_eq_iff queue_target_def resolve_same_lanes [of q' q], simp)

lemma queue_target_Some: "queue_target q lane = Some t \<longleftrightarrow> queue_resolve_lane q lane = Inr t"
  by (simp add: queue_target_def split: sum.splits)

interpretation jobs: lane_queue queue_ok enqueue dequeue pending queue_target
proof
  fix q q' :: job_queue and j l l' and r :: "string option" and x :: "string option"
  assume ok: "queue_ok q"
  show "enqueue j r q = Inr q' \<Longrightarrow> queue_ok q'" using ok by (rule enqueue_ok)
  show "dequeue r q = Inr (x, q') \<Longrightarrow> queue_ok q'" using ok by (rule dequeue_ok)
  show "enqueue j r q = Inr q' \<Longrightarrow> queue_target q' = queue_target q" using ok by (rule target_enqueue)
  show "dequeue r q = Inr (x, q') \<Longrightarrow> queue_target q' = queue_target q" using ok by (rule target_dequeue)
  show "j \<in> set (pending q l) \<Longrightarrow> j \<in> set (pending q l') \<Longrightarrow> l = l'"
    using ok by (metis queue_ok_def option.inject)
  show "distinct (pending q l)" using ok by (simp add: queue_ok_def)
  show "\<exists>l. queue_target q r = Some l \<and>
        ((j \<in> set (pending q l) \<and> q' = q) \<or>
         ((\<forall>l'. j \<notin> set (pending q l')) \<and> pending q' = (pending q)(l := pending q l @ [j])))"
    if "enqueue j r q = Inr q'"
    using ok that by (cases rule: enqueue_cases) (auto simp: queue_target_Some fun_eq_iff)
  show "\<exists>q'. enqueue j r q = Inr q'"
    if "queue_target q r = Some l" "\<forall>l'. l' \<noteq> l \<longrightarrow> j \<notin> set (pending q l')"
  proof -
    have "\<not> (\<exists>l'. q_job_lane q j = Some l' \<and> l' \<noteq> l)" using that(2) ok by (auto simp: queue_ok_def)
    with that(1) show ?thesis
      by (auto simp: queue_target_Some enqueue_def split: option.splits)
  qed
  show "\<exists>l. queue_target q r = Some l \<and>
        ((x = None \<and> pending q l = [] \<and> q' = q) \<or>
         (\<exists>j. x = Some j \<and> pending q l = j # pending q' l \<and>
              pending q' = (pending q)(l := pending q' l)))"
    if "dequeue r q = Inr (x, q')"
    using ok that by (cases rule: dequeue_cases) (auto simp: queue_target_Some fun_eq_iff)
  show "\<exists>x q'. dequeue r q = Inr (x, q')" if "queue_target q r = Some l"
    using that by (auto simp: queue_target_Some dequeue_def split: list.splits)
qed

section \<open>Runs of operations\<close>

datatype queue_op = Op_enqueue string "string option" | Op_dequeue "string option"

text \<open>
  The accepted submissions and the deliveries of a run, each with its lane. A refused operation
  (the \<open>ValueError\<close>s) and an enqueue of a job already waiting in its lane leave no trace.
\<close>

definition queue_step ::
  "job_queue \<Rightarrow> queue_op \<Rightarrow> (string \<times> string) list \<times> (string \<times> string) list \<times> job_queue" where
  "queue_step q op =
     (case op of
        Op_enqueue j lane \<Rightarrow>
          (case enqueue j lane q of
             Inl _ \<Rightarrow> ([], [], q)
           | Inr q' \<Rightarrow>
               (case queue_target q lane of
                  None \<Rightarrow> ([], [], q')
                | Some t \<Rightarrow> if j \<in> set (pending q t) then ([], [], q') else ([(t, j)], [], q')))
      | Op_dequeue lane \<Rightarrow>
          (case dequeue lane q of
             Inl _ \<Rightarrow> ([], [], q)
           | Inr (None, q') \<Rightarrow> ([], [], q')
           | Inr (Some j, q') \<Rightarrow>
               (case queue_target q lane of None \<Rightarrow> ([], [], q') | Some t \<Rightarrow> ([], [(t, j)], q'))))"

fun queue_run ::
  "job_queue \<Rightarrow> queue_op list \<Rightarrow> (string \<times> string) list \<times> (string \<times> string) list \<times> job_queue" where
  "queue_run q [] = ([], [], q)"
| "queue_run q (op # ops) =
     (case queue_step q op of
        (acc, del, q1) \<Rightarrow>
          (case queue_run q1 ops of (accs, dels, q2) \<Rightarrow> (acc @ accs, del @ dels, q2)))"

definition on_lane :: "string \<Rightarrow> (string \<times> string) list \<Rightarrow> string list" where
  "on_lane t log = map snd (filter (\<lambda>entry. fst entry = t) log)"

lemma on_lane_simps [simp]:
  "on_lane t [] = []"
  "on_lane t ((s, j) # log) = (if s = t then j # on_lane t log else on_lane t log)"
  "on_lane t (a @ b) = on_lane t a @ on_lane t b"
  by (simp_all add: on_lane_def)

lemma queue_step_balance:
  assumes ok: "queue_ok q" and step: "queue_step q op = (acc, del, q')"
  shows "queue_ok q' \<and> on_lane t del @ pending q' t = pending q t @ on_lane t acc"
proof (cases op)
  case (Op_enqueue j lane)
  show ?thesis
  proof (cases "enqueue j lane q")
    case (Inl e)
    with step Op_enqueue ok show ?thesis by (simp add: queue_step_def)
  next
    case (Inr q1)
    obtain l where "queue_target q lane = Some l"
      and "(j \<in> set (pending q l) \<and> q1 = q) \<or>
         ((\<forall>l'. j \<notin> set (pending q l')) \<and> pending q1 = (pending q)(l := pending q l @ [j]))"
      using jobs.enq_effect [OF ok Inr] by blast
    then show ?thesis
      using step Op_enqueue Inr enqueue_ok [OF ok Inr] by (auto simp: queue_step_def)
  qed
next
  case (Op_dequeue lane)
  show ?thesis
  proof (cases "dequeue lane q")
    case (Inl e)
    with step Op_dequeue ok show ?thesis by (simp add: queue_step_def)
  next
    case (Inr p)
    obtain x q1 where p: "p = (x, q1)" by (cases p)
    with Inr have deq: "dequeue lane q = Inr (x, q1)" by simp
    obtain l where l: "queue_target q lane = Some l"
      and cases: "(x = None \<and> pending q l = [] \<and> q1 = q) \<or>
         (\<exists>j. x = Some j \<and> pending q l = j # pending q1 l \<and>
              pending q1 = (pending q)(l := pending q1 l))"
      using jobs.deq_effect [OF ok deq] by blast
    have ok1: "queue_ok q1" using dequeue_ok [OF ok deq] .
    from cases show ?thesis
    proof
      assume "x = None \<and> pending q l = [] \<and> q1 = q"
      with step Op_dequeue deq ok show ?thesis by (auto simp: queue_step_def)
    next
      assume "\<exists>j. x = Some j \<and> pending q l = j # pending q1 l \<and>
              pending q1 = (pending q)(l := pending q1 l)"
      then obtain j where j: "x = Some j" "pending q l = j # pending q1 l"
        and upd: "pending q1 = (pending q)(l := pending q1 l)" by blast
      have "acc = []" "del = [(l, j)]" "q' = q1"
        using step Op_dequeue deq l j(1) by (auto simp: queue_step_def)
      moreover have "pending q1 t = pending q t" if "t \<noteq> l" using fun_cong [OF upd, of t] that by simp
      ultimately show ?thesis using ok1 j(2) by auto
    qed
  qed
qed

lemma queue_step_dom:
  assumes "queue_ok q" and "queue_step q op = (acc, del, q')"
  shows "dom (q_queues q') = dom (q_queues q)"
proof (cases op)
  case (Op_enqueue j lane)
  show ?thesis
  proof (cases "enqueue j lane q")
    case (Inr q1)
    with assms(2) Op_enqueue have "q' = q1"
      by (auto simp: queue_step_def split: option.splits if_splits)
    with enqueue_dom [OF assms(1)] Inr show ?thesis by simp
  qed (use assms Op_enqueue in \<open>simp add: queue_step_def\<close>)
next
  case (Op_dequeue lane)
  show ?thesis
  proof (cases "dequeue lane q")
    case (Inr p)
    obtain x q1 where p: "p = (x, q1)" by (cases p)
    with assms(2) Op_dequeue Inr have "q' = q1"
      by (auto simp: queue_step_def split: option.splits)
    with dequeue_dom [OF assms(1)] Inr p show ?thesis by simp
  qed (use assms Op_dequeue in \<open>simp add: queue_step_def\<close>)
qed

section \<open>Properties\<close>

text \<open>
  C38: nothing is lost, duplicated or reordered. From any well-formed queue and for any sequence
  of enqueues and dequeues (refused ones included), in every lane what was delivered followed
  by what still waits is exactly what was waiting followed by what was accepted, in order; and
  the invariant holds at the end.
\<close>

theorem queue_run_fifo:
  assumes "queue_ok q" and "queue_run q ops = (accepted, delivered, q')"
  shows "queue_ok q' \<and>
         (\<forall>t. on_lane t delivered @ pending q' t = pending q t @ on_lane t accepted)"
  using assms
proof (induction ops arbitrary: q accepted delivered)
  case Nil
  then show ?case by simp
next
  case (Cons op ops)
  obtain acc del q1 where step: "queue_step q op = (acc, del, q1)" by (cases "queue_step q op")
  obtain accs dels where run: "queue_run q1 ops = (accs, dels, q')"
    and parts: "accepted = acc @ accs" "delivered = del @ dels"
    using Cons.prems(2) step by (auto split: prod.splits)
  have first: "queue_ok q1" "\<And>t. on_lane t del @ pending q1 t = pending q t @ on_lane t acc"
    using queue_step_balance [OF Cons.prems(1) step] by auto
  with Cons.IH [OF first(1) run] show ?case by (metis append_assoc on_lane_simps(3) parts)
qed

definition sample_queue :: job_queue where
  "sample_queue =
     \<lparr>q_lane_names = [''heavy'', ''light''],
      q_queues = map_of [(''heavy'', []), (''light'', [])], q_job_lane = Map.empty\<rparr>"

lemma sample_queue_ok: "queue_ok sample_queue \<and> (\<forall>l. pending sample_queue l = [])"
  by (rule init_queue_ok [of "Some [''heavy'', ''light'']"]) (simp add: init_queue_def sample_queue_def)

definition sample_ops :: "queue_op list" where
  "sample_ops =
     [Op_enqueue ''j1'' (Some ''heavy''), Op_enqueue ''j2'' (Some ''light''),
      Op_enqueue ''j1'' (Some ''light''), Op_dequeue (Some ''light'')]"

theorem queue_run_fifo_witness:
  "fst (queue_run sample_queue sample_ops) = [(''heavy'', ''j1''), (''light'', ''j2'')] \<and>
   pending (snd (snd (queue_run sample_queue sample_ops))) ''heavy'' = [''j1'']"
proof -
  have log: "fst (queue_run sample_queue sample_ops) = [(''heavy'', ''j1''), (''light'', ''j2'')]"
      "fst (snd (queue_run sample_queue sample_ops)) = [(''light'', ''j2'')]"
    by code_simp+
  then have "queue_run sample_queue sample_ops =
      ([(''heavy'', ''j1''), (''light'', ''j2'')], [(''light'', ''j2'')],
       snd (snd (queue_run sample_queue sample_ops)))"
    by (metis prod.collapse)
  from queue_run_fifo [OF conjunct1 [OF sample_queue_ok] this] log(1) show ?thesis
    using sample_queue_ok by (auto dest: spec [of _ "''heavy''"])
qed

text \<open>
  Lanes do not wait for each other. What a lane delivers next does not depend on what is
  submitted to other lanes: after any operations addressed to other lanes, dequeuing this lane
  gives the job that would have been given before them.
\<close>

theorem lanes_independent:
  assumes "queue_ok q"
    and "\<forall>op \<in> set ops. (\<exists>j s. op = Op_enqueue j (Some s) \<and> s \<noteq> lane) \<or>
                        (\<exists>s. op = Op_dequeue (Some s) \<and> s \<noteq> lane)"
    and "queue_run q ops = (accepted, delivered, q')"
  shows "map_sum id fst (dequeue (Some lane) q') = map_sum id fst (dequeue (Some lane) q)"
proof -
  have "queue_ok q' \<and> pending q' lane = pending q lane \<and> dom (q_queues q') = dom (q_queues q)"
    using assms
  proof (induction ops arbitrary: q accepted delivered)
    case Nil
    then show ?case by simp
  next
    case (Cons op ops)
    obtain acc del q1 where step: "queue_step q op = (acc, del, q1)" by (cases "queue_step q op")
    obtain accs dels where run: "queue_run q1 ops = (accs, dels, q')"
      using Cons.prems(3) step by (auto split: prod.splits)
    have ok1: "queue_ok q1" using queue_step_balance [OF Cons.prems(1) step] by blast
    have other: "on_lane lane acc = [] \<and> on_lane lane del = []"
      using Cons.prems(2) step
      by (auto simp: queue_step_def queue_target_def queue_resolve_lane_def
          split: sum.splits option.splits if_splits)
    moreover have "dom (q_queues q1) = dom (q_queues q)"
      by (rule queue_step_dom [OF Cons.prems(1) step])
    moreover have "pending q1 lane = pending q lane"
      using queue_step_balance [OF Cons.prems(1) step, of lane] other by simp
    ultimately show ?case using Cons.IH [OF ok1 _ run] Cons.prems(2) by auto
  qed
  then show ?thesis
    by (auto simp: dequeue_def queue_resolve_lane_def split: list.splits)
qed

theorem lanes_independent_witness:
  "map_sum id fst (dequeue (Some ''light'')
     (snd (snd (queue_run sample_queue [Op_enqueue ''j1'' (Some ''heavy'')])))) =
   map_sum id fst (dequeue (Some ''light'') sample_queue)"
  by (rule lanes_independent [OF conjunct1 [OF sample_queue_ok], where ops = "[Op_enqueue ''j1'' (Some ''heavy'')]"
        and accepted = "fst (queue_run sample_queue [Op_enqueue ''j1'' (Some ''heavy'')])"
        and delivered = "fst (snd (queue_run sample_queue [Op_enqueue ''j1'' (Some ''heavy'')]))"])
    simp_all

end
