(* ===== verification/Reference_Check.thy ===== *)
theory Reference_Check imports Job_Schemas Py_Float Py_Text begin

text \<open>
  Reference-image conditioning: the model-agnostic contract of \<open>core/reference_capabilities.py\<close>
  and the creation-time check \<open>JobService.validate_references\<close> of \<open>core/jobs/service.py\<close>.

  The check only reads, so it is a pure function of the request, the job's project and a
  \<open>reference_env\<close>: the look-ups of the asset repository, the Bible repository and the model
  service the job service was built with (each of them optional there). Every \<open>raise\<close> is a
  constructor of \<open>reference_error\<close>.
\<close>

section \<open>Capabilities\<close>

record reference_capability =
  cap_supported_modes :: "conditioning_mode list"
  cap_supported_roles :: "reference_role list"
  cap_supported_preprocessing :: "reference_preprocessing list"
  cap_min_strength :: rat
  cap_max_strength :: rat
  cap_max_references_per_role :: nat

definition cap_enabled :: "reference_capability \<Rightarrow> bool" where
  "cap_enabled c = (cap_supported_modes c \<noteq> [] \<and> cap_supported_roles c \<noteq> [])"

datatype reference_error =
  Ref_conditioning_unsupported string
| Ref_role_unsupported string reference_role
| Ref_strength_out_of_range rat string
| Ref_preprocessing_unsupported string reference_preprocessing
| Ref_too_many string reference_role nat
| Ref_no_img2img string
| Ref_more_than_one string nat
| Ref_preprocessing_not_implemented string reference_preprocessing
| Ref_incompatible_param string string
| Ref_bad_steps string json
| Ref_steps_overflow int
| Ref_no_denoising_steps string rat int
| Ref_manifest_unresolved string
| Ref_cross_project string "string option" "string option"

definition DEFAULT_REFERENCE_STRENGTH :: rat where
  "DEFAULT_REFERENCE_STRENGTH = fl (6 / 10)"

definition select_effective_references :: "reference_input list \<Rightarrow> reference_input list" where
  "select_effective_references references = filter (\<lambda>r. 0 < ref_strength r) references"

fun validate_each_reference ::
  "reference_capability \<Rightarrow> string \<Rightarrow> (reference_role \<Rightarrow> nat) \<Rightarrow> reference_input list \<Rightarrow>
   reference_error + unit" where
  "validate_each_reference c model_id counts [] = Inr ()"
| "validate_each_reference c model_id counts (r # rs) =
     (if ref_role r \<notin> set (cap_supported_roles c) then
        Inl (Ref_role_unsupported model_id (ref_role r))
      else if \<not> (cap_min_strength c \<le> ref_strength r \<and> ref_strength r \<le> cap_max_strength c) then
        Inl (Ref_strength_out_of_range (ref_strength r) (ref_asset_id r))
      else if ref_preprocessing r \<notin> set (cap_supported_preprocessing c) then
        Inl (Ref_preprocessing_unsupported model_id (ref_preprocessing r))
      else
        (let counts' = counts(ref_role r := counts (ref_role r) + 1) in
         if cap_max_references_per_role c < counts' (ref_role r) then
           Inl (Ref_too_many model_id (ref_role r) (counts' (ref_role r)))
         else validate_each_reference c model_id counts' rs))"

definition validate_reference_inputs ::
  "reference_input list \<Rightarrow> reference_capability option \<Rightarrow> string \<Rightarrow> reference_error + unit" where
  "validate_reference_inputs references capability model_id =
     (if references = [] then Inr ()
      else (case capability of
              None \<Rightarrow> Inl (Ref_conditioning_unsupported model_id)
            | Some c \<Rightarrow>
                if \<not> cap_enabled c then Inl (Ref_conditioning_unsupported model_id)
                else validate_each_reference c model_id (\<lambda>_. 0) references))"

section \<open>The job service's preflight\<close>

record model_manifest =
  mf_public_model_id :: string
  mf_default_params :: "(string \<times> json) list"
  mf_reference_capability :: "reference_capability option"

record bible_entry =
  be_kind :: string
  be_reference_asset_ids :: "string list"

text \<open>
  \<open>re_asset_project\<close> looks an asset id up and gives its project; \<open>re_get_manifest\<close> gives no
  manifest where \<open>ModelService.get_manifest\<close> raises \<open>LookupError\<close>. A repository the service was
  built without is \<open>None\<close>.
\<close>

record reference_env =
  re_asset_project :: "(string \<Rightarrow> string option option) option"
  re_bible :: "(string \<Rightarrow> bible_entry option) option"
  re_get_manifest :: "(string \<Rightarrow> media_type \<Rightarrow> string option \<Rightarrow> model_manifest option) option"

definition reject_cross_project ::
  "(string \<Rightarrow> string option option) \<Rightarrow> string option \<Rightarrow> string \<Rightarrow> reference_error + unit" where
  "reject_cross_project asset_project project_id asset_id =
     (case asset_project asset_id of
        None \<Rightarrow> Inr ()
      | Some owner \<Rightarrow>
          if owner \<noteq> project_id then Inl (Ref_cross_project asset_id owner project_id) else Inr ())"

fun reject_cross_project_all ::
  "(string \<Rightarrow> string option option) \<Rightarrow> string option \<Rightarrow> string list \<Rightarrow> reference_error + unit" where
  "reject_cross_project_all ap project_id [] = Inr ()"
| "reject_cross_project_all ap project_id (a # as) =
     (case reject_cross_project ap project_id a of
        Inl e \<Rightarrow> Inl e | Inr _ \<Rightarrow> reject_cross_project_all ap project_id as)"

definition role_of_kind :: "string \<Rightarrow> reference_role option" where
  "role_of_kind kind =
     (if kind = ''character'' then Some Character_role
      else if kind = ''location'' then Some Location_role else None)"

text \<open>One entry's assets: the boundary check first, then the duplicate check, per asset.\<close>

fun bible_asset_references ::
  "(string \<Rightarrow> string option option) \<Rightarrow> string option \<Rightarrow> reference_role \<Rightarrow> string list \<Rightarrow>
   reference_input list \<Rightarrow> reference_error + reference_input list" where
  "bible_asset_references ap project_id role [] acc = Inr acc"
| "bible_asset_references ap project_id role (a # as) acc =
     (case reject_cross_project ap project_id a of
        Inl e \<Rightarrow> Inl e
      | Inr _ \<Rightarrow>
          bible_asset_references ap project_id role as
            (if (a, role) \<in> set (map (\<lambda>r. (ref_asset_id r, ref_role r)) acc) then acc
             else acc @ [\<lparr>ref_asset_id = a, ref_role = role,
                          ref_strength = DEFAULT_REFERENCE_STRENGTH, ref_preprocessing = Pre_none\<rparr>]))"

fun bible_references ::
  "(string \<Rightarrow> string option option) \<Rightarrow> (string \<Rightarrow> bible_entry option) \<Rightarrow> string option \<Rightarrow> json list \<Rightarrow>
   reference_input list \<Rightarrow> reference_error + reference_input list" where
  "bible_references ap bible project_id [] acc = Inr acc"
| "bible_references ap bible project_id (x # xs) acc =
     (case x of
        JStr entry_id \<Rightarrow>
          (case bible entry_id of
             None \<Rightarrow> bible_references ap bible project_id xs acc
           | Some entry \<Rightarrow>
               (case role_of_kind (be_kind entry) of
                  None \<Rightarrow> bible_references ap bible project_id xs acc
                | Some role \<Rightarrow>
                    (case bible_asset_references ap project_id role (be_reference_asset_ids entry) acc of
                       Inl e \<Rightarrow> Inl e
                     | Inr acc' \<Rightarrow> bible_references ap bible project_id xs acc')))
      | _ \<Rightarrow> bible_references ap bible project_id xs acc)"

fun dedupe_references :: "reference_input list \<Rightarrow> reference_input list \<Rightarrow> reference_input list" where
  "dedupe_references seen [] = seen"
| "dedupe_references seen (r # rs) =
     (if r \<in> set seen then dedupe_references seen rs else dedupe_references (seen @ [r]) rs)"

text \<open>\<open>int(raw_steps)\<close> of a parameter value; \<open>None\<close> is the \<open>TypeError\<close> or \<open>ValueError\<close>.\<close>

definition json_int :: "json \<Rightarrow> int option" where
  "json_int j =
     (case j of JInt n \<Rightarrow> Some n | JBool b \<Rightarrow> Some (if b then 1 else 0)
      | JFloat x \<Rightarrow> Some (py_trunc x) | JStr s \<Rightarrow> py_int s | _ \<Rightarrow> None)"

text \<open>\<open>{**manifest.default_params, **request.params}\<close> as a look-up.\<close>

definition effective_params ::
  "model_manifest \<Rightarrow> generation_request \<Rightarrow> string \<Rightarrow> json option" where
  "effective_params m request = map_of (mf_default_params m) ++ map_of (req_params request)"

definition inference_steps :: "(string \<Rightarrow> json option) \<Rightarrow> json" where
  "inference_steps params =
     (case params ''num_inference_steps'' of
        Some j \<Rightarrow> j
      | None \<Rightarrow> (case params ''steps'' of Some j \<Rightarrow> j | None \<Rightarrow> JInt 30))"

text \<open>
  \<open>int(num_inference_steps * (1.0 - strength))\<close> in float arithmetic. The conversion of an
  integer that rounds to \<open>2 ^ 1024\<close> or more (halfway rounds to even, so from \<open>2 ^ 1024 - 2 ^ 970\<close>
  on) raises \<open>OverflowError\<close>, which nothing here catches.
\<close>

definition float_overflow :: "int \<Rightarrow> bool" where
  "float_overflow n \<longleftrightarrow> 2 ^ 1024 - 2 ^ 970 \<le> \<bar>n\<bar>"

definition denoising_steps :: "int \<Rightarrow> rat \<Rightarrow> int" where
  "denoising_steps steps strength = py_trunc (fmul (fl (of_int steps)) (fsub 1 strength))"

definition INCOMPATIBLE_PARAMS :: "string list" where
  "INCOMPATIBLE_PARAMS = [''denoising_start'', ''denoising_end'', ''timesteps'', ''sigmas'']"

definition require_img2img_mode :: "model_manifest \<Rightarrow> string \<Rightarrow> reference_error + unit" where
  "require_img2img_mode m model_id =
     (case mf_reference_capability m of
        None \<Rightarrow> Inl (Ref_no_img2img model_id)
      | Some c \<Rightarrow> if Mode_img2img \<notin> set (cap_supported_modes c) then Inl (Ref_no_img2img model_id)
                  else Inr ())"

definition validate_primary ::
  "generation_request \<Rightarrow> model_manifest \<Rightarrow> reference_input \<Rightarrow> reference_error + unit" where
  "validate_primary request m primary =
     (let model_id = req_model_id request; params = effective_params m request in
      if ref_preprocessing primary \<notin> {Pre_none, Pre_auto} then
        Inl (Ref_preprocessing_not_implemented model_id (ref_preprocessing primary))
      else
        (case filter (\<lambda>p. params p \<noteq> None) INCOMPATIBLE_PARAMS of
           p # _ \<Rightarrow> Inl (Ref_incompatible_param model_id p)
         | [] \<Rightarrow>
             (case json_int (inference_steps params) of
                None \<Rightarrow> Inl (Ref_bad_steps model_id (inference_steps params))
              | Some steps \<Rightarrow>
                  if float_overflow steps then Inl (Ref_steps_overflow steps)
                  else if denoising_steps steps (ref_strength primary) < 1 then
                    Inl (Ref_no_denoising_steps model_id (ref_strength primary) steps)
                  else Inr ())))"

definition validate_effective ::
  "reference_env \<Rightarrow> generation_request \<Rightarrow> reference_input list \<Rightarrow> reference_error + unit" where
  "validate_effective env request effective =
     (case effective of
        [] \<Rightarrow> Inr ()
      | primary # others \<Rightarrow>
          (case re_get_manifest env of
             None \<Rightarrow> Inr ()
           | Some get_manifest \<Rightarrow>
               (case get_manifest (req_model_id request) (req_media_type request)
                       (req_task_type request) of
                  None \<Rightarrow> Inl (Ref_manifest_unresolved (req_model_id request))
                | Some m \<Rightarrow>
                    (case validate_reference_inputs effective (mf_reference_capability m)
                            (if req_model_id request = [] then mf_public_model_id m
                             else req_model_id request) of
                       Inl e \<Rightarrow> Inl e
                     | Inr _ \<Rightarrow>
                         (case require_img2img_mode m (req_model_id request) of
                            Inl e \<Rightarrow> Inl e
                          | Inr _ \<Rightarrow>
                              if others \<noteq> [] then
                                Inl (Ref_more_than_one (req_model_id request) (length effective))
                              else validate_primary request m primary)))))"

definition bible_reference_inputs ::
  "reference_env \<Rightarrow> generation_request \<Rightarrow> string option \<Rightarrow> reference_error + reference_input list" where
  "bible_reference_inputs env request project_id =
     (case (req_media_type request, re_asset_project env, re_bible env) of
        (Media_image, Some ap, Some bible) \<Rightarrow>
          (case map_of (req_params request) ''bible_refs'' of
             Some (JArr refs) \<Rightarrow> bible_references ap bible project_id refs []
           | _ \<Rightarrow> Inr [])
      | _ \<Rightarrow> Inr [])"

definition requested_cross_project ::
  "reference_env \<Rightarrow> generation_request \<Rightarrow> string option \<Rightarrow> reference_error + unit" where
  "requested_cross_project env request project_id =
     (case re_asset_project env of
        None \<Rightarrow> Inr ()
      | Some ap \<Rightarrow> reject_cross_project_all ap project_id (map ref_asset_id (req_references request)))"

definition validate_references ::
  "reference_env \<Rightarrow> generation_request \<Rightarrow> string option \<Rightarrow> reference_error + unit" where
  "validate_references env request project_id =
     (case requested_cross_project env request project_id of
        Inl e \<Rightarrow> Inl e
      | Inr _ \<Rightarrow>
          (case bible_reference_inputs env request project_id of
             Inl e \<Rightarrow> Inl e
           | Inr bible_inputs \<Rightarrow>
               validate_effective env request
                 (select_effective_references
                    (dedupe_references [] (req_references request @ bible_inputs)))))"

section \<open>Facts\<close>

definition role_count :: "reference_role \<Rightarrow> reference_input list \<Rightarrow> nat" where
  "role_count role rs = length (filter (\<lambda>r. ref_role r = role) rs)"

definition reference_fits :: "reference_capability \<Rightarrow> reference_input \<Rightarrow> bool" where
  "reference_fits c r \<longleftrightarrow>
     ref_role r \<in> set (cap_supported_roles c) \<and>
     cap_min_strength c \<le> ref_strength r \<and> ref_strength r \<le> cap_max_strength c \<and>
     ref_preprocessing r \<in> set (cap_supported_preprocessing c)"

lemma validate_each_reference_iff:
  "(\<forall>role. counts role \<le> cap_max_references_per_role c) \<Longrightarrow>
   validate_each_reference c model_id counts rs = Inr () \<longleftrightarrow>
   (\<forall>r \<in> set rs. reference_fits c r) \<and>
   (\<forall>role. counts role + role_count role rs \<le> cap_max_references_per_role c)"
proof (induction rs arbitrary: counts)
  case Nil
  then show ?case by (simp add: role_count_def)
next
  case (Cons r rs)
  let ?counts = "counts(ref_role r := counts (ref_role r) + 1)"
  have shift: "?counts role + role_count role rs = counts role + role_count role (r # rs)" for role
    by (simp add: role_count_def)
  show ?case
  proof (cases "reference_fits c r \<and> ?counts (ref_role r) \<le> cap_max_references_per_role c")
    case True
    then have "validate_each_reference c model_id counts (r # rs) =
        validate_each_reference c model_id ?counts rs"
      by (simp add: reference_fits_def Let_def)
    moreover have "\<forall>role. ?counts role \<le> cap_max_references_per_role c"
      using True Cons.prems by auto
    ultimately show ?thesis
      using Cons.IH [of ?counts] True by (simp only: shift list.set ball_simps simp_thms)
  next
    case False
    then have "validate_each_reference c model_id counts (r # rs) \<noteq> Inr ()"
      by (auto simp: reference_fits_def Let_def)
    moreover have "\<not> ((\<forall>r \<in> set (r # rs). reference_fits c r) \<and>
        (\<forall>role. counts role + role_count role (r # rs) \<le> cap_max_references_per_role c))"
    proof
      assume all: "(\<forall>r \<in> set (r # rs). reference_fits c r) \<and>
        (\<forall>role. counts role + role_count role (r # rs) \<le> cap_max_references_per_role c)"
      then have "?counts (ref_role r) + role_count (ref_role r) rs \<le> cap_max_references_per_role c"
        by (simp only: shift)
      with all False show False by simp
    qed
    ultimately show ?thesis by blast
  qed
qed

lemma validate_primary_ok:
  assumes "validate_primary request m primary = Inr ()"
  obtains steps where "\<forall>p \<in> set INCOMPATIBLE_PARAMS. effective_params m request p = None"
    and "json_int (inference_steps (effective_params m request)) = Some steps"
    and "1 \<le> denoising_steps steps (ref_strength primary)"
proof -
  let ?params = "effective_params m request"
  have none: "filter (\<lambda>p. ?params p \<noteq> None) INCOMPATIBLE_PARAMS = []"
    using assms by (simp add: validate_primary_def Let_def split: if_splits list.splits)
  with assms obtain steps where "json_int (inference_steps ?params) = Some steps"
    and "\<not> denoising_steps steps (ref_strength primary) < 1"
    by (auto simp add: validate_primary_def Let_def split: if_splits option.splits)
  moreover have "\<forall>p \<in> set INCOMPATIBLE_PARAMS. ?params p = None"
    using none by (simp add: filter_empty_conv)
  ultimately show thesis using that by simp
qed

lemma validate_effective_ok:
  assumes "validate_effective env request (primary # others) = Inr ()"
    and "re_get_manifest env = Some get_manifest"
  obtains m c where
    "get_manifest (req_model_id request) (req_media_type request) (req_task_type request) = Some m"
    and "mf_reference_capability m = Some c" and "reference_fits c primary"
    and "Mode_img2img \<in> set (cap_supported_modes c)" and "others = []"
    and "validate_primary request m primary = Inr ()"
proof -
  obtain m where m: "get_manifest (req_model_id request) (req_media_type request)
      (req_task_type request) = Some m"
    using assms by (simp add: validate_effective_def split: option.splits)
  define name where "name = (if req_model_id request = [] then mf_public_model_id m else req_model_id request)"
  have unfolded: "(case validate_reference_inputs (primary # others) (mf_reference_capability m) name of
        Inl e \<Rightarrow> Inl e
      | Inr _ \<Rightarrow>
          (case require_img2img_mode m (req_model_id request) of
             Inl e \<Rightarrow> Inl e
           | Inr _ \<Rightarrow>
               if others \<noteq> [] then
                 Inl (Ref_more_than_one (req_model_id request) (length (primary # others)))
               else validate_primary request m primary)) = Inr ()"
    using assms m by (simp only: validate_effective_def name_def list.case option.case)
  then have inputs: "validate_reference_inputs (primary # others) (mf_reference_capability m) name = Inr ()"
    by (simp split: sum.splits)
  then obtain c where c: "mf_reference_capability m = Some c" "reference_fits c primary"
    by (auto simp: validate_reference_inputs_def validate_each_reference_iff
        simp del: validate_each_reference.simps split: option.splits if_splits)
  have mode: "require_img2img_mode m (req_model_id request) = Inr ()"
    using unfolded inputs by (simp split: sum.splits)
  have rest: "others = []" "validate_primary request m primary = Inr ()"
    using unfolded inputs mode by (simp_all split: if_splits)
  have "Mode_img2img \<in> set (cap_supported_modes c)"
    using mode c(1) by (simp add: require_img2img_mode_def split: if_splits)
  with that m c rest show thesis by blast
qed

lemma reject_cross_project_all_ok:
  "reject_cross_project_all ap project_id as = Inr u \<longleftrightarrow>
   (\<forall>a \<in> set as. \<forall>owner. ap a = Some owner \<longrightarrow> owner = project_id)"
  by (induction as) (auto simp: reject_cross_project_def split: option.splits)

definition in_project :: "(string \<Rightarrow> string option option) \<Rightarrow> string option \<Rightarrow> reference_input \<Rightarrow> bool" where
  "in_project ap project_id r \<longleftrightarrow>
     (case ap (ref_asset_id r) of None \<Rightarrow> True | Some owner \<Rightarrow> owner = project_id)"

lemma in_project_new:
  "reject_cross_project ap project_id a = Inr u \<Longrightarrow> ref_asset_id r = a \<Longrightarrow> in_project ap project_id r"
  by (auto simp: in_project_def reject_cross_project_def split: option.splits if_splits)

lemma bible_asset_references_project:
  "bible_asset_references ap project_id role as acc = Inr refs \<Longrightarrow>
   \<forall>r \<in> set acc. in_project ap project_id r \<Longrightarrow> \<forall>r \<in> set refs. in_project ap project_id r"
proof (induction as arbitrary: acc)
  case (Cons a as)
  let ?r = "\<lparr>ref_asset_id = a, ref_role = role, ref_strength = DEFAULT_REFERENCE_STRENGTH,
    ref_preprocessing = Pre_none\<rparr>"
  let ?acc = "if (a, role) \<in> set (map (\<lambda>r. (ref_asset_id r, ref_role r)) acc) then acc else acc @ [?r]"
  obtain u where u: "reject_cross_project ap project_id a = Inr u"
    and rest: "bible_asset_references ap project_id role as ?acc = Inr refs"
    using Cons.prems(1) by (cases "reject_cross_project ap project_id a") (simp_all only:
        bible_asset_references.simps sum.case sum.distinct)
  have "in_project ap project_id ?r" by (rule in_project_new [OF u]) simp
  then have "\<forall>r \<in> set ?acc. in_project ap project_id r" using Cons.prems(2) by simp
  with rest show ?case by (rule Cons.IH)
qed simp

lemma bible_references_project:
  "bible_references ap bible project_id xs acc = Inr refs \<Longrightarrow>
   \<forall>r \<in> set acc. in_project ap project_id r \<Longrightarrow> \<forall>r \<in> set refs. in_project ap project_id r"
proof (induction xs arbitrary: acc)
  case (Cons x xs)
  show ?case
  proof (cases "\<exists>entry_id entry role. x = JStr entry_id \<and> bible entry_id = Some entry \<and>
      role_of_kind (be_kind entry) = Some role")
    case True
    then obtain entry_id entry role where x: "x = JStr entry_id" "bible entry_id = Some entry"
      "role_of_kind (be_kind entry) = Some role" by blast
    then obtain acc' where "bible_asset_references ap project_id role (be_reference_asset_ids entry) acc = Inr acc'"
      and "bible_references ap bible project_id xs acc' = Inr refs"
      using Cons.prems(1) by (auto split: sum.splits)
    with bible_asset_references_project Cons.prems(2) Cons.IH show ?thesis by blast
  next
    case False
    then have "bible_references ap bible project_id xs acc = Inr refs"
      using Cons.prems(1) by (auto split: json.splits option.splits)
    with Cons.prems(2) Cons.IH show ?thesis by blast
  qed
qed simp

lemma requested_in_project:
  "requested_cross_project env request project_id = Inr u \<Longrightarrow> re_asset_project env = Some ap \<Longrightarrow>
   r \<in> set (req_references request) \<Longrightarrow> in_project ap project_id r"
  by (auto simp: requested_cross_project_def reject_cross_project_all_ok in_project_def split: option.splits)

lemma bible_reference_inputs_project:
  assumes "bible_reference_inputs env request project_id = Inr bible_inputs"
    and "re_asset_project env = Some ap" and "r \<in> set bible_inputs"
  shows "in_project ap project_id r"
proof -
  obtain refs where "bible_references ap (the (re_bible env)) project_id refs [] = Inr bible_inputs"
    using assms by (auto simp: bible_reference_inputs_def split: media_type.splits option.splits json.splits)
  from bible_references_project [OF this] assms(3) show ?thesis by simp
qed

lemma dedupe_references_set: "set (dedupe_references seen rs) = set seen \<union> set rs"
  by (induction seen rs rule: dedupe_references.induct) auto

lemma dedupe_references_distinct: "distinct seen \<Longrightarrow> distinct (dedupe_references seen rs)"
  by (induction seen rs rule: dedupe_references.induct) auto

section \<open>Properties\<close>

text \<open>
  What a model can honor, exactly. Non-empty references pass the capability check if and
  only if the manifest advertises a mode and a role, every reference has a supported role, a
  strength within the advertised range and a supported preprocessing, and no role is used more
  often than the advertised maximum. The loop's running counts and early raises decide nothing
  else.
\<close>

theorem validate_reference_inputs_iff:
  "validate_reference_inputs references capability model_id = Inr () \<longleftrightarrow>
     references = [] \<or>
     (\<exists>c. capability = Some c \<and> cap_enabled c \<and> (\<forall>r \<in> set references. reference_fits c r) \<and>
          (\<forall>role. role_count role references \<le> cap_max_references_per_role c))"
  by (auto simp: validate_reference_inputs_def validate_each_reference_iff split: option.splits)

theorem validate_reference_inputs_iff_witness:
  "validate_reference_inputs
     [\<lparr>ref_asset_id = ''a'', ref_role = Character_role, ref_strength = 1 / 2, ref_preprocessing = Pre_none\<rparr>]
     (Some \<lparr>cap_supported_modes = [Mode_img2img], cap_supported_roles = [Character_role],
        cap_supported_preprocessing = [Pre_none], cap_min_strength = 0, cap_max_strength = 1,
        cap_max_references_per_role = 1\<rparr>) ''sdxl'' = Inr ()"
  by (subst validate_reference_inputs_iff) (simp add: cap_enabled_def reference_fits_def role_count_def)

text \<open>
  An accepted request can condition on its reference. When the preflight accepts an image
  request that has an effective reference and a model service to check against, the model's
  manifest resolves, supports img2img and the reference, there is exactly one effective
  reference, none of the incompatible parameters is present, and at least one denoising step is
  left to run; and no reference, explicit or from the Bible, belongs to another project.
\<close>

theorem validate_references_sound:
  assumes "validate_references env request project_id = Inr ()"
    and "re_get_manifest env = Some get_manifest"
    and "bible_reference_inputs env request project_id = Inr bible_inputs"
    and "select_effective_references
           (dedupe_references [] (req_references request @ bible_inputs)) \<noteq> []"
  shows "(\<exists>m c primary steps.
           get_manifest (req_model_id request) (req_media_type request) (req_task_type request) = Some m \<and>
           mf_reference_capability m = Some c \<and> Mode_img2img \<in> set (cap_supported_modes c) \<and>
           select_effective_references
             (dedupe_references [] (req_references request @ bible_inputs)) = [primary] \<and>
           0 < ref_strength primary \<and> reference_fits c primary \<and>
           (\<forall>p \<in> set INCOMPATIBLE_PARAMS. effective_params m request p = None) \<and>
           json_int (inference_steps (effective_params m request)) = Some steps \<and>
           1 \<le> denoising_steps steps (ref_strength primary)) \<and>
         (\<forall>ap. re_asset_project env = Some ap \<longrightarrow>
           (\<forall>r \<in> set (req_references request) \<union> set bible_inputs. in_project ap project_id r))"
proof
  let ?eff = "select_effective_references
      (dedupe_references [] (req_references request @ bible_inputs))"
  obtain u where cross: "requested_cross_project env request project_id = Inr u"
    and eff: "validate_effective env request ?eff = Inr ()"
    using assms(1,3) by (auto simp: validate_references_def split: sum.splits)
  obtain primary others where shape: "?eff = primary # others" using assms(4) by (cases ?eff) auto
  obtain m c where m: "get_manifest (req_model_id request) (req_media_type request)
      (req_task_type request) = Some m"
    and c: "mf_reference_capability m = Some c" "reference_fits c primary"
      "Mode_img2img \<in> set (cap_supported_modes c)" "others = []"
    and prim: "validate_primary request m primary = Inr ()"
    using eff validate_effective_ok [OF _ assms(2)] unfolding shape by blast
  obtain steps where steps: "\<forall>p \<in> set INCOMPATIBLE_PARAMS. effective_params m request p = None"
    "json_int (inference_steps (effective_params m request)) = Some steps"
    "1 \<le> denoising_steps steps (ref_strength primary)"
    using validate_primary_ok [OF prim] .
  have "primary \<in> set ?eff" using shape by simp
  then have "0 < ref_strength primary" by (simp add: select_effective_references_def)
  with m c steps shape show "\<exists>m c primary steps.
           get_manifest (req_model_id request) (req_media_type request) (req_task_type request) = Some m \<and>
           mf_reference_capability m = Some c \<and> Mode_img2img \<in> set (cap_supported_modes c) \<and>
           ?eff = [primary] \<and> 0 < ref_strength primary \<and> reference_fits c primary \<and>
           (\<forall>p \<in> set INCOMPATIBLE_PARAMS. effective_params m request p = None) \<and>
           json_int (inference_steps (effective_params m request)) = Some steps \<and>
           1 \<le> denoising_steps steps (ref_strength primary)"
    by blast
  show "\<forall>ap. re_asset_project env = Some ap \<longrightarrow>
           (\<forall>r \<in> set (req_references request) \<union> set bible_inputs. in_project ap project_id r)"
    using requested_in_project [OF cross] bible_reference_inputs_project [OF assms(3)] by blast
qed

definition sample_capability :: reference_capability where
  "sample_capability = \<lparr>cap_supported_modes = [Mode_img2img], cap_supported_roles = [Character_role],
     cap_supported_preprocessing = [Pre_none], cap_min_strength = 0, cap_max_strength = 1,
     cap_max_references_per_role = 1\<rparr>"

definition sample_env :: reference_env where
  "sample_env = \<lparr>re_asset_project = Some (\<lambda>a. if a = ''hero'' then Some (Some ''p1'') else None),
     re_bible = None,
     re_get_manifest = Some (\<lambda>_ _ _. Some \<lparr>mf_public_model_id = ''sdxl'',
       mf_default_params = [(''steps'', JInt 20)],
       mf_reference_capability = Some sample_capability\<rparr>)\<rparr>"

definition sample_reference :: reference_input where
  "sample_reference = \<lparr>ref_asset_id = ''hero'', ref_role = Character_role, ref_strength = 1 / 2,
     ref_preprocessing = Pre_none\<rparr>"

definition sample_request :: generation_request where
  "sample_request = \<lparr>req_media_type = Media_image, req_task_type = None, req_prompt = ''a tea house'',
     req_negative_prompt = None, req_model_id = ''sdxl'', req_seed = None, req_output_format = None,
     req_params = [], req_references = [sample_reference]\<rparr>"

theorem validate_references_sound_witness:
  "\<exists>m. (case re_get_manifest sample_env of
          None \<Rightarrow> None | Some get \<Rightarrow> get ''sdxl'' Media_image None) = Some m \<and>
       effective_params m sample_request ''sigmas'' = None"
proof -
  obtain get where get: "re_get_manifest sample_env = Some get" by (simp add: sample_env_def)
  have "1 \<le> denoising_steps 20 (1 / 2)" by code_simp
  moreover have "\<not> float_overflow 20" by (simp add: float_overflow_def)
  ultimately have "validate_references sample_env sample_request (Some ''p1'') = Inr ()"
    by (simp add: validate_references_def requested_cross_project_def sample_env_def sample_request_def
        sample_reference_def reject_cross_project_def bible_reference_inputs_def
        select_effective_references_def validate_effective_def validate_reference_inputs_def
        sample_capability_def cap_enabled_def require_img2img_mode_def validate_primary_def
        INCOMPATIBLE_PARAMS_def effective_params_def inference_steps_def json_int_def)
  moreover have "bible_reference_inputs sample_env sample_request (Some ''p1'') = Inr []" by code_simp
  moreover have "select_effective_references
      (dedupe_references [] (req_references sample_request @ [])) \<noteq> []" by code_simp
  ultimately show ?thesis
    using validate_references_sound [OF _ get, of sample_request "Some ''p1''" "[]"] get
    by (auto simp: INCOMPATIBLE_PARAMS_def sample_request_def)
qed

text \<open>
  A reference of strength zero is for the record only. A request whose references all have
  strength zero, none of another project and with no Bible references, is accepted whatever
  the model can do, even one that advertises no reference support or does not exist.
\<close>

theorem zero_strength_is_audit_only:
  assumes "\<forall>r \<in> set (req_references request). ref_strength r = 0"
    and "\<forall>ap r. re_asset_project env = Some ap \<longrightarrow> r \<in> set (req_references request) \<longrightarrow>
           ap (ref_asset_id r) \<in> {None, Some project_id}"
    and "map_of (req_params request) ''bible_refs'' = None"
  shows "validate_references env request project_id = Inr ()"
proof -
  have cross: "requested_cross_project env request project_id = Inr ()"
  proof (cases "re_asset_project env")
    case (Some ap)
    then have "reject_cross_project_all ap project_id (map ref_asset_id (req_references request)) = Inr ()"
      using assms(2) by (force simp: reject_cross_project_all_ok)
    with Some show ?thesis by (simp add: requested_cross_project_def)
  qed (simp add: requested_cross_project_def)
  have "bible_reference_inputs env request project_id = Inr []"
    using assms(3) by (auto simp: bible_reference_inputs_def split: media_type.splits option.splits)
  moreover have "select_effective_references (dedupe_references [] (req_references request)) = []"
    using assms(1) by (auto simp: select_effective_references_def filter_empty_conv dedupe_references_set)
  ultimately show ?thesis using cross by (simp add: validate_references_def validate_effective_def)
qed

theorem zero_strength_is_audit_only_witness:
  "validate_references sample_env
     (sample_request\<lparr>req_model_id := ''absent'', req_references := [sample_reference\<lparr>ref_strength := 0\<rparr>]\<rparr>)
     (Some ''p1'') = Inr ()"
  by (rule zero_strength_is_audit_only)
    (simp_all add: sample_request_def sample_reference_def sample_env_def)

end
