(* ===== verification/Job_World.thy ===== *)
theory Job_World imports Studio_Monad Media_Schemas Job_Signals Job_Lanes Job_Queue Reference_Check begin

text \<open>
  The state the pipeline's threads share, and how they interfere.

  The world is the jobs table, the in-memory queue, the event bus, the cancellation registry
  and the directories of assets and stories. It can be extended by the state of further
  collaborators (batches), which the operations of the pipeline leave alone.

  A thread's operation is a program in the state-and-exception monad whose atomic steps are the
  repository's transactions and the methods that hold a lock. What the other threads do is a
  schedule, \<open>w_ticks\<close>: before each atomic step the next \<open>tick\<close> performs the actions other
  threads completed in the meantime, says what the clocks show and whether the storage fails
  this step (SQLite locked or busy, a file-system error), in which case it has no effect, or
  whether a file that exists cannot be read just now. A theorem that holds
  for every schedule holds for every interleaving and every placement of database failures.
\<close>

section \<open>Exceptions\<close>

datatype exn =
  Value_error string
| Runtime_error string
| Type_error string
| Sqlite_error
| Os_error
| Integrity_error
| Decode_error string string
| Generation_cancelled
| Reference_rejected reference_error
| Lane_error lanes_error
| Queue_error queue_error
| Generator_error string
| Collaborator_error string
| Lookup_error string
| Overflow_error
| Stage_incomplete string
| Out_of_fuel

text \<open>
  \<open>Out_of_fuel\<close> is no exception of the code: it says that a loop whose rounds are counted ran out
  of its count, which the theorems about the loop exclude.

  \<open>str(exc)\<close>. The text of a third-party exception is its argument; the long explanations of the
  reference, lane and queue errors, which no outcome depends on, are abridged.
\<close>

definition quoted :: "string \<Rightarrow> string" where
  "quoted s = [CHR 0x27] @ s @ [CHR 0x27]"

definition exn_text :: "exn \<Rightarrow> string" where
  "exn_text e =
     (case e of
        Value_error s \<Rightarrow> s
      | Runtime_error s \<Rightarrow> s
      | Type_error s \<Rightarrow> s
      | Sqlite_error \<Rightarrow> ''database is locked''
      | Os_error \<Rightarrow> ''Input/output error''
      | Integrity_error \<Rightarrow> ''UNIQUE constraint failed: jobs.id''
      | Decode_error job_id reason \<Rightarrow>
          ''Job '' @ quoted job_id @ [CHR 0x27] @ ''s persisted row could not be reconstructed: '' @ reason
      | Generation_cancelled \<Rightarrow> []
      | Reference_rejected _ \<Rightarrow> ''reference rejected''
      | Lane_error _ \<Rightarrow> ''no lane''
      | Queue_error _ \<Rightarrow> ''queue refused''
      | Generator_error s \<Rightarrow> s
      | Collaborator_error s \<Rightarrow> s
      | Lookup_error s \<Rightarrow> s
      | Overflow_error \<Rightarrow> ''int too large to convert to float''
      | Stage_incomplete batch_id \<Rightarrow> ''stage materialization could not be confirmed: '' @ batch_id
      | Out_of_fuel \<Rightarrow> [])"

section \<open>The world\<close>

text \<open>
  What another thread may have done: every public operation on the shared state.
  \<open>Act_cancel\<close> is a cancel request of the service, from its compare-and-set to its signal.
\<close>

datatype act =
  Act_update string "job_status list option" patch
| Act_create string "string option" generation_request
| Act_quarantine string string
| Act_completion_done string
| Act_completion_error string string
| Act_signal string
| Act_cancel string
| Act_enqueue string "string option"
| Act_dequeue "string option"
| Act_event job_event
| Act_asset string "asset json_file option"
| Act_story string "story_document json_file option"

record tick =
  t_acts :: "act list"
  t_fault :: bool
  t_unreadable :: bool
  t_now :: string
  t_clock :: rat

definition quiet_tick :: tick where
  "quiet_tick = \<lparr>t_acts = [], t_fault = False, t_unreadable = False, t_now = [], t_clock = 0\<rparr>"

record world =
  w_jobs :: "job_row list"
  w_queue :: job_queue
  w_bus :: event_bus
  w_registry :: registry
  w_assets :: "asset directory"
  w_stories :: "story_document directory"
  w_ticks :: "tick list"

type_synonym ('x, 'a) job_io = "('x world_scheme, exn, 'a) io"

definition queue_of :: "queue_error + job_queue \<Rightarrow> job_queue \<Rightarrow> job_queue" where
  "queue_of r q = (case r of Inl _ \<Rightarrow> q | Inr q' \<Rightarrow> q')"

definition perform :: "string \<Rightarrow> act \<Rightarrow> 'x world_scheme \<Rightarrow> 'x world_scheme" where
  "perform now a w =
     (case a of
        Act_update job_id expected p \<Rightarrow>
          w\<lparr>w_jobs := snd (sql_update job_id (update_guard expected (pt_status p)) (apply_patch p now) (w_jobs w))\<rparr>
      | Act_create job_id project_id request \<Rightarrow>
          (case sql_insert (record_to_row (new_job job_id project_id request now)) (w_jobs w) of None \<Rightarrow> w | Some rows \<Rightarrow> w\<lparr>w_jobs := rows\<rparr>)
      | Act_quarantine job_id message \<Rightarrow>
          w\<lparr>w_jobs := snd (sql_update job_id status_unknown (quarantine_row message now) (w_jobs w))\<rparr>
      | Act_completion_done job_id \<Rightarrow>
          w\<lparr>w_jobs := snd (sql_update job_id row_terminal (completion_done_row now) (w_jobs w))\<rparr>
      | Act_completion_error job_id message \<Rightarrow>
          w\<lparr>w_jobs := snd (sql_update job_id (\<lambda>row. row_terminal row \<and> completion_pending row)
             (completion_error_row message now) (w_jobs w))\<rparr>
      | Act_signal job_id \<Rightarrow> w\<lparr>w_registry := registry_request_cancel job_id (w_registry w)\<rparr>
      | Act_cancel job_id \<Rightarrow>
          w\<lparr>w_jobs := snd (sql_update job_id (\<lambda>_. True) (cancel_row now) (w_jobs w)),
             w_registry := registry_request_cancel job_id (w_registry w)\<rparr>
      | Act_enqueue job_id lane \<Rightarrow> w\<lparr>w_queue := queue_of (enqueue job_id lane (w_queue w)) (w_queue w)\<rparr>
      | Act_dequeue lane \<Rightarrow>
          (case dequeue lane (w_queue w) of Inl _ \<Rightarrow> w | Inr (_, q) \<Rightarrow> w\<lparr>w_queue := q\<rparr>)
      | Act_event event \<Rightarrow> w\<lparr>w_bus := bus_append event (w_bus w)\<rparr>
      | Act_asset asset_id f \<Rightarrow> w\<lparr>w_assets := dir_change asset_id f (w_assets w)\<rparr>
      | Act_story story_id f \<Rightarrow> w\<lparr>w_stories := dir_change story_id f (w_stories w)\<rparr>)"

definition next_tick :: "'x world_scheme \<Rightarrow> tick" where
  "next_tick w = (case w_ticks w of [] \<Rightarrow> quiet_tick | t # _ \<Rightarrow> t)"

definition interfere :: "'x world_scheme \<Rightarrow> 'x world_scheme" where
  "interfere w = fold (perform (t_now (next_tick w))) (t_acts (next_tick w)) (w\<lparr>w_ticks := tl (w_ticks w)\<rparr>)"

text \<open>An atomic step of this thread: first what the others did, then the step itself.\<close>

definition atomic :: "(tick \<Rightarrow> 'x world_scheme \<Rightarrow> (exn + 'a) \<times> 'x world_scheme) \<Rightarrow> ('x, 'a) job_io" where
  "atomic f = (\<lambda>w. f (next_tick w) (interfere w))"

text \<open>A database transaction, which the schedule may fail.\<close>

definition transaction ::
  "(tick \<Rightarrow> 'x world_scheme \<Rightarrow> (exn + 'a) \<times> 'x world_scheme) \<Rightarrow> ('x, 'a) job_io" where
  "transaction f = atomic (\<lambda>t w. if t_fault t then (Inl Sqlite_error, w) else f t w)"

definition db_read :: "(job_row list \<Rightarrow> 'a) \<Rightarrow> ('x, 'a) job_io" where
  "db_read f = transaction (\<lambda>t w. (Inr (f (w_jobs w)), w))"

definition db_update ::
  "string \<Rightarrow> (job_row \<Rightarrow> bool) \<Rightarrow> (string \<Rightarrow> job_row \<Rightarrow> job_row) \<Rightarrow> ('x, bool) job_io" where
  "db_update job_id guard change =
     transaction (\<lambda>t w.
       case sql_update job_id guard (change (t_now t)) (w_jobs w) of
         (hit, rows) \<Rightarrow> (Inr hit, w\<lparr>w_jobs := rows\<rparr>))"

definition db_insert :: "job_row \<Rightarrow> ('x, unit) job_io" where
  "db_insert row =
     transaction (\<lambda>t w.
       case sql_insert row (w_jobs w) of
         None \<Rightarrow> (Inl Integrity_error, w)
       | Some rows \<Rightarrow> (Inr (), w\<lparr>w_jobs := rows\<rparr>))"

definition with_queue :: "(job_queue \<Rightarrow> queue_error + ('a \<times> job_queue)) \<Rightarrow> ('x, 'a) job_io" where
  "with_queue f =
     atomic (\<lambda>t w.
       case f (w_queue w) of
         Inl e \<Rightarrow> (Inl (Queue_error e), w)
       | Inr (x, q) \<Rightarrow> (Inr x, w\<lparr>w_queue := q\<rparr>))"

definition with_registry :: "(registry \<Rightarrow> 'a \<times> registry) \<Rightarrow> ('x, 'a) job_io" where
  "with_registry f =
     atomic (\<lambda>t w. case f (w_registry w) of (x, r) \<Rightarrow> (Inr x, w\<lparr>w_registry := r\<rparr>))"

text \<open>
  A step on the files of assets or of stories: one read, one replacing write, or what one
  holder of the story repository's lock does.
\<close>

definition asset_io :: "(tick \<Rightarrow> asset directory \<Rightarrow> 'a \<times> asset directory) \<Rightarrow> ('x, 'a) job_io" where
  "asset_io f =
     atomic (\<lambda>t w. if t_fault t then (Inl Os_error, w)
       else (case f t (w_assets w) of (x, d) \<Rightarrow> (Inr x, w\<lparr>w_assets := d\<rparr>)))"

definition story_io :: "(tick \<Rightarrow> story_document directory \<Rightarrow> 'a \<times> story_document directory) \<Rightarrow> ('x, 'a) job_io" where
  "story_io f =
     atomic (\<lambda>t w. if t_fault t then (Inl Os_error, w)
       else (case f t (w_stories w) of (x, d) \<Rightarrow> (Inr x, w\<lparr>w_stories := d\<rparr>)))"

text \<open>The clocks, read between steps.\<close>

definition read_clock :: "('x, rat) job_io" where
  "read_clock = atomic (\<lambda>t w. (Inr (t_clock t), w))"

definition read_now :: "('x, string) job_io" where
  "read_now = atomic (\<lambda>t w. (Inr (t_now t), w))"

text \<open>\<open>EventBus.publish\<close>: log, snapshot of the subscribers, isolated delivery.\<close>

definition bus_publish ::
  "(nat \<Rightarrow> job_event \<Rightarrow> ('x, unit) job_io) \<Rightarrow> string \<Rightarrow> (string \<times> json) list \<Rightarrow> ('x, job_event) job_io" where
  "bus_publish deliver event_type payload =
     bnd (atomic (\<lambda>t w.
            let event = \<lparr>ev_type = event_type, ev_payload = payload, ev_created_at = t_now t\<rparr> in
            (Inr (event, eb_subscribers (w_bus w)), w\<lparr>w_bus := bus_append event (w_bus w)\<rparr>)))
       (\<lambda>(event, subscribers). bnd (deliver_all deliver event subscribers) (\<lambda>_. ret event))"

section \<open>The world's progress\<close>

text \<open>What every step keeps of the in-memory structures.\<close>

definition queue_kept :: "job_queue \<Rightarrow> job_queue \<Rightarrow> bool" where
  "queue_kept q q' \<longleftrightarrow>
     (queue_ok q \<longrightarrow>
        queue_ok q' \<and> q_lane_names q' = q_lane_names q \<and> dom (q_queues q') = dom (q_queues q))"

definition keeps_shape :: "'x world_scheme \<Rightarrow> 'x world_scheme \<Rightarrow> bool" where
  "keeps_shape w w' \<longleftrightarrow>
     queue_kept (w_queue w) (w_queue w') \<and>
     (ids_unique (w_jobs w) \<longrightarrow> ids_unique (w_jobs w')) \<and>
     (registry_ok (w_registry w) \<longrightarrow> registry_ok (w_registry w')) \<and>
     (bus_ok (w_bus w) \<longrightarrow> bus_ok (w_bus w'))"

definition evolves :: "'x world_scheme \<Rightarrow> 'x world_scheme \<Rightarrow> bool" where
  "evolves w w' \<longleftrightarrow> table_follows (w_jobs w) (w_jobs w') \<and> keeps_shape w w'"

lemma queue_kept_refl [simp]: "queue_kept q q"
  by (simp add: queue_kept_def)

lemma queue_kept_trans: "queue_kept p q \<Longrightarrow> queue_kept q r \<Longrightarrow> queue_kept p r"
  by (auto simp: queue_kept_def)

lemma queue_kept_enqueue: "enqueue job_id lane q = Inr q' \<Longrightarrow> queue_kept q q'"
  unfolding queue_kept_def by (metis enqueue_cases enqueue_ok)

lemma queue_kept_dequeue: "dequeue lane q = Inr (x, q') \<Longrightarrow> queue_kept q q'"
  unfolding queue_kept_def by (metis dequeue_cases dequeue_ok)

lemma keeps_shape_refl: "keeps_shape w w"
  by (simp add: keeps_shape_def)

lemma keeps_shape_trans: "keeps_shape u v \<Longrightarrow> keeps_shape v w \<Longrightarrow> keeps_shape u w"
  by (auto simp: keeps_shape_def intro: queue_kept_trans)

interpretation evolving: step_preorder evolves
  by unfold_locales
    (auto simp: evolves_def keeps_shape_refl
      intro: jobs_table.grows_refl jobs_table.grows_trans keeps_shape_trans)

lemma evolves_update:
  assumes "\<And>row. col_id (change row) = col_id row" and "\<And>row. guard row \<Longrightarrow> row_follows row (change row)"
  shows "evolves w (w\<lparr>w_jobs := snd (sql_update job_id guard change (w_jobs w))\<rparr>)"
  using jobs_table.grows_update [OF assms] by (simp add: evolves_def keeps_shape_def sql_update_ids assms(1))

lemma evolves_shape: "w_jobs w' = w_jobs w \<Longrightarrow> keeps_shape w w' \<Longrightarrow> evolves w w'"
  using jobs_table.grows_refl by (simp add: evolves_def)

lemma evolves_signal: "evolves w (w\<lparr>w_registry := registry_request_cancel job_id (w_registry w)\<rparr>)"
  by (intro evolves_shape) (auto simp: keeps_shape_def intro: registry_ok_cancel)

lemma perform_evolves: "evolves w (perform now a w)"
proof (cases a)
  case (Act_update job_id expected p)
  then show ?thesis
    by (simp add: perform_def) (intro evolves_update, auto simp: row_simps intro: statement_follows)
next
  case (Act_create job_id project_id request)
  then show ?thesis
    by (auto simp: perform_def evolves_def keeps_shape_def jobs_table.grows_refl
        split: option.splits intro: table_follows_insert sql_insert_ids)
next
  case (Act_quarantine job_id message)
  then show ?thesis
    by (simp add: perform_def) (intro evolves_update, auto simp: row_simps intro: statement_follows)
next
  case (Act_completion_done job_id)
  then show ?thesis
    by (simp add: perform_def) (intro evolves_update, auto simp: row_simps intro: statement_follows)
next
  case (Act_completion_error job_id message)
  then show ?thesis
    by (simp add: perform_def) (intro evolves_update, auto simp: row_simps intro: statement_follows)
next
  case (Act_signal job_id)
  then show ?thesis by (simp add: perform_def evolves_signal)
next
  case (Act_cancel job_id)
  let ?w1 = "w\<lparr>w_jobs := snd (sql_update job_id (\<lambda>_. True) (cancel_row now) (w_jobs w))\<rparr>"
  have "evolves w ?w1" by (intro evolves_update) (auto simp: row_simps intro: statement_follows)
  from evolving.R_trans [OF this evolves_signal [of ?w1 job_id]] Act_cancel
  show ?thesis by (simp add: perform_def)
next
  case (Act_enqueue job_id lane)
  then show ?thesis
    by (auto simp: perform_def keeps_shape_def queue_of_def intro!: evolves_shape queue_kept_enqueue
        split: sum.splits)
next
  case (Act_dequeue lane)
  then show ?thesis
    by (auto simp: perform_def keeps_shape_def evolving.R_refl intro!: evolves_shape
        intro: queue_kept_dequeue split: sum.splits)
next
  case (Act_event event)
  then show ?thesis
    by (auto simp: perform_def keeps_shape_def intro!: evolves_shape bus_ok_append)
qed (auto simp: perform_def keeps_shape_def intro!: evolves_shape)

lemma performs_evolve: "evolves w (fold (perform now) acts w)"
  by (induction acts arbitrary: w) (auto intro: evolving.R_refl evolving.R_trans perform_evolves)

lemma interfere_evolves: "evolves w (interfere w)"
  using performs_evolve [of "w\<lparr>w_ticks := tl (w_ticks w)\<rparr>"]
  by (simp add: interfere_def evolves_def keeps_shape_def)

lemma along_atomic:
  assumes "\<And>t w. evolves w (snd (f t w))"
  shows "holds_along evolves (atomic f)"
  using assms evolving.R_trans [OF interfere_evolves] by (auto simp: holds_along_def atomic_def)

lemma along_transaction:
  assumes "\<And>t w. evolves w (snd (f t w))"
  shows "holds_along evolves (transaction f)"
  unfolding transaction_def using assms by (intro along_atomic) (auto intro: evolving.R_refl)

lemma along_db_read [along]: "holds_along evolves (db_read f)"
  unfolding db_read_def by (intro along_transaction) (simp add: evolving.R_refl)

lemma along_db_update:
  assumes "\<And>now row. col_id (change now row) = col_id row"
    and "\<And>now row. guard row \<Longrightarrow> row_follows row (change now row)"
  shows "holds_along evolves (db_update job_id guard change)"
  unfolding db_update_def
proof (intro along_transaction)
  fix t and w :: "'x world_scheme"
  show "evolves w (snd (case sql_update job_id guard (change (t_now t)) (w_jobs w) of
      (hit, rows) \<Rightarrow> (Inr hit, w\<lparr>w_jobs := rows\<rparr>)))"
    using evolves_update [of "change (t_now t)" guard w job_id] assms by (simp add: case_prod_beta)
qed

lemma along_db_insert [along]: "fresh_row row \<Longrightarrow> holds_along evolves (db_insert row)"
  unfolding db_insert_def
  by (intro along_transaction)
    (auto simp: evolves_def keeps_shape_def jobs_table.grows_refl
      intro: table_follows_insert sql_insert_ids split: option.splits)

definition queue_step_ok :: "(job_queue \<Rightarrow> queue_error + ('a \<times> job_queue)) \<Rightarrow> bool" where
  "queue_step_ok f \<longleftrightarrow> (\<forall>q x q'. f q = Inr (x, q') \<longrightarrow> queue_kept q q')"

lemma along_with_queue: "queue_step_ok f \<Longrightarrow> holds_along evolves (with_queue f)"
  unfolding with_queue_def
  by (intro along_atomic)
    (auto simp: queue_step_ok_def keeps_shape_def evolving.R_refl intro!: evolves_shape split: sum.splits)

lemma along_with_registry:
  "(\<And>r. registry_ok r \<Longrightarrow> registry_ok (snd (f r))) \<Longrightarrow> holds_along evolves (with_registry f)"
  unfolding with_registry_def
proof (intro along_atomic)
  fix t and w :: "'x world_scheme"
  assume ok: "\<And>r. registry_ok r \<Longrightarrow> registry_ok (snd (f r))"
  show "evolves w (snd (case f (w_registry w) of (x, r) \<Rightarrow> (Inr x, w\<lparr>w_registry := r\<rparr>)))"
    using ok [of "w_registry w"] by (auto simp: keeps_shape_def case_prod_beta intro!: evolves_shape)
qed

lemma along_file_io [along]: "holds_along evolves (asset_io f)" "holds_along evolves (story_io g)"
  unfolding asset_io_def story_io_def
  by (intro along_atomic;
      auto simp: keeps_shape_def evolving.R_refl intro!: evolves_shape split: prod.splits)+

lemma along_clocks [along]: "holds_along evolves read_clock" "holds_along evolves read_now"
  unfolding read_clock_def read_now_def by (intro along_atomic; simp add: evolving.R_refl)+

lemma along_deliver_all:
  "(\<And>s e. holds_along evolves (deliver s e)) \<Longrightarrow> holds_along evolves (deliver_all deliver event subscribers)"
  unfolding deliver_all_def by (intro evolving.along_rules)

lemma along_publish:
  assumes "\<And>s e. holds_along evolves (deliver s e)"
  shows "holds_along evolves (bus_publish deliver event_type payload)"
  unfolding bus_publish_def
  by (intro evolving.along_bnd along_atomic)
    (auto simp: Let_def keeps_shape_def
      intro!: evolves_shape bus_ok_append evolving.along_rules along_deliver_all assms)

lemma evolves_find:
  assumes "evolves w w'" and "row_find job_id (w_jobs w) = Some row"
  obtains row' where "row_find job_id (w_jobs w') = Some row'" and "row_follows row row'"
  using assms(2) by (rule table_follows_find [OF conjunct1 [OF assms(1) [unfolded evolves_def]]])

lemma along_evolves: "holds_along evolves m \<Longrightarrow> evolves w (snd (m w))"
  by (simp add: holds_along_def)

end
