(* ===== verification/Job_Repository.thy ===== *)
theory Job_Repository imports Job_World begin

text \<open>
  \<open>JobRepository\<close> of \<open>core/storage/repositories/job_repository.py\<close>: each method over the shared
  world, with its transactions, its trailing re-reads and its exceptions in the order the code
  has them.
\<close>

section \<open>Reads\<close>

definition decode :: "job_row \<Rightarrow> ('x, job_record) job_io" where
  "decode row =
     (case row_to_record row of
        Inl reason \<Rightarrow> raise (Decode_error (col_id row) reason)
      | Inr job \<Rightarrow> ret job)"

definition repo_get :: "string \<Rightarrow> ('x, job_record option) job_io" where
  "repo_get job_id =
     bnd (db_read (row_find job_id)) (\<lambda>found.
       case found of
         None \<Rightarrow> ret None
       | Some row \<Rightarrow> bnd (decode row) (\<lambda>job. ret (Some job)))"

definition repo_list :: "('x, job_record list) job_io" where
  "repo_list = bnd (db_read order_by_created_desc) (collect decode)"

fun split_readable :: "job_row list \<Rightarrow> job_record list \<times> (string \<times> exn) list" where
  "split_readable [] = ([], [])"
| "split_readable (row # rows) =
     (case split_readable rows of (records, failures) \<Rightarrow>
        (case row_to_record row of
           Inr job \<Rightarrow> (job # records, failures)
         | Inl reason \<Rightarrow> (records, (col_id row, Decode_error (col_id row) reason) # failures)))"

definition repo_list_tolerant :: "('x, job_record list \<times> (string \<times> exn) list) job_io" where
  "repo_list_tolerant = bnd (db_read order_by_created_desc) (\<lambda>rows. ret (split_readable rows))"

definition repo_list_terminal_pending_completion :: "('x, job_record list) job_io" where
  "repo_list_terminal_pending_completion =
     bnd (db_read (\<lambda>rows. order_by_created
            (filter (\<lambda>row. completion_pending row \<and> row_terminal row) rows)))
       (\<lambda>rows. ret (fst (split_readable rows)))"

definition repo_get_raw_status :: "string \<Rightarrow> ('x, raw_status option) job_io" where
  "repo_get_raw_status job_id = db_read (\<lambda>rows. map_option col_status (row_find job_id rows))"

definition UNRECOVERABLE_MESSAGE :: string where
  "UNRECOVERABLE_MESSAGE =
     ''Job's error_message column contains non-text data and could not be recovered.''"

definition raw_error_message :: "job_row \<Rightarrow> string option" where
  "raw_error_message row =
     (case col_error_message row of
        Null_cell \<Rightarrow> None | Text_cell s \<Rightarrow> Some s | Blob_cell _ \<Rightarrow> Some UNRECOVERABLE_MESSAGE)"

definition repo_get_raw_error_message :: "string \<Rightarrow> ('x, string option) job_io" where
  "repo_get_raw_error_message job_id =
     db_read (\<lambda>rows. case row_find job_id rows of None \<Rightarrow> None | Some row \<Rightarrow> raw_error_message row)"

definition payload_params :: "generation_request payload \<Rightarrow> (string \<times> json) list option" where
  "payload_params c =
     (case c of
        Payload r \<Rightarrow> Some (req_params r)
      | Payload_invalid (JObj kvs) _ \<Rightarrow>
          (case map_of kvs ''params'' of Some (JObj params) \<Rightarrow> Some params | _ \<Rightarrow> None)
      | _ \<Rightarrow> None)"

definition repo_peek_raw_request_params ::
  "string \<Rightarrow> ('x, raw_status option \<times> (string \<times> json) list option) job_io" where
  "repo_peek_raw_request_params job_id =
     db_read (\<lambda>rows.
       case row_find job_id rows of
         None \<Rightarrow> (None, None)
       | Some row \<Rightarrow> (Some (col_status row), payload_params (col_request row)))"

section \<open>Inserts\<close>

definition repo_create :: "job_record \<Rightarrow> ('x, job_record) job_io" where
  "repo_create job =
     bnd (db_insert (record_to_row job)) (\<lambda>_.
     bnd (repo_get (jr_id job)) (\<lambda>created.
       case created of
         None \<Rightarrow> raise (Runtime_error (''Job '' @ quoted (jr_id job) @ '' was not persisted.''))
       | Some j \<Rightarrow> ret j))"

definition repo_create_if_absent :: "job_record \<Rightarrow> ('x, job_record \<times> bool) job_io" where
  "repo_create_if_absent job =
     catch (bnd (repo_create job) (\<lambda>created. ret (created, True)))
       (\<lambda>e. if e = Integrity_error then
              bnd (repo_get (jr_id job)) (\<lambda>existing.
                case existing of None \<Rightarrow> raise e | Some j \<Rightarrow> ret (j, False))
            else raise e)"

section \<open>Guarded updates\<close>

definition repo_update_guarded ::
  "string \<Rightarrow> patch \<Rightarrow> job_status list option \<Rightarrow> ('x, job_record option) job_io" where
  "repo_update_guarded job_id p expected =
     (if p = no_patch then repo_get job_id
      else
        bnd (db_update job_id (update_guard expected (pt_status p)) (apply_patch p)) (\<lambda>hit.
          if hit then repo_get job_id else ret None))"

definition repo_update :: "string \<Rightarrow> patch \<Rightarrow> ('x, job_record option) job_io" where
  "repo_update job_id p = repo_update_guarded job_id p None"

definition repo_update_if_status ::
  "string \<Rightarrow> job_status list \<Rightarrow> patch \<Rightarrow> ('x, job_record option) job_io" where
  "repo_update_if_status job_id expected p =
     (if expected = [] then ret None else repo_update_guarded job_id p (Some expected))"

definition repo_transition_if_status ::
  "string \<Rightarrow> job_status list \<Rightarrow> job_status \<Rightarrow> rat option \<Rightarrow> string option option \<Rightarrow> ('x, bool) job_io" where
  "repo_transition_if_status job_id expected status progress error_message =
     (if expected = [] then ret False
      else db_update job_id (update_guard (Some expected) (Some status))
             (apply_patch (no_patch\<lparr>pt_status := Some status, pt_progress := progress,
                pt_error_message := error_message\<rparr>)))"

definition repo_quarantine_structurally_invalid_status ::
  "string \<Rightarrow> string \<Rightarrow> ('x, bool) job_io" where
  "repo_quarantine_structurally_invalid_status job_id message =
     db_update job_id status_unknown (quarantine_row message)"

definition repo_mark_completion_done :: "string \<Rightarrow> ('x, bool) job_io" where
  "repo_mark_completion_done job_id = db_update job_id row_terminal completion_done_row"

definition repo_mark_completion_pending_with_error :: "string \<Rightarrow> string \<Rightarrow> ('x, bool) job_io" where
  "repo_mark_completion_pending_with_error job_id message =
     db_update job_id (\<lambda>row. row_terminal row \<and> completion_pending row) (completion_error_row message)"

definition repo_update_status ::
  "string \<Rightarrow> job_status \<Rightarrow> rat option \<Rightarrow> ('x, job_record option) job_io" where
  "repo_update_status job_id status progress =
     repo_update job_id (no_patch\<lparr>pt_status := Some status, pt_progress := progress\<rparr>)"

definition repo_update_result :: "string \<Rightarrow> generation_result \<Rightarrow> ('x, job_record option) job_io" where
  "repo_update_result job_id result = repo_update job_id (no_patch\<lparr>pt_result := Some (Some result)\<rparr>)"

definition repo_update_project :: "string \<Rightarrow> string option \<Rightarrow> ('x, job_record option) job_io" where
  "repo_update_project job_id project_id = repo_update job_id (no_patch\<lparr>pt_project_id := Some project_id\<rparr>)"

definition repo_update_error :: "string \<Rightarrow> string option \<Rightarrow> ('x, job_record option) job_io" where
  "repo_update_error job_id message = repo_update job_id (no_patch\<lparr>pt_error_message := Some message\<rparr>)"

section \<open>Every method follows the lifecycle\<close>

lemma along_decode [along]: "holds_along evolves (decode row)"
  by (auto simp: decode_def split: sum.splits intro: evolving.along_rules)

lemma along_case_option:
  "holds_along R n \<Longrightarrow> (\<And>x. holds_along R (f x)) \<Longrightarrow> holds_along R (case a of None \<Rightarrow> n | Some x \<Rightarrow> f x)"
  by (cases a) auto

lemma along_if: "holds_along R m \<Longrightarrow> holds_along R n \<Longrightarrow> holds_along R (if c then m else n)"
  by simp

lemma along_case_prod: "(\<And>a b. holds_along R (f a b)) \<Longrightarrow> holds_along R (case p of (a, b) \<Rightarrow> f a b)"
  by (cases p) auto

lemma along_case_sum:
  "(\<And>a. holds_along R (f a)) \<Longrightarrow> (\<And>b. holds_along R (g b)) \<Longrightarrow>
   holds_along R (case p of Inl a \<Rightarrow> f a | Inr b \<Rightarrow> g b)"
  by (cases p) auto

lemmas along_cases = along_case_option along_if along_case_prod along_case_sum

lemmas along_steps = evolving.along_rules along_cases

lemma along_repo_get [along]: "holds_along evolves (repo_get job_id)"
  unfolding repo_get_def by (intro along_steps along)

lemma along_repo_reads [along]:
  "holds_along evolves repo_list" "holds_along evolves repo_list_tolerant"
  "holds_along evolves repo_list_terminal_pending_completion"
  "holds_along evolves (repo_get_raw_status job_id)"
  "holds_along evolves (repo_get_raw_error_message job_id)"
  "holds_along evolves (repo_peek_raw_request_params job_id)"
  unfolding repo_list_def repo_list_tolerant_def repo_list_terminal_pending_completion_def
    repo_get_raw_status_def repo_get_raw_error_message_def repo_peek_raw_request_params_def
  by (intro along_steps along)+

lemma along_repo_create [along]: "fresh_row (record_to_row job) \<Longrightarrow> holds_along evolves (repo_create job)"
  unfolding repo_create_def by (intro along_steps along)

lemma along_repo_create_if_absent [along]:
  "fresh_row (record_to_row job) \<Longrightarrow> holds_along evolves (repo_create_if_absent job)"
  unfolding repo_create_if_absent_def by (intro along_steps along)

lemma along_guarded_patch [along]:
  "pt_status p = status \<Longrightarrow> holds_along evolves (db_update job_id (update_guard expected status) (apply_patch p))"
  by (intro along_db_update) (auto simp: row_simps intro: statement_follows)

lemma along_repo_update_guarded [along]: "holds_along evolves (repo_update_guarded job_id p expected)"
  unfolding repo_update_guarded_def by (intro along_steps along) simp

lemma along_repo_update [along]: "holds_along evolves (repo_update job_id p)"
  unfolding repo_update_def by (intro along)

lemma along_repo_update_if_status [along]: "holds_along evolves (repo_update_if_status job_id expected p)"
  unfolding repo_update_if_status_def by (intro along_steps along)

lemma along_repo_transition [along]:
  "holds_along evolves (repo_transition_if_status job_id expected status progress message)"
  unfolding repo_transition_if_status_def by (intro along_steps along) simp

lemma along_repo_quarantine [along]:
  "holds_along evolves (repo_quarantine_structurally_invalid_status job_id message)"
  unfolding repo_quarantine_structurally_invalid_status_def
  by (intro along_db_update) (auto simp: row_simps intro: statement_follows)

lemma along_repo_completion [along]:
  "holds_along evolves (repo_mark_completion_done job_id)"
  "holds_along evolves (repo_mark_completion_pending_with_error job_id message)"
  unfolding repo_mark_completion_done_def repo_mark_completion_pending_with_error_def
  by (intro along_db_update; auto simp: row_simps intro: statement_follows)+

lemma along_repo_wrappers [along]:
  "holds_along evolves (repo_update_status job_id status progress)"
  "holds_along evolves (repo_update_result job_id result)"
  "holds_along evolves (repo_update_project job_id project_id)"
  "holds_along evolves (repo_update_error job_id message)"
  unfolding repo_update_status_def repo_update_result_def repo_update_project_def repo_update_error_def
  by (intro along)+

section \<open>What one transaction decides\<close>

lemma db_update_cases:
  assumes "db_update job_id guard change w = (r, w')"
  obtains (fault) "r = Inl Sqlite_error" and "w' = interfere w"
  | (ran) b rows where "r = Inr b"
      and "sql_update job_id guard (change (t_now (next_tick w))) (w_jobs (interfere w)) = (b, rows)"
      and "w' = interfere w\<lparr>w_jobs := rows\<rparr>"
proof (cases "t_fault (next_tick w)")
  case True
  with assms(1) fault show thesis by (simp add: db_update_def transaction_def atomic_def)
next
  case False
  obtain b rows where s:
    "sql_update job_id guard (change (t_now (next_tick w))) (w_jobs (interfere w)) = (b, rows)"
    by (cases "sql_update job_id guard (change (t_now (next_tick w))) (w_jobs (interfere w))")
  with False have "db_update job_id guard change w = (Inr b, interfere w\<lparr>w_jobs := rows\<rparr>)"
    by (simp add: db_update_def transaction_def atomic_def)
  then have "r = Inr b" "w' = interfere w\<lparr>w_jobs := rows\<rparr>"
    by (simp_all only: assms(1) prod.inject)
  then show thesis using s by (intro ran)
qed

lemma db_read_cases:
  assumes "db_read f w = (r, w')"
  obtains (fault) "r = Inl Sqlite_error" and "w' = interfere w"
  | (ran) "r = Inr (f (w_jobs w'))" and "w' = interfere w"
proof (cases "t_fault (next_tick w)")
  case True
  with assms(1) fault show thesis by (simp add: db_read_def transaction_def atomic_def)
next
  case False
  then have "db_read f w = (Inr (f (w_jobs (interfere w))), interfere w)"
    by (simp add: db_read_def transaction_def atomic_def)
  then have r: "r = Inr (f (w_jobs (interfere w)))" and w': "w' = interfere w"
    by (simp_all only: assms(1) prod.inject)
  show thesis by (rule ran) (simp_all only: r w')
qed

lemma db_update_hit:
  assumes "db_update job_id guard change w = (Inr True, w')"
    and "\<And>row. col_id (change (t_now (next_tick w)) row) = col_id row"
  obtains row rows where "row_find job_id (w_jobs (interfere w)) = Some row" and "guard row"
    and "row_find job_id (w_jobs w') = Some (change (t_now (next_tick w)) row)"
    and "w' = interfere w\<lparr>w_jobs := rows\<rparr>"
proof -
  let ?change = "change (t_now (next_tick w))"
  from assms(1) obtain rows where
    s: "sql_update job_id guard ?change (w_jobs (interfere w)) = (True, rows)"
    and w': "w' = interfere w\<lparr>w_jobs := rows\<rparr>"
    by (cases rule: db_update_cases) auto
  then have win: "fst (sql_update job_id guard ?change (w_jobs (interfere w)))" by simp
  obtain row where "row_find job_id (w_jobs (interfere w)) = Some row" "guard row"
    "row_find job_id (snd (sql_update job_id guard ?change (w_jobs (interfere w)))) = Some (?change row)"
    by (rule jobs_table.update_wins [OF win assms(2)])
  with s w' that show thesis by simp
qed

lemma db_update_miss:
  assumes "db_update job_id guard change w = (Inr False, w')"
    and "\<And>row. col_id (change (t_now (next_tick w)) row) = col_id row"
  shows "w' = interfere w" and "row_find job_id (w_jobs w') = Some row \<Longrightarrow> \<not> guard row"
proof -
  let ?change = "change (t_now (next_tick w))"
  from assms(1) obtain rows where
    s: "sql_update job_id guard ?change (w_jobs (interfere w)) = (False, rows)"
    and w': "w' = interfere w\<lparr>w_jobs := rows\<rparr>"
    by (cases rule: db_update_cases) auto
  then have lose: "\<not> fst (sql_update job_id guard ?change (w_jobs (interfere w)))" by simp
  have "rows = w_jobs (interfere w)"
    using jobs_table.update_loses(1) [OF lose assms(2)] s by simp
  with w' show same: "w' = interfere w" by simp
  show "row_find job_id (w_jobs w') = Some row \<Longrightarrow> \<not> guard row"
    using jobs_table.update_loses(2) [OF lose assms(2)] same by simp
qed

text \<open>A CAS that was won is never won again where its guard is left for good.\<close>

lemma db_update_one_winner:
  assumes "db_update job_id guard change w = (Inr True, w1)"
    and "\<And>now row. col_id (change now row) = col_id row"
    and "\<And>now row row'. guard row \<Longrightarrow> row_follows (change now row) row' \<Longrightarrow> \<not> guard' row'"
    and "\<And>now row. col_id (change' now row) = col_id row"
    and "evolves w1 w2"
  shows "fst (db_update job_id guard' change' w2) \<noteq> Inr True"
proof
  assume "fst (db_update job_id guard' change' w2) = Inr True"
  then obtain w3 where "db_update job_id guard' change' w2 = (Inr True, w3)" by (cases "db_update job_id guard' change' w2") auto
  then obtain late where late: "row_find job_id (w_jobs (interfere w2)) = Some late" "guard' late"
    using assms(4) by (rule db_update_hit)
  obtain row where row: "guard row" "row_find job_id (w_jobs w1) = Some (change (t_now (next_tick w)) row)"
    using assms(1,2) by (rule db_update_hit)
  have "evolves w1 (interfere w2)" using assms(5) interfere_evolves by (rule evolving.R_trans)
  then obtain row' where "row_find job_id (w_jobs (interfere w2)) = Some row'"
    "row_follows (change (t_now (next_tick w)) row) row'"
    using row(2) by (rule evolves_find)
  with late row(1) assms(3) show False by simp
qed

section \<open>Properties\<close>

text \<open>
  C3: one winner. Once a compare-and-set has moved a job out of \<open>queued\<close>, no later attempt to do
  so succeeds, whatever other threads do in between and wherever the database fails: two
  workers never both win the execution claim of a job.
\<close>

theorem claim_has_one_winner:
  assumes "repo_transition_if_status job_id [Queued] target progress message w = (Inr True, w1)"
    and "target \<noteq> Queued" and "evolves w1 w2"
  shows "fst (repo_transition_if_status job_id [Queued] target' progress' message' w2) \<noteq> Inr True"
  using assms unfolding repo_transition_if_status_def
  by (simp, elim db_update_one_winner)
    (auto simp: row_simps row_follows_def update_guard_def raw_follows_def raw_in_iff reach_queued)

definition sample_world :: world where
  "sample_world =
     \<lparr>w_jobs = [record_to_row sample_job],
      w_queue = \<lparr>q_lane_names = [''default''], q_queues = [''default'' \<mapsto> [''job_1'']],
        q_job_lane = [''job_1'' \<mapsto> ''default'']\<rparr>,
      w_bus = \<lparr>eb_max_events = 10, eb_events = [], eb_subscribers = []\<rparr>,
      w_registry = init_registry, w_assets = [], w_stories = [], w_ticks = []\<rparr>"

named_theorems run_simps \<open>unfolds the atomic steps for evaluation on a concrete world\<close>

lemmas run_unfold [run_simps] =
  db_read_def db_update_def db_insert_def with_queue_def with_registry_def read_clock_def read_now_def
  transaction_def atomic_def interfere_def next_tick_def quiet_tick_def sample_world_def
  repo_get_def decode_def repo_transition_if_status_def repo_update_if_status_def
  repo_update_guarded_def sql_update_def row_find_def update_guard_def raw_in_iff transition_sources_iff
  status_simps

theorem claim_has_one_winner_witness:
  "\<exists>w1. repo_transition_if_status ''job_1'' [Queued] Preparing (Some 0) None sample_world = (Inr True, w1) \<and>
     fst (repo_transition_if_status ''job_1'' [Queued] Preparing (Some 0) None w1) \<noteq> Inr True"
proof -
  obtain w1 where w1:
    "repo_transition_if_status ''job_1'' [Queued] Preparing (Some 0) None sample_world = (Inr True, w1)"
    by (simp add: run_simps row_simps sample_job_def)
  show ?thesis
    using w1 claim_has_one_winner [OF w1, of w1] evolving.R_refl [of w1] by blast
qed

text \<open>
  The quarantine repair never overwrites a valid status. Whatever the schedule, the repair of
  a structurally invalid status leaves a row whose status is valid when the statement runs
  exactly as it was, and a repair that reports success has made the row failed with progress
  one and the given message.
\<close>

theorem quarantine_repair_is_narrow:
  assumes "repo_quarantine_structurally_invalid_status job_id message w = (r, w')"
  shows "(\<forall>row s. row_find job_id (w_jobs (interfere w)) = Some row \<and> col_status row = Known s \<longrightarrow>
            row_find job_id (w_jobs w') = Some row \<and> r \<noteq> Inr True) \<and>
         (r = Inr True \<longrightarrow>
            (\<exists>row. row_find job_id (w_jobs w') = Some row \<and> col_status row = Known Failed \<and>
               col_progress row = Good 1 \<and> col_error_message row = Text_cell message))"
proof -
  note run = assms [unfolded repo_quarantine_structurally_invalid_status_def]
  have frame: "w' = interfere w" if "r \<noteq> Inr True"
    using run
  proof (cases rule: db_update_cases)
    case (ran b rows)
    then have "r = Inr False" using that by simp
    from run [unfolded this] show ?thesis by (rule db_update_miss) (simp add: row_simps)
  qed
  have hit: "\<exists>row. row_find job_id (w_jobs (interfere w)) = Some row \<and> status_unknown row \<and>
      row_find job_id (w_jobs w') = Some (quarantine_row message (t_now (next_tick w)) row)"
    if "r = Inr True"
    using run [unfolded that] by (rule db_update_hit) (auto simp: row_simps)
  show ?thesis
    using frame hit by (cases "r = Inr True")
      (auto simp: status_unknown_def raw_in_JOB_STATUSES quarantine_row_def)
qed

theorem quarantine_repair_is_narrow_witness:
  "fst (repo_quarantine_structurally_invalid_status ''job_1'' ''bad row'' sample_world) \<noteq> Inr True"
proof -
  have "row_find ''job_1'' (w_jobs (interfere sample_world)) = Some (record_to_row sample_job)"
    by (simp add: run_simps row_simps sample_job_def)
  then show ?thesis
    using quarantine_repair_is_narrow [of "''job_1''" "''bad row''" sample_world]
    by (cases "repo_quarantine_structurally_invalid_status ''job_1'' ''bad row'' sample_world")
      (simp add: row_simps)
qed

text \<open>
  Completion bookkeeping never looks like a change of outcome. Marking a job's completion,
  as done or as failed, leaves its status, result, error message, progress and request as they
  were when the statement ran, and only ever touches the row of a job in a terminal status.
\<close>

definition same_outcome :: "job_row \<Rightarrow> job_row \<Rightarrow> bool" where
  "same_outcome row row' \<longleftrightarrow>
     col_status row' = col_status row \<and> col_result row' = col_result row \<and>
     col_error_message row' = col_error_message row \<and> col_progress row' = col_progress row \<and>
     col_request row' = col_request row \<and> (\<not> row_terminal row \<longrightarrow> row' = row)"

lemma completion_same_outcome:
  assumes "db_update job_id guard change w = (r, w')"
    and "\<And>now row. col_id (change now row) = col_id row"
    and "\<And>now row. guard row \<Longrightarrow> same_outcome row (change now row)"
    and "row_find a (w_jobs (interfere w)) = Some row"
  shows "\<exists>row'. row_find a (w_jobs w') = Some row' \<and> same_outcome row row'"
proof -
  have refl: "same_outcome row row" by (simp add: same_outcome_def)
  from assms(1) show ?thesis
  proof (cases rule: db_update_cases)
    case fault
    with assms(4) refl show ?thesis by auto
  next
    case (ran b rows)
    then have "rows = snd (sql_update job_id guard (change (t_now (next_tick w))) (w_jobs (interfere w)))"
      by simp
    with assms(2,3,4) refl ran(3) show ?thesis
      by (auto simp: sql_update_def row_find_map dest: row_find_id split: option.splits)
  qed
qed

theorem completion_marks_keep_outcome:
  assumes "repo_mark_completion_done job_id w = (r, w') \<or>
           repo_mark_completion_pending_with_error job_id message w = (r, w')"
    and "row_find a (w_jobs (interfere w)) = Some row"
  shows "\<exists>row'. row_find a (w_jobs w') = Some row' \<and> same_outcome row row'"
  using assms(1)
proof
  assume "repo_mark_completion_done job_id w = (r, w')"
  then show ?thesis
    unfolding repo_mark_completion_done_def
    by (rule completion_same_outcome [OF _ _ _ assms(2)])
      (auto simp: completion_done_row_def same_outcome_def)
next
  assume "repo_mark_completion_pending_with_error job_id message w = (r, w')"
  then show ?thesis
    unfolding repo_mark_completion_pending_with_error_def
    by (rule completion_same_outcome [OF _ _ _ assms(2)])
      (auto simp: completion_error_row_def same_outcome_def)
qed

theorem completion_marks_keep_outcome_witness:
  "\<exists>row'. row_find ''job_1'' (w_jobs (snd (repo_mark_completion_done ''job_1'' sample_world))) = Some row' \<and>
     same_outcome (record_to_row sample_job) row'"
proof -
  have found: "row_find ''job_1'' (w_jobs (interfere sample_world)) = Some (record_to_row sample_job)"
    by (simp add: run_simps row_simps sample_job_def)
  have "repo_mark_completion_done ''job_1'' sample_world =
      (fst (repo_mark_completion_done ''job_1'' sample_world), snd (repo_mark_completion_done ''job_1'' sample_world))"
    by simp
  from completion_marks_keep_outcome [OF disjI1 [OF this] found] show ?thesis .
qed

end
