(* ===== verification/Job_Facts.thy ===== *)
theory Job_Facts imports Job_Repository begin

text \<open>
  What a thread knows about a job: facts about its row that the other threads cannot undo, and
  what each repository method's outcome says about the row. The services, the runner and the
  recovery passes reason with these facts and no longer with rows.
\<close>

section \<open>Statuses a job cannot leave\<close>

definition status_of :: "string \<Rightarrow> 'x world_scheme \<Rightarrow> job_status option" where
  "status_of job_id w =
     (case row_find job_id (w_jobs w) of
        None \<Rightarrow> None
      | Some row \<Rightarrow> (case col_status row of Known s \<Rightarrow> Some s | Unknown _ \<Rightarrow> None))"

definition seen :: "string \<Rightarrow> job_status set \<Rightarrow> 'x world_scheme \<Rightarrow> bool" where
  "seen job_id S w \<longleftrightarrow> (\<exists>s \<in> S. status_of job_id w = Some s)"

definition lasting :: "job_status set \<Rightarrow> bool" where
  "lasting S \<longleftrightarrow> (\<forall>s \<in> S. \<forall>t. is_valid_transition s t \<longrightarrow> t \<in> S)"

definition present :: "string \<Rightarrow> 'x world_scheme \<Rightarrow> bool" where
  "present job_id w \<longleftrightarrow> row_find job_id (w_jobs w) \<noteq> None"

lemma lastingI: "(\<And>s t. s \<in> S \<Longrightarrow> is_valid_transition s t \<Longrightarrow> t \<in> S) \<Longrightarrow> lasting S"
  by (auto simp: lasting_def)

lemma lasting_reach: "lasting S \<Longrightarrow> is_valid_transition\<^sup>*\<^sup>* s t \<Longrightarrow> s \<in> S \<Longrightarrow> t \<in> S"
proof -
  assume c: "lasting S"
  show "is_valid_transition\<^sup>*\<^sup>* s t \<Longrightarrow> s \<in> S \<Longrightarrow> t \<in> S"
    by (induction rule: rtranclp_induct) (use c in \<open>auto simp: lasting_def\<close>)
qed

definition CANCELLING :: "job_status set" where
  "CANCELLING = {Cancel_requested, Cancelled, Failed}"

definition SETTLED :: "job_status set" where
  "SETTLED = {Cancel_requested, Cancelled, Failed, Succeeded}"

definition FINAL :: "job_status set" where
  "FINAL = {Cancelled, Failed, Succeeded}"

definition NOT_QUEUED :: "job_status set" where
  "NOT_QUEUED = {s. s \<noteq> Queued}"

lemma lasting_sets:
  "lasting CANCELLING" "lasting SETTLED" "lasting FINAL" "lasting NOT_QUEUED" "lasting {Succeeded}"
  "lasting {Failed}" "lasting {Cancelled}" "lasting {Cancelled, Failed}"
  by (rule lastingI; rename_tac s t; case_tac s; case_tac t;
      auto simp: CANCELLING_def SETTLED_def FINAL_def NOT_QUEUED_def status_simps)+

lemma status_of_follows:
  assumes "evolves w w'" and "status_of job_id w = Some s"
  obtains t where "status_of job_id w' = Some t" and "is_valid_transition\<^sup>*\<^sup>* s t"
proof -
  obtain row where row: "row_find job_id (w_jobs w) = Some row" "col_status row = Known s"
    using assms(2) by (auto simp: status_of_def split: option.splits raw_status.splits)
  obtain row' where "row_find job_id (w_jobs w') = Some row'" "row_follows row row'"
    using assms(1) row(1) by (rule evolves_find)
  with row(2) that show thesis by (auto simp: row_follows_def raw_follows_def status_of_def)
qed

lemma seen_evolves: "seen job_id S w \<Longrightarrow> lasting S \<Longrightarrow> evolves w w' \<Longrightarrow> seen job_id S w'"
  unfolding seen_def by (metis lasting_reach status_of_follows)

lemma seen_mono: "seen job_id S w \<Longrightarrow> S \<subseteq> T \<Longrightarrow> seen job_id T w"
  by (auto simp: seen_def)

lemma present_evolves: "present job_id w \<Longrightarrow> evolves w w' \<Longrightarrow> present job_id w'"
  unfolding present_def by (metis evolves_find not_None_eq)

lemma seen_present: "seen job_id S w \<Longrightarrow> present job_id w"
  by (auto simp: seen_def present_def status_of_def split: option.splits)

lemma along_seen:
  "holds_along evolves m \<Longrightarrow> lasting S \<Longrightarrow> seen job_id S w \<Longrightarrow> m w = (r, w') \<Longrightarrow> seen job_id S w'"
  by (metis along_evolves seen_evolves snd_conv)

lemma along_present:
  "holds_along evolves m \<Longrightarrow> present job_id w \<Longrightarrow> m w = (r, w') \<Longrightarrow> present job_id w'"
  by (metis along_evolves present_evolves snd_conv)

lemma along_runs: "holds_along evolves m \<Longrightarrow> m w = (r, w') \<Longrightarrow> evolves w w'"
  by (metis along_evolves snd_conv)

section \<open>Outcomes of the repository's methods\<close>

definition stands :: "string \<Rightarrow> job_record \<Rightarrow> 'x world_scheme \<Rightarrow> bool" where
  "stands job_id j w \<longleftrightarrow> (\<exists>row. row_find job_id (w_jobs w) = Some row \<and> reads_as row j)"

lemma stands_facts:
  assumes "stands job_id j w"
  shows "jr_id j = job_id" and "status_of job_id w = Some (jr_status j)" and "present job_id w"
    and "seen job_id S w \<longleftrightarrow> jr_status j \<in> S"
  using assms by (auto simp: stands_def reads_as_def status_of_def present_def seen_def dest: row_find_id)

lemma stands_unique: "stands job_id j w \<Longrightarrow> stands job_id j' w \<Longrightarrow> j' = j"
  by (auto simp: stands_def dest: reads_as_unique)

text \<open>The request of a job, which no operation changes.\<close>

definition request_of :: "string \<Rightarrow> 'x world_scheme \<Rightarrow> generation_request option" where
  "request_of job_id w =
     (case row_find job_id (w_jobs w) of
        None \<Rightarrow> None
      | Some row \<Rightarrow> (case col_request row of Payload r \<Rightarrow> Some r | _ \<Rightarrow> None))"

lemma request_of_evolves: "request_of job_id w = Some r \<Longrightarrow> evolves w w' \<Longrightarrow> request_of job_id w' = Some r"
  by (auto simp: request_of_def row_follows_def split: option.splits elim: evolves_find)

lemma stands_request: "stands job_id j w \<Longrightarrow> request_of job_id w = Some (jr_request j)"
  by (auto simp: stands_def request_of_def reads_as_def)

lemma decode_runs:
  "decode row w = (r, w') \<longleftrightarrow> w' = w \<and>
     (case row_to_record row of Inl reason \<Rightarrow> r = Inl (Decode_error (col_id row) reason) | Inr j \<Rightarrow> r = Inr j)"
  by (auto simp: decode_def split: sum.splits)

lemma repo_get_runs:
  assumes "repo_get job_id w = (r, w')"
  obtains (fault) "r = Inl Sqlite_error" and "w' = interfere w"
  | (absent) "r = Inr None" and "\<not> present job_id w'" and "w' = interfere w"
  | (unreadable) row reason where "r = Inl (Decode_error job_id reason)" and "w' = interfere w"
      and "row_find job_id (w_jobs w') = Some row" and "row_to_record row = Inl reason"
  | (found) j where "r = Inr (Some j)" and "stands job_id j w'" and "w' = interfere w"
  using assms unfolding repo_get_def
proof (cases rule: bnd_runs)
  case (raised e)
  from raised(1) show thesis
    by (cases rule: db_read_cases) (use fault raised(2) in auto)
next
  case (went_on found w1)
  from went_on(1) have look: "found = row_find job_id (w_jobs w1)" "w1 = interfere w"
    by (cases rule: db_read_cases; simp)+
  show thesis
  proof (cases found)
    case None
    with went_on(2) look absent show thesis by (simp add: present_def)
  next
    case (Some row)
    then have id: "col_id row = job_id" using look(1) row_find_id by metis
    show thesis
    proof (cases "row_to_record row")
      case (Inl reason)
      with Some went_on(2) look id unreadable show thesis
        by (simp add: decode_def)
    next
      case (Inr j)
      then have "stands job_id j w1" using Some look(1) by (auto simp: stands_def row_to_record_iff)
      with Inr Some went_on(2) look found show thesis by (simp add: decode_def)
    qed
  qed
qed

lemma repo_get_found: "repo_get job_id w = (Inr (Some j), w') \<Longrightarrow> stands job_id j w'"
  by (erule repo_get_runs) auto

lemma repo_get_absent: "repo_get job_id w = (Inr None, w') \<Longrightarrow> \<not> present job_id w'"
  by (erule repo_get_runs) auto

lemma repo_get_present:
  "repo_get job_id w = (Inr found, w') \<Longrightarrow> present job_id w \<Longrightarrow> \<exists>j. found = Some j \<and> stands job_id j w'"
  by (erule repo_get_runs) (auto intro: present_evolves interfere_evolves)

text \<open>A guarded update that found its row as expected.\<close>

definition took :: "string \<Rightarrow> patch \<Rightarrow> job_status list option \<Rightarrow> 'x world_scheme \<Rightarrow> bool" where
  "took job_id p expected w \<longleftrightarrow>
     (\<exists>row now. update_guard expected (pt_status p) row \<and>
        row_find job_id (w_jobs w) = Some (apply_patch p now row))"

definition refused :: "string \<Rightarrow> patch \<Rightarrow> job_status list option \<Rightarrow> 'x world_scheme \<Rightarrow> bool" where
  "refused job_id p expected w \<longleftrightarrow>
     (\<forall>row. row_find job_id (w_jobs w) = Some row \<longrightarrow> \<not> update_guard expected (pt_status p) row)"

lemma took_status: "took job_id p expected w \<Longrightarrow> pt_status p = Some s \<Longrightarrow> status_of job_id w = Some s"
  by (auto simp: took_def status_of_def row_simps)

lemma refused_status:
  assumes "refused job_id p (Some expected) w" and "pt_status p = Some s"
    and "status_of job_id w = Some t"
  shows "t \<notin> set expected \<or> \<not> is_valid_transition t s"
  using assms
  by (auto simp: refused_def status_of_def update_guard_def transition_sources_iff
      split: option.splits raw_status.splits)

lemma guarded_db_update_runs:
  assumes "db_update job_id (update_guard expected (pt_status p)) (apply_patch p) w = (r, w')"
  obtains (fault) "r = Inl Sqlite_error" and "w' = interfere w"
  | (hit) "r = Inr True" and "took job_id p expected w'"
  | (miss) "r = Inr False" and "refused job_id p expected w'" and "w' = interfere w"
  using assms
proof (cases rule: db_update_cases)
  case fault
  with that show thesis by blast
next
  case (ran b rows)
  show thesis
  proof (cases b)
    case True
    from assms have "db_update job_id (update_guard expected (pt_status p)) (apply_patch p) w = (Inr True, w')"
      using ran(1) True by simp
    then have "took job_id p expected w'"
      unfolding took_def by (rule db_update_hit) (auto simp: row_simps)
    then show thesis using hit ran(1) True by simp
  next
    case False
    have m: "db_update job_id (update_guard expected (pt_status p)) (apply_patch p) w = (Inr False, w')"
      using assms ran(1) False by simp
    have "w' = interfere w" by (rule db_update_miss(1) [OF m]) (simp add: row_simps)
    moreover have "refused job_id p expected w'"
      unfolding refused_def using db_update_miss(2) [OF m] by (simp add: row_simps)
    ultimately show thesis using miss ran(1) False by simp
  qed
qed

lemma repo_update_guarded_runs:
  assumes "repo_update_guarded job_id p expected w = (r, w')" and "p \<noteq> no_patch"
  obtains (fault) "r = Inl Sqlite_error" and "w' = interfere w"
  | (unread) e w1 where "r = Inl e" and "took job_id p expected w1" and "repo_get job_id w1 = (Inl e, w')"
  | (updated) j w1 where "r = Inr (Some j)" and "evolves w w1" and "took job_id p expected w1"
      and "evolves w1 w'" and "stands job_id j w'"
  | (refused) "r = Inr None" and "refused job_id p expected w'" and "w' = interfere w"
proof -
  from assms have run: "bnd (db_update job_id (update_guard expected (pt_status p)) (apply_patch p))
      (\<lambda>hit. if hit then repo_get job_id else ret None) w = (r, w')"
    by (simp add: repo_update_guarded_def)
  from run show thesis
  proof (cases rule: bnd_runs)
    case (raised e)
    from raised(1) show thesis
      by (cases rule: guarded_db_update_runs) (use fault raised(2) in auto)
  next
    case (went_on b w1)
    have e1: "evolves w w1" using went_on(1) by (rule along_runs [rotated]) (intro along, simp)
    from went_on(1) show thesis
    proof (cases rule: guarded_db_update_runs)
      case fault
      then show thesis by simp
    next
      case hit
      with went_on(2) have get: "repo_get job_id w1 = (r, w')" by simp
      have e2: "evolves w1 w'" using get by (rule along_runs [rotated]) (intro along)
      have pres: "present job_id w1" using hit(2) by (auto simp: took_def present_def)
      from get show thesis
      proof (cases r)
        case (Inl e)
        with get hit unread show thesis by blast
      next
        case (Inr found)
        with get pres obtain j where "found = Some j" "stands job_id j w'"
          using repo_get_present by blast
        with Inr e1 e2 hit updated show thesis by blast
      qed
    next
      case miss
      with went_on(2) refused show thesis by simp
    qed
  qed
qed

lemma repo_transition_runs:
  assumes "repo_transition_if_status job_id expected status progress message w = (r, w')"
    and "expected \<noteq> []"
  obtains (fault) "r = Inl Sqlite_error" and "w' = interfere w"
  | (hit) "r = Inr True" and "took job_id (no_patch\<lparr>pt_status := Some status, pt_progress := progress,
        pt_error_message := message\<rparr>) (Some expected) w'" and "status_of job_id w' = Some status"
  | (miss) "r = Inr False" and "w' = interfere w"
      and "\<And>t. status_of job_id w' = Some t \<Longrightarrow> t \<notin> set expected \<or> \<not> is_valid_transition t status"
proof -
  let ?p = "no_patch\<lparr>pt_status := Some status, pt_progress := progress, pt_error_message := message\<rparr>"
  from assms have "db_update job_id (update_guard (Some expected) (pt_status ?p)) (apply_patch ?p) w = (r, w')"
    by (simp add: repo_transition_if_status_def)
  then show thesis
  proof (cases rule: guarded_db_update_runs)
    case fault
    with that(1) show thesis by blast
  next
    case hit
    with that(2) took_status [OF hit(2)] show thesis by simp
  next
    case miss
    with that(3) refused_status [OF miss(2)] show thesis by simp
  qed
qed

end
