(* ===== verification/Job_Board.thy ===== *)
theory Job_Board imports Job_Facts begin

text \<open>
  The abstract specification of the jobs table: a board of entries that are posted queued, move
  along the transition contract one edge at a time, are written off when their status is not
  understood, and are ticked off once they are terminal. No entry is ever taken down, none
  changes what was asked for.

  \<open>board_of\<close> abstracts a world to its board. Whatever \<open>evolves\<close> allows refines the board's own
  steps; since every operation of the pipeline evolves the world, so does any composition of them.
\<close>

section \<open>The board\<close>

record board_entry =
  be_request :: "generation_request payload"
  be_media_type :: "media_type column"
  be_created_at :: time_cell
  be_status :: raw_status
  be_completion :: "completion_state column"

type_synonym board = "string \<rightharpoonup> board_entry"

inductive board_step :: "board \<Rightarrow> board \<Rightarrow> bool" where
  post: "board_step b (b(job_id \<mapsto> e))"
    if "b job_id = None" and "be_status e = Known Queued" and "be_completion e = Good Completion_pending"
| advance: "board_step b (b(job_id \<mapsto> e\<lparr>be_status := Known t\<rparr>))"
    if "b job_id = Some e" and "be_status e = Known s" and "t \<in> set (ALLOWED_TRANSITIONS s)"
| write_off: "board_step b (b(job_id \<mapsto> e\<lparr>be_status := Known Failed\<rparr>))"
    if "b job_id = Some e" and "be_status e = Unknown u"
| complete: "board_step b (b(job_id \<mapsto> e\<lparr>be_completion := Good Completion_done\<rparr>))"
    if "b job_id = Some e" and "raw_in (be_status e) TERMINAL_JOB_STATUSES"

inductive_cases board_stepE: "board_step b b'"

text \<open>What the board itself guarantees: an entry stays, asks for the same, and a terminal one is final.\<close>

definition entry_kept :: "board_entry \<Rightarrow> board_entry \<Rightarrow> bool" where
  "entry_kept e e' \<longleftrightarrow>
     be_request e' = be_request e \<and> be_media_type e' = be_media_type e \<and> be_created_at e' = be_created_at e \<and>
     (raw_in (be_status e) TERMINAL_JOB_STATUSES \<longrightarrow> be_status e' = be_status e) \<and>
     (be_completion e = Good Completion_done \<longrightarrow> be_completion e' = Good Completion_done)"

lemma entry_kept_refl [simp]: "entry_kept e e"
  by (simp add: entry_kept_def)

lemma entry_kept_trans: "entry_kept d e \<Longrightarrow> entry_kept e f \<Longrightarrow> entry_kept d f"
  by (auto simp: entry_kept_def)

lemma allowed_not_terminal: "t \<in> set (ALLOWED_TRANSITIONS s) \<Longrightarrow> s \<notin> set TERMINAL_JOB_STATUSES"
  by (cases s) (auto simp: status_simps)

lemma unknown_not_known [simp]: "\<not> raw_in (Unknown u) ss"
  by (simp add: raw_in_def)

lemma board_step_keeps:
  "board_step b b' \<Longrightarrow> b job_id = Some e \<Longrightarrow> \<exists>e'. b' job_id = Some e' \<and> entry_kept e e'"
  by (erule board_step.cases)
    (auto simp: entry_kept_def allowed_not_terminal)

lemma board_run_keeps:
  "board_step\<^sup>*\<^sup>* b b' \<Longrightarrow> b job_id = Some e \<Longrightarrow> \<exists>e'. b' job_id = Some e' \<and> entry_kept e e'"
  by (induction rule: rtranclp_induct) (force, metis board_step_keeps entry_kept_trans)

section \<open>The world refines the board\<close>

definition entry_of :: "job_row \<Rightarrow> board_entry" where
  "entry_of row =
     \<lparr>be_request = col_request row, be_media_type = col_media_type row, be_created_at = col_created_at row,
      be_status = col_status row, be_completion = col_completion_state row\<rparr>"

definition board_of :: "'x world_scheme \<Rightarrow> board" where
  "board_of w job_id = map_option entry_of (row_find job_id (w_jobs w))"

lemma entry_moves:
  "is_valid_transition\<^sup>*\<^sup>* s t \<Longrightarrow> b job_id = Some e \<Longrightarrow> be_status e = Known s \<Longrightarrow>
   board_step\<^sup>*\<^sup>* b (b(job_id \<mapsto> e\<lparr>be_status := Known t\<rparr>))"
proof (induction rule: rtranclp_induct)
  case base
  then have "b(job_id \<mapsto> e\<lparr>be_status := Known s\<rparr>) = b" by (auto simp: fun_eq_iff)
  then show ?case by simp
next
  case (step t u)
  let ?b = "b(job_id \<mapsto> e\<lparr>be_status := Known t\<rparr>)"
  have "board_step\<^sup>*\<^sup>* ?b (b(job_id \<mapsto> e\<lparr>be_status := Known u\<rparr>))"
  proof (cases "u = t")
    case False
    then have "u \<in> set (ALLOWED_TRANSITIONS t)" using step.hyps(2) by (simp add: is_valid_transition_def)
    then have "board_step ?b (?b(job_id \<mapsto> e\<lparr>be_status := Known t\<rparr>\<lparr>be_status := Known u\<rparr>))"
      by (intro advance) auto
    then show ?thesis by simp
  qed simp
  with step.IH [OF step.prems] show ?case by (rule rtranclp_trans)
qed

lemma entry_status_moves:
  assumes "raw_follows (be_status e) r" and "b job_id = Some e"
  shows "board_step\<^sup>*\<^sup>* b (b(job_id \<mapsto> e\<lparr>be_status := r\<rparr>))"
proof (cases "be_status e")
  case (Known s)
  then show ?thesis using assms entry_moves by (auto simp: raw_follows_def)
next
  case (Unknown u)
  have "b(job_id \<mapsto> e\<lparr>be_status := Unknown u\<rparr>) = b" using assms(2) Unknown by (auto simp: fun_eq_iff)
  with Unknown assms write_off [of b job_id e u] show ?thesis by (auto simp: raw_follows_def)
qed

lemma row_moves:
  assumes "row_follows row row'" and "b job_id = Some (entry_of row)"
  shows "board_step\<^sup>*\<^sup>* b (b(job_id \<mapsto> entry_of row'))"
proof -
  let ?e = "entry_of row\<lparr>be_status := col_status row'\<rparr>"
  have moved: "board_step\<^sup>*\<^sup>* b (b(job_id \<mapsto> ?e))"
    using assms by (intro entry_status_moves) (simp_all add: entry_of_def row_follows_def)
  have same: "entry_of row' = ?e\<lparr>be_completion := col_completion_state row'\<rparr>"
    using assms(1) by (simp add: entry_of_def row_follows_def)
  show ?thesis
  proof (cases "col_completion_state row' = col_completion_state row")
    case True
    with moved same show ?thesis by (simp add: entry_of_def)
  next
    case False
    then have ticked: "col_completion_state row' = Good Completion_done" "raw_in (be_status ?e) TERMINAL_JOB_STATUSES"
      using assms(1) by (simp_all add: row_follows_def row_terminal_def)
    have "board_step (b(job_id \<mapsto> ?e)) ((b(job_id \<mapsto> ?e))(job_id \<mapsto> ?e\<lparr>be_completion := Good Completion_done\<rparr>))"
      using ticked(2) by (intro complete) simp_all
    with moved same ticked(1) show ?thesis by simp
  qed
qed

lemma key_moves:
  assumes "table_follows (w_jobs w) (w_jobs w')" and "b job_id = board_of w job_id"
  shows "board_step\<^sup>*\<^sup>* b (b(job_id := board_of w' job_id))"
proof (cases "row_find job_id (w_jobs w)")
  case (Some row)
  then obtain row' where "row_find job_id (w_jobs w') = Some row'" "row_follows row row'"
    using table_follows_find [OF assms(1) Some] by blast
  with row_moves [of row row' b job_id] Some assms(2) show ?thesis by (simp add: board_of_def)
next
  case None
  note absent = this
  show ?thesis
  proof (cases "row_find job_id (w_jobs w')")
    case None
    with absent assms(2) have "b(job_id := board_of w' job_id) = b" by (auto simp: fun_eq_iff board_of_def)
    then show ?thesis by simp
  next
    case (Some row')
    obtain row where row: "fresh_row row" "row_follows row row'"
      using jobs_table.grows_new [OF assms(1) absent Some] by blast
    have "board_step b (b(job_id \<mapsto> entry_of row))"
      using absent assms(2) row(1) by (intro post) (simp_all add: board_of_def entry_of_def fresh_row_def)
    also have "board_step\<^sup>*\<^sup>* \<dots> ((b(job_id \<mapsto> entry_of row))(job_id \<mapsto> entry_of row'))"
      using row(2) by (rule row_moves) simp
    finally show ?thesis using Some by (simp add: board_of_def)
  qed
qed

lemma evolves_refines:
  assumes "evolves w w'"
  shows "board_step\<^sup>*\<^sup>* (board_of w) (board_of w')"
proof -
  have table: "table_follows (w_jobs w) (w_jobs w')" using assms by (simp add: evolves_def)
  let ?at = "\<lambda>ids job_id. if job_id \<in> set ids then board_of w' job_id else board_of w job_id"
  have "board_step\<^sup>*\<^sup>* (board_of w) (?at ids)" if "distinct ids" for ids
    using that
  proof (induction ids)
    case Nil
    then show ?case by (simp add: fun_upd_def)
  next
    case (Cons i ids)
    have "board_step\<^sup>*\<^sup>* (?at ids) ((?at ids)(i := board_of w' i))"
      using Cons.prems by (intro key_moves [OF table]) simp
    moreover have "(?at ids)(i := board_of w' i) = ?at (i # ids)" by auto
    ultimately show ?case using Cons by (metis (no_types, lifting) distinct.simps(2) rtranclp_trans)
  qed
  from this [OF distinct_remdups] have "board_step\<^sup>*\<^sup>* (board_of w) (?at (remdups (map col_id (w_jobs w'))))" .
  moreover have "?at (remdups (map col_id (w_jobs w'))) = board_of w'"
  proof
    fix job_id
    show "?at (remdups (map col_id (w_jobs w'))) job_id = board_of w' job_id"
    proof (cases "row_find job_id (w_jobs w')")
      case None
      with table have "row_find job_id (w_jobs w) = None" by (cases "row_find job_id (w_jobs w)") (auto elim: table_follows_find)
      with None show ?thesis by (simp add: board_of_def)
    next
      case (Some row')
      then have "job_id \<in> col_id ` set (w_jobs w')" using row_find_None [of job_id "w_jobs w'"] by auto
      then show ?thesis by simp
    qed
  qed
  ultimately show ?thesis by simp
qed

end
