(* ===== verification/Job_Service.thy ===== *)
theory Job_Service imports Job_Facts begin

text \<open>
  \<open>JobService\<close> of \<open>core/jobs/service.py\<close>: creating, queueing, cancelling and finishing jobs.

  The collaborators a service was built with are the fields of a \<open>service\<close> record: whether
  there is an event bus and what its subscribers do, the asset repository's \<open>sync_job\<close>,
  whether there is a cancellation registry, the lane configuration and the look-ups of the
  reference check. The random part of a new job id is an argument.
\<close>

section \<open>Collaborators and events\<close>

record 'x service =
  sv_publishes :: bool
  sv_deliver :: "nat \<Rightarrow> job_event \<Rightarrow> ('x, unit) job_io"
  sv_sync_job :: "(job_record \<Rightarrow> ('x, unit) job_io) option"
  sv_cancellation :: bool
  sv_lane_config :: "lane_config option"
  sv_references :: reference_env

definition publish :: "'x service \<Rightarrow> string \<Rightarrow> (string \<times> json) list \<Rightarrow> ('x, unit) job_io" where
  "publish sv event_type payload =
     (if sv_publishes sv then bnd (bus_publish (sv_deliver sv) event_type payload) (\<lambda>_. ret ()) else ret ())"

fun status_event :: "job_status \<Rightarrow> string" where
  "status_event Queued = ''job_queued''"
| "status_event Preparing = ''job_preparing''"
| "status_event Running = ''job_started''"
| "status_event Postprocessing = ''job_postprocessing''"
| "status_event Succeeded = ''job_succeeded''"
| "status_event Failed = ''job_failed''"
| "status_event Cancel_requested = ''job_cancel_requested''"
| "status_event Cancelled = ''job_cancelled''"

definition job_payload :: "job_record \<Rightarrow> (string \<times> json) list" where
  "job_payload job =
     [(''job_id'', JStr (jr_id job)), (''status'', JStr (status_text (jr_status job))),
      (''progress'', JFloat (jr_progress job))]"

definition SUCCEEDABLE_JOB_STATUSES :: "job_status list" where
  "SUCCEEDABLE_JOB_STATUSES = [Postprocessing]"

section \<open>Creation and queueing\<close>

definition created_payload :: "job_record \<Rightarrow> (string \<times> json) list" where
  "created_payload job =
     [(''job_id'', JStr (jr_id job)), (''status'', JStr (status_text (jr_status job))),
      (''media_type'', JStr (media_text (jr_media_type job)))]"

definition queue_enqueue :: "string \<Rightarrow> string option \<Rightarrow> ('x, unit) job_io" where
  "queue_enqueue job_id lane =
     with_queue (\<lambda>q. case enqueue job_id lane q of Inl e \<Rightarrow> Inl e | Inr q' \<Rightarrow> Inr ((), q'))"

definition lane_of_job :: "'x service \<Rightarrow> job_record \<Rightarrow> lanes_error + string option" where
  "lane_of_job sv job =
     (case sv_lane_config sv of
        None \<Rightarrow> Inr None
      | Some config \<Rightarrow>
          if is_single_lane config then Inr None
          else (case assign_lane (media_text (jr_media_type job)) (req_task_type (jr_request job)) config of
                  Inl e \<Rightarrow> Inl e | Inr lane \<Rightarrow> Inr (Some lane)))"

definition service_enqueue_job :: "'x service \<Rightarrow> string \<Rightarrow> ('x, job_record option) job_io" where
  "service_enqueue_job sv job_id =
     bnd (repo_get job_id) (\<lambda>found.
       case found of
         None \<Rightarrow> ret None
       | Some job \<Rightarrow>
           if jr_status job = Cancelled then ret (Some job)
           else
             (case lane_of_job sv job of
                Inl e \<Rightarrow> raise (Lane_error e)
              | Inr lane \<Rightarrow>
                  bnd (queue_enqueue job_id lane) (\<lambda>_.
                  bnd (publish sv ''job_queued'' (job_payload job)) (\<lambda>_. ret (Some job)))))"

definition check_references ::
  "'x service \<Rightarrow> generation_request \<Rightarrow> string option \<Rightarrow> ('x, unit) job_io" where
  "check_references sv request project_id =
     (case validate_references (sv_references sv) request project_id of
        Inl e \<Rightarrow> raise (Reference_rejected e) | Inr _ \<Rightarrow> ret ())"

definition service_create_job ::
  "'x service \<Rightarrow> string \<Rightarrow> generation_request \<Rightarrow> string option \<Rightarrow> ('x, job_record) job_io" where
  "service_create_job sv uuid request project_id =
     bnd (check_references sv request project_id) (\<lambda>_.
     bnd read_now (\<lambda>now.
     bnd (repo_create (new_job (''job_'' @ uuid) project_id request now)) (\<lambda>created.
     bnd (publish sv ''job_created'' (created_payload created)) (\<lambda>_.
     bnd (service_enqueue_job sv (jr_id created)) (\<lambda>_. ret created)))))"

definition mismatch :: "string \<Rightarrow> exn" where
  "mismatch job_id =
     Value_error (''Job '' @ quoted job_id @
       '' already exists with a different request; refusing to silently reuse it for a mismatched request.'')"

definition service_create_or_reuse_job_without_enqueue ::
  "'x service \<Rightarrow> string \<Rightarrow> generation_request \<Rightarrow> string option \<Rightarrow> ('x, job_record \<times> bool) job_io" where
  "service_create_or_reuse_job_without_enqueue sv job_id request project_id =
     bnd (repo_get job_id) (\<lambda>existing.
       case existing of
         Some job \<Rightarrow>
           if \<not> request_eq (jr_request job) request then raise (mismatch job_id) else ret (job, False)
       | None \<Rightarrow>
           bnd (check_references sv request project_id) (\<lambda>_.
           bnd read_now (\<lambda>now.
           bnd (repo_create_if_absent (new_job job_id project_id request now)) (\<lambda>(created, was_created).
             if \<not> was_created then
               (if \<not> request_eq (jr_request created) request then raise (mismatch job_id)
                else ret (created, False))
             else bnd (publish sv ''job_created'' (created_payload created)) (\<lambda>_. ret (created, True))))))"

definition service_create_or_reuse_job ::
  "'x service \<Rightarrow> string \<Rightarrow> generation_request \<Rightarrow> string option \<Rightarrow> ('x, job_record) job_io" where
  "service_create_or_reuse_job sv job_id request project_id =
     bnd (service_create_or_reuse_job_without_enqueue sv job_id request project_id)
       (\<lambda>(created, was_created).
          if was_created then bnd (service_enqueue_job sv (jr_id created)) (\<lambda>_. ret created)
          else ret created)"

section \<open>Transitions\<close>

definition service_update_status ::
  "'x service \<Rightarrow> string \<Rightarrow> job_status \<Rightarrow> rat option \<Rightarrow> ('x, job_record option) job_io" where
  "service_update_status sv job_id status progress =
     bnd (repo_update_status job_id status progress) (\<lambda>updated.
       case updated of
         None \<Rightarrow> ret None
       | Some job \<Rightarrow>
           bnd (publish sv (status_event status) (job_payload job)) (\<lambda>_. ret (Some job)))"

definition text_json :: "string option \<Rightarrow> json" where
  "text_json t = (case t of None \<Rightarrow> JNull | Some s \<Rightarrow> JStr s)"

definition service_mark_failed :: "'x service \<Rightarrow> string \<Rightarrow> string \<Rightarrow> ('x, job_record option) job_io" where
  "service_mark_failed sv job_id message =
     bnd (repo_update_if_status job_id ACTIVE_JOB_STATUSES
            (no_patch\<lparr>pt_status := Some Failed, pt_progress := Some 1,
               pt_error_message := Some (Some message)\<rparr>)) (\<lambda>updated.
       case updated of
         None \<Rightarrow> repo_get job_id
       | Some job \<Rightarrow>
           bnd (publish sv ''job_failed''
                  (job_payload job @ [(''error_message'', text_json (jr_error_message job))]))
             (\<lambda>_. ret (Some job)))"

definition normalize_result :: "string \<Rightarrow> generation_result \<Rightarrow> generation_result" where
  "normalize_result job_id result =
     result\<lparr>res_job_id := job_id, res_status := Succeeded, res_error_message := None\<rparr>"

definition result_outputs :: "job_record \<Rightarrow> json" where
  "result_outputs job =
     JArr (case jr_result job of None \<Rightarrow> [] | Some r \<Rightarrow> map JStr (res_outputs r))"

definition service_mark_succeeded ::
  "'x service \<Rightarrow> string \<Rightarrow> generation_result \<Rightarrow> ('x, job_record option) job_io" where
  "service_mark_succeeded sv job_id result =
     bnd (repo_update_if_status job_id SUCCEEDABLE_JOB_STATUSES
            (no_patch\<lparr>pt_status := Some Succeeded, pt_progress := Some 1,
               pt_result := Some (Some (normalize_result job_id result)),
               pt_error_message := Some None\<rparr>)) (\<lambda>updated.
       case updated of
         None \<Rightarrow> repo_get job_id
       | Some job \<Rightarrow>
           bnd (case sv_sync_job sv of None \<Rightarrow> ret () | Some sync \<Rightarrow> sync job) (\<lambda>_.
           bnd (publish sv ''job_succeeded'' (job_payload job @ [(''outputs'', result_outputs job)]))
             (\<lambda>_. ret (Some job))))"

text \<open>
  The loop of \<open>cancel_job\<close>. Each round reads the job and tries one compare-and-set; a round that
  loses it reads again.
\<close>

datatype cancel_outcome =
  Cancel_missing
| Cancel_seen job_record
| Cancel_changed job_record

fun cancel_rounds :: "nat \<Rightarrow> string \<Rightarrow> ('x, cancel_outcome) job_io" where
  "cancel_rounds 0 job_id = raise Out_of_fuel"
| "cancel_rounds (Suc n) job_id =
     bnd (repo_get job_id) (\<lambda>found.
       case found of
         None \<Rightarrow> ret Cancel_missing
       | Some job \<Rightarrow>
           (case cancel_target (jr_status job) of
              None \<Rightarrow> ret (Cancel_seen job)
            | Some target \<Rightarrow>
                bnd (repo_update_if_status job_id [jr_status job] (cancel_patch target)) (\<lambda>updated.
                  case updated of
                    Some job' \<Rightarrow> ret (Cancel_changed job')
                  | None \<Rightarrow> cancel_rounds n job_id)))"

definition CANCEL_ROUNDS :: nat where "CANCEL_ROUNDS = 5"

definition signal_cancel :: "'x service \<Rightarrow> string \<Rightarrow> ('x, unit) job_io" where
  "signal_cancel sv job_id =
     (if sv_cancellation sv then with_registry (\<lambda>r. ((), registry_request_cancel job_id r)) else ret ())"

definition service_cancel_job :: "'x service \<Rightarrow> string \<Rightarrow> ('x, job_record option) job_io" where
  "service_cancel_job sv job_id =
     bnd (cancel_rounds CANCEL_ROUNDS job_id) (\<lambda>outcome.
       case outcome of
         Cancel_missing \<Rightarrow> ret None
       | Cancel_seen job \<Rightarrow> bnd (signal_cancel sv job_id) (\<lambda>_. ret (Some job))
       | Cancel_changed job \<Rightarrow>
           bnd (signal_cancel sv job_id) (\<lambda>_.
           bnd (publish sv (status_event (jr_status job)) (job_payload job)) (\<lambda>_. ret (Some job))))"

definition service_finalize_cancellation :: "'x service \<Rightarrow> string \<Rightarrow> ('x, job_record option) job_io" where
  "service_finalize_cancellation sv job_id =
     bnd (repo_update_if_status job_id [Cancel_requested]
            (no_patch\<lparr>pt_status := Some Cancelled, pt_progress := Some 1\<rparr>)) (\<lambda>updated.
       case updated of
         None \<Rightarrow> repo_get job_id
       | Some job \<Rightarrow>
           bnd (publish sv ''job_cancelled'' (job_payload job)) (\<lambda>_. ret (Some job)))"

section \<open>Every operation follows the lifecycle\<close>

text \<open>What is asked of the collaborators: they change jobs as the repository does.\<close>

definition service_ok :: "'x service \<Rightarrow> bool" where
  "service_ok sv \<longleftrightarrow>
     (\<forall>s e. holds_along evolves (sv_deliver sv s e)) \<and>
     (\<forall>sync j. sv_sync_job sv = Some sync \<longrightarrow> holds_along evolves (sync j))"

lemma along_service_publish [along]: "service_ok sv \<Longrightarrow> holds_along evolves (publish sv event_type payload)"
  unfolding publish_def by (intro along_steps along_publish) (auto simp: service_ok_def)

lemma along_queue_enqueue [along]: "holds_along evolves (queue_enqueue job_id lane)"
  unfolding queue_enqueue_def
  by (intro along_with_queue) (auto simp: queue_step_ok_def intro: queue_kept_enqueue split: sum.splits)

lemma along_check_references [along]: "holds_along evolves (check_references sv request project_id)"
  unfolding check_references_def by (intro along_steps)

lemma along_sync [along]:
  "service_ok sv \<Longrightarrow>
   holds_along evolves (case sv_sync_job sv of None \<Rightarrow> ret () | Some sync \<Rightarrow> sync job)"
  by (auto simp: service_ok_def split: option.splits intro: evolving.along_rules)

lemma along_enqueue_job [along]: "service_ok sv \<Longrightarrow> holds_along evolves (service_enqueue_job sv job_id)"
  unfolding service_enqueue_job_def by (intro along_steps along)

lemma along_create [along]:
  assumes "service_ok sv"
  shows "holds_along evolves (service_create_job sv uuid request project_id)"
    and "holds_along evolves (service_create_or_reuse_job_without_enqueue sv job_id request project_id)"
    and "holds_along evolves (service_create_or_reuse_job sv job_id request project_id)"
proof -
  show "holds_along evolves (service_create_job sv uuid request project_id)"
    unfolding service_create_job_def by (intro along_steps along assms fresh_new_job)
  show reuse: "holds_along evolves (service_create_or_reuse_job_without_enqueue sv job_id request project_id)"
    unfolding service_create_or_reuse_job_without_enqueue_def by (intro along_steps along assms fresh_new_job)
  show "holds_along evolves (service_create_or_reuse_job sv job_id request project_id)"
    unfolding service_create_or_reuse_job_def by (intro along_steps along reuse assms)
qed

lemma along_transitions [along]:
  assumes "service_ok sv"
  shows "holds_along evolves (service_update_status sv job_id status progress)"
    and "holds_along evolves (service_mark_failed sv job_id message)"
    and "holds_along evolves (service_mark_succeeded sv job_id result)"
    and "holds_along evolves (service_finalize_cancellation sv job_id)"
  unfolding service_update_status_def service_mark_failed_def service_mark_succeeded_def
    service_finalize_cancellation_def
  by (intro along_steps along assms)+

lemma along_cancel_rounds [along]: "holds_along evolves (cancel_rounds n job_id)"
  by (induction n) (auto intro!: along_steps along)

lemma along_signal_cancel [along]: "holds_along evolves (signal_cancel sv job_id)"
  unfolding signal_cancel_def
  by (intro along_steps along_with_registry) (simp add: registry_ok_cancel)

lemma along_cancel_job [along]: "service_ok sv \<Longrightarrow> holds_along evolves (service_cancel_job sv job_id)"
  unfolding service_cancel_job_def
  by (rule evolving.along_bnd, rule along_cancel_rounds, rename_tac outcome, case_tac outcome)
    (auto intro!: along_steps along)

section \<open>Outcomes\<close>

lemma has_status: "pt_status p = Some s \<Longrightarrow> p \<noteq> no_patch"
  by (auto simp: no_patch_def)

lemma patch_set [simp]:
  "p\<lparr>pt_status := Some s\<rparr> \<noteq> no_patch" "p\<lparr>pt_status := Some s, pt_progress := a\<rparr> \<noteq> no_patch"
  "p\<lparr>pt_status := Some s, pt_progress := a, pt_error_message := m\<rparr> \<noteq> no_patch"
  "p\<lparr>pt_status := Some s, pt_progress := a, pt_result := r, pt_error_message := m\<rparr> \<noteq> no_patch"
  by (rule has_status, simp)+

lemma cancel_patch_status [simp]: "pt_status (cancel_patch t) = Some t" "cancel_patch t \<noteq> no_patch"
  by (simp_all add: cancel_patch_def)

lemma publish_returns: "publish sv t p w = (r, w') \<Longrightarrow> r = Inr ()"
proof -
  have deliver: "deliver_all d e ss v = (q, v') \<Longrightarrow> q = Inr ()" for d e ss and v v' :: "'a world_scheme" and q
    using deliver_all_returns [of d e ss v] by simp
  show "publish sv t p w = (r, w') \<Longrightarrow> r = Inr ()"
    by (auto simp: publish_def bus_publish_def atomic_def Let_def split: if_splits
        elim!: bnd_runs dest!: deliver)
qed

lemma repo_get_exn: "repo_get job_id w = (Inl e, w') \<Longrightarrow> e = Sqlite_error \<or> (\<exists>reason. e = Decode_error job_id reason)"
  by (erule repo_get_runs) auto

lemma repo_update_guarded_exn:
  assumes "repo_update_guarded job_id p expected w = (Inl e, w')" and "p \<noteq> no_patch"
  shows "e = Sqlite_error \<or> (\<exists>reason. e = Decode_error job_id reason)"
  using assms by (cases rule: repo_update_guarded_runs) (auto dest: repo_get_exn)

text \<open>The status of a job has come at least as far as a rank.\<close>

definition ahead :: "nat \<Rightarrow> string \<Rightarrow> 'x world_scheme \<Rightarrow> bool" where
  "ahead k job_id w \<longleftrightarrow> (\<exists>s. status_of job_id w = Some s \<and> k \<le> status_rank s)"

lemma ahead_evolves: "ahead k job_id w \<Longrightarrow> evolves w w' \<Longrightarrow> ahead k job_id w'"
proof -
  assume "ahead k job_id w" and ev: "evolves w w'"
  then obtain s where s: "status_of job_id w = Some s" "k \<le> status_rank s" by (auto simp: ahead_def)
  obtain t where "status_of job_id w' = Some t" "is_valid_transition\<^sup>*\<^sup>* s t"
    using ev s(1) by (rule status_of_follows)
  with s(2) job_life.reach_ranks [of s t] show "ahead k job_id w'" by (auto simp: ahead_def)
qed

lemma cancel_target_rank: "cancel_target s = Some t \<Longrightarrow> status_rank s \<le> 3 \<and> is_valid_transition s t"
  by (cases s) (auto simp: cancel_target_def status_rank_def status_simps split: if_splits)

lemma lost_round_ahead:
  assumes "stands job_id j w1" and "evolves w1 w2" and "cancel_target (jr_status j) = Some t"
    and "pt_status p = Some t" and "refused job_id p (Some [jr_status j]) w2"
  shows "ahead (status_rank (jr_status j) + 1) job_id w2"
proof -
  have "status_of job_id w1 = Some (jr_status j)" using assms(1) by (rule stands_facts)
  with assms(2) obtain u where u: "status_of job_id w2 = Some u" "is_valid_transition\<^sup>*\<^sup>* (jr_status j) u"
    by (rule status_of_follows)
  have "u \<noteq> jr_status j"
    using refused_status [OF assms(5,4) u(1)] cancel_target_rank [OF assms(3)] by auto
  then have "status_rank (jr_status j) < status_rank u" using job_life.reach_ranks [OF u(2)] by auto
  with u(1) show ?thesis by (auto simp: ahead_def)
qed

lemma cancel_rounds_enough:
  "\<lbrakk>5 \<le> n + k; 1 \<le> n; k = 0 \<or> ahead k job_id w\<rbrakk> \<Longrightarrow> cancel_rounds n job_id w \<noteq> (Inl Out_of_fuel, w')"
proof (induction n arbitrary: k w)
  case (Suc n)
  show ?case
  proof
    assume "cancel_rounds (Suc n) job_id w = (Inl Out_of_fuel, w')"
    then show False
      unfolding cancel_rounds.simps
    proof (cases rule: bnd_runs)
      case (raised e)
      then show False using repo_get_exn by fastforce
    next
      case (went_on found w1)
      then obtain job where found: "found = Some job" by (cases found) auto
      with went_on(2) obtain target where target: "cancel_target (jr_status job) = Some target"
        by (cases "cancel_target (jr_status job)") auto
      have st: "stands job_id job w1" using went_on(1) found repo_get_found by blast
      have w1: "evolves w w1" using went_on(1) by (rule along_runs [rotated]) (intro along)
      let ?p = "cancel_patch target"
      from went_on(2) found target
      have "bnd (repo_update_guarded job_id ?p (Some [jr_status job]))
          (\<lambda>updated. case updated of Some job' \<Rightarrow> ret (Cancel_changed job') | None \<Rightarrow> cancel_rounds n job_id)
          w1 = (Inl Out_of_fuel, w')"
        by (simp add: repo_update_if_status_def cong: option.case_cong)
      then show False
      proof (cases rule: bnd_runs)
        case (raised e)
        then show False using repo_update_guarded_exn by fastforce
      next
        case (went_on updated w2)
        then have none: "updated = None" by (cases updated) auto
        have pne: "?p \<noteq> no_patch" by simp
        from went_on(1) pne none have ref: "refused job_id ?p (Some [jr_status job]) w2"
          by (cases rule: repo_update_guarded_runs) auto
        have "evolves w1 w2" using went_on(1) by (rule along_runs [rotated]) (intro along)
        from lost_round_ahead [OF st this target _ ref]
        have "ahead (status_rank (jr_status job) + 1) job_id w2" by simp
        moreover have "k \<le> status_rank (jr_status job)"
          using Suc.prems(3)
        proof
          assume "ahead k job_id w"
          then have "ahead k job_id w1" using w1 by (rule ahead_evolves)
          with stands_facts(2) [OF st] show ?thesis by (simp add: ahead_def)
        qed simp
        moreover have "status_rank (jr_status job) \<le> 3" using cancel_target_rank [OF target] by simp
        ultimately have "cancel_rounds n job_id w2 \<noteq> (Inl Out_of_fuel, w')"
          using Suc.prems(1) by (intro Suc.IH [of "status_rank (jr_status job) + 1"]) auto
        with went_on(2) none show False by simp
      qed
    qed
  qed
qed simp

text \<open>A cancelled or changed outcome is settled, whatever happened since.\<close>

lemma cancel_rounds_outcome:
  "cancel_rounds n job_id w = (Inr outcome, w') \<Longrightarrow>
     (case outcome of
        Cancel_missing \<Rightarrow> \<not> present job_id w
      | Cancel_seen job \<Rightarrow> stands job_id job w' \<and> jr_status job \<in> SETTLED
      | Cancel_changed job \<Rightarrow> stands job_id job w' \<and> jr_status job \<in> CANCELLING)"
proof (induction n arbitrary: w)
  case (Suc n)
  from Suc.prems show ?case
    unfolding cancel_rounds.simps
  proof (cases rule: bnd_runs)
    case (went_on found w1)
    have w1: "evolves w w1" using went_on(1) by (rule along_runs [rotated]) (intro along)
    show ?thesis
    proof (cases found)
      case None
      with went_on(1) have "\<not> present job_id w1" using repo_get_absent by blast
      with w1 None went_on(2) show ?thesis using present_evolves by auto
    next
      case (Some job)
      then have st: "stands job_id job w1" using went_on(1) repo_get_found by blast
      show ?thesis
      proof (cases "cancel_target (jr_status job)")
        case None
        then have "jr_status job \<in> SETTLED"
          by (cases "jr_status job") (auto simp: cancel_target_def SETTLED_def)
        with None Some went_on(2) st show ?thesis by simp
      next
        case target: (Some target)
        let ?p = "cancel_patch target"
        have t: "target \<in> CANCELLING"
          using target by (auto simp: cancel_target_def CANCELLING_def split: if_splits)
        from went_on(2) Some target
        have "bnd (repo_update_guarded job_id ?p (Some [jr_status job]))
            (\<lambda>updated. case updated of Some job' \<Rightarrow> ret (Cancel_changed job') | None \<Rightarrow> cancel_rounds n job_id)
            w1 = (Inr outcome, w')"
          by (simp add: repo_update_if_status_def cong: option.case_cong)
        then show ?thesis
        proof (cases rule: bnd_runs)
          case inner: (went_on updated w2)
          have w2: "evolves w1 w2" using inner(1) by (rule along_runs [rotated]) (intro along)
          show ?thesis
          proof (cases updated)
            case None
            with inner(2) have "cancel_rounds n job_id w2 = (Inr outcome, w')" by simp
            from Suc.IH [OF this] show ?thesis
              using present_evolves [OF _ evolving.R_trans [OF w1 w2]] by (cases outcome) auto
          next
            case changed: (Some job')
            have pne: "?p \<noteq> no_patch" by simp
            from inner(1) pne changed obtain wm where
              "took job_id ?p (Some [jr_status job]) wm" "evolves wm w2" "stands job_id job' w2"
              by (cases rule: repo_update_guarded_runs) auto
            then have "status_of job_id wm = Some target" using took_status by fastforce
            with t have "seen job_id CANCELLING wm" by (auto simp: seen_def)
            then have "seen job_id CANCELLING w2"
              using \<open>evolves wm w2\<close> lasting_sets(1) seen_evolves by blast
            with \<open>stands job_id job' w2\<close> inner(2) changed show ?thesis
              using stands_facts(4) by auto
          qed
        qed simp
      qed
    qed
  qed simp
qed simp

lemma reuse_request_eq: "request_eq (jr_request (stored (new_job job_id project_id r now))) r" if "request_ok r"
  using request_eq_dump [OF that] by (simp add: stored_def new_job_def)

lemma db_insert_runs:
  assumes "db_insert row w = (r, w')"
  obtains (fault) "r = Inl Sqlite_error" and "w' = interfere w"
  | (taken) "r = Inl Integrity_error" and "w' = interfere w" and "present (col_id row) w'"
  | (inserted) "r = Inr ()" and "\<not> present (col_id row) (interfere w)"
      and "row_find (col_id row) (w_jobs w') = Some row"
proof (cases "t_fault (next_tick w)")
  case True
  with assms fault show thesis by (simp add: db_insert_def transaction_def atomic_def)
next
  case False
  show thesis
  proof (cases "row_find (col_id row) (w_jobs (interfere w))")
    case None
    with False have "db_insert row w = (Inr (), interfere w\<lparr>w_jobs := w_jobs (interfere w) @ [row]\<rparr>)"
      by (simp add: db_insert_def transaction_def atomic_def sql_insert_def)
    moreover have "row_find (col_id row) (w_jobs (interfere w) @ [row]) = Some row"
      using None by (simp add: row_find_append) (simp add: row_find_def)
    ultimately show thesis using assms None inserted by (auto simp: present_def)
  next
    case (Some other)
    with False have "db_insert row w = (Inl Integrity_error, interfere w)"
      by (simp add: db_insert_def transaction_def atomic_def sql_insert_def)
    with assms Some taken show thesis by (auto simp: present_def)
  qed
qed

text \<open>Created means: absent before, and the record that was inserted.\<close>

lemma repo_create_Inr:
  assumes "repo_create job w = (Inr j, w')"
  shows "\<not> present (jr_id job) w \<and> stands (jr_id job) j w' \<and> jr_request j = dump_request (jr_request job)"
proof -
  from assms show ?thesis
    unfolding repo_create_def
  proof (cases rule: bnd_runs)
    case (went_on u w1)
    from went_on(1) have ins: "\<not> present (jr_id job) (interfere w)"
      "row_find (jr_id job) (w_jobs w1) = Some (record_to_row job)"
      by (cases rule: db_insert_runs; simp add: row_simps)+
    from went_on(2) show ?thesis
    proof (cases rule: bnd_runs)
      case get: (went_on created w2)
      then have created: "created = Some j" "w2 = w'" by (cases created; simp)+
      then have st: "stands (jr_id job) j w'" using get(1) repo_get_found by blast
      have "request_of (jr_id job) w1 = Some (dump_request (jr_request job))"
        using ins(2) by (simp add: request_of_def record_to_row_def)
      moreover have "evolves w1 w2" using get(1) by (rule along_runs [rotated]) (intro along)
      ultimately have "request_of (jr_id job) w' = Some (dump_request (jr_request job))"
        using created(2) request_of_evolves by blast
      with stands_request [OF st] have "jr_request j = dump_request (jr_request job)" by simp
      moreover have "\<not> present (jr_id job) w"
        using ins(1) present_evolves interfere_evolves by blast
      ultimately show ?thesis using st by simp
    qed simp
  qed simp
qed

lemma repo_create_if_absent_Inr:
  assumes "repo_create_if_absent job w = (Inr (j, c), w')"
  shows "stands (jr_id job) j w' \<and>
    (c \<longrightarrow> \<not> present (jr_id job) w \<and> jr_request j = dump_request (jr_request job))"
  using assms unfolding repo_create_if_absent_def
proof (cases rule: catch_runs)
  case (passed x)
  from passed(1) show ?thesis
  proof (cases rule: bnd_runs)
    case (went_on created w1)
    with passed(2) repo_create_Inr [OF went_on(1)] show ?thesis by simp
  qed simp
next
  case (handled e w1)
  show ?thesis
  proof (cases "e = Integrity_error")
    case True
    with handled(2) have "bnd (repo_get (jr_id job)) (\<lambda>existing.
        case existing of None \<Rightarrow> raise Integrity_error | Some j \<Rightarrow> ret (j, False)) w1 = (Inr (j, c), w')" by simp
    then show ?thesis
    proof (cases rule: bnd_runs)
      case (went_on existing w2)
      then show ?thesis using repo_get_found by (cases existing) auto
    qed simp
  next
    case False
    with handled(2) show ?thesis by simp
  qed
qed

section \<open>Properties\<close>

text \<open>
  C17: a cancel request always returns. The loop of \<open>cancel_job\<close> re-reads after every lost
  compare-and-set; since each loss means that another thread moved the job forward, five rounds
  are enough under every schedule, and the count never runs out.
\<close>

theorem cancel_job_terminates: "fst (service_cancel_job sv job_id w) \<noteq> Inl Out_of_fuel"
proof
  assume "fst (service_cancel_job sv job_id w) = Inl Out_of_fuel"
  then obtain w' where "service_cancel_job sv job_id w = (Inl Out_of_fuel, w')"
    by (cases "service_cancel_job sv job_id w") auto
  then show False
    unfolding service_cancel_job_def
  proof (cases rule: bnd_runs)
    case (raised e)
    then show False using cancel_rounds_enough [of CANCEL_ROUNDS 0 job_id w w'] by (simp add: CANCEL_ROUNDS_def)
  next
    case (went_on outcome w1)
    have quiet: "signal_cancel sv job_id u \<noteq> (Inl e, u')" for u u' e
      by (simp add: signal_cancel_def with_registry_def atomic_def)
    have silent: "publish sv t p u \<noteq> (Inl e, u')" for t p u u' e
      using publish_returns by blast
    from went_on(2) quiet silent show False
      by (cases outcome) (auto elim!: bnd_runs)
  qed
qed

text \<open>
  C13: after a cancel request a job can no longer be finished by its worker. When \<open>cancel_job\<close>
  returns a job, that job is its argument's, its status asks for or settles the end, and if it
  was not already succeeded then the job never succeeds afterwards: it stays cancelled, failed
  or waiting for its cancellation. When it returns nothing the job did not exist. This holds for
  every schedule of the other threads and every placement of database failures.
\<close>

theorem cancel_job_settles:
  assumes "service_cancel_job sv job_id w = (Inr found, w')" and "service_ok sv"
  shows "case found of
           None \<Rightarrow> \<not> present job_id w
         | Some job \<Rightarrow>
             jr_id job = job_id \<and> jr_status job \<in> SETTLED \<and>
             (evolves w' w2 \<longrightarrow>
                seen job_id (if jr_status job = Succeeded then {Succeeded} else CANCELLING) w2)"
  using assms(1) unfolding service_cancel_job_def
proof (cases rule: bnd_runs)
  case (went_on outcome w1)
  have tail: "seen job_id (if jr_status job = Succeeded then {Succeeded} else CANCELLING) w2"
    if "stands job_id job w1" "jr_status job \<in> SETTLED" "evolves w1 w'" "evolves w' w2" for job
  proof -
    have "lasting (if jr_status job = Succeeded then {Succeeded} else CANCELLING)"
      by (simp add: lasting_sets)
    moreover have "seen job_id (if jr_status job = Succeeded then {Succeeded} else CANCELLING) w1"
      using that(2) unfolding stands_facts(4) [OF that(1)] by (auto simp: SETTLED_def CANCELLING_def)
    ultimately show ?thesis using that(3,4) evolving.R_trans seen_evolves by blast
  qed
  have sig: "holds_along evolves (signal_cancel sv job_id)" by (intro along)
  note out = cancel_rounds_outcome [OF went_on(1)]
  show ?thesis
  proof (cases outcome)
    case Cancel_missing
    with went_on(2) out show ?thesis by simp
  next
    case (Cancel_seen job)
    with went_on(2) have run: "bnd (signal_cancel sv job_id) (\<lambda>_. ret (Some job)) w1 = (Inr found, w')" by simp
    then have "found = Some job" by (cases rule: bnd_runs) auto
    moreover have "evolves w1 w'" using run by (rule along_runs [rotated]) (intro along_steps along)
    ultimately show ?thesis using out Cancel_seen tail stands_facts(1) by auto
  next
    case (Cancel_changed job)
    with went_on(2) have run: "bnd (signal_cancel sv job_id) (\<lambda>_.
        bnd (publish sv (status_event (jr_status job)) (job_payload job)) (\<lambda>_. ret (Some job))) w1 = (Inr found, w')"
      by simp
    then have "found = Some job" by (auto elim!: bnd_runs)
    moreover have "evolves w1 w'" using run by (rule along_runs [rotated]) (intro along_steps along assms)
    moreover have "jr_status job \<in> SETTLED" using out Cancel_changed by (auto simp: CANCELLING_def SETTLED_def)
    ultimately show ?thesis using out Cancel_changed tail stands_facts(1) by auto
  qed
qed simp

definition sample_service :: "'x service" where
  "sample_service =
     \<lparr>sv_publishes = True, sv_deliver = (\<lambda>_ _. raise (Collaborator_error ''subscriber'')), sv_sync_job = None,
      sv_cancellation = True, sv_lane_config = None,
      sv_references = \<lparr>re_asset_project = None, re_bible = None, re_get_manifest = None\<rparr>\<rparr>"

lemma sample_service_ok: "service_ok sample_service"
  by (auto simp: service_ok_def sample_service_def intro: evolving.along_rules)

theorem cancel_job_settles_witness:
  "\<exists>job w'. service_cancel_job sample_service ''job_1'' sample_world = (Inr (Some job), w') \<and>
     jr_status job = Cancelled \<and> jr_id job = ''job_1'' \<and> seen ''job_1'' CANCELLING w'"
proof -
  have eval: "case fst (service_cancel_job (sample_service :: unit service) ''job_1'' sample_world) of
      Inr (Some job) \<Rightarrow> jr_status job = Cancelled | _ \<Rightarrow> False"
    by code_simp
  obtain r w' where run: "service_cancel_job sample_service ''job_1'' sample_world = (r, w')"
    by (cases "service_cancel_job (sample_service :: unit service) ''job_1'' sample_world")
  with eval obtain job where "r = Inr (Some job)" "jr_status job = Cancelled"
    by (auto split: sum.splits option.splits)
  with run cancel_job_settles [of sample_service "''job_1''" sample_world "Some job" w' w'] sample_service_ok
    evolving.R_refl [of w']
  show ?thesis by auto
qed

text \<open>
  C18: creating or reusing a job by its id gives the one job of that id, with this request. A
  returned record has the id, and its request equals the given one; it is the request stored
  under that id from then on. The caller is told it created the job only when there was none
  before, so over any schedule at most one caller creates and enqueues it.
\<close>

theorem create_or_reuse_contract:
  assumes "service_create_or_reuse_job_without_enqueue sv job_id request project_id w = (Inr (job, created), w')"
    and "service_ok sv" and "request_ok request"
  shows "jr_id job = job_id \<and> request_eq (jr_request job) request \<and>
         request_of job_id w' = Some (jr_request job) \<and> (created \<longrightarrow> \<not> present job_id w)"
  using assms(1) unfolding service_create_or_reuse_job_without_enqueue_def
proof (cases rule: bnd_runs)
  case (went_on existing w1)
  have w1: "evolves w w1" using went_on(1) by (rule along_runs [rotated]) (intro along)
  show ?thesis
  proof (cases existing)
    case (Some old)
    then have st: "stands job_id old w1" using went_on(1) repo_get_found by blast
    from went_on(2) Some have "job = old" "\<not> created" "w' = w1" "request_eq (jr_request old) request"
      by (auto split: if_splits)
    with st show ?thesis using stands_facts(1) stands_request by auto
  next
    case None
    let ?tail = "\<lambda>(new, was_created).
             if \<not> was_created then
               (if \<not> request_eq (jr_request new) request then raise (mismatch job_id)
                else ret (new, False))
             else bnd (publish sv ''job_created'' (created_payload new)) (\<lambda>_. ret (new, True))"
    from went_on(2) None have
      "bnd (check_references sv request project_id) (\<lambda>_. bnd read_now (\<lambda>now.
         bnd (repo_create_if_absent (new_job job_id project_id request now)) ?tail)) w1 = (Inr (job, created), w')"
      by simp
    then obtain w2 now w3 new was w4 where
      steps: "check_references sv request project_id w1 = (Inr (), w2)" "read_now w2 = (Inr now, w3)"
        "repo_create_if_absent (new_job job_id project_id request now) w3 = (Inr (new, was), w4)"
      and tail: "?tail (new, was) w4 = (Inr (job, created), w')"
      by (auto elim!: bnd_runs)
    have "evolves w1 w2" using steps(1) by (rule along_runs [rotated]) (intro along)
    moreover have "evolves w2 w3" using steps(2) by (rule along_runs [rotated]) (intro along)
    ultimately have w3: "evolves w w3" using w1 evolving.R_trans by blast
    have made: "stands job_id new w4"
      "was \<Longrightarrow> \<not> present job_id w3 \<and> jr_request new = dump_request request"
      using repo_create_if_absent_Inr [OF steps(3)] by (auto simp: new_job_def)
    show ?thesis
    proof (cases was)
      case False
      with tail have "job = new" "\<not> created" "w' = w4" "request_eq (jr_request new) request"
        by (auto split: if_splits)
      with made(1) show ?thesis using stands_facts(1) stands_request by auto
    next
      case True
      with tail have run: "bnd (publish sv ''job_created'' (created_payload new)) (\<lambda>_. ret (new, True)) w4 =
          (Inr (job, created), w')" by simp
      then have "job = new" by (auto elim!: bnd_runs)
      have "evolves w4 w'" using run by (rule along_runs [rotated]) (intro along_steps along assms)
      then have "request_of job_id w' = Some (jr_request new)"
        using stands_request [OF made(1)] request_of_evolves by blast
      moreover have "\<not> present job_id w" using made(2) True w3 present_evolves by blast
      ultimately show ?thesis
        using \<open>job = new\<close> made True stands_facts(1) request_eq_dump [OF assms(3)] by auto
    qed
  qed
qed simp

theorem create_or_reuse_contract_witness:
  "\<exists>job created w'. service_create_or_reuse_job_without_enqueue sample_service ''job_1'' sample_job_request None
       sample_world = (Inr (job, created), w') \<and>
     request_eq (jr_request job) sample_job_request \<and> \<not> created"
proof -
  let ?run = "service_create_or_reuse_job_without_enqueue (sample_service :: unit service) ''job_1''
      sample_job_request None sample_world"
  have eval: "case fst ?run of Inr (job, created) \<Rightarrow> \<not> created | _ \<Rightarrow> False"
    by code_simp
  obtain r w' where run: "?run = (r, w')" by (cases ?run)
  with eval obtain job where job: "?run = (Inr (job, False), w')"
    by (auto split: sum.splits)
  have "request_ok sample_job_request" by (simp add: request_ok_def sample_job_request_def)
  with create_or_reuse_contract [OF job sample_service_ok] job show ?thesis by blast
qed

end
