(* ===== verification/Poison_Quarantine.thy ===== *)
theory Poison_Quarantine imports Job_Service begin

text \<open>
  Rows that cannot be decoded: \<open>quarantine_poison_row_safely\<close> and
  \<open>quarantine_or_defer_for_batch_cancellation\<close> of \<open>core/jobs/startup_recovery.py\<close>, and the two
  decisions of \<open>core/batches/service.py\<close> that are taken for such a row under the batch
  repository's lock.

  What the recovery passes use of the batch service is the record \<open>batch_port\<close>. The batches and
  the lock of their repository are part of the world's extension; a decision runs between taking
  that lock and giving it back.
\<close>

section \<open>The batch service, as the recovery passes see it\<close>

text \<open>
  \<open>bp_find_owner\<close> is \<open>find_by_job_id_or_diagnose\<close>: whether the owning batch, if there is one, has
  a durable cancellation intent, and whether the answer is uncertain. \<open>bp_reconcile_child\<close> says
  whether the outcome was \<open>RETRYABLE_FAILURE\<close>. The scans give what they found and whether they
  were reliable. \<open>bp_acquire\<close> takes the repository's lock and gives whether this thread held it
  already; \<open>bp_release\<close> puts that back.
\<close>

record 'x batch_port =
  bp_find_owner :: "string \<Rightarrow> ('x, bool option \<times> bool) job_io"
  bp_reconcile_child :: "string \<Rightarrow> ('x, bool) job_io"
  bp_ownership_index :: "('x, string list \<times> bool) job_io"
  bp_resume_cancellations :: "('x, string list \<times> bool) job_io"
  bp_resume_stages :: "('x, string list) job_io"
  bp_list_tolerant :: "('x, bool) job_io"
  bp_acquire :: "'x world_scheme \<Rightarrow> bool \<times> 'x world_scheme"
  bp_release :: "bool \<Rightarrow> 'x world_scheme \<Rightarrow> 'x world_scheme"

text \<open>The lock is no part of what the pipeline's threads share.\<close>

definition same_base :: "'x world_scheme \<Rightarrow> 'x world_scheme \<Rightarrow> bool" where
  "same_base w w' \<longleftrightarrow> world.truncate w' = world.truncate w"

definition run_exclusive :: "'x batch_port \<Rightarrow> ('x, 'a) job_io \<Rightarrow> ('x, 'a) job_io" where
  "run_exclusive bp m = (\<lambda>w. case bp_acquire bp w of (outer, w1) \<Rightarrow> finally_do m (bp_release bp outer) w1)"

definition port_ok :: "'x batch_port \<Rightarrow> bool" where
  "port_ok bp \<longleftrightarrow>
     (\<forall>job_id. holds_along evolves (bp_find_owner bp job_id)) \<and>
     (\<forall>job_id. holds_along evolves (bp_reconcile_child bp job_id)) \<and>
     holds_along evolves (bp_ownership_index bp) \<and> holds_along evolves (bp_resume_cancellations bp) \<and>
     holds_along evolves (bp_resume_stages bp) \<and> holds_along evolves (bp_list_tolerant bp) \<and>
     (\<forall>w. same_base w (snd (bp_acquire bp w))) \<and> (\<forall>outer w. same_base w (bp_release bp outer w))"

definition optional_port_ok :: "'x batch_port option \<Rightarrow> bool" where
  "optional_port_ok batches \<longleftrightarrow> (\<forall>bp. batches = Some bp \<longrightarrow> port_ok bp)"

datatype child_verdict = Child_cancelled | Child_failed | Child_resolved | Child_no_parent | Child_uncertain

definition diagnose_and_transition_cancelled_poison_child ::
  "'x batch_port \<Rightarrow> string \<Rightarrow> string \<Rightarrow> ('x, child_verdict) job_io" where
  "diagnose_and_transition_cancelled_poison_child bp job_id reason =
     run_exclusive bp (bnd (bp_find_owner bp job_id) (\<lambda>(owner, uncertain).
       case owner of
         None \<Rightarrow> ret (if uncertain then Child_uncertain else Child_no_parent)
       | Some cancelling \<Rightarrow>
           bnd (repo_transition_if_status job_id [Queued] (if cancelling then Cancelled else Failed)
                  (Some 1) (Some (Some reason))) (\<lambda>ok.
             ret (if \<not> ok then Child_resolved else if cancelling then Child_cancelled else Child_failed))))"

datatype exposure = Exposed | Not_queued | Owner_cancelled | Owner_uncertain

definition authorize_recovered_queued_job ::
  "'x batch_port \<Rightarrow> 'x service \<Rightarrow> string \<Rightarrow> job_status \<Rightarrow> ('x, exposure) job_io" where
  "authorize_recovered_queued_job bp sv job_id job_status =
     run_exclusive bp (bnd (bp_find_owner bp job_id) (\<lambda>(owner, uncertain).
       if owner = None \<and> uncertain then ret Owner_uncertain
       else if owner = Some True then ret Owner_cancelled
       else if job_status \<noteq> Queued then ret Not_queued
       else bnd (service_enqueue_job sv job_id) (\<lambda>_. ret Exposed)))"

section \<open>Quarantine\<close>

definition INTERRUPTED_JOB_STATUSES :: "job_status list" where
  "INTERRUPTED_JOB_STATUSES = [Preparing, Running, Postprocessing]"

definition PROCESS_INTERRUPTED_REASON :: string where
  "PROCESS_INTERRUPTED_REASON =
     ''process_interrupted: job was still active when the process restarted; '' @
     ''the worker that owned it is confirmed gone.''"

text \<open>The outcomes, as the strings of the code name them.\<close>

datatype poison_outcome =
  Poison_missing | Poison_cancelled | Poison_failed | Poison_already_resolved
| Poison_left_terminal | Poison_invalid_status | Poison_transient | Poison_batch_uncertain

definition QUARANTINE_OUTCOMES_NEEDING_BATCH_CONVERGENCE :: "poison_outcome list" where
  "QUARANTINE_OUTCOMES_NEEDING_BATCH_CONVERGENCE =
     [Poison_cancelled, Poison_failed, Poison_already_resolved, Poison_left_terminal, Poison_invalid_status]"

definition quarantine_reason :: "exn \<Rightarrow> string" where
  "quarantine_reason e = ''Startup recovery: row could not be reconstructed: '' @ exn_text e"

text \<open>The disposition of a row by its raw status; \<open>left_untouched\<close> is the code's dead branch.\<close>

definition quarantine_by_status :: "string \<Rightarrow> string \<Rightarrow> raw_status \<Rightarrow> ('x, poison_outcome) job_io" where
  "quarantine_by_status job_id reason raw =
     (case raw of
        Known Cancel_requested \<Rightarrow>
          bnd (repo_transition_if_status job_id [Cancel_requested] Cancelled (Some 1) (Some (Some reason)))
            (\<lambda>ok. ret (if ok then Poison_cancelled else Poison_already_resolved))
      | Known s \<Rightarrow>
          if s \<in> set INTERRUPTED_JOB_STATUSES \<or> s = Queued then
            bnd (repo_transition_if_status job_id [s] Failed (Some 1) (Some (Some reason)))
              (\<lambda>ok. ret (if ok then Poison_failed else Poison_already_resolved))
          else ret Poison_left_terminal
      | Unknown _ \<Rightarrow>
          bnd (repo_quarantine_structurally_invalid_status job_id reason)
            (\<lambda>ok. ret (if ok then Poison_invalid_status else Poison_already_resolved)))"

definition quarantine_poison_row_safely :: "string \<Rightarrow> exn \<Rightarrow> ('x, poison_outcome) job_io" where
  "quarantine_poison_row_safely job_id e =
     catch
       (bnd (repo_get_raw_status job_id) (\<lambda>raw.
          case raw of None \<Rightarrow> ret Poison_missing
          | Some r \<Rightarrow> quarantine_by_status job_id (quarantine_reason e) r))
       (\<lambda>_. ret Poison_transient)"

text \<open>What the batch has already decided for a queued row, if it has.\<close>

fun decided :: "child_verdict \<Rightarrow> poison_outcome option" where
  "decided Child_uncertain = Some Poison_batch_uncertain"
| "decided Child_cancelled = Some Poison_cancelled"
| "decided Child_failed = Some Poison_failed"
| "decided Child_resolved = Some Poison_already_resolved"
| "decided Child_no_parent = None"

definition batch_precedence :: "'x batch_port option \<Rightarrow> string \<Rightarrow> exn \<Rightarrow> ('x, poison_outcome option) job_io" where
  "batch_precedence batches job_id e =
     bnd (repo_get_raw_status job_id) (\<lambda>raw.
       case batches of
         None \<Rightarrow> ret None
       | Some bp \<Rightarrow>
           if raw = Some (Known Queued) then
             bnd (diagnose_and_transition_cancelled_poison_child bp job_id (quarantine_reason e))
               (\<lambda>v. ret (decided v))
           else ret None)"

definition quarantine_or_defer_for_batch_cancellation ::
  "'x batch_port option \<Rightarrow> string \<Rightarrow> exn \<Rightarrow> ('x, poison_outcome) job_io" where
  "quarantine_or_defer_for_batch_cancellation batches job_id e =
     bnd (attempt (batch_precedence batches job_id e)) (\<lambda>r.
       case r of
         Inl _ \<Rightarrow> ret Poison_transient
       | Inr (Some outcome) \<Rightarrow> ret outcome
       | Inr None \<Rightarrow> quarantine_poison_row_safely job_id e)"

section \<open>Every step follows the lifecycle\<close>

lemma along_port:
  assumes "port_ok bp"
  shows "holds_along evolves (bp_find_owner bp job_id)" "holds_along evolves (bp_reconcile_child bp job_id)"
    "holds_along evolves (bp_ownership_index bp)" "holds_along evolves (bp_resume_cancellations bp)"
    "holds_along evolves (bp_resume_stages bp)" "holds_along evolves (bp_list_tolerant bp)"
  using assms by (simp_all add: port_ok_def)

lemma same_base_facts:
  assumes "same_base w w'"
  shows "w_jobs w' = w_jobs w" "w_queue w' = w_queue w" "w_bus w' = w_bus w" "w_registry w' = w_registry w"
    "w_assets w' = w_assets w" "w_stories w' = w_stories w" "w_ticks w' = w_ticks w"
  using assms by (simp_all add: same_base_def world.defs)

lemma same_base_evolves: "same_base w w' \<Longrightarrow> evolves w w'"
  by (intro evolves_shape) (simp_all add: keeps_shape_def same_base_facts)

lemma run_exclusive_runs:
  assumes "run_exclusive bp m w = (r, w')" and "port_ok bp"
  obtains w1 w2 where "same_base w w1" and "m w1 = (r, w2)" and "same_base w2 w'"
proof -
  obtain outer w1 where acquired: "bp_acquire bp w = (outer, w1)" by (cases "bp_acquire bp w")
  with assms(1) obtain w2 where body: "m w1 = (r, w2)" and released: "w' = bp_release bp outer w2"
    by (auto simp: run_exclusive_def elim: finally_runs)
  have "same_base w w1" "same_base w2 w'" using assms(2) acquired released by (auto simp: port_ok_def dest: spec [where x = w])
  with body show thesis by (intro that)
qed

lemma along_exclusive: "port_ok bp \<Longrightarrow> holds_along evolves m \<Longrightarrow> holds_along evolves (run_exclusive bp m)"
  unfolding holds_along_def [of _ "run_exclusive bp m"]
proof
  fix w
  assume ok: "port_ok bp" and m: "holds_along evolves m"
  obtain r w' where run: "run_exclusive bp m w = (r, w')" by (cases "run_exclusive bp m w")
  then obtain w1 w2 where "same_base w w1" "m w1 = (r, w2)" "same_base w2 w'" using ok by (rule run_exclusive_runs)
  note parts = this
  have "evolves w w2"
    using same_base_evolves [OF parts(1)] along_runs [OF m parts(2)] by (rule evolving.R_trans)
  then have "evolves w w'" using same_base_evolves [OF parts(3)] by (rule evolving.R_trans)
  with run show "evolves w (snd (run_exclusive bp m w))" by simp
qed

lemma along_diagnose [along]:
  "port_ok bp \<Longrightarrow> holds_along evolves (diagnose_and_transition_cancelled_poison_child bp job_id reason)"
  unfolding diagnose_and_transition_cancelled_poison_child_def
  by (intro along_exclusive along_steps along along_port | assumption)+

lemma along_authorize [along]:
  "port_ok bp \<Longrightarrow> service_ok sv \<Longrightarrow> holds_along evolves (authorize_recovered_queued_job bp sv job_id s)"
  unfolding authorize_recovered_queued_job_def
  by (intro along_exclusive along_steps along along_port | assumption)+

lemma along_quarantine_by_status [along]: "holds_along evolves (quarantine_by_status job_id reason raw)"
proof (cases raw)
  case (Known s)
  then show ?thesis
    by (cases s) (simp_all add: quarantine_by_status_def INTERRUPTED_JOB_STATUSES_def along_steps along)
next
  case (Unknown u)
  then show ?thesis by (simp add: quarantine_by_status_def along_steps along)
qed

lemma along_quarantine [along]:
  "holds_along evolves (quarantine_poison_row_safely job_id e)"
  "optional_port_ok batches \<Longrightarrow> holds_along evolves (batch_precedence batches job_id e)"
  "optional_port_ok batches \<Longrightarrow> holds_along evolves (quarantine_or_defer_for_batch_cancellation batches job_id e)"
proof -
  show one: "holds_along evolves (quarantine_poison_row_safely job_id e)" for job_id e
    unfolding quarantine_poison_row_safely_def by (intro along_steps along)
  show two: "optional_port_ok batches \<Longrightarrow> holds_along evolves (batch_precedence batches job_id e)" for batches job_id e
    unfolding batch_precedence_def optional_port_ok_def
    by (cases batches) (auto intro!: along_steps along)
  show "optional_port_ok batches \<Longrightarrow> holds_along evolves (quarantine_or_defer_for_batch_cancellation batches job_id e)"
    unfolding quarantine_or_defer_for_batch_cancellation_def by (intro along_steps one two)
qed

section \<open>What an outcome says\<close>

definition outcome_holds :: "poison_outcome \<Rightarrow> string \<Rightarrow> 'x world_scheme \<Rightarrow> bool" where
  "outcome_holds outcome job_id w =
     (case outcome of
        Poison_missing \<Rightarrow> \<not> present job_id w
      | Poison_cancelled \<Rightarrow> status_of job_id w = Some Cancelled
      | Poison_failed \<Rightarrow> status_of job_id w = Some Failed
      | Poison_invalid_status \<Rightarrow> status_of job_id w = Some Failed
      | Poison_left_terminal \<Rightarrow> seen job_id FINAL w
      | Poison_already_resolved \<Rightarrow> seen job_id NOT_QUEUED w
      | Poison_transient \<Rightarrow> True
      | Poison_batch_uncertain \<Rightarrow> True)"

definition raw_of :: "string \<Rightarrow> 'x world_scheme \<Rightarrow> raw_status option" where
  "raw_of job_id w = map_option col_status (row_find job_id (w_jobs w))"

lemma raw_of_Known: "raw_of job_id w = Some (Known s) \<longleftrightarrow> status_of job_id w = Some s"
  by (auto simp: raw_of_def status_of_def split: option.splits raw_status.splits)

lemma raw_of_None: "raw_of job_id w = None \<longleftrightarrow> \<not> present job_id w"
  by (auto simp: raw_of_def present_def)

lemma raw_of_evolves:
  assumes "raw_of job_id w = Some r" and "evolves w w'"
  shows "\<exists>r'. raw_of job_id w' = Some r' \<and> raw_follows r r'"
proof -
  obtain row where row: "row_find job_id (w_jobs w) = Some row" "col_status row = r"
    using assms(1) by (auto simp: raw_of_def)
  obtain row' where "row_find job_id (w_jobs w') = Some row'" "row_follows row row'"
    using assms(2) row(1) by (rule evolves_find)
  with row(2) show ?thesis by (auto simp: raw_of_def row_follows_def)
qed

lemma raw_status_runs:
  assumes "repo_get_raw_status job_id w = (r, w')"
  obtains (fault) "r = Inl Sqlite_error" | (found) "r = Inr (raw_of job_id w')"
  using assms unfolding repo_get_raw_status_def
  by (cases rule: db_read_cases) (auto simp: raw_of_def)

text \<open>A missed compare-and-set from a status says that the job has left it.\<close>

lemma transition_leaves:
  assumes "repo_transition_if_status job_id [s] target progress message w = (Inr ok, w')"
    and "status_of job_id w = Some s" and "is_valid_transition s target"
  shows "if ok then status_of job_id w' = Some target
     else \<exists>t. status_of job_id w' = Some t \<and> t \<noteq> s \<and> is_valid_transition\<^sup>*\<^sup>* s t"
proof (cases rule: repo_transition_runs [OF assms(1) list.distinct(2)])
  case 3
  have "evolves w w'" using assms(1) by (rule along_runs [OF along_repo_transition])
  then obtain t where t: "status_of job_id w' = Some t" "is_valid_transition\<^sup>*\<^sup>* s t"
    using assms(2) by (rule status_of_follows)
  with 3(3) [OF t(1)] 3(1) assms(3) show ?thesis by auto
qed auto

lemma invalid_status_repaired:
  assumes "repo_quarantine_structurally_invalid_status job_id message w = (Inr ok, w')"
    and "raw_of job_id w = Some (Unknown u)"
  shows "status_of job_id w' = Some Failed"
proof -
  have ev: "evolves w w'" using assms(1) by (rule along_runs [OF along_repo_quarantine])
  obtain raw where raw: "raw_of job_id w' = Some raw" "raw_follows (Unknown u) raw"
    using raw_of_evolves [OF assms(2) ev] by blast
  note run = assms(1) [unfolded repo_quarantine_structurally_invalid_status_def]
  have known: "raw \<noteq> Unknown u"
  proof (cases ok)
    case True
    with run have "db_update job_id status_unknown (quarantine_row message) w = (Inr True, w')" by simp
    then obtain row where
      "row_find job_id (w_jobs w') = Some (quarantine_row message (t_now (next_tick w)) row)"
      by (rule db_update_hit) (auto simp: row_simps)
    with raw(1) show ?thesis by (auto simp: raw_of_def row_simps)
  next
    case False
    obtain row where row: "row_find job_id (w_jobs w') = Some row" "col_status row = raw"
      using raw(1) by (auto simp: raw_of_def)
    have "db_update job_id status_unknown (quarantine_row message) w = (Inr False, w')" using run False by simp
    then have "\<not> status_unknown row"
      by (rule db_update_miss(2) [OF _ _ row(1)]) (simp add: row_simps)
    with row(2) show ?thesis by (auto simp: status_unknown_def raw_in_def)
  qed
  with raw show ?thesis by (auto simp: raw_follows_def raw_of_Known)
qed

lemma not_queued_after:
  "s \<noteq> Queued \<Longrightarrow> is_valid_transition\<^sup>*\<^sup>* s t \<Longrightarrow> t \<noteq> Queued"
  using lasting_reach [OF lasting_sets(4), of s t] by (auto simp: NOT_QUEUED_def)

lemma quarantine_by_status_holds:
  assumes "quarantine_by_status job_id reason raw w = (Inr outcome, w')" and "raw_of job_id w = Some raw"
  shows "outcome_holds outcome job_id w'"
proof (cases raw)
  case (Unknown u)
  with assms(1) obtain ok where
    "repo_quarantine_structurally_invalid_status job_id reason w = (Inr ok, w')"
    and "outcome = (if ok then Poison_invalid_status else Poison_already_resolved)"
    by (auto simp: quarantine_by_status_def elim!: bnd_runs)
  with invalid_status_repaired [of job_id reason w ok w' u] assms(2) Unknown show ?thesis
    by (auto simp: outcome_holds_def seen_def NOT_QUEUED_def)
next
  case (Known s)
  with assms(2) have here: "status_of job_id w = Some s" by (simp add: raw_of_Known)
  show ?thesis
  proof (cases "s \<in> set TERMINAL_JOB_STATUSES")
    case True
    with assms(1) Known have "outcome = Poison_left_terminal" "w' = w"
      by (auto simp: quarantine_by_status_def INTERRUPTED_JOB_STATUSES_def TERMINAL_JOB_STATUSES_def)
    with here True show ?thesis by (auto simp: outcome_holds_def seen_def FINAL_def TERMINAL_JOB_STATUSES_def)
  next
    case False
    let ?target = "if s = Cancel_requested then Cancelled else Failed"
    obtain ok where run: "repo_transition_if_status job_id [s] ?target (Some 1) (Some (Some reason)) w = (Inr ok, w')"
      and outcome: "outcome = (if ok then (if s = Cancel_requested then Poison_cancelled else Poison_failed)
                               else Poison_already_resolved)"
      using assms(1) Known False
      by (cases s) (auto simp: quarantine_by_status_def INTERRUPTED_JOB_STATUSES_def TERMINAL_JOB_STATUSES_def
        elim!: bnd_runs)
    have "is_valid_transition s ?target" using False by (cases s) (auto simp: status_simps)
    from transition_leaves [OF run here this] show ?thesis
      using not_queued_after [of s] outcome
      by (cases "s = Queued") (auto simp: outcome_holds_def seen_def NOT_QUEUED_def split: if_splits)
  qed
qed

lemma quarantine_safely_holds:
  "\<exists>outcome. fst (quarantine_poison_row_safely job_id e w) = Inr outcome \<and>
     outcome_holds outcome job_id (snd (quarantine_poison_row_safely job_id e w))"
proof -
  obtain r w' where run: "quarantine_poison_row_safely job_id e w = (r, w')"
    by (cases "quarantine_poison_row_safely job_id e w")
  from run [unfolded quarantine_poison_row_safely_def] show ?thesis
  proof (cases rule: catch_runs)
    case (passed outcome)
    from passed(1) obtain raw w1 where read: "repo_get_raw_status job_id w = (Inr raw, w1)"
      and rest: "(case raw of None \<Rightarrow> ret Poison_missing
          | Some r \<Rightarrow> quarantine_by_status job_id (quarantine_reason e) r) w1 = (Inr outcome, w')"
      by (auto elim: bnd_runs)
    from read have raw: "raw = raw_of job_id w1" by (cases rule: raw_status_runs) auto
    show ?thesis
    proof (cases raw)
      case None
      with rest raw run passed(2) show ?thesis by (simp add: outcome_holds_def raw_of_None [symmetric])
    next
      case (Some x)
      have "quarantine_by_status job_id (quarantine_reason e) x w1 = (Inr outcome, w')" using rest Some by simp
      moreover have "raw_of job_id w1 = Some x" using raw Some by simp
      ultimately have "outcome_holds outcome job_id w'" by (rule quarantine_by_status_holds)
      with run passed(2) show ?thesis by simp
    qed
  next
    case (handled f w1)
    with run show ?thesis by (simp add: outcome_holds_def)
  qed
qed

lemma outcome_holds_base: "outcome_holds outcome job_id w \<Longrightarrow> same_base w w' \<Longrightarrow> outcome_holds outcome job_id w'"
  by (cases outcome) (auto simp: outcome_holds_def present_def seen_def status_of_def raw_of_def same_base_facts)

lemma batch_precedence_holds:
  assumes "batch_precedence batches job_id e w = (Inr (Some outcome), w')" and "optional_port_ok batches"
  shows "outcome_holds outcome job_id w'"
proof -
  from assms(1) obtain bp raw w1 verdict where port: "batches = Some bp"
    and read: "repo_get_raw_status job_id w = (Inr raw, w1)" and queued: "raw = Some (Known Queued)"
    and diagnosis: "diagnose_and_transition_cancelled_poison_child bp job_id (quarantine_reason e) w1 = (Inr verdict, w')"
    and outcome: "decided verdict = Some outcome"
    by (auto simp: batch_precedence_def elim!: bnd_runs split: option.splits if_splits)
  from read have raw: "raw = raw_of job_id w1" by (cases rule: raw_status_runs) auto
  have port_ok: "port_ok bp" using assms(2) port by (simp add: optional_port_ok_def)
  from diagnosis port_ok obtain wa wz where locked: "same_base w1 wa" and unlocked: "same_base wz w'"
    and run: "bnd (bp_find_owner bp job_id) (\<lambda>(owner, uncertain).
       case owner of
         None \<Rightarrow> ret (if uncertain then Child_uncertain else Child_no_parent)
       | Some cancelling \<Rightarrow>
           bnd (repo_transition_if_status job_id [Queued] (if cancelling then Cancelled else Failed)
                  (Some 1) (Some (Some (quarantine_reason e)))) (\<lambda>ok.
             ret (if \<not> ok then Child_resolved else if cancelling then Child_cancelled else Child_failed))) wa =
      (Inr verdict, wz)"
    unfolding diagnose_and_transition_cancelled_poison_child_def by (rule run_exclusive_runs)
  have raw_a: "raw_of job_id wa = raw_of job_id w1" using locked by (simp add: raw_of_def same_base_facts)
  obtain owner uncertain w2 where find: "bp_find_owner bp job_id wa = (Inr (owner, uncertain), w2)"
    and rest: "(case owner of None \<Rightarrow> ret (if uncertain then Child_uncertain else Child_no_parent)
       | Some cancelling \<Rightarrow>
           bnd (repo_transition_if_status job_id [Queued] (if cancelling then Cancelled else Failed)
                  (Some 1) (Some (Some (quarantine_reason e)))) (\<lambda>ok.
             ret (if \<not> ok then Child_resolved else if cancelling then Child_cancelled else Child_failed))) w2 =
       (Inr verdict, wz)"
    using run by (elim bnd_runs) (auto split: prod.splits)
  have "outcome_holds outcome job_id wz"
  proof (cases owner)
    case None
    with rest outcome show ?thesis by (auto simp: outcome_holds_def split: if_splits)
  next
    case (Some cancelling)
    let ?target = "if cancelling then Cancelled else Failed"
    from Some rest obtain ok where
      cas: "repo_transition_if_status job_id [Queued] ?target (Some 1) (Some (Some (quarantine_reason e))) w2 = (Inr ok, wz)"
      and verdict: "verdict = (if \<not> ok then Child_resolved else if cancelling then Child_cancelled else Child_failed)"
      by (auto elim!: bnd_runs)
    have "holds_along evolves (bp_find_owner bp job_id)"
      using port_ok by (rule along_port(1))
    then have "evolves wa w2" using find by (rule along_runs)
    with raw raw_a queued obtain r' where "raw_of job_id w2 = Some r'" "raw_follows (Known Queued) r'"
      using raw_of_evolves by metis
    then obtain s where s: "status_of job_id w2 = Some s" by (auto simp: raw_follows_def raw_of_Known)
    have ev: "evolves w2 wz" using cas by (rule along_runs [OF along_repo_transition])
    have "outcome_holds (if ok then (if cancelling then Poison_cancelled else Poison_failed)
        else Poison_already_resolved) job_id wz"
    proof (cases "s = Queued")
      case True
      have "is_valid_transition Queued ?target" by (simp add: status_simps)
      from transition_leaves [OF cas s [unfolded True] this] show ?thesis
        by (auto simp: outcome_holds_def seen_def NOT_QUEUED_def split: if_splits)
    next
      case False
      then have "seen job_id NOT_QUEUED w2" using s by (simp add: seen_def NOT_QUEUED_def)
      then have moved: "seen job_id NOT_QUEUED wz" using lasting_sets(4) ev by (rule seen_evolves)
      from repo_transition_runs [OF cas list.distinct(2)] show ?thesis
        using moved by cases (auto simp: outcome_holds_def)
    qed
    with verdict outcome show ?thesis by (auto split: if_splits)
  qed
  then show ?thesis using unlocked by (rule outcome_holds_base)
qed

lemma quarantine_runs:
  assumes "quarantine_or_defer_for_batch_cancellation batches job_id e w = (r, w')"
    and "optional_port_ok batches"
  shows "\<exists>outcome. r = Inr outcome \<and> outcome_holds outcome job_id w'"
proof -
  obtain q w1 where first: "batch_precedence batches job_id e w = (q, w1)"
    by (cases "batch_precedence batches job_id e w")
  then have run: "(case q of Inl _ \<Rightarrow> ret Poison_transient | Inr (Some outcome) \<Rightarrow> ret outcome
      | Inr None \<Rightarrow> quarantine_poison_row_safely job_id e) w1 = (r, w')"
    using assms(1) by (simp add: quarantine_or_defer_for_batch_cancellation_def bnd_def attempt_def)
  show ?thesis
  proof (cases q)
    case (Inl f)
    with run show ?thesis by (simp add: outcome_holds_def)
  next
    case (Inr decision)
    show ?thesis
    proof (cases decision)
      case None
      with run Inr quarantine_safely_holds [of job_id e w1] show ?thesis by simp
    next
      case (Some outcome)
      with run Inr first batch_precedence_holds [of batches job_id e w outcome w1] assms(2) show ?thesis by simp
    qed
  qed
qed

lemma quarantine_holds:
  "quarantine_or_defer_for_batch_cancellation batches job_id e w = (Inr outcome, w') \<Longrightarrow>
   optional_port_ok batches \<Longrightarrow> outcome_holds outcome job_id w'"
  using quarantine_runs by fastforce

text \<open>
  C24: the disposition of an undecodable row never raises and never misreports. Whatever other
  threads do and wherever the database fails, it returns an outcome, and the outcome is true of
  the row when it returns: gone, cancelled, failed, already terminal, or (for
  \<open>already_resolved\<close>) at least no longer queued, so no worker can still start it.
\<close>

theorem quarantine_outcome_is_true:
  assumes "quarantine_or_defer_for_batch_cancellation batches job_id e w = (r, w')"
    and "optional_port_ok batches"
  shows "\<exists>outcome. r = Inr outcome \<and> outcome_holds outcome job_id w'"
  using assms by (rule quarantine_runs)

definition broken_row :: job_row where
  "broken_row = (record_to_row sample_job)\<lparr>col_request := Payload_broken ''Expecting value''\<rparr>"

definition broken_world :: "tick list \<Rightarrow> world" where
  "broken_world ticks = sample_world\<lparr>w_jobs := [broken_row], w_ticks := ticks\<rparr>"

definition cancelling_port :: "unit batch_port" where
  "cancelling_port =
     \<lparr>bp_find_owner = (\<lambda>_. ret (Some True, False)), bp_reconcile_child = (\<lambda>_. ret False),
      bp_ownership_index = ret ([], True), bp_resume_cancellations = ret ([], True),
      bp_resume_stages = ret [], bp_list_tolerant = ret True,
      bp_acquire = Pair False, bp_release = (\<lambda>_. id)\<rparr>"

lemma cancelling_port_ok: "optional_port_ok (Some cancelling_port)"
  by (simp add: optional_port_ok_def port_ok_def cancelling_port_def evolving.along_ret same_base_def)

theorem quarantine_outcome_is_true_witness:
  "fst (quarantine_or_defer_for_batch_cancellation (Some cancelling_port) ''job_1'' Os_error (broken_world [])) =
     Inr Poison_cancelled \<and>
   outcome_holds Poison_cancelled ''job_1''
     (snd (quarantine_or_defer_for_batch_cancellation (Some cancelling_port) ''job_1'' Os_error (broken_world [])))"
proof -
  let ?run = "quarantine_or_defer_for_batch_cancellation (Some cancelling_port) ''job_1'' Os_error (broken_world [])"
  have eval: "fst ?run = Inr Poison_cancelled" by code_simp
  from quarantine_outcome_is_true [OF prod.collapse [symmetric] cancelling_port_ok, of "''job_1''" Os_error "broken_world []"]
  obtain outcome where "fst ?run = Inr outcome" "outcome_holds outcome ''job_1'' (snd ?run)" by blast
  with eval show ?thesis by simp
qed

text \<open>
  \<open>already_resolved\<close> is not an outcome of a terminal row: a worker may have claimed the job
  between the look and the compare-and-set.
\<close>

lemma already_resolved_may_be_active:
  "let claim = quiet_tick\<lparr>t_acts := [Act_update ''job_1'' (Some [Queued]) (no_patch\<lparr>pt_status := Some Preparing\<rparr>)]\<rparr>;
       run = quarantine_or_defer_for_batch_cancellation None ''job_1'' Os_error
               (broken_world [quiet_tick, quiet_tick, claim]) :: (exn + poison_outcome) \<times> world in
   fst run = Inr Poison_already_resolved \<and> status_of ''job_1'' (snd run) = Some Preparing \<and>
   Poison_already_resolved \<in> set QUARANTINE_OUTCOMES_NEEDING_BATCH_CONVERGENCE"
  unfolding Let_def by code_simp

end
