(* ===== verification/Story_Repository.thy ===== *)
theory Story_Repository imports Job_Facts begin

text \<open>
  \<open>StoryRepository\<close> of \<open>core/story/repository.py\<close>: story documents, one JSON file each, and the
  read-modify-write every writer goes through.

  The repository's lock is held from the read to the save, so a mutation is one atomic step of
  the shared world: other threads act before it or after it. A plain read is one step, too. A
  file that exists may not be readable when it is read, which the step's tick says.
\<close>

section \<open>Reads\<close>

definition story_read :: "tick \<Rightarrow> string \<Rightarrow> story_document directory \<Rightarrow> story_document option" where
  "story_read t story_id dir = (if t_unreadable t then None else dir_get story_id dir)"

definition story_get :: "string \<Rightarrow> ('x, story_document option) job_io" where
  "story_get story_id = story_io (\<lambda>t dir. (story_read t story_id dir, dir))"

text \<open>The document, and whether its absence is certain; never an exception.\<close>

definition story_get_for_recovery :: "string \<Rightarrow> ('x, story_document option \<times> bool) job_io" where
  "story_get_for_recovery story_id =
     atomic (\<lambda>t w.
       (Inr (if t_fault t then (None, False)
             else if map_of (w_stories w) story_id = None then (None, True)
             else (story_read t story_id (w_stories w), False)), w))"

definition story_load :: "string \<Rightarrow> ('x, story_document list) job_io" where
  "story_load name =
     atomic (\<lambda>t w.
       (Inr (if t_fault t then []
             else (case story_read t name (w_stories w) of None \<Rightarrow> [] | Some s \<Rightarrow> [s])), w))"

definition story_list_all :: "string option \<Rightarrow> nat option \<Rightarrow> ('x, story_document list) job_io" where
  "story_list_all project_id limit =
     bnd (atomic (\<lambda>t w. (Inr (if t_fault t then [] else dir_names (w_stories w)), w))) (\<lambda>names.
     bnd (collect story_load names) (\<lambda>loads.
       ret ((case limit of None \<Rightarrow> id | Some n \<Rightarrow> take n)
         (rev (sort_key st_updated_at (rev
           (filter (\<lambda>s. case project_id of None \<Rightarrow> True | Some p \<Rightarrow> p = [] \<or> st_project_id s = Some p)
              (concat loads))))))))"

section \<open>Writes\<close>

text \<open>Two documents are equal when their dictionaries have the same content.\<close>

definition scene_eq :: "scene \<Rightarrow> scene \<Rightarrow> bool" where
  "scene_eq a b \<longleftrightarrow>
     a\<lparr>sc_asset_ids := []\<rparr> = b\<lparr>sc_asset_ids := []\<rparr> \<and>
     length (sc_asset_ids a) = length (sc_asset_ids b) \<and>
     (\<forall>(k, x) \<in> set (sc_asset_ids a). map_of (sc_asset_ids b) k = Some x)"

definition story_eq :: "story_document \<Rightarrow> story_document \<Rightarrow> bool" where
  "story_eq a b \<longleftrightarrow>
     a\<lparr>st_scenes := [], st_metadata := []\<rparr> = b\<lparr>st_scenes := [], st_metadata := []\<rparr> \<and>
     list_all2 scene_eq (st_scenes a) (st_scenes b) \<and> dict_eq (st_metadata a) (st_metadata b)"

definition story_save :: "story_document \<Rightarrow> ('x, story_document) job_io" where
  "story_save story =
     story_io (\<lambda>t dir.
       let saved = story\<lparr>st_updated_at := t_now t\<rparr> in (saved, dir_write (st_id saved) saved dir))"

definition story_mutate ::
  "string \<Rightarrow> (story_document option \<Rightarrow> exn + story_document option) \<Rightarrow> ('x, story_document option) job_io" where
  "story_mutate story_id f =
     atomic (\<lambda>t w.
       if t_fault t then (Inl Os_error, w)
       else
         (let current = story_read t story_id (w_stories w) in
          case f current of
            Inl e \<Rightarrow> (Inl e, w)
          | Inr None \<Rightarrow> (Inr None, w)
          | Inr (Some updated) \<Rightarrow>
              if (case current of None \<Rightarrow> False | Some c \<Rightarrow> story_eq updated c) then (Inr current, w)
              else
                (let saved = updated\<lparr>st_updated_at := t_now t\<rparr> in
                 (Inr (Some saved), w\<lparr>w_stories := dir_write (st_id updated) saved (w_stories w)\<rparr>))))"

text \<open>\<open>create\<close>, with the random part of the id and the fields given.\<close>

definition story_create :: "string \<Rightarrow> string list \<Rightarrow> story_document \<Rightarrow> ('x, story_document) job_io" where
  "story_create uuid unknown_fields given =
     (if unknown_fields \<noteq> [] then raise (Value_error ''Unknown story fields'')
      else if st_format given \<notin> set STORY_FORMATS then raise (Value_error ''Unknown story format'')
      else
        story_io (\<lambda>t dir.
          let story = given\<lparr>st_id := ''story_'' @ uuid, st_created_at := t_now t, st_updated_at := t_now t\<rparr> in
          (story, dir_write (st_id story) story dir)))"

text \<open>A patch leaves the fields the repository owns.\<close>

definition patched_story :: "(story_document \<Rightarrow> story_document) \<Rightarrow> story_document \<Rightarrow> story_document" where
  "patched_story given s =
     (given s)\<lparr>st_id := st_id s, st_created_at := st_created_at s, st_updated_at := st_updated_at s\<rparr>"

definition story_update ::
  "string \<Rightarrow> string list \<Rightarrow> (story_document \<Rightarrow> story_document) \<Rightarrow> ('x, story_document option) job_io" where
  "story_update story_id unknown_fields given =
     story_mutate story_id (\<lambda>story.
       case story of
         None \<Rightarrow> Inr None
       | Some s \<Rightarrow>
           if unknown_fields \<noteq> [] then Inl (Value_error ''Unknown story fields'')
           else Inr (Some (patched_story given s)))"

definition story_delete :: "string \<Rightarrow> ('x, bool) job_io" where
  "story_delete story_id =
     story_io (\<lambda>t dir.
       if map_of dir story_id = None then (False, dir) else (True, AList.delete story_id dir))"

section \<open>Every operation leaves the jobs to the lifecycle\<close>

lemma along_story_mutate [along]: "holds_along evolves (story_mutate story_id f)"
  unfolding story_mutate_def
  by (intro along_atomic)
    (auto simp: Let_def evolving.R_refl keeps_shape_def intro!: evolves_shape split: sum.splits option.splits)

lemma along_story_reads [along]:
  "holds_along evolves (story_get story_id)" "holds_along evolves (story_get_for_recovery story_id)"
  "holds_along evolves (story_load name)" "holds_along evolves (story_list_all project_id limit)"
proof -
  show "holds_along evolves (story_get story_id)" unfolding story_get_def by (intro along)
  show "holds_along evolves (story_get_for_recovery story_id)"
    unfolding story_get_for_recovery_def by (intro along_atomic) (simp add: evolving.R_refl)
  show load: "holds_along evolves (story_load name)" for name
    unfolding story_load_def by (intro along_atomic) (simp add: evolving.R_refl)
  show "holds_along evolves (story_list_all project_id limit)"
    unfolding story_list_all_def
    by (intro along_steps load along_atomic) (simp add: evolving.R_refl)
qed

lemma along_story_writes [along]:
  "holds_along evolves (story_save story)" "holds_along evolves (story_create uuid unknown_fields given)"
  "holds_along evolves (story_update story_id unknown_fields patch)" "holds_along evolves (story_delete story_id)"
  unfolding story_save_def story_create_def story_update_def story_delete_def by (intro along_steps along)+

section \<open>Equal documents\<close>

lemma scene_eq_refl: "distinct (map fst (sc_asset_ids s)) \<Longrightarrow> scene_eq s s"
  by (auto simp: scene_eq_def)

text \<open>What one mutation read, and what it does to the files.\<close>

definition story_seen :: "string \<Rightarrow> story_document directory \<Rightarrow> story_document option \<Rightarrow> bool" where
  "story_seen story_id dir current \<longleftrightarrow> current = None \<or> current = dir_get story_id dir"

lemma story_seen_read [simp]: "story_seen story_id dir (story_read t story_id dir)"
  by (simp add: story_seen_def story_read_def)

lemma story_mutate_runs:
  assumes "story_mutate story_id f w = (r, w')"
  obtains (fault) "r = Inl Os_error" and "w' = interfere w"
  | (refused) current e where "story_seen story_id (w_stories w') current" and "f current = Inl e"
      and "r = Inl e" and "w' = interfere w"
  | (declined) current where "story_seen story_id (w_stories w') current" and "f current = Inr None"
      and "r = Inr None" and "w' = interfere w"
  | (same) u c where "dir_get story_id (w_stories w') = Some c" and "f (Some c) = Inr (Some u)"
      and "story_eq u c" and "r = Inr (Some c)" and "w' = interfere w"
  | (saved) current u where "story_seen story_id (w_stories (interfere w)) current"
      and "f current = Inr (Some u)" and "r = Inr (Some (u\<lparr>st_updated_at := t_now (next_tick w)\<rparr>))"
      and "w' = interfere w\<lparr>w_stories :=
             dir_write (st_id u) (u\<lparr>st_updated_at := t_now (next_tick w)\<rparr>) (w_stories (interfere w))\<rparr>"
proof (cases "t_fault (next_tick w)")
  case True
  with assms show thesis by (intro fault) (auto simp: story_mutate_def atomic_def)
next
  case False
  define current where "current = story_read (next_tick w) story_id (w_stories (interfere w))"
  have seen: "story_seen story_id (w_stories (interfere w)) current" by (simp add: current_def)
  have run: "(case f current of
            Inl e \<Rightarrow> (Inl e, interfere w)
          | Inr None \<Rightarrow> (Inr None, interfere w)
          | Inr (Some u) \<Rightarrow>
              if (case current of None \<Rightarrow> False | Some c \<Rightarrow> story_eq u c) then (Inr current, interfere w)
              else (Inr (Some (u\<lparr>st_updated_at := t_now (next_tick w)\<rparr>)), interfere w\<lparr>w_stories :=
                dir_write (st_id u) (u\<lparr>st_updated_at := t_now (next_tick w)\<rparr>) (w_stories (interfere w))\<rparr>)) = (r, w')"
    using assms False unfolding story_mutate_def atomic_def current_def Let_def by simp
  show thesis
  proof (cases "f current")
    case (Inl e)
    with run seen show thesis by (intro refused [of current e]) auto
  next
    case (Inr q)
    show thesis
    proof (cases q)
      case None
      with Inr run seen show thesis by (intro declined [of current]) auto
    next
      case (Some u)
      show thesis
      proof (cases "case current of None \<Rightarrow> False | Some c \<Rightarrow> story_eq u c")
        case True
        then obtain c where "current = Some c" "story_eq u c" by (auto split: option.splits)
        with True Some Inr run seen show thesis by (intro same [of c u]) (auto simp: story_seen_def)
      next
        case no: False
        with Some Inr run seen show thesis by (intro saved [where current = current and u = u]) auto
      qed
    qed
  qed
qed

end
