(* ===== verification/Asset_Repository.thy ===== *)
theory Asset_Repository imports Job_Facts begin

text \<open>
  \<open>AssetRepository\<close> of \<open>core/assets/__init__.py\<close>: the records of finished outputs, one JSON file
  each, and the operations that create, refresh and annotate them.

  The repository has no lock: an operation that reads a record and writes it back is two steps,
  and other threads act between them. SHA-1 and Python's text of a JSON value that is not a
  string are the two library functions left abstract.
\<close>

section \<open>Derived values\<close>

record asset_env =
  ae_sha1 :: "string \<Rightarrow> string"
  ae_str :: "json \<Rightarrow> string"

definition stable_asset_id :: "asset_env \<Rightarrow> string \<Rightarrow> string \<Rightarrow> string" where
  "stable_asset_id env job_id output_path = ''asset_'' @ take 24 (ae_sha1 env (job_id @ '':'' @ output_path))"

text \<open>\<open>text.split()\<close>: the maximal runs of characters that are not white space.\<close>

fun py_words :: "string \<Rightarrow> string list" where
  "py_words [] = []"
| "py_words (c # cs) =
     (if py_isspace c then py_words cs
      else (case cs of
              [] \<Rightarrow> [[c]]
            | d # _ \<Rightarrow> if py_isspace d then [c] # py_words cs
                      else (case py_words cs of [] \<Rightarrow> [[c]] | w # ws \<Rightarrow> (c # w) # ws)))"

definition summarize_prompt :: "string \<Rightarrow> string \<Rightarrow> string" where
  "summarize_prompt prompt fallback =
     (let compact = py_join CHR '' '' (py_words (py_strip prompt)) in
      if compact = [] then fallback
      else if length compact \<le> 72 then compact
      else take 69 compact @ ''...'')"

definition variation_metadata_for_output :: "dict list \<Rightarrow> string \<Rightarrow> nat \<Rightarrow> dict" where
  "variation_metadata_for_output records output_path output_index =
     (case find (\<lambda>record. map_of record ''output_path'' = Some (JStr output_path)) records of
        Some record \<Rightarrow> record
      | None \<Rightarrow> if output_index < length records then records ! output_index else [])"

fun role_text :: "reference_role \<Rightarrow> string" where
  "role_text Character_role = ''character''"
| "role_text Location_role = ''location''"

fun preprocessing_text :: "reference_preprocessing \<Rightarrow> string" where
  "preprocessing_text Pre_none = ''none''"
| "preprocessing_text Pre_auto = ''auto''"
| "preprocessing_text Pre_face_crop = ''face_crop''"
| "preprocessing_text Pre_canny = ''canny''"
| "preprocessing_text Pre_depth = ''depth''"

definition text_or_null :: "string option \<Rightarrow> json" where
  "text_or_null t = (case t of None \<Rightarrow> JNull | Some s \<Rightarrow> JStr s)"

definition reference_json :: "reference_input \<Rightarrow> json" where
  "reference_json r =
     JObj [(''asset_id'', JStr (ref_asset_id r)), (''role'', JStr (role_text (ref_role r))),
           (''strength'', JFloat (ref_strength r)),
           (''preprocessing'', JStr (preprocessing_text (ref_preprocessing r)))]"

text \<open>\<open>model_dump(mode="json")\<close>.\<close>

definition request_json :: "generation_request \<Rightarrow> json" where
  "request_json r =
     JObj [(''media_type'', JStr (media_text (req_media_type r))), (''task_type'', text_or_null (req_task_type r)),
           (''prompt'', JStr (req_prompt r)), (''negative_prompt'', text_or_null (req_negative_prompt r)),
           (''model_id'', JStr (req_model_id r)),
           (''seed'', case req_seed r of None \<Rightarrow> JNull | Some n \<Rightarrow> JInt n),
           (''output_format'', text_or_null (req_output_format r)), (''params'', JObj (req_params r)),
           (''references'', JArr (map reference_json (req_references r)))]"

definition effective_params :: "dict \<Rightarrow> dict \<Rightarrow> dict" where
  "effective_params params metadata =
     (let p = (case map_of metadata ''params'' of Some (JObj q) \<Rightarrow> dict_update params q | _ \<Rightarrow> params) in
      if map_of p ''num_inference_steps'' \<noteq> None then dict_pop ''steps'' p else p)"

definition effective_request_snapshot :: "job_record \<Rightarrow> dict \<Rightarrow> json" where
  "effective_request_snapshot job metadata =
     (let request = jr_request job in
      request_json (request
        \<lparr>req_model_id := (case map_of metadata ''model_id'' of
             Some (JStr s) \<Rightarrow> if s \<noteq> [] then s else req_model_id request | _ \<Rightarrow> req_model_id request),
         req_seed := (case map_of metadata ''seed'' of Some (JInt n) \<Rightarrow> Some n | _ \<Rightarrow> req_seed request),
         req_output_format := (case map_of metadata ''output_format'' of
             Some (JStr s) \<Rightarrow> if s \<noteq> [] then Some s else req_output_format request
           | _ \<Rightarrow> req_output_format request),
         req_params := effective_params (req_params request) metadata\<rparr>))"

text \<open>\<open>int(value)\<close>.\<close>

definition json_int :: "json \<Rightarrow> exn + int" where
  "json_int j =
     (case j of
        JInt n \<Rightarrow> Inr n
      | JBool b \<Rightarrow> Inr (if b then 1 else 0)
      | JFloat x \<Rightarrow> Inr (if 0 \<le> x then \<lfloor>x\<rfloor> else \<lceil>x\<rceil>)
      | JStr s \<Rightarrow> (case py_int s of None \<Rightarrow> Inl (Value_error ''invalid literal for int()'') | Some n \<Rightarrow> Inr n)
      | _ \<Rightarrow> Inl (Type_error ''int() argument must be a string or a number''))"

definition reuse_count_of :: "dict \<Rightarrow> exn + int" where
  "reuse_count_of metadata =
     json_int (case map_of metadata ''reuse_count'' of None \<Rightarrow> JInt 0 | Some j \<Rightarrow> j)"

definition preview_of ::
  "asset_env \<Rightarrow> string list \<Rightarrow> nat \<Rightarrow> dict \<Rightarrow> string option \<Rightarrow> string \<Rightarrow> string" where
  "preview_of env previews output_index variation fallback output_path =
     (let other = (case fallback of Some s \<Rightarrow> s | None \<Rightarrow> output_path) in
      if output_index < length previews \<and> previews ! output_index \<noteq> [] then previews ! output_index
      else (case map_of variation ''preview_path'' of
              None \<Rightarrow> other
            | Some v \<Rightarrow>
                if json_truthy v then (case v of JStr s \<Rightarrow> s | _ \<Rightarrow> ae_str env v) else other))"

definition parent_in :: "dict \<Rightarrow> string option" where
  "parent_in params =
     (case map_of params ''source_asset_id'' of
        Some (JStr s) \<Rightarrow> if s \<noteq> [] then Some s else None | _ \<Rightarrow> None)"

section \<open>Reads and writes\<close>

definition asset_get :: "string \<Rightarrow> ('x, asset option) job_io" where
  "asset_get asset_id = asset_io (\<lambda>t dir. (dir_get asset_id dir, dir))"

definition asset_save :: "asset \<Rightarrow> ('x, unit) job_io" where
  "asset_save a = asset_io (\<lambda>t dir. ((), dir_write (as_id a) a dir))"

text \<open>The files of one listing are loaded one after the other; one that is gone by then raises.\<close>

definition asset_load :: "string \<Rightarrow> ('x, asset list) job_io" where
  "asset_load name =
     bnd (asset_io (\<lambda>t dir. (map_of dir name, dir))) (\<lambda>found.
       case found of
         None \<Rightarrow> raise Os_error
       | Some Malformed \<Rightarrow> ret []
       | Some (Document a) \<Rightarrow> ret [a])"

definition newest_first :: "asset list \<Rightarrow> asset list" where
  "newest_first assets = rev (sort_key as_updated_at (rev assets))"

definition asset_list_all :: "string option \<Rightarrow> string option \<Rightarrow> nat option \<Rightarrow> ('x, asset list) job_io" where
  "asset_list_all media_type project_id limit =
     bnd (asset_io (\<lambda>t dir. (dir_names dir, dir))) (\<lambda>names.
     bnd (collect asset_load names) (\<lambda>loads.
       ret ((case limit of None \<Rightarrow> id | Some n \<Rightarrow> take n)
         (newest_first
           (filter (\<lambda>a. (case media_type of None \<Rightarrow> True | Some m \<Rightarrow> m = [] \<or> as_media_type a = m) \<and>
                        (case project_id of None \<Rightarrow> True | Some p \<Rightarrow> p = [] \<or> as_project_id a = Some p))
              (concat loads))))))"

definition asset_get_by_job :: "string \<Rightarrow> ('x, asset list) job_io" where
  "asset_get_by_job job_id =
     bnd (asset_list_all None None None) (\<lambda>assets. ret (filter (\<lambda>a. as_job_id a = job_id) assets))"

definition asset_get_primary_by_job :: "string \<Rightarrow> ('x, asset option) job_io" where
  "asset_get_primary_by_job job_id =
     bnd (asset_get_by_job job_id) (\<lambda>assets. ret (case assets of [] \<Rightarrow> None | a # _ \<Rightarrow> Some a))"

section \<open>Synchronising a job\<close>

text \<open>What one pass over a job shares between its outputs.\<close>

record sync_input =
  si_metadata :: dict
  si_variations :: "dict list"
  si_fallback :: "string option"

definition sync_input_of :: "generation_result \<Rightarrow> sync_input" where
  "sync_input_of result =
     \<lparr>si_metadata = dict_pop ''variations'' (res_metadata result),
      si_variations =
        (case map_of (res_metadata result) ''variations'' of
           Some (JArr items) \<Rightarrow> concat (map (\<lambda>i. case i of JObj d \<Rightarrow> [d] | _ \<Rightarrow> []) items)
         | _ \<Rightarrow> []),
      si_fallback = find (\<lambda>p. p \<noteq> []) (res_previews result)\<rparr>"

definition merged_metadata :: "dict option \<Rightarrow> job_record \<Rightarrow> sync_input \<Rightarrow> dict \<Rightarrow> dict" where
  "merged_metadata existing job si variation =
     (let m = dict_update (dict_update (case existing of None \<Rightarrow> [] | Some d \<Rightarrow> d) (si_metadata si)) variation in
      dict_set ''request_snapshot'' (effective_request_snapshot job m) m)"

definition merged_lineage :: "string option \<Rightarrow> string list \<Rightarrow> string list" where
  "merged_lineage parent lineage =
     (case parent of None \<Rightarrow> lineage | Some p \<Rightarrow> if p \<in> set lineage then lineage else lineage @ [p])"

definition counted :: "dict \<Rightarrow> int \<Rightarrow> string list \<Rightarrow> dict" where
  "counted metadata reuse export_paths =
     dict_set ''export_count'' (JInt (int (length export_paths))) (dict_set ''reuse_count'' (JInt reuse) metadata)"

definition synced_asset ::
  "asset_env \<Rightarrow> job_record \<Rightarrow> generation_result \<Rightarrow> nat \<Rightarrow> string \<Rightarrow> asset option \<Rightarrow> exn + asset" where
  "synced_asset env job result i path existing =
     (let si = sync_input_of result;
          variation = variation_metadata_for_output (si_variations si) path i;
          metadata = merged_metadata (map_option as_metadata existing) job si variation;
          exports = (case existing of None \<Rightarrow> [] | Some a \<Rightarrow> as_export_paths a);
          parent = parent_in (req_params (jr_request job)) in
      case reuse_count_of metadata of
        Inl e \<Rightarrow> Inl e
      | Inr reuse \<Rightarrow> Inr
          \<lparr>as_id = stable_asset_id env (jr_id job) path, as_job_id = jr_id job,
           as_project_id = jr_project_id job, as_media_type = media_text (jr_media_type job),
           as_kind = ''output'',
           as_title = summarize_prompt (req_prompt (jr_request job)) (media_text (jr_media_type job) @ '' asset''),
           as_prompt = req_prompt (jr_request job), as_model_id = req_model_id (jr_request job),
           as_path = path,
           as_preview_path = Some (preview_of env (res_previews result) i variation (si_fallback si) path),
           as_parent_asset_id =
             (case parent of Some p \<Rightarrow> Some p
              | None \<Rightarrow> (case existing of None \<Rightarrow> None | Some a \<Rightarrow> as_parent_asset_id a)),
           as_lineage = merged_lineage parent (case existing of None \<Rightarrow> [] | Some a \<Rightarrow> as_lineage a),
           as_export_paths = exports,
           as_tags = (case existing of None \<Rightarrow> [] | Some a \<Rightarrow> as_tags a),
           as_metadata = counted metadata reuse exports,
           as_created_at = (case existing of None \<Rightarrow> jr_created_at job | Some a \<Rightarrow> as_created_at a),
           as_updated_at = (case existing of None \<Rightarrow> jr_created_at job | Some a \<Rightarrow> as_updated_at a)\<rparr>)"

text \<open>\<open>_asset_state\<close>: everything but the time of the last change.\<close>

definition same_asset_state :: "asset \<Rightarrow> asset \<Rightarrow> bool" where
  "same_asset_state a b \<longleftrightarrow>
     a\<lparr>as_metadata := [], as_updated_at := []\<rparr> = b\<lparr>as_metadata := [], as_updated_at := []\<rparr> \<and>
     dict_eq (as_metadata a) (as_metadata b)"

definition sync_output ::
  "asset_env \<Rightarrow> job_record \<Rightarrow> generation_result \<Rightarrow> nat \<times> string \<Rightarrow> ('x, asset) job_io" where
  "sync_output env job result = (\<lambda>(i, path).
     bnd (asset_get (stable_asset_id env (jr_id job) path)) (\<lambda>existing.
       case synced_asset env job result i path existing of
         Inl e \<Rightarrow> raise e
       | Inr a \<Rightarrow>
           if (case existing of None \<Rightarrow> False | Some old \<Rightarrow> same_asset_state old a) then ret (the existing)
           else bnd read_now (\<lambda>now.
                bnd (asset_save (a\<lparr>as_updated_at := now\<rparr>)) (\<lambda>_. ret (a\<lparr>as_updated_at := now\<rparr>)))))"

definition asset_sync_job :: "asset_env \<Rightarrow> job_record \<Rightarrow> ('x, asset list) job_io" where
  "asset_sync_job env job =
     (case jr_result job of
        None \<Rightarrow> ret []
      | Some result \<Rightarrow>
          if jr_status job \<noteq> Succeeded then ret []
          else collect (sync_output env job result)
                 (List.enumerate 0 (filter (\<lambda>output. output \<noteq> []) (res_outputs result))))"

definition asset_sync_jobs :: "asset_env \<Rightarrow> job_record list \<Rightarrow> ('x, asset list) job_io" where
  "asset_sync_jobs env jobs = bnd (collect (asset_sync_job env) jobs) (\<lambda>synced. ret (concat synced))"

section \<open>Annotations\<close>

text \<open>Read a record, change it, write it back with a new time: two steps around a decision.\<close>

definition asset_save_now :: "asset \<Rightarrow> ('x, asset) job_io" where
  "asset_save_now a =
     bnd read_now (\<lambda>now. bnd (asset_save (a\<lparr>as_updated_at := now\<rparr>)) (\<lambda>_. ret (a\<lparr>as_updated_at := now\<rparr>)))"

definition asset_bind_project :: "string \<Rightarrow> string option \<Rightarrow> ('x, asset option) job_io" where
  "asset_bind_project asset_id project_id =
     bnd (asset_get asset_id) (\<lambda>found.
       case found of
         None \<Rightarrow> ret None
       | Some a \<Rightarrow>
           if as_project_id a = project_id then ret (Some a)
           else bnd (asset_save_now (a\<lparr>as_project_id := project_id\<rparr>)) (\<lambda>b. ret (Some b)))"

definition asset_bind_job_assets :: "string \<Rightarrow> string option \<Rightarrow> ('x, asset list) job_io" where
  "asset_bind_job_assets job_id project_id =
     bnd (asset_get_by_job job_id)
       (collect (\<lambda>a. if as_project_id a = project_id then ret a
                     else asset_save_now (a\<lparr>as_project_id := project_id\<rparr>)))"

definition derived_ids :: "dict \<Rightarrow> string option \<Rightarrow> json list" where
  "derived_ids metadata derived_job_id =
     (let ids = (case map_of metadata ''derived_job_ids'' of Some (JArr xs) \<Rightarrow> xs | _ \<Rightarrow> []) in
      case derived_job_id of
        None \<Rightarrow> ids | Some d \<Rightarrow> if JStr d \<in> set ids then ids else ids @ [JStr d])"

definition asset_mark_reused :: "string \<Rightarrow> string \<Rightarrow> string option \<Rightarrow> ('x, asset option) job_io" where
  "asset_mark_reused asset_id action derived_job_id =
     bnd (asset_get asset_id) (\<lambda>found.
       case found of
         None \<Rightarrow> ret None
       | Some a \<Rightarrow>
           (case reuse_count_of (as_metadata a) of
              Inl e \<Rightarrow> raise e
            | Inr n \<Rightarrow>
                bnd (asset_save_now (a\<lparr>as_metadata :=
                       dict_set ''derived_job_ids'' (JArr (derived_ids (as_metadata a) derived_job_id))
                         (dict_set ''last_reuse_action'' (JStr action)
                           (dict_set ''reuse_count'' (JInt (n + 1)) (as_metadata a)))\<rparr>))
                  (\<lambda>b. ret (Some b))))"

definition has_value :: "string \<Rightarrow> json \<Rightarrow> dict \<Rightarrow> bool" where
  "has_value k v d = (case map_of d k of None \<Rightarrow> False | Some j \<Rightarrow> json_eq j v)"

definition dict_set_changed :: "string \<Rightarrow> json \<Rightarrow> dict \<Rightarrow> dict" where
  "dict_set_changed k v d = (if has_value k v d then d else dict_set k v d)"

definition with_export :: "string \<Rightarrow> asset \<Rightarrow> asset" where
  "with_export export_path a =
     (let paths = (if export_path \<in> set (as_export_paths a) then as_export_paths a
                   else as_export_paths a @ [export_path]) in
      a\<lparr>as_export_paths := paths,
         as_metadata := dict_set_changed ''last_export_path'' (JStr export_path)
           (dict_set_changed ''export_count'' (JInt (int (length paths))) (as_metadata a))\<rparr>)"

definition export_recorded :: "string \<Rightarrow> asset \<Rightarrow> bool" where
  "export_recorded export_path a \<longleftrightarrow>
     export_path \<in> set (as_export_paths a) \<and>
     has_value ''export_count'' (JInt (int (length (as_export_paths a)))) (as_metadata a) \<and>
     has_value ''last_export_path'' (JStr export_path) (as_metadata a)"

definition asset_record_export :: "string \<Rightarrow> string \<Rightarrow> ('x, asset option) job_io" where
  "asset_record_export asset_id export_path =
     bnd (asset_get asset_id) (\<lambda>found.
       case found of
         None \<Rightarrow> ret None
       | Some a \<Rightarrow>
           if export_recorded export_path a then ret (Some a)
           else bnd (asset_save_now (with_export export_path a)) (\<lambda>b. ret (Some b)))"

section \<open>Every operation leaves the jobs to the lifecycle\<close>

lemma along_asset_reads [along]:
  "holds_along evolves (asset_get asset_id)" "holds_along evolves (asset_save a)"
  unfolding asset_get_def asset_save_def by (intro along)+

lemma along_case_file:
  "holds_along R n \<Longrightarrow> holds_along R m \<Longrightarrow> (\<And>a. holds_along R (f a)) \<Longrightarrow>
   holds_along R (case x of None \<Rightarrow> n | Some Malformed \<Rightarrow> m | Some (Document a) \<Rightarrow> f a)"
  by (auto split: option.splits json_file.splits)

lemma along_asset_listing [along]:
  "holds_along evolves (asset_load name)" "holds_along evolves (asset_list_all media_type project_id limit)"
  "holds_along evolves (asset_get_by_job job_id)" "holds_along evolves (asset_get_primary_by_job job_id)"
proof -
  show load: "holds_along evolves (asset_load name)" for name
    unfolding asset_load_def by (intro evolving.along_rules along_case_file along)
  show list: "holds_along evolves (asset_list_all media_type project_id limit)" for media_type project_id limit
    unfolding asset_list_all_def by (intro evolving.along_rules along load)
  show job: "holds_along evolves (asset_get_by_job job_id)" for job_id
    unfolding asset_get_by_job_def by (intro evolving.along_rules list)
  show "holds_along evolves (asset_get_primary_by_job job_id)"
    unfolding asset_get_primary_by_job_def by (intro evolving.along_rules job)
qed

lemma along_sync_output [along]: "holds_along evolves (sync_output env job result ip)"
  unfolding sync_output_def by (cases ip) (auto intro!: along_steps along)

lemma along_asset_sync [along]:
  "holds_along evolves (asset_sync_job env job)" "holds_along evolves (asset_sync_jobs env jobs)"
proof -
  show one: "holds_along evolves (asset_sync_job env job)" for job
    unfolding asset_sync_job_def by (intro along_steps along)
  show "holds_along evolves (asset_sync_jobs env jobs)"
    unfolding asset_sync_jobs_def by (intro along_steps one)
qed

lemma along_asset_annotations [along]:
  "holds_along evolves (asset_bind_project asset_id project_id)"
  "holds_along evolves (asset_bind_job_assets job_id project_id)"
  "holds_along evolves (asset_mark_reused asset_id action derived_job_id)"
  "holds_along evolves (asset_record_export asset_id export_path)"
  unfolding asset_bind_project_def asset_bind_job_assets_def asset_mark_reused_def asset_record_export_def
    asset_save_now_def
  by (intro along_steps along)+

end
