(* ===== verification/World_Frames.thy ===== *)
theory World_Frames imports Job_Repository Asset_Repository begin

text \<open>
  What an operation does not touch. A relation on worlds that other threads respect and that the
  changes of an operation respect holds from its start to its end. The interface grows with what
  the operation changes: nothing but the schedule (\<open>calm_frame\<close>), the asset files
  (\<open>assets_frame\<close>), or the jobs table, the queue, the bus and the registry (\<open>jobs_frame\<close>).
\<close>

locale calm_frame = step_preorder R for R :: "'x world_scheme \<Rightarrow> 'x world_scheme \<Rightarrow> bool" +
  assumes R_interfere: "R w (interfere w)"
begin

lemma frame_atomic: "(\<And>t w. R w (snd (f t w))) \<Longrightarrow> holds_along R (atomic f)"
  using R_interfere by (auto simp: holds_along_def atomic_def intro: R_trans)

lemma frame_transaction: "(\<And>t w. R w (snd (f t w))) \<Longrightarrow> holds_along R (transaction f)"
  unfolding transaction_def by (intro frame_atomic) (simp add: R_refl)

lemma frame_db_read: "holds_along R (db_read f)"
  unfolding db_read_def by (intro frame_transaction) (simp add: R_refl)

lemma frame_clocks: "holds_along R read_clock" "holds_along R read_now"
  unfolding read_clock_def read_now_def by (intro frame_atomic; simp add: R_refl)+

lemma frame_decode: "holds_along R (decode row)"
  by (auto simp: decode_def split: sum.splits intro: along_rules)

lemma frame_get: "holds_along R (repo_get job_id)"
  unfolding repo_get_def by (intro along_rules along_cases frame_db_read frame_decode)

lemmas frame_calm = along_rules along_cases frame_db_read frame_clocks frame_decode frame_get

lemma frame_reads:
  "holds_along R repo_list" "holds_along R repo_list_tolerant"
  "holds_along R repo_list_terminal_pending_completion"
  "holds_along R (repo_get_raw_status job_id)" "holds_along R (repo_get_raw_error_message job_id)"
  "holds_along R (repo_peek_raw_request_params job_id)"
  unfolding repo_list_def repo_list_tolerant_def repo_list_terminal_pending_completion_def
    repo_get_raw_status_def repo_get_raw_error_message_def repo_peek_raw_request_params_def
  by (intro frame_calm)+

lemma frame_runs: "holds_along R m \<Longrightarrow> m w = (r, w') \<Longrightarrow> R w w'"
  by (metis holds_along_def snd_conv)

end

locale jobs_frame = calm_frame R for R :: "'x world_scheme \<Rightarrow> 'x world_scheme \<Rightarrow> bool" +
  assumes R_jobs: "R w (w\<lparr>w_jobs := rows\<rparr>)"
    and R_queue: "R w (w\<lparr>w_queue := q\<rparr>)"
    and R_bus: "R w (w\<lparr>w_bus := b\<rparr>)"
    and R_registry: "R w (w\<lparr>w_registry := g\<rparr>)"
begin

lemma frame_db: "holds_along R (db_update job_id guard change)" "holds_along R (db_insert row)"
  unfolding db_update_def db_insert_def
  by (intro frame_transaction; simp add: R_refl R_jobs split: prod.splits option.splits)+

lemma frame_memory: "holds_along R (with_queue g)" "holds_along R (with_registry h)"
  unfolding with_queue_def with_registry_def
  by (intro frame_atomic; simp add: R_refl R_queue R_registry split: sum.splits prod.splits)+

lemma frame_publish:
  "(\<And>s e. holds_along R (deliver s e)) \<Longrightarrow> holds_along R (bus_publish deliver event_type payload)"
  unfolding bus_publish_def deliver_all_def
  by (intro along_rules along_cases frame_atomic) (simp_all add: Let_def R_bus)

lemmas frame_base = frame_calm frame_db frame_memory

lemma frame_guarded: "holds_along R (repo_update_guarded job_id p expected)"
  unfolding repo_update_guarded_def by (intro frame_base)

lemma frame_writes:
  "holds_along R (repo_create job)" "holds_along R (repo_create_if_absent job)"
  "holds_along R (repo_update job_id p)" "holds_along R (repo_update_if_status job_id statuses p)"
  "holds_along R (repo_transition_if_status job_id statuses status progress message)"
  "holds_along R (repo_quarantine_structurally_invalid_status job_id text)"
  "holds_along R (repo_mark_completion_done job_id)"
  "holds_along R (repo_mark_completion_pending_with_error job_id text)"
  unfolding repo_create_def repo_create_if_absent_def repo_update_def repo_update_if_status_def
    repo_transition_if_status_def repo_quarantine_structurally_invalid_status_def
    repo_mark_completion_done_def repo_mark_completion_pending_with_error_def
  by (intro frame_base frame_guarded)+

lemmas frame_repo = frame_base frame_reads frame_guarded frame_writes

end

locale assets_frame = calm_frame R for R :: "'x world_scheme \<Rightarrow> 'x world_scheme \<Rightarrow> bool" +
  assumes R_assets: "R w (w\<lparr>w_assets := dir\<rparr>)"
begin

lemma frame_asset_io: "holds_along R (asset_io f)"
  unfolding asset_io_def by (intro frame_atomic) (simp add: R_refl R_assets split: prod.splits)

lemma frame_asset_listing:
  "holds_along R (asset_get_by_job job_id)" "holds_along R (asset_get_primary_by_job job_id)"
proof -
  have "holds_along R (asset_load name)" for name
    unfolding asset_load_def by (intro along_rules along_case_file frame_asset_io)
  then have "holds_along R (asset_list_all media_type project_id limit)" for media_type project_id limit
    unfolding asset_list_all_def by (intro along_rules frame_asset_io)
  then show "holds_along R (asset_get_by_job job_id)"
    unfolding asset_get_by_job_def by (intro along_rules)
  then show "holds_along R (asset_get_primary_by_job job_id)"
    unfolding asset_get_primary_by_job_def by (intro along_rules)
qed

lemma frame_asset_sync: "holds_along R (asset_sync_job env job)"
proof -
  have "holds_along R (sync_output env job result ip)" for result ip
    unfolding sync_output_def asset_get_def asset_save_def
    by (cases ip) (auto intro!: along_rules along_cases frame_asset_io frame_clocks)
  then show ?thesis unfolding asset_sync_job_def by (intro along_rules along_cases)
qed

lemmas frame_assets = frame_calm frame_reads frame_asset_io frame_asset_listing frame_asset_sync

end

locale files_frame = jobs_frame R + assets_frame R for R :: "'x world_scheme \<Rightarrow> 'x world_scheme \<Rightarrow> bool"
begin

lemmas frame_files = frame_repo frame_asset_io frame_asset_listing frame_asset_sync

end

section \<open>Stories nobody writes\<close>

fun writes_story :: "act \<Rightarrow> bool" where
  "writes_story (Act_story story_id f) = True"
| "writes_story _ = False"

definition story_calm :: "'x world_scheme \<Rightarrow> bool" where
  "story_calm w \<longleftrightarrow> (\<forall>t \<in> set (w_ticks w). \<forall>a \<in> set (t_acts t). \<not> writes_story a)"

definition stories_still :: "'x world_scheme \<Rightarrow> 'x world_scheme \<Rightarrow> bool" where
  "stories_still w w' \<longleftrightarrow> (story_calm w \<longrightarrow> story_calm w' \<and> w_stories w' = w_stories w)"

lemma perform_keeps_stories:
  "\<not> writes_story a \<Longrightarrow> w_stories (perform now a w) = w_stories w"
  by (cases a) (auto simp: perform_def split: option.splits sum.splits prod.splits)

lemma performs_keep_stories:
  "(\<forall>a \<in> set acts. \<not> writes_story a) \<Longrightarrow> w_stories (fold (perform now) acts w) = w_stories w"
  by (induction acts arbitrary: w) (auto simp: perform_keeps_stories)

lemma perform_keeps_ticks: "w_ticks (perform now a w) = w_ticks w"
  by (cases a) (auto simp: perform_def split: option.splits sum.splits prod.splits)

lemma performs_keep_ticks: "w_ticks (fold (perform now) acts w) = w_ticks w"
  by (induction acts arbitrary: w) (auto simp: perform_keeps_ticks)

lemma interfere_still: "stories_still w (interfere w)"
  by (cases "w_ticks w")
    (auto simp: stories_still_def story_calm_def interfere_def performs_keep_ticks performs_keep_stories
      next_tick_def quiet_tick_def)

interpretation still: files_frame stories_still
  by unfold_locales (auto simp: interfere_still, auto simp: stories_still_def story_calm_def)

end
