(* ===== verification/Scene_Binding.thy ===== *)
theory Scene_Binding imports Story_Repository World_Frames "HOL-Library.Sublist" begin

text \<open>
  \<open>SceneBinder\<close> of \<open>core/story/binding.py\<close>: a finished job's asset goes to the scene and role its
  request names. The live path replaces what the role holds; a replay after a restart must
  not, and the property of this theory is that it never does.
\<close>

section \<open>Where a job belongs\<close>

definition STORY_ID_PARAM :: string where "STORY_ID_PARAM = ''story_id''"

definition SCENE_ID_PARAM :: string where "SCENE_ID_PARAM = ''scene_id''"

definition SCENE_ROLE_PARAM :: string where "SCENE_ROLE_PARAM = ''scene_role''"

definition scene_binding_params :: "string \<Rightarrow> string \<Rightarrow> string \<Rightarrow> exn + dict" where
  "scene_binding_params story_id scene_id role =
     (if role \<notin> set SCENE_ASSET_ROLES then Inl (Value_error (''Unknown scene role '' @ quoted role))
      else Inr [(STORY_ID_PARAM, JStr story_id), (SCENE_ID_PARAM, JStr scene_id), (SCENE_ROLE_PARAM, JStr role)])"

type_synonym scene_key = "string \<times> string \<times> string"

text \<open>The three parameters, when all of them are strings.\<close>

definition text_param :: "dict \<Rightarrow> string \<Rightarrow> string option" where
  "text_param params k = (case map_of params k of Some (JStr s) \<Rightarrow> Some s | _ \<Rightarrow> None)"

definition scene_key_of :: "dict \<Rightarrow> scene_key option" where
  "scene_key_of params =
     (case (text_param params STORY_ID_PARAM, text_param params SCENE_ID_PARAM, text_param params SCENE_ROLE_PARAM) of
        (Some story_id, Some scene_id, Some role) \<Rightarrow> Some (story_id, scene_id, role)
      | _ \<Rightarrow> None)"

definition scene_bound_params :: "job_record \<Rightarrow> scene_key option" where
  "scene_bound_params job =
     (case scene_key_of (req_params (jr_request job)) of
        Some (story_id, scene_id, role) \<Rightarrow>
          if role \<in> set SCENE_ASSET_ROLES then Some (story_id, scene_id, role) else None
      | None \<Rightarrow> None)"

section \<open>Applying a binding\<close>

definition role_held :: "string \<Rightarrow> scene \<Rightarrow> bool" where
  "role_held role s \<longleftrightarrow> (case map_of (sc_asset_ids s) role of None \<Rightarrow> False | Some a \<Rightarrow> a \<noteq> [])"

definition already_bound :: "string \<Rightarrow> string \<Rightarrow> scene \<Rightarrow> bool" where
  "already_bound job_id role s \<longleftrightarrow> job_id \<in> set (sc_job_ids s) \<or> role_held role s"

definition bind_scene :: "string \<Rightarrow> string \<Rightarrow> string \<Rightarrow> scene \<Rightarrow> scene" where
  "bind_scene job_id role asset_id s =
     s\<lparr>sc_asset_ids := AList.update role asset_id (sc_asset_ids s),
       sc_job_ids := (if job_id \<in> set (sc_job_ids s) then sc_job_ids s else sc_job_ids s @ [job_id])\<rparr>"

text \<open>\<open>_apply_binding\<close>: nothing for an unknown story or scene, and nothing for a skipped replay.\<close>

definition apply_binding ::
  "bool \<Rightarrow> string \<Rightarrow> string \<Rightarrow> string \<Rightarrow> string \<Rightarrow> story_document option \<Rightarrow> story_document option" where
  "apply_binding replay job_id scene_id role asset_id story =
     (case story of
        None \<Rightarrow> None
      | Some doc \<Rightarrow>
          (let targets = filter (\<lambda>s. sc_id s = scene_id) (st_scenes doc) in
           if targets = [] then None
           else if replay \<and> (\<exists>s \<in> set targets. already_bound job_id role s) then None
           else Some (doc\<lparr>st_scenes := map (\<lambda>s. if sc_id s \<noteq> scene_id then s
                                              else bind_scene job_id role asset_id s) (st_scenes doc)\<rparr>)))"

definition binder_bind :: "bool \<Rightarrow> string \<Rightarrow> ('x, story_document option) job_io" where
  "binder_bind replay job_id =
     bnd (repo_get job_id) (\<lambda>found.
       case found of
         None \<Rightarrow> ret None
       | Some job \<Rightarrow>
           if jr_status job \<noteq> Succeeded then ret None
           else
             (case scene_bound_params job of
                None \<Rightarrow> ret None
              | Some (story_id, scene_id, role) \<Rightarrow>
                  bnd (asset_get_primary_by_job job_id) (\<lambda>asset.
                    case asset of
                      None \<Rightarrow> ret None
                    | Some a \<Rightarrow>
                        story_mutate story_id
                          (\<lambda>story. Inr (apply_binding replay job_id scene_id role (as_id a) story)))))"

definition bind_job :: "string \<Rightarrow> ('x, story_document option) job_io" where
  "bind_job = binder_bind False"

definition replay_job_safely :: "string \<Rightarrow> ('x, story_document option) job_io" where
  "replay_job_safely = binder_bind True"

definition binder_handle_job_event :: "job_event \<Rightarrow> ('x, unit) job_io" where
  "binder_handle_job_event event =
     (if ev_type event \<noteq> ''job_succeeded'' then ret ()
      else (case text_param (ev_payload event) ''job_id'' of
              None \<Rightarrow> ret ()
            | Some job_id \<Rightarrow> bnd (attempt (bind_job job_id)) (\<lambda>_. ret ())))"

lemma along_binder [along]:
  "holds_along evolves (binder_bind replay job_id)" "holds_along evolves (bind_job job_id)"
  "holds_along evolves (replay_job_safely job_id)" "holds_along evolves (binder_handle_job_event event)"
proof -
  show bind: "holds_along evolves (binder_bind replay job_id)" for replay job_id
    unfolding binder_bind_def by (intro along_steps along)
  show "holds_along evolves (bind_job job_id)" "holds_along evolves (replay_job_safely job_id)"
    by (simp_all add: bind_job_def replay_job_safely_def bind)
  show "holds_along evolves (binder_handle_job_event event)"
    unfolding binder_handle_job_event_def bind_job_def by (intro along_steps bind)
qed

section \<open>What a binding keeps\<close>

text \<open>Every role that holds an asset still holds it, and no job is forgotten.\<close>

definition scene_kept :: "scene \<Rightarrow> scene \<Rightarrow> bool" where
  "scene_kept s s' \<longleftrightarrow>
     sc_id s' = sc_id s \<and> prefix (sc_job_ids s) (sc_job_ids s') \<and>
     (\<forall>role. role_held role s \<longrightarrow> map_of (sc_asset_ids s') role = map_of (sc_asset_ids s) role)"

definition story_kept :: "story_document \<Rightarrow> story_document \<Rightarrow> bool" where
  "story_kept doc doc' \<longleftrightarrow> st_id doc' = st_id doc \<and> list_all2 scene_kept (st_scenes doc) (st_scenes doc')"

definition stories_kept :: "story_document directory \<Rightarrow> story_document directory \<Rightarrow> bool" where
  "stories_kept dir dir' \<longleftrightarrow>
     (\<forall>story_id. (map_of dir' story_id = None \<longleftrightarrow> map_of dir story_id = None) \<and>
        (\<forall>doc. dir_get story_id dir = Some doc \<longrightarrow>
           (\<exists>doc'. dir_get story_id dir' = Some doc' \<and> story_kept doc doc')))"

lemma scene_kept_refl [simp]: "scene_kept s s"
  by (simp add: scene_kept_def)

lemma story_kept_refl [simp]: "story_kept doc doc"
  by (simp add: story_kept_def list_all2_refl)

lemma stories_kept_refl: "stories_kept dir dir"
  by (auto simp: stories_kept_def)

lemma replay_keeps_story:
  assumes "apply_binding True job_id scene_id role asset_id (Some doc) = Some doc'"
  shows "story_kept doc (doc'\<lparr>st_updated_at := now\<rparr>)" and "st_id doc' = st_id doc"
proof -
  have free: "\<not> already_bound job_id role s" if "s \<in> set (st_scenes doc)" "sc_id s = scene_id" for s
    using assms that by (auto simp: apply_binding_def Let_def split: if_splits)
  have doc': "doc' = doc\<lparr>st_scenes := map (\<lambda>s. if sc_id s \<noteq> scene_id then s
      else bind_scene job_id role asset_id s) (st_scenes doc)\<rparr>"
    using assms by (auto simp: apply_binding_def Let_def split: if_splits)
  then show "st_id doc' = st_id doc" by simp
  have "scene_kept s (bind_scene job_id role asset_id s)" if "\<not> already_bound job_id role s" for s
    using that by (auto simp: scene_kept_def bind_scene_def already_bound_def role_held_def update_conv'
        split: option.splits)
  with free have "list_all2 scene_kept (st_scenes doc) (st_scenes doc')"
    by (auto simp: doc' list_all2_map2 intro!: list_all2_refl [THEN list_all2_mono] list.rel_refl_strong)
  then show "story_kept doc (doc'\<lparr>st_updated_at := now\<rparr>)" by (simp add: story_kept_def doc')
qed

text \<open>Stored documents are filed under their id.\<close>

definition stories_ok :: "story_document directory \<Rightarrow> bool" where
  "stories_ok dir \<longleftrightarrow> (\<forall>story_id doc. dir_get story_id dir = Some doc \<longrightarrow> st_id doc = story_id)"

lemma interfere_stories: "story_calm w \<Longrightarrow> w_stories (interfere w) = w_stories w"
  using interfere_still [of w] by (simp add: stories_still_def)

lemma bind_steps_still:
  "repo_get job_id w = (r, w') \<Longrightarrow> story_calm w \<Longrightarrow> story_calm w' \<and> w_stories w' = w_stories w"
  "asset_get_primary_by_job job_id w = (r2, w') \<Longrightarrow> story_calm w \<Longrightarrow> story_calm w' \<and> w_stories w' = w_stories w"
  using still.frame_runs [OF still.frame_get, of job_id w r w']
    still.frame_runs [OF still.frame_asset_listing(2), of job_id w r2 w']
  by (auto simp: stories_still_def)

lemma replay_changes: "apply_binding True job_id scene_id role a (Some doc) = Some u \<Longrightarrow> \<not> story_eq u doc"
proof
  assume app: "apply_binding True job_id scene_id role a (Some doc) = Some u" and eq: "story_eq u doc"
  obtain s where s: "s \<in> set (st_scenes doc)" "sc_id s = scene_id" "job_id \<notin> set (sc_job_ids s)"
    using app by (auto simp: apply_binding_def Let_def already_bound_def filter_empty_conv split: if_splits)
  have u: "st_scenes u = map (\<lambda>s. if sc_id s \<noteq> scene_id then s else bind_scene job_id role a s) (st_scenes doc)"
    using app by (auto simp: apply_binding_def Let_def split: if_splits)
  obtain i where i: "i < length (st_scenes doc)" "st_scenes doc ! i = s"
    using s(1) by (auto simp: in_set_conv_nth)
  have "list_all2 scene_eq (st_scenes u) (st_scenes doc)" using eq by (simp add: story_eq_def)
  then have "scene_eq (st_scenes u ! i) (st_scenes doc ! i)"
    using i(1) by (simp add: list_all2_conv_all_nth u)
  with i s u have "scene_eq (bind_scene job_id role a s) s" by simp
  then have "sc_job_ids ((bind_scene job_id role a s)\<lparr>sc_asset_ids := []\<rparr>) = sc_job_ids (s\<lparr>sc_asset_ids := []\<rparr>)"
    unfolding scene_eq_def by metis
  with s(3) show False by (simp add: bind_scene_def)
qed

text \<open>
  The mutation of a replay comes last: either nothing was written, or the one document was that
  the binding makes of the one that was there.
\<close>

lemma replay_runs:
  assumes "replay_job_safely job_id w = (r, w')" and "story_calm w"
  obtains (untouched) "w_stories w' = w_stories w" and "r = Inr None \<or> (\<exists>e. r = Inl e)" and "story_calm w'"
  | (bound) stored w1 story_id scene_id role a doc doc' now where "story_calm w'"
      and "evolves w w1" and "stands job_id stored w1"
      and "scene_bound_params stored = Some (story_id, scene_id, role)"
      and "dir_get story_id (w_stories w) = Some doc"
      and "apply_binding True job_id scene_id role a (Some doc) = Some doc'"
      and "r = Inr (Some (doc'\<lparr>st_updated_at := now\<rparr>))"
      and "w_stories w' = dir_write (st_id doc') (doc'\<lparr>st_updated_at := now\<rparr>) (w_stories w)"
  using assms(1) unfolding replay_job_safely_def binder_bind_def
proof (cases rule: bnd_runs)
  case (raised e)
  note still = bind_steps_still(1) [OF raised(1) assms(2)]
  show thesis
  proof (rule untouched)
    show "w_stories w' = w_stories w" using still by simp
    show "r = Inr None \<or> (\<exists>e. r = Inl e)" using raised(2) by blast
    show "story_calm w'" using still by simp
  qed
next
  case (went_on found w1)
  note w1 = bind_steps_still(1) [OF went_on(1) assms(2)]
  show thesis
  proof (cases "\<exists>job story_id scene_id role. found = Some job \<and> jr_status job = Succeeded \<and>
      scene_bound_params job = Some (story_id, scene_id, role)")
    case False
    with went_on(2) have "r = Inr None \<and> w' = w1" by (auto split: option.splits if_splits)
    with w1 untouched show thesis by auto
  next
    case True
    then obtain job story_id scene_id role where job: "found = Some job" "jr_status job = Succeeded"
      "scene_bound_params job = Some (story_id, scene_id, role)" by blast
    then have stored: "stands job_id job w1" using went_on(1) repo_get_found by blast
    have follows: "evolves w w1" using along_runs [OF along_repo_get went_on(1)] .
    from job went_on(2) have "bnd (asset_get_primary_by_job job_id) (\<lambda>asset.
                    case asset of
                      None \<Rightarrow> ret None
                    | Some a \<Rightarrow>
                        story_mutate story_id
                          (\<lambda>story. Inr (apply_binding True job_id scene_id role (as_id a) story))) w1 = (r, w')"
      by simp
    then show thesis
    proof (cases rule: bnd_runs)
      case (raised e)
      with bind_steps_still(2) [OF raised(1)] w1 untouched show thesis by auto
    next
      case asset: (went_on found_asset w2)
      have w2: "story_calm w2" "w_stories w2 = w_stories w"
        using bind_steps_still(2) [OF asset(1)] w1 by auto
      have calm: "story_calm (interfere w2)" using interfere_still [of w2] w2 by (simp add: stories_still_def)
      show thesis
      proof (cases found_asset)
        case None
        with asset(2) w2 untouched show thesis by auto
      next
        case (Some a)
        with asset(2) have "story_mutate story_id
            (\<lambda>story. Inr (apply_binding True job_id scene_id role (as_id a) story)) w2 = (r, w')" by simp
        then show thesis
        proof (cases rule: story_mutate_runs)
          case (same u c)
          then show thesis using replay_changes by blast
        next
          case (saved current u)
          then have app: "apply_binding True job_id scene_id role (as_id a) current = Some u" by simp
          then obtain doc where doc: "current = Some doc" by (cases current) (auto simp: apply_binding_def)
          have "story_calm w'" using calm saved(4) by (simp add: story_calm_def)
          with saved app doc w2 interfere_stories [of w2] follows stored job(3) show thesis
            by (intro bound [of w1 job story_id scene_id role doc "as_id a" u "t_now (next_tick w2)"])
              (auto simp: story_seen_def)
        qed (use interfere_stories [of w2] w2 calm untouched in auto)
      qed
    qed
  qed
qed

text \<open>
  C21: a replay never takes anything away. Whatever else happens meanwhile, as long as no other
  thread writes stories: after \<open>replay_job_safely\<close>, whether it returns or raises, every story
  that loaded still loads, every role that held an asset holds that same asset, every scene
  keeps its jobs, and no deleted story came back.
\<close>

theorem replay_never_overwrites:
  assumes "replay_job_safely job_id w = (r, w')" and "story_calm w" and "stories_ok (w_stories w)"
  shows "stories_kept (w_stories w) (w_stories w') \<and> stories_ok (w_stories w')"
  using assms(1,2)
proof (cases rule: replay_runs)
  case untouched
  with assms(3) stories_kept_refl show ?thesis by simp
next
  case (bound stored w1 story_id scene_id role a doc doc' now)
  have kept: "story_kept doc (doc'\<lparr>st_updated_at := now\<rparr>)" and "st_id doc' = story_id"
    using replay_keeps_story [OF bound(6)] assms(3) bound(5) by (auto simp: stories_ok_def)
  moreover have "map_of (w_stories w) story_id \<noteq> None" using bound(5)
    by (cases "map_of (w_stories w) story_id") (simp_all add: dir_get_def loaded_def)
  ultimately show ?thesis
    using bound assms(3) by (auto simp: stories_kept_def stories_ok_def)
qed

definition sample_scene :: scene where
  "sample_scene =
     \<lparr>sc_id = ''scene_1'', sc_order = 1, sc_beat_id = None, sc_heading = [], sc_summary = [], sc_narration = [],
      sc_dialogue = [], sc_image_prompt = [], sc_image_negative = [], sc_bgm_mood = [], sc_duration_seconds = 4,
      sc_camera = [], sc_bible_refs = [], sc_asset_ids = [(''music'', ''asset_9'')], sc_job_ids = [''job_9'']\<rparr>"

definition sample_story :: story_document where
  "sample_story =
     \<lparr>st_id = ''story_1'', st_title = [], st_project_id = None, st_logline = [], st_premise = [], st_genre = [],
      st_tone = [], st_audience = [], st_language = ''ja'', st_format = ''short-video'', st_structure = [],
      st_characters = [], st_beats = [], st_scenes = [sample_scene], st_chapters = [], st_source_job_ids = [],
      st_metadata = [], st_created_at = ''t0'', st_updated_at = ''t0''\<rparr>"

definition scene_job :: job_record where
  "scene_job = sample_job\<lparr>jr_status := Succeeded,
     jr_request := sample_job_request\<lparr>req_params :=
       [(''scene_id'', JStr ''scene_1''), (''scene_role'', JStr ''visual''), (''story_id'', JStr ''story_1'')]\<rparr>\<rparr>"

definition scene_asset :: asset where
  "scene_asset =
     \<lparr>as_id = ''asset_1'', as_job_id = ''job_1'', as_project_id = None, as_media_type = ''image'', as_kind = ''output'',
      as_title = [], as_prompt = [], as_model_id = [], as_path = ''a.png'', as_preview_path = None,
      as_parent_asset_id = None, as_lineage = [], as_export_paths = [], as_tags = [], as_metadata = [],
      as_created_at = ''t0'', as_updated_at = ''t0''\<rparr>"

definition story_world :: world where
  "story_world = sample_world\<lparr>w_jobs := [record_to_row scene_job],
     w_assets := [(''asset_1'', Document scene_asset)], w_stories := [(''story_1'', Document sample_story)]\<rparr>"

theorem replay_never_overwrites_witness:
  "\<exists>doc w'. replay_job_safely ''job_1'' story_world = (Inr (Some doc), w') \<and>
     sc_asset_ids (hd (st_scenes doc)) = [(''music'', ''asset_9''), (''visual'', ''asset_1'')] \<and>
     stories_kept (w_stories story_world) (w_stories w')"
proof -
  let ?run = "replay_job_safely ''job_1'' story_world"
  have eval: "case fst ?run of Inr (Some doc) \<Rightarrow>
      sc_asset_ids (hd (st_scenes doc)) = [(''music'', ''asset_9''), (''visual'', ''asset_1'')] | _ \<Rightarrow> False"
    by code_simp
  obtain r w' where run: "?run = (r, w')" by (cases ?run)
  with eval obtain doc where doc: "r = Inr (Some doc)"
    "sc_asset_ids (hd (st_scenes doc)) = [(''music'', ''asset_9''), (''visual'', ''asset_1'')]"
    by (auto split: sum.splits option.splits)
  have "story_calm story_world" by (simp add: story_calm_def story_world_def sample_world_def)
  moreover have "stories_ok (w_stories story_world)"
    by (auto simp: stories_ok_def story_world_def dir_get_def loaded_def sample_story_def split: if_splits)
  ultimately have "stories_kept (w_stories story_world) (w_stories w')"
    using replay_never_overwrites [OF run] by blast
  with run doc show ?thesis by blast
qed

end
