(* ===== verification/Asset_Sync.thy ===== *)
theory Asset_Sync imports World_Frames "HOL-Library.Sublist" begin

text \<open>
  What synchronising a job's assets guarantees: a second synchronisation writes nothing, and the
  annotations people made on an asset survive every one. Both hold as long as no other thread
  writes the asset files meanwhile and their storage is sound; that the condition matters is shown by a schedule on which
  an export recorded at the same time is lost.
\<close>

section \<open>Schedules without writers\<close>

fun writes_asset :: "act \<Rightarrow> bool" where
  "writes_asset (Act_asset asset_id f) = True"
| "writes_asset _ = False"

definition asset_calm :: "'x world_scheme \<Rightarrow> bool" where
  "asset_calm w \<longleftrightarrow> (\<forall>t \<in> set (w_ticks w). \<not> t_fault t \<and> (\<forall>a \<in> set (t_acts t). \<not> writes_asset a))"

lemma perform_assets: "\<not> writes_asset a \<Longrightarrow> w_assets (perform now a w) = w_assets w"
  by (cases a) (auto simp: perform_def split: option.splits sum.splits prod.splits)

lemma performs_assets:
  "(\<forall>a \<in> set acts. \<not> writes_asset a) \<Longrightarrow> w_assets (fold (perform now) acts w) = w_assets w"
  by (induction acts arbitrary: w) (auto simp: perform_assets)

lemma interfere_ticks: "w_ticks (interfere w) = tl (w_ticks w)"
  by (simp add: interfere_def performs_keep_ticks)

lemma calm_step:
  assumes "asset_calm w"
  shows "\<not> t_fault (next_tick w)" and "asset_calm (interfere w)" and "w_assets (interfere w) = w_assets w"
proof -
  have "next_tick w \<in> set (w_ticks w) \<or> next_tick w = quiet_tick"
    by (auto simp: next_tick_def split: list.splits)
  then have t: "\<not> t_fault (next_tick w)" "\<forall>a \<in> set (t_acts (next_tick w)). \<not> writes_asset a"
    using assms by (auto simp: asset_calm_def quiet_tick_def)
  then show "\<not> t_fault (next_tick w)" by simp
  show "asset_calm (interfere w)"
    using assms by (cases "w_ticks w") (simp_all add: asset_calm_def interfere_ticks)
  show "w_assets (interfere w) = w_assets w"
    using t(2) by (simp add: interfere_def performs_assets)
qed

lemma calm_asset_io:
  assumes "asset_calm w"
  obtains w' where "asset_io f w = (Inr (fst (f (next_tick w) (w_assets w))), w')"
    and "asset_calm w'" and "w_assets w' = snd (f (next_tick w) (w_assets w))"
proof -
  note step = calm_step [OF assms]
  let ?w' = "interfere w\<lparr>w_assets := snd (f (next_tick w) (w_assets w))\<rparr>"
  have "asset_io f w = (Inr (fst (f (next_tick w) (w_assets w))), ?w')"
    using step by (simp add: asset_io_def atomic_def case_prod_beta)
  moreover have "asset_calm ?w'" using step(2) by (simp add: asset_calm_def)
  ultimately show thesis by (intro that [of ?w']) simp_all
qed

lemma calm_asset_get:
  assumes "asset_calm w"
  obtains w' where "asset_get asset_id w = (Inr (dir_get asset_id (w_assets w)), w')"
    and "asset_calm w'" and "w_assets w' = w_assets w"
  using calm_asset_io [OF assms, of "\<lambda>t dir. (dir_get asset_id dir, dir)"] by (auto simp: asset_get_def)

lemma calm_asset_save:
  assumes "asset_calm w"
  obtains w' where "asset_save a w = (Inr (), w')"
    and "asset_calm w'" and "w_assets w' = dir_write (as_id a) a (w_assets w)"
  using calm_asset_io [OF assms, of "\<lambda>t dir. ((), dir_write (as_id a) a dir)"] by (auto simp: asset_save_def)

lemma calm_read_now: "asset_calm w \<Longrightarrow> \<exists>now w'. read_now w = (Inr now, w') \<and> asset_calm w' \<and> w_assets w' = w_assets w"
  using calm_step by (auto simp: read_now_def atomic_def)

text \<open>A listing, with no other writer: the documents of the directory, one read after the other.\<close>

lemma calm_steps: "asset_calm w \<Longrightarrow> asset_calm ((interfere ^^ n) w) \<and> w_assets ((interfere ^^ n) w) = w_assets w"
  by (induction n) (simp_all add: calm_step)

lemma quiet_steps: "w_ticks w = [] \<Longrightarrow> (interfere ^^ n) w = w"
  by (induction n) (simp_all add: interfere_def next_tick_def quiet_tick_def)

lemma calm_asset_read:
  assumes "asset_calm w"
  shows "asset_io (\<lambda>t dir. (g dir, dir)) w = (Inr (g (w_assets w)), interfere w)"
proof -
  have "interfere w\<lparr>w_assets := w_assets w\<rparr> = interfere w" using calm_step(3) [OF assms] by (cases "interfere w") simp
  then show ?thesis using calm_step [OF assms] by (simp add: asset_io_def atomic_def)
qed

definition loads :: "asset directory \<Rightarrow> string \<Rightarrow> asset list" where
  "loads dir name = (case dir_get name dir of None \<Rightarrow> [] | Some a \<Rightarrow> [a])"

lemma calm_asset_load:
  "asset_calm w \<Longrightarrow> name \<in> fst ` set (w_assets w) \<Longrightarrow> asset_load name w = (Inr (loads (w_assets w) name), interfere w)"
  by (cases "map_of (w_assets w) name")
    (auto simp: asset_load_def bnd_def calm_asset_read [of w "\<lambda>dir. map_of dir name"] ret_def loads_def dir_get_def
      loaded_def map_of_eq_None_iff split: json_file.splits)

lemma calm_asset_loads:
  "asset_calm w \<Longrightarrow> set names \<subseteq> fst ` set (w_assets w) \<Longrightarrow>
   collect asset_load names w = (Inr (map (loads (w_assets w)) names), (interfere ^^ length names) w)"
proof (induction names arbitrary: w)
  case (Cons name names)
  then show ?case
    by (simp add: bnd_def calm_asset_load calm_step ret_def funpow_swap1)
qed (simp add: ret_def)

definition has_asset :: "string \<Rightarrow> asset directory \<Rightarrow> bool" where
  "has_asset job_id dir \<longleftrightarrow> (\<exists>name \<in> fst ` set dir. \<exists>a \<in> set (loads dir name). as_job_id a = job_id)"

lemma calm_primary:
  assumes "asset_calm w"
  shows "\<exists>n found. asset_get_primary_by_job job_id w = (Inr found, (interfere ^^ n) w) \<and>
     (found \<noteq> None \<longleftrightarrow> has_asset job_id (w_assets w))"
proof -
  let ?dir = "w_assets w"
  let ?names = "dir_names ?dir"
  let ?assets = "newest_first (concat (map (loads ?dir) ?names))"
  let ?mine = "filter (\<lambda>a. as_job_id a = job_id) ?assets"
  have "asset_io (\<lambda>t dir. (dir_names dir, dir)) w = (Inr ?names, interfere w)"
    using assms by (rule calm_asset_read)
  moreover have "collect asset_load ?names (interfere w) = (Inr (map (loads ?dir) ?names), (interfere ^^ length ?names) (interfere w))"
    using calm_asset_loads [of "interfere w" ?names] calm_step [OF assms] by simp
  moreover have "(interfere ^^ length ?names) (interfere w) = (interfere ^^ Suc (length ?names)) w"
    by (simp only: funpow_Suc_right comp_apply)
  ultimately have run: "asset_get_primary_by_job job_id w =
      (Inr (case ?mine of [] \<Rightarrow> None | a # _ \<Rightarrow> Some a), (interfere ^^ Suc (length ?names)) w)"
    by (simp add: asset_get_primary_by_job_def asset_get_by_job_def asset_list_all_def bnd_def ret_def del: funpow.simps)
  have "set ?assets = (\<Union>name \<in> fst ` set ?dir. set (loads ?dir name))" by (auto simp: newest_first_def)
  then have "?mine \<noteq> [] \<longleftrightarrow> has_asset job_id ?dir" by (auto simp: filter_empty_conv has_asset_def)
  then have "(case ?mine of [] \<Rightarrow> None | a # _ \<Rightarrow> Some a) \<noteq> None \<longleftrightarrow> has_asset job_id ?dir"
    by (cases ?mine) simp_all
  with run show ?thesis by blast
qed

text \<open>One output, with no other writer: the new record is a function of the old one.\<close>

lemma calm_sync_output:
  assumes "asset_calm w" and "sync_output env job result (i, path) w = (r, w')"
  obtains (refused) e where "r = Inl e" and "w_assets w' = w_assets w" and "asset_calm w'"
  | (kept) a b where "r = Inr a" and "w_assets w' = w_assets w" and "asset_calm w'"
      and "dir_get (stable_asset_id env (jr_id job) path) (w_assets w) = Some a"
      and "synced_asset env job result i path (Some a) = Inr b" and "same_asset_state a b"
  | (written) a now where "r = Inr (a\<lparr>as_updated_at := now\<rparr>)" and "asset_calm w'"
      and "synced_asset env job result i path
             (dir_get (stable_asset_id env (jr_id job) path) (w_assets w)) = Inr a"
      and "w_assets w' = dir_write (stable_asset_id env (jr_id job) path) (a\<lparr>as_updated_at := now\<rparr>) (w_assets w)"
proof -
  let ?id = "stable_asset_id env (jr_id job) path"
  obtain w1 where get: "asset_get ?id w = (Inr (dir_get ?id (w_assets w)), w1)" "asset_calm w1"
    "w_assets w1 = w_assets w"
    using assms(1) by (rule calm_asset_get)
  define existing where "existing = dir_get ?id (w_assets w)"
  note run = assms(2) [unfolded sync_output_def, simplified, unfolded bnd_def [of "asset_get ?id"],
      unfolded get(1), simplified, folded existing_def]
  show thesis
  proof (cases "synced_asset env job result i path existing")
    case (Inl e)
    with run get show thesis by (intro refused) auto
  next
    case (Inr a)
    show thesis
    proof (cases "case existing of None \<Rightarrow> False | Some old \<Rightarrow> same_asset_state old a")
      case True
      then obtain old where old: "existing = Some old" "same_asset_state old a" by (auto split: option.splits)
      with run Inr get show thesis by (intro kept [where a = old and b = a]) (auto simp: existing_def)
    next
      case False
      obtain now w2 where now: "read_now w1 = (Inr now, w2)" "asset_calm w2" "w_assets w2 = w_assets w"
        using calm_read_now [OF get(2)] get(3) by auto
      obtain w3 where save: "asset_save (a\<lparr>as_updated_at := now\<rparr>) w2 = (Inr (), w3)" "asset_calm w3"
        "w_assets w3 = dir_write (as_id a) (a\<lparr>as_updated_at := now\<rparr>) (w_assets w)"
        using calm_asset_save [OF now(2), of "a\<lparr>as_updated_at := now\<rparr>"] now(3) by auto
      have "as_id a = ?id" using Inr by (auto simp: synced_asset_def Let_def split: sum.splits)
      moreover have "r = Inr (a\<lparr>as_updated_at := now\<rparr>) \<and> w' = w3"
        using run Inr False now(1) save(1) by (simp add: bnd_def ret_def)
      ultimately show thesis using save Inr by (intro written [where a = a and now = now]) (auto simp: existing_def)
    qed
  qed
qed

section \<open>A record made from a record\<close>

text \<open>What the source passes around as dictionaries has distinct keys at every level.\<close>

definition asset_ok :: "asset \<Rightarrow> bool" where
  "asset_ok a \<longleftrightarrow> dict_ok (as_metadata a)"

definition result_ok :: "generation_result \<Rightarrow> bool" where
  "result_ok result \<longleftrightarrow> dict_ok (res_metadata result)"

lemma variation_ok:
  assumes "result_ok result"
  shows "dict_ok (si_metadata (sync_input_of result))"
    and "dict_ok (variation_metadata_for_output (si_variations (sync_input_of result)) path i)"
proof -
  show "dict_ok (si_metadata (sync_input_of result))"
    using assms by (simp add: sync_input_of_def result_ok_def dict_ok_pop)
  have "dict_ok d" if d: "d \<in> set (si_variations (sync_input_of result))" for d
  proof -
    obtain items where items: "map_of (res_metadata result) ''variations'' = Some (JArr items)"
      "d \<in> set (concat (map (\<lambda>i. case i of JObj d \<Rightarrow> [d] | _ \<Rightarrow> []) items))"
      using d by (cases "map_of (res_metadata result) ''variations''")
        (auto simp: sync_input_of_def split: json.splits)
    then obtain i where "i \<in> set items" "d \<in> set (case i of JObj d \<Rightarrow> [d] | _ \<Rightarrow> [])" by auto
    then have "JObj d \<in> set items" by (cases i) auto
    then have "json_ok (JArr items)" using assms items(1) unfolding result_ok_def dict_ok_iff by blast
    with \<open>JObj d \<in> set items\<close> show ?thesis unfolding dict_ok_def by (metis json_ok.simps(1))
  qed
  then show "dict_ok (variation_metadata_for_output (si_variations (sync_input_of result)) path i)"
    by (auto simp: variation_metadata_for_output_def find_Some_iff split: option.splits)
qed

lemma snapshot_ok:
  assumes "dict_ok metadata" and "request_ok (jr_request job)"
  shows "json_ok (effective_request_snapshot job metadata)"
proof -
  have "dict_ok q" if "map_of metadata ''params'' = Some (JObj q)" for q
    unfolding dict_ok_def [of q] using assms(1) that by (metis dict_ok_iff)
  moreover have "dict_ok (req_params (jr_request job))"
    using assms(2) by (simp only: request_ok_def dict_ok_def)
  ultimately have "dict_ok (case map_of metadata ''params'' of
      Some (JObj q) \<Rightarrow> dict_update (req_params (jr_request job)) q | _ \<Rightarrow> req_params (jr_request job))"
    by (auto intro: dict_ok_update split: option.split json.split)
  then have params: "dict_ok (effective_params (req_params (jr_request job)) metadata)"
    by (auto simp: effective_params_def Let_def intro: dict_ok_pop)
  have reference: "json_ok (reference_json r)" for r by (simp add: reference_json_def)
  have "json_ok (text_or_null t)" for t by (cases t) (simp_all add: text_or_null_def)
  with params reference show ?thesis
    by (simp add: effective_request_snapshot_def request_json_def Let_def dict_ok_def split: option.split)
qed

lemma snapshot_cong:
  assumes "\<And>k. k \<in> {''params'', ''model_id'', ''seed'', ''output_format''} \<Longrightarrow> map_of m k = map_of m' k"
  shows "effective_request_snapshot job m = effective_request_snapshot job m'"
  using assms by (simp add: effective_request_snapshot_def effective_params_def)

lemma merged_ok:
  assumes "result_ok result" and "request_ok (jr_request job)" and "\<And>d. existing = Some d \<Longrightarrow> dict_ok d"
  shows "dict_ok (counted (merged_metadata existing job (sync_input_of result)
      (variation_metadata_for_output (si_variations (sync_input_of result)) path i)) n exports)"
  using assms variation_ok [OF assms(1)]
  by (auto simp: counted_def merged_metadata_def Let_def
      intro!: dict_ok_set dict_ok_update snapshot_ok split: option.splits)

text \<open>Updating once more with the same dictionaries.\<close>

definition layered :: "dict \<Rightarrow> dict \<Rightarrow> dict \<Rightarrow> dict" where
  "layered d md v = dict_update (dict_update d md) v"

lemma layered_get:
  "map_of (layered d md v) k =
     (case map_of (rev v) k of Some x \<Rightarrow> Some x
      | None \<Rightarrow> (case map_of (rev md) k of Some x \<Rightarrow> Some x | None \<Rightarrow> map_of d k))"
  by (simp add: layered_def dict_get_update map_add_def split: option.splits)

lemma layered_again: "map_of d k = map_of (layered e md v) k \<Longrightarrow> map_of (layered d md v) k = map_of (layered e md v) k"
  by (auto simp: layered_get split: option.splits)

lemma layered_either:
  "map_of (layered d md v) k = map_of (layered e md v) k \<or> map_of (layered d md v) k = map_of d k"
  by (auto simp: layered_get split: option.splits)

text \<open>Merging the result into metadata it was already merged into changes nothing.\<close>

lemma merged_again:
  fixes job existing variation si exports
  defines "m \<equiv> merged_metadata existing job si variation"
  assumes "reuse_count_of m = Inr n"
  shows "reuse_count_of (merged_metadata (Some (counted m n exports)) job si variation) = Inr n"
    and "map_of (counted (merged_metadata (Some (counted m n exports)) job si variation) n exports) =
         map_of (counted m n exports)"
proof -
  let ?keys = "{''request_snapshot'', ''reuse_count'', ''export_count''}"
  define m0 where "m0 = layered (case existing of None \<Rightarrow> [] | Some d \<Rightarrow> d) (si_metadata si) variation"
  define m1 where "m1 = layered (counted m n exports) (si_metadata si) variation"
  have m: "m = dict_set ''request_snapshot'' (effective_request_snapshot job m0) m0"
    by (simp add: m_def merged_metadata_def m0_def layered_def Let_def)
  have again: "merged_metadata (Some (counted m n exports)) job si variation =
      dict_set ''request_snapshot'' (effective_request_snapshot job m1) m1"
    by (simp add: merged_metadata_def m1_def layered_def Let_def)
  have same: "map_of m1 k = map_of m0 k" if "k \<notin> ?keys" for k
  proof -
    have "map_of (counted m n exports) k = map_of m0 k" using that by (simp add: counted_def m)
    then show ?thesis unfolding m1_def m0_def by (rule layered_again)
  qed
  have snap: "effective_request_snapshot job m1 = effective_request_snapshot job m0"
  proof (rule snapshot_cong)
    fix k :: string
    assume "k \<in> {''params'', ''model_id'', ''seed'', ''output_format''}"
    then have "k \<notin> ?keys" by (elim insertE emptyE) simp_all
    then show "map_of m1 k = map_of m0 k" by (rule same)
  qed
  have reuse: "map_of m1 ''reuse_count'' = map_of m0 ''reuse_count'' \<or> map_of m1 ''reuse_count'' = Some (JInt n)"
  proof -
    have "map_of (counted m n exports) ''reuse_count'' = Some (JInt n)" by (simp add: counted_def)
    then show ?thesis using layered_either [of "counted m n exports" "si_metadata si" variation "''reuse_count''"]
      unfolding m1_def m0_def by simp
  qed
  show "reuse_count_of (merged_metadata (Some (counted m n exports)) job si variation) = Inr n"
  proof -
    have m0: "reuse_count_of m0 = Inr n" using assms(2) unfolding m by (simp add: reuse_count_of_def)
    have "reuse_count_of m1 = Inr n" using reuse
    proof
      assume "map_of m1 ''reuse_count'' = map_of m0 ''reuse_count''"
      with m0 show ?thesis by (simp add: reuse_count_of_def)
    next
      assume "map_of m1 ''reuse_count'' = Some (JInt n)"
      then show ?thesis by (simp add: reuse_count_of_def json_int_def)
    qed
    then show ?thesis unfolding again by (simp add: reuse_count_of_def)
  qed
  show "map_of (counted (merged_metadata (Some (counted m n exports)) job si variation) n exports) =
         map_of (counted m n exports)"
  proof (rule ext)
    fix k
    show "map_of (counted (merged_metadata (Some (counted m n exports)) job si variation) n exports) k =
         map_of (counted m n exports) k"
    proof (cases "k \<in> ?keys")
      case True
      then show ?thesis unfolding again unfolding counted_def snap m by (elim insertE emptyE) simp_all
    next
      case False
      then show ?thesis using same [OF False] unfolding again unfolding counted_def snap m by simp
    qed
  qed
qed

lemma merged_lineage_again: "merged_lineage p (merged_lineage p l) = merged_lineage p l"
  by (auto simp: merged_lineage_def split: option.splits)

lemma synced_again:
  assumes "synced_asset env job result i path existing = Inr a"
    and "result_ok result" and "request_ok (jr_request job)" and "\<And>old. existing = Some old \<Longrightarrow> asset_ok old"
  shows "\<exists>b. synced_asset env job result i path (Some (a\<lparr>as_updated_at := now\<rparr>)) = Inr b \<and>
     same_asset_state (a\<lparr>as_updated_at := now\<rparr>) b" and "asset_ok (a\<lparr>as_updated_at := now\<rparr>)"
proof -
  let ?si = "sync_input_of result"
  let ?v = "variation_metadata_for_output (si_variations ?si) path i"
  let ?m = "merged_metadata (map_option as_metadata existing) job ?si ?v"
  let ?exports = "case existing of None \<Rightarrow> [] | Some a \<Rightarrow> as_export_paths a"
  obtain n where n: "reuse_count_of ?m = Inr n"
    and meta: "as_metadata a = counted ?m n ?exports" and exports: "as_export_paths a = ?exports"
    using assms(1) by (auto simp: synced_asset_def Let_def split: sum.splits)
  have ok: "dict_ok (as_metadata a)"
    unfolding meta using assms(2,3,4) by (intro merged_ok) (auto simp: asset_ok_def)
  then show "asset_ok (a\<lparr>as_updated_at := now\<rparr>)" by (simp add: asset_ok_def)
  note again = merged_again [where exports = "?exports", OF n]
  obtain b where b: "synced_asset env job result i path (Some (a\<lparr>as_updated_at := now\<rparr>)) = Inr b"
    and bmeta: "as_metadata b =
      counted (merged_metadata (Some (counted ?m n ?exports)) job ?si ?v) n ?exports"
    using again(1) meta exports by (simp add: synced_asset_def Let_def)
  have rest: "b\<lparr>as_metadata := [], as_updated_at := []\<rparr> = a\<lparr>as_metadata := [], as_updated_at := []\<rparr>"
    using assms(1) b again(1) meta exports n
    by (auto simp: synced_asset_def Let_def merged_lineage_again split: sum.splits option.splits)
  have "dict_ok (as_metadata b)"
    unfolding bmeta using assms(2,3) ok meta by (intro merged_ok) auto
  with ok have "dict_eq (as_metadata a) (as_metadata b)"
    by (intro dict_eq_same) (simp_all only: meta bmeta again(2))
  with b rest show "\<exists>b. synced_asset env job result i path (Some (a\<lparr>as_updated_at := now\<rparr>)) = Inr b \<and>
     same_asset_state (a\<lparr>as_updated_at := now\<rparr>) b"
    by (simp add: same_asset_state_def)
qed

section \<open>A job's outputs\<close>

definition output_id :: "asset_env \<Rightarrow> job_record \<Rightarrow> nat \<times> string \<Rightarrow> string" where
  "output_id env job ip = stable_asset_id env (jr_id job) (snd ip)"

definition settled ::
  "asset_env \<Rightarrow> job_record \<Rightarrow> generation_result \<Rightarrow> asset directory \<Rightarrow> nat \<times> string \<Rightarrow> asset \<Rightarrow> bool" where
  "settled env job result dir ip a \<longleftrightarrow>
     dir_get (output_id env job ip) dir = Some a \<and>
     (\<exists>b. synced_asset env job result (fst ip) (snd ip) (Some a) = Inr b \<and> same_asset_state a b)"

definition dir_ok :: "asset directory \<Rightarrow> bool" where
  "dir_ok dir \<longleftrightarrow> (\<forall>asset_id a. dir_get asset_id dir = Some a \<longrightarrow> asset_ok a)"

lemma sync_output_settles:
  assumes "asset_calm w" and "sync_output env job result ip w = (Inr a, w')"
    and "result_ok result" and "request_ok (jr_request job)" and "dir_ok (w_assets w)"
  shows "settled env job result (w_assets w') ip a" and "dir_ok (w_assets w')" and "asset_calm w'"
    and "asset_id \<noteq> output_id env job ip \<Longrightarrow> dir_get asset_id (w_assets w') = dir_get asset_id (w_assets w)"
proof -
  obtain i path where ip: "ip = (i, path)" by (cases ip)
  let ?id = "stable_asset_id env (jr_id job) path"
  let ?goal = "settled env job result (w_assets w') ip a \<and> dir_ok (w_assets w') \<and> asset_calm w' \<and>
    (asset_id \<noteq> output_id env job ip \<longrightarrow> dir_get asset_id (w_assets w') = dir_get asset_id (w_assets w))"
  from assms(1) assms(2) [unfolded ip] have ?goal
  proof (cases rule: calm_sync_output)
    case (kept old b)
    with assms(5) show ?thesis by (auto simp: settled_def output_id_def ip)
  next
    case (written c now)
    have old: "\<And>old. dir_get ?id (w_assets w) = Some old \<Longrightarrow> asset_ok old"
      using assms(5) by (auto simp: dir_ok_def)
    note again = synced_again [OF written(3) assms(3,4) old, where now = now]
    have a: "a = c\<lparr>as_updated_at := now\<rparr>" using written(1) by simp
    have "settled env job result (w_assets w') ip a"
      using again(1) written(4) by (simp add: settled_def output_id_def ip a)
    moreover have "dir_ok (w_assets w')"
      using again(2) assms(5) written(4) by (auto simp: dir_ok_def)
    ultimately show ?thesis using written(2,4) by (simp add: output_id_def ip)
  qed simp
  then show "settled env job result (w_assets w') ip a" "dir_ok (w_assets w')" "asset_calm w'"
    "asset_id \<noteq> output_id env job ip \<Longrightarrow> dir_get asset_id (w_assets w') = dir_get asset_id (w_assets w)"
    by auto
qed

lemma sync_outputs_settle:
  assumes "asset_calm w" and "collect (sync_output env job result) ips w = (Inr assets, w')"
    and "result_ok result" and "request_ok (jr_request job)" and "dir_ok (w_assets w)"
    and "distinct (map (output_id env job) ips)"
  shows "list_all2 (settled env job result (w_assets w')) ips assets \<and>
     (\<forall>asset_id. asset_id \<notin> output_id env job ` set ips \<longrightarrow>
        dir_get asset_id (w_assets w') = dir_get asset_id (w_assets w))"
  using assms(1,2,5,6)
proof (induction ips arbitrary: w assets)
  case (Cons ip ips)
  obtain a w1 as where one: "sync_output env job result ip w = (Inr a, w1)"
    and rest: "collect (sync_output env job result) ips w1 = (Inr as, w')" and assets: "assets = a # as"
    using Cons.prems(2) by (auto elim!: bnd_runs)
  note step = sync_output_settles [OF Cons.prems(1) one assms(3,4) Cons.prems(3)]
  have "list_all2 (settled env job result (w_assets w')) ips as \<and>
     (\<forall>asset_id. asset_id \<notin> output_id env job ` set ips \<longrightarrow>
        dir_get asset_id (w_assets w') = dir_get asset_id (w_assets w1))"
    using Cons.IH [OF step(3) rest step(2)] Cons.prems(4) by simp
  moreover from this step(1) Cons.prems(4) have "settled env job result (w_assets w') ip a"
    by (auto simp: settled_def)
  ultimately show ?case using step(4) assets by auto
qed simp

lemma settled_outputs_stay:
  assumes "asset_calm w" and "list_all2 (settled env job result (w_assets w)) ips assets"
  shows "\<exists>w'. collect (sync_output env job result) ips w = (Inr assets, w') \<and> w_assets w' = w_assets w"
  using assms
proof (induction ips arbitrary: w assets)
  case (Cons ip ips)
  obtain a as where assets: "assets = a # as" and a: "settled env job result (w_assets w) ip a"
    and rest: "list_all2 (settled env job result (w_assets w)) ips as"
    using Cons.prems(2) by (auto simp: list_all2_Cons1)
  obtain i path where ip: "ip = (i, path)" by (cases ip)
  let ?id = "stable_asset_id env (jr_id job) path"
  obtain w1 where get: "asset_get ?id w = (Inr (dir_get ?id (w_assets w)), w1)" "asset_calm w1"
    "w_assets w1 = w_assets w"
    using Cons.prems(1) by (rule calm_asset_get)
  have "sync_output env job result ip w = (Inr a, w1)"
    using a get(1) by (auto simp: settled_def output_id_def sync_output_def bnd_def ip)
  moreover obtain w2 where "collect (sync_output env job result) ips w1 = (Inr as, w2)" "w_assets w2 = w_assets w"
    using Cons.IH [OF get(2), of as] rest get(3) by auto
  ultimately show ?case using assets by (simp add: bnd_def)
qed (simp add: ret_def)

definition job_outputs :: "generation_result \<Rightarrow> (nat \<times> string) list" where
  "job_outputs result = List.enumerate 0 (filter (\<lambda>output. output \<noteq> []) (res_outputs result))"

text \<open>
  Synchronising a job's assets is idempotent. Once it has succeeded, and as long as the asset
  files stay as it left them and no other thread writes one meanwhile, synchronising the same
  job again gives the very same records and writes nothing, although what it merges into a
  record is by then already there. Assumed are distinct file ids for the outputs (no duplicate
  path and no SHA-1 collision among them) and that dictionaries have distinct keys.
\<close>

theorem sync_job_idempotent:
  assumes "asset_sync_job env job w = (Inr assets, w1)" and "asset_calm w"
    and "\<And>result. jr_result job = Some result \<Longrightarrow>
           result_ok result \<and> distinct (map (output_id env job) (job_outputs result))"
    and "request_ok (jr_request job)" and "dir_ok (w_assets w)"
    and "asset_calm w2" and "w_assets w2 = w_assets w1"
  shows "\<exists>w3. asset_sync_job env job w2 = (Inr assets, w3) \<and> w_assets w3 = w_assets w1"
proof (cases "jr_result job")
  case None
  with assms(1,7) show ?thesis by (simp add: asset_sync_job_def ret_def)
next
  case (Some result)
  show ?thesis
  proof (cases "jr_status job = Succeeded")
    case False
    with assms(1,7) Some show ?thesis by (simp add: asset_sync_job_def ret_def)
  next
    case True
    with assms(1) Some have run: "collect (sync_output env job result) (job_outputs result) w = (Inr assets, w1)"
      by (simp add: asset_sync_job_def job_outputs_def)
    with assms Some have "list_all2 (settled env job result (w_assets w2)) (job_outputs result) assets"
      using sync_outputs_settle [OF assms(2) run] by simp
    from settled_outputs_stay [OF assms(6) this] assms(7) True Some show ?thesis
      by (simp add: asset_sync_job_def job_outputs_def)
  qed
qed

definition sample_assets :: asset_env where
  "sample_assets = \<lparr>ae_sha1 = id, ae_str = (\<lambda>_. [])\<rparr>"

definition sample_result :: generation_result where
  "sample_result =
     \<lparr>res_job_id = ''job_1'', res_status = Succeeded, res_outputs = [''a.png'', ''b.png''], res_previews = [],
      res_metadata = [(''seed'', JInt 7)], res_error_message = None\<rparr>"

definition sample_done :: job_record where
  "sample_done = sample_job\<lparr>jr_status := Succeeded, jr_result := Some sample_result\<rparr>"

theorem sync_job_idempotent_witness:
  "\<exists>assets w1 w3. asset_sync_job sample_assets sample_done sample_world = (Inr assets, w1) \<and> length assets = 2 \<and>
     asset_sync_job sample_assets sample_done w1 = (Inr assets, w3) \<and> w_assets w3 = w_assets w1"
proof -
  let ?run = "asset_sync_job sample_assets sample_done sample_world"
  have eval: "case fst ?run of Inr assets \<Rightarrow> length assets = 2 | _ \<Rightarrow> False" "w_ticks (snd ?run) = []"
    by code_simp+
  then obtain assets w1 where run: "?run = (Inr assets, w1)" "length assets = 2" "w_ticks w1 = []"
    by (cases ?run) (auto split: sum.splits)
  have result: "jr_result sample_done = Some sample_result" by (simp add: sample_done_def)
  have "result_ok sample_result" by (simp add: result_ok_def dict_ok_def sample_result_def)
  moreover have "distinct (map (output_id sample_assets sample_done) (job_outputs sample_result))"
    by code_simp
  moreover have "request_ok (jr_request sample_done)"
    by (simp add: request_ok_def sample_done_def sample_job_def sample_job_request_def)
  moreover have "dir_ok (w_assets sample_world)" by (simp add: dir_ok_def dir_get_def loaded_def sample_world_def)
  moreover have "asset_calm sample_world" by (simp add: asset_calm_def sample_world_def)
  moreover have "asset_calm w1" using run(3) by (simp add: asset_calm_def)
  ultimately have "\<exists>w3. asset_sync_job sample_assets sample_done w1 = (Inr assets, w3) \<and> w_assets w3 = w_assets w1"
    using sync_job_idempotent [OF run(1), of w1] result by simp
  with run show ?thesis by blast
qed

section \<open>Annotations\<close>

definition annotated :: "asset \<Rightarrow> asset \<Rightarrow> bool" where
  "annotated old new \<longleftrightarrow>
     as_tags new = as_tags old \<and> as_export_paths new = as_export_paths old \<and>
     as_created_at new = as_created_at old \<and> prefix (as_lineage old) (as_lineage new)"

definition keeps_annotations :: "asset directory \<Rightarrow> asset directory \<Rightarrow> bool" where
  "keeps_annotations dir dir' \<longleftrightarrow>
     (\<forall>asset_id old. dir_get asset_id dir = Some old \<longrightarrow>
        (\<exists>new. dir_get asset_id dir' = Some new \<and> annotated old new))"

lemma annotated_synced: "synced_asset env job result i path (Some old) = Inr new \<Longrightarrow> annotated old (new\<lparr>as_updated_at := now\<rparr>)"
  by (auto simp: synced_asset_def Let_def annotated_def merged_lineage_def split: sum.splits option.splits)

lemma keeps_annotations_refl: "keeps_annotations dir dir"
  by (simp add: keeps_annotations_def annotated_def)

lemma sync_output_annotations:
  assumes "asset_calm w" and "sync_output env job result ip w = (r, w')"
  shows "keeps_annotations (w_assets w) (w_assets w') \<and> asset_calm w'"
proof -
  obtain i path where ip: "ip = (i, path)" by (cases ip)
  have refl: "annotated a a" for a by (simp add: annotated_def)
  from assms(1) assms(2) [unfolded ip] show ?thesis
  proof (cases rule: calm_sync_output)
    case (written a now)
    then show ?thesis using refl annotated_synced by (auto simp: keeps_annotations_def)
  qed (use refl in \<open>auto simp: keeps_annotations_def\<close>)
qed

lemma annotated_trans: "annotated a b \<Longrightarrow> annotated b c \<Longrightarrow> annotated a c"
  by (auto simp: annotated_def intro: prefix_order.trans)

lemma keeps_annotations_trans:
  "keeps_annotations a b \<Longrightarrow> keeps_annotations b c \<Longrightarrow> keeps_annotations a c"
  unfolding keeps_annotations_def using annotated_trans by blast

lemma sync_outputs_annotations:
  "asset_calm w \<Longrightarrow> collect (sync_output env job result) ips w = (r, w') \<Longrightarrow> keeps_annotations (w_assets w) (w_assets w')"
proof (induction ips arbitrary: w r)
  case Nil
  then show ?case by (simp add: keeps_annotations_def annotated_def)
next
  case (Cons ip ips)
  from Cons.prems(2) show ?case unfolding collect.simps
  proof (cases rule: bnd_runs)
    case (raised e)
    then show ?thesis using sync_output_annotations Cons.prems(1) by blast
  next
    case (went_on a w1)
    note first = sync_output_annotations [OF Cons.prems(1) went_on(1)]
    from went_on(2) obtain q where "collect (sync_output env job result) ips w1 = (q, w')"
      by (auto elim!: bnd_runs)
    with first have "keeps_annotations (w_assets w1) (w_assets w')" by (intro Cons.IH) auto
    with first keeps_annotations_trans show ?thesis by blast
  qed
qed

text \<open>
  C37: what people added to an asset survives synchronisation. Suppose no other thread writes asset
  files meanwhile and no read or write of one fails. Then, whether it returns or raises for another
  reason, after synchronising any job every asset record that loaded before still loads, with its
  tags, its exports and its creation time, and with its lineage only extended. With another writer
  it is false: \<open>concurrent_export_is_lost\<close> below.
\<close>

theorem sync_keeps_annotations:
  assumes "asset_sync_job env job w = (r, w')" and "asset_calm w"
    and "dir_get asset_id (w_assets w) = Some old"
  shows "\<exists>new. dir_get asset_id (w_assets w') = Some new \<and> annotated old new"
proof -
  have "keeps_annotations (w_assets w) (w_assets w')"
    using assms(1,2) keeps_annotations_refl
    by (auto simp: asset_sync_job_def split: option.splits if_splits intro: sync_outputs_annotations)
  with assms(3) show ?thesis by (auto simp: keeps_annotations_def)
qed

definition kept_asset :: asset where
  "kept_asset =
     \<lparr>as_id = ''asset_job_1:a.png'', as_job_id = ''job_1'', as_project_id = Some ''old'', as_media_type = ''image'',
      as_kind = ''output'', as_title = [], as_prompt = [], as_model_id = [], as_path = ''a.png'',
      as_preview_path = None, as_parent_asset_id = None, as_lineage = [''asset_0''], as_export_paths = [],
      as_tags = [''keep''], as_metadata = [], as_created_at = ''2024'', as_updated_at = ''2024''\<rparr>"

definition annotated_world :: "tick list \<Rightarrow> world" where
  "annotated_world ticks =
     sample_world\<lparr>w_assets := [(''asset_job_1:a.png'', Document kept_asset)], w_ticks := ticks\<rparr>"

theorem sync_keeps_annotations_witness:
  "\<exists>new. dir_get ''asset_job_1:a.png'' (w_assets (snd (asset_sync_job sample_assets sample_done (annotated_world [])))) =
       Some new \<and> annotated kept_asset new"
proof -
  have "asset_calm (annotated_world [])" by (simp add: asset_calm_def annotated_world_def)
  moreover have "dir_get ''asset_job_1:a.png'' (w_assets (annotated_world [])) = Some kept_asset"
    by (simp add: annotated_world_def dir_get_def loaded_def)
  ultimately show ?thesis
    using sync_keeps_annotations [of sample_assets sample_done "annotated_world []"]
    by (cases "asset_sync_job sample_assets sample_done (annotated_world [])") simp
qed

text \<open>
  The condition on other writers is needed: an export that another thread records between the
  read and the write of \<open>sync_job\<close> is lost, since the repository has no lock.
\<close>

lemma concurrent_export_is_lost:
  "let export = Act_asset ''asset_job_1:a.png'' (Some (Document (with_export ''out.png'' kept_asset)));
       w = annotated_world [quiet_tick, quiet_tick, quiet_tick\<lparr>t_acts := [export]\<rparr>];
       w' = snd (asset_sync_job sample_assets sample_done w) in
   \<exists>a. dir_get ''asset_job_1:a.png'' (w_assets w') = Some a \<and> ''out.png'' \<notin> set (as_export_paths a)"
proof -
  let ?export = "Act_asset ''asset_job_1:a.png'' (Some (Document (with_export ''out.png'' kept_asset)))"
  let ?w = "annotated_world [quiet_tick, quiet_tick, quiet_tick\<lparr>t_acts := [?export]\<rparr>]"
  have "case dir_get ''asset_job_1:a.png'' (w_assets (snd (asset_sync_job sample_assets sample_done ?w))) of
      None \<Rightarrow> False | Some a \<Rightarrow> ''out.png'' \<notin> set (as_export_paths a)"
    by code_simp
  then show ?thesis by (auto simp: Let_def split: option.splits)
qed

end
