(* ===== verification/Replay_Selection.thy ===== *)
theory Replay_Selection imports Scene_Binding Asset_Sync begin

text \<open>
  \<open>core/story/replay_selection.py\<close>: which succeeded job fills a scene's role after a restart.

  One pass shares a snapshot of the succeeded jobs, grouped by the scene and role they target,
  with a note of the rows that could not be decoded. A job converges when its role is resolved
  or when it is the newest usable candidate; the story is only ever written by
  \<open>replay_job_safely\<close>.
\<close>

section \<open>The snapshot\<close>

datatype replay_outcome = Replay_converged | Replay_retryable | Replay_unresolved

record candidate_index =
  ci_candidates :: "(scene_key \<times> job_record list) list"
  ci_poisoned :: "scene_key list"
  ci_unattributable :: bool

fun group_candidates ::
  "(scene_key \<times> job_record list) list \<Rightarrow> job_record list \<Rightarrow> (scene_key \<times> job_record list) list" where
  "group_candidates groups [] = groups"
| "group_candidates groups (job # jobs) =
     (if jr_status job \<noteq> Succeeded then group_candidates groups jobs
      else (case scene_bound_params job of
              None \<Rightarrow> group_candidates groups jobs
            | Some key \<Rightarrow>
                group_candidates (AList.map_default key [job] (\<lambda>members. members @ [job]) groups) jobs))"

text \<open>What the undecodable rows say: the keys they target, and whether one hides its target.\<close>

fun poison_notes ::
  "(raw_status option \<times> dict option) list \<Rightarrow> scene_key list \<times> bool" where
  "poison_notes [] = ([], False)"
| "poison_notes ((status, params) # peeks) =
     (case poison_notes peeks of (keys, hidden) \<Rightarrow>
        if status \<noteq> Some (Known Succeeded) then (keys, hidden)
        else (case params of
                None \<Rightarrow> (keys, True)
              | Some p \<Rightarrow> (case scene_key_of p of None \<Rightarrow> (keys, hidden) | Some key \<Rightarrow> (key # keys, hidden))))"

definition build_scene_candidate_index :: "('x, candidate_index) job_io" where
  "build_scene_candidate_index =
     bnd repo_list_tolerant (\<lambda>(records, failures).
     bnd (collect (\<lambda>(job_id, e). repo_peek_raw_request_params job_id) failures) (\<lambda>peeks.
       ret \<lparr>ci_candidates = group_candidates [] records, ci_poisoned = fst (poison_notes peeks),
            ci_unattributable = snd (poison_notes peeks)\<rparr>))"

definition candidates_for_role :: "candidate_index \<Rightarrow> scene_key \<Rightarrow> job_record list \<times> bool" where
  "candidates_for_role index key =
     ((case map_of (ci_candidates index) key of None \<Rightarrow> [] | Some jobs \<Rightarrow> jobs),
      ci_unattributable index \<or> key \<in> set (ci_poisoned index))"

section \<open>Choosing\<close>

definition result_has_output :: "job_record \<Rightarrow> bool" where
  "result_has_output job =
     (case jr_result job of None \<Rightarrow> False | Some result \<Rightarrow> \<exists>output \<in> set (res_outputs result). output \<noteq> [])"

definition has_usable_output :: "job_record \<Rightarrow> ('x, bool) job_io" where
  "has_usable_output job =
     (if result_has_output job then ret True
      else bnd (asset_get_primary_by_job (jr_id job)) (\<lambda>a. ret (a \<noteq> None)))"

fun usable_among :: "job_record list \<Rightarrow> ('x, job_record list) job_io" where
  "usable_among [] = ret []"
| "usable_among (job # jobs) =
     bnd (has_usable_output job) (\<lambda>usable.
     bnd (usable_among jobs) (\<lambda>rest. ret (if usable then job # rest else rest)))"

definition winner_key :: "job_record \<Rightarrow> string \<times> string" where
  "winner_key job = (jr_created_at job, jr_id job)"

text \<open>\<open>max(candidates, key=...)\<close>, which keeps the first of equals.\<close>

fun select_winner :: "job_record \<Rightarrow> job_record list \<Rightarrow> job_record" where
  "select_winner best [] = best"
| "select_winner best (job # jobs) = select_winner (if winner_key best < winner_key job then job else best) jobs"

section \<open>Converging one job\<close>

definition scene_in :: "string \<Rightarrow> story_document \<Rightarrow> scene option" where
  "scene_in scene_id story = find (\<lambda>s. sc_id s = scene_id) (st_scenes story)"

text \<open>The look after a replay that bound nothing.\<close>

definition recheck_replay :: "scene_key \<Rightarrow> ('x, replay_outcome) job_io" where
  "recheck_replay = (\<lambda>(story_id, scene_id, role).
     bnd (story_get_for_recovery story_id) (\<lambda>(story, confirmed_absent).
       ret (case story of
              None \<Rightarrow> if confirmed_absent then Replay_converged else Replay_retryable
            | Some doc \<Rightarrow>
                (case scene_in scene_id doc of
                   None \<Rightarrow> Replay_converged
                 | Some s \<Rightarrow> if map_of (sc_asset_ids s) role \<noteq> None then Replay_converged else Replay_unresolved))))"

text \<open>The role is open and this job could fill it: pick the winner.\<close>

definition replay_winner ::
  "job_record \<Rightarrow> scene_key \<Rightarrow> candidate_index \<Rightarrow> ('x, replay_outcome) job_io" where
  "replay_winner job key index =
     (case candidates_for_role index key of (candidates, poisoned) \<Rightarrow>
        if poisoned then ret Replay_unresolved
        else
          bnd (usable_among candidates) (\<lambda>usable.
            let winner = (case usable of [] \<Rightarrow> job | c # cs \<Rightarrow> select_winner c cs) in
            if jr_id winner \<noteq> jr_id job then ret Replay_converged
            else
              bnd (replay_job_safely (jr_id job)) (\<lambda>result.
                case result of Some doc \<Rightarrow> ret Replay_converged | None \<Rightarrow> recheck_replay key)))"

definition converge_scene_binding ::
  "job_record \<Rightarrow> candidate_index option \<Rightarrow> ('x, replay_outcome) job_io" where
  "converge_scene_binding job index =
     (case scene_bound_params job of
        None \<Rightarrow> ret Replay_converged
      | Some (story_id, scene_id, role) \<Rightarrow>
          bnd (story_get_for_recovery story_id) (\<lambda>(story, confirmed_absent).
            case story of
              None \<Rightarrow> ret (if confirmed_absent then Replay_converged else Replay_retryable)
            | Some doc \<Rightarrow>
                (case scene_in scene_id doc of
                   None \<Rightarrow> ret Replay_converged
                 | Some s \<Rightarrow>
                     if jr_id job \<in> set (sc_job_ids s) \<or> map_of (sc_asset_ids s) role \<noteq> None then
                       bnd (replay_job_safely (jr_id job)) (\<lambda>_. ret Replay_converged)
                     else
                       bnd (has_usable_output job) (\<lambda>usable.
                         if \<not> usable then ret Replay_retryable
                         else
                           bnd (case index of None \<Rightarrow> build_scene_candidate_index | Some i \<Rightarrow> ret i)
                             (replay_winner job (story_id, scene_id, role))))))"

section \<open>The job lifecycle is left alone\<close>

lemma along_candidate_index [along]: "holds_along evolves build_scene_candidate_index"
  unfolding build_scene_candidate_index_def by (intro along_steps along)

lemma along_usable [along]:
  "holds_along evolves (has_usable_output job)" "holds_along evolves (usable_among jobs)"
proof -
  show one: "holds_along evolves (has_usable_output job)" for job
    unfolding has_usable_output_def by (intro along_steps along)
  show "holds_along evolves (usable_among jobs)" by (induction jobs) (auto intro!: along_steps one)
qed

lemma along_replay_winner [along]:
  "holds_along evolves (recheck_replay key)" "holds_along evolves (replay_winner job key index)"
proof -
  show re: "holds_along evolves (recheck_replay key)" for key
    unfolding recheck_replay_def by (intro along_steps along)
  show "holds_along evolves (replay_winner job key index)"
    unfolding replay_winner_def Let_def by (intro along_steps along re)
qed

lemma along_converge_scene [along]: "holds_along evolves (converge_scene_binding job index)"
  unfolding converge_scene_binding_def by (intro along_steps along)

section \<open>The winner\<close>

lemma select_winner_in: "select_winner best jobs \<in> insert best (set jobs)"
proof (induction jobs arbitrary: best)
  case (Cons job jobs)
  from Cons [of best] Cons [of job] show ?case by auto
qed simp

lemma select_winner_max: "c \<in> insert best (set jobs) \<Longrightarrow> winner_key c \<le> winner_key (select_winner best jobs)"
proof (induction jobs arbitrary: best c)
  case (Cons job jobs)
  define next_best where "next_best = (if winner_key best < winner_key job then job else best)"
  have step: "select_winner best (job # jobs) = select_winner next_best jobs" by (simp add: next_best_def)
  show ?case
  proof (cases "c \<in> set jobs")
    case True
    then show ?thesis unfolding step by (intro Cons.IH) simp
  next
    case False
    with Cons.prems have "winner_key c \<le> winner_key next_best"
      by (auto simp: next_best_def not_less)
    also have "\<dots> \<le> winner_key (select_winner next_best jobs)" by (rule Cons.IH) simp
    finally show ?thesis unfolding step .
  qed
qed simp

section \<open>Who writes\<close>

lemma usable_among_contains:
  assumes "usable_among jobs w = (Inr usable, v)"
  shows "set usable \<subseteq> set jobs \<and> {c \<in> set jobs. result_has_output c} \<subseteq> set usable"
  using assms
proof (induction jobs arbitrary: usable w v)
  case (Cons job jobs)
  obtain b w1 rest w2 where one: "has_usable_output job w = (Inr b, w1)"
    and more: "usable_among jobs w1 = (Inr rest, w2)" and usable: "usable = (if b then job # rest else rest)"
    using Cons.prems by (auto elim!: bnd_runs split: if_splits)
  have "b" if "result_has_output job" using one that by (simp add: has_usable_output_def)
  with Cons.IH [OF more] usable show ?case by auto
qed simp

text \<open>
  A candidate can fill its role when its result has outputs, or when an asset of it is on disk all
  the same. With no writer of assets and sound storage the code's own test decides just that.
\<close>

definition fills_role :: "asset directory \<Rightarrow> job_record \<Rightarrow> bool" where
  "fills_role dir job \<longleftrightarrow> result_has_output job \<or> has_asset (jr_id job) dir"

lemma calm_usable:
  assumes "asset_calm w"
  shows "\<exists>n. has_usable_output job w = (Inr (fills_role (w_assets w) job), (interfere ^^ n) w)"
proof (cases "result_has_output job")
  case True
  then have "has_usable_output job w = (Inr (fills_role (w_assets w) job), (interfere ^^ 0) w)"
    by (simp add: has_usable_output_def fills_role_def ret_def)
  then show ?thesis by blast
next
  case False
  with calm_primary [OF assms, of "jr_id job"] show ?thesis
    by (auto simp: has_usable_output_def fills_role_def bnd_def ret_def)
qed

lemma calm_usable_among:
  "asset_calm w \<Longrightarrow> \<exists>n. usable_among jobs w = (Inr (filter (fills_role (w_assets w)) jobs), (interfere ^^ n) w)"
proof (induction jobs arbitrary: w)
  case Nil
  have "usable_among [] w = (Inr (filter (fills_role (w_assets w)) []), (interfere ^^ 0) w)" by (simp add: ret_def)
  then show ?case by blast
next
  case (Cons job jobs)
  obtain m where one: "has_usable_output job w = (Inr (fills_role (w_assets w) job), (interfere ^^ m) w)"
    using calm_usable [OF Cons.prems] by blast
  note calm = calm_steps [OF Cons.prems, of m]
  obtain n where "usable_among jobs ((interfere ^^ m) w) =
      (Inr (filter (fills_role (w_assets w)) jobs), (interfere ^^ n) ((interfere ^^ m) w))"
    using Cons.IH [of "(interfere ^^ m) w"] calm by auto
  with one have "usable_among (job # jobs) w =
      (Inr (filter (fills_role (w_assets w)) (job # jobs)), (interfere ^^ (n + m)) w)"
    by (simp add: bnd_def ret_def funpow_add)
  then show ?case by blast
qed

lemma still_steps:
  "holds_along stories_still (story_get_for_recovery story_id)"
  "holds_along stories_still (has_usable_output job)"
  "holds_along stories_still (usable_among jobs)"
  "holds_along stories_still (recheck_replay key)"
proof -
  show story: "holds_along stories_still (story_get_for_recovery story_id)" for story_id
    unfolding story_get_for_recovery_def by (intro still.frame_atomic) (simp add: still.R_refl)
  show one: "holds_along stories_still (has_usable_output job)" for job
    unfolding has_usable_output_def by (intro still.frame_files)
  show "holds_along stories_still (usable_among jobs)"
    by (induction jobs) (auto intro!: still.frame_files one)
  show "holds_along stories_still (recheck_replay key)"
    unfolding recheck_replay_def by (intro still.frame_files story)
qed

lemma still_run:
  "holds_along stories_still m \<Longrightarrow> m w = (r, w') \<Longrightarrow> story_calm w \<Longrightarrow> story_calm w' \<and> w_stories w' = w_stories w"
  using still.frame_runs by (fastforce simp: stories_still_def)

text \<open>An empty asset id counts as held for the look before a replay, and as free for the replay.\<close>

definition ids_nonempty :: "story_document directory \<Rightarrow> bool" where
  "ids_nonempty dir \<longleftrightarrow>
     (\<forall>story_id doc. dir_get story_id dir = Some doc \<longrightarrow>
        (\<forall>s \<in> set (st_scenes doc). \<forall>role. map_of (sc_asset_ids s) role \<noteq> Some []))"

lemma scene_in_Some: "scene_in scene_id doc = Some s \<Longrightarrow> s \<in> set (st_scenes doc) \<and> sc_id s = scene_id"
  by (auto simp: scene_in_def find_Some_iff)

lemma recovery_read:
  assumes "story_get_for_recovery story_id w = (Inr (story, confirmed_absent), w')" and "story_calm w"
  shows "story = Some doc \<Longrightarrow> dir_get story_id (w_stories w) = Some doc"
    and "story = None \<Longrightarrow> confirmed_absent \<Longrightarrow> map_of (w_stories w) story_id = None"
  using assms interfere_stories [OF assms(2)]
  by (auto simp: story_get_for_recovery_def atomic_def story_read_def split: if_splits)

text \<open>The job leads the candidates that can fill the role.\<close>

definition wins_role :: "(job_record \<Rightarrow> bool) \<Rightarrow> job_record \<Rightarrow> job_record list \<Rightarrow> bool" where
  "wins_role can_fill job candidates \<longleftrightarrow>
     (\<exists>winner \<in> insert job (set candidates). jr_id winner = jr_id job \<and>
        (\<forall>c \<in> set candidates. can_fill c \<longrightarrow> winner_key c \<le> winner_key winner))"

lemma chosen_wins:
  assumes "set usable \<subseteq> set candidates" and "{c \<in> set candidates. can_fill c} \<subseteq> set usable"
    and "jr_id (case usable of [] \<Rightarrow> job | c # cs \<Rightarrow> select_winner c cs) = jr_id job"
  shows "wins_role can_fill job candidates"
proof (cases usable)
  case Nil
  with assms(2) have "\<forall>c \<in> set candidates. \<not> can_fill c" by auto
  then show ?thesis by (auto simp: wins_role_def)
next
  case (Cons c cs)
  have "select_winner c cs \<in> set candidates" using select_winner_in [of c cs] assms(1) Cons by auto
  moreover have "\<forall>d \<in> set candidates. can_fill d \<longrightarrow> winner_key d \<le> winner_key (select_winner c cs)"
    using assms(2) select_winner_max [of _ c cs] Cons by auto
  ultimately show ?thesis using assms(3) Cons by (auto simp: wins_role_def)
qed

definition won_among :: "'x world_scheme \<Rightarrow> job_record \<Rightarrow> job_record list \<Rightarrow> bool" where
  "won_among w job candidates \<longleftrightarrow>
     wins_role result_has_output job candidates \<and>
     (asset_calm w \<longrightarrow> wins_role (fills_role (w_assets w)) job candidates)"

lemma replay_winner_writes:
  assumes "replay_winner job key index w = (r, w')" and "story_calm w" and "w_stories w' \<noteq> w_stories w"
  shows "\<not> snd (candidates_for_role index key) \<and> won_among w job (fst (candidates_for_role index key))"
proof -
  obtain candidates poisoned where found: "candidates_for_role index key = (candidates, poisoned)"
    by (cases "candidates_for_role index key")
  from assms(1,3) found have free: "\<not> poisoned" and
    run: "bnd (usable_among candidates) (\<lambda>usable.
            if jr_id (case usable of [] \<Rightarrow> job | c # cs \<Rightarrow> select_winner c cs) \<noteq> jr_id job then ret Replay_converged
            else
              bnd (replay_job_safely (jr_id job)) (\<lambda>result.
                case result of Some doc \<Rightarrow> ret Replay_converged | None \<Rightarrow> recheck_replay key)) w = (r, w')"
    by (auto simp: replay_winner_def Let_def split: if_splits)
  from run show ?thesis
  proof (cases rule: bnd_runs)
    case (raised e)
    with still_run [OF still_steps(3) raised(1) assms(2)] assms(3) show ?thesis by simp
  next
    case (went_on usable w1)
    note still1 = still_run [OF still_steps(3) went_on(1) assms(2)]
    have chosen: "jr_id (case usable of [] \<Rightarrow> job | c # cs \<Rightarrow> select_winner c cs) = jr_id job"
      using went_on(2) still1 assms(3) by (auto split: if_splits)
    then have "wins_role result_has_output job candidates"
      using usable_among_contains [OF went_on(1)] by (intro chosen_wins) auto
    moreover have "wins_role (fills_role (w_assets w)) job candidates" if "asset_calm w"
      using calm_usable_among [OF that, of candidates] went_on(1) chosen by (intro chosen_wins) auto
    ultimately show ?thesis using found free by (simp add: won_among_def)
  qed
qed

lemma assets_kept:
  assumes "asset_calm w"
  shows "story_get_for_recovery story_id w = (q, w1) \<Longrightarrow> asset_calm w1 \<and> w_assets w1 = w_assets w"
    and "has_usable_output job w = (q', w1) \<Longrightarrow> asset_calm w1 \<and> w_assets w1 = w_assets w"
proof -
  show "asset_calm w1 \<and> w_assets w1 = w_assets w" if "story_get_for_recovery story_id w = (q, w1)"
    using that calm_step [OF assms] by (auto simp: story_get_for_recovery_def atomic_def split: if_splits)
  show "asset_calm w1 \<and> w_assets w1 = w_assets w" if "has_usable_output job w = (q', w1)"
    using that calm_usable [OF assms, of job] calm_steps [OF assms] by auto
qed

lemma scene_key_stable:
  assumes "stands job_id job w" and "evolves w w1" and "stands job_id late w1"
  shows "scene_bound_params late = scene_bound_params job"
proof -
  have "jr_request late = jr_request job"
    using stands_request [OF assms(1)] stands_request [OF assms(3)] request_of_evolves [OF _ assms(2)] by simp
  then show ?thesis by (simp add: scene_bound_params_def)
qed

text \<open>
  C20: only the newest candidate writes. Take stories in which no role holds an empty asset id, and no
  other thread that writes stories. If converging a job with the pass's snapshot changes any story,
  then the snapshot has no undecodable row that might target the same scene and role, and the job
  is the winner of the snapshot's candidates: none of those whose result has outputs is newer (by
  creation time, then id), whatever other threads do to the jobs and assets and wherever storage
  fails; and where no other thread writes assets and their storage does not fail, none is newer of
  those that can fill the role at all, be it by an asset record that is on disk.
\<close>

theorem only_the_winner_writes:
  assumes "converge_scene_binding job (Some index) w = (r, w')" and "stands (jr_id job) job w"
    and "story_calm w" and "ids_nonempty (w_stories w)" and "w_stories w' \<noteq> w_stories w"
  shows "\<exists>key. scene_bound_params job = Some key \<and> \<not> snd (candidates_for_role index key) \<and>
     wins_role result_has_output job (fst (candidates_for_role index key)) \<and>
     (asset_calm w \<longrightarrow> wins_role (fills_role (w_assets w)) job (fst (candidates_for_role index key)))"
proof (cases "scene_bound_params job")
  case None
  with assms(1,5) show ?thesis by (simp add: converge_scene_binding_def)
next
  case (Some key)
  obtain story_id scene_id role where key: "key = (story_id, scene_id, role)" by (cases key)
  from assms(1) [unfolded converge_scene_binding_def Some key, simplified] show ?thesis
  proof (cases rule: bnd_runs)
    case (raised e)
    with still_run [OF still_steps(1) raised(1) assms(3)] assms(5) show ?thesis by simp
  next
    case (went_on found w1)
    obtain story absent where found: "found = (story, absent)" by (cases found)
    note still1 = still_run [OF still_steps(1) went_on(1) assms(3)]
    have follows: "evolves w w1" using along_runs [OF along_story_reads(2) went_on(1)] .
    show ?thesis
    proof (cases "\<exists>doc s. story = Some doc \<and> scene_in scene_id doc = Some s")
      case False
      with went_on(2) found have "w' = w1" by (auto split: option.splits)
      with still1 assms(5) show ?thesis by simp
    next
      case True
      then obtain doc s where doc: "story = Some doc" and s: "scene_in scene_id doc = Some s" by blast
      have here: "dir_get story_id (w_stories w) = Some doc"
        using recovery_read(1) [OF went_on(1) [unfolded found] assms(3) doc] .
      show ?thesis
      proof (cases "jr_id job \<in> set (sc_job_ids s) \<or> map_of (sc_asset_ids s) role \<noteq> None")
        case True
        have "map_of (sc_asset_ids s) role \<noteq> Some []"
          using assms(4) here scene_in_Some [OF s] by (auto simp: ids_nonempty_def)
        with True have held: "already_bound (jr_id job) role s"
          by (auto simp: already_bound_def role_held_def split: option.splits)
        obtain q where replay: "replay_job_safely (jr_id job) w1 = (q, w')"
          using went_on(2) found doc s True by (auto elim!: bnd_runs)
        have "w_stories w' = w_stories w1"
        proof (cases rule: replay_runs [OF replay conjunct1 [OF still1]])
          case 1
          then show ?thesis by simp
        next
          case (2 stored w2 story scene rl a doc0 doc' now)
          have "evolves w w2" using follows 2(2) by (rule evolving.R_trans)
          then have "scene_bound_params stored = Some (story_id, scene_id, role)"
            using scene_key_stable [OF assms(2) _ 2(3)] Some key by simp
          with 2(4) have same: "story = story_id" "scene = scene_id" "rl = role" by auto
          with 2(5) here still1 have "doc0 = doc" by simp
          with 2(6) same scene_in_Some [OF s] held show ?thesis
            by (auto simp: apply_binding_def Let_def split: if_splits)
        qed
        with still1 assms(5) show ?thesis by simp
      next
        case False
        with went_on(2) found doc s have "bnd (has_usable_output job) (\<lambda>usable.
                         if \<not> usable then ret Replay_retryable
                         else bnd (case Some index of None \<Rightarrow> build_scene_candidate_index | Some i \<Rightarrow> ret i)
                                (replay_winner job (story_id, scene_id, role))) w1 = (r, w')"
          by simp
        then show ?thesis
        proof (cases rule: bnd_runs)
          case (raised e)
          with still_run [OF still_steps(2) raised(1)] still1 assms(5) show ?thesis by simp
        next
          case usable: (went_on b w2)
          have still2: "story_calm w2" "w_stories w2 = w_stories w"
            using still_run [OF still_steps(2) usable(1)] still1 by auto
          have "replay_winner job key index w2 = (r, w')"
            using usable(2) still2 assms(5) by (auto simp: key split: if_splits)
          from replay_winner_writes [OF this still2(1)] still2 assms(5)
          have "\<not> snd (candidates_for_role index key)" "won_among w2 job (fst (candidates_for_role index key))" by simp_all
          moreover have "asset_calm w2 \<and> w_assets w2 = w_assets w" if "asset_calm w"
            using assets_kept [OF that] went_on(1) assets_kept(2) usable(1) by metis
          ultimately show ?thesis using Some by (auto simp: won_among_def)
        qed
      qed
    qed
  qed
qed

definition scene_index :: candidate_index where
  "scene_index =
     \<lparr>ci_candidates = [((''story_1'', ''scene_1'', ''visual''), [scene_job])], ci_poisoned = [], ci_unattributable = False\<rparr>"

lemma scene_job_stands: "stands ''job_1'' scene_job story_world"
proof -
  have "row_to_record (record_to_row scene_job) = Inr (stored scene_job)"
    by (intro conjunct1 [OF job_row_round_trip])
      (simp_all add: record_ok_def request_ok_def scene_job_def sample_job_def sample_job_request_def)
  moreover have "stored scene_job = scene_job" by code_simp
  ultimately have "reads_as (record_to_row scene_job) scene_job" by (simp add: row_to_record_iff)
  moreover have "row_find ''job_1'' (w_jobs story_world) = Some (record_to_row scene_job)"
    by (simp add: story_world_def row_find_def record_to_row_def scene_job_def sample_job_def)
  ultimately show ?thesis by (auto simp: stands_def)
qed

theorem only_the_winner_writes_witness:
  "w_stories (snd (converge_scene_binding scene_job (Some scene_index) story_world)) \<noteq> w_stories story_world \<and>
   wins_role (fills_role (w_assets story_world)) scene_job
     (fst (candidates_for_role scene_index (''story_1'', ''scene_1'', ''visual'')))"
proof -
  let ?run = "converge_scene_binding scene_job (Some scene_index) story_world"
  have changed: "map_of (w_stories (snd ?run)) ''story_1'' \<noteq> map_of (w_stories story_world) ''story_1''"
    by code_simp
  then have written: "w_stories (snd ?run) \<noteq> w_stories story_world" by metis
  have "jr_id scene_job = ''job_1''" by (simp add: scene_job_def sample_job_def)
  then have stands: "stands (jr_id scene_job) scene_job story_world" using scene_job_stands by simp
  have calm: "story_calm story_world" by (simp add: story_calm_def story_world_def sample_world_def)
  have quiet: "asset_calm story_world" by (simp add: asset_calm_def story_world_def sample_world_def)
  have ids: "ids_nonempty (w_stories story_world)"
    by (auto simp: ids_nonempty_def story_world_def dir_get_def loaded_def sample_story_def sample_scene_def
        split: if_splits)
  have "?run = (fst ?run, snd ?run)" by simp
  from only_the_winner_writes [OF this stands calm ids written]
  obtain key where "scene_bound_params scene_job = Some key"
    and "wins_role (fills_role (w_assets story_world)) scene_job (fst (candidates_for_role scene_index key))"
    using quiet by blast
  moreover have "scene_bound_params scene_job = Some (''story_1'', ''scene_1'', ''visual'')" by code_simp
  ultimately show ?thesis using written by simp
qed

text \<open>
  An empty asset id slips through: the look before the replay takes the role for held and skips
  the selection, the replay takes it for free and binds, although an undecodable rival exists.
\<close>

lemma empty_asset_id_skips_selection:
  "let story = sample_story\<lparr>st_scenes := [sample_scene\<lparr>sc_asset_ids := [(''visual'', [])]\<rparr>]\<rparr>;
       w = story_world\<lparr>w_stories := [(''story_1'', Document story)]\<rparr>;
       w' = snd (converge_scene_binding scene_job (Some (scene_index\<lparr>ci_unattributable := True\<rparr>)) w) in
   map_of (w_stories w') ''story_1'' \<noteq> map_of (w_stories w) ''story_1''"
  unfolding Let_def by code_simp

section \<open>The winner does write\<close>

lemma quiet_atomic:
  assumes "w_ticks w = []"
  shows "atomic f w = f quiet_tick w"
proof -
  have "w\<lparr>w_ticks := []\<rparr> = w" using assms by (cases w) simp
  moreover have "atomic f w = f quiet_tick (w\<lparr>w_ticks := []\<rparr>)"
    using assms by (simp add: atomic_def next_tick_def interfere_def quiet_tick_def)
  ultimately show ?thesis by argo
qed

lemma quiet_repo_get: "w_ticks w = [] \<Longrightarrow> stands job_id job w \<Longrightarrow> repo_get job_id w = (Inr (Some job), w)"
  by (auto simp: repo_get_def db_read_def transaction_def quiet_atomic quiet_tick_def stands_def bnd_def
      decode_def row_to_record_iff [symmetric] ret_def)

lemma quiet_recovery:
  "w_ticks w = [] \<Longrightarrow> dir_get story_id (w_stories w) = Some doc \<Longrightarrow>
   story_get_for_recovery story_id w = (Inr (Some doc, False), w)"
  by (cases "map_of (w_stories w) story_id")
    (auto simp: story_get_for_recovery_def quiet_atomic quiet_tick_def story_read_def dir_get_def loaded_def)

lemma quiet_usable:
  assumes "w_ticks w = []"
  shows "has_usable_output job w = (Inr (fills_role (w_assets w) job), w)"
    and "usable_among jobs w = (Inr (filter (fills_role (w_assets w)) jobs), w)"
proof -
  have "asset_calm w" using assms by (simp add: asset_calm_def)
  from calm_usable [OF this, of job] calm_usable_among [OF this, of jobs] quiet_steps [OF assms]
  show "has_usable_output job w = (Inr (fills_role (w_assets w) job), w)"
    "usable_among jobs w = (Inr (filter (fills_role (w_assets w)) jobs), w)" by auto
qed

lemma select_winner_unique:
  assumes "job \<in> insert best (set jobs)" and "\<And>c. c \<in> insert best (set jobs) \<Longrightarrow> c \<noteq> job \<Longrightarrow> winner_key c < winner_key job"
  shows "select_winner best jobs = job"
proof (rule ccontr)
  assume "select_winner best jobs \<noteq> job"
  then have "winner_key (select_winner best jobs) < winner_key job"
    by (intro assms(2) select_winner_in)
  with select_winner_max [OF assms(1)] show False by simp
qed

lemma bind_finds:
  assumes "scene_in scene_id doc = Some s" and "distinct (map sc_id (st_scenes doc))"
    and "\<not> already_bound job_id role s"
  shows "\<exists>doc'. apply_binding True job_id scene_id role a (Some doc) = Some doc' \<and> st_id doc' = st_id doc \<and>
     scene_in scene_id doc' = Some (bind_scene job_id role a s)"
proof -
  have s: "s \<in> set (st_scenes doc)" "sc_id s = scene_id" using scene_in_Some [OF assms(1)] by auto
  have "t = s" if "t \<in> set (st_scenes doc)" "sc_id t = scene_id" for t
    using assms(2) s that by (intro inj_onD [of sc_id "set (st_scenes doc)"]) (simp_all add: distinct_map)
  moreover have "set (filter (\<lambda>s. sc_id s = scene_id) (st_scenes doc)) =
      {t. t \<in> set (st_scenes doc) \<and> sc_id t = scene_id}"
    by auto
  ultimately have targets: "set (filter (\<lambda>s. sc_id s = scene_id) (st_scenes doc)) = {s}" using s by blast
  have "find (\<lambda>t. sc_id t = scene_id) (map (\<lambda>s. if sc_id s \<noteq> scene_id then s else bind_scene job_id role a s) ss) =
      map_option (bind_scene job_id role a) (find (\<lambda>t. sc_id t = scene_id) ss)" for ss
    by (induction ss) (auto simp: bind_scene_def)
  note found = this [of "st_scenes doc"]
  have none: "filter (\<lambda>s. sc_id s = scene_id) (st_scenes doc) \<noteq> []" using targets by force
  define ss where "ss = map (\<lambda>s. if sc_id s \<noteq> scene_id then s else bind_scene job_id role a s) (st_scenes doc)"
  have "apply_binding True job_id scene_id role a (Some doc) = Some (doc\<lparr>st_scenes := ss\<rparr>)"
    using none assms(3) targets by (simp add: apply_binding_def Let_def ss_def)
  moreover have "scene_in scene_id (doc\<lparr>st_scenes := ss\<rparr>) = Some (bind_scene job_id role a s)"
    using found assms(1) by (simp add: scene_in_def ss_def)
  ultimately show ?thesis by simp
qed

text \<open>
  C32: the newest candidate that can fill a role gets it. Suppose no other thread is at work and
  storage is sound, the story has the scene and its role is open and does not name the job yet, no
  undecodable rival is known, and the job is among the snapshot's candidates and has an asset. If
  every candidate that can fill the role is older, where one with neither outputs nor an asset
  counts for nothing however new it is, then converging the job binds its primary asset to the role
  and records the job in the scene.
\<close>

theorem winner_binds_role:
  assumes "w_ticks w = []" and "stands (jr_id job) job w" and "jr_status job = Succeeded"
    and "scene_bound_params job = Some (story_id, scene_id, role)"
    and "dir_get story_id (w_stories w) = Some doc" and "st_id doc = story_id"
    and "distinct (map sc_id (st_scenes doc))"
    and "scene_in scene_id doc = Some s" and "jr_id job \<notin> set (sc_job_ids s)" and "map_of (sc_asset_ids s) role = None"
    and "candidates_for_role index (story_id, scene_id, role) = (candidates, False)"
    and "job \<in> set candidates"
    and "\<forall>c \<in> set candidates. fills_role (w_assets w) c \<longrightarrow> c \<noteq> job \<longrightarrow> winner_key c < winner_key job"
    and "asset_get_primary_by_job (jr_id job) w = (Inr (Some a), w)"
  shows "\<exists>w' doc' s'. converge_scene_binding job (Some index) w = (Inr Replay_converged, w') \<and>
     dir_get story_id (w_stories w') = Some doc' \<and> scene_in scene_id doc' = Some s' \<and>
     map_of (sc_asset_ids s') role = Some (as_id a) \<and> jr_id job \<in> set (sc_job_ids s')"
proof -
  have free: "\<not> already_bound (jr_id job) role s"
    using assms(9,10) by (simp add: already_bound_def role_held_def)
  obtain doc' where doc': "apply_binding True (jr_id job) scene_id role (as_id a) (Some doc) = Some doc'"
    "st_id doc' = story_id" "scene_in scene_id doc' = Some (bind_scene (jr_id job) role (as_id a) s)"
    using bind_finds [OF assms(8,7) free] assms(6) by auto
  let ?saved = "doc'\<lparr>st_updated_at := []\<rparr>"
  let ?w' = "w\<lparr>w_stories := dir_write story_id ?saved (w_stories w)\<rparr>"
  have "story_mutate story_id (\<lambda>story. Inr (apply_binding True (jr_id job) scene_id role (as_id a) story)) w =
      (Inr (Some ?saved), ?w')"
    unfolding story_mutate_def quiet_atomic [OF assms(1)] Let_def
    using doc' assms(5) replay_changes [OF doc'(1)]
    by (simp add: quiet_tick_def story_read_def)
  then have replay: "replay_job_safely (jr_id job) w = (Inr (Some ?saved), ?w')"
    using quiet_repo_get [OF assms(1,2)] assms(3,4,14)
    by (simp add: replay_job_safely_def binder_bind_def bnd_def)
  let ?usable = "filter (fills_role (w_assets w)) candidates"
  have "has_asset (jr_id job) (w_assets w)"
    using calm_primary [of w "jr_id job"] assms(1,14) by (auto simp: asset_calm_def)
  then have own: "fills_role (w_assets w) job" by (simp add: fills_role_def)
  with assms(12) have "job \<in> set ?usable" by simp
  then obtain c cs where cands: "?usable = c # cs" by (cases ?usable) auto
  have members: "insert c (set cs) = {c \<in> set candidates. fills_role (w_assets w) c}"
    using arg_cong [OF cands, of set] by simp
  have "select_winner c cs = job"
    by (rule select_winner_unique) (use members own assms(12,13) in auto)
  then have winner: "replay_winner job (story_id, scene_id, role) index w = (Inr Replay_converged, ?w')"
    using replay quiet_usable(2) [OF assms(1), of candidates]
    by (simp add: replay_winner_def assms(11) bnd_def Let_def cands ret_def)
  have "has_usable_output job w = (Inr True, w)" using quiet_usable(1) [OF assms(1)] own by simp
  then have "converge_scene_binding job (Some index) w = (Inr Replay_converged, ?w')"
    using winner quiet_recovery [OF assms(1,5)] assms(4,8,9,10)
    by (simp add: converge_scene_binding_def bnd_def ret_def)
  moreover have "scene_in scene_id ?saved = Some (bind_scene (jr_id job) role (as_id a) s)"
    using doc'(3) by (simp add: scene_in_def)
  moreover have "map_of (sc_asset_ids (bind_scene (jr_id job) role (as_id a) s)) role = Some (as_id a)"
    "jr_id job \<in> set (sc_job_ids (bind_scene (jr_id job) role (as_id a) s))"
    by (auto simp: bind_scene_def update_conv')
  ultimately show ?thesis by fastforce
qed

definition finished_scene_job :: job_record where
  "finished_scene_job = scene_job\<lparr>jr_result := Some
     \<lparr>res_job_id = ''job_1'', res_status = Succeeded, res_outputs = [''a.png''], res_previews = [],
      res_metadata = [], res_error_message = None\<rparr>\<rparr>"

definition finished_world :: world where
  "finished_world = story_world\<lparr>w_jobs := [record_to_row finished_scene_job]\<rparr>"

definition finished_index :: candidate_index where
  "finished_index =
     scene_index\<lparr>ci_candidates :=
       [((''story_1'', ''scene_1'', ''visual''), [finished_scene_job\<lparr>jr_id := ''job_0''\<rparr>, finished_scene_job, finished_scene_job\<lparr>jr_id := ''job_2'', jr_result := None\<rparr>])]\<rparr>"

lemma finished_job_stands: "stands ''job_1'' finished_scene_job finished_world"
proof -
  have "row_to_record (record_to_row finished_scene_job) = Inr (stored finished_scene_job)"
    by (intro conjunct1 [OF job_row_round_trip])
      (simp_all add: record_ok_def request_ok_def finished_scene_job_def scene_job_def sample_job_def
        sample_job_request_def)
  moreover have "stored finished_scene_job = finished_scene_job" by code_simp
  ultimately have "reads_as (record_to_row finished_scene_job) finished_scene_job" by (simp add: row_to_record_iff)
  moreover have "row_find ''job_1'' (w_jobs finished_world) = Some (record_to_row finished_scene_job)"
    by (simp add: finished_world_def row_find_def record_to_row_def finished_scene_job_def scene_job_def sample_job_def)
  ultimately show ?thesis by (auto simp: stands_def)
qed

theorem winner_binds_role_witness:
  "\<exists>w' doc s. converge_scene_binding finished_scene_job (Some finished_index) finished_world =
       (Inr Replay_converged, w') \<and>
     dir_get ''story_1'' (w_stories w') = Some doc \<and> scene_in ''scene_1'' doc = Some s \<and>
     map_of (sc_asset_ids s) ''visual'' = Some ''asset_1'' \<and> ''job_1'' \<in> set (sc_job_ids s)"
proof -
  have id: "jr_id finished_scene_job = ''job_1''" and succeeded: "jr_status finished_scene_job = Succeeded"
    by (simp_all add: finished_scene_job_def scene_job_def sample_job_def)
  have quiet: "w_ticks finished_world = []"
    by (simp add: finished_world_def story_world_def sample_world_def)
  have asks: "scene_bound_params finished_scene_job = Some (''story_1'', ''scene_1'', ''visual'')" by code_simp
  have story: "dir_get ''story_1'' (w_stories finished_world) = Some sample_story"
    by (simp add: dir_get_def loaded_def finished_world_def story_world_def)
  have shape: "st_id sample_story = ''story_1''" "distinct (map sc_id (st_scenes sample_story))"
    "scene_in ''scene_1'' sample_story = Some sample_scene"
    "''job_1'' \<notin> set (sc_job_ids sample_scene)" "map_of (sc_asset_ids sample_scene) ''visual'' = None"
    by (simp_all add: sample_story_def sample_scene_def scene_in_def)
  have found: "candidates_for_role finished_index (''story_1'', ''scene_1'', ''visual'') =
      ([finished_scene_job\<lparr>jr_id := ''job_0''\<rparr>, finished_scene_job, finished_scene_job\<lparr>jr_id := ''job_2'', jr_result := None\<rparr>], False)"
    by (simp add: candidates_for_role_def finished_index_def scene_index_def)
  have idle: "\<not> fills_role (w_assets finished_world) (finished_scene_job\<lparr>jr_id := ''job_2'', jr_result := None\<rparr>)"
    by code_simp
  have newest: "\<forall>c \<in> set [finished_scene_job\<lparr>jr_id := ''job_0''\<rparr>, finished_scene_job, finished_scene_job\<lparr>jr_id := ''job_2'', jr_result := None\<rparr>].
      fills_role (w_assets finished_world) c \<longrightarrow> c \<noteq> finished_scene_job \<longrightarrow> winner_key c < winner_key finished_scene_job"
    using idle by (simp add: winner_key_def finished_scene_job_def scene_job_def sample_job_def)
  have asset: "asset_get_primary_by_job (jr_id finished_scene_job) finished_world = (Inr (Some scene_asset), finished_world)"
    by (simp add: id asset_get_primary_by_job_def asset_get_by_job_def asset_list_all_def asset_load_def
        asset_io_def atomic_def next_tick_def interfere_def quiet_tick_def finished_world_def story_world_def
        sample_world_def dir_names_def newest_first_def scene_asset_def io_unfold)
  from winner_binds_role [OF quiet _ succeeded asks story shape(1,2,3) _ shape(5) found _ newest asset]
    finished_job_stands shape(4) id
  show ?thesis by (auto simp: scene_asset_def)
qed

end
