(* ===== verification/Completion.thy ===== *)
theory Completion imports Poison_Quarantine Replay_Selection begin

text \<open>
  \<open>CompletionConverger\<close> of \<open>core/jobs/completion.py\<close>: the side effects a terminal job still owes
  (assets, story binding, batch), applied until \<open>completion_state\<close> is \<open>done\<close>, and the
  undecodable rows whose disposition has to be tried again.

  The converger's collaborators are a record; the candidates for another attempt
  (\<open>_poison_retry_candidates\<close>) are passed in and returned. What a wait takes is not modelled.
\<close>

section \<open>One job\<close>

datatype completion_outcome = Converge_done | Safe_noop | Retryable_failure | Unresolved

record 'x converger =
  cv_assets :: asset_env
  cv_story :: bool
  cv_batches :: "'x batch_port option"
  cv_service :: "'x service option"

type_synonym ownership = "string list \<times> bool"

definition TERMINAL_JOB_EVENT_TYPES :: "string list" where
  "TERMINAL_JOB_EVENT_TYPES = [''job_succeeded'', ''job_failed'', ''job_cancelled'']"

text \<open>Whether the story step converged, and if not, whether it is worth another attempt.\<close>

definition converge_story ::
  "'x converger \<Rightarrow> job_record \<Rightarrow> candidate_index option \<Rightarrow> ('x, bool \<times> bool) job_io" where
  "converge_story cv job index =
     (if \<not> cv_story cv then ret (True, False)
      else bnd (converge_scene_binding job index) (\<lambda>outcome.
        ret (case outcome of
               Replay_converged \<Rightarrow> (True, False) | Replay_retryable \<Rightarrow> (False, True)
             | Replay_unresolved \<Rightarrow> (False, False))))"

definition not_owned :: "string \<Rightarrow> ownership option \<Rightarrow> bool" where
  "not_owned job_id index \<longleftrightarrow>
     (case index of None \<Rightarrow> False | Some (owned, reliable) \<Rightarrow> reliable \<and> job_id \<notin> set owned)"

definition reconcile_batch :: "'x converger \<Rightarrow> string \<Rightarrow> ownership option \<Rightarrow> ('x, bool) job_io" where
  "reconcile_batch cv job_id index =
     (case cv_batches cv of
        None \<Rightarrow> ret False
      | Some bp \<Rightarrow> if not_owned job_id index then ret False else bp_reconcile_child bp job_id)"

text \<open>The body of the \<open>try\<close>: the steps in their order.\<close>

definition completion_steps ::
  "'x converger \<Rightarrow> job_record \<Rightarrow> candidate_index option \<Rightarrow> ownership option \<Rightarrow> ('x, (bool \<times> bool) \<times> bool) job_io" where
  "completion_steps cv job index owned =
     bnd (if jr_status job = Succeeded then
            bnd (asset_sync_job (cv_assets cv) job) (\<lambda>_. converge_story cv job index)
          else ret (True, False)) (\<lambda>story.
     bnd (reconcile_batch cv (jr_id job) owned) (\<lambda>batch. ret (story, batch)))"

definition STORY_NOT_READY :: string where
  "STORY_NOT_READY = ''Story replay precondition not met yet (no Asset for this job); will retry.''"

definition STORY_AMBIGUOUS :: string where
  "STORY_AMBIGUOUS = ''Story replay outcome is ambiguous; needs investigation.''"

definition BATCH_NOT_READY :: string where
  "BATCH_NOT_READY = ''Owning Batch could not be reconciled right now (transient storage failure); will retry.''"

text \<open>The mark of an attempt, outside the \<open>try\<close>: its own failure is the caller's.\<close>

definition record_completion ::
  "string \<Rightarrow> exn + ((bool \<times> bool) \<times> bool) \<Rightarrow> ('x, completion_outcome) job_io" where
  "record_completion job_id attempted =
     (case attempted of
        Inl e \<Rightarrow>
          bnd (repo_mark_completion_pending_with_error job_id (exn_text e)) (\<lambda>_. ret Retryable_failure)
      | Inr ((converged, retryable), batch_retryable) \<Rightarrow>
          if \<not> converged then
            bnd (repo_mark_completion_pending_with_error job_id (if retryable then STORY_NOT_READY else STORY_AMBIGUOUS))
              (\<lambda>_. ret (if retryable then Retryable_failure else Unresolved))
          else if batch_retryable then
            bnd (repo_mark_completion_pending_with_error job_id BATCH_NOT_READY) (\<lambda>_. ret Retryable_failure)
          else bnd (repo_mark_completion_done job_id) (\<lambda>_. ret Converge_done))"

definition converge_job ::
  "'x converger \<Rightarrow> string \<Rightarrow> candidate_index option \<Rightarrow> ownership option \<Rightarrow> ('x, completion_outcome) job_io" where
  "converge_job cv job_id index owned =
     bnd (attempt (repo_get job_id)) (\<lambda>found.
       case found of
         Inl _ \<Rightarrow> ret Unresolved
       | Inr None \<Rightarrow> ret Safe_noop
       | Inr (Some job) \<Rightarrow>
           if \<not> is_terminal_status (jr_status job) then ret Safe_noop
           else if jr_completion_state job = Completion_done then ret Safe_noop
           else bnd (attempt (completion_steps cv job index owned)) (record_completion job_id))"

definition converger_handle_job_event :: "'x converger \<Rightarrow> job_event \<Rightarrow> ('x, unit) job_io" where
  "converger_handle_job_event cv event =
     (if ev_type event \<notin> set TERMINAL_JOB_EVENT_TYPES then ret ()
      else (case map_of (ev_payload event) ''job_id'' of
              Some (JStr job_id) \<Rightarrow> bnd (converge_job cv job_id None None) (\<lambda>_. ret ())
            | _ \<Rightarrow> ret ()))"

section \<open>A pass over the pending jobs\<close>

definition scene_index_for_pass :: "'x converger \<Rightarrow> ('x, candidate_index option) job_io" where
  "scene_index_for_pass cv =
     (if \<not> cv_story cv then ret None else bnd build_scene_candidate_index (\<lambda>index. ret (Some index)))"

definition build_batch_ownership_index :: "'x converger \<Rightarrow> ('x, ownership option) job_io" where
  "build_batch_ownership_index cv =
     (case cv_batches cv of
        None \<Rightarrow> ret None | Some bp \<Rightarrow> bnd (bp_ownership_index bp) (\<lambda>index. ret (Some index)))"

text \<open>One pass; in the retry loop it ends at the job before which the stop event is seen.\<close>

definition completion_pass :: "'x converger \<Rightarrow> nat option \<Rightarrow> ('x, (string \<times> completion_outcome) list) job_io" where
  "completion_pass cv stop =
     bnd repo_list_terminal_pending_completion (\<lambda>jobs.
       if jobs = [] then ret []
       else
         bnd (if \<exists>job \<in> set jobs. jr_status job = Succeeded then scene_index_for_pass cv else ret None) (\<lambda>index.
         bnd (build_batch_ownership_index cv) (\<lambda>owned.
           collect (\<lambda>job. bnd (converge_job cv (jr_id job) index owned) (\<lambda>outcome. ret (jr_id job, outcome)))
             (case stop of None \<Rightarrow> jobs | Some n \<Rightarrow> take n jobs))))"

section \<open>Rows that need another attempt\<close>

type_synonym poison_candidates = "(string \<times> exn) list"

definition register_poison_retry_candidate :: "string \<Rightarrow> exn \<Rightarrow> poison_candidates \<Rightarrow> poison_candidates" where
  "register_poison_retry_candidate job_id e candidates = AList.update job_id e candidates"

definition converger_authorize :: "'x converger \<Rightarrow> string \<Rightarrow> ('x, exposure) job_io" where
  "converger_authorize cv job_id =
     (case cv_service cv of
        None \<Rightarrow> ret Exposed
      | Some sv \<Rightarrow>
          (case cv_batches cv of
             None \<Rightarrow> bnd (service_enqueue_job sv job_id) (\<lambda>_. ret Exposed)
           | Some bp \<Rightarrow>
               bnd (authorize_recovered_queued_job bp sv job_id Queued) (\<lambda>outcome.
                 if outcome = Owner_cancelled then bnd (service_cancel_job sv job_id) (\<lambda>_. ret outcome)
                 else ret outcome)))"

text \<open>A row that decodes again; whether it stays a candidate.\<close>

definition resolve_repaired_job :: "'x converger \<Rightarrow> string \<Rightarrow> job_status \<Rightarrow> ('x, bool) job_io" where
  "resolve_repaired_job cv job_id status =
     (if status = Queued then bnd (converger_authorize cv job_id) (\<lambda>outcome. ret (outcome = Owner_uncertain))
      else if status \<in> set INTERRUPTED_JOB_STATUSES then
        bnd (repo_transition_if_status job_id [status] Failed (Some 1) (Some (Some PROCESS_INTERRUPTED_REASON)))
          (\<lambda>ok. ret (\<not> ok))
      else if status = Cancel_requested then
        bnd (repo_transition_if_status job_id [Cancel_requested] Cancelled (Some 1) None) (\<lambda>ok. ret (\<not> ok))
      else ret False)"

text \<open>The batch follow-up of a quarantined row, isolated from the other rows.\<close>

definition reconcile_quarantined_child :: "'x batch_port \<Rightarrow> string \<Rightarrow> ('x, bool) job_io" where
  "reconcile_quarantined_child bp job_id =
     bnd (attempt (bp_reconcile_child bp job_id)) (\<lambda>r.
       ret (case r of Inl _ \<Rightarrow> True | Inr retryable \<Rightarrow> retryable))"

definition retry_quarantine :: "'x converger \<Rightarrow> string \<Rightarrow> exn \<Rightarrow> ('x, bool) job_io" where
  "retry_quarantine cv job_id e =
     bnd (quarantine_or_defer_for_batch_cancellation (cv_batches cv) job_id e) (\<lambda>outcome.
       if outcome = Poison_transient \<or> outcome = Poison_batch_uncertain then ret True
       else (case cv_batches cv of
               None \<Rightarrow> ret False
             | Some bp \<Rightarrow>
                 if outcome \<in> set QUARANTINE_OUTCOMES_NEEDING_BATCH_CONVERGENCE then
                   reconcile_quarantined_child bp job_id
                 else ret False))"

fun is_decode_error :: "exn \<Rightarrow> bool" where
  "is_decode_error (Decode_error job_id reason) = True"
| "is_decode_error _ = False"

definition retry_candidate :: "'x converger \<Rightarrow> string \<times> exn \<Rightarrow> ('x, bool) job_io" where
  "retry_candidate cv = (\<lambda>(job_id, e).
     bnd (attempt (repo_get job_id)) (\<lambda>repaired.
       case repaired of
         Inl f \<Rightarrow> if is_decode_error f then retry_quarantine cv job_id e else ret True
       | Inr None \<Rightarrow> ret False
       | Inr (Some job) \<Rightarrow> resolve_repaired_job cv job_id (jr_status job)))"

fun retry_poison_quarantine_candidates ::
  "'x converger \<Rightarrow> poison_candidates \<Rightarrow> ('x, poison_candidates) job_io" where
  "retry_poison_quarantine_candidates cv [] = ret []"
| "retry_poison_quarantine_candidates cv (c # cs) =
     bnd (retry_candidate cv c) (\<lambda>stays.
     bnd (retry_poison_quarantine_candidates cv cs) (\<lambda>rest.
       ret (if stays then c # rest else rest)))"

text \<open>
  One tick of \<open>run_retry_loop\<close>: neither half can keep the other from running, and an exception
  in the second leaves the candidates as they were.
\<close>

definition retry_tick :: "'x converger \<Rightarrow> nat \<Rightarrow> poison_candidates \<Rightarrow> ('x, poison_candidates) job_io" where
  "retry_tick cv n candidates =
     bnd (attempt (completion_pass cv (Some n))) (\<lambda>_.
     bnd (attempt (retry_poison_quarantine_candidates cv candidates)) (\<lambda>r.
       ret (case r of Inl _ \<Rightarrow> candidates | Inr kept \<Rightarrow> kept)))"

fun run_retry_loop :: "nat list \<Rightarrow> 'x converger \<Rightarrow> poison_candidates \<Rightarrow> ('x, poison_candidates) job_io" where
  "run_retry_loop [] cv candidates = ret candidates"
| "run_retry_loop (n # ns) cv candidates = bnd (retry_tick cv n candidates) (run_retry_loop ns cv)"

section \<open>Every step follows the lifecycle\<close>

definition converger_ok :: "'x converger \<Rightarrow> bool" where
  "converger_ok cv \<longleftrightarrow>
     optional_port_ok (cv_batches cv) \<and> (\<forall>sv. cv_service cv = Some sv \<longrightarrow> service_ok sv)"

lemma converger_port: "converger_ok cv \<Longrightarrow> cv_batches cv = Some bp \<Longrightarrow> port_ok bp"
  by (simp add: converger_ok_def optional_port_ok_def)

lemma along_case_found:
  "holds_along R n \<Longrightarrow> (\<And>e. holds_along R (f e)) \<Longrightarrow> (\<And>x. holds_along R (g x)) \<Longrightarrow>
   holds_along R (case r of Inl e \<Rightarrow> f e | Inr None \<Rightarrow> n | Inr (Some x) \<Rightarrow> g x)"
  by (cases r) (auto split: option.splits)

lemma along_converge_story [along]: "holds_along evolves (converge_story cv job index)"
  unfolding converge_story_def by (intro along_steps along)

lemma along_reconcile_batch [along]: "converger_ok cv \<Longrightarrow> holds_along evolves (reconcile_batch cv job_id index)"
  unfolding reconcile_batch_def
  by (cases "cv_batches cv") (auto intro!: along_steps along_port converger_port)

lemma along_completion_steps [along]:
  "converger_ok cv \<Longrightarrow> holds_along evolves (completion_steps cv job index owned)"
  unfolding completion_steps_def by (intro along_steps along | assumption)+

lemma along_record_completion [along]: "holds_along evolves (record_completion job_id attempted)"
  unfolding record_completion_def by (intro along_steps along)

lemma along_converge_job [along]: "converger_ok cv \<Longrightarrow> holds_along evolves (converge_job cv job_id index owned)"
  unfolding converge_job_def by (intro along_case_found along_steps along | assumption)+

lemma along_scene_index [along]: "holds_along evolves (scene_index_for_pass cv)"
  unfolding scene_index_for_pass_def by (intro along_steps along)

lemma along_ownership_index [along]:
  "converger_ok cv \<Longrightarrow> holds_along evolves (build_batch_ownership_index cv)"
  unfolding build_batch_ownership_index_def
  by (cases "cv_batches cv") (auto intro!: along_steps along_port converger_port)

lemma along_completion_pass [along]: "converger_ok cv \<Longrightarrow> holds_along evolves (completion_pass cv stop)"
  unfolding completion_pass_def by (intro along_steps along | assumption)+

lemma along_converger_authorize [along]:
  assumes "converger_ok cv"
  shows "holds_along evolves (converger_authorize cv job_id)"
proof (cases "cv_service cv")
  case (Some sv)
  then have "service_ok sv" using assms by (simp add: converger_ok_def)
  moreover have "port_ok bp" if "cv_batches cv = Some bp" for bp using assms that by (rule converger_port)
  ultimately show ?thesis
    using Some by (cases "cv_batches cv") (auto simp: converger_authorize_def intro!: along_steps along)
qed (simp add: converger_authorize_def along_steps)

lemma along_resolve_repaired [along]:
  "converger_ok cv \<Longrightarrow> holds_along evolves (resolve_repaired_job cv job_id s)"
  unfolding resolve_repaired_job_def by (intro along_steps along | assumption)+

lemma along_retry_quarantine [along]:
  assumes "converger_ok cv"
  shows "holds_along evolves (retry_quarantine cv job_id e)"
proof -
  have "holds_along evolves (quarantine_or_defer_for_batch_cancellation (cv_batches cv) job_id e)"
    using assms by (intro along) (simp add: converger_ok_def)
  moreover have "holds_along evolves (reconcile_quarantined_child bp job_id)" if "cv_batches cv = Some bp" for bp
    unfolding reconcile_quarantined_child_def using converger_port [OF assms that] by (intro along_steps along_port)
  ultimately show ?thesis
    unfolding retry_quarantine_def by (cases "cv_batches cv") (simp_all add: along_steps)
qed

lemma along_retry_candidate [along]: "converger_ok cv \<Longrightarrow> holds_along evolves (retry_candidate cv c)"
  unfolding retry_candidate_def by (intro along_case_found along_steps along | assumption)+

lemma along_retry_candidates [along]:
  "converger_ok cv \<Longrightarrow> holds_along evolves (retry_poison_quarantine_candidates cv cs)"
  by (induction cs) (auto intro!: along_steps along)

lemma along_retry_tick [along]: "converger_ok cv \<Longrightarrow> holds_along evolves (retry_tick cv n cs)"
  unfolding retry_tick_def by (intro along_steps along | assumption)+

lemma along_retry_loop [along]: "converger_ok cv \<Longrightarrow> holds_along evolves (run_retry_loop ns cv cs)"
  by (induction ns arbitrary: cs) (auto intro!: along_steps along)

end
