(* ===== verification/Startup_Recovery.thy ===== *)
theory Startup_Recovery imports Completion begin

text \<open>
  \<open>run_startup_recovery\<close> of \<open>core/jobs/startup_recovery.py\<close>: the pass that reconciles the
  persisted jobs before the first worker starts, step by step in the order the code fixes, with
  its report. The retry candidates it registers on the converger are returned with the report.
\<close>

section \<open>The report\<close>

record startup_report =
  rp_poison_rows :: "(string \<times> poison_outcome) list"
  rp_interrupted_failed :: "string list"
  rp_cancel_requested_cancelled :: "string list"
  rp_completion_outcomes :: "(string \<times> completion_outcome) list"
  rp_requeued :: "string list"
  rp_batches_resumed_cancelling :: "string list"
  rp_batches_resumed_current_stage :: "string list"
  rp_cancellation_scan_reliable :: bool
  rp_enqueue_skipped :: bool
  rp_reconcile_scan_reliable :: bool
  rp_assets_repaired :: nat

section \<open>Step 1: rows that do not decode\<close>

definition recover_poison_row ::
  "'x batch_port option \<Rightarrow> string \<Rightarrow> exn \<Rightarrow> poison_candidates \<Rightarrow>
   ('x, poison_outcome \<times> poison_candidates) job_io" where
  "recover_poison_row batches job_id e candidates =
     bnd (quarantine_or_defer_for_batch_cancellation batches job_id e) (\<lambda>outcome.
       if outcome = Poison_transient \<or> outcome = Poison_batch_uncertain then
         ret (outcome, register_poison_retry_candidate job_id e candidates)
       else (case batches of
               None \<Rightarrow> ret (outcome, candidates)
             | Some bp \<Rightarrow>
                 if outcome \<in> set QUARANTINE_OUTCOMES_NEEDING_BATCH_CONVERGENCE then
                   bnd (reconcile_quarantined_child bp job_id) (\<lambda>retryable.
                     ret (outcome, if retryable then register_poison_retry_candidate job_id e candidates
                                   else candidates))
                 else ret (outcome, candidates)))"

fun recover_poison_rows ::
  "'x batch_port option \<Rightarrow> (string \<times> exn) list \<Rightarrow> poison_candidates \<Rightarrow>
   ('x, (string \<times> poison_outcome) list \<times> poison_candidates) job_io" where
  "recover_poison_rows batches [] candidates = ret ([], candidates)"
| "recover_poison_rows batches ((job_id, e) # failures) candidates =
     bnd (recover_poison_row batches job_id e candidates) (\<lambda>(outcome, candidates').
     bnd (recover_poison_rows batches failures candidates') (\<lambda>(outcomes, candidates'').
       ret ((job_id, outcome) # outcomes, candidates'')))"

section \<open>Steps 2 and 2b: batches\<close>

definition resume_batches :: "'x batch_port option \<Rightarrow> ('x, string list \<times> bool \<times> string list) job_io" where
  "resume_batches batches =
     (case batches of
        None \<Rightarrow> ret ([], True, [])
      | Some bp \<Rightarrow>
          bnd (bp_resume_cancellations bp) (\<lambda>(cancelling, reliable).
          bnd (bp_resume_stages bp) (\<lambda>stages. ret (cancelling, reliable, stages))))"

text \<open>What step 3 works on: the readable jobs, read once more when batches were resumed.\<close>

definition records_after_batches :: "'x batch_port option \<Rightarrow> job_record list \<Rightarrow> ('x, job_record list) job_io" where
  "records_after_batches batches records =
     (case batches of
        None \<Rightarrow> ret records | Some _ \<Rightarrow> bnd repo_list_tolerant (\<lambda>(records', failures). ret records'))"

section \<open>Step 3: interrupted jobs\<close>

text \<open>The status a job was finalized to, if this pass did it.\<close>

definition finalize_interrupted :: "job_record \<Rightarrow> ('x, job_status option) job_io" where
  "finalize_interrupted job =
     (if jr_status job \<in> set INTERRUPTED_JOB_STATUSES then
        bnd (repo_transition_if_status (jr_id job) [jr_status job] Failed (Some 1) (Some (Some PROCESS_INTERRUPTED_REASON)))
          (\<lambda>ok. ret (if ok then Some Failed else None))
      else if jr_status job = Cancel_requested then
        bnd (repo_transition_if_status (jr_id job) [Cancel_requested] Cancelled (Some 1) None)
          (\<lambda>ok. ret (if ok then Some Cancelled else None))
      else ret None)"

fun finalize_all :: "job_record list \<Rightarrow> ('x, (string \<times> job_status) list) job_io" where
  "finalize_all [] = ret []"
| "finalize_all (job # jobs) =
     bnd (finalize_interrupted job) (\<lambda>target.
     bnd (finalize_all jobs) (\<lambda>rest.
       ret (case target of None \<Rightarrow> rest | Some s \<Rightarrow> (jr_id job, s) # rest)))"

definition ids_with :: "job_status \<Rightarrow> (string \<times> job_status) list \<Rightarrow> string list" where
  "ids_with s pairs = map fst (filter (\<lambda>(job_id, t). t = s) pairs)"

section \<open>Step 4b: assets of succeeded jobs\<close>

fun repair_assets_of :: "asset_env \<Rightarrow> job_record list \<Rightarrow> ('x, nat) job_io" where
  "repair_assets_of env [] = ret 0"
| "repair_assets_of env (job # jobs) =
     (if jr_status job \<noteq> Succeeded then repair_assets_of env jobs
      else
        bnd (attempt (asset_sync_job env job)) (\<lambda>r.
        bnd (repair_assets_of env jobs) (\<lambda>n. ret (case r of Inl _ \<Rightarrow> n | Inr assets \<Rightarrow> length assets + n))))"

definition repair_assets_for_succeeded_jobs :: "asset_env \<Rightarrow> ('x, nat) job_io" where
  "repair_assets_for_succeeded_jobs env =
     bnd repo_list_tolerant (\<lambda>(records, failures). repair_assets_of env records)"

section \<open>Step 6: queued jobs\<close>

fun requeue_all :: "'x service \<Rightarrow> job_record list \<Rightarrow> ('x, string list) job_io" where
  "requeue_all sv [] = ret []"
| "requeue_all sv (job # jobs) =
     (if jr_status job \<noteq> Queued then requeue_all sv jobs
      else
        bnd (attempt (repo_get (jr_id job))) (\<lambda>fresh.
          if (case fresh of Inr (Some j) \<Rightarrow> jr_status j = Queued | _ \<Rightarrow> False) then
            bnd (service_enqueue_job sv (jr_id job)) (\<lambda>_.
            bnd (requeue_all sv jobs) (\<lambda>rest. ret (jr_id job # rest)))
          else requeue_all sv jobs))"

definition requeue_queued_jobs :: "'x service \<Rightarrow> ('x, string list) job_io" where
  "requeue_queued_jobs sv = bnd repo_list_tolerant (\<lambda>(records, failures). requeue_all sv records)"

section \<open>The pass\<close>

text \<open>Steps 3 to 5, on the readable jobs.\<close>

record settled_jobs =
  sj_finalized :: "(string \<times> job_status) list"
  sj_outcomes :: "(string \<times> completion_outcome) list"
  sj_repaired :: nat
  sj_reliable :: bool

definition settle_jobs ::
  "'x converger \<Rightarrow> 'x batch_port option \<Rightarrow> job_record list \<Rightarrow> ('x, settled_jobs) job_io" where
  "settle_jobs cv batches records =
     bnd (finalize_all records) (\<lambda>finalized.
     bnd (completion_pass cv None) (\<lambda>outcomes.
     bnd (repair_assets_for_succeeded_jobs (cv_assets cv)) (\<lambda>repaired.
     bnd (case batches of None \<Rightarrow> ret True | Some bp \<Rightarrow> bp_list_tolerant bp) (\<lambda>reliable.
       ret \<lparr>sj_finalized = finalized, sj_outcomes = outcomes, sj_repaired = repaired, sj_reliable = reliable\<rparr>))))"

definition run_startup_recovery ::
  "'x service \<Rightarrow> 'x converger \<Rightarrow> 'x batch_port option \<Rightarrow> poison_candidates \<Rightarrow>
   ('x, startup_report \<times> poison_candidates) job_io" where
  "run_startup_recovery sv cv batches candidates =
     bnd repo_list_tolerant (\<lambda>(_, failures).
     bnd (recover_poison_rows batches failures candidates) (\<lambda>(poison, candidates').
     bnd repo_list_tolerant (\<lambda>(records, _).
     bnd (resume_batches batches) (\<lambda>(cancelling, reliable, stages).
     bnd (records_after_batches batches records) (\<lambda>current.
     bnd (settle_jobs cv batches current) (\<lambda>settled.
     bnd (if batches \<noteq> None \<and> \<not> reliable then ret [] else requeue_queued_jobs sv) (\<lambda>requeued.
       ret (\<lparr>rp_poison_rows = poison,
             rp_interrupted_failed = ids_with Failed (sj_finalized settled),
             rp_cancel_requested_cancelled = ids_with Cancelled (sj_finalized settled),
             rp_completion_outcomes = sj_outcomes settled, rp_requeued = requeued,
             rp_batches_resumed_cancelling = cancelling, rp_batches_resumed_current_stage = stages,
             rp_cancellation_scan_reliable = reliable,
             rp_enqueue_skipped = (batches \<noteq> None \<and> \<not> reliable),
             rp_reconcile_scan_reliable = sj_reliable settled, rp_assets_repaired = sj_repaired settled\<rparr>,
            candidates'))))))))"

section \<open>Every step follows the lifecycle\<close>

lemma along_reconcile_quarantined [along]:
  "port_ok bp \<Longrightarrow> holds_along evolves (reconcile_quarantined_child bp job_id)"
  unfolding reconcile_quarantined_child_def by (intro along_steps along_port)

lemma optional_port: "optional_port_ok batches \<Longrightarrow> batches = Some bp \<Longrightarrow> port_ok bp"
  by (simp add: optional_port_ok_def)

lemma along_recover_poison [along]:
  assumes "optional_port_ok batches"
  shows "holds_along evolves (recover_poison_row batches job_id e candidates)"
    and "holds_along evolves (recover_poison_rows batches failures candidates)"
proof -
  show one: "holds_along evolves (recover_poison_row batches job_id e candidates)" for job_id e candidates
    using assms along_quarantine(3) [OF assms] unfolding recover_poison_row_def
    by (cases batches) (simp_all add: along_steps along optional_port_ok_def)
  show "holds_along evolves (recover_poison_rows batches failures candidates)"
    by (induction failures arbitrary: candidates) (auto intro!: along_steps one)
qed

lemma along_resume_batches [along]:
  assumes "optional_port_ok batches"
  shows "holds_along evolves (resume_batches batches)"
    and "holds_along evolves (records_after_batches batches records)"
    and "holds_along evolves (case batches of None \<Rightarrow> ret True | Some bp \<Rightarrow> bp_list_tolerant bp)"
  unfolding resume_batches_def records_after_batches_def using assms
  by (cases batches; simp add: optional_port_ok_def along_port along_steps along)+

lemma along_finalize_interrupted [along]:
  "holds_along evolves (finalize_interrupted job)" "holds_along evolves (finalize_all jobs)"
proof -
  show one: "holds_along evolves (finalize_interrupted job)" for job
    unfolding finalize_interrupted_def by (intro along_steps along)
  show "holds_along evolves (finalize_all jobs)" by (induction jobs) (auto intro!: along_steps one)
qed

lemma along_repair [along]:
  "holds_along evolves (repair_assets_of env jobs)" "holds_along evolves (repair_assets_for_succeeded_jobs env)"
proof -
  show one: "holds_along evolves (repair_assets_of env jobs)" for jobs
    by (induction jobs) (auto intro!: along_steps along)
  show "holds_along evolves (repair_assets_for_succeeded_jobs env)"
    unfolding repair_assets_for_succeeded_jobs_def by (intro along_steps along one)
qed

lemma along_requeue [along]:
  assumes "service_ok sv"
  shows "holds_along evolves (requeue_all sv jobs)" and "holds_along evolves (requeue_queued_jobs sv)"
proof -
  show one: "holds_along evolves (requeue_all sv jobs)" for jobs
    by (induction jobs) (auto intro!: along_steps along assms)
  show "holds_along evolves (requeue_queued_jobs sv)"
    unfolding requeue_queued_jobs_def by (intro along_steps along one)
qed

lemma along_settle [along]:
  "converger_ok cv \<Longrightarrow> optional_port_ok batches \<Longrightarrow> holds_along evolves (settle_jobs cv batches records)"
  unfolding settle_jobs_def by (intro evolving.along_rules along | assumption)+

lemma along_startup [along]:
  assumes "service_ok sv" and "converger_ok cv" and "optional_port_ok batches"
  shows "holds_along evolves (run_startup_recovery sv cv batches candidates)"
  unfolding run_startup_recovery_def
  by (intro evolving.along_rules along_case_prod along_if along assms)

end
