(* ===== verification/Generators.thy ===== *)
theory Generators imports Job_World begin

text \<open>
  What the runner sees of a generator: the registry that resolves one
  (\<open>generators/registry.py\<close>) and the run of one as an interaction tree.

  A generator is third-party work behind \<open>run\<close>; its only effects on the pipeline are the calls it
  makes of what the runner hands it. A \<open>gen_prog\<close> is that behaviour: return a result, raise an
  exception, report progress and go on with what the report gave (an exception from the
  database reaches the generator, which may handle it), or ask whether it was cancelled. The
  tree is well-founded, so a run ends; apart from that a generator is arbitrary.
\<close>

section \<open>Runs\<close>

datatype 'c gen_prog =
  Gen_return generation_result
| Gen_raise exn
| Gen_report 'c "exn + unit \<Rightarrow> 'c gen_prog"
| Gen_poll "exn + bool \<Rightarrow> 'c gen_prog"

text \<open>
  \<open>Plain_generator\<close> runs with the \<open>GenerationContext\<close> and its project, \<open>Controlled_generator\<close> has a
  \<open>run_with_control\<close> and reports a fraction with a segment number and count.
\<close>

datatype generator =
  Plain_generator "generation_request \<Rightarrow> string option \<Rightarrow> rat gen_prog"
| Controlled_generator "generation_request \<Rightarrow> (rat \<times> int \<times> int) gen_prog"

text \<open>\<open>GenerationContext.raise_if_cancelled\<close> is a poll that raises when it answers yes.\<close>

definition raise_if_cancelled :: "(exn + unit \<Rightarrow> 'c gen_prog) \<Rightarrow> 'c gen_prog" where
  "raise_if_cancelled k =
     Gen_poll (\<lambda>r. case r of
       Inl e \<Rightarrow> k (Inl e)
     | Inr c \<Rightarrow> if c then k (Inl Generation_cancelled) else k (Inr ()))"

text \<open>The results a run can end with.\<close>

inductive gen_yields :: "'c gen_prog \<Rightarrow> generation_result \<Rightarrow> bool" where
  "gen_yields (Gen_return r) r"
| "gen_yields (k x) r \<Longrightarrow> gen_yields (Gen_report c k) r"
| "gen_yields (k y) r \<Longrightarrow> gen_yields (Gen_poll k) r"

text \<open>A generator that says it was cancelled only after it was told so, or after a fault.\<close>

primrec honest :: "'c gen_prog \<Rightarrow> bool" where
  "honest (Gen_return r) = True"
| "honest (Gen_raise e) = (e \<noteq> Generation_cancelled)"
| "honest (Gen_report c k) = (\<forall>x. honest (k x))"
| "honest (Gen_poll k) = (\<forall>y. y \<noteq> Inr True \<longrightarrow> honest (k y))"

section \<open>The registry\<close>

type_synonym generator_registry = "string \<times> string option \<rightharpoonup> generator"

definition init_generators :: "(string \<times> generator) list \<Rightarrow> generator_registry" where
  "init_generators generators = map_of (map (\<lambda>(media, g). ((media, None), g)) generators)"

definition register_generator ::
  "string \<Rightarrow> string option \<Rightarrow> generator \<Rightarrow> generator_registry \<Rightarrow> generator_registry" where
  "register_generator media_type task_type g reg = reg((media_type, task_type) \<mapsto> g)"

definition get_generator :: "generator_registry \<Rightarrow> string \<Rightarrow> string option \<Rightarrow> exn + generator" where
  "get_generator reg media_type task_type =
     (case reg (media_type, task_type) of
        Some g \<Rightarrow> Inr g
      | None \<Rightarrow>
          (case task_type of
             None \<Rightarrow>
               Inl (Value_error (''No generator registered for media type '' @ quoted media_type @ ''.''))
           | Some task \<Rightarrow>
               Inl (Value_error (''No generator registered for media type '' @ quoted media_type @
                 '' and task type '' @ quoted task @ ''.''))))"

text \<open>
  A named task never falls back to another generator. A look-up gives the generator
  registered for exactly its media type and task type, the last one registered for that pair,
  and an exception where there is none: a misspelt task does not run the default generator.
\<close>

theorem get_generator_exact:
  "get_generator (register_generator m t g reg) m' t' =
     (if (m', t') = (m, t) then Inr g else get_generator reg m' t') \<and>
   (\<forall>task. \<exists>message. get_generator (init_generators gs) m' (Some task) = Inl (Value_error message))"
proof
  show "get_generator (register_generator m t g reg) m' t' =
     (if (m', t') = (m, t) then Inr g else get_generator reg m' t')"
    by (simp add: get_generator_def register_generator_def)
  have "init_generators gs (m', Some task) = None" for task
    by (induction gs) (auto simp: init_generators_def)
  then show "\<forall>task. \<exists>message. get_generator (init_generators gs) m' (Some task) = Inl (Value_error message)"
    by (simp add: get_generator_def)
qed

end
