(* ===== verification/Job_Runner.thy ===== *)
theory Job_Runner imports Job_Service Generators begin

text \<open>
  \<open>JobRunner\<close> of \<open>core/jobs/runner.py\<close>: taking a job from the queue, claiming it in the database,
  running its generator and bringing it to an end, with every failure path of the code.

  \<open>process_job\<close> is split where the code's \<open>try\<close> blocks nest: what happens before the claim is won
  raises to the caller; after it, every exception goes to \<open>resolve_claim_failure\<close>, and once the
  cancellation registration exists its removal runs last, whatever happened.
\<close>

section \<open>The runner\<close>

record 'x runner =
  rn_service :: "'x service"
  rn_publishes :: bool
  rn_cancellation :: bool
  rn_generators :: generator_registry

definition runner_publish :: "'x runner \<Rightarrow> string \<Rightarrow> (string \<times> json) list \<Rightarrow> ('x, unit) job_io" where
  "runner_publish rn = publish (rn_service rn\<lparr>sv_publishes := rn_publishes rn\<rparr>)"

definition generator_of :: "'x runner \<Rightarrow> job_record \<Rightarrow> ('x, generator) job_io" where
  "generator_of rn job =
     lift_result (get_generator (rn_generators rn) (media_text (jr_media_type job))
       (req_task_type (jr_request job)))"

definition db_is_cancelled :: "string \<Rightarrow> ('x, bool) job_io" where
  "db_is_cancelled job_id =
     bnd (repo_get job_id) (\<lambda>current.
       ret (case current of
              None \<Rightarrow> False | Some job \<Rightarrow> jr_status job \<in> {Cancel_requested, Cancelled}))"

definition event_name_for_status :: "job_status \<Rightarrow> string" where
  "event_name_for_status s =
     (case s of Preparing \<Rightarrow> ''job_preparing'' | Running \<Rightarrow> ''job_started''
      | Postprocessing \<Rightarrow> ''job_postprocessing'' | _ \<Rightarrow> ''job_status_updated'')"

definition expected_before :: "job_status \<Rightarrow> job_status list option" where
  "expected_before s =
     (case s of Preparing \<Rightarrow> Some [Queued] | Running \<Rightarrow> Some [Preparing]
      | Postprocessing \<Rightarrow> Some [Running] | _ \<Rightarrow> None)"

definition runner_update_status ::
  "'x runner \<Rightarrow> string \<Rightarrow> job_status \<Rightarrow> rat option \<Rightarrow> ('x, job_record option) job_io" where
  "runner_update_status rn job_id status progress =
     bnd (case expected_before status of
            None \<Rightarrow> repo_update_status job_id status progress
          | Some expected \<Rightarrow>
              repo_update_if_status job_id expected
                (no_patch\<lparr>pt_status := Some status, pt_progress := progress\<rparr>)) (\<lambda>updated.
       case updated of
         None \<Rightarrow> ret None
       | Some job \<Rightarrow>
           bnd (runner_publish rn (event_name_for_status status) (job_payload job)) (\<lambda>_. ret (Some job)))"

section \<open>Progress\<close>

definition RUNNING_PROGRESS_START :: rat where "RUNNING_PROGRESS_START = fl (1 / 10)"

definition RUNNING_PROGRESS_SPAN :: rat where "RUNNING_PROGRESS_SPAN = fl (8 / 10)"

definition mapped_progress :: "rat \<Rightarrow> rat" where
  "mapped_progress fraction = fadd RUNNING_PROGRESS_START (fmul (clamp fraction) RUNNING_PROGRESS_SPAN)"

definition segment_progress :: "rat \<Rightarrow> rat" where
  "segment_progress fraction =
     min (fl (89 / 100)) (fadd (fl (1 / 10)) (fmul (clamp fraction) (fl (79 / 100))))"

definition report_generation_progress :: "'x runner \<Rightarrow> string \<Rightarrow> rat \<Rightarrow> ('x, unit) job_io" where
  "report_generation_progress rn job_id fraction =
     bnd (repo_update_if_status job_id [Running]
            (no_patch\<lparr>pt_progress := Some (mapped_progress fraction)\<rparr>)) (\<lambda>updated.
       case updated of
         None \<Rightarrow> ret ()
       | Some job \<Rightarrow> runner_publish rn ''job_progress'' (job_payload job))"

definition report_segment_progress ::
  "'x runner \<Rightarrow> string \<Rightarrow> rat \<times> int \<times> int \<Rightarrow> ('x, unit) job_io" where
  "report_segment_progress rn job_id =
     (\<lambda>(fraction, segment, segment_count).
       bnd (db_is_cancelled job_id) (\<lambda>cancelled.
         if cancelled then ret ()
         else
           bnd (repo_update_if_status job_id [Running]
                  (no_patch\<lparr>pt_status := Some Running, pt_progress := Some (segment_progress fraction)\<rparr>))
             (\<lambda>updated.
               case updated of
                 None \<Rightarrow> ret ()
               | Some job \<Rightarrow>
                   runner_publish rn ''job_segment_progress''
                     (job_payload job @
                        [(''segment'', JInt segment), (''segment_count'', JInt segment_count)]))))"

section \<open>Running a generator\<close>

text \<open>The context's \<open>is_cancelled\<close>: the registry first, then the database; never without a registry.\<close>

definition context_is_cancelled :: "'x runner \<Rightarrow> string \<Rightarrow> ('x, bool) job_io" where
  "context_is_cancelled rn job_id =
     (if rn_cancellation rn then
        bnd (with_registry (\<lambda>r. (registry_is_cancelled job_id r, r))) (\<lambda>signalled.
          if signalled then ret True else db_is_cancelled job_id)
      else ret False)"

primrec run_plain ::
  "rat gen_prog \<Rightarrow> 'x runner \<Rightarrow> string \<Rightarrow> gen_context \<Rightarrow> ('x, generation_result) job_io" where
  "run_plain (Gen_return result) = (\<lambda>rn job_id c. ret result)"
| "run_plain (Gen_raise e) = (\<lambda>rn job_id c. raise e)"
| "run_plain (Gen_report fraction k) = (\<lambda>rn job_id c.
     bnd read_clock (\<lambda>now.
       case report_progress fraction now c of
         (None, c') \<Rightarrow> run_plain (k (Inr ())) rn job_id c'
       | (Some x, c') \<Rightarrow>
           bnd (attempt (report_generation_progress rn job_id x)) (\<lambda>r. run_plain (k r) rn job_id c')))"
| "run_plain (Gen_poll k) = (\<lambda>rn job_id c.
     bnd (attempt (context_is_cancelled rn job_id)) (\<lambda>r. run_plain (k r) rn job_id c))"

primrec run_controlled ::
  "(rat \<times> int \<times> int) gen_prog \<Rightarrow> 'x runner \<Rightarrow> string \<Rightarrow> ('x, generation_result) job_io" where
  "run_controlled (Gen_return result) = (\<lambda>rn job_id. ret result)"
| "run_controlled (Gen_raise e) = (\<lambda>rn job_id. raise e)"
| "run_controlled (Gen_report c k) = (\<lambda>rn job_id.
     bnd (attempt (report_segment_progress rn job_id c)) (\<lambda>r. run_controlled (k r) rn job_id))"
| "run_controlled (Gen_poll k) = (\<lambda>rn job_id.
     bnd (attempt (db_is_cancelled job_id)) (\<lambda>r. run_controlled (k r) rn job_id))"

definition run_generator :: "'x runner \<Rightarrow> job_record \<Rightarrow> generator \<Rightarrow> ('x, generation_result) job_io" where
  "run_generator rn job g =
     (case g of
        Plain_generator prog \<Rightarrow>
          run_plain (prog (jr_request job) (jr_project_id job)) rn (jr_id job) init_context
      | Controlled_generator prog \<Rightarrow> run_controlled (prog (jr_request job)) rn (jr_id job))"

section \<open>Executing a claimed job\<close>

definition finalize :: "'x runner \<Rightarrow> string \<Rightarrow> ('x, job_record option) job_io" where
  "finalize rn = service_finalize_cancellation (rn_service rn)"

text \<open>The inner \<open>try\<close>: a result, or the record an early \<open>return\<close> gives.\<close>

datatype gen_step = Stopped "job_record option" | Generated generation_result

definition generate_step :: "'x runner \<Rightarrow> string \<Rightarrow> job_record \<Rightarrow> ('x, gen_step) job_io" where
  "generate_step rn job_id job =
     catch
       (bnd (generator_of rn job) (\<lambda>g.
        bnd (runner_update_status rn job_id Running (Some (fl (1 / 10)))) (\<lambda>updated.
          case updated of
            None \<Rightarrow> bnd (finalize rn job_id) (\<lambda>r. ret (Stopped r))
          | Some _ \<Rightarrow> bnd (run_generator rn job g) (\<lambda>result. ret (Generated result)))))
       (\<lambda>e. if e = Generation_cancelled then bnd (finalize rn job_id) (\<lambda>r. ret (Stopped r))
             else
               bnd (db_is_cancelled job_id) (\<lambda>cancelled.
                 if cancelled then bnd (finalize rn job_id) (\<lambda>r. ret (Stopped r))
                 else bnd (service_mark_failed (rn_service rn) job_id (exn_text e))
                        (\<lambda>r. ret (Stopped r))))"

definition finish_step ::
  "'x runner \<Rightarrow> string \<Rightarrow> generation_result \<Rightarrow> ('x, job_record option) job_io" where
  "finish_step rn job_id result =
     bnd (db_is_cancelled job_id) (\<lambda>cancelled.
       if cancelled then finalize rn job_id
       else
         bnd (runner_update_status rn job_id Postprocessing (Some (fl (9 / 10)))) (\<lambda>updated.
           case updated of
             None \<Rightarrow> finalize rn job_id
           | Some _ \<Rightarrow>
               bnd (service_mark_succeeded (rn_service rn) job_id result) (\<lambda>completion.
                 case completion of
                   Some j \<Rightarrow> if jr_status j = Cancel_requested then finalize rn job_id else ret completion
                 | None \<Rightarrow> ret completion)))"

definition run_registered :: "'x runner \<Rightarrow> string \<Rightarrow> job_record \<Rightarrow> ('x, job_record option) job_io" where
  "run_registered rn job_id job =
     bnd (db_is_cancelled job_id) (\<lambda>cancelled.
       if cancelled then finalize rn job_id
       else
         bnd (generate_step rn job_id job) (\<lambda>step.
           case step of Stopped r \<Rightarrow> ret r | Generated result \<Rightarrow> finish_step rn job_id result))"

definition resolve_claim_failure :: "'x runner \<Rightarrow> string \<Rightarrow> exn \<Rightarrow> ('x, job_record option) job_io" where
  "resolve_claim_failure rn job_id e =
     bnd (attempt (finalize rn job_id)) (\<lambda>current.
       case current of
         Inr (Some job) \<Rightarrow>
           if is_terminal_status (jr_status job) then ret (Some job)
           else bnd (attempt (service_mark_failed (rn_service rn) job_id (exn_text e))) (\<lambda>failed.
                  case failed of
                    Inr r \<Rightarrow> ret r
                  | Inl _ \<Rightarrow> bnd (attempt (repo_get job_id)) (\<lambda>r. case r of Inr j \<Rightarrow> ret j | Inl _ \<Rightarrow> ret None))
       | _ \<Rightarrow> bnd (attempt (service_mark_failed (rn_service rn) job_id (exn_text e))) (\<lambda>failed.
                  case failed of
                    Inr r \<Rightarrow> ret r
                  | Inl _ \<Rightarrow> bnd (attempt (repo_get job_id)) (\<lambda>r. case r of Inr j \<Rightarrow> ret j | Inl _ \<Rightarrow> ret None)))"

definition registry_begin_io :: "string \<Rightarrow> ('x, nat) job_io" where
  "registry_begin_io job_id = with_registry (registry_begin job_id)"

definition registry_end_io :: "string \<Rightarrow> nat \<Rightarrow> ('x, unit) job_io" where
  "registry_end_io job_id token = with_registry (\<lambda>r. ((), registry_end job_id token r))"

text \<open>\<open>finally\<close> around a body that never leaves its state: the end runs, then the outcome stands.\<close>

definition ending_with :: "('x, 'a) job_io \<Rightarrow> ('x, unit) job_io \<Rightarrow> ('x, 'a) job_io" where
  "ending_with m last_step = bnd (attempt m) (\<lambda>r. bnd last_step (\<lambda>_. lift_result r))"

definition after_claim :: "'x runner \<Rightarrow> string \<Rightarrow> job_record \<Rightarrow> ('x, job_record option) job_io" where
  "after_claim rn job_id job =
     bnd (attempt
            (bnd (repo_get job_id) (\<lambda>claimed.
               case claimed of
                 None \<Rightarrow> raise (Runtime_error (''Claimed job '' @ quoted job_id @ '' disappeared.''))
               | Some j \<Rightarrow>
                   runner_publish rn (event_name_for_status Preparing)
                     [(''job_id'', JStr (jr_id j)), (''status'', JStr (status_text Preparing)),
                      (''progress'', JFloat 0)]))) (\<lambda>setup.
       case setup of
         Inl e \<Rightarrow> resolve_claim_failure rn job_id e
       | Inr _ \<Rightarrow>
           if rn_cancellation rn then
             bnd (registry_begin_io job_id) (\<lambda>token.
               ending_with (catch (run_registered rn job_id job) (resolve_claim_failure rn job_id))
                 (registry_end_io job_id token))
           else catch (run_registered rn job_id job) (resolve_claim_failure rn job_id))"

definition claim_job :: "string \<Rightarrow> ('x, bool) job_io" where
  "claim_job job_id = repo_transition_if_status job_id [Queued] Preparing (Some 0) None"

definition process_job :: "'x runner \<Rightarrow> string \<Rightarrow> ('x, job_record option) job_io" where
  "process_job rn job_id =
     bnd (repo_get job_id) (\<lambda>found.
       case found of
         None \<Rightarrow> ret None
       | Some job \<Rightarrow>
           if jr_status job = Cancelled then ret (Some job)
           else if jr_status job \<noteq> Queued then ret (Some job)
           else bnd (claim_job job_id) (\<lambda>won.
                  if \<not> won then repo_get job_id else after_claim rn job_id job))"

section \<open>The queue consumer\<close>

datatype quarantine_outcome = Quarantined | Already_resolved | Write_failed

definition publish_quarantined :: "'x runner \<Rightarrow> string \<Rightarrow> exn \<Rightarrow> ('x, unit) job_io" where
  "publish_quarantined rn job_id e =
     runner_publish rn ''job_failed''
       [(''job_id'', JStr job_id), (''status'', JStr (status_text Failed)), (''progress'', JFloat 1),
        (''error_message'', JStr (exn_text e))]"

definition quarantine_poison_job :: "'x runner \<Rightarrow> string \<Rightarrow> exn \<Rightarrow> ('x, quarantine_outcome) job_io" where
  "quarantine_poison_job rn job_id e =
     bnd (attempt (repo_transition_if_status job_id [Queued] Failed (Some 1) (Some (Some (exn_text e))))) (\<lambda>r.
       case r of
         Inl _ \<Rightarrow> ret Write_failed
       | Inr True \<Rightarrow> bnd (publish_quarantined rn job_id e) (\<lambda>_. ret Quarantined)
       | Inr False \<Rightarrow>
           bnd (attempt (repo_get_raw_status job_id)) (\<lambda>s.
             case s of
               Inl _ \<Rightarrow> ret Write_failed
             | Inr raw \<Rightarrow>
                 (case raw of
                    Some (Unknown _) \<Rightarrow>
                      bnd (attempt (repo_quarantine_structurally_invalid_status job_id (exn_text e))) (\<lambda>q.
                        case q of
                          Inl _ \<Rightarrow> ret Write_failed
                        | Inr True \<Rightarrow> bnd (publish_quarantined rn job_id e) (\<lambda>_. ret Quarantined)
                        | Inr False \<Rightarrow> ret Already_resolved)
                  | _ \<Rightarrow> ret Already_resolved)))"

definition is_permanent_pre_claim_failure :: "exn \<Rightarrow> bool" where
  "is_permanent_pre_claim_failure e = (case e of Decode_error _ _ \<Rightarrow> True | _ \<Rightarrow> False)"

definition queue_dequeue :: "string option \<Rightarrow> ('x, string option) job_io" where
  "queue_dequeue lane = with_queue (dequeue lane)"

definition redeliver :: "'x runner \<Rightarrow> string \<Rightarrow> string option \<Rightarrow> exn \<Rightarrow> ('x, job_record option) job_io" where
  "redeliver rn job_id lane e =
     (if is_permanent_pre_claim_failure e then
        bnd (quarantine_poison_job rn job_id e) (\<lambda>outcome.
          if outcome = Write_failed then bnd (queue_enqueue job_id lane) (\<lambda>_. raise e)
          else raise e)
      else bnd (queue_enqueue job_id lane) (\<lambda>_. raise e))"

definition run_once :: "'x runner \<Rightarrow> string option \<Rightarrow> ('x, job_record option) job_io" where
  "run_once rn lane =
     bnd (queue_dequeue lane) (\<lambda>next_id.
       case next_id of
         None \<Rightarrow> ret None
       | Some job_id \<Rightarrow> catch (process_job rn job_id) (redeliver rn job_id lane))"

text \<open>\<open>run_forever\<close> up to the check of the stop event that ends it; every iteration is kept alive.\<close>

fun run_forever :: "nat \<Rightarrow> 'x runner \<Rightarrow> string option \<Rightarrow> ('x, unit) job_io" where
  "run_forever 0 rn lane = ret ()"
| "run_forever (Suc n) rn lane = bnd (attempt (run_once rn lane)) (\<lambda>_. run_forever n rn lane)"

section \<open>Every step follows the lifecycle\<close>

abbreviation runner_ok :: "'x runner \<Rightarrow> bool" where
  "runner_ok rn \<equiv> service_ok (rn_service rn)"

lemma along_runner_publish [along]: "runner_ok rn \<Longrightarrow> holds_along evolves (runner_publish rn event_type payload)"
  unfolding runner_publish_def by (intro along) (simp add: service_ok_def)

lemma along_generator_of [along]: "holds_along evolves (generator_of rn job)"
  unfolding generator_of_def by (intro along_steps)

lemma along_db_is_cancelled [along]: "holds_along evolves (db_is_cancelled job_id)"
  unfolding db_is_cancelled_def by (intro along_steps along)

lemma along_runner_update_status [along]:
  "runner_ok rn \<Longrightarrow> holds_along evolves (runner_update_status rn job_id status progress)"
  unfolding runner_update_status_def by (intro along_steps along)

lemma along_reports [along]:
  "runner_ok rn \<Longrightarrow> holds_along evolves (report_generation_progress rn job_id fraction)"
  "runner_ok rn \<Longrightarrow> holds_along evolves (report_segment_progress rn job_id c)"
  unfolding report_generation_progress_def report_segment_progress_def
  by (intro along_steps along | assumption)+

lemma along_context_is_cancelled [along]: "holds_along evolves (context_is_cancelled rn job_id)"
  unfolding context_is_cancelled_def by (intro along_steps along along_with_registry) simp

lemma along_run_plain: "runner_ok rn \<Longrightarrow> holds_along evolves (run_plain prog rn job_id c)"
proof (induction prog arbitrary: c)
  case (Gen_report fraction k)
  have "holds_along evolves (case report_progress fraction now c of
         (None, c') \<Rightarrow> run_plain (k (Inr ())) rn job_id c'
       | (Some x, c') \<Rightarrow>
           bnd (attempt (report_generation_progress rn job_id x)) (\<lambda>r. run_plain (k r) rn job_id c'))" for now
    using Gen_report by (auto split: prod.splits option.splits intro!: along_steps along)
  then show ?case by (simp add: evolving.along_bnd along_clocks)
next
  case (Gen_poll k)
  then show ?case by (auto intro!: along_steps along)
qed (auto intro: along_steps)

lemma along_run_controlled: "runner_ok rn \<Longrightarrow> holds_along evolves (run_controlled prog rn job_id)"
  by (induction prog) (auto intro!: along_steps along)

lemma along_run_generator [along]: "runner_ok rn \<Longrightarrow> holds_along evolves (run_generator rn job g)"
  by (cases g) (simp_all add: run_generator_def along_run_plain along_run_controlled)

lemma along_finalize [along]: "runner_ok rn \<Longrightarrow> holds_along evolves (finalize rn job_id)"
  unfolding finalize_def by (intro along)

lemma along_generate_step [along]: "runner_ok rn \<Longrightarrow> holds_along evolves (generate_step rn job_id job)"
  unfolding generate_step_def by (intro along_steps along | assumption)+

lemma along_finish_step [along]: "runner_ok rn \<Longrightarrow> holds_along evolves (finish_step rn job_id result)"
  unfolding finish_step_def by (intro along_steps along | assumption)+

lemma along_case_gen_step:
  "(\<And>r. holds_along R (f r)) \<Longrightarrow> (\<And>x. holds_along R (g x)) \<Longrightarrow>
   holds_along R (case s of Stopped r \<Rightarrow> f r | Generated x \<Rightarrow> g x)"
  by (cases s) auto

lemma along_run_registered [along]: "runner_ok rn \<Longrightarrow> holds_along evolves (run_registered rn job_id job)"
  unfolding run_registered_def by (intro along_steps along_case_gen_step along | assumption)+

lemma along_resolve [along]: "runner_ok rn \<Longrightarrow> holds_along evolves (resolve_claim_failure rn job_id e)"
  unfolding resolve_claim_failure_def by (intro along_steps along | assumption)+

lemma along_registry_io [along]:
  "holds_along evolves (registry_begin_io job_id)" "holds_along evolves (registry_end_io job_id token)"
  unfolding registry_begin_io_def registry_end_io_def
  by (intro along_with_registry; simp add: registry_ok_begin registry_ok_end)+

lemma along_ending_with:
  "holds_along evolves m \<Longrightarrow> holds_along evolves last_step \<Longrightarrow> holds_along evolves (ending_with m last_step)"
  unfolding ending_with_def by (intro along_steps)

lemma along_after_claim [along]: "runner_ok rn \<Longrightarrow> holds_along evolves (after_claim rn job_id job)"
  unfolding after_claim_def by (intro along_steps along_ending_with along | assumption)+

lemma along_claim_job [along]: "holds_along evolves (claim_job job_id)"
  unfolding claim_job_def by (intro along)

lemma along_process_job [along]: "runner_ok rn \<Longrightarrow> holds_along evolves (process_job rn job_id)"
  unfolding process_job_def by (intro along_steps along | assumption)+

lemma along_case_bool:
  "holds_along R m \<Longrightarrow> holds_along R n \<Longrightarrow> holds_along R (case b of True \<Rightarrow> m | False \<Rightarrow> n)"
  by (cases b) auto

lemma along_case_raw:
  "(\<And>s. holds_along R (f s)) \<Longrightarrow> (\<And>u. holds_along R (g u)) \<Longrightarrow>
   holds_along R (case r of Known s \<Rightarrow> f s | Unknown u \<Rightarrow> g u)"
  by (cases r) auto

lemma along_quarantine_poison_job [along]:
  "runner_ok rn \<Longrightarrow> holds_along evolves (quarantine_poison_job rn job_id e)"
  unfolding quarantine_poison_job_def publish_quarantined_def
  by (intro along_steps along_case_bool along_case_raw along | assumption)+

lemma along_queue_dequeue [along]: "holds_along evolves (queue_dequeue lane)"
  unfolding queue_dequeue_def
  by (intro along_with_queue) (auto simp: queue_step_ok_def intro: queue_kept_dequeue)

lemma along_redeliver [along]: "runner_ok rn \<Longrightarrow> holds_along evolves (redeliver rn job_id lane e)"
  unfolding redeliver_def by (intro along_steps along | assumption)+

lemma along_run_once [along]: "runner_ok rn \<Longrightarrow> holds_along evolves (run_once rn lane)"
  unfolding run_once_def by (intro along_steps along | assumption)+

lemma along_run_forever [along]: "runner_ok rn \<Longrightarrow> holds_along evolves (run_forever n rn lane)"
  by (induction n) (auto intro!: along_steps along)

end
