(* ===== verification/Runner_Delivery.thy ===== *)
theory Runner_Delivery imports Job_Runner begin

text \<open>
  What the queue consumer guarantees whatever happens: no job is lost between the queue and
  the database, the cancellation registration of a job ends with its run, and the progress a
  generator reports stays in the slice reserved for it. All of it for every schedule of the
  other threads and every placement of database failures.
\<close>

section \<open>Out of the queued state\<close>

definition not_queued :: "string \<Rightarrow> 'x world_scheme \<Rightarrow> bool" where
  "not_queued job_id w \<longleftrightarrow>
     (\<exists>row. row_find job_id (w_jobs w) = Some row \<and> col_status row \<noteq> Known Queued)"

lemma raw_not_queued: "raw_follows r r' \<Longrightarrow> r \<noteq> Known Queued \<Longrightarrow> r' \<noteq> Known Queued"
  by (cases r) (auto simp: raw_follows_def dest: reach_queued)

lemma not_queued_evolves: "not_queued job_id w \<Longrightarrow> evolves w w' \<Longrightarrow> not_queued job_id w'"
proof -
  assume "not_queued job_id w" and ev: "evolves w w'"
  then obtain row where row: "row_find job_id (w_jobs w) = Some row" "col_status row \<noteq> Known Queued"
    by (auto simp: not_queued_def)
  obtain row' where "row_find job_id (w_jobs w') = Some row'" "row_follows row row'"
    using ev row(1) by (rule evolves_find)
  with row(2) raw_not_queued show "not_queued job_id w'" by (auto simp: not_queued_def row_follows_def)
qed

lemma not_queued_seen: "not_queued job_id w \<Longrightarrow> status_of job_id w = Some s \<Longrightarrow> seen job_id NOT_QUEUED w"
  by (auto simp: not_queued_def status_of_def seen_def NOT_QUEUED_def split: raw_status.splits)

lemma not_queued_stands: "not_queued job_id w \<Longrightarrow> stands job_id j w \<Longrightarrow> seen job_id NOT_QUEUED w"
  using not_queued_seen stands_facts(2) by blast

lemma missed_not_queued:
  assumes "present job_id w"
    and "\<And>t. status_of job_id w = Some t \<Longrightarrow> t \<notin> set [Queued] \<or> \<not> is_valid_transition t s"
    and "is_valid_transition Queued s"
  shows "not_queued job_id w"
  using assms by (fastforce simp: present_def not_queued_def status_of_def)

lemma hit_not_queued: "status_of job_id w = Some s \<Longrightarrow> s \<noteq> Queued \<Longrightarrow> seen job_id NOT_QUEUED w"
  by (simp add: seen_def NOT_QUEUED_def)

lemma keeps_not_queued:
  "seen job_id NOT_QUEUED w \<Longrightarrow> holds_along evolves m \<Longrightarrow> m w = (r, w') \<Longrightarrow> seen job_id NOT_QUEUED w'"
  using along_seen lasting_sets(4) by blast

text \<open>A run of \<open>process_job\<close> that returns has left the job out of \<open>queued\<close>.\<close>

lemma process_job_returns:
  assumes "process_job rn job_id w = (Inr r, w')" and "runner_ok rn" and "present job_id w"
  shows "seen job_id NOT_QUEUED w'"
  using assms(1) unfolding process_job_def
proof (cases rule: bnd_runs)
  case (went_on found w1)
  obtain job where job: "found = Some job" "stands job_id job w1"
    using repo_get_present [OF went_on(1) assms(3)] by blast
  show ?thesis
  proof (cases "jr_status job = Queued")
    case False
    then have "w' = w1" using went_on(2) job(1) by (auto split: if_splits)
    with False job(2) show ?thesis using hit_not_queued stands_facts(2) by blast
  next
    case True
    with went_on(2) job(1) have "bnd (claim_job job_id) (\<lambda>won.
        if \<not> won then repo_get job_id else after_claim rn job_id job) w1 = (Inr r, w')" by simp
    then show ?thesis
    proof (cases rule: bnd_runs)
      case claim: (went_on won w2)
      have w2: "present job_id w2"
        using along_claim_job stands_facts(3) [OF job(2)] claim(1) by (rule along_present)
      from claim(1) have "repo_transition_if_status job_id [Queued] Preparing (Some 0) None w1 = (Inr won, w2)"
        by (simp add: claim_job_def)
      moreover have "[Queued] \<noteq> []" by simp
      ultimately show ?thesis
      proof (cases rule: repo_transition_runs)
        case hit
        then have "seen job_id NOT_QUEUED w2" by (intro hit_not_queued) auto
        moreover from hit claim(2) have "after_claim rn job_id job w2 = (Inr r, w')" by simp
        ultimately show ?thesis using along_after_claim [OF assms(2)] keeps_not_queued by blast
      next
        case miss
        then have "not_queued job_id w2"
          using missed_not_queued [OF w2, of Preparing] by (auto simp: status_simps)
        moreover from miss claim(2) have get: "repo_get job_id w2 = (Inr r, w')" by simp
        ultimately have "not_queued job_id w'"
          using not_queued_evolves along_runs [OF along_repo_get] by blast
        moreover obtain j where "stands job_id j w'" using repo_get_present [OF get w2] by blast
        ultimately show ?thesis by (rule not_queued_stands)
      qed simp
    qed simp
  qed
qed simp

lemma quarantine_settles:
  assumes "quarantine_poison_job rn job_id e w = (r, w')" and "runner_ok rn" and "present job_id w"
  shows "\<exists>outcome. r = Inr outcome \<and> (outcome \<noteq> Write_failed \<longrightarrow> seen job_id NOT_QUEUED w')"
  using assms(1) unfolding quarantine_poison_job_def
proof (cases rule: bnd_runs)
  case (raised x)
  then show ?thesis by (auto elim: attempt_runs)
next
  case (went_on q w1)
  have publishes: "\<exists>outcome. r = Inr outcome \<and> (outcome \<noteq> Write_failed \<longrightarrow> seen job_id NOT_QUEUED w')"
    if "bnd (publish_quarantined rn job_id e) (\<lambda>_. ret Quarantined) v = (r, w')"
      and "status_of job_id v = Some Failed" for v
  proof -
    have "holds_along evolves (bnd (publish_quarantined rn job_id e) (\<lambda>_. ret Quarantined))"
      unfolding publish_quarantined_def by (intro along_steps along assms)
    with that hit_not_queued have "seen job_id NOT_QUEUED w'" using keeps_not_queued by blast
    moreover have "r = Inr Quarantined"
      using that(1) by (auto simp: publish_quarantined_def runner_publish_def
          elim!: bnd_runs dest: publish_returns)
    ultimately show ?thesis by blast
  qed
  from went_on(1) have t: "repo_transition_if_status job_id [Queued] Failed (Some 1)
      (Some (Some (exn_text e))) w = (q, w1)" by (auto elim: attempt_runs)
  moreover have "[Queued] \<noteq> []" by simp
  ultimately show ?thesis
  proof (cases rule: repo_transition_runs)
    case fault
    with went_on(2) show ?thesis by simp
  next
    case hit
    with went_on(2) publishes show ?thesis by simp
  next
    case miss
    have "present job_id w1"
      using along_repo_transition assms(3) t by (rule along_present)
    then have nq: "not_queued job_id w1"
      using missed_not_queued [of job_id w1 Failed] miss(3) by (auto simp: status_simps)
    from miss(1) went_on(2) obtain s w2 where s: "repo_get_raw_status job_id w1 = (s, w2)"
      and rest: "(case s of
               Inl _ \<Rightarrow> ret Write_failed
             | Inr raw \<Rightarrow>
                 (case raw of
                    Some (Unknown _) \<Rightarrow>
                      bnd (attempt (repo_quarantine_structurally_invalid_status job_id (exn_text e))) (\<lambda>q.
                        case q of
                          Inl _ \<Rightarrow> ret Write_failed
                        | Inr True \<Rightarrow> bnd (publish_quarantined rn job_id e) (\<lambda>_. ret Quarantined)
                        | Inr False \<Rightarrow> ret Already_resolved)
                  | _ \<Rightarrow> ret Already_resolved)) w2 = (r, w')"
      by (auto elim!: bnd_runs attempt_runs)
    have nq2: "not_queued job_id w2"
      using nq s not_queued_evolves along_runs [OF along_repo_reads(4)] by blast
    show ?thesis
    proof (cases s)
      case (Inl x)
      with rest show ?thesis by simp
    next
      case (Inr raw)
      with s have "raw = map_option col_status (row_find job_id (w_jobs w2))"
        unfolding repo_get_raw_status_def by (cases rule: db_read_cases) auto
      with nq2 obtain row where row: "row_find job_id (w_jobs w2) = Some row" "raw = Some (col_status row)"
        by (auto simp: not_queued_def)
      show ?thesis
      proof (cases "col_status row")
        case (Known st)
        then have "status_of job_id w2 = Some st" using row(1) by (simp add: status_of_def)
        with nq2 have "seen job_id NOT_QUEUED w2" by (rule not_queued_seen)
        with rest Inr row(2) Known show ?thesis by simp
      next
        case (Unknown u)
        with rest Inr row(2) obtain q' w3 where
          q': "repo_quarantine_structurally_invalid_status job_id (exn_text e) w2 = (q', w3)"
          and rest': "(case q' of
                          Inl _ \<Rightarrow> ret Write_failed
                        | Inr True \<Rightarrow> bnd (publish_quarantined rn job_id e) (\<lambda>_. ret Quarantined)
                        | Inr False \<Rightarrow> ret Already_resolved) w3 = (r, w')"
          by (auto elim!: bnd_runs attempt_runs)
        have nq3: "not_queued job_id w3"
          using nq2 q' not_queued_evolves along_runs [OF along_repo_quarantine] by blast
        show ?thesis
        proof (cases q')
          case (Inl x)
          with rest' show ?thesis by simp
        next
          case (Inr b)
          have run: "db_update job_id status_unknown (quarantine_row (exn_text e)) w2 = (Inr b, w3)"
            using q' Inr by (simp add: repo_quarantine_structurally_invalid_status_def)
          show ?thesis
          proof (cases b)
            case True
            with run have hit: "db_update job_id status_unknown (quarantine_row (exn_text e)) w2 = (Inr True, w3)"
              by simp
            obtain old where "row_find job_id (w_jobs w3) =
                Some (quarantine_row (exn_text e) (t_now (next_tick w2)) old)"
              by (rule db_update_hit [OF hit]) (auto simp: row_simps)
            then have "status_of job_id w3 = Some Failed" by (simp add: status_of_def row_simps)
            with rest' Inr True publishes show ?thesis by simp
          next
            case False
            with run have miss: "db_update job_id status_unknown (quarantine_row (exn_text e)) w2 = (Inr False, w3)"
              by simp
            obtain row' where row': "row_find job_id (w_jobs w3) = Some row'"
              using nq3 by (auto simp: not_queued_def)
            have "\<not> status_unknown row'"
              by (rule db_update_miss(2) [OF miss _ row']) (simp add: row_simps)
            then obtain st where "status_of job_id w3 = Some st"
              using row' by (auto simp: status_unknown_def raw_in_JOB_STATUSES status_of_def)
            with nq3 have "seen job_id NOT_QUEUED w3" by (rule not_queued_seen)
            with rest' Inr False show ?thesis by simp
          qed
        qed
      qed
    qed
  qed
qed

section \<open>Redelivery\<close>

definition waiting :: "string \<Rightarrow> 'x world_scheme \<Rightarrow> bool" where
  "waiting job_id w \<longleftrightarrow> (\<exists>lane. job_id \<in> set (pending (w_queue w) lane))"

definition lane_open :: "string option \<Rightarrow> 'x world_scheme \<Rightarrow> bool" where
  "lane_open lane w \<longleftrightarrow> queue_ok (w_queue w) \<and> (\<exists>t. queue_resolve_lane (w_queue w) lane = Inr t)"

lemma lane_open_evolves: "lane_open lane w \<Longrightarrow> evolves w w' \<Longrightarrow> lane_open lane w'"
  using resolve_same_lanes [of "w_queue w'" "w_queue w" lane]
  by (simp add: lane_open_def evolves_def keeps_shape_def queue_kept_def)

lemma enqueue_waits:
  assumes "queue_ok q" and "queue_resolve_lane q lane = Inr t"
  shows "case enqueue job_id lane q of
           Inl _ \<Rightarrow> \<exists>l. job_id \<in> set (pending q l)
         | Inr q' \<Rightarrow> \<exists>l. job_id \<in> set (pending q' l)"
proof (cases "enqueue job_id lane q")
  case (Inl e)
  with assms have "\<exists>l. q_job_lane q job_id = Some l"
    by (auto simp: enqueue_def split: option.splits if_splits)
  with assms(1) Inl show ?thesis by (auto simp: queue_ok_def)
next
  case (Inr q')
  from enqueue_cases [OF assms(1) Inr] obtain l where "job_id \<in> set (pending q' l)"
  proof cases
    case (1 u)
    from 1(4) show thesis
    proof
      assume "q' = q \<and> job_id \<in> set (pending q u)"
      then show thesis using that by blast
    next
      assume "(\<forall>l. job_id \<notin> set (pending q l)) \<and>
         q' = q\<lparr>q_job_lane := (q_job_lane q)(job_id \<mapsto> u),
                q_queues := (q_queues q)(u \<mapsto> pending q u @ [job_id])\<rparr>"
      then have "job_id \<in> set (pending q' u)" by simp
      then show thesis by (rule that)
    qed
  qed
  with Inr show ?thesis by auto
qed

lemma queue_enqueue_waits:
  assumes "queue_enqueue job_id lane w = (r, w')" and "lane_open lane w"
  shows "waiting job_id w'"
proof -
  let ?q = "w_queue (interfere w)"
  have "lane_open lane (interfere w)" using assms(2) interfere_evolves by (rule lane_open_evolves)
  then obtain t where "queue_ok ?q" "queue_resolve_lane ?q lane = Inr t" by (auto simp: lane_open_def)
  from enqueue_waits [OF this, of job_id] assms(1) show ?thesis
    by (cases "enqueue job_id lane ?q")
      (auto simp: queue_enqueue_def with_queue_def atomic_def waiting_def)
qed

lemma redeliver_settles:
  assumes "redeliver rn job_id lane e w = (r, w')" and "runner_ok rn" and "present job_id w"
    and "lane_open lane w"
  shows "seen job_id NOT_QUEUED w' \<or> waiting job_id w'"
proof -
  have requeue: "waiting job_id w'"
    if "bnd (queue_enqueue job_id lane) (\<lambda>_. raise e) v = (r, w')" and "lane_open lane v" for v
    using that by (auto elim!: bnd_runs dest: queue_enqueue_waits)
  show ?thesis
  proof (cases "is_permanent_pre_claim_failure e")
    case False
    with assms requeue show ?thesis by (simp add: redeliver_def)
  next
    case True
    with assms(1) have "bnd (quarantine_poison_job rn job_id e) (\<lambda>outcome.
          if outcome = Write_failed then bnd (queue_enqueue job_id lane) (\<lambda>_. raise e)
          else raise e) w = (r, w')" by (simp add: redeliver_def)
    then show ?thesis
    proof (cases rule: bnd_runs)
      case (raised x)
      with quarantine_settles [OF raised(1) assms(2,3)] show ?thesis by simp
    next
      case (went_on outcome w1)
      have "lane_open lane w1"
        using assms(4) along_runs [OF along_quarantine_poison_job [OF assms(2)] went_on(1)]
        by (rule lane_open_evolves)
      with went_on requeue quarantine_settles [OF went_on(1) assms(2,3)] show ?thesis
        by (auto split: if_splits)
    qed
  qed
qed

section \<open>Properties\<close>

text \<open>
  C2: no job is lost. When the consumer takes a stored job out of the queue, then, however its
  run ends, by returning or by raising, with any failures of the database and any
  interference, the job is afterwards in a valid status other than \<open>queued\<close>, or it waits in the
  queue again. A readable or unreadable row, even one with an invalid status, is never left
  queued in the database with no entry in the queue.
\<close>

theorem run_once_never_loses:
  assumes "run_once rn lane w = (r, w')" and "runner_ok rn" and "queue_ok (w_queue w)"
    and "queue_dequeue lane w = (Inr (Some job_id), w1)" and "present job_id w1"
  shows "seen job_id NOT_QUEUED w' \<or> waiting job_id w'"
proof -
  have "evolves w w1" using assms(4) by (rule along_runs [rotated]) (intro along)
  moreover have "lane_open lane (interfere w)"
  proof -
    have "queue_ok (w_queue (interfere w))"
      using assms(3) interfere_evolves [of w] by (auto simp: evolves_def keeps_shape_def queue_kept_def)
    moreover have "\<exists>t. queue_resolve_lane (w_queue (interfere w)) lane = Inr t"
      using assms(4)
      by (auto simp: queue_dequeue_def with_queue_def atomic_def dequeue_def split: sum.splits)
    ultimately show ?thesis by (simp add: lane_open_def)
  qed
  moreover have "evolves (interfere w) w1"
    using assms(4)
    by (auto simp: queue_dequeue_def with_queue_def atomic_def keeps_shape_def
        intro!: evolves_shape dest: queue_kept_dequeue split: sum.splits)
  ultimately have open1: "lane_open lane w1" using lane_open_evolves by blast
  from assms(1,4) have "catch (process_job rn job_id) (redeliver rn job_id lane) w1 = (r, w')"
    by (simp add: run_once_def bnd_def)
  then show ?thesis
  proof (cases rule: catch_runs)
    case (passed x)
    with process_job_returns [OF _ assms(2,5)] show ?thesis by blast
  next
    case (handled e w2)
    have ev: "evolves w1 w2" using handled(1) by (rule along_runs [rotated]) (intro along assms)
    from handled(2) assms(2) present_evolves [OF assms(5) ev] lane_open_evolves [OF open1 ev]
    show ?thesis by (rule redeliver_settles)
  qed
qed

definition sample_runner :: "'x runner" where
  "sample_runner =
     \<lparr>rn_service = sample_service, rn_publishes = True, rn_cancellation = True,
      rn_generators = init_generators []\<rparr>"

definition locked_world :: world where
  "locked_world = sample_world\<lparr>w_ticks := [quiet_tick, quiet_tick\<lparr>t_fault := True\<rparr>]\<rparr>"

lemma locked_queue_ok: "queue_ok (w_queue locked_world)"
  by (auto simp: locked_world_def sample_world_def queue_ok_def pending_def split: if_splits)

theorem run_once_never_loses_witness:
  "\<exists>w'. run_once sample_runner None locked_world = (Inl Sqlite_error, w') \<and>
     (seen ''job_1'' NOT_QUEUED w' \<or> waiting ''job_1'' w')"
proof -
  have eval: "fst (run_once (sample_runner :: unit runner) None locked_world) = Inl Sqlite_error"
    "fst (queue_dequeue None locked_world) = Inr (Some ''job_1'')"
    "row_find ''job_1'' (w_jobs (snd (queue_dequeue None locked_world))) \<noteq> None"
    by code_simp+
  obtain w' where run: "run_once (sample_runner :: unit runner) None locked_world = (Inl Sqlite_error, w')"
    using eval(1) by (cases "run_once (sample_runner :: unit runner) None locked_world") auto
  obtain w1 where deq: "queue_dequeue None locked_world = (Inr (Some ''job_1''), w1)"
    using eval(2) by (cases "queue_dequeue None locked_world") auto
  have "present ''job_1'' w1" using eval(3) deq by (simp add: present_def)
  from run_once_never_loses [OF run _ locked_queue_ok deq this] run
  show ?thesis by (auto simp: sample_runner_def sample_service_ok)
qed

section \<open>Progress\<close>

lemma clamp_mono: "a \<le> b \<Longrightarrow> clamp a \<le> clamp b"
  by (auto simp: clamp_def)

lemma span_nonneg: "0 \<le> RUNNING_PROGRESS_SPAN"
  unfolding RUNNING_PROGRESS_SPAN_def by (intro fl_nonneg) simp

lemma mapped_progress_mono: "a \<le> b \<Longrightarrow> mapped_progress a \<le> mapped_progress b"
  unfolding mapped_progress_def fadd_def fmul_def
  using span_nonneg clamp_mono [of a b]
  by (intro fl_mono add_left_mono mult_right_mono)

lemma mapped_ends: "mapped_progress 0 = fl (1 / 10)" "mapped_progress 1 = fl (9 / 10)"
  by code_simp+

lemma mapped_clamped: "mapped_progress (clamp x) = mapped_progress x"
  by (simp add: mapped_progress_def clamp_def)

lemma mapped_bounds: "fl (1 / 10) \<le> mapped_progress x" "mapped_progress x \<le> fl (9 / 10)"
  using mapped_progress_mono [OF clamp_bounds(1) [of x]] mapped_progress_mono [OF clamp_bounds(2) [of x]]
  by (simp_all add: mapped_ends mapped_clamped)

lemma segment_bounds: "fl (1 / 10) \<le> segment_progress x" "segment_progress x \<le> fl (89 / 100)"
proof -
  have "0 \<le> fmul (clamp x) (fl (79 / 100))"
    unfolding fmul_def using clamp_bounds(1) by (intro fl_nonneg mult_nonneg_nonneg) auto
  then have "fl (fl (1 / 10)) \<le> fadd (fl (1 / 10)) (fmul (clamp x) (fl (79 / 100)))"
    unfolding fadd_def by (intro fl_mono) simp
  moreover have "fl (fl (1 / 10)) = fl (1 / 10)" "fl (1 / 10) \<le> fl (89 / 100)" by code_simp+
  ultimately show "fl (1 / 10) \<le> segment_progress x" by (simp add: segment_progress_def)
  show "segment_progress x \<le> fl (89 / 100)" by (simp add: segment_progress_def)
qed

text \<open>
  A generator's progress stays between preparation and postprocessing. Whatever fraction a
  generator reports, out of range or not, the job's progress it is mapped to lies between what
  entering \<open>running\<close> and entering \<open>postprocessing\<close> store, in binary64 arithmetic, and grows with
  the fraction; the segment variant stays below 0.89. So it is always a progress the job record
  accepts.
\<close>

theorem generator_progress_in_slice:
  "fl (1 / 10) \<le> mapped_progress x \<and> mapped_progress x \<le> fl (9 / 10) \<and>
   (x \<le> y \<longrightarrow> mapped_progress x \<le> mapped_progress y) \<and>
   fl (1 / 10) \<le> segment_progress x \<and> segment_progress x \<le> fl (89 / 100) \<and>
   0 \<le> fl (1 / 10) \<and> fl (9 / 10) \<le> 1"
  using mapped_bounds mapped_progress_mono segment_bounds fl_nonneg [of "1 / 10"] fl_le_1 [of "9 / 10"]
  by simp

theorem generator_progress_in_slice_witness:
  "mapped_progress (1 / 2) \<le> mapped_progress (3 :: rat)"
  using generator_progress_in_slice [of "1 / 2" 3] by simp

section \<open>The cancellation registration\<close>

definition same_registration :: "string \<Rightarrow> 'x world_scheme \<Rightarrow> 'x world_scheme \<Rightarrow> bool" where
  "same_registration job_id w w' \<longleftrightarrow>
     rg_events (w_registry w') job_id = rg_events (w_registry w) job_id"

interpretation registered: step_preorder "same_registration job_id" for job_id
  by unfold_locales (auto simp: same_registration_def)

named_theorems keeping \<open>operations that leave a job's registration alone\<close>

lemmas keep_steps = registered.along_rules along_cases

lemma perform_registration: "rg_events (w_registry (perform now a w)) = rg_events (w_registry w)"
  by (cases a) (auto simp: perform_def split: option.splits sum.splits)

lemma interfere_registration: "rg_events (w_registry (interfere w)) = rg_events (w_registry w)"
proof -
  have "rg_events (w_registry (fold (perform now) acts v)) = rg_events (w_registry v)"
    for now acts and v :: "'a world_scheme"
    by (induction acts arbitrary: v) (auto simp: perform_registration)
  then show ?thesis by (simp add: interfere_def)
qed

lemma keep_atomic:
  assumes "\<And>t w. rg_events (w_registry (snd (f t w))) job_id = rg_events (w_registry w) job_id"
  shows "holds_along (same_registration job_id) (atomic f)"
  using assms by (simp add: holds_along_def atomic_def same_registration_def interfere_registration)

lemma keep_db [keeping]:
  "holds_along (same_registration job_id) (db_read f)"
  "holds_along (same_registration job_id) (db_update a guard change)"
  unfolding db_read_def db_update_def transaction_def
  by (intro keep_atomic, simp split: prod.splits)+

lemma keep_repo [keeping]:
  "holds_along (same_registration job_id) (repo_get a)"
  "holds_along (same_registration job_id) (repo_update_if_status a expected p)"
  "holds_along (same_registration job_id) (repo_transition_if_status a expected status progress message)"
  "holds_along (same_registration job_id) (repo_update_status a status progress)"
  unfolding repo_get_def repo_update_if_status_def repo_transition_if_status_def repo_update_status_def
    repo_update_def repo_update_guarded_def decode_def
  by (intro keep_steps keeping)+

definition service_isolated :: "string \<Rightarrow> 'x service \<Rightarrow> bool" where
  "service_isolated job_id sv \<longleftrightarrow>
     (\<forall>s e. holds_along (same_registration job_id) (sv_deliver sv s e)) \<and>
     (\<forall>sync j. sv_sync_job sv = Some sync \<longrightarrow> holds_along (same_registration job_id) (sync j))"

lemma keep_publish [keeping]:
  "service_isolated job_id sv \<Longrightarrow> holds_along (same_registration job_id) (publish sv event_type payload)"
  unfolding publish_def bus_publish_def deliver_all_def
  by (intro keep_steps keep_atomic) (auto simp: service_isolated_def Let_def)

lemma keep_sync [keeping]:
  "service_isolated job_id sv \<Longrightarrow>
   holds_along (same_registration job_id) (case sv_sync_job sv of None \<Rightarrow> ret () | Some sync \<Rightarrow> sync job)"
  by (auto simp: service_isolated_def split: option.splits intro: keep_steps)

lemma keep_service [keeping]:
  assumes "service_isolated job_id sv"
  shows "holds_along (same_registration job_id) (service_mark_failed sv a message)"
    and "holds_along (same_registration job_id) (service_mark_succeeded sv a result)"
    and "holds_along (same_registration job_id) (service_finalize_cancellation sv a)"
  unfolding service_mark_failed_def service_mark_succeeded_def service_finalize_cancellation_def
  by (intro keep_steps keeping assms)+

lemma keep_runner_publish [keeping]:
  "service_isolated job_id (rn_service rn) \<Longrightarrow>
   holds_along (same_registration job_id) (runner_publish rn event_type payload)"
  unfolding runner_publish_def by (intro keeping) (simp add: service_isolated_def)

lemma keep_runner_reads [keeping]:
  "holds_along (same_registration job_id) (generator_of rn job)"
  "holds_along (same_registration job_id) (db_is_cancelled a)"
  "holds_along (same_registration job_id) read_clock"
  unfolding generator_of_def db_is_cancelled_def read_clock_def
  by (intro keep_steps keeping keep_atomic, simp?)+

lemma keep_context_is_cancelled [keeping]:
  "holds_along (same_registration job_id) (context_is_cancelled rn a)"
proof -
  have "holds_along (same_registration job_id) (with_registry (\<lambda>r. (registry_is_cancelled a r, r)))"
    unfolding with_registry_def by (intro keep_atomic) simp
  then show ?thesis
    unfolding context_is_cancelled_def by (intro keep_steps keeping)
qed

lemma keep_runner_steps [keeping]:
  assumes "service_isolated job_id (rn_service rn)"
  shows "holds_along (same_registration job_id) (runner_update_status rn a status progress)"
    and "holds_along (same_registration job_id) (finalize rn a)"
    and "holds_along (same_registration job_id) (report_generation_progress rn a fraction)"
    and "holds_along (same_registration job_id) (report_segment_progress rn a c)"
  unfolding runner_update_status_def finalize_def report_generation_progress_def report_segment_progress_def
  by (intro keep_steps keeping assms)+

lemma keep_generators [keeping]:
  assumes "service_isolated job_id (rn_service rn)"
  shows "holds_along (same_registration job_id) (run_plain prog rn a c)"
    and "holds_along (same_registration job_id) (run_controlled prog' rn a)"
proof -
  show "holds_along (same_registration job_id) (run_plain prog rn a c)"
  proof (induction prog arbitrary: c)
    case (Gen_report fraction k)
    have "holds_along (same_registration job_id) (case report_progress fraction now c of
         (None, c') \<Rightarrow> run_plain (k (Inr ())) rn a c'
       | (Some x, c') \<Rightarrow>
           bnd (attempt (report_generation_progress rn a x)) (\<lambda>r. run_plain (k r) rn a c'))" for now
      using Gen_report by (auto split: prod.splits option.splits intro!: keep_steps keeping assms)
    then show ?case by (simp add: registered.along_bnd keep_runner_reads)
  qed (auto intro!: keep_steps keeping assms)
  show "holds_along (same_registration job_id) (run_controlled prog' rn a)"
    by (induction prog') (auto intro!: keep_steps keeping assms)
qed

lemma keep_run [keeping]:
  assumes "service_isolated job_id (rn_service rn)"
  shows "holds_along (same_registration job_id) (run_registered rn a job)"
    and "holds_along (same_registration job_id) (resolve_claim_failure rn a e)"
proof -
  have "holds_along (same_registration job_id) (run_generator rn job g)" for g
    by (cases g) (simp_all add: run_generator_def keep_generators assms)
  then show "holds_along (same_registration job_id) (run_registered rn a job)"
    unfolding run_registered_def generate_step_def finish_step_def
    by (intro keep_steps along_case_gen_step keeping assms)
  show "holds_along (same_registration job_id) (resolve_claim_failure rn a e)"
    unfolding resolve_claim_failure_def by (intro keep_steps keeping assms)
qed

lemma keep_claim: "holds_along (same_registration job_id) (claim_job a)"
  unfolding claim_job_def by (intro keeping)

lemma keep_runs: "holds_along (same_registration job_id) m \<Longrightarrow> m w = (r, w') \<Longrightarrow>
    rg_events (w_registry w') job_id = rg_events (w_registry w) job_id"
  by (metis holds_along_def same_registration_def snd_conv)

lemma begin_io_runs:
  assumes "registry_begin_io job_id w = (r, w')"
  obtains token where "r = Inr token" and "rg_events (w_registry w') job_id = Some token"
  using assms registry_begin_registers [of job_id "w_registry (interfere w)"]
  by (auto simp: registry_begin_io_def with_registry_def atomic_def split: prod.splits)

lemma end_io_runs:
  assumes "registry_end_io job_id token w = (r, w')" and "rg_events (w_registry w) job_id = Some token"
  shows "rg_events (w_registry w') job_id = None"
  using assms by (auto simp: registry_end_io_def with_registry_def atomic_def registry_end_def
      interfere_registration)

text \<open>
  A registration lives exactly as long as the run it belongs to. A run of a job that was not
  registered leaves it unregistered, whether it returns or raises, under any schedule in which
  the event subscribers and the asset sync do not register the job themselves: a later cancel
  request cannot signal an event nobody watches, and a later run starts with a fresh one.
\<close>

theorem registration_ends_with_run:
  assumes "process_job rn job_id w = (r, w')" and "rg_events (w_registry w) job_id = None"
    and "service_isolated job_id (rn_service rn)"
  shows "rg_events (w_registry w') job_id = None"
proof -
  let ?guarded = "\<lambda>job. catch (run_registered rn job_id job) (resolve_claim_failure rn job_id)"
  have guarded: "holds_along (same_registration job_id) (?guarded job)" for job
    by (intro keep_steps keeping assms)
  have after: "rg_events (w_registry v') job_id = None"
    if "after_claim rn job_id job v = (q, v')" and "rg_events (w_registry v) job_id = None"
    for job v q v'
    using that(1) unfolding after_claim_def
  proof (cases rule: bnd_runs)
    case (raised e)
    then show ?thesis by (auto elim: attempt_runs)
  next
    case (went_on prep v1)
    have "holds_along (same_registration job_id) (bnd (repo_get job_id) (\<lambda>claimed.
               case claimed of
                 None \<Rightarrow> raise (Runtime_error (''Claimed job '' @ quoted job_id @ '' disappeared.''))
               | Some j \<Rightarrow>
                   runner_publish rn (event_name_for_status Preparing)
                     [(''job_id'', JStr (jr_id j)), (''status'', JStr (status_text Preparing)),
                      (''progress'', JFloat 0)]))"
      by (intro keep_steps keeping assms)
    then have v1: "rg_events (w_registry v1) job_id = None"
      using keep_runs [OF registered.along_attempt went_on(1)] that(2) by simp
    show ?thesis
    proof (cases prep)
      case (Inl e)
      with went_on(2) v1 keep_runs [OF keep_run(2) [OF assms(3)]] show ?thesis by simp
    next
      case (Inr u)
      show ?thesis
      proof (cases "rn_cancellation rn")
        case False
        with Inr went_on(2) v1 keep_runs [OF guarded] show ?thesis by simp
      next
        case True
        with Inr went_on(2) have "bnd (registry_begin_io job_id) (\<lambda>token.
            ending_with (?guarded job) (registry_end_io job_id token)) v1 = (q, v')" by simp
        then show ?thesis
        proof (cases rule: bnd_runs)
          case (raised e)
          then show ?thesis by (auto elim: begin_io_runs)
        next
          case begun: (went_on token v2)
          then have v2: "rg_events (w_registry v2) job_id = Some token" by (auto elim: begin_io_runs)
          from begun(2) obtain q' v3 v4 x where mid: "?guarded job v2 = (q', v3)"
            and fin: "registry_end_io job_id token v3 = (x, v4)" and "v' = v4"
            by (auto simp: ending_with_def elim!: bnd_runs attempt_runs)
          with v2 keep_runs [OF guarded mid] end_io_runs [OF fin] show ?thesis by simp
        qed
      qed
    qed
  qed
  from assms(1) show ?thesis
    unfolding process_job_def
  proof (cases rule: bnd_runs)
    case (raised e)
    with assms(2) keep_runs [OF keep_repo(1) raised(1)] show ?thesis by simp
  next
    case (went_on found w1)
    have w1: "rg_events (w_registry w1) job_id = None"
      using assms(2) keep_runs [OF keep_repo(1) went_on(1)] by simp
    show ?thesis
    proof (cases "\<exists>job. found = Some job \<and> jr_status job = Queued")
      case False
      with went_on(2) w1 show ?thesis by (auto split: option.splits if_splits)
    next
      case True
      then obtain job where "found = Some job" "jr_status job = Queued" by blast
      with went_on(2) have "bnd (claim_job job_id) (\<lambda>won.
          if \<not> won then repo_get job_id else after_claim rn job_id job) w1 = (r, w')" by simp
      then show ?thesis
      proof (cases rule: bnd_runs)
        case (raised e)
        with w1 keep_runs [OF keep_claim raised(1)] show ?thesis by simp
      next
        case (went_on won w2)
        then have "rg_events (w_registry w2) job_id = None"
          using w1 keep_runs [OF keep_claim went_on(1)] by simp
        moreover have "repo_get job_id w2 = (r, w') \<Longrightarrow> ?thesis"
          using calculation keep_runs [OF keep_repo(1), of job_id w2 r w' job_id] by simp
        ultimately show ?thesis using went_on(2) after by (cases won) auto
      qed
    qed
  qed
qed

theorem registration_ends_with_run_witness:
  "rg_events (w_registry (snd (process_job (sample_runner :: unit runner) ''job_1'' sample_world))) ''job_1'' = None"
proof -
  have "service_isolated ''job_1'' (rn_service (sample_runner :: unit runner))"
    by (auto simp: service_isolated_def sample_runner_def sample_service_def intro: keep_steps)
  moreover have "rg_events (w_registry sample_world) ''job_1'' = None"
    by (simp add: sample_world_def init_registry_def)
  ultimately show ?thesis
    using registration_ends_with_run [of sample_runner "''job_1''" sample_world]
    by (cases "process_job (sample_runner :: unit runner) ''job_1'' sample_world") simp
qed

end
