(* ===== verification/Completion_Facts.thy ===== *)
theory Completion_Facts imports Completion Asset_Sync Runner_Delivery begin

text \<open>
  What a converged job may rely on: the mark \<open>completion_state\<close> is \<open>done\<close> when an attempt says so, and
  stays pending when it does not and nobody else marks the job.
\<close>

section \<open>Recovery reads the jobs and writes the files\<close>

locale recovery_frame = assets_frame R for R :: "'x world_scheme \<Rightarrow> 'x world_scheme \<Rightarrow> bool" +
  assumes R_stories: "R w (w\<lparr>w_stories := dir\<rparr>)"
begin

lemma frame_story_recovery: "holds_along R (story_get_for_recovery story_id)"
  unfolding story_get_for_recovery_def by (intro frame_atomic) (simp add: R_refl)

lemma frame_story_mutate: "holds_along R (story_mutate story_id f)"
  unfolding story_mutate_def
  by (intro frame_atomic) (auto simp: R_refl R_stories Let_def split: sum.splits option.splits)

lemma frame_replay: "holds_along R (replay_job_safely job_id)"
  unfolding replay_job_safely_def binder_bind_def
  by (intro frame_assets frame_story_mutate)

lemma frame_candidates: "holds_along R build_scene_candidate_index"
  unfolding build_scene_candidate_index_def by (intro frame_assets)

lemma frame_usable: "holds_along R (has_usable_output job)" "holds_along R (usable_among jobs)"
proof -
  show one: "holds_along R (has_usable_output job)" for job
    unfolding has_usable_output_def by (intro frame_assets)
  show "holds_along R (usable_among jobs)" by (induction jobs) (auto intro!: frame_calm one)
qed

lemma frame_winner: "holds_along R (replay_winner job key index)"
proof -
  have "holds_along R (recheck_replay key)"
    unfolding recheck_replay_def by (intro frame_calm frame_story_recovery)
  then show ?thesis
    unfolding replay_winner_def Let_def by (intro frame_calm frame_usable frame_replay)
qed

lemma frame_converge_scene: "holds_along R (converge_scene_binding job index)"
  unfolding converge_scene_binding_def
  by (intro frame_calm frame_story_recovery frame_replay frame_usable frame_candidates frame_winner)

lemma frame_steps:
  assumes "\<And>bp. cv_batches cv = Some bp \<Longrightarrow> holds_along R (bp_reconcile_child bp (jr_id job))"
  shows "holds_along R (completion_steps cv job index owned)"
proof -
  have "holds_along R (reconcile_batch cv (jr_id job) owned)"
    unfolding reconcile_batch_def using assms by (cases "cv_batches cv") (auto intro!: frame_calm)
  then show ?thesis
    unfolding completion_steps_def converge_story_def
    by (intro frame_calm frame_asset_sync frame_converge_scene)
qed

end

section \<open>Completion marks nobody else writes\<close>

text \<open>No other thread marks the completion of this job while the call runs.\<close>

definition marks_calm :: "string \<Rightarrow> 'x world_scheme \<Rightarrow> bool" where
  "marks_calm job_id w \<longleftrightarrow> (\<forall>t \<in> set (w_ticks w). Act_completion_done job_id \<notin> set (t_acts t))"

definition mark_of :: "string \<Rightarrow> 'x world_scheme \<Rightarrow> completion_state column option" where
  "mark_of job_id w = map_option col_completion_state (row_find job_id (w_jobs w))"

definition marks_kept :: "string \<Rightarrow> 'x world_scheme \<Rightarrow> 'x world_scheme \<Rightarrow> bool" where
  "marks_kept job_id w w' \<longleftrightarrow> (\<forall>m. mark_of job_id w = Some m \<longrightarrow> mark_of job_id w' = Some m)"

definition marks_still :: "string \<Rightarrow> 'x world_scheme \<Rightarrow> 'x world_scheme \<Rightarrow> bool" where
  "marks_still job_id w w' \<longleftrightarrow> (marks_calm job_id w \<longrightarrow> marks_calm job_id w' \<and> marks_kept job_id w w')"

lemma marks_kept_update:
  assumes "\<And>row. col_id (change row) = col_id row"
    and "\<And>row. k = job_id \<Longrightarrow> col_completion_state (change row) = col_completion_state row"
  shows "marks_kept k w (w\<lparr>w_jobs := snd (sql_update job_id guard change (w_jobs w))\<rparr>)"
  unfolding marks_kept_def
proof (intro allI impI)
  fix m assume "mark_of k w = Some m"
  then obtain row where row: "row_find k (w_jobs w) = Some row" "col_completion_state row = m"
    by (auto simp: mark_of_def)
  show "mark_of k (w\<lparr>w_jobs := snd (sql_update job_id guard change (w_jobs w))\<rparr>) = Some m"
    using assms row by (cases "k = job_id") (auto simp: mark_of_def sql_update_def row_find_map split: option.splits)
qed

lemma mark_columns [row_simps]:
  "col_completion_state (quarantine_row m now row) = col_completion_state row"
  "col_completion_state (completion_error_row m now row) = col_completion_state row"
  "col_completion_state (cancel_row now row) = col_completion_state row"
  by (auto simp: quarantine_row_def completion_error_row_def cancel_row_def row_simps
      split: raw_status.splits option.splits)

lemma perform_keeps_marks: "a \<noteq> Act_completion_done k \<Longrightarrow> marks_kept k w (perform now a w)"
proof (cases a)
  case (Act_update job_id expected p)
  then show ?thesis using marks_kept_update [of "apply_patch p now"] by (simp add: perform_def row_simps)
next
  case (Act_quarantine job_id message)
  then show ?thesis using marks_kept_update [of "quarantine_row message now"] by (simp add: perform_def row_simps)
next
  case (Act_completion_error job_id message)
  then show ?thesis
    using marks_kept_update [of "completion_error_row message now"] by (simp add: perform_def row_simps)
next
  case (Act_completion_done job_id)
  moreover assume "a \<noteq> Act_completion_done k"
  ultimately show ?thesis
    using marks_kept_update [of "completion_done_row now" k job_id] by (simp add: perform_def row_simps completion_columns)
next
  case (Act_cancel job_id)
  then show ?thesis
    using marks_kept_update [of "cancel_row now" k job_id w "\<lambda>_. True"]
    by (simp add: perform_def row_simps marks_kept_def mark_of_def)
next
  case (Act_create job_id project_id request)
  then show ?thesis
    by (auto simp: perform_def marks_kept_def mark_of_def sql_insert_def row_find_append split: option.splits)
qed (auto simp: perform_def marks_kept_def mark_of_def split: sum.splits prod.splits)

lemma performs_keep_marks:
  "Act_completion_done k \<notin> set acts \<Longrightarrow> marks_kept k w (fold (perform now) acts w)"
proof (induction acts arbitrary: w)
  case (Cons a acts)
  then have "marks_kept k w (perform now a w)" "marks_kept k (perform now a w) (fold (perform now) acts (perform now a w))"
    by (auto intro: perform_keeps_marks)
  then show ?case by (simp add: marks_kept_def)
qed (simp add: marks_kept_def)

lemma interfere_marks: "marks_still k w (interfere w)"
proof (cases "w_ticks w")
  case Nil
  then show ?thesis
    by (simp add: marks_still_def marks_calm_def interfere_def next_tick_def quiet_tick_def marks_kept_def mark_of_def)
next
  case (Cons t ts)
  then show ?thesis
    using performs_keep_marks [of k "t_acts t" "w\<lparr>w_ticks := ts\<rparr>" "t_now t"]
    by (auto simp: marks_still_def marks_calm_def interfere_def next_tick_def performs_keep_ticks
        marks_kept_def mark_of_def)
qed

lemma marks_still_trans: "marks_still k w v \<Longrightarrow> marks_still k v u \<Longrightarrow> marks_still k w u"
  unfolding marks_still_def marks_kept_def by blast

lemma marks_still_same: "w_jobs w' = w_jobs w \<Longrightarrow> w_ticks w' = w_ticks w \<Longrightarrow> marks_still k w w'"
  by (simp add: marks_still_def marks_calm_def marks_kept_def mark_of_def)

interpretation marks: recovery_frame "marks_still k" for k
  by unfold_locales (rule marks_still_same marks_still_trans interfere_marks; simp)+

section \<open>The mark says what was done\<close>

definition owes_completion :: "string \<Rightarrow> 'x world_scheme \<Rightarrow> bool" where
  "owes_completion job_id w \<longleftrightarrow>
     (\<exists>row. row_find job_id (w_jobs w) = Some row \<and> row_terminal row \<and> completion_pending row)"

lemma owes_mark: "owes_completion job_id w \<Longrightarrow> mark_of job_id w = Some (Good Completion_pending)"
  by (auto simp: owes_completion_def mark_of_def completion_pending_def)

definition ended :: "string \<Rightarrow> 'x world_scheme \<Rightarrow> bool" where
  "ended job_id w \<longleftrightarrow> (\<exists>row. row_find job_id (w_jobs w) = Some row \<and> row_terminal row)"

lemma owes_ended: "owes_completion job_id w \<Longrightarrow> ended job_id w"
  by (auto simp: owes_completion_def ended_def)

lemma stands_ended: "stands job_id job w \<Longrightarrow> is_terminal_status (jr_status job) \<Longrightarrow> ended job_id w"
  by (auto simp: stands_def ended_def reads_as_def row_terminal_def raw_in_def is_terminal_status_def)

lemma terminal_later:
  assumes "ended job_id w" and "evolves w w'"
  obtains row' where "row_find job_id (w_jobs w') = Some row'" and "row_terminal row'"
proof -
  obtain row where row: "row_find job_id (w_jobs w) = Some row" "row_terminal row"
    using assms(1) by (auto simp: ended_def)
  obtain row' where row': "row_find job_id (w_jobs w') = Some row'" "row_follows row row'"
    using assms(2) row(1) by (rule evolves_find)
  then have "row_terminal row'"
    using row(2) raw_terminal_stays [of "col_status row" "col_status row'"] by (auto simp: row_follows_def row_terminal_def)
  with row'(1) show ?thesis by (rule that)
qed

lemma owes_still:
  assumes "owes_completion job_id w" and "marks_calm job_id w" and "marks_still job_id w w'" and "evolves w w'"
  shows "owes_completion job_id w' \<and> marks_calm job_id w'"
proof -
  obtain row' where row': "row_find job_id (w_jobs w') = Some row'" "row_terminal row'"
    using terminal_later [OF owes_ended [OF assms(1)] assms(4)] by blast
  have "mark_of job_id w' = Some (Good Completion_pending)"
    using owes_mark [OF assms(1)] assms(2,3) by (auto simp: marks_still_def marks_kept_def)
  with row' assms(2,3) show ?thesis by (auto simp: owes_completion_def mark_of_def completion_pending_def marks_still_def)
qed

lemma owes_interfere:
  "owes_completion job_id w \<Longrightarrow> marks_calm job_id w \<Longrightarrow> owes_completion job_id (interfere w) \<and> marks_calm job_id (interfere w)"
  using owes_still interfere_marks interfere_evolves by blast

text \<open>A mark that was written without a fault is there, whoever else writes.\<close>

lemma mark_done_written:
  assumes "repo_mark_completion_done job_id w = (Inr hit, w')" and "ended job_id w0" and "evolves w0 w"
  shows "mark_of job_id w' = Some (Good Completion_done)"
proof -
  obtain row where row: "row_find job_id (w_jobs (interfere w)) = Some row" "row_terminal row"
    using terminal_later [OF assms(2) evolving.R_trans [OF assms(3) interfere_evolves]] by blast
  from assms(1) [unfolded repo_mark_completion_done_def] show ?thesis
  proof (cases rule: db_update_cases)
    case (ran b rows)
    with row show ?thesis
      by (auto simp: sql_update_def mark_of_def row_find_map completion_columns completion_done_row_def)
  qed simp
qed

lemma record_completion_done:
  assumes "record_completion job_id attempted w = (Inr Converge_done, w')" and "ended job_id w0" and "evolves w0 w"
  shows "mark_of job_id w' = Some (Good Completion_done)"
proof -
  from assms(1) obtain hit where "repo_mark_completion_done job_id w = (Inr hit, w')"
    by (auto simp: record_completion_def split: sum.splits prod.splits if_splits elim!: bnd_runs)
  then show ?thesis using assms(2,3) by (rule mark_done_written)
qed

lemma mark_done_runs:
  assumes "repo_mark_completion_done job_id w = (r, w')" and "owes_completion job_id w" and "marks_calm job_id w"
  shows "mark_of job_id w' = Some (Good (if r = Inr True then Completion_done else Completion_pending)) \<and>
     r \<in> {Inr True, Inl Sqlite_error}"
proof -
  obtain row where row: "row_find job_id (w_jobs (interfere w)) = Some row" "row_terminal row"
    using owes_interfere [OF assms(2,3)] by (auto simp: owes_completion_def)
  from assms(1) [unfolded repo_mark_completion_done_def] show ?thesis
  proof (cases rule: db_update_cases)
    case fault
    with owes_mark owes_interfere [OF assms(2,3)] show ?thesis by auto
  next
    case (ran b rows)
    with row show ?thesis
      by (auto simp: sql_update_def mark_of_def row_find_map completion_columns completion_done_row_def)
  qed
qed

lemma mark_error_runs:
  assumes "repo_mark_completion_pending_with_error job_id message w = (r, w')"
    and "owes_completion job_id w" and "marks_calm job_id w"
  shows "mark_of job_id w' = Some (Good Completion_pending)"
proof -
  obtain row where row: "row_find job_id (w_jobs (interfere w)) = Some row" "row_terminal row" "completion_pending row"
    using owes_interfere [OF assms(2,3)] by (auto simp: owes_completion_def)
  from assms(1) [unfolded repo_mark_completion_pending_with_error_def] show ?thesis
  proof (cases rule: db_update_cases)
    case fault
    with owes_mark owes_interfere [OF assms(2,3)] show ?thesis by auto
  next
    case (ran b rows)
    with row show ?thesis
      by (auto simp: sql_update_def mark_of_def row_find_map completion_error_row_def completion_pending_def)
  qed
qed

lemma record_completion_marks:
  assumes "record_completion job_id attempted w = (r, w')" and "owes_completion job_id w" and "marks_calm job_id w"
  shows "mark_of job_id w' = Some (Good (if r = Inr Converge_done then Completion_done else Completion_pending))"
proof (cases "\<exists>retryable. attempted = Inr ((True, retryable), False)")
  case True
  with assms(1) have "bnd (repo_mark_completion_done job_id) (\<lambda>_. ret Converge_done) w = (r, w')"
    by (auto simp: record_completion_def)
  then show ?thesis
  proof (cases rule: bnd_runs)
    case (raised e)
    with mark_done_runs [OF raised(1) assms(2,3)] show ?thesis by simp
  next
    case (went_on hit w1)
    with mark_done_runs [OF went_on(1) assms(2,3)] show ?thesis by auto
  qed
next
  case False
  have "\<exists>message outcome. outcome \<noteq> Converge_done \<and> record_completion job_id attempted w =
      bnd (repo_mark_completion_pending_with_error job_id message) (\<lambda>_. ret outcome) w"
  proof (cases attempted)
    case (Inl e)
    then have "record_completion job_id attempted w =
        bnd (repo_mark_completion_pending_with_error job_id (exn_text e)) (\<lambda>_. ret Retryable_failure) w"
      by (simp add: record_completion_def)
    then show ?thesis by (intro exI conjI) simp_all
  next
    case (Inr story)
    obtain converged retryable batch where story: "story = ((converged, retryable), batch)"
      by (cases story) auto
    show ?thesis
    proof (cases converged)
      case True
      with False story Inr have "record_completion job_id attempted w =
          bnd (repo_mark_completion_pending_with_error job_id BATCH_NOT_READY) (\<lambda>_. ret Retryable_failure) w"
        by (simp add: record_completion_def)
      then show ?thesis by (intro exI conjI) simp_all
    next
      case False
      with story Inr have "record_completion job_id attempted w =
          bnd (repo_mark_completion_pending_with_error job_id (if retryable then STORY_NOT_READY else STORY_AMBIGUOUS))
            (\<lambda>_. ret (if retryable then Retryable_failure else Unresolved)) w"
        by (simp add: record_completion_def)
      then show ?thesis by (intro exI conjI) simp_all
    qed
  qed
  then obtain message outcome where outcome: "outcome \<noteq> Converge_done"
    and "record_completion job_id attempted w =
      bnd (repo_mark_completion_pending_with_error job_id message) (\<lambda>_. ret outcome) w"
    by blast
  with assms(1) have "bnd (repo_mark_completion_pending_with_error job_id message) (\<lambda>_. ret outcome) w = (r, w')"
    by simp
  then show ?thesis
  proof (cases rule: bnd_runs)
    case (raised e)
    with mark_error_runs [OF raised(1) assms(2,3)] show ?thesis by simp
  next
    case (went_on hit w1)
    with mark_error_runs [OF went_on(1) assms(2,3)] outcome show ?thesis by auto
  qed
qed

definition port_leaves_mark :: "string \<Rightarrow> 'x converger \<Rightarrow> bool" where
  "port_leaves_mark job_id cv \<longleftrightarrow>
     (\<forall>bp. cv_batches cv = Some bp \<longrightarrow> holds_along (marks_still job_id) (bp_reconcile_child bp job_id))"

lemma converge_job_undone:
  assumes "converge_job cv job_id index owned w = (r, w')" and "converger_ok cv" and "port_leaves_mark job_id cv"
    and "marks_calm job_id w" and "owes_completion job_id w"
  shows "mark_of job_id w' = Some (Good (if r = Inr Converge_done then Completion_done else Completion_pending))"
proof -
  obtain found w1 where get: "repo_get job_id w = (found, w1)" by (cases "repo_get job_id w")
  have owes1: "owes_completion job_id w1" "marks_calm job_id w1"
    using owes_still [OF assms(5,4) marks.frame_runs [OF marks.frame_get get] along_runs [OF along_repo_get get]]
    by simp_all
  have run: "(case found of Inl _ \<Rightarrow> ret Unresolved | Inr None \<Rightarrow> ret Safe_noop
      | Inr (Some job) \<Rightarrow>
           if \<not> is_terminal_status (jr_status job) then ret Safe_noop
           else if jr_completion_state job = Completion_done then ret Safe_noop
           else bnd (attempt (completion_steps cv job index owned)) (record_completion job_id)) w1 = (r, w')"
    using assms(1) get by (simp add: converge_job_def bnd_def attempt_def)
  show ?thesis
  proof (cases "\<exists>job. found = Inr (Some job) \<and> is_terminal_status (jr_status job) \<and>
      jr_completion_state job \<noteq> Completion_done")
    case False
    with run have "w' = w1 \<and> r \<noteq> Inr Converge_done"
      by (auto split: sum.splits option.splits if_splits)
    with owes_mark [OF owes1(1)] show ?thesis by simp
  next
    case True
    then obtain job where job: "found = Inr (Some job)" "is_terminal_status (jr_status job)"
      "jr_completion_state job \<noteq> Completion_done" by blast
    obtain attempted w2 where steps: "completion_steps cv job index owned w1 = (attempted, w2)"
      by (cases "completion_steps cv job index owned w1")
    have mark: "record_completion job_id attempted w2 = (r, w')"
      using run job steps by (simp add: bnd_def attempt_def)
    from get job(1) have "jr_id job = job_id" by (cases rule: repo_get_runs) (auto dest: stands_facts(1))
    then have "holds_along (marks_still job_id) (completion_steps cv job index owned)"
      using assms(3) by (intro marks.frame_steps) (simp add: port_leaves_mark_def)
    then have "marks_still job_id w1 w2" using steps by (rule marks.frame_runs)
    then have "owes_completion job_id w2" "marks_calm job_id w2"
      using owes_still [OF owes1 _ along_runs [OF along_completion_steps [OF assms(2)] steps]] by simp_all
    with mark show ?thesis by (rule record_completion_marks)
  qed
qed

text \<open>A converger that reports \<open>DONE\<close> has written the mark.\<close>

lemma converge_job_done:
  assumes "converge_job cv job_id index owned w = (Inr Converge_done, w')" and "converger_ok cv"
  shows "mark_of job_id w' = Some (Good Completion_done)"
proof -
  obtain found w1 where get: "repo_get job_id w = (found, w1)" by (cases "repo_get job_id w")
  have "(case found of Inl _ \<Rightarrow> ret Unresolved | Inr None \<Rightarrow> ret Safe_noop
      | Inr (Some job) \<Rightarrow>
           if \<not> is_terminal_status (jr_status job) then ret Safe_noop
           else if jr_completion_state job = Completion_done then ret Safe_noop
           else bnd (attempt (completion_steps cv job index owned)) (record_completion job_id)) w1 = (Inr Converge_done, w')"
    using assms(1) get by (simp add: converge_job_def bnd_def attempt_def)
  then obtain job where job: "bnd (attempt (completion_steps cv job index owned)) (record_completion job_id) w1 =
      (Inr Converge_done, w')" and found: "found = Inr (Some job)" "is_terminal_status (jr_status job)"
    by (auto split: sum.splits option.splits if_splits)
  obtain attempted w2 where steps: "completion_steps cv job index owned w1 = (attempted, w2)"
    by (cases "completion_steps cv job index owned w1")
  with job have "record_completion job_id attempted w2 = (Inr Converge_done, w')" by (simp add: bnd_def attempt_def)
  moreover from get found(1) have "ended job_id w1"
    by (cases rule: repo_get_runs) (auto intro: stands_ended found(2))
  moreover have "evolves w1 w2" using along_runs [OF along_completion_steps [OF assms(2)] steps] .
  ultimately show ?thesis using record_completion_done by blast
qed

text \<open>
  C7: the completion mark tells the truth. When \<open>converge_job\<close> returns \<open>DONE\<close> the row is marked
  \<open>done\<close>, whatever other threads write and whatever the batch port does. When it does not, by an
  exception in a step or while the mark is written or because a step could not converge, a terminal
  job whose completion was pending is left pending, so that a later pass finds it again, provided
  nobody else marks this job's completion meanwhile, neither another thread nor the batch port's
  reconciliation of the job.
\<close>

theorem completion_mark_means_done:
  assumes "converge_job cv job_id index owned w = (r, w')" and "converger_ok cv"
  shows "(r = Inr Converge_done \<longrightarrow> mark_of job_id w' = Some (Good Completion_done)) \<and>
    (r \<noteq> Inr Converge_done \<and> owes_completion job_id w \<and> marks_calm job_id w \<and> port_leaves_mark job_id cv \<longrightarrow>
       mark_of job_id w' = Some (Good Completion_pending))"
proof (intro conjI impI)
  assume "r = Inr Converge_done"
  with assms show "mark_of job_id w' = Some (Good Completion_done)" by (blast intro: converge_job_done)
next
  assume "r \<noteq> Inr Converge_done \<and> owes_completion job_id w \<and> marks_calm job_id w \<and> port_leaves_mark job_id cv"
  with converge_job_undone [OF assms] show "mark_of job_id w' = Some (Good Completion_pending)" by simp
qed

definition sample_converger :: "unit converger" where
  "sample_converger = \<lparr>cv_assets = sample_assets, cv_story = True, cv_batches = None, cv_service = None\<rparr>"

lemma sample_converger_ok: "converger_ok sample_converger" "port_leaves_mark job_id sample_converger"
  by (simp_all add: converger_ok_def optional_port_ok_def port_leaves_mark_def sample_converger_def)

theorem completion_mark_means_done_witness:
  "mark_of ''job_1'' (snd (converge_job sample_converger ''job_1'' None None finished_world)) =
     Some (Good Completion_done) \<and>
   mark_of ''job_1'' (snd (converge_job sample_converger ''job_1'' None None (finished_world\<lparr>w_ticks := [quiet_tick\<lparr>t_fault := True\<rparr>]\<rparr>))) =
     Some (Good Completion_pending)"
proof -
  let ?run = "converge_job sample_converger ''job_1'' None None"
  let ?w = "finished_world\<lparr>w_ticks := [quiet_tick\<lparr>t_fault := True\<rparr>]\<rparr>"
  have ok: "fst (?run finished_world) = Inr Converge_done" and undone: "fst (?run ?w) = Inr Unresolved" by code_simp+
  have "owes_completion ''job_1'' ?w"
    by (simp add: owes_completion_def finished_world_def story_world_def row_find_def record_to_row_def
        finished_scene_job_def scene_job_def sample_job_def row_terminal_def completion_pending_def status_simps)
  moreover have "marks_calm ''job_1'' ?w" by (simp add: marks_calm_def quiet_tick_def)
  ultimately show ?thesis
    using completion_mark_means_done [OF prod.collapse [symmetric] sample_converger_ok(1), of "''job_1''" None None finished_world]
      completion_mark_means_done [OF prod.collapse [symmetric] sample_converger_ok(1), of "''job_1''" None None ?w]
      ok undone sample_converger_ok(2) by simp
qed

lemma done_stays:
  assumes "mark_of job_id w = Some (Good Completion_done)" and "evolves w w'"
  shows "mark_of job_id w' = Some (Good Completion_done)"
proof -
  obtain row where row: "row_find job_id (w_jobs w) = Some row" "col_completion_state row = Good Completion_done"
    using assms(1) by (auto simp: mark_of_def)
  obtain row' where "row_find job_id (w_jobs w') = Some row'" "row_follows row row'"
    using assms(2) row(1) by (rule evolves_find)
  with row(2) show ?thesis by (auto simp: mark_of_def row_follows_def)
qed

text \<open>A pass reports only what it marked.\<close>

lemma collected_done:
  assumes "collect (\<lambda>job. bnd (converge_job cv (jr_id job) index owned) (\<lambda>outcome. ret (jr_id job, outcome))) jobs w = (Inr outcomes, w')"
    and "converger_ok cv" and "(k, Converge_done) \<in> set outcomes"
  shows "mark_of k w' = Some (Good Completion_done)"
  using assms(1,3)
proof (induction jobs arbitrary: w outcomes)
  case (Cons job jobs)
  let ?step = "\<lambda>job. bnd (converge_job cv (jr_id job) index owned) (\<lambda>outcome. ret (jr_id job, outcome))"
  from Cons.prems(1) obtain outcome w1 rest where one: "converge_job cv (jr_id job) index owned w = (Inr outcome, w1)"
    and all: "collect ?step jobs w1 = (Inr rest, w')" and outcomes: "outcomes = (jr_id job, outcome) # rest"
    by (auto elim!: bnd_runs)
  have "holds_along evolves (collect ?step jobs)" by (intro along_steps along assms(2))
  with all have ev: "evolves w1 w'" by (blast intro: along_runs)
  show ?case
  proof (cases "(k, Converge_done) \<in> set rest")
    case True
    with Cons.IH [OF all] show ?thesis .
  next
    case False
    with Cons.prems(2) outcomes one have "converge_job cv k index owned w = (Inr Converge_done, w1)" by auto
    from done_stays [OF converge_job_done [OF this assms(2)] ev] show ?thesis .
  qed
qed simp

lemma pass_done:
  assumes "completion_pass cv stop w = (Inr outcomes, w')" and "converger_ok cv" and "(k, Converge_done) \<in> set outcomes"
  shows "mark_of k w' = Some (Good Completion_done)"
  using assms(1,3) unfolding completion_pass_def
  by (auto split: if_splits option.splits elim!: bnd_runs dest: collected_done [OF _ assms(2)])

section \<open>The event handler\<close>

text \<open>
  The event handler may raise after all: the marks are written outside the \<open>try\<close>.
\<close>

lemma completion_handler_may_raise:
  "let failed = record_to_row (sample_job\<lparr>jr_status := Failed\<rparr>);
       w = sample_world\<lparr>w_jobs := [failed], w_ticks := [quiet_tick, quiet_tick\<lparr>t_fault := True\<rparr>]\<rparr>;
       event = \<lparr>ev_type = ''job_failed'', ev_payload = [(''job_id'', JStr ''job_1'')], ev_created_at = ''t1''\<rparr> in
   fst (converger_handle_job_event sample_converger event w) = Inl Sqlite_error"
  unfolding Let_def by code_simp

end
