(* ===== verification/Startup_Facts.thy ===== *)
theory Startup_Facts imports Startup_Recovery Completion_Facts begin

text \<open>
  What one pass of startup recovery does to the jobs table. What it reports is true under every
  schedule, with any batch service and wherever storage fails. Where every row ends up is said of a
  pass with sound storage, without other threads and without a batch service.
\<close>

section \<open>Statuses that stay\<close>

definition statuses_still :: "'x world_scheme \<Rightarrow> 'x world_scheme \<Rightarrow> bool" where
  "statuses_still w w' \<longleftrightarrow> (w_ticks w = [] \<longrightarrow> w_ticks w' = [] \<and> (\<forall>job_id. raw_of job_id w' = raw_of job_id w))"

lemma quiet_interfere: "w_ticks w = [] \<Longrightarrow> interfere w = w"
  by (cases w) (simp add: interfere_def next_tick_def quiet_tick_def)

interpretation quiet: recovery_frame statuses_still
  by unfold_locales (auto simp: statuses_still_def quiet_interfere raw_of_def)

lemma still_update:
  assumes "\<And>now row. col_id (change now row) = col_id row" and "\<And>now row. col_status (change now row) = col_status row"
  shows "holds_along statuses_still (db_update job_id guard change)"
  unfolding db_update_def
proof (intro quiet.frame_transaction)
  fix t and w :: "'x world_scheme"
  have "raw_of k (w\<lparr>w_jobs := snd (sql_update job_id guard (change (t_now t)) (w_jobs w))\<rparr>) = raw_of k w" for k
    using assms by (cases "row_find k (w_jobs w)"; cases "k = job_id")
      (auto simp: raw_of_def sql_update_def row_find_map split: option.splits)
  then show "statuses_still w (snd (case sql_update job_id guard (change (t_now t)) (w_jobs w) of
      (hit, rows) \<Rightarrow> (Inr hit, w\<lparr>w_jobs := rows\<rparr>)))"
    by (simp add: statuses_still_def case_prod_beta)
qed

lemma still_record: "holds_along statuses_still (record_completion job_id attempted)"
proof -
  have "holds_along statuses_still (repo_mark_completion_done job_id)"
    "holds_along statuses_still (repo_mark_completion_pending_with_error job_id message)" for message
    unfolding repo_mark_completion_done_def repo_mark_completion_pending_with_error_def
    by (intro still_update; simp add: row_simps)+
  then show ?thesis unfolding record_completion_def by (intro quiet.frame_calm)
qed

lemma still_converge:
  assumes "cv_batches cv = None"
  shows "holds_along statuses_still (converge_job cv job_id index owned)"
  unfolding converge_job_def
  by (intro along_case_found quiet.frame_calm quiet.frame_steps still_record) (simp add: assms)

lemma still_pass:
  assumes "cv_batches cv = None"
  shows "holds_along statuses_still (completion_pass cv stop)"
  unfolding completion_pass_def scene_index_for_pass_def build_batch_ownership_index_def assms option.case
  by (intro quiet.frame_calm quiet.frame_reads quiet.frame_candidates still_converge assms)

lemma still_repair: "holds_along statuses_still (repair_assets_for_succeeded_jobs env)"
proof -
  have "holds_along statuses_still (repair_assets_of env jobs)" for jobs
    by (induction jobs) (auto intro!: quiet.frame_calm quiet.frame_asset_sync)
  then show ?thesis
    unfolding repair_assets_for_succeeded_jobs_def by (intro quiet.frame_calm quiet.frame_reads)
qed

definition leaves_statuses :: "'x service \<Rightarrow> bool" where
  "leaves_statuses sv \<longleftrightarrow> (\<forall>s e. holds_along statuses_still (sv_deliver sv s e))"

lemma still_enqueue:
  assumes "leaves_statuses sv"
  shows "holds_along statuses_still (service_enqueue_job sv job_id)"
proof -
  have "holds_along statuses_still (queue_enqueue job_id lane)" for lane
    unfolding queue_enqueue_def with_queue_def
    by (intro quiet.frame_atomic) (auto simp: statuses_still_def raw_of_def split: sum.splits)
  moreover have "holds_along statuses_still (publish sv event_type payload)" for event_type payload
    unfolding publish_def bus_publish_def deliver_all_def using assms
    by (intro quiet.frame_calm quiet.frame_atomic)
      (auto simp: leaves_statuses_def statuses_still_def raw_of_def Let_def)
  ultimately show ?thesis
    unfolding service_enqueue_job_def by (intro quiet.frame_calm)
qed

lemma still_requeue:
  assumes "leaves_statuses sv"
  shows "holds_along statuses_still (requeue_queued_jobs sv)"
proof -
  have "holds_along statuses_still (requeue_all sv jobs)" for jobs
    by (induction jobs) (auto intro!: quiet.frame_calm still_enqueue assms)
  then show ?thesis
    unfolding requeue_queued_jobs_def by (intro quiet.frame_calm quiet.frame_reads)
qed

section \<open>One row at a time\<close>

definition only_row :: "string \<Rightarrow> 'x world_scheme \<Rightarrow> 'x world_scheme \<Rightarrow> bool" where
  "only_row job_id w w' \<longleftrightarrow>
     w_ticks w' = [] \<and> map col_id (w_jobs w') = map col_id (w_jobs w) \<and>
     (\<forall>k. k \<noteq> job_id \<longrightarrow> row_find k (w_jobs w') = row_find k (w_jobs w))"

lemma quiet_update:
  assumes "w_ticks w = []" and "row_find job_id (w_jobs w) = Some row" and "guard row"
    and "\<And>now row. col_id (change now row) = col_id row"
  shows "\<exists>w'. db_update job_id guard change w = (Inr True, w') \<and> only_row job_id w w' \<and>
     row_find job_id (w_jobs w') = Some (change [] row)"
proof -
  let ?rows = "map (\<lambda>r. if col_id r = job_id then change [] r else r) (w_jobs w)"
  have "sql_update job_id guard (change []) (w_jobs w) = (True, ?rows)"
    using assms(2,3) by (simp add: sql_update_def)
  then have "db_update job_id guard change w = (Inr True, w\<lparr>w_jobs := ?rows\<rparr>)"
    using assms(1) by (simp add: db_update_def transaction_def quiet_atomic quiet_tick_def)
  moreover have "map col_id ?rows = map col_id (w_jobs w)" using assms(4) by simp
  moreover have "row_find k ?rows = (if k = job_id then Some (change [] row) else row_find k (w_jobs w))" for k
    using assms(2,4) by (auto simp: row_find_map option.map_ident)
  ultimately show ?thesis using assms(1) by (auto simp: only_row_def)
qed

lemma quiet_transition:
  assumes "w_ticks w = []" and "raw_of job_id w = Some (Known s)" and "is_valid_transition s t"
  shows "\<exists>w'. repo_transition_if_status job_id [s] t progress message w = (Inr True, w') \<and>
     only_row job_id w w' \<and> raw_of job_id w' = Some (Known t)"
proof -
  let ?p = "no_patch\<lparr>pt_status := Some t, pt_progress := progress, pt_error_message := message\<rparr>"
  obtain row where row: "row_find job_id (w_jobs w) = Some row" "col_status row = Known s"
    using assms(2) by (auto simp: raw_of_def)
  have "update_guard (Some [s]) (Some t) row"
    using row(2) assms(3) by (simp add: update_guard_def raw_in_def transition_sources_iff)
  from quiet_update [where guard = "update_guard (Some [s]) (Some t)" and change = "apply_patch ?p",
      OF assms(1) row(1) this] obtain w' where
    "db_update job_id (update_guard (Some [s]) (Some t)) (apply_patch ?p) w = (Inr True, w')"
    "only_row job_id w w'" "row_find job_id (w_jobs w') = Some (apply_patch ?p [] row)"
    by (auto simp: row_simps)
  then show ?thesis by (auto simp: repo_transition_if_status_def raw_of_def row_simps)
qed

section \<open>Step 1\<close>

text \<open>Where a row ends up, by whether it decodes and by its raw status.\<close>

definition startup_status :: "bool \<Rightarrow> raw_status \<Rightarrow> job_status" where
  "startup_status decodes raw =
     (case raw of
        Unknown _ \<Rightarrow> Failed
      | Known s \<Rightarrow>
          if is_terminal_status s then s
          else if s = Cancel_requested then Cancelled
          else if s = Queued \<and> decodes then Queued
          else Failed)"

lemma startup_status_again [simp]:
  "startup_status decodes (Known (startup_status False raw)) = startup_status False raw"
  by (cases raw) (auto simp: startup_status_def)

lemma quiet_raw_status: "w_ticks w = [] \<Longrightarrow> repo_get_raw_status job_id w = (Inr (raw_of job_id w), w)"
  by (simp add: repo_get_raw_status_def db_read_def transaction_def quiet_atomic quiet_tick_def raw_of_def)

lemma only_row_refl: "w_ticks w = [] \<Longrightarrow> only_row job_id w w"
  by (simp add: only_row_def)

lemma quiet_quarantine:
  assumes "w_ticks w = []" and "raw_of job_id w = Some raw"
  shows "\<exists>outcome w'. quarantine_or_defer_for_batch_cancellation None job_id e w = (Inr outcome, w') \<and>
     outcome \<noteq> Poison_transient \<and> outcome \<noteq> Poison_batch_uncertain \<and> only_row job_id w w' \<and>
     raw_of job_id w' = Some (Known (startup_status False raw))"
proof -
  let ?run = "quarantine_by_status job_id (quarantine_reason e) raw"
  have by_status: "\<exists>outcome w'. ?run w = (Inr outcome, w') \<and> outcome \<noteq> Poison_transient \<and>
     outcome \<noteq> Poison_batch_uncertain \<and> only_row job_id w w' \<and>
     raw_of job_id w' = Some (Known (startup_status False raw))"
  proof (cases raw)
    case (Unknown u)
    obtain row where row: "row_find job_id (w_jobs w) = Some row" "col_status row = Unknown u"
      using assms(2) Unknown by (auto simp: raw_of_def)
    have "status_unknown row" using row(2) by (simp add: status_unknown_def raw_in_def)
    from quiet_update [where guard = status_unknown and change = "quarantine_row (quarantine_reason e)",
        OF assms(1) row(1) this] obtain w' where
      "repo_quarantine_structurally_invalid_status job_id (quarantine_reason e) w = (Inr True, w')"
      "only_row job_id w w'" "raw_of job_id w' = Some (Known Failed)"
      by (auto simp: repo_quarantine_structurally_invalid_status_def row_simps raw_of_def)
    then show ?thesis
      using Unknown by (simp add: quarantine_by_status_def bnd_def ret_def startup_status_def)
  next
    case (Known s)
    show ?thesis
    proof (cases "is_terminal_status s")
      case True
      then show ?thesis
        using Known assms only_row_refl
        by (cases s) (auto simp: quarantine_by_status_def INTERRUPTED_JOB_STATUSES_def startup_status_def
          ret_def)
    next
      case False
      then have "is_valid_transition s (startup_status False raw)"
        using Known by (cases s) (auto simp: startup_status_def status_simps)
      from quiet_transition [OF assms(1) _ this, of job_id "Some 1" "Some (Some (quarantine_reason e))"]
      obtain w' where "repo_transition_if_status job_id [s] (startup_status False raw) (Some 1)
          (Some (Some (quarantine_reason e))) w = (Inr True, w')"
        "only_row job_id w w'" "raw_of job_id w' = Some (Known (startup_status False raw))"
        using assms(2) Known by auto
      then show ?thesis
        using Known False
        by (cases s) (auto simp: quarantine_by_status_def INTERRUPTED_JOB_STATUSES_def startup_status_def
          bnd_def ret_def)
    qed
  qed
  then obtain outcome w' where done_with: "?run w = (Inr outcome, w')" "outcome \<noteq> Poison_transient"
    "outcome \<noteq> Poison_batch_uncertain" "only_row job_id w w'"
    "raw_of job_id w' = Some (Known (startup_status False raw))" by blast
  have "quarantine_or_defer_for_batch_cancellation None job_id e w = (Inr outcome, w')"
    using done_with(1) assms
    by (simp add: quarantine_or_defer_for_batch_cancellation_def batch_precedence_def
        quarantine_poison_row_safely_def quiet_raw_status bnd_def attempt_def catch_def ret_def)
  with done_with show ?thesis by blast
qed

lemma quiet_recover_rows:
  assumes "w_ticks w = []" and "\<forall>(k, e) \<in> set failures. raw_of k w \<noteq> None"
  shows "\<exists>outcomes w'. recover_poison_rows None failures candidates w = (Inr (outcomes, candidates), w') \<and>
     w_ticks w' = [] \<and> map col_id (w_jobs w') = map col_id (w_jobs w) \<and>
     (\<forall>k. if k \<in> fst ` set failures
          then raw_of k w' = map_option (\<lambda>raw. Known (startup_status False raw)) (raw_of k w)
          else row_find k (w_jobs w') = row_find k (w_jobs w))"
  using assms
proof (induction failures arbitrary: w)
  case (Cons failure failures)
  obtain job_id e where failure: "failure = (job_id, e)" by (cases failure)
  with Cons.prems(2) obtain raw where raw: "raw_of job_id w = Some raw" by auto
  obtain outcome w1 where one: "quarantine_or_defer_for_batch_cancellation None job_id e w = (Inr outcome, w1)"
    "outcome \<noteq> Poison_transient" "outcome \<noteq> Poison_batch_uncertain" "only_row job_id w w1"
    "raw_of job_id w1 = Some (Known (startup_status False raw))"
    using quiet_quarantine [OF Cons.prems(1) raw] by blast
  have others: "k \<noteq> job_id \<Longrightarrow> row_find k (w_jobs w1) = row_find k (w_jobs w) \<and> raw_of k w1 = raw_of k w" for k
    using one(4) by (simp add: only_row_def raw_of_def)
  have "raw_of k w1 \<noteq> None" if "(k, f) \<in> set failures" for k f
    using that Cons.prems(2) others [of k] one(5) by (cases "k = job_id") auto
  then have "\<forall>(k, e) \<in> set failures. raw_of k w1 \<noteq> None" by blast
  from Cons.IH [OF _ this] one(4) obtain outcomes w' where
    rest: "recover_poison_rows None failures candidates w1 = (Inr (outcomes, candidates), w')"
    "w_ticks w' = []" "map col_id (w_jobs w') = map col_id (w_jobs w1)"
    and each: "\<And>k. if k \<in> fst ` set failures
          then raw_of k w' = map_option (\<lambda>raw. Known (startup_status False raw)) (raw_of k w1)
          else row_find k (w_jobs w') = row_find k (w_jobs w1)"
    by (auto simp: only_row_def)
  have "recover_poison_rows None (failure # failures) candidates w = (Inr ((job_id, outcome) # outcomes, candidates), w')"
    using one rest(1) failure by (simp add: recover_poison_row_def bnd_def ret_def)
  moreover have "if k \<in> fst ` set (failure # failures)
          then raw_of k w' = map_option (\<lambda>raw. Known (startup_status False raw)) (raw_of k w)
          else row_find k (w_jobs w') = row_find k (w_jobs w)" for k
  proof (cases "k = job_id")
    case True
    have "raw_of k w' = Some (Known (startup_status False raw))"
      using each [of k] one(5) True by (auto simp: raw_of_def split: if_splits)
    with True failure raw show ?thesis by simp
  next
    case False
    with each [of k] others [of k] failure show ?thesis by auto
  qed
  ultimately show ?case using rest(2,3) one(4) by (auto simp: only_row_def)
qed (simp add: ret_def)

section \<open>Steps 2 and 3\<close>

lemma quiet_list_tolerant:
  "w_ticks w = [] \<Longrightarrow> repo_list_tolerant w = (Inr (split_readable (order_by_created_desc (w_jobs w))), w)"
  by (simp add: repo_list_tolerant_def db_read_def transaction_def quiet_atomic quiet_tick_def bnd_def ret_def)

lemma set_order_desc [simp]: "set (order_by_created_desc rows) = set rows"
  by (simp add: order_by_created_desc_def order_by_created_def)

lemma distinct_order_desc: "distinct (map col_id (order_by_created_desc rows)) = distinct (map col_id rows)"
  by (simp add: order_by_created_desc_def order_by_created_def distinct_map)

lemma split_failures: "fst ` set (snd (split_readable rows)) = col_id ` {row \<in> set rows. \<not> readable row}"
  by (induction rows) (auto simp: readable_def case_prod_beta split: sum.splits)

lemma split_records: "set (fst (split_readable rows)) = {j. \<exists>row \<in> set rows. reads_as row j}"
  by (induction rows) (auto simp: row_to_record_iff [symmetric] case_prod_beta split: sum.splits)

lemma split_records_ids:
  "set (map jr_id (fst (split_readable rows))) \<subseteq> col_id ` set rows \<and>
   (distinct (map col_id rows) \<longrightarrow> distinct (map jr_id (fst (split_readable rows))))"
proof (induction rows)
  case (Cons row rows)
  show ?case
  proof (cases "row_to_record row")
    case (Inl reason)
    with Cons show ?thesis by (auto simp: case_prod_beta)
  next
    case (Inr j)
    then have "jr_id j = col_id row" by (simp add: row_to_record_iff reads_as_def)
    with Inr Cons show ?thesis by (auto simp: case_prod_beta)
  qed
qed simp

lemma row_find_distinct:
  "distinct (map col_id rows) \<Longrightarrow> row \<in> set rows \<Longrightarrow> row_find (col_id row) rows = Some row"
  by (induction rows) (auto simp: row_find_def)

lemma quiet_finalize:
  assumes "w_ticks w = []" and "raw_of (jr_id job) w = Some (Known (jr_status job))"
  shows "\<exists>target w'. finalize_interrupted job w = (Inr target, w') \<and> only_row (jr_id job) w w' \<and>
     raw_of (jr_id job) w' = Some (Known (startup_status True (Known (jr_status job))))"
proof (cases "jr_status job \<in> {Preparing, Running, Postprocessing, Cancel_requested}")
  case True
  let ?t = "startup_status True (Known (jr_status job))"
  let ?message = "if jr_status job = Cancel_requested then None else Some (Some PROCESS_INTERRUPTED_REASON)"
  have "is_valid_transition (jr_status job) ?t" using True by (auto simp: startup_status_def status_simps)
  from quiet_transition [OF assms this, of "Some 1" ?message]
  obtain w' where "repo_transition_if_status (jr_id job) [jr_status job] ?t (Some 1) ?message w = (Inr True, w')"
    "only_row (jr_id job) w w'" "raw_of (jr_id job) w' = Some (Known ?t)" by blast
  then show ?thesis
    using True
    by (auto simp: finalize_interrupted_def INTERRUPTED_JOB_STATUSES_def startup_status_def bnd_def ret_def)
next
  case False
  then have "startup_status True (Known (jr_status job)) = jr_status job"
    by (cases "jr_status job") (auto simp: startup_status_def)
  with False assms only_row_refl show ?thesis
    by (auto simp: finalize_interrupted_def INTERRUPTED_JOB_STATUSES_def ret_def)
qed

lemma quiet_finalize_all:
  assumes "w_ticks w = []" and "distinct (map jr_id jobs)"
    and "\<forall>job \<in> set jobs. raw_of (jr_id job) w = Some (Known (jr_status job))"
  shows "\<exists>finalized w'. finalize_all jobs w = (Inr finalized, w') \<and> w_ticks w' = [] \<and>
     (\<forall>k. raw_of k w' = (if k \<in> jr_id ` set jobs
        then map_option (\<lambda>raw. Known (startup_status True raw)) (raw_of k w) else raw_of k w))"
  using assms
proof (induction jobs arbitrary: w)
  case (Cons job jobs)
  obtain target w1 where one: "finalize_interrupted job w = (Inr target, w1)" "only_row (jr_id job) w w1"
    "raw_of (jr_id job) w1 = Some (Known (startup_status True (Known (jr_status job))))"
    using quiet_finalize [OF Cons.prems(1), of job] Cons.prems(3) by auto
  have others: "k \<noteq> jr_id job \<Longrightarrow> raw_of k w1 = raw_of k w" for k
    using one(2) by (simp add: only_row_def raw_of_def)
  have "raw_of (jr_id j) w1 = Some (Known (jr_status j))" if j: "j \<in> set jobs" for j
  proof -
    have "jr_id j \<in> jr_id ` set jobs" using j by (rule imageI)
    moreover have "jr_id job \<notin> jr_id ` set jobs" using Cons.prems(2) by simp
    ultimately have "jr_id j \<noteq> jr_id job" by metis
    then show ?thesis using others [of "jr_id j"] Cons.prems(3) j by simp
  qed
  then have "\<forall>j \<in> set jobs. raw_of (jr_id j) w1 = Some (Known (jr_status j))" by blast
  from Cons.IH [OF _ _ this] Cons.prems(2) one(2) obtain finalized w' where
    rest: "finalize_all jobs w1 = (Inr finalized, w')" "w_ticks w' = []"
    and each: "\<And>k. raw_of k w' = (if k \<in> jr_id ` set jobs
        then map_option (\<lambda>raw. Known (startup_status True raw)) (raw_of k w1) else raw_of k w1)"
    by (auto simp: only_row_def)
  have "raw_of k w' = (if k \<in> jr_id ` set (job # jobs)
        then map_option (\<lambda>raw. Known (startup_status True raw)) (raw_of k w) else raw_of k w)" for k
  proof (cases "k = jr_id job")
    case True
    then have "k \<notin> jr_id ` set jobs" using Cons.prems(2) by simp
    then have "raw_of k w' = raw_of k w1" using each [of k] by simp
    moreover have "raw_of k w = Some (Known (jr_status job))" using Cons.prems(3) True by simp
    ultimately show ?thesis using one(3) True by simp
  next
    case False
    then show ?thesis using each [of k] others [of k] by simp
  qed
  moreover have "\<exists>finalized. finalize_all (job # jobs) w = (Inr finalized, w')"
    using one(1) rest(1) by (simp add: bnd_def ret_def)
  ultimately show ?case using rest(2) by blast
qed (simp add: ret_def)

section \<open>The whole pass\<close>

lemma bnd_step: "m w = (Inr x, w') \<Longrightarrow> bnd m f w = f x w'"
  by (simp add: bnd_def)

lemma startup_status_stays: "startup_status True (Known (startup_status False raw)) = startup_status False raw"
  by simp

text \<open>
  C9: one pass of startup recovery in a process without a batch service leaves every job where its
  classification says. The conditions: storage is sound and no other thread acts, job ids are
  distinct, neither the pass nor the converger has a batch service, and the event subscribers leave
  statuses alone. Then, whatever the pass returns or raises while it converges completions and queues
  jobs: a row that decodes stays queued if it was queued; a job that was running is failed; a requested
  cancellation is completed; a terminal job keeps its outcome; and a row that does not decode is
  failed, unless its status already asked for a cancellation or was terminal.
\<close>

theorem startup_settles_every_row:
  assumes "run_startup_recovery sv cv None candidates w = (r, w')" and "w_ticks w = []"
    and "distinct (map col_id (w_jobs w))" and "cv_batches cv = None" and "leaves_statuses sv"
    and "row_find job_id (w_jobs w) = Some row"
  shows "raw_of job_id w' = Some (Known (startup_status (readable row) (col_status row)))"
proof -
  let ?failures = "snd (split_readable (order_by_created_desc (w_jobs w)))"
  have "raw_of k w \<noteq> None" if "(k, e) \<in> set ?failures" for k e
  proof -
    have "k \<in> fst ` set ?failures" using that by force
    then obtain bad where "bad \<in> set (w_jobs w)" "col_id bad = k"
      unfolding split_failures by auto
    then show ?thesis using row_find_distinct [OF assms(3), of bad] by (simp add: raw_of_def)
  qed
  then have "\<forall>(k, e) \<in> set ?failures. raw_of k w \<noteq> None" by blast
  from quiet_recover_rows [OF assms(2) this] obtain poison w1 where
    step1: "recover_poison_rows None ?failures candidates w = (Inr (poison, candidates), w1)"
    "w_ticks w1 = []" "map col_id (w_jobs w1) = map col_id (w_jobs w)"
    and each1: "\<And>k. if k \<in> fst ` set ?failures
          then raw_of k w1 = map_option (\<lambda>raw. Known (startup_status False raw)) (raw_of k w)
          else row_find k (w_jobs w1) = row_find k (w_jobs w)"
    by blast
  let ?records = "fst (split_readable (order_by_created_desc (w_jobs w1)))"
  have distinct1: "distinct (map col_id (w_jobs w1))" using assms(3) step1(3) by simp
  then have "distinct (map jr_id ?records)"
    using split_records_ids [of "order_by_created_desc (w_jobs w1)"] by (simp add: distinct_order_desc)
  moreover have "\<forall>job \<in> set ?records. raw_of (jr_id job) w1 = Some (Known (jr_status job))"
    using row_find_distinct [OF distinct1] by (auto simp: split_records reads_as_def raw_of_def)
  ultimately obtain finalized w2 where step3: "finalize_all ?records w1 = (Inr finalized, w2)" "w_ticks w2 = []"
    and each3: "\<And>k. raw_of k w2 = (if k \<in> jr_id ` set ?records
        then map_option (\<lambda>raw. Known (startup_status True raw)) (raw_of k w1) else raw_of k w1)"
    using quiet_finalize_all [OF step1(2)] by blast
  define tail where "tail = bnd (bnd (completion_pass cv None) (\<lambda>outcomes.
     bnd (repair_assets_for_succeeded_jobs (cv_assets cv)) (\<lambda>repaired.
       ret \<lparr>sj_finalized = finalized, sj_outcomes = outcomes, sj_repaired = repaired, sj_reliable = True\<rparr>)))
     (\<lambda>settled. bnd (requeue_queued_jobs sv) (\<lambda>requeued.
       ret (\<lparr>rp_poison_rows = poison,
             rp_interrupted_failed = ids_with Failed (sj_finalized settled),
             rp_cancel_requested_cancelled = ids_with Cancelled (sj_finalized settled),
             rp_completion_outcomes = sj_outcomes settled, rp_requeued = requeued,
             rp_batches_resumed_cancelling = [], rp_batches_resumed_current_stage = [],
             rp_cancellation_scan_reliable = True, rp_enqueue_skipped = False,
             rp_reconcile_scan_reliable = sj_reliable settled, rp_assets_repaired = sj_repaired settled\<rparr>,
            candidates)))"
  have "run_startup_recovery sv cv None candidates w = tail w2"
    by (simp add: run_startup_recovery_def resume_batches_def records_after_batches_def settle_jobs_def
        case_prod_beta tail_def bnd_assoc bnd_step [where m = repo_list_tolerant, OF quiet_list_tolerant [OF assms(2)]]
        bnd_step [where m = "recover_poison_rows None ?failures candidates", OF step1(1)] bnd_step [where m = repo_list_tolerant, OF quiet_list_tolerant [OF step1(2)]] bnd_step [where m = "finalize_all ?records", OF step3(1)])
  with assms(1) have "tail w2 = (r, w')" by simp
  moreover have "holds_along statuses_still tail"
    unfolding tail_def
    by (intro quiet.frame_calm still_pass still_repair still_requeue assms)
  ultimately have "statuses_still w2 w'" by (metis quiet.frame_runs)
  then have last: "raw_of job_id w' = raw_of job_id w2" using step3(2) by (simp add: statuses_still_def)
  have failed: "job_id \<in> fst ` set ?failures \<longleftrightarrow> \<not> readable row"
  proof -
    have "job_id \<in> fst ` set ?failures \<longleftrightarrow> (\<exists>bad \<in> set (w_jobs w). \<not> readable bad \<and> col_id bad = job_id)"
      unfolding split_failures by auto
    moreover have "bad = row" if "bad \<in> set (w_jobs w)" "col_id bad = job_id" for bad
      using row_find_distinct [OF assms(3) that(1)] that(2) assms(6) by simp
    ultimately show ?thesis using row_find_Some_mem [OF assms(6)] row_find_id [OF assms(6)] by blast
  qed
  show ?thesis
  proof (cases "readable row")
    case True
    then have same: "row_find job_id (w_jobs w1) = Some row" using each1 [of job_id] failed assms(6) by simp
    obtain j where j: "reads_as row j" using True by (auto simp: readable_iff)
    then have "j \<in> set ?records" "jr_id j = job_id"
      using same row_find_Some_mem [OF same] row_find_id [OF same] by (auto simp: split_records reads_as_def)
    then have "job_id \<in> jr_id ` set ?records" by blast
    then show ?thesis using each3 [of job_id] last same True by (simp add: raw_of_def)
  next
    case False
    then have "raw_of job_id w1 = Some (Known (startup_status False (col_status row)))"
      using each1 [of job_id] failed assms(6) by (simp add: raw_of_def)
    then show ?thesis using each3 [of job_id] last False by (simp add: startup_status_stays split: if_splits)
  qed
qed

definition crashed_job :: job_record where
  "crashed_job = sample_job\<lparr>jr_id := ''job_2'', jr_status := Running\<rparr>"

definition crashed_world :: world where
  "crashed_world = sample_world\<lparr>w_jobs := [broken_row, record_to_row crashed_job]\<rparr>"

theorem startup_settles_every_row_witness:
  "raw_of ''job_1'' (snd (run_startup_recovery sample_service sample_converger None [] crashed_world)) = Some (Known Failed) \<and>
   raw_of ''job_2'' (snd (run_startup_recovery sample_service sample_converger None [] crashed_world)) = Some (Known Failed)"
proof -
  let ?run = "run_startup_recovery sample_service sample_converger None [] crashed_world"
  have quiet: "w_ticks crashed_world = []" by (simp add: crashed_world_def sample_world_def)
  have ids: "distinct (map col_id (w_jobs crashed_world))"
    by (simp add: crashed_world_def broken_row_def record_to_row_def crashed_job_def sample_job_def)
  have rows: "row_find ''job_1'' (w_jobs crashed_world) = Some broken_row"
    "row_find ''job_2'' (w_jobs crashed_world) = Some (record_to_row crashed_job)"
    by (simp_all add: crashed_world_def row_find_def broken_row_def record_to_row_def crashed_job_def sample_job_def)
  have batches: "cv_batches sample_converger = None" by (simp add: sample_converger_def)
  have deliver: "leaves_statuses (sample_service :: unit service)"
    by (simp add: leaves_statuses_def sample_service_def quiet.along_raise)
  note settle = startup_settles_every_row [OF prod.collapse [symmetric] quiet ids batches deliver]
  have "\<not> readable broken_row"
    by (simp add: readable_def row_to_record_def broken_row_def read_request_def and_then_def)
  moreover have "col_status broken_row = Known Queued" "col_status (record_to_row crashed_job) = Known Running"
    by (simp_all add: broken_row_def record_to_row_def crashed_job_def sample_job_def)
  ultimately show ?thesis using settle [OF rows(1)] settle [OF rows(2)] by (simp add: startup_status_def)
qed

section \<open>The report\<close>

lemma finalize_says:
  assumes "finalize_interrupted job w = (Inr (Some s), w')"
  shows "s \<in> {Failed, Cancelled} \<and> status_of (jr_id job) w' = Some s"
proof -
  have says: "status_of (jr_id job) w' = Some t"
    if "repo_transition_if_status (jr_id job) [st] t progress message w = (Inr True, w')" for st t progress message
    using that by (cases rule: repo_transition_runs) auto
  from assms show ?thesis
    by (auto simp: finalize_interrupted_def split: if_splits elim!: bnd_runs dest: says)
qed

lemma status_stays:
  assumes "status_of k w = Some s" and "s \<in> {Failed, Cancelled}" and "evolves w w'"
  shows "status_of k w' = Some s"
proof -
  have "seen k {s} w" using assms(1) by (simp add: seen_def)
  moreover have "lasting {s}" using assms(2) lasting_sets(6,7) by auto
  ultimately have "seen k {s} w'" using assms(3) by (rule seen_evolves)
  then show ?thesis by (auto simp: seen_def)
qed

lemma finalized_says:
  assumes "finalize_all jobs w = (Inr finalized, w')" and "(k, s) \<in> set finalized"
  shows "s \<in> {Failed, Cancelled} \<and> status_of k w' = Some s"
  using assms
proof (induction jobs arbitrary: w finalized)
  case (Cons job jobs)
  from Cons.prems(1) obtain target w1 rest where one: "finalize_interrupted job w = (Inr target, w1)"
    and all: "finalize_all jobs w1 = (Inr rest, w')"
    and finalized: "finalized = (case target of None \<Rightarrow> rest | Some s \<Rightarrow> (jr_id job, s) # rest)"
    by (auto elim!: bnd_runs)
  show ?case
  proof (cases "(k, s) \<in> set rest")
    case True
    with Cons.IH [OF all] show ?thesis .
  next
    case False
    with Cons.prems(2) finalized have "target = Some s" "k = jr_id job" by (auto split: option.splits)
    with finalize_says one have "s \<in> {Failed, Cancelled}" "status_of k w1 = Some s" by blast+
    with status_stays along_runs [OF along_finalize_interrupted(2) all] show ?thesis by blast
  qed
qed simp

lemma outcome_stays:
  assumes "outcome_holds outcome k w" and "outcome \<noteq> Poison_missing" and "evolves w w'"
  shows "outcome_holds outcome k w'"
  using assms status_stays [OF _ _ assms(3)] seen_evolves [OF _ _ assms(3)] lasting_sets(3,4)
  by (cases outcome) (auto simp: outcome_holds_def)

definition to_retry :: "poison_outcome \<Rightarrow> bool" where
  "to_retry outcome \<longleftrightarrow> outcome = Poison_transient \<or> outcome = Poison_batch_uncertain"

definition candidate_ids :: "poison_candidates \<Rightarrow> string set" where
  "candidate_ids cs = fst ` set cs"

lemma registered: "candidate_ids (register_poison_retry_candidate k e cs) = insert k (candidate_ids cs)"
  by (simp add: candidate_ids_def register_poison_retry_candidate_def dom_update)

lemma recover_row_says:
  assumes "recover_poison_row batches job_id e cs w = (Inr (outcome, cs'), w')" and "optional_port_ok batches"
  shows "(outcome \<noteq> Poison_missing \<longrightarrow> outcome_holds outcome job_id w') \<and>
    candidate_ids cs \<subseteq> candidate_ids cs' \<and> (to_retry outcome \<longrightarrow> job_id \<in> candidate_ids cs')"
proof -
  from assms(1) obtain found v where q: "quarantine_or_defer_for_batch_cancellation batches job_id e w = (Inr found, v)"
    and tail: "(if found = Poison_transient \<or> found = Poison_batch_uncertain then
        ret (found, register_poison_retry_candidate job_id e cs)
      else (case batches of None \<Rightarrow> ret (found, cs)
           | Some bp \<Rightarrow>
               if found \<in> set QUARANTINE_OUTCOMES_NEEDING_BATCH_CONVERGENCE then
                 bnd (reconcile_quarantined_child bp job_id) (\<lambda>retryable.
                   ret (found, if retryable then register_poison_retry_candidate job_id e cs else cs))
               else ret (found, cs))) v = (Inr (outcome, cs'), w')"
    unfolding recover_poison_row_def by (auto elim: bnd_runs)
  have holds: "outcome_holds found job_id v" using quarantine_holds [OF q assms(2)] .
  have "evolves v w'"
  proof (cases batches)
    case None
    with tail show ?thesis by (auto simp: evolving.R_refl split: if_splits)
  next
    case (Some bp)
    with assms(2) have "port_ok bp" by (simp add: optional_port_ok_def)
    then have "holds_along evolves (reconcile_quarantined_child bp job_id)" by (rule along_reconcile_quarantined)
    with tail Some show ?thesis by (auto simp: evolving.R_refl split: if_splits elim!: bnd_runs dest: along_runs)
  qed
  moreover from tail have "found = outcome" "candidate_ids cs \<subseteq> candidate_ids cs'" "to_retry found \<longrightarrow> job_id \<in> candidate_ids cs'"
    by (auto simp: registered to_retry_def split: if_splits option.splits elim!: bnd_runs)
  ultimately show ?thesis using holds outcome_stays by blast
qed

lemma recovered_says:
  assumes "recover_poison_rows batches failures cs w = (Inr (outcomes, cs'), w')" and "optional_port_ok batches"
  shows "candidate_ids cs \<subseteq> candidate_ids cs' \<and>
    (\<forall>(k, outcome) \<in> set outcomes. (outcome \<noteq> Poison_missing \<longrightarrow> outcome_holds outcome k w') \<and>
       (to_retry outcome \<longrightarrow> k \<in> candidate_ids cs'))"
  using assms(1)
proof (induction failures arbitrary: cs w outcomes)
  case (Cons failure failures)
  obtain job_id e where failure: "failure = (job_id, e)" by (cases failure)
  with Cons.prems obtain first ds w1 rest where one: "recover_poison_row batches job_id e cs w = (Inr (first, ds), w1)"
    and all: "recover_poison_rows batches failures ds w1 = (Inr (rest, cs'), w')"
    and outcomes: "outcomes = (job_id, first) # rest"
    by (auto split: prod.splits elim!: bnd_runs)
  have ev: "evolves w1 w'" using all by (rule along_runs [OF along_recover_poison(2) [OF assms(2)]])
  note later = Cons.IH [OF all] and now = recover_row_says [OF one assms(2)]
  from now ev have "first \<noteq> Poison_missing \<longrightarrow> outcome_holds first job_id w'" using outcome_stays by blast
  with later now outcomes show ?case by auto
qed simp

text \<open>
  C10: what startup recovery reports is true. Under every schedule of other threads, with or without a
  batch service, and wherever a part that isolates its errors fails: when the pass returns, the jobs
  it lists as failed are failed and those it lists as cancelled are cancelled, the completion of a job
  it reports as done is marked done, the disposition it reports for an undecodable row holds of the
  row, and a row whose disposition is still open is registered for the retry loop. When the scan for
  cancellations was not reliable, nothing was queued again.
\<close>

theorem startup_report_is_true:
  assumes "run_startup_recovery sv cv batches candidates w = (Inr (rp, cs), w')"
    and "service_ok sv" and "converger_ok cv" and "optional_port_ok batches"
  shows "(\<forall>k \<in> set (rp_interrupted_failed rp). status_of k w' = Some Failed) \<and>
    (\<forall>k \<in> set (rp_cancel_requested_cancelled rp). status_of k w' = Some Cancelled) \<and>
    (\<forall>k. (k, Converge_done) \<in> set (rp_completion_outcomes rp) \<longrightarrow> mark_of k w' = Some (Good Completion_done)) \<and>
    (\<forall>(k, outcome) \<in> set (rp_poison_rows rp).
       (outcome \<noteq> Poison_missing \<longrightarrow> outcome_holds outcome k w') \<and> (to_retry outcome \<longrightarrow> k \<in> candidate_ids cs)) \<and>
    (rp_enqueue_skipped rp \<longrightarrow> rp_requeued rp = [])"
proof -
  let ?requeue = "\<lambda>reliable. if batches \<noteq> None \<and> \<not> reliable then ret [] else requeue_queued_jobs sv"
  from assms(1) obtain failures w1 poison w2 records w3 cancelling reliable stages w4 current w5 settled w6 requeued where
    poison: "recover_poison_rows batches failures candidates w1 = (Inr (poison, cs), w2)"
    and listed: "repo_list_tolerant w2 = (Inr records, w3)"
    and resumed: "resume_batches batches w3 = (Inr (cancelling, reliable, stages), w4)"
    and again: "records_after_batches batches (fst records) w4 = (Inr current, w5)"
    and settle: "settle_jobs cv batches current w5 = (Inr settled, w6)"
    and requeue: "?requeue reliable w6 = (Inr requeued, w')"
    and rp: "rp_poison_rows rp = poison" "rp_interrupted_failed rp = ids_with Failed (sj_finalized settled)"
      "rp_cancel_requested_cancelled rp = ids_with Cancelled (sj_finalized settled)"
      "rp_completion_outcomes rp = sj_outcomes settled" "rp_requeued rp = requeued"
      "rp_enqueue_skipped rp = (batches \<noteq> None \<and> \<not> reliable)"
    unfolding run_startup_recovery_def by (auto split: prod.splits elim!: bnd_runs)
  from settle obtain finalized v1 outcomes v2 repaired v3 flag where
    finalize: "finalize_all current w5 = (Inr finalized, v1)" and pass: "completion_pass cv None v1 = (Inr outcomes, v2)"
    and repair: "repair_assets_for_succeeded_jobs (cv_assets cv) v2 = (Inr repaired, v3)"
    and tail: "(case batches of None \<Rightarrow> ret True | Some bp \<Rightarrow> bp_list_tolerant bp) v3 = (Inr flag, w6)"
    and settled: "sj_finalized settled = finalized" "sj_outcomes settled = outcomes"
    unfolding settle_jobs_def by (auto elim!: bnd_runs)
  have "holds_along evolves (?requeue reliable)" by (intro along_steps along assms(2))
  then have e6: "evolves w6 w'" using requeue by (rule along_runs)
  have e3: "evolves v3 w6" using tail by (rule along_runs [OF along_resume_batches(3) [OF assms(4)]])
  have e2: "evolves v2 w'"
    using along_runs [OF along_repair(2) repair] e3 e6 by (blast intro: evolving.R_trans)
  have e1: "evolves v1 w'" using along_runs [OF along_completion_pass [OF assms(3)] pass] e2 by (rule evolving.R_trans)
  have "evolves w2 w5"
    using along_runs [OF along_repo_reads(2) listed] along_runs [OF along_resume_batches(1) [OF assms(4)] resumed]
      along_runs [OF along_resume_batches(2) [OF assms(4)] again] by (blast intro: evolving.R_trans)
  with e1 along_runs [OF along_finalize_interrupted(2) finalize] have e0: "evolves w2 w'" by (blast intro: evolving.R_trans)
  have "status_of k w' = Some s" if "k \<in> set (ids_with s finalized)" for k s
    using finalized_says [OF finalize, of k s] that status_stays [OF _ _ e1] by (auto simp: ids_with_def)
  moreover have "mark_of k w' = Some (Good Completion_done)" if "(k, Converge_done) \<in> set outcomes" for k
    using done_stays [OF pass_done [OF pass assms(3) that] e2] .
  moreover have "(outcome \<noteq> Poison_missing \<longrightarrow> outcome_holds outcome k w') \<and> (to_retry outcome \<longrightarrow> k \<in> candidate_ids cs)"
    if "(k, outcome) \<in> set poison" for k outcome
  proof -
    from conjunct2 [OF recovered_says [OF poison assms(4)]] that
    have "outcome \<noteq> Poison_missing \<longrightarrow> outcome_holds outcome k w2" "to_retry outcome \<longrightarrow> k \<in> candidate_ids cs" by auto
    with outcome_stays [OF _ _ e0] show ?thesis by blast
  qed
  moreover have "batches \<noteq> None \<and> \<not> reliable \<Longrightarrow> requeued = []" using requeue by auto
  ultimately show ?thesis unfolding rp settled by (intro conjI) (blast | simp add: case_prod_beta)+
qed

lemma sample_startup_ok: "service_ok sample_service" "converger_ok sample_converger" "optional_port_ok None"
  by (simp_all add: sample_service_ok sample_converger_ok(1) optional_port_ok_def)

theorem startup_report_is_true_witness:
  "\<exists>rp cs w'. run_startup_recovery sample_service sample_converger None [] crashed_world = (Inr (rp, cs), w') \<and>
     rp_interrupted_failed rp = [''job_2''] \<and> status_of ''job_2'' w' = Some Failed \<and>
     rp_poison_rows rp = [(''job_1'', Poison_failed)] \<and> status_of ''job_1'' w' = Some Failed"
proof -
  let ?run = "run_startup_recovery sample_service sample_converger None [] crashed_world"
  have "case fst ?run of Inl _ \<Rightarrow> False | Inr (rp, cs) \<Rightarrow>
      rp_interrupted_failed rp = [''job_2''] \<and> rp_poison_rows rp = [(''job_1'', Poison_failed)]" by code_simp
  then obtain rp cs w' where run: "?run = (Inr (rp, cs), w')" and lists: "rp_interrupted_failed rp = [''job_2'']"
    "rp_poison_rows rp = [(''job_1'', Poison_failed)]"
    by (cases ?run) (auto split: sum.splits prod.splits)
  from startup_report_is_true [OF run sample_startup_ok] lists show ?thesis
    using run by (auto simp: outcome_holds_def)
qed

section \<open>Runtime retries\<close>

lemma startup_status_final: "startup_status False raw \<in> FINAL"
  by (auto simp: startup_status_def FINAL_def is_terminal_status_def TERMINAL_JOB_STATUSES_def split: raw_status.splits)

lemma raw_of_seen: "raw_of job_id w = Some (Known s) \<Longrightarrow> seen job_id S w \<longleftrightarrow> s \<in> S"
  by (auto simp: raw_of_Known seen_def)

lemma quiet_get_unreadable:
  assumes "w_ticks w = []" and "row_find job_id (w_jobs w) = Some row" and "\<not> readable row"
  shows "\<exists>reason. repo_get job_id w = (Inl (Decode_error job_id reason), w)"
proof -
  obtain reason where "row_to_record row = Inl reason" using assms(3) by (auto simp: readable_def split: sum.splits)
  with assms(1,2) row_find_id [OF assms(2)] show ?thesis
    by (simp add: repo_get_def db_read_def transaction_def quiet_atomic quiet_tick_def bnd_def decode_def raise_def)
qed

definition undecodable :: "'x world_scheme \<Rightarrow> string \<Rightarrow> bool" where
  "undecodable w job_id \<longleftrightarrow> (\<exists>row. row_find job_id (w_jobs w) = Some row \<and> \<not> readable row)"

lemma quiet_retry_candidate:
  assumes "w_ticks w = []" and "cv_batches cv = None" and "undecodable w job_id"
  shows "\<exists>w'. retry_candidate cv (job_id, e) w = (Inr False, w') \<and> only_row job_id w w' \<and> seen job_id FINAL w'"
proof -
  obtain row where row: "row_find job_id (w_jobs w) = Some row" "\<not> readable row"
    using assms(3) by (auto simp: undecodable_def)
  obtain reason where get: "repo_get job_id w = (Inl (Decode_error job_id reason), w)"
    using quiet_get_unreadable [OF assms(1) row] by blast
  have "raw_of job_id w = Some (col_status row)" using row(1) by (simp add: raw_of_def)
  then obtain outcome w' where
    q: "quarantine_or_defer_for_batch_cancellation None job_id e w = (Inr outcome, w')"
    "outcome \<noteq> Poison_transient" "outcome \<noteq> Poison_batch_uncertain" "only_row job_id w w'"
    "raw_of job_id w' = Some (Known (startup_status False (col_status row)))"
    using quiet_quarantine [OF assms(1)] by blast
  have "retry_candidate cv (job_id, e) w = (Inr False, w')"
    using get q(1,2,3) assms(2)
    by (simp add: retry_candidate_def retry_quarantine_def bnd_def attempt_def ret_def)
  moreover have "seen job_id FINAL w'" using startup_status_final by (simp add: raw_of_seen [OF q(5)])
  ultimately show ?thesis using q(4) by blast
qed

text \<open>
  Once storage is sound again, the retry loop gets every undecodable row to its end. With no
  other thread and no batches, one tick over candidates whose rows still do not decode drops all
  of them, and each of their jobs is then cancelled, failed or succeeded for good.
\<close>

theorem quiet_retry_settles_all:
  assumes "w_ticks w = []" and "cv_batches cv = None" and "distinct (map fst candidates)"
    and "\<forall>(job_id, e) \<in> set candidates. undecodable w job_id"
  shows "\<exists>w'. retry_poison_quarantine_candidates cv candidates w = (Inr [], w') \<and>
     (\<forall>(job_id, e) \<in> set candidates. seen job_id FINAL w') \<and> w_ticks w' = [] \<and>
     (\<forall>k. k \<notin> fst ` set candidates \<longrightarrow> row_find k (w_jobs w') = row_find k (w_jobs w))"
  using assms(1,3,4)
proof (induction candidates arbitrary: w)
  case (Cons candidate candidates)
  obtain job_id e where candidate: "candidate = (job_id, e)" by (cases candidate)
  have "undecodable w job_id" using Cons.prems(3) candidate by simp
  then obtain w1 where one: "retry_candidate cv (job_id, e) w = (Inr False, w1)" "only_row job_id w w1"
    "seen job_id FINAL w1"
    using quiet_retry_candidate [OF Cons.prems(1) assms(2)] by blast
  have fresh: "job_id \<notin> fst ` set candidates" using Cons.prems(2) candidate by simp
  have "undecodable w1 k" if k: "(k, f) \<in> set candidates" for k f
  proof -
    have "k \<in> fst ` set candidates" using k by force
    then have "k \<noteq> job_id" using fresh by metis
    moreover have "undecodable w k" using Cons.prems(3) k by auto
    ultimately show ?thesis using one(2) by (simp add: undecodable_def only_row_def)
  qed
  then have "\<forall>(k, f) \<in> set candidates. undecodable w1 k" by blast
  from Cons.IH [OF _ _ this] Cons.prems(2) one(2) obtain w' where
    rest: "retry_poison_quarantine_candidates cv candidates w1 = (Inr [], w')"
    "\<forall>(k, f) \<in> set candidates. seen k FINAL w'" "w_ticks w' = []"
    and each: "\<And>k. k \<notin> fst ` set candidates \<Longrightarrow> row_find k (w_jobs w') = row_find k (w_jobs w1)"
    by (auto simp: only_row_def)
  have "retry_poison_quarantine_candidates cv (candidate # candidates) w = (Inr [], w')"
    using one(1) rest(1) candidate by (simp add: bnd_def ret_def)
  moreover have "seen job_id FINAL w'"
    using one(3) each [OF fresh] by (simp add: seen_def status_of_def)
  moreover have "row_find k (w_jobs w') = row_find k (w_jobs w)" if "k \<notin> fst ` set (candidate # candidates)" for k
    using that each [of k] one(2) candidate by (simp add: only_row_def)
  ultimately show ?case using rest(2,3) candidate by auto
qed (simp add: ret_def)

theorem quiet_retry_settles_all_witness:
  "\<exists>w'. retry_poison_quarantine_candidates sample_converger [(''job_1'', Os_error)] (broken_world []) = (Inr [], w') \<and>
     seen ''job_1'' FINAL w'"
proof -
  have "undecodable (broken_world []) ''job_1''"
    by (simp add: undecodable_def broken_world_def broken_row_def row_find_def record_to_row_def sample_job_def
        readable_def row_to_record_def read_request_def and_then_def)
  moreover have "w_ticks (broken_world []) = []" by (simp add: broken_world_def)
  ultimately show ?thesis
    using quiet_retry_settles_all [of "broken_world []" sample_converger "[(''job_1'', Os_error)]"]
    by (auto simp: sample_converger_def)
qed

end
