(* ===== verification/Worker_Pool.thy ===== *)
theory Worker_Pool imports Job_Runner begin

text \<open>
  \<open>WorkerPool\<close> of \<open>core/jobs/worker_pool.py\<close>: one thread per configured lane slot, each polling its
  own lane. The pool's record holds its configuration, whether it is running (a stop event
  exists) and its threads; what the threads do to the shared world is \<open>run_worker\<close>, and that
  they do it at the same time is the schedule of \<open>Job_World\<close>.
\<close>

section \<open>Slots and threads\<close>

record worker =
  wk_name :: string
  wk_lane :: "string option"
  wk_index :: nat

record worker_pool =
  wp_lane_config :: "lane_config option"
  wp_running :: bool
  wp_threads :: "worker list"

definition init_pool :: "lane_config option \<Rightarrow> worker_pool" where
  "init_pool config = \<lparr>wp_lane_config = config, wp_running = False, wp_threads = []\<rparr>"

definition lane_worker_slots :: "lane_config option \<Rightarrow> (string option \<times> int) list" where
  "lane_worker_slots config =
     (case config of
        None \<Rightarrow> [(None, 1)]
      | Some lanes \<Rightarrow>
          if is_single_lane lanes then [(None, the (map_of lanes (hd (lane_names lanes))))]
          else map (\<lambda>lane. (Some lane, the (map_of lanes lane))) (lane_names lanes))"

definition lane_label :: "string option \<Rightarrow> string" where
  "lane_label lane = (case lane of None \<Rightarrow> ''default'' | Some l \<Rightarrow> l)"

definition worker_name :: "string option \<Rightarrow> nat \<Rightarrow> string" where
  "worker_name lane i = ''creative-ai-job-runner-'' @ lane_label lane @ ''-'' @ show_nat i"

definition slot_workers :: "string option \<times> int \<Rightarrow> worker list" where
  "slot_workers slot =
     map (\<lambda>i. \<lparr>wk_name = worker_name (fst slot) i, wk_lane = fst slot, wk_index = i\<rparr>)
       [0..<nat (snd slot)]"

definition ALREADY_RUNNING :: string where
  "ALREADY_RUNNING = ''WorkerPool.start() called while already running''"

definition pool_start :: "worker_pool \<Rightarrow> exn + worker_pool" where
  "pool_start pool =
     (if wp_running pool then Inl (Runtime_error ALREADY_RUNNING)
      else Inr (pool\<lparr>wp_running := True,
             wp_threads := concat (map slot_workers (lane_worker_slots (wp_lane_config pool)))\<rparr>))"

text \<open>\<open>stop\<close>, with the threads still alive after their join: the names logged, and the pool.\<close>

definition pool_stop :: "(string \<Rightarrow> bool) \<Rightarrow> worker_pool \<Rightarrow> string list \<times> worker_pool" where
  "pool_stop alive pool =
     (if \<not> wp_running pool then ([], pool)
      else (filter alive (map wk_name (wp_threads pool)), pool\<lparr>wp_running := False, wp_threads := []\<rparr>))"

definition worker_names :: "worker_pool \<Rightarrow> string list" where
  "worker_names pool = map wk_name (wp_threads pool)"

section \<open>A worker's loop\<close>

datatype pause = No_pause | Poll_pause | Error_pause

definition worker_round :: "'x runner \<Rightarrow> string option \<Rightarrow> ('x, pause) job_io" where
  "worker_round rn lane =
     bnd (attempt (run_once rn lane)) (\<lambda>r.
       ret (case r of Inl _ \<Rightarrow> Error_pause | Inr None \<Rightarrow> Poll_pause | Inr (Some _) \<Rightarrow> No_pause))"

text \<open>The loop of \<open>_run_worker\<close> for the iterations it makes before it sees the stop event.\<close>

fun run_worker :: "nat \<Rightarrow> 'x runner \<Rightarrow> string option \<Rightarrow> ('x, pause list) job_io" where
  "run_worker 0 rn lane = ret []"
| "run_worker (Suc n) rn lane =
     bnd (worker_round rn lane) (\<lambda>p. bnd (run_worker n rn lane) (\<lambda>ps. ret (p # ps)))"

lemma along_worker_round [along]: "runner_ok rn \<Longrightarrow> holds_along evolves (worker_round rn lane)"
  unfolding worker_round_def by (intro along_steps along | assumption)+

lemma along_run_worker [along]: "runner_ok rn \<Longrightarrow> holds_along evolves (run_worker n rn lane)"
  by (induction n) (auto intro!: along_steps along)

text \<open>No exception of an iteration ends the loop.\<close>

lemma worker_round_returns: "\<exists>p. fst (worker_round rn lane w) = Inr p"
  by (simp add: worker_round_def bnd_def attempt_def ret_def split: prod.splits)

lemma worker_outlives_failures: "\<exists>ps. fst (run_worker n rn lane w) = Inr ps \<and> length ps = n"
proof (induction n arbitrary: w)
  case (Suc n)
  obtain p w1 where p: "worker_round rn lane w = (Inr p, w1)"
    using worker_round_returns by (metis prod.collapse)
  obtain ps w2 where "run_worker n rn lane w1 = (Inr ps, w2)" "length ps = n"
    using Suc [of w1] by (metis prod.collapse)
  with p show ?case by (simp add: bnd_def ret_def)
qed (simp add: ret_def)

section \<open>One thread per slot\<close>

definition config_ok :: "lane_config option \<Rightarrow> bool" where
  "config_ok config \<longleftrightarrow> (\<forall>lanes \<in> set_option config. lanes \<noteq> [] \<and> lanes_ok lanes)"

lemma last_part_unique:
  assumes "a @ c # s = b @ c # t" and "c \<notin> set s" and "c \<notin> set t"
  shows "a = b \<and> s = t"
  using assms
proof (induction a arbitrary: b)
  case Nil
  then show ?case by (cases b) auto
next
  case (Cons x a)
  then show ?case by (cases b) auto
qed

lemma dash_not_digit: "CHR ''-'' \<notin> set (show_nat n)"
  using show_nat_digits dec_digit_facts by fastforce

lemma worker_name_inj: "worker_name l i = worker_name m j \<Longrightarrow> lane_label l = lane_label m \<and> i = j"
proof -
  assume "worker_name l i = worker_name m j"
  then have "lane_label l @ CHR ''-'' # show_nat i = lane_label m @ CHR ''-'' # show_nat j"
    by (simp add: worker_name_def)
  from last_part_unique [OF this dash_not_digit dash_not_digit]
  show ?thesis using dec_nat_show_nat by (metis option.inject)
qed

lemma slot_lanes:
  "lane \<in> fst ` set (lane_worker_slots config) \<longleftrightarrow>
     (case config of None \<Rightarrow> lane = None
      | Some lanes \<Rightarrow> if is_single_lane lanes then lane = None
                     else (\<exists>l \<in> set (lane_names lanes). lane = Some l))"
  by (auto simp: lane_worker_slots_def image_iff split: option.splits)

lemma slot_labels: "config_ok config \<Longrightarrow> distinct (map (lane_label \<circ> fst) (lane_worker_slots config))"
  by (auto simp: lane_worker_slots_def config_ok_def lanes_ok_def lane_label_def comp_def
      split: option.splits)

lemma slot_counts: "config_ok config \<Longrightarrow> slot \<in> set (lane_worker_slots config) \<Longrightarrow> 1 \<le> snd slot"
proof -
  assume ok: "config_ok config" and slot: "slot \<in> set (lane_worker_slots config)"
  have count: "1 \<le> the (map_of lanes l)" if "config = Some lanes" "l \<in> set (lane_names lanes)" for lanes l
  proof -
    from that(2) obtain n where "map_of lanes l = Some n"
      using weak_map_of_SomeI by (fastforce simp: lane_names_def)
    then show ?thesis using ok that(1) map_of_SomeD by (fastforce simp: config_ok_def lanes_ok_def)
  qed
  show ?thesis
  proof (cases config)
    case None
    with slot show ?thesis by (simp add: lane_worker_slots_def)
  next
    case (Some lanes)
    with ok have "hd (lane_names lanes) \<in> set (lane_names lanes)"
      by (intro list.set_sel) (simp add: config_ok_def lane_names_def)
    with Some slot count show ?thesis by (auto simp: lane_worker_slots_def split: if_splits)
  qed
qed

lemma threads_iff:
  "wk \<in> set (concat (map slot_workers slots)) \<longleftrightarrow>
     (\<exists>n. (wk_lane wk, n) \<in> set slots \<and> int (wk_index wk) < n) \<and>
     wk = \<lparr>wk_name = worker_name (wk_lane wk) (wk_index wk), wk_lane = wk_lane wk, wk_index = wk_index wk\<rparr>"
  by (force simp: slot_workers_def zless_nat_eq_int_zless)

lemma slot_names: "set (map wk_name (slot_workers slot)) = worker_name (fst slot) ` {0..<nat (snd slot)}"
  by (simp add: slot_workers_def image_image)

lemma slot_names_distinct:
  "distinct (map (lane_label \<circ> fst) slots) \<Longrightarrow> distinct (map wk_name (concat (map slot_workers slots)))"
proof (induction slots)
  case (Cons slot slots)
  have "inj_on (worker_name (fst slot)) A" for A using worker_name_inj by (auto intro: inj_onI)
  then have here: "distinct (map wk_name (slot_workers slot))"
    by (simp add: slot_workers_def distinct_map inj_on_def)
  have "x \<notin> set (map wk_name (concat (map slot_workers slots)))"
    if "x \<in> set (map wk_name (slot_workers slot))" for x
  proof
    assume "x \<in> set (map wk_name (concat (map slot_workers slots)))"
    then obtain s where s: "s \<in> set slots" "x \<in> set (map wk_name (slot_workers s))" by auto
    with that obtain i j where "worker_name (fst slot) i = worker_name (fst s) j"
      unfolding slot_names by auto
    then have "lane_label (fst slot) = lane_label (fst s)" using worker_name_inj by blast
    with Cons.prems s(1) show False by auto
  qed
  with here Cons show ?case by auto
qed simp

text \<open>
  No duplicate consumers. Starting a stopped pool spawns, for each lane of a well-formed
  configuration, exactly its configured number of workers, under names that are all different;
  a second start without a stop is refused and spawns nothing; and after a stop, whichever
  threads failed to end in time, the pool starts with the same workers again.
\<close>

theorem start_spawns_each_slot_once:
  assumes "config_ok (wp_lane_config pool)" and "\<not> wp_running pool"
  shows "\<exists>started. pool_start pool = Inr started \<and>
     distinct (worker_names started) \<and>
     (\<forall>lane i. (\<exists>worker \<in> set (wp_threads started). wk_lane worker = lane \<and> wk_index worker = i) \<longleftrightarrow>
        (\<exists>n. (lane, n) \<in> set (lane_worker_slots (wp_lane_config pool)) \<and> int i < n)) \<and>
     pool_start started = Inl (Runtime_error ALREADY_RUNNING) \<and>
     pool_start (snd (pool_stop alive started)) = Inr started"
proof -
  let ?threads = "concat (map slot_workers (lane_worker_slots (wp_lane_config pool)))"
  let ?started = "pool\<lparr>wp_running := True, wp_threads := ?threads\<rparr>"
  have "distinct (worker_names ?started)"
    using slot_names_distinct [OF slot_labels [OF assms(1)]] by (simp add: worker_names_def)
  moreover have "(\<exists>worker \<in> set ?threads. wk_lane worker = lane \<and> wk_index worker = i) \<longleftrightarrow>
        (\<exists>n. (lane, n) \<in> set (lane_worker_slots (wp_lane_config pool)) \<and> int i < n)" for lane i
    unfolding Bex_def threads_iff by (metis worker.select_convs)
  moreover have "pool_start pool = Inr ?started" using assms(2) by (simp add: pool_start_def)
  ultimately show ?thesis by (simp add: pool_start_def pool_stop_def)
qed

definition sample_lanes :: lane_config where "sample_lanes = [(''heavy'', 2), (''light'', 1)]"

lemma sample_lanes_ok: "config_ok (Some sample_lanes)"
  by (simp add: config_ok_def sample_lanes_def lanes_ok_def lane_names_def lane_name_ok_def unpadded_def
      py_isspace_def code_point_def)

theorem start_spawns_each_slot_once_witness:
  "\<exists>started. pool_start (init_pool (Some sample_lanes)) = Inr started \<and> distinct (worker_names started) \<and>
     length (wp_threads started) = 3"
proof -
  have "config_ok (wp_lane_config (init_pool (Some sample_lanes)))" "\<not> wp_running (init_pool (Some sample_lanes))"
    using sample_lanes_ok by (simp_all add: init_pool_def)
  from start_spawns_each_slot_once [OF this] obtain started where
    "pool_start (init_pool (Some sample_lanes)) = Inr started" "distinct (worker_names started)" by blast
  moreover from this(1) have "length (wp_threads started) = 3"
    by (auto simp: pool_start_def init_pool_def lane_worker_slots_def sample_lanes_def is_single_lane_def
        lane_names_def slot_workers_def)
  ultimately show ?thesis by blast
qed

text \<open>
  Every job the service queues has a worker that will take it. With a queue built for the
  configuration the service and the pool share, a job that \<open>enqueue_job\<close> places lies in a lane
  that some started worker polls, and no worker's poll is refused by the queue: single-lane
  and multi-lane configurations name the lanes the same way on both sides.
\<close>

theorem workers_serve_every_lane:
  assumes "config_ok (sv_lane_config sv)" and "queue_ok q"
    and "q_lane_names q = (case sv_lane_config sv of None \<Rightarrow> [DEFAULT_LANE] | Some lanes \<Rightarrow> lane_names lanes)"
    and "lane_of_job sv job = Inr lane" and "enqueue job_id lane q = Inr q'"
    and "pool_start (init_pool (sv_lane_config sv)) = Inr pool"
  shows "(\<exists>worker \<in> set (wp_threads pool). \<exists>t. queue_resolve_lane q' (wk_lane worker) = Inr t \<and>
            job_id \<in> set (pending q' t)) \<and>
         (\<forall>worker \<in> set (wp_threads pool). \<exists>r. dequeue (wk_lane worker) q' = Inr r)"
proof -
  let ?slots = "lane_worker_slots (sv_lane_config sv)"
  have threads: "wp_threads pool = concat (map slot_workers ?slots)"
    using assms(6) by (auto simp: pool_start_def init_pool_def)
  have q': "queue_ok q'" "q_lane_names q' = q_lane_names q"
    using assms(2,5) enqueue_ok enqueue_cases by metis+
  have opens: "\<exists>t. queue_resolve_lane q' l = Inr t" if "l \<in> fst ` set ?slots" for l
    using that q' assms(3) unfolding slot_lanes
    by (auto simp: queue_resolve_lane_def queue_is_single_lane_def is_single_lane_def lane_names_def queue_ok_def
        split: option.splits if_splits)
  have served: "lane \<in> fst ` set ?slots"
    using assms(4) by (auto simp: lane_of_job_def slot_lanes assign_lane_def split: option.splits if_splits sum.splits)
  have polled: "\<exists>worker \<in> set (wp_threads pool). wk_lane worker = lane"
  proof -
    obtain n where n: "(lane, n) \<in> set ?slots" using served by auto
    then have "int 0 < n" using slot_counts [OF assms(1)] by fastforce
    with n show ?thesis unfolding threads Bex_def threads_iff by (metis worker.select_convs)
  qed
  have "queue_target q' lane = queue_target q lane" using target_enqueue assms(2,5) by metis
  then have "\<exists>t. queue_resolve_lane q' lane = Inr t \<and> job_id \<in> set (pending q' t)"
    using jobs.enq_waits [OF assms(2,5)] by (metis queue_target_Some)
  moreover have "wk_lane worker \<in> fst ` set ?slots" if "worker \<in> set (wp_threads pool)" for worker
    using that unfolding threads threads_iff by force
  ultimately show ?thesis using polled opens
    by (fastforce simp: dequeue_def split: sum.splits list.splits)
qed

definition laned_service :: "unit service" where
  "laned_service = sample_service\<lparr>sv_lane_config := Some sample_lanes\<rparr>"

theorem workers_serve_every_lane_witness:
  "\<exists>q' pool. enqueue ''job_1'' (Some ''heavy'') \<lparr>q_lane_names = [''heavy'', ''light''],
        q_queues = [''heavy'' \<mapsto> [], ''light'' \<mapsto> []], q_job_lane = Map.empty\<rparr> = Inr q' \<and>
     pool_start (init_pool (Some sample_lanes)) = Inr pool \<and>
     (\<exists>worker \<in> set (wp_threads pool). \<exists>t. queue_resolve_lane q' (wk_lane worker) = Inr t \<and>
        ''job_1'' \<in> set (pending q' t))"
proof -
  let ?q = "\<lparr>q_lane_names = [''heavy'', ''light''], q_queues = [''heavy'' \<mapsto> [], ''light'' \<mapsto> []],
     q_job_lane = Map.empty\<rparr>"
  have config: "sv_lane_config laned_service = Some sample_lanes" by (simp add: laned_service_def)
  have ok: "config_ok (sv_lane_config laned_service)" using sample_lanes_ok by (simp add: config)
  have queue: "queue_ok ?q" by (auto simp: queue_ok_def pending_def)
  have names: "q_lane_names ?q = (case sv_lane_config laned_service of None \<Rightarrow> [DEFAULT_LANE]
      | Some lanes \<Rightarrow> lane_names lanes)"
    by (simp add: config sample_lanes_def lane_names_def)
  have lane: "lane_of_job laned_service sample_job = Inr (Some ''heavy'')" by code_simp
  obtain q' where q': "enqueue ''job_1'' (Some ''heavy'') ?q = Inr q'"
    by (simp add: enqueue_def queue_resolve_lane_def)
  obtain pool where pool: "pool_start (init_pool (sv_lane_config laned_service)) = Inr pool"
    by (simp add: pool_start_def init_pool_def)
  from workers_serve_every_lane [OF ok queue names lane q' pool] q' pool show ?thesis
    by (auto simp: config)
qed

end
