(* ===== verification/Application.thy ===== *)
theory Application imports Job_Board Startup_Facts Worker_Pool begin

text \<open>
  The process: how \<open>create_application_services\<close> (\<open>bootstrap/factories.py\<close>) wires the parts to
  each other, and what a lifetime of it does (\<open>create_app\<close> of \<open>apps/api/main.py\<close>): fresh memory
  over what is on disk, startup recovery, then the requests and the background threads.

  The batch service's part in it is what the wiring hands to others: its event handler and the
  port of the completion converger. A call is one operation of a thread of the process; threads
  that act in the middle of a call are the schedule of \<open>Job_World\<close>. The theorems are about any
  number of lifetimes of any calls, under every schedule and every placement of failures.
\<close>

section \<open>Wiring\<close>

record 'x parts =
  pa_assets :: asset_env
  pa_references :: reference_env
  pa_batches :: "'x batch_port"
  pa_batch_handler :: "job_event \<Rightarrow> ('x, unit) job_io"
  pa_image :: generator
  pa_text :: generator
  pa_audio :: generator
  pa_speech :: generator
  pa_video :: generator
  pa_assembly :: generator

definition default_generator_registry :: "'x parts \<Rightarrow> generator_registry" where
  "default_generator_registry p =
     (let reg = register_generator ''image'' None (pa_image p) (init_generators []);
          reg = register_generator ''image'' (Some ''text-to-image'') (pa_image p) reg;
          reg = register_generator ''text'' None (pa_text p) reg;
          reg = register_generator ''text'' (Some ''story'') (pa_text p) reg;
          reg = register_generator ''audio'' None (pa_audio p) reg;
          reg = register_generator ''audio'' (Some ''text-to-music'') (pa_audio p) reg;
          reg = register_generator ''audio'' (Some ''text-to-speech'') (pa_speech p) reg;
          reg = register_generator ''video'' None (pa_video p) reg;
          reg = register_generator ''video'' (Some ''text-to-video'') (pa_video p) reg
      in register_generator ''video'' (Some ''assembly'') (pa_assembly p) reg)"

text \<open>
  The three subscribers, in the order in which they attach. The converger's handler never looks at
  the job service it was given, which the subscribers' own events go back to.
\<close>

definition application_handlers :: "'x parts \<Rightarrow> (job_event \<Rightarrow> ('x, unit) job_io) list" where
  "application_handlers p =
     [pa_batch_handler p, binder_handle_job_event,
      converger_handle_job_event
        \<lparr>cv_assets = pa_assets p, cv_story = True, cv_batches = Some (pa_batches p), cv_service = None\<rparr>]"

definition application_deliver :: "'x parts \<Rightarrow> nat \<Rightarrow> job_event \<Rightarrow> ('x, unit) job_io" where
  "application_deliver p s event =
     (if s < length (application_handlers p) then (application_handlers p ! s) event else ret ())"

definition wired_service ::
  "asset_env \<Rightarrow> reference_env \<Rightarrow> (nat \<Rightarrow> job_event \<Rightarrow> ('x, unit) job_io) \<Rightarrow> 'x service" where
  "wired_service assets references deliver =
     \<lparr>sv_publishes = True, sv_deliver = deliver,
      sv_sync_job = Some (\<lambda>job. bnd (asset_sync_job assets job) (\<lambda>_. ret ())),
      sv_cancellation = True, sv_lane_config = None, sv_references = references\<rparr>"

definition application_service :: "'x parts \<Rightarrow> 'x service" where
  "application_service p = wired_service (pa_assets p) (pa_references p) (application_deliver p)"

definition application_runner :: "'x parts \<Rightarrow> 'x runner" where
  "application_runner p =
     \<lparr>rn_service = application_service p, rn_publishes = True, rn_cancellation = True,
      rn_generators = default_generator_registry p\<rparr>"

definition application_converger :: "'x parts \<Rightarrow> 'x converger" where
  "application_converger p =
     \<lparr>cv_assets = pa_assets p, cv_story = True, cv_batches = Some (pa_batches p),
      cv_service = Some (application_service p)\<rparr>"

text \<open>A new process: empty memory over the files.\<close>

definition start_application :: "'x parts \<Rightarrow> 'x world_scheme \<Rightarrow> 'x world_scheme" where
  "start_application p w =
     w\<lparr>w_queue := queue_of (init_queue None) (w_queue w),
       w_bus := fold bus_subscribe [0 ..< length (application_handlers p)]
                  (case init_event_bus DEFAULT_MAX_EVENTS of None \<Rightarrow> w_bus w | Some bus \<Rightarrow> bus),
       w_registry := init_registry\<rparr>"

section \<open>Calls\<close>

datatype app_call =
  Call_create string generation_request "string option"
| Call_create_or_reuse string generation_request "string option"
| Call_enqueue string
| Call_cancel string
| Call_run_once
| Call_run_forever nat
| Call_bind_asset string "string option"
| Call_bind_job_assets string "string option"
| Call_mark_reused string string "string option"
| Call_record_export string string
| Call_create_story string "string list" story_document
| Call_update_story string "string list" "story_document \<Rightarrow> story_document"
| Call_delete_story string
| Call_bind_scene string
| Call_converge string
| Call_retry_loop "nat list" poison_candidates

fun app_call_run :: "'x parts \<Rightarrow> app_call \<Rightarrow> ('x, unit) job_io" where
  "app_call_run p (Call_create uuid request project_id) =
     bnd (service_create_job (application_service p) uuid request project_id) (\<lambda>_. ret ())"
| "app_call_run p (Call_create_or_reuse job_id request project_id) =
     bnd (service_create_or_reuse_job (application_service p) job_id request project_id) (\<lambda>_. ret ())"
| "app_call_run p (Call_enqueue job_id) =
     bnd (service_enqueue_job (application_service p) job_id) (\<lambda>_. ret ())"
| "app_call_run p (Call_cancel job_id) =
     bnd (service_cancel_job (application_service p) job_id) (\<lambda>_. ret ())"
| "app_call_run p Call_run_once = bnd (run_once (application_runner p) None) (\<lambda>_. ret ())"
| "app_call_run p (Call_run_forever n) = run_forever n (application_runner p) None"
| "app_call_run p (Call_bind_asset asset_id project_id) =
     bnd (asset_bind_project asset_id project_id) (\<lambda>_. ret ())"
| "app_call_run p (Call_bind_job_assets job_id project_id) =
     bnd (asset_bind_job_assets job_id project_id) (\<lambda>_. ret ())"
| "app_call_run p (Call_mark_reused asset_id action derived) =
     bnd (asset_mark_reused asset_id action derived) (\<lambda>_. ret ())"
| "app_call_run p (Call_record_export asset_id path) =
     bnd (asset_record_export asset_id path) (\<lambda>_. ret ())"
| "app_call_run p (Call_create_story uuid unknown given) =
     bnd (story_create uuid unknown given) (\<lambda>_. ret ())"
| "app_call_run p (Call_update_story story_id unknown given) =
     bnd (story_update story_id unknown given) (\<lambda>_. ret ())"
| "app_call_run p (Call_delete_story story_id) = bnd (story_delete story_id) (\<lambda>_. ret ())"
| "app_call_run p (Call_bind_scene job_id) = bnd (bind_job job_id) (\<lambda>_. ret ())"
| "app_call_run p (Call_converge job_id) =
     bnd (converge_job (application_converger p) job_id None None) (\<lambda>_. ret ())"
| "app_call_run p (Call_retry_loop ns candidates) =
     bnd (run_retry_loop ns (application_converger p) candidates) (\<lambda>_. ret ())"

fun app_calls_run :: "'x parts \<Rightarrow> app_call list \<Rightarrow> ('x, unit) job_io" where
  "app_calls_run p [] = ret ()"
| "app_calls_run p (c # cs) = bnd (attempt (app_call_run p c)) (\<lambda>_. app_calls_run p cs)"

text \<open>
  One lifetime: recovery before anything else, and no lifetime at all when it raises. A call that
  raises is answered with an error and the process goes on.
\<close>

definition lifespan :: "'x parts \<Rightarrow> app_call list \<Rightarrow> ('x, unit) job_io" where
  "lifespan p calls =
     bnd (run_startup_recovery (application_service p) (application_converger p) (Some (pa_batches p)) [])
       (\<lambda>_. app_calls_run p calls)"

definition lifetime :: "'x parts \<Rightarrow> app_call list \<Rightarrow> 'x world_scheme \<Rightarrow> 'x world_scheme" where
  "lifetime p calls w = snd (lifespan p calls (start_application p w))"

definition lifetimes :: "'x parts \<Rightarrow> app_call list list \<Rightarrow> 'x world_scheme \<Rightarrow> 'x world_scheme" where
  "lifetimes p runs = fold (lifetime p) runs"

section \<open>The wiring keeps the parts' contracts\<close>

definition parts_ok :: "'x parts \<Rightarrow> bool" where
  "parts_ok p \<longleftrightarrow> port_ok (pa_batches p) \<and> (\<forall>event. holds_along evolves (pa_batch_handler p event))"

lemma steps_ignore_service: "completion_steps (cv\<lparr>cv_service := s\<rparr>) = completion_steps cv"
  by (simp add: completion_steps_def converge_story_def reconcile_batch_def fun_eq_iff)

lemma converge_ignores_service: "converge_job (cv\<lparr>cv_service := s\<rparr>) = converge_job cv"
  unfolding converge_job_def fun_eq_iff steps_ignore_service by simp

lemma handler_ignores_service:
  "converger_handle_job_event (cv\<lparr>cv_service := s\<rparr>) = converger_handle_job_event cv"
  unfolding converger_handle_job_event_def fun_eq_iff converge_ignores_service by simp

lemma application_handlers_converger:
  "application_handlers p =
     [pa_batch_handler p, binder_handle_job_event, converger_handle_job_event (application_converger p)]"
  using handler_ignores_service [where cv = "application_converger p" and s = None]
  by (simp add: application_handlers_def application_converger_def)

lemma along_binder_event: "holds_along evolves (binder_handle_job_event event)"
  by (intro along)

lemma along_converger_event: "converger_ok cv \<Longrightarrow> holds_along evolves (converger_handle_job_event cv event)"
  unfolding converger_handle_job_event_def by (auto intro!: along_steps along split: option.split json.split)

lemma along_application_deliver: "parts_ok p \<Longrightarrow> holds_along evolves (application_deliver p s event)"
proof -
  assume p: "parts_ok p"
  then have cv: "converger_ok \<lparr>cv_assets = pa_assets p, cv_story = True, cv_batches = Some (pa_batches p), cv_service = None\<rparr>"
    by (simp add: converger_ok_def optional_port_ok_def parts_ok_def)
  then have "\<forall>h \<in> set (application_handlers p). holds_along evolves (h event)"
    using p along_binder_event along_converger_event [OF cv] by (simp add: application_handlers_def parts_ok_def)
  then show ?thesis by (simp add: application_deliver_def evolving.along_rules)
qed

lemma wired_service_ok:
  "(\<And>s event. holds_along evolves (deliver s event)) \<Longrightarrow> service_ok (wired_service assets references deliver)"
  by (auto simp: service_ok_def wired_service_def intro!: evolving.along_rules along)

lemma application_parts_ok:
  assumes "parts_ok p"
  shows "service_ok (application_service p)" and "runner_ok (application_runner p)"
    and "converger_ok (application_converger p)" and "optional_port_ok (Some (pa_batches p))"
proof -
  show sv: "service_ok (application_service p)"
    unfolding application_service_def by (intro wired_service_ok along_application_deliver assms)
  then show "runner_ok (application_runner p)" by (simp add: application_runner_def)
  show port: "optional_port_ok (Some (pa_batches p))" using assms by (simp add: optional_port_ok_def parts_ok_def)
  with sv show "converger_ok (application_converger p)" by (simp add: converger_ok_def application_converger_def)
qed

lemma along_app_call: "parts_ok p \<Longrightarrow> holds_along evolves (app_call_run p c)"
  by (cases c) (simp_all add: evolving.along_rules along application_parts_ok)

lemma along_app_calls: "parts_ok p \<Longrightarrow> holds_along evolves (app_calls_run p cs)"
  by (induction cs) (auto intro!: evolving.along_rules along_app_call)

lemma along_lifespan: "parts_ok p \<Longrightarrow> holds_along evolves (lifespan p calls)"
  unfolding lifespan_def
  by (intro evolving.along_bnd along_startup along_app_calls application_parts_ok) 

section \<open>Lifetimes refine the board\<close>

lemma start_keeps_jobs [simp]: "w_jobs (start_application p w) = w_jobs w"
  by (simp add: start_application_def)

lemma lifetime_refines: "parts_ok p \<Longrightarrow> board_step\<^sup>*\<^sup>* (board_of w) (board_of (lifetime p calls w))"
proof -
  assume "parts_ok p"
  then have "board_step\<^sup>*\<^sup>* (board_of (start_application p w)) (board_of (lifetime p calls w))"
    unfolding lifetime_def by (intro evolves_refines along_evolves along_lifespan)
  moreover have "board_of (start_application p w) = board_of w" by (simp add: board_of_def fun_eq_iff)
  ultimately show ?thesis by simp
qed

lemma lifetimes_refine: "parts_ok p \<Longrightarrow> board_step\<^sup>*\<^sup>* (board_of w) (board_of (lifetimes p runs w))"
proof (induction runs arbitrary: w)
  case (Cons calls runs)
  have "board_step\<^sup>*\<^sup>* (board_of w) (board_of (lifetime p calls w))"
    using Cons.prems by (rule lifetime_refines)
  also have "board_step\<^sup>*\<^sup>* \<dots> (board_of (lifetimes p runs (lifetime p calls w)))"
    using Cons.prems by (rule Cons.IH)
  finally show ?case by (simp add: lifetimes_def)
qed (simp add: lifetimes_def)

text \<open>
  The process implements the job board. Over any number of lifetimes of the process, restarts
  and crashes between them included, with any calls in any order, under every schedule of the
  other threads and every placement of storage failures, the jobs table only takes steps of the
  abstract board: a job is posted queued, moves along the transition contract, is written off when
  its status is not understood, is ticked off once it is terminal, and is never taken down.
\<close>

theorem application_refines_board:
  assumes "parts_ok p"
  shows "board_step\<^sup>*\<^sup>* (board_of w) (board_of (lifetimes p runs w))"
  using assms by (rule lifetimes_refine)

definition quiet_port :: "unit batch_port" where
  "quiet_port =
     \<lparr>bp_find_owner = (\<lambda>_. ret (None, True)), bp_reconcile_child = (\<lambda>_. ret False),
      bp_ownership_index = ret ([], True), bp_resume_cancellations = ret ([], True),
      bp_resume_stages = ret [], bp_list_tolerant = ret True,
      bp_acquire = Pair False, bp_release = (\<lambda>_. id)\<rparr>"

definition sample_parts :: "unit parts" where
  "sample_parts =
     (let g = Plain_generator (\<lambda>request project_id. Gen_return sample_result) in
      \<lparr>pa_assets = sample_assets, pa_references = sv_references (sample_service :: unit service), pa_batches = quiet_port,
       pa_batch_handler = (\<lambda>_. ret ()), pa_image = g, pa_text = g, pa_audio = g, pa_speech = g,
       pa_video = g, pa_assembly = g\<rparr>)"

lemma sample_parts_ok: "parts_ok sample_parts"
  by (auto simp: parts_ok_def port_ok_def same_base_def sample_parts_def quiet_port_def Let_def
      intro: evolving.along_rules)

definition sample_runs :: "app_call list list" where
  "sample_runs = [[Call_create ''2'' sample_job_request None], [Call_run_once]]"

lemma sample_lifetimes:
  "map (\<lambda>row. (col_id row, col_status row, col_completion_state row)) (w_jobs (lifetimes sample_parts sample_runs sample_world)) =
     [(''job_1'', Known Succeeded, Good Completion_done), (''job_2'', Known Queued, Good Completion_pending)]"
  by code_simp

theorem application_refines_board_witness:
  "board_step\<^sup>*\<^sup>* (board_of sample_world) (board_of (lifetimes sample_parts sample_runs sample_world)) \<and>
   map (\<lambda>row. (col_id row, col_status row, col_completion_state row)) (w_jobs (lifetimes sample_parts sample_runs sample_world)) =
     [(''job_1'', Known Succeeded, Good Completion_done), (''job_2'', Known Queued, Good Completion_pending)]"
  using application_refines_board [OF sample_parts_ok] sample_lifetimes by blast

section \<open>What a restart cannot undo\<close>

text \<open>
  No restart loses a job or its outcome. Whatever the process does over any number of
  lifetimes, a job in the table stays in the table with the request it was created with; a job
  that had succeeded, failed or been cancelled keeps that status, and one whose completion was
  marked done keeps the mark.
\<close>

theorem lifetimes_keep_jobs:
  assumes "parts_ok p" and "board_of w job_id = Some e"
  shows "\<exists>e'. board_of (lifetimes p runs w) job_id = Some e' \<and> entry_kept e e'"
  using lifetimes_refine [OF assms(1)] assms(2) by (rule board_run_keeps)

theorem lifetimes_keep_jobs_witness:
  "\<exists>e'. board_of (lifetimes sample_parts sample_runs sample_world) ''job_1'' = Some e' \<and>
     entry_kept (entry_of (record_to_row sample_job)) e'"
  using lifetimes_keep_jobs [OF sample_parts_ok, of sample_world "''job_1''"]
  by (simp add: board_of_def sample_world_def row_find_def row_simps record_to_row_def sample_job_def)

section \<open>The structures in memory\<close>

definition structures_ok :: "'x world_scheme \<Rightarrow> bool" where
  "structures_ok w \<longleftrightarrow>
     ids_unique (w_jobs w) \<and> queue_ok (w_queue w) \<and> q_lane_names (w_queue w) = [DEFAULT_LANE] \<and>
     registry_ok (w_registry w) \<and> bus_ok (w_bus w)"

lemma bus_ok_subscribes: "bus_ok bus \<Longrightarrow> bus_ok (fold bus_subscribe ss bus)"
  by (induction ss arbitrary: bus) (simp_all add: bus_ok_subscribe)

lemma fresh_queue: "init_queue None = Inr q \<Longrightarrow> queue_ok q \<and> q_lane_names q = [DEFAULT_LANE]"
  using init_queue_ok [of None q] by (auto simp: init_queue_def)

lemma start_structures:
  assumes "ids_unique (w_jobs w)"
  shows "structures_ok (start_application p w)"
proof -
  obtain q where q: "init_queue None = Inr q" by (simp add: init_queue_def)
  obtain bus where bus: "init_event_bus DEFAULT_MAX_EVENTS = Some bus"
    by (simp add: init_event_bus_def DEFAULT_MAX_EVENTS_def)
  from assms fresh_queue [OF q] bus_ok_subscribes [OF bus_ok_init [OF bus]] registry_ok_init q bus show ?thesis
    by (simp add: structures_ok_def start_application_def queue_of_def)
qed

lemma structures_evolve: "structures_ok w \<Longrightarrow> evolves w w' \<Longrightarrow> structures_ok w'"
  by (simp add: structures_ok_def evolves_def keeps_shape_def queue_kept_def)

text \<open>
  The process's data stays well formed. From the start of a lifetime on, after recovery and any
  calls, under every schedule and failure, job ids are unique in the table, the queue has exactly
  the default lane and remembers the lane of exactly the jobs that wait in it, the registry's
  tokens are below its counter, and the event log is within its bound with distinct subscribers.
\<close>

theorem application_structures_ok:
  assumes "parts_ok p" and "ids_unique (w_jobs w)"
  shows "structures_ok (lifetime p calls w)"
proof -
  have "evolves (start_application p w) (lifetime p calls w)"
    unfolding lifetime_def using assms(1) by (intro along_evolves along_lifespan)
  with start_structures [OF assms(2)] show ?thesis by (rule structures_evolve)
qed

theorem application_structures_ok_witness:
  "structures_ok (lifetime sample_parts [Call_create ''2'' sample_job_request None] sample_world)"
  by (rule application_structures_ok [OF sample_parts_ok]) (simp add: ids_unique_def sample_world_def)

end
