(* ===== verification/Batch_Spec.thy ===== *)
theory Batch_Spec imports Json_Store Job_World begin

text \<open>
  The declarative description of a batch (\<open>core/batches/schemas.py\<close>): axes of labelled request
  patches, stages, the seed policy and the fields an axis may not set, with the checks the models
  make when one is constructed.

  \<open>model_copy\<close>, with which the templates and the service change a spec, makes none of these
  checks; \<open>spec_valid\<close> is what a spec that was constructed satisfies.
\<close>

section \<open>Specs\<close>

record axis_value =
  av_label :: string
  av_patch :: dict
  av_tags :: "string list"

record axis =
  ax_name :: string
  ax_values :: "axis_value list"

record stage =
  sg_name :: string
  sg_param_overrides :: dict
  sg_keep_top_n :: "int option"

record batch_spec =
  bs_name :: string
  bs_media_type :: media_type
  bs_task_type :: "string option"
  bs_model_id :: string
  bs_project_id :: "string option"
  bs_prompt :: string
  bs_negative_prompt :: "string option"
  bs_seed :: "int option"
  bs_output_format :: "string option"
  bs_params :: dict
  bs_axes :: "axis list"
  bs_bible_refs :: "string list"
  bs_strategy :: string
  bs_max_items :: "int option"
  bs_sample_seed :: "int option"
  bs_seed_policy :: string
  bs_stages :: "stage list"
  bs_limit :: int
  bs_locked_fields :: "string list"

definition BATCH_STRATEGIES :: "string list" where
  "BATCH_STRATEGIES = [''grid'', ''sample'']"

definition SEED_POLICIES :: "string list" where
  "SEED_POLICIES = [''shared'', ''per_item'', ''sweep'']"

definition DEFAULT_ITEM_LIMIT :: int where "DEFAULT_ITEM_LIMIT = 64"

text \<open>Patch keys that append to a field instead of replacing it.\<close>

definition PATCH_APPEND_KEYS :: "(string \<times> string) list" where
  "PATCH_APPEND_KEYS =
     [(''prompt_suffix'', ''prompt''), (''prompt_fragment'', ''prompt''),
      (''negative_suffix'', ''negative_prompt''), (''negative_fragment'', ''negative_prompt'')]"

definition resolved_stages :: "batch_spec \<Rightarrow> stage list" where
  "resolved_stages spec =
     (if bs_stages spec = []
      then [\<lparr>sg_name = ''single'', sg_param_overrides = [], sg_keep_top_n = None\<rparr>]
      else bs_stages spec)"

section \<open>Construction\<close>

text \<open>Every error of the batch models and of the expansion is a \<open>ValueError\<close>; the kinds are kept apart.\<close>

datatype batch_error =
  Field_constraint string
| Duplicate_label string string
| Duplicate_axis string
| Locked_patch string string string
| No_max_items
| Over_limit nat int
| Request_invalid

fun first_duplicate :: "string list \<Rightarrow> string list \<Rightarrow> string option" where
  "first_duplicate seen [] = None"
| "first_duplicate seen (x # xs) = (if x \<in> set seen then Some x else first_duplicate (x # seen) xs)"

definition validate_unique_labels :: "axis \<Rightarrow> batch_error + unit" where
  "validate_unique_labels ax =
     (case first_duplicate [] (map av_label (ax_values ax)) of
        None \<Rightarrow> Inr () | Some label \<Rightarrow> Inl (Duplicate_label (ax_name ax) label))"

definition sets_locked :: "string list \<Rightarrow> string \<Rightarrow> bool" where
  "sets_locked locked key \<longleftrightarrow> map_of PATCH_APPEND_KEYS key = None \<and> key \<in> set locked"

definition locked_hits :: "string list \<Rightarrow> axis \<Rightarrow> (string \<times> string) list" where
  "locked_hits locked ax =
     [(av_label v, fst e). v \<leftarrow> ax_values ax, e \<leftarrow> filter (\<lambda>e. sets_locked locked (fst e)) (av_patch v)]"

fun first_locked :: "string list \<Rightarrow> axis list \<Rightarrow> batch_error + unit" where
  "first_locked locked [] = Inr ()"
| "first_locked locked (ax # axes) =
     (case locked_hits locked ax of
        [] \<Rightarrow> first_locked locked axes
      | (label, key) # _ \<Rightarrow> Inl (Locked_patch (ax_name ax) label key))"

definition validate_axes :: "batch_spec \<Rightarrow> batch_error + unit" where
  "validate_axes spec =
     (case first_duplicate [] (map ax_name (bs_axes spec)) of
        Some name \<Rightarrow> Inl (Duplicate_axis name)
      | None \<Rightarrow>
          if bs_locked_fields spec = [] then Inr ()
          else first_locked (bs_locked_fields spec) (bs_axes spec))"

text \<open>The declared constraints of the fields: \<open>min_length\<close> and \<open>ge\<close>.\<close>

definition at_least_one :: "int option \<Rightarrow> bool" where
  "at_least_one n \<longleftrightarrow> (case n of None \<Rightarrow> True | Some k \<Rightarrow> 1 \<le> k)"

definition axis_constrained :: "axis \<Rightarrow> bool" where
  "axis_constrained ax \<longleftrightarrow>
     ax_name ax \<noteq> [] \<and> ax_values ax \<noteq> [] \<and> (\<forall>v \<in> set (ax_values ax). av_label v \<noteq> [])"

definition spec_constrained :: "batch_spec \<Rightarrow> bool" where
  "spec_constrained spec \<longleftrightarrow>
     bs_name spec \<noteq> [] \<and> (\<forall>ax \<in> set (bs_axes spec). axis_constrained ax) \<and>
     at_least_one (bs_max_items spec) \<and> 1 \<le> bs_limit spec \<and>
     (\<forall>s \<in> set (bs_stages spec). sg_name s \<noteq> [] \<and> at_least_one (sg_keep_top_n s))"

text \<open>Constructing a spec: its constraints, its axes' labels, then the spec's own check.\<close>

definition construct_spec :: "batch_spec \<Rightarrow> batch_error + batch_spec" where
  "construct_spec spec =
     (if \<not> spec_constrained spec then Inl (Field_constraint (bs_name spec))
      else (case filter (\<lambda>r. r \<noteq> Inr ()) (map validate_unique_labels (bs_axes spec)) of
              Inl e # _ \<Rightarrow> Inl e
            | _ \<Rightarrow> and_then (validate_axes spec) (\<lambda>_. Inr spec)))"

definition spec_valid :: "batch_spec \<Rightarrow> bool" where
  "spec_valid spec \<longleftrightarrow> construct_spec spec = Inr spec"

lemma first_duplicate_None: "first_duplicate seen xs = None \<longleftrightarrow> distinct xs \<and> set xs \<inter> set seen = {}"
  by (induction xs arbitrary: seen) auto

lemma labels_unique: "validate_unique_labels ax = Inr () \<longleftrightarrow> distinct (map av_label (ax_values ax))"
  using first_duplicate_None [of "[]" "map av_label (ax_values ax)"]
  by (cases "first_duplicate [] (map av_label (ax_values ax))") (auto simp: validate_unique_labels_def)

lemma locked_hits_Nil:
  "locked_hits locked ax = [] \<longleftrightarrow>
     (\<forall>v \<in> set (ax_values ax). \<forall>key \<in> fst ` set (av_patch v). \<not> sets_locked locked key)"
  by (auto simp: locked_hits_def filter_empty_conv)

lemma first_locked_Inr:
  "first_locked locked axes = Inr () \<longleftrightarrow> (\<forall>ax \<in> set axes. locked_hits locked ax = [])"
  by (induction axes) (auto split: list.splits)

lemma spec_valid_facts:
  assumes "spec_valid spec"
  shows "distinct (map ax_name (bs_axes spec))"
    and "ax \<in> set (bs_axes spec) \<Longrightarrow> distinct (map av_label (ax_values ax)) \<and> ax_values ax \<noteq> []"
    and "1 \<le> bs_limit spec"
    and "ax \<in> set (bs_axes spec) \<Longrightarrow> v \<in> set (ax_values ax) \<Longrightarrow> key \<in> fst ` set (av_patch v) \<Longrightarrow>
      \<not> sets_locked (bs_locked_fields spec) key"
    and "bs_max_items spec = Some n \<Longrightarrow> 1 \<le> n"
proof -
  have constrained: "spec_constrained spec" using assms by (auto simp: spec_valid_def construct_spec_def split: if_splits)
  have labels: "filter (\<lambda>r. r \<noteq> Inr ()) (map validate_unique_labels (bs_axes spec)) = []"
    using assms by (auto simp: spec_valid_def construct_spec_def split: if_splits list.splits sum.splits)
      (metis Cons_eq_filterD filter_eq_Cons_iff old.unit.exhaust)
  then have axes: "validate_axes spec = Inr ()"
    using assms by (auto simp: spec_valid_def construct_spec_def and_then_def split: if_splits sum.splits)
  show "distinct (map ax_name (bs_axes spec))"
    using axes first_duplicate_None [of "[]" "map ax_name (bs_axes spec)"]
    by (auto simp: validate_axes_def split: option.splits)
  show "bs_max_items spec = Some n \<Longrightarrow> 1 \<le> n"
    using constrained by (simp add: spec_constrained_def at_least_one_def)
  show "1 \<le> bs_limit spec" using constrained by (simp add: spec_constrained_def)
  show "distinct (map av_label (ax_values ax)) \<and> ax_values ax \<noteq> []" if "ax \<in> set (bs_axes spec)"
    using that labels constrained
    by (auto simp: filter_empty_conv labels_unique spec_constrained_def axis_constrained_def)
  show "\<not> sets_locked (bs_locked_fields spec) key"
    if "ax \<in> set (bs_axes spec)" "v \<in> set (ax_values ax)" "key \<in> fst ` set (av_patch v)"
    using axes that first_locked_Inr [of "bs_locked_fields spec" "bs_axes spec"]
    by (auto simp: validate_axes_def locked_hits_Nil sets_locked_def split: option.splits if_splits)
qed

section \<open>Items\<close>

record batch_item =
  bi_id :: string
  bi_index :: nat
  bi_label :: string
  bi_stage_name :: string
  bi_stage_index :: nat
  bi_axis_values :: "(string \<times> string) list"
  bi_request :: generation_request
  bi_job_id :: "string option"
  bi_status :: string
  bi_score :: "rat option"
  bi_output_path :: "string option"
  bi_preview_path :: "string option"
  bi_error_message :: "string option"
  bi_promoted :: bool

definition ITEM_STATUS_PENDING :: string where "ITEM_STATUS_PENDING = ''pending''"

definition new_item ::
  "string \<Rightarrow> nat \<Rightarrow> string \<Rightarrow> string \<Rightarrow> nat \<Rightarrow> (string \<times> string) list \<Rightarrow> generation_request \<Rightarrow> batch_item" where
  "new_item item_id position label stage_name stage_index axis_values request =
     \<lparr>bi_id = item_id, bi_index = position, bi_label = label, bi_stage_name = stage_name,
      bi_stage_index = stage_index, bi_axis_values = axis_values, bi_request = request,
      bi_job_id = None, bi_status = ITEM_STATUS_PENDING, bi_score = None, bi_output_path = None,
      bi_preview_path = None, bi_error_message = None, bi_promoted = False\<rparr>"

section \<open>Records\<close>

definition BATCH_STATUS_QUEUED :: string where "BATCH_STATUS_QUEUED = ''queued''"
definition BATCH_STATUS_RUNNING :: string where "BATCH_STATUS_RUNNING = ''running''"
definition BATCH_STATUS_PARTIAL :: string where "BATCH_STATUS_PARTIAL = ''partial''"
definition BATCH_STATUS_SUCCEEDED :: string where "BATCH_STATUS_SUCCEEDED = ''succeeded''"
definition BATCH_STATUS_FAILED :: string where "BATCH_STATUS_FAILED = ''failed''"
definition BATCH_STATUS_CANCELLED :: string where "BATCH_STATUS_CANCELLED = ''cancelled''"

lemmas batch_status_texts =
  BATCH_STATUS_QUEUED_def BATCH_STATUS_RUNNING_def BATCH_STATUS_PARTIAL_def BATCH_STATUS_SUCCEEDED_def
  BATCH_STATUS_FAILED_def BATCH_STATUS_CANCELLED_def

record batch_aggregate =
  ag_total :: nat
  ag_pending :: nat
  ag_running :: nat
  ag_succeeded :: nat
  ag_failed :: nat
  ag_cancelled :: nat
  ag_average_score :: "rat option"
  ag_best_item_id :: "string option"

record batch_record =
  br_id :: string
  br_spec :: batch_spec
  br_status :: string
  br_stage_index :: nat
  br_items :: "batch_item list"
  br_aggregate :: batch_aggregate
  br_advance_error :: "string option"
  br_cancellation_requested :: bool
  br_created_at :: string
  br_updated_at :: string

definition items_for_stage :: "batch_record \<Rightarrow> nat \<Rightarrow> batch_item list" where
  "items_for_stage record stage_index = filter (\<lambda>item. bi_stage_index item = stage_index) (br_items record)"

text \<open>\<open>is_terminal_status\<close> of an item's status, which is text.\<close>

definition item_terminal :: "batch_item \<Rightarrow> bool" where
  "item_terminal item \<longleftrightarrow> bi_status item \<in> set (map status_text TERMINAL_JOB_STATUSES)"

end
