(* ===== verification/Process_Frames.thy ===== *)
theory Process_Frames imports World_Frames Worker_Pool Startup_Recovery begin

text \<open>
  What no operation of the pipeline touches. A relation on worlds that other threads respect and
  that does not look at the tables, the structures in memory or the files of assets and stories
  is kept by every operation, as long as the subscribers of the events and the batch service,
  which may have a state of their own, keep it too.
\<close>

definition delivers_within :: "('x world_scheme \<Rightarrow> 'x world_scheme \<Rightarrow> bool) \<Rightarrow> 'x service \<Rightarrow> bool" where
  "delivers_within R sv \<longleftrightarrow>
     (\<forall>s e. holds_along R (sv_deliver sv s e)) \<and> (\<forall>sync j. sv_sync_job sv = Some sync \<longrightarrow> holds_along R (sync j))"

definition port_within :: "('x world_scheme \<Rightarrow> 'x world_scheme \<Rightarrow> bool) \<Rightarrow> 'x batch_port \<Rightarrow> bool" where
  "port_within R bp \<longleftrightarrow>
     (\<forall>job_id. holds_along R (bp_find_owner bp job_id)) \<and> (\<forall>job_id. holds_along R (bp_reconcile_child bp job_id)) \<and>
     holds_along R (bp_ownership_index bp) \<and> holds_along R (bp_resume_cancellations bp) \<and>
     holds_along R (bp_resume_stages bp) \<and> holds_along R (bp_list_tolerant bp) \<and>
     (\<forall>w. R w (snd (bp_acquire bp w))) \<and> (\<forall>outer w. R w (bp_release bp outer w))"

definition ports_within :: "('x world_scheme \<Rightarrow> 'x world_scheme \<Rightarrow> bool) \<Rightarrow> 'x batch_port option \<Rightarrow> bool" where
  "ports_within R batches \<longleftrightarrow> (\<forall>bp. batches = Some bp \<longrightarrow> port_within R bp)"

definition converges_within :: "('x world_scheme \<Rightarrow> 'x world_scheme \<Rightarrow> bool) \<Rightarrow> 'x converger \<Rightarrow> bool" where
  "converges_within R cv \<longleftrightarrow>
     ports_within R (cv_batches cv) \<and> (\<forall>sv. cv_service cv = Some sv \<longrightarrow> delivers_within R sv)"

section \<open>The job service\<close>

context jobs_frame
begin

lemma frame_service_publish: "delivers_within R sv \<Longrightarrow> holds_along R (publish sv event_type payload)"
  unfolding publish_def delivers_within_def by (intro along_rules along_cases frame_publish) simp

lemma frame_check_references: "holds_along R (check_references sv request project_id)"
  unfolding check_references_def by (intro along_rules along_cases)

lemma frame_enqueue_job: "delivers_within R sv \<Longrightarrow> holds_along R (service_enqueue_job sv job_id)"
  unfolding service_enqueue_job_def queue_enqueue_def
  by (intro frame_repo frame_service_publish | assumption)+

lemma frame_reuse:
  "delivers_within R sv \<Longrightarrow> holds_along R (service_create_or_reuse_job_without_enqueue sv job_id request project_id)"
  "delivers_within R sv \<Longrightarrow> holds_along R (service_create_or_reuse_job sv job_id request project_id)"
  "delivers_within R sv \<Longrightarrow> holds_along R (service_create_job sv uuid request project_id)"
  unfolding service_create_or_reuse_job_def service_create_or_reuse_job_without_enqueue_def service_create_job_def
  by (intro frame_repo frame_service_publish frame_check_references frame_enqueue_job | assumption)+

lemma frame_cancel_rounds: "holds_along R (cancel_rounds n job_id)"
  by (induction n) (auto intro!: frame_repo)

lemma frame_signal_cancel: "holds_along R (signal_cancel sv job_id)"
  unfolding signal_cancel_def by (intro frame_repo)

lemma frame_cancel_job: "delivers_within R sv \<Longrightarrow> holds_along R (service_cancel_job sv job_id)"
  unfolding service_cancel_job_def
  by (rule along_bnd, rule frame_cancel_rounds, rename_tac outcome, case_tac outcome)
    (auto intro!: frame_repo frame_service_publish frame_signal_cancel)

lemma frame_sync:
  "delivers_within R sv \<Longrightarrow> holds_along R (case sv_sync_job sv of None \<Rightarrow> ret () | Some sync \<Rightarrow> sync job)"
  by (auto simp: delivers_within_def split: option.splits intro: along_rules)

lemma frame_transitions:
  "delivers_within R sv \<Longrightarrow> holds_along R (service_update_status sv job_id status progress)"
  "delivers_within R sv \<Longrightarrow> holds_along R (service_mark_failed sv job_id message)"
  "delivers_within R sv \<Longrightarrow> holds_along R (service_mark_succeeded sv job_id result)"
  "delivers_within R sv \<Longrightarrow> holds_along R (service_finalize_cancellation sv job_id)"
  unfolding service_update_status_def repo_update_status_def service_mark_failed_def service_mark_succeeded_def
    service_finalize_cancellation_def
  by (intro frame_repo frame_service_publish frame_sync | assumption)+

lemmas frame_service =
  frame_repo frame_service_publish frame_check_references frame_enqueue_job frame_reuse frame_cancel_job
  frame_transitions

section \<open>Undecodable rows\<close>

lemma frame_exclusive: "port_within R bp \<Longrightarrow> holds_along R m \<Longrightarrow> holds_along R (run_exclusive bp m)"
  unfolding holds_along_def [of R "run_exclusive bp m"]
proof
  fix w
  assume port: "port_within R bp" and m: "holds_along R m"
  obtain outer v where acquired: "bp_acquire bp w = (outer, v)" by (cases "bp_acquire bp w")
  have "R w v" using port acquired unfolding port_within_def by (metis snd_conv)
  moreover have "R v (snd (finally_do m (bp_release bp outer) v))"
    using along_finally [OF m, of "bp_release bp outer"] port by (auto simp: port_within_def holds_along_def)
  ultimately show "R w (snd (run_exclusive bp m w))"
    unfolding run_exclusive_def acquired by (auto intro: R_trans)
qed

lemma frame_port:
  assumes "port_within R bp"
  shows "holds_along R (bp_find_owner bp job_id)" "holds_along R (bp_reconcile_child bp job_id)"
    "holds_along R (bp_ownership_index bp)" "holds_along R (bp_resume_cancellations bp)"
    "holds_along R (bp_resume_stages bp)" "holds_along R (bp_list_tolerant bp)"
  using assms by (simp_all add: port_within_def)

lemma frame_poison_decisions:
  "port_within R bp \<Longrightarrow> holds_along R (diagnose_and_transition_cancelled_poison_child bp job_id reason)"
  "port_within R bp \<Longrightarrow> delivers_within R sv \<Longrightarrow> holds_along R (authorize_recovered_queued_job bp sv job_id s)"
  unfolding diagnose_and_transition_cancelled_poison_child_def authorize_recovered_queued_job_def
  by (intro frame_exclusive frame_service frame_port | assumption)+

lemma frame_quarantine_by_status: "holds_along R (quarantine_by_status job_id reason raw)"
proof (cases raw)
  case (Known s)
  then show ?thesis
    by (cases s) (simp_all add: quarantine_by_status_def INTERRUPTED_JOB_STATUSES_def frame_repo)
next
  case (Unknown u)
  then show ?thesis by (simp add: quarantine_by_status_def frame_repo)
qed

lemma frame_quarantine:
  "holds_along R (quarantine_poison_row_safely job_id e)"
  "ports_within R batches \<Longrightarrow> holds_along R (quarantine_or_defer_for_batch_cancellation batches job_id e)"
proof -
  show one: "holds_along R (quarantine_poison_row_safely job_id e)" for job_id e
    unfolding quarantine_poison_row_safely_def by (intro frame_repo frame_quarantine_by_status)
  assume "ports_within R batches"
  then have "holds_along R (batch_precedence batches job_id e)"
    unfolding batch_precedence_def ports_within_def
    by (cases batches) (auto intro!: frame_repo frame_poison_decisions)
  then show "holds_along R (quarantine_or_defer_for_batch_cancellation batches job_id e)"
    unfolding quarantine_or_defer_for_batch_cancellation_def
    by (intro along_rules along_case_found one)
qed

section \<open>The runner\<close>

abbreviation runs_within :: "'x runner \<Rightarrow> bool" where
  "runs_within rn \<equiv> delivers_within R (rn_service rn)"

lemma frame_runner_publish: "runs_within rn \<Longrightarrow> holds_along R (runner_publish rn event_type payload)"
  unfolding runner_publish_def by (intro frame_service_publish) (simp add: delivers_within_def)

lemma frame_runner_reads:
  "holds_along R (generator_of rn job)" "holds_along R (db_is_cancelled job_id)"
  "holds_along R (context_is_cancelled rn job_id)"
  unfolding generator_of_def db_is_cancelled_def context_is_cancelled_def by (intro frame_repo)+

lemma frame_runner_updates:
  "runs_within rn \<Longrightarrow> holds_along R (runner_update_status rn job_id status progress)"
  "runs_within rn \<Longrightarrow> holds_along R (report_generation_progress rn job_id fraction)"
  "runs_within rn \<Longrightarrow> holds_along R (report_segment_progress rn job_id c)"
  unfolding runner_update_status_def repo_update_status_def report_generation_progress_def report_segment_progress_def
  by (intro frame_repo frame_runner_publish frame_runner_reads(2) | assumption)+

lemma frame_run_plain: "runs_within rn \<Longrightarrow> holds_along R (run_plain prog rn job_id c)"
proof (induction prog arbitrary: c)
  case (Gen_report fraction k)
  have "holds_along R (case report_progress fraction now c of
         (None, c') \<Rightarrow> run_plain (k (Inr ())) rn job_id c'
       | (Some x, c') \<Rightarrow>
           bnd (attempt (report_generation_progress rn job_id x)) (\<lambda>r. run_plain (k r) rn job_id c'))" for now
    using Gen_report by (auto split: prod.splits option.splits intro!: frame_repo frame_runner_updates)
  then show ?case by (simp add: along_bnd frame_clocks)
next
  case (Gen_poll k)
  then show ?case by (auto intro!: frame_repo frame_runner_reads)
qed (auto intro: along_rules)

lemma frame_run_controlled: "runs_within rn \<Longrightarrow> holds_along R (run_controlled prog rn job_id)"
  by (induction prog) (auto intro!: frame_repo frame_runner_reads frame_runner_updates)

lemma frame_run_generator: "runs_within rn \<Longrightarrow> holds_along R (run_generator rn job g)"
  by (cases g) (simp_all add: run_generator_def frame_run_plain frame_run_controlled)

lemmas frame_runner = frame_service frame_runner_publish frame_runner_reads frame_runner_updates frame_run_generator

lemma frame_executing:
  assumes "runs_within rn"
  shows "holds_along R (run_registered rn job_id job)" and "holds_along R (resolve_claim_failure rn job_id e)"
proof -
  show "holds_along R (run_registered rn job_id job)"
    unfolding run_registered_def generate_step_def finish_step_def finalize_def
    by (intro frame_runner frame_transitions(4) along_case_gen_step assms)
  show "holds_along R (resolve_claim_failure rn job_id e)"
    unfolding resolve_claim_failure_def finalize_def by (intro frame_runner assms)
qed

lemma frame_registry_io:
  "holds_along R (registry_begin_io job_id)" "holds_along R (registry_end_io job_id token)"
  unfolding registry_begin_io_def registry_end_io_def by (intro frame_repo)+

lemma frame_process_job:
  assumes "runs_within rn"
  shows "holds_along R (process_job rn job_id)"
proof -
  have "holds_along R (after_claim rn job_id job)" for job
    unfolding after_claim_def ending_with_def
    by (intro frame_runner frame_registry_io frame_executing assms)
  then show ?thesis
    unfolding process_job_def claim_job_def by (intro frame_runner assms)
qed

lemma frame_run_once:
  assumes "runs_within rn"
  shows "holds_along R (run_once rn lane)" and "holds_along R (run_forever n rn lane)"
proof -
  have "holds_along R (quarantine_poison_job rn job_id e)" for job_id e
    unfolding quarantine_poison_job_def publish_quarantined_def
    by (intro frame_runner along_case_bool along_case_raw assms)
  then have "holds_along R (redeliver rn job_id lane e)" for job_id lane e
    unfolding redeliver_def queue_enqueue_def by (intro frame_runner assms)
  then show one: "holds_along R (run_once rn lane)" for lane
    unfolding run_once_def queue_dequeue_def by (intro frame_runner frame_process_job assms)
  show "holds_along R (run_forever n rn lane)" by (induction n) (auto intro!: frame_repo one)
qed

end

section \<open>Files, completion and recovery\<close>

locale process_frame = files_frame R for R :: "'x world_scheme \<Rightarrow> 'x world_scheme \<Rightarrow> bool" +
  assumes R_stories: "R w (w\<lparr>w_stories := dir\<rparr>)"
begin

lemma frame_story_io: "holds_along R (story_io f)"
  unfolding story_io_def by (intro frame_atomic) (simp add: R_refl R_stories split: prod.splits)

lemma frame_stories:
  "holds_along R (story_mutate story_id f)" "holds_along R (story_get story_id)"
  "holds_along R (story_get_for_recovery story_id)" "holds_along R (story_list_all project_id limit)"
  "holds_along R (story_create uuid unknown given)" "holds_along R (story_update story_id unknown patch)"
  "holds_along R (story_delete story_id)"
proof -
  show mutate: "holds_along R (story_mutate story_id f)" for f
    unfolding story_mutate_def
    by (intro frame_atomic) (auto simp: Let_def R_refl R_stories split: sum.splits option.splits)
  have load: "holds_along R (story_load name)" for name
    unfolding story_load_def by (intro frame_atomic) (simp add: R_refl)
  show "holds_along R (story_get_for_recovery story_id)"
    unfolding story_get_for_recovery_def by (intro frame_atomic) (simp add: R_refl)
  show "holds_along R (story_list_all project_id limit)"
    unfolding story_list_all_def by (intro frame_calm load frame_atomic) (simp add: R_refl)
  show "holds_along R (story_get story_id)" "holds_along R (story_create uuid unknown given)"
    "holds_along R (story_update story_id unknown patch)" "holds_along R (story_delete story_id)"
    unfolding story_get_def story_create_def story_update_def story_delete_def
    by (intro frame_calm frame_story_io mutate)+
qed

lemmas frame_all = frame_files frame_stories

lemma frame_annotations:
  "holds_along R (asset_bind_project asset_id project_id)" "holds_along R (asset_bind_job_assets job_id project_id)"
  "holds_along R (asset_mark_reused asset_id action derived_job_id)" "holds_along R (asset_record_export asset_id export_path)"
  unfolding asset_bind_project_def asset_bind_job_assets_def asset_mark_reused_def asset_record_export_def
    asset_save_now_def asset_get_def asset_save_def
  by (intro frame_all)+

lemma frame_binder:
  "holds_along R (bind_job job_id)" "holds_along R (replay_job_safely job_id)"
  "holds_along R (binder_handle_job_event event)"
proof -
  have bind: "holds_along R (binder_bind replay job_id)" for replay job_id
    unfolding binder_bind_def by (intro frame_all)
  then show "holds_along R (bind_job job_id)" "holds_along R (replay_job_safely job_id)"
    by (simp_all add: bind_job_def replay_job_safely_def)
  show "holds_along R (binder_handle_job_event event)"
    unfolding binder_handle_job_event_def bind_job_def by (intro frame_all bind)
qed

lemma frame_candidate_index: "holds_along R build_scene_candidate_index"
  unfolding build_scene_candidate_index_def by (intro frame_all)

lemma frame_converge_scene: "holds_along R (converge_scene_binding job index)"
proof -
  have one: "holds_along R (has_usable_output job)" for job
    unfolding has_usable_output_def by (intro frame_all)
  have "holds_along R (usable_among jobs)" for jobs by (induction jobs) (auto intro!: frame_all one)
  then have "holds_along R (replay_winner job key index)" for job key index
    unfolding replay_winner_def recheck_replay_def Let_def by (intro frame_all frame_binder)
  then show ?thesis
    unfolding converge_scene_binding_def by (intro frame_all frame_binder one frame_candidate_index)
qed

lemma frame_converge_job:
  assumes "ports_within R (cv_batches cv)"
  shows "holds_along R (converge_job cv job_id index owned)"
proof -
  have "holds_along R (reconcile_batch cv j i)" for j i
    unfolding reconcile_batch_def using assms
    by (cases "cv_batches cv") (auto simp: ports_within_def intro!: frame_all frame_port)
  moreover have "holds_along R (converge_story cv job i)" for job i
    unfolding converge_story_def by (intro frame_all frame_converge_scene)
  ultimately have "holds_along R (completion_steps cv job i o')" for job i o'
    unfolding completion_steps_def by (intro frame_all)
  moreover have "holds_along R (record_completion j attempted)" for j attempted
    unfolding record_completion_def by (intro frame_all)
  ultimately show ?thesis unfolding converge_job_def by (intro along_case_found frame_all)
qed

lemma along_case_js:
  "holds_along R m \<Longrightarrow> (\<And>s. holds_along R (f s)) \<Longrightarrow> holds_along R (case j of Some (JStr s) \<Rightarrow> f s | _ \<Rightarrow> m)"
  by (auto split: option.splits json.splits)

lemma frame_converger_event:
  "ports_within R (cv_batches cv) \<Longrightarrow> holds_along R (converger_handle_job_event cv event)"
  unfolding converger_handle_job_event_def by (intro along_case_js frame_all frame_converge_job | assumption)+

lemma frame_completion_pass:
  assumes "ports_within R (cv_batches cv)"
  shows "holds_along R (completion_pass cv stop)"
proof -
  have "holds_along R (build_batch_ownership_index cv)"
    unfolding build_batch_ownership_index_def using assms
    by (cases "cv_batches cv") (auto simp: ports_within_def intro!: frame_all frame_port)
  moreover have "holds_along R (scene_index_for_pass cv)"
    unfolding scene_index_for_pass_def by (intro frame_all frame_candidate_index)
  ultimately show ?thesis
    unfolding completion_pass_def by (intro frame_all frame_converge_job assms)
qed

lemma frame_quarantined_child: "port_within R bp \<Longrightarrow> holds_along R (reconcile_quarantined_child bp job_id)"
  unfolding reconcile_quarantined_child_def by (intro frame_all frame_port)

lemma frame_retry:
  assumes "converges_within R cv"
  shows "holds_along R (run_retry_loop ns cv cs)"
proof -
  have ports: "ports_within R (cv_batches cv)" using assms by (simp add: converges_within_def)
  have "holds_along R (converger_authorize cv job_id)" for job_id
  proof (cases "cv_service cv")
    case (Some sv)
    then have "delivers_within R sv" using assms by (simp add: converges_within_def)
    with Some ports show ?thesis
      by (cases "cv_batches cv")
        (auto simp: converger_authorize_def ports_within_def intro!: frame_service frame_poison_decisions)
  qed (simp add: converger_authorize_def along_rules)
  then have "holds_along R (resolve_repaired_job cv job_id s)" for job_id s
    unfolding resolve_repaired_job_def by (intro frame_all)
  moreover have "holds_along R (retry_quarantine cv job_id e)" for job_id e
    unfolding retry_quarantine_def using frame_quarantine(2) [OF ports] ports
    by (cases "cv_batches cv") (simp_all add: ports_within_def frame_all frame_quarantined_child)
  ultimately have "holds_along R (retry_candidate cv c)" for c
    unfolding retry_candidate_def by (intro along_case_found frame_all)
  then have "holds_along R (retry_poison_quarantine_candidates cv cs)" for cs
    by (induction cs) (auto intro!: frame_all)
  then have "holds_along R (retry_tick cv n cs)" for n cs
    unfolding retry_tick_def by (intro frame_all frame_completion_pass ports)
  then show ?thesis by (induction ns arbitrary: cs) (auto intro!: frame_all)
qed

lemma frame_startup:
  assumes "delivers_within R sv" and "ports_within R (cv_batches cv)" and "ports_within R batches"
  shows "holds_along R (run_startup_recovery sv cv batches candidates)"
proof -
  have "holds_along R (recover_poison_row batches job_id e cs)" for job_id e cs
    using assms(3) frame_quarantine(2) [OF assms(3)] unfolding recover_poison_row_def
    by (cases batches) (simp_all add: ports_within_def frame_all frame_quarantined_child)
  then have "holds_along R (recover_poison_rows batches failures cs)" for failures cs
    by (induction failures arbitrary: cs) (auto intro!: frame_all)
  moreover have "holds_along R (resume_batches batches)" "holds_along R (records_after_batches batches records)"
    "holds_along R (case batches of None \<Rightarrow> ret True | Some bp \<Rightarrow> bp_list_tolerant bp)" for records
    unfolding resume_batches_def records_after_batches_def using assms(3)
    by (cases batches; auto simp: ports_within_def intro!: frame_all frame_port)+
  moreover have one: "holds_along R (finalize_interrupted job)" for job
    unfolding finalize_interrupted_def by (intro frame_all)
  then have "holds_along R (finalize_all jobs)" for jobs by (induction jobs) (auto intro!: frame_all)
  moreover have "holds_along R (repair_assets_of env jobs)" for env jobs by (induction jobs) (auto intro!: frame_all)
  then have "holds_along R (repair_assets_for_succeeded_jobs env)" for env
    unfolding repair_assets_for_succeeded_jobs_def by (intro frame_all)
  moreover have "holds_along R (requeue_all sv jobs)" for jobs
    by (induction jobs) (auto intro!: frame_all frame_enqueue_job assms)
  then have "holds_along R (requeue_queued_jobs sv)"
    unfolding requeue_queued_jobs_def by (intro frame_all)
  ultimately show ?thesis
    unfolding run_startup_recovery_def settle_jobs_def
    by (intro along_rules along_case_prod along_if frame_reads frame_completion_pass assms)
qed

end

end
