(* ===== verification/Batch_Repository.thy ===== *)
theory Batch_Repository imports Batch_Spec Process_Frames begin

text \<open>
  \<open>BatchRepository\<close> of \<open>core/batches/repository.py\<close>: batch records, one JSON file each, under a
  reentrant lock that a writer holds from its read to its save.

  The batches, the lock and the source of fresh ids extend the shared world. What other threads
  do to the batches is a second schedule, \<open>bw_others\<close>: each entry lists the saves they completed
  before this thread's next step on the batch files. While this thread holds the lock they save
  nothing, which is what the lock is for; between the steps of an operation that does not hold it
  they may. A save of another thread is one that the rules of the service allow (\<open>batch_follows\<close>),
  which is also what is proved of every operation modelled here.
\<close>

section \<open>Equality of records\<close>

text \<open>Python's \<open>==\<close> on the models: dictionaries are compared by content.\<close>

definition text_dict_eq :: "(string \<times> string) list \<Rightarrow> (string \<times> string) list \<Rightarrow> bool" where
  "text_dict_eq d e \<longleftrightarrow> length d = length e \<and> list_all (\<lambda>(k, v). map_of e k = Some v) d"

definition axis_value_eq :: "axis_value \<Rightarrow> axis_value \<Rightarrow> bool" where
  "axis_value_eq a b \<longleftrightarrow>
     av_label a = av_label b \<and> dict_eq (av_patch a) (av_patch b) \<and> av_tags a = av_tags b"

definition axis_eq :: "axis \<Rightarrow> axis \<Rightarrow> bool" where
  "axis_eq a b \<longleftrightarrow> ax_name a = ax_name b \<and> list_all2 axis_value_eq (ax_values a) (ax_values b)"

definition stage_eq :: "stage \<Rightarrow> stage \<Rightarrow> bool" where
  "stage_eq a b \<longleftrightarrow>
     sg_name a = sg_name b \<and> dict_eq (sg_param_overrides a) (sg_param_overrides b) \<and>
     sg_keep_top_n a = sg_keep_top_n b"

definition spec_eq :: "batch_spec \<Rightarrow> batch_spec \<Rightarrow> bool" where
  "spec_eq a b \<longleftrightarrow>
     a\<lparr>bs_params := [], bs_axes := [], bs_stages := []\<rparr> = b\<lparr>bs_params := [], bs_axes := [], bs_stages := []\<rparr> \<and>
     dict_eq (bs_params a) (bs_params b) \<and> list_all2 axis_eq (bs_axes a) (bs_axes b) \<and>
     list_all2 stage_eq (bs_stages a) (bs_stages b)"

definition item_eq :: "batch_item \<Rightarrow> batch_item \<Rightarrow> bool" where
  "item_eq a b \<longleftrightarrow>
     a\<lparr>bi_axis_values := [], bi_request := bi_request b\<rparr> = b\<lparr>bi_axis_values := []\<rparr> \<and>
     text_dict_eq (bi_axis_values a) (bi_axis_values b) \<and> request_eq (bi_request a) (bi_request b)"

definition batch_eq :: "batch_record \<Rightarrow> batch_record \<Rightarrow> bool" where
  "batch_eq a b \<longleftrightarrow>
     a\<lparr>br_spec := br_spec b, br_items := []\<rparr> = b\<lparr>br_items := []\<rparr> \<and>
     spec_eq (br_spec a) (br_spec b) \<and> list_all2 item_eq (br_items a) (br_items b)"

section \<open>How a batch changes\<close>

text \<open>
  What the service's rules allow between two saved versions of a record: the plan stays, an
  assigned job id stays, an item that ended without ever having a job never gets one, items are
  only added, and once cancellation is requested nothing is added, no stage begins and no job id is
  assigned.
\<close>

definition item_follows :: "batch_item \<Rightarrow> batch_item \<Rightarrow> bool" where
  "item_follows i j \<longleftrightarrow>
     bi_id j = bi_id i \<and> bi_index j = bi_index i \<and> bi_label j = bi_label i \<and> bi_stage_name j = bi_stage_name i \<and>
     bi_stage_index j = bi_stage_index i \<and> bi_axis_values j = bi_axis_values i \<and> bi_request j = bi_request i \<and>
     (bi_job_id i \<noteq> None \<longrightarrow> bi_job_id j = bi_job_id i) \<and>
     (bi_job_id i = None \<and> item_terminal i \<longrightarrow> bi_job_id j = None \<and> item_terminal j) \<and>
     (bi_promoted i \<longrightarrow> bi_promoted j)"

definition batch_follows :: "batch_record \<Rightarrow> batch_record \<Rightarrow> bool" where
  "batch_follows a b \<longleftrightarrow>
     br_id b = br_id a \<and> br_spec b = br_spec a \<and> br_created_at b = br_created_at a \<and>
     br_stage_index a \<le> br_stage_index b \<and>
     length (br_items a) \<le> length (br_items b) \<and>
     list_all2 item_follows (br_items a) (take (length (br_items a)) (br_items b)) \<and>
     (br_cancellation_requested a \<longrightarrow>
        br_cancellation_requested b \<and> br_stage_index b = br_stage_index a \<and>
        map bi_job_id (br_items b) = map bi_job_id (br_items a))"

section \<open>The world with batches\<close>

record batch_world = world +
  bw_batches :: "batch_record directory"
  bw_locked :: bool
  bw_others :: "(string \<times> batch_record) list list"
  bw_uuids :: "nat \<Rightarrow> string"
  bw_minted :: nat

definition other_may_save :: "string \<Rightarrow> batch_record \<Rightarrow> batch_record directory \<Rightarrow> bool" where
  "other_may_save batch_id r dir \<longleftrightarrow>
     br_id r = batch_id \<and>
     (case map_of dir batch_id of
        None \<Rightarrow> True | Some Malformed \<Rightarrow> False | Some (Document old) \<Rightarrow> batch_follows old r)"

definition other_saves :: "string \<times> batch_record \<Rightarrow> batch_record directory \<Rightarrow> batch_record directory" where
  "other_saves save dir =
     (if other_may_save (fst save) (snd save) dir then dir_write (fst save) (snd save) dir else dir)"

definition others_act :: "'y batch_world_scheme \<Rightarrow> 'y batch_world_scheme" where
  "others_act w =
     (if bw_locked w then w
      else w\<lparr>bw_batches := fold other_saves (case bw_others w of [] \<Rightarrow> [] | saves # _ \<Rightarrow> saves) (bw_batches w),
             bw_others := tl (bw_others w)\<rparr>)"

type_synonym ('y, 'a) batch_op = "('y batch_world_ext, 'a) job_io"

text \<open>A step on the batch files, which the schedule may fail.\<close>

definition batch_step ::
  "(tick \<Rightarrow> batch_record directory \<Rightarrow> (exn + 'a) \<times> batch_record directory) \<Rightarrow> ('y, 'a) batch_op" where
  "batch_step f =
     (\<lambda>w. atomic (\<lambda>t v. case f t (bw_batches v) of (r, dir) \<Rightarrow> (r, v\<lparr>bw_batches := dir\<rparr>)) (others_act w))"

text \<open>\<open>with self._lock\<close>: a thread that holds the lock already takes it again at once.\<close>

definition acquire_lock :: "'y batch_world_scheme \<Rightarrow> bool \<times> 'y batch_world_scheme" where
  "acquire_lock w = (bw_locked w, (others_act w)\<lparr>bw_locked := True\<rparr>)"

definition release_lock :: "bool \<Rightarrow> 'y batch_world_scheme \<Rightarrow> 'y batch_world_scheme" where
  "release_lock outer w = w\<lparr>bw_locked := outer\<rparr>"

definition exclusively :: "('y, 'a) batch_op \<Rightarrow> ('y, 'a) batch_op" where
  "exclusively m = (\<lambda>w. case acquire_lock w of (outer, v) \<Rightarrow> finally_do m (release_lock outer) v)"

section \<open>Reads\<close>

definition batch_read :: "tick \<Rightarrow> string \<Rightarrow> batch_record directory \<Rightarrow> batch_record option" where
  "batch_read t batch_id dir = (if t_unreadable t then None else dir_get batch_id dir)"

definition batch_get :: "string \<Rightarrow> ('y, batch_record option) batch_op" where
  "batch_get batch_id =
     batch_step (\<lambda>t dir. (if t_fault t then Inl Os_error else Inr (batch_read t batch_id dir), dir))"

text \<open>The record, and whether its absence is uncertain; never an exception.\<close>

definition batch_get_or_diagnose :: "string \<Rightarrow> ('y, batch_record option \<times> bool) batch_op" where
  "batch_get_or_diagnose batch_id =
     batch_step (\<lambda>t dir.
       (Inr (if t_fault t then (None, True)
             else if map_of dir batch_id = None then (None, False)
             else (case batch_read t batch_id dir of None \<Rightarrow> (None, True) | Some r \<Rightarrow> (Some r, False))), dir))"

text \<open>\<open>_try_load_diagnosed\<close>: the record, and whether a failure was transient.\<close>

definition batch_load_diagnosed :: "string \<Rightarrow> ('y, batch_record option \<times> bool) batch_op" where
  "batch_load_diagnosed name =
     batch_step (\<lambda>t dir.
       (Inr (if t_fault t \<or> t_unreadable t \<or> map_of dir name = None then (None, True)
             else (dir_get name dir, False)), dir))"

definition batch_in_project :: "string option \<Rightarrow> batch_record \<Rightarrow> bool" where
  "batch_in_project project_id r \<longleftrightarrow>
     (case project_id of None \<Rightarrow> True | Some p \<Rightarrow> p = [] \<or> bs_project_id (br_spec r) = Some p)"

text \<open>\<open>sort(key=updated_at, reverse=True)\<close>, which keeps the order of equal keys.\<close>

definition newest_batches_first :: "batch_record list \<Rightarrow> batch_record list" where
  "newest_batches_first records = rev (sort_key br_updated_at (rev records))"

definition batch_list_all :: "string option \<Rightarrow> nat option \<Rightarrow> ('y, batch_record list) batch_op" where
  "batch_list_all project_id limit =
     bnd (batch_step (\<lambda>t dir. (Inr (if t_fault t then [] else dir_names dir), dir))) (\<lambda>names.
     bnd (collect batch_load_diagnosed names) (\<lambda>loads.
       ret ((case limit of None \<Rightarrow> id | Some n \<Rightarrow> take n)
         (newest_batches_first (filter (batch_in_project project_id) (List.map_filter fst loads))))))"

definition owns_job :: "string \<Rightarrow> batch_record \<Rightarrow> bool" where
  "owns_job job_id r \<longleftrightarrow> list_ex (\<lambda>item. bi_job_id item = Some job_id) (br_items r)"

definition batch_find_by_job_id :: "string \<Rightarrow> ('y, batch_record option) batch_op" where
  "batch_find_by_job_id job_id =
     bnd (batch_list_all None None) (\<lambda>records. ret (find (owns_job job_id) records))"

text \<open>The records, the ids of the malformed files, and whether nothing else went unread.\<close>

definition batch_list_all_tolerant ::
  "string option \<Rightarrow> ('y, batch_record list \<times> string list \<times> bool) batch_op" where
  "batch_list_all_tolerant project_id =
     bnd (batch_step (\<lambda>t dir. (Inr (if t_fault t then None else Some (dir_names dir)), dir))) (\<lambda>listing.
       case listing of
         None \<Rightarrow> ret ([], [], False)
       | Some names \<Rightarrow>
           bnd (collect batch_load_diagnosed names) (\<lambda>loads.
             ret (newest_batches_first (filter (batch_in_project project_id) (List.map_filter fst loads)),
                  map fst (filter (\<lambda>(name, load). load = (None, False)) (zip names loads)),
                  list_all (\<lambda>load. load \<noteq> (None, True)) loads)))"

definition batch_find_by_job_id_or_diagnose :: "string \<Rightarrow> ('y, batch_record option \<times> bool) batch_op" where
  "batch_find_by_job_id_or_diagnose job_id =
     bnd (batch_list_all_tolerant None) (\<lambda>(records, malformed, reliable).
       ret (case find (owns_job job_id) records of
              Some r \<Rightarrow> (Some r, False) | None \<Rightarrow> (None, malformed \<noteq> [] \<or> \<not> reliable)))"

section \<open>Writes\<close>

definition batch_write :: "batch_record \<Rightarrow> ('y, unit) batch_op" where
  "batch_write r =
     batch_step (\<lambda>t dir. if t_fault t then (Inl Os_error, dir) else (Inr (), dir_write (br_id r) r dir))"

definition batch_create :: "batch_record \<Rightarrow> ('y, batch_record) batch_op" where
  "batch_create r = exclusively (bnd (batch_write r) (\<lambda>_. ret r))"

definition batch_save :: "batch_record \<Rightarrow> ('y, batch_record) batch_op" where
  "batch_save r =
     exclusively (bnd read_now (\<lambda>now.
       let updated = r\<lparr>br_updated_at := now\<rparr> in bnd (batch_write updated) (\<lambda>_. ret updated)))"

text \<open>
  What follows the read of a mutation: the caller's function, then no save where it declined or
  changed nothing.
\<close>

definition apply_and_save ::
  "(batch_record option \<Rightarrow> ('y, batch_record option) batch_op) \<Rightarrow> batch_record option \<Rightarrow>
   ('y, batch_record option) batch_op" where
  "apply_and_save f current =
     bnd (f current) (\<lambda>updated.
       case updated of
         None \<Rightarrow> ret None
       | Some r \<Rightarrow>
           if (case current of None \<Rightarrow> False | Some snapshot \<Rightarrow> batch_eq r snapshot) then ret (Some r)
           else bnd (batch_save r) (\<lambda>saved. ret (Some saved)))"

definition batch_mutate ::
  "string \<Rightarrow> (batch_record option \<Rightarrow> ('y, batch_record option) batch_op) \<Rightarrow> ('y, batch_record option) batch_op" where
  "batch_mutate batch_id f = exclusively (bnd (batch_get batch_id) (apply_and_save f))"

definition batch_mutate_by_job_id ::
  "string \<Rightarrow> (batch_record option \<Rightarrow> ('y, batch_record option) batch_op) \<Rightarrow> ('y, batch_record option) batch_op" where
  "batch_mutate_by_job_id job_id f =
     exclusively (bnd (batch_find_by_job_id job_id) (\<lambda>current.
       if current = None then ret None else apply_and_save f current))"

definition batch_mutate_by_job_id_diagnosed ::
  "string \<Rightarrow> (batch_record option \<Rightarrow> ('y, batch_record option) batch_op) \<Rightarrow>
   ('y, batch_record option \<times> bool) batch_op" where
  "batch_mutate_by_job_id_diagnosed job_id f =
     exclusively (bnd (batch_find_by_job_id_or_diagnose job_id) (\<lambda>(current, uncertain).
       if current = None then ret (None, uncertain)
       else bnd (apply_and_save f current) (\<lambda>result. ret (result, False))))"

definition batch_delete :: "string \<Rightarrow> ('y, bool) batch_op" where
  "batch_delete batch_id =
     exclusively (batch_step (\<lambda>t dir.
       if t_fault t then (Inl Os_error, dir)
       else if map_of dir batch_id = None then (Inr False, dir)
       else (Inr True, AList.delete batch_id dir)))"

end
