(* ===== verification/Batch_Rules.thy ===== *)
theory Batch_Rules imports Batch_Repository begin

text \<open>
  The rules of \<open>batch_follows\<close> are kept: by the saves of the other threads, by every step of the
  repository, and by a mutation whose function keeps them (\<open>keeps_rules\<close>). \<open>batches_evolve\<close> is the
  relation between the directories before and after; \<open>recorded\<close> is what a mutation that returned
  a record has left in its file.
\<close>

section \<open>The rules are kept\<close>

lemma item_follows_refl [simp]: "item_follows i i"
  by (simp add: item_follows_def)

lemma item_follows_trans: "item_follows i j \<Longrightarrow> item_follows j k \<Longrightarrow> item_follows i k"
  by (auto simp: item_follows_def)

lemma batch_follows_refl [simp]: "batch_follows a a"
  by (simp add: batch_follows_def list.rel_refl)

lemma batch_follows_items:
  assumes "batch_follows a b"
  shows "length (br_items a) \<le> length (br_items b)"
    and "list_all2 item_follows (br_items a) (take (length (br_items a)) (br_items b))"
  using assms by (simp_all add: batch_follows_def)

lemma batch_follows_trans:
  assumes ab: "batch_follows a b" and bc: "batch_follows b c"
  shows "batch_follows a c"
proof -
  let ?n = "length (br_items a)"
  have "list_all2 item_follows (take ?n (br_items b)) (take ?n (take (length (br_items b)) (br_items c)))"
    using batch_follows_items(2) [OF bc] by (rule list_all2_takeI)
  then have "list_all2 item_follows (take ?n (br_items b)) (take ?n (br_items c))"
    using batch_follows_items(1) [OF ab] by (simp add: min_absorb1)
  with batch_follows_items(2) [OF ab] have "list_all2 item_follows (br_items a) (take ?n (br_items c))"
    using list_all2_trans [of item_follows item_follows item_follows] item_follows_trans by blast
  moreover have "?n \<le> length (br_items c)"
    using batch_follows_items(1) [OF ab] batch_follows_items(1) [OF bc] by simp
  ultimately show ?thesis using ab bc by (simp add: batch_follows_def)
qed

text \<open>A file's name is the id of its record, as every save leaves it.\<close>

definition names_ok :: "batch_record directory \<Rightarrow> bool" where
  "names_ok dir \<longleftrightarrow> (\<forall>name r. map_of dir name = Some (Document r) \<longrightarrow> br_id r = name)"

definition dir_follows :: "batch_record directory \<Rightarrow> batch_record directory \<Rightarrow> bool" where
  "dir_follows d e \<longleftrightarrow>
     (\<forall>name. (map_of d name = Some Malformed \<longrightarrow> map_of e name = Some Malformed) \<and>
        (\<forall>a. map_of d name = Some (Document a) \<longrightarrow>
           (\<exists>b. map_of e name = Some (Document b) \<and> batch_follows a b)))"

text \<open>The ids this thread has minted, and the files that other threads may still create.\<close>

definition batch_name :: "'y batch_world_scheme \<Rightarrow> nat \<Rightarrow> string" where
  "batch_name w k = ''batch_'' @ bw_uuids w k"

definition others_names :: "'y batch_world_scheme \<Rightarrow> string set" where
  "others_names w = {name. \<exists>saves \<in> set (bw_others w). \<exists>r. (name, r) \<in> set saves}"

definition sources_kept :: "'y batch_world_scheme \<Rightarrow> 'y batch_world_scheme \<Rightarrow> bool" where
  "sources_kept w w' \<longleftrightarrow>
     bw_uuids w' = bw_uuids w \<and> bw_minted w \<le> bw_minted w' \<and> others_names w' \<subseteq> others_names w"

definition new_files_known :: "'y batch_world_scheme \<Rightarrow> 'y batch_world_scheme \<Rightarrow> bool" where
  "new_files_known w w' \<longleftrightarrow>
     (\<forall>name \<in> dom (map_of (bw_batches w')) - dom (map_of (bw_batches w)).
        name \<in> others_names w \<or> (\<exists>k. bw_minted w \<le> k \<and> k < bw_minted w' \<and> name = batch_name w k))"

definition batches_evolve :: "'y batch_world_scheme \<Rightarrow> 'y batch_world_scheme \<Rightarrow> bool" where
  "batches_evolve w w' \<longleftrightarrow>
     (names_ok (bw_batches w) \<longrightarrow>
        names_ok (bw_batches w') \<and> dir_follows (bw_batches w) (bw_batches w') \<and>
        sources_kept w w' \<and> new_files_known w w')"

lemma sources_kept_refl [simp]: "sources_kept w w"
  by (simp add: sources_kept_def)

lemma sources_kept_trans: "sources_kept u v \<Longrightarrow> sources_kept v w \<Longrightarrow> sources_kept u w"
  by (auto simp: sources_kept_def)

lemma new_files_trans:
  assumes "new_files_known u v" and "new_files_known v w" and "sources_kept u v" and "sources_kept v w"
  shows "new_files_known u w"
  unfolding new_files_known_def
proof
  fix name
  assume new: "name \<in> dom (map_of (bw_batches w)) - dom (map_of (bw_batches u))"
  show "name \<in> others_names u \<or> (\<exists>k. bw_minted u \<le> k \<and> k < bw_minted w \<and> name = batch_name u k)"
  proof (cases "name \<in> dom (map_of (bw_batches v))")
    case True
    with new assms(1) have "name \<in> others_names u \<or> (\<exists>k. bw_minted u \<le> k \<and> k < bw_minted v \<and> name = batch_name u k)"
      by (auto simp: new_files_known_def)
    moreover have "bw_minted v \<le> bw_minted w" using assms(4) by (simp add: sources_kept_def)
    ultimately show ?thesis by (metis less_le_trans)
  next
    case False
    with new assms(2) have "name \<in> others_names v \<or> (\<exists>k. bw_minted v \<le> k \<and> k < bw_minted w \<and> name = batch_name v k)"
      by (auto simp: new_files_known_def)
    moreover have "others_names v \<subseteq> others_names u" "bw_minted u \<le> bw_minted v" "bw_uuids v = bw_uuids u"
      using assms(3) by (simp_all add: sources_kept_def)
    ultimately show ?thesis by (auto simp: batch_name_def intro: le_trans)
  qed
qed

lemma no_new_files [simp]: "bw_batches w' = bw_batches w \<Longrightarrow> new_files_known w w'"
  by (simp add: new_files_known_def)

lemma no_file_added: "dom (map_of (bw_batches w')) \<subseteq> dom (map_of (bw_batches w)) \<Longrightarrow> new_files_known w w'"
  by (auto simp: new_files_known_def)

text \<open>Neither the files nor the lock are where new ids come from.\<close>

lemma sources_elsewhere [simp]:
  "others_names (w\<lparr>bw_locked := b\<rparr>) = others_names w" "others_names (w\<lparr>bw_batches := d\<rparr>) = others_names w"
  "sources_kept w (v\<lparr>bw_locked := b\<rparr>) = sources_kept w v" "sources_kept w (v\<lparr>bw_batches := d\<rparr>) = sources_kept w v"
  "new_files_known w (v\<lparr>bw_locked := b\<rparr>) = new_files_known w v"
  "sources_kept w (release_lock b v) = sources_kept w v" "new_files_known w (release_lock b v) = new_files_known w v"
  "sources_kept w (snd (acquire_lock v)) = sources_kept w (others_act v)"
  "new_files_known w (snd (acquire_lock v)) = new_files_known w (others_act v)"
  by (simp_all add: others_names_def sources_kept_def new_files_known_def release_lock_def acquire_lock_def)

lemma dir_follows_refl [simp]: "dir_follows d d"
  by (simp add: dir_follows_def)

lemma dir_follows_trans: "dir_follows d e \<Longrightarrow> dir_follows e f \<Longrightarrow> dir_follows d f"
  unfolding dir_follows_def by (fast intro: batch_follows_trans)

interpretation batches: step_preorder batches_evolve
  by unfold_locales
    (simp add: batches_evolve_def,
     unfold batches_evolve_def, blast intro: dir_follows_trans sources_kept_trans new_files_trans)

text \<open>A save that replaces nothing, or a record it follows.\<close>

definition may_write :: "batch_record \<Rightarrow> batch_record directory \<Rightarrow> bool" where
  "may_write r dir \<longleftrightarrow>
     (case map_of dir (br_id r) of
        None \<Rightarrow> True | Some Malformed \<Rightarrow> False | Some (Document old) \<Rightarrow> batch_follows old r)"

lemma write_follows:
  assumes "may_write r dir"
  shows "names_ok dir \<longrightarrow> names_ok (dir_write (br_id r) r dir)" and "dir_follows dir (dir_write (br_id r) r dir)"
  using assms by (auto simp: may_write_def names_ok_def dir_follows_def split: option.splits json_file.splits)

lemma other_saves_follow:
  "names_ok dir \<Longrightarrow> names_ok (other_saves save dir) \<and> dir_follows dir (other_saves save dir) \<and>
   dom (map_of (other_saves save dir)) \<subseteq> insert (fst save) (dom (map_of dir))"
  using write_follows [of "snd save" dir]
  by (auto simp: other_saves_def other_may_save_def may_write_def split: if_splits)

lemma others_save_follow:
  "names_ok dir \<Longrightarrow> names_ok (fold other_saves saves dir) \<and> dir_follows dir (fold other_saves saves dir) \<and>
   dom (map_of (fold other_saves saves dir)) \<subseteq> fst ` set saves \<union> dom (map_of dir)"
proof (induction saves arbitrary: dir)
  case (Cons save saves)
  note step = other_saves_follow [OF Cons.prems, of save]
  note rest = Cons.IH [OF conjunct1 [OF step]]
  have "dir_follows dir (fold other_saves saves (other_saves save dir))"
    using step rest dir_follows_trans by blast
  moreover have "dom (map_of (fold other_saves saves (other_saves save dir))) \<subseteq> fst ` set saves \<union> insert (fst save) (dom (map_of dir))"
    using conjunct2 [OF conjunct2 [OF step]] conjunct2 [OF conjunct2 [OF rest]] by blast
  then have "dom (map_of (fold other_saves saves (other_saves save dir))) \<subseteq> fst ` set (save # saves) \<union> dom (map_of dir)"
    unfolding list.set image_insert by blast
  ultimately show ?case using rest by simp
qed simp

lemma others_act_evolves: "batches_evolve w (others_act w)"
proof (cases "bw_locked w \<or> bw_others w = []")
  case True
  then show ?thesis by (auto simp: others_act_def batches_evolve_def sources_kept_def others_names_def)
next
  case False
  then obtain saves rest where others: "bw_others w = saves # rest" "\<not> bw_locked w" by (cases "bw_others w") auto
  then have act: "others_act w = w\<lparr>bw_batches := fold other_saves saves (bw_batches w), bw_others := rest\<rparr>"
    by (simp add: others_act_def)
  have "sources_kept w (others_act w)" unfolding act by (auto simp: sources_kept_def others_names_def others)
  moreover have "new_files_known w (others_act w)" if "names_ok (bw_batches w)"
    using others_save_follow [OF that, of saves] unfolding act
    by (auto simp: new_files_known_def others_names_def others)
  ultimately show ?thesis using others_save_follow [of "bw_batches w" saves] by (simp add: batches_evolve_def act)
qed

text \<open>What happens to the jobs leaves the batches alone.\<close>

definition batches_still :: "'y batch_world_scheme \<Rightarrow> 'y batch_world_scheme \<Rightarrow> bool" where
  "batches_still w w' \<longleftrightarrow>
     bw_batches w' = bw_batches w \<and> bw_locked w' = bw_locked w \<and> sources_kept w w'"

lemma perform_keeps_batches: "world.more (perform now a w) = world.more w"
  by (cases a) (auto simp: perform_def split: option.splits sum.splits prod.splits)

lemma interfere_keeps_more: "world.more (interfere w) = world.more w"
proof -
  have "world.more (fold (perform now) acts v) = world.more v" for now acts and v :: "'a world_scheme"
    by (induction acts arbitrary: v) (simp_all add: perform_keeps_batches)
  then show ?thesis by (simp add: interfere_def)
qed

lemma more_decides:
  fixes v w :: "'y batch_world_scheme"
  assumes "world.more v = world.more w"
  shows "bw_batches v = bw_batches w" "bw_locked v = bw_locked w" "bw_others v = bw_others w"
    "bw_uuids v = bw_uuids w" "bw_minted v = bw_minted w"
  using assms by (cases v; cases w; simp)+

lemma more_still: "world.more w' = world.more w \<Longrightarrow> batches_still w w'"
  using more_decides [of w' w] by (simp add: batches_still_def sources_kept_def others_names_def)

lemma interfere_keeps_batches [simp]: "bw_batches (interfere w) = bw_batches w" "bw_locked (interfere w) = bw_locked w"
  "sources_kept w (interfere w)" "bw_uuids (interfere w) = bw_uuids w" "bw_minted (interfere w) = bw_minted w"
  "others_names (interfere w) = others_names w"
  using more_still [OF interfere_keeps_more [of w]] more_decides [OF interfere_keeps_more [of w]]
  by (simp_all add: batches_still_def others_names_def)

lemma still_trans: "batches_still u v \<Longrightarrow> batches_still v w \<Longrightarrow> batches_still u w"
  by (auto simp: batches_still_def intro: sources_kept_trans)

interpretation batch_still: process_frame batches_still
  by unfold_locales (erule (1) still_trans | (rule more_still, simp add: interfere_keeps_more))+

lemma still_evolves: "batches_still w w' \<Longrightarrow> batches_evolve w w'"
  by (simp add: batches_still_def batches_evolve_def)

interpretation batches: process_frame batches_evolve
  by unfold_locales (intro still_evolves more_still; simp add: interfere_keeps_more)+

lemma follows_step:
  assumes "\<And>t dir. names_ok dir \<Longrightarrow> names_ok (snd (f t dir)) \<and> dir_follows dir (snd (f t dir))"
    and "\<And>t dir. dom (map_of (snd (f t dir))) \<subseteq> dom (map_of dir)"
  shows "holds_along batches_evolve (batch_step f)"
  unfolding holds_along_def
proof
  fix w
  let ?u = "interfere (others_act w)"
  have "batches_evolve ?u (snd (batch_step f w))"
    using assms [where dir="bw_batches ?u" and t="next_tick (others_act w)"]
    by (simp add: batch_step_def atomic_def batches_evolve_def case_prod_beta no_file_added)
  then show "batches_evolve w (snd (batch_step f w))"
    using batches.R_trans [OF others_act_evolves batches.R_interfere] batches.R_trans by blast
qed

lemma shared_lock_parts [simp]:
  "bw_batches (release_lock outer w) = bw_batches w" "bw_locked (release_lock outer w) = outer"
  "fst (acquire_lock w) = bw_locked w" "bw_locked (snd (acquire_lock w)) = True"
  "bw_batches (snd (acquire_lock w)) = bw_batches (others_act w)"
  by (simp_all add: release_lock_def acquire_lock_def)

lemma others_act_locked [simp]: "bw_locked w \<Longrightarrow> others_act w = w"
  by (simp add: others_act_def)

lemma exclusively_runs:
  assumes "exclusively m w = (r, w')"
  obtains v u where "v = snd (acquire_lock w)" and "bw_locked v" and "batches_evolve w v" and "m v = (r, u)"
    and "w' = release_lock (bw_locked w) u"
proof -
  let ?v = "snd (acquire_lock w)"
  obtain u where "m ?v = (r, u)" "w' = release_lock (bw_locked w) u"
    using assms by (auto simp: exclusively_def acquire_lock_def elim: finally_runs)
  moreover have "batches_evolve w ?v"
    using others_act_evolves [of w] by (simp add: batches_evolve_def)
  ultimately show thesis by (intro that) simp_all
qed

lemma exclusively_follows:
  assumes "\<And>v. bw_locked v \<Longrightarrow> batches_evolve v (snd (m v))"
  shows "holds_along batches_evolve (exclusively m)"
  unfolding holds_along_def
proof
  fix w
  obtain r w' where run: "exclusively m w = (r, w')" by (cases "exclusively m w")
  then obtain v u where part: "bw_locked v" "batches_evolve w v" "m v = (r, u)" "w' = release_lock (bw_locked w) u"
    by (rule exclusively_runs)
  have "batches_evolve v u" using assms [OF part(1)] part(3) by simp
  with part(2) have "batches_evolve w u" by (rule batches.R_trans)
  with run part(4) show "batches_evolve w (snd (exclusively m w))" by (simp add: batches_evolve_def)
qed

lemma exclusively_along [along]:
  assumes "holds_along evolves m"
  shows "holds_along evolves (exclusively m)"
  unfolding holds_along_def
proof
  fix w :: "'a batch_world_scheme"
  obtain r w' where run: "exclusively m w = (r, w')" by (cases "exclusively m w")
  then obtain v u where part: "v = snd (acquire_lock w)" "m v = (r, u)" "w' = release_lock (bw_locked w) u"
    by (rule exclusively_runs)
  have "evolves w v" unfolding part(1)
    by (intro evolves_shape) (simp_all add: keeps_shape_def acquire_lock_def others_act_def)
  moreover have "evolves v u" using assms part(2) by (rule along_runs)
  moreover have "evolves u w'" unfolding part(3)
    by (intro evolves_shape) (simp_all add: keeps_shape_def release_lock_def)
  ultimately show "evolves w (snd (exclusively m w))" using run by (auto intro: evolving.R_trans)
qed

lemma batch_step_along [along]: "holds_along evolves (batch_step f)"
  unfolding holds_along_def
proof
  fix w :: "'a batch_world_scheme"
  have "evolves w (others_act w)"
    by (intro evolves_shape) (simp_all add: keeps_shape_def others_act_def)
  moreover have "evolves (others_act w) (interfere (others_act w))" by (rule interfere_evolves)
  moreover have "evolves (interfere (others_act w)) (snd (batch_step f w))"
    by (intro evolves_shape) (simp_all add: keeps_shape_def batch_step_def atomic_def case_prod_beta)
  ultimately show "evolves w (snd (batch_step f w))" by (blast intro: evolving.R_trans)
qed

lemma batch_reads_along [along]:
  "holds_along evolves (batch_get batch_id)" "holds_along evolves (batch_get_or_diagnose batch_id)"
  "holds_along evolves (batch_load_diagnosed name)" "holds_along evolves (batch_list_all project_id limit)"
  "holds_along evolves (batch_find_by_job_id job_id)" "holds_along evolves (batch_list_all_tolerant project_id)"
  "holds_along evolves (batch_find_by_job_id_or_diagnose job_id)"
  unfolding batch_get_def batch_get_or_diagnose_def batch_load_diagnosed_def batch_list_all_def
    batch_find_by_job_id_def batch_list_all_tolerant_def batch_find_by_job_id_or_diagnose_def
  by (intro along_steps along)+

lemma batch_save_along [along]: "holds_along evolves (batch_save r)" "holds_along evolves (batch_create r)"
  unfolding batch_save_def batch_create_def batch_write_def Let_def by (intro along_steps along)+

lemma apply_and_save_along: "(\<And>c. holds_along evolves (f c)) \<Longrightarrow> holds_along evolves (apply_and_save f current)"
  unfolding apply_and_save_def by (intro along_steps along)

lemma batch_mutate_along:
  assumes "\<And>c. holds_along evolves (f c)"
  shows "holds_along evolves (batch_mutate batch_id f)" "holds_along evolves (batch_mutate_by_job_id job_id f)"
    "holds_along evolves (batch_mutate_by_job_id_diagnosed job_id f)"
  unfolding batch_mutate_def batch_mutate_by_job_id_def batch_mutate_by_job_id_diagnosed_def
  by (intro along_steps along apply_and_save_along assms)+

lemma reads_follow:
  "holds_along batches_evolve (batch_get batch_id)" "holds_along batches_evolve (batch_get_or_diagnose batch_id)"
  "holds_along batches_evolve (batch_load_diagnosed name)" "holds_along batches_evolve (batch_list_all project_id limit)"
  "holds_along batches_evolve (batch_find_by_job_id job_id)" "holds_along batches_evolve (batch_list_all_tolerant project_id)"
  "holds_along batches_evolve (batch_find_by_job_id_or_diagnose job_id)"
  unfolding batch_get_def batch_get_or_diagnose_def batch_load_diagnosed_def batch_list_all_def
    batch_find_by_job_id_def batch_list_all_tolerant_def batch_find_by_job_id_or_diagnose_def
  by (intro batches.frame_calm follows_step; simp)+

section \<open>Mutations\<close>

definition keeps_rules :: "(batch_record option \<Rightarrow> ('y, batch_record option) batch_op) \<Rightarrow> bool" where
  "keeps_rules f \<longleftrightarrow>
     (\<forall>c. holds_along batches_still (f c)) \<and>
     (\<forall>w r w'. f None w = (Inr r, w') \<longrightarrow> r = None) \<and>
     (\<forall>c w r w'. f (Some c) w = (Inr (Some r), w') \<longrightarrow> batch_follows c r)"

text \<open>A record as the file has it, up to Python's equality.\<close>

definition recorded :: "batch_record \<Rightarrow> 'y batch_world_scheme \<Rightarrow> bool" where
  "recorded r w \<longleftrightarrow>
     (\<exists>d. map_of (bw_batches w) (br_id r) = Some (Document d) \<and> (d = r \<or> batch_eq r d))"

lemma may_write_time [simp]: "may_write (r\<lparr>br_updated_at := now\<rparr>) dir = may_write r dir"
  by (simp add: may_write_def batch_follows_def split: option.splits json_file.splits)

lemma batch_step_locked:
  assumes "bw_locked w" and "batch_step f w = (r, w')"
  shows "r = fst (f (next_tick w) (bw_batches w))" and "bw_batches w' = snd (f (next_tick w) (bw_batches w))"
    and "bw_locked w'" and "sources_kept w w'"
proof -
  obtain q d where "f (next_tick w) (bw_batches w) = (q, d)" by (cases "f (next_tick w) (bw_batches w)")
  moreover from this have "batch_step f w = (q, (interfere w)\<lparr>bw_batches := d\<rparr>)"
    using assms(1) by (simp add: batch_step_def atomic_def)
  ultimately show "r = fst (f (next_tick w) (bw_batches w))" "bw_batches w' = snd (f (next_tick w) (bw_batches w))"
    "bw_locked w'" "sources_kept w w'" using assms by auto
qed

lemma batch_get_locked:
  assumes "bw_locked w" and "batch_get batch_id w = (r, w')"
  shows "batches_still w w'" and "r = Inr (Some c) \<Longrightarrow> dir_get batch_id (bw_batches w) = Some c"
  using batch_step_locked [OF assms(1) assms(2) [unfolded batch_get_def]] assms(1)
  by (simp_all add: batches_still_def batch_read_def split: if_splits)

lemma batch_write_locked:
  assumes "bw_locked w" and "batch_write r w = (q, w')"
  shows "bw_locked w'" and "sources_kept w w'" and "q = Inr () \<Longrightarrow> bw_batches w' = dir_write (br_id r) r (bw_batches w)"
    and "q \<noteq> Inr () \<Longrightarrow> bw_batches w' = bw_batches w"
  using batch_step_locked [OF assms(1) assms(2) [unfolded batch_write_def]]
  by (simp_all split: if_splits)

lemma batch_save_locked:
  assumes "bw_locked w" and "batch_save r w = (q, w')"
  obtains (failed) e where "q = Inl e" and "batches_still w w'"
  | (saved) now where "q = Inr (r\<lparr>br_updated_at := now\<rparr>)" and "bw_locked w'"
      and "bw_batches w' = dir_write (br_id r) (r\<lparr>br_updated_at := now\<rparr>) (bw_batches w)" and "sources_kept w w'"
proof -
  obtain v u where part: "v = snd (acquire_lock w)" "w' = release_lock (bw_locked w) u"
    and run: "bnd read_now (\<lambda>now. let updated = r\<lparr>br_updated_at := now\<rparr> in bnd (batch_write updated) (\<lambda>_. ret updated)) v = (q, u)"
    using assms(2) unfolding batch_save_def by (rule exclusively_runs)
  have v: "bw_batches v = bw_batches w" "bw_locked v" using part(1) assms(1) by simp_all
  obtain now v1 where now: "read_now v = (Inr now, v1)" "v1 = interfere v" by (simp add: read_now_def atomic_def)
  have lock: "bw_locked v1" "bw_batches v1 = bw_batches w" "sources_kept w v1"
    using v now(2) part(1) assms(1) by (simp_all add: sources_kept_def acquire_lock_def)
  let ?r = "r\<lparr>br_updated_at := now\<rparr>"
  obtain x v2 where wr: "batch_write ?r v1 = (x, v2)" by (cases "batch_write ?r v1")
  note facts = batch_write_locked [OF lock(1) wr]
  have kept: "sources_kept w v2" using lock(3) facts(2) by (rule sources_kept_trans)
  show thesis
  proof (cases x)
    case (Inl e)
    with run now wr have "q = Inl e" "u = v2" by (simp_all add: bnd_def Let_def)
    with facts(4) Inl lock(2) part(2) assms(1) failed kept show thesis by (simp add: batches_still_def)
  next
    case (Inr y)
    with run now wr have "q = Inr ?r" "u = v2" by (simp_all add: bnd_def Let_def)
    have written: "bw_batches v2 = dir_write (br_id ?r) ?r (bw_batches w)" using facts(3) Inr lock(2) by simp
    show thesis
    proof (rule saved)
      show "q = Inr ?r" by fact
      show "bw_locked w'" using part(2) assms(1) by simp
      show "bw_batches w' = dir_write (br_id r) ?r (bw_batches w)" using written part(2) \<open>u = v2\<close> by simp
      show "sources_kept w w'" using kept part(2) \<open>u = v2\<close> by simp
    qed
  qed
qed

lemma apply_and_save_locked:
  assumes "apply_and_save f current w = (q, w')" and "bw_locked w" and "keeps_rules f"
    and "\<And>c. current = Some c \<Longrightarrow> map_of (bw_batches w) (br_id c) = Some (Document c)"
  shows "bw_locked w'" and "batches_evolve w w'" and "q = Inr (Some r) \<Longrightarrow> recorded r w'"
proof -
  obtain p v where run: "f current w = (p, v)" by (cases "f current w")
  have still: "batches_still w v" using assms(3) run unfolding keeps_rules_def by (metis batch_still.frame_runs)
  then have v: "bw_batches v = bw_batches w" "bw_locked v" using assms(2) by (simp_all add: batches_still_def)
  have quiet: "(bw_locked w' \<and> batches_evolve w w') \<and> (q = Inr (Some r) \<longrightarrow> recorded r w')"
    if "p = Inl e \<or> p = Inr None" for e
    using that assms(1) run v still_evolves [OF still] by (auto simp: apply_and_save_def bnd_def)
  have "(bw_locked w' \<and> batches_evolve w w') \<and> (q = Inr (Some r) \<longrightarrow> recorded r w')"
  proof (cases "p = Inr None \<or> isl p")
    case True
    then show ?thesis using quiet by (cases p) auto
  next
    case False
    then obtain s where p: "p = Inr (Some s)" by (cases p) auto
    obtain c where c: "current = Some c" using assms(3) run p by (cases current) (auto simp: keeps_rules_def)
    have follows: "batch_follows c s" using assms(3) run p c unfolding keeps_rules_def by blast
    then have id: "br_id s = br_id c" by (simp add: batch_follows_def)
    have on_file: "map_of (bw_batches v) (br_id c) = Some (Document c)" using assms(4) [OF c] v by simp
    show ?thesis
    proof (cases "batch_eq s c")
      case True
      then have "q = Inr (Some s)" "w' = v" using assms(1) run p c by (simp_all add: apply_and_save_def bnd_def)
      with v still_evolves [OF still] on_file id True show ?thesis by (auto simp: recorded_def)
    next
      case False
      obtain x u where save: "batch_save s v = (x, u)" by (cases "batch_save s v")
      have end_of: "w' = u" "q = (case x of Inl e \<Rightarrow> Inl e | Inr t \<Rightarrow> Inr (Some t))"
        using assms(1) run p c False save by (auto simp: apply_and_save_def bnd_def split: sum.splits)
      from v(2) save show ?thesis
      proof (cases rule: batch_save_locked)
        case (failed e)
        then show ?thesis
          using end_of v still_evolves [OF still] still_evolves [of v u] batches.R_trans
          by (auto simp: batches_still_def)
      next
        case (saved now)
        have "may_write s (bw_batches v)" using on_file follows by (simp add: may_write_def id)
        then have "may_write (s\<lparr>br_updated_at := now\<rparr>) (bw_batches v)" by simp
        from write_follows [OF this] have "batches_evolve v u"
          using saved(3,4) on_file id by (auto simp: batches_evolve_def intro!: no_file_added split: if_splits)
        with still_evolves [OF still] have "batches_evolve w u" by (rule batches.R_trans)
        moreover have "recorded (s\<lparr>br_updated_at := now\<rparr>) u" using saved(3) by (simp add: recorded_def)
        ultimately show ?thesis using end_of saved by auto
      qed
    qed
  qed
  then show "bw_locked w'" and "batches_evolve w w'" and "q = Inr (Some r) \<Longrightarrow> recorded r w'" by simp_all
qed

text \<open>What a listing gives under the lock is on disk.\<close>

definition documents :: "'y batch_world_scheme \<Rightarrow> batch_record set" where
  "documents w = {r. \<exists>name. map_of (bw_batches w) name = Some (Document r)}"

lemma dir_get_Some: "dir_get name dir = Some r \<longleftrightarrow> map_of dir name = Some (Document r)"
  by (auto simp: dir_get_def loaded_def split: option.splits json_file.splits)

lemma load_locked:
  assumes "bw_locked w" and "batch_load_diagnosed name w = (q, w')"
  shows "batches_still w w'" and "q = Inr load \<Longrightarrow> fst load = Some r \<Longrightarrow> r \<in> documents w"
  using batch_step_locked [OF assms(1) assms(2) [unfolded batch_load_diagnosed_def]] assms(1)
  by (auto simp: batches_still_def documents_def dir_get_Some split: if_splits)

lemma still_facts: "batches_still w w' \<Longrightarrow> bw_locked w' = bw_locked w" "batches_still w w' \<Longrightarrow> documents w' = documents w"
  by (simp_all add: batches_still_def documents_def)

lemma loads_locked:
  "bw_locked w \<Longrightarrow> collect batch_load_diagnosed names w = (q, w') \<Longrightarrow>
   batches_still w w' \<and> (\<forall>loads. q = Inr loads \<longrightarrow> set (List.map_filter fst loads) \<subseteq> documents w)"
proof (induction names arbitrary: w q w')
  case Nil
  then show ?case by (simp add: batches_still_def map_filter_simps)
next
  case (Cons name names)
  from Cons.prems(2) show ?case unfolding collect.simps
  proof (cases rule: bnd_runs)
    case (raised e)
    with load_locked(1) [OF Cons.prems(1) raised(1)] show ?thesis by simp
  next
    case (went_on load v)
    note first = load_locked [OF Cons.prems(1) went_on(1)]
    have lock: "bw_locked v" using Cons.prems(1) still_facts(1) [OF first(1)] by simp
    from went_on(2) show ?thesis
    proof (cases rule: bnd_runs)
      case (raised e)
      with Cons.IH [OF lock raised(1)] first(1) show ?thesis by (blast intro: still_trans)
    next
      case (went_on loads u)
      with Cons.IH [OF lock went_on(1)] first still_facts(2) [OF first(1)] show ?thesis
        by (auto simp: map_filter_simps intro: still_trans split: option.splits)
    qed
  qed
qed

lemma newest_batches_first_set [simp]: "set (newest_batches_first records) = set records"
  by (simp add: newest_batches_first_def)

lemma listing_locked:
  assumes "bw_locked w" and "batch_list_all_tolerant project_id w = (q, w')"
  shows "batches_still w w'" and "q = Inr (records, malformed, reliable) \<Longrightarrow> set records \<subseteq> documents w"
proof -
  have "batches_still w w' \<and> (q = Inr (records, malformed, reliable) \<longrightarrow> set records \<subseteq> documents w)"
    using assms(2) unfolding batch_list_all_tolerant_def
  proof (cases rule: bnd_runs)
    case (raised e)
    from batch_step_locked [OF assms(1) raised(1)] raised(2) assms(1) show ?thesis by (simp add: batches_still_def)
  next
    case (went_on listing v)
    have first: "batches_still w v"
      using batch_step_locked [OF assms(1) went_on(1)] assms(1) by (simp add: batches_still_def)
    then have lock: "bw_locked v" using assms(1) by (simp add: still_facts(1))
    show ?thesis
    proof (cases listing)
      case None
      with went_on(2) first show ?thesis by auto
    next
      case (Some names)
      with went_on(2) obtain p u where c: "collect batch_load_diagnosed names v = (p, u)" "w' = u"
        and rest: "\<And>loads. p = Inr loads \<Longrightarrow> q = Inr (newest_batches_first (filter (batch_in_project project_id) (List.map_filter fst loads)),
                  map fst (filter (\<lambda>(name, load). load = (None, False)) (zip names loads)),
                  list_all (\<lambda>load. load \<noteq> (None, True)) loads)" and fail: "\<And>e. p = Inl e \<Longrightarrow> q = Inl e"
        by (auto elim!: bnd_runs)
      from loads_locked [OF lock c(1)] first c(2) still_facts(2) [OF first] rest fail show ?thesis
        by (cases p) (auto intro: still_trans)
    qed
  qed
  then show "batches_still w w'" and "q = Inr (records, malformed, reliable) \<Longrightarrow> set records \<subseteq> documents w" by simp_all
qed

lemma find_locked:
  assumes "bw_locked w" and "batch_find_by_job_id_or_diagnose job_id w = (q, w')"
  shows "batches_still w w'" and "q = Inr (Some c, uncertain) \<Longrightarrow> c \<in> documents w \<and> owns_job job_id c"
proof -
  have "batches_still w w' \<and> (q = Inr (Some c, uncertain) \<longrightarrow> c \<in> documents w \<and> owns_job job_id c)"
    using assms(2) unfolding batch_find_by_job_id_or_diagnose_def
  proof (cases rule: bnd_runs)
    case (raised e)
    with listing_locked(1) [OF assms(1) raised(1)] show ?thesis by simp
  next
    case (went_on listing v)
    obtain records malformed reliable where l: "listing = (records, malformed, reliable)" by (cases listing)
    with went_on listing_locked [OF assms(1) went_on(1)] show ?thesis
      by (auto split: option.splits simp: find_Some_iff subset_iff)
  qed
  then show "batches_still w w'" and "q = Inr (Some c, uncertain) \<Longrightarrow> c \<in> documents w \<and> owns_job job_id c" by simp_all
qed

lemma documents_named: "names_ok (bw_batches w) \<Longrightarrow> c \<in> documents w \<Longrightarrow> map_of (bw_batches w) (br_id c) = Some (Document c)"
  by (auto simp: documents_def names_ok_def)

lemma apply_and_save_follows:
  assumes "apply_and_save f current w = (q, w')" and "bw_locked w" and "keeps_rules f"
    and "\<And>c. current = Some c \<Longrightarrow> c \<in> documents w"
  shows "batches_evolve w w'" and "names_ok (bw_batches w) \<Longrightarrow> q = Inr (Some r) \<Longrightarrow> recorded r w'"
proof -
  have named: "map_of (bw_batches w) (br_id c) = Some (Document c)" if "names_ok (bw_batches w)" "current = Some c" for c
    using that assms(4) documents_named by blast
  show "batches_evolve w w'"
  proof (cases "names_ok (bw_batches w)")
    case True
    then show ?thesis by (rule apply_and_save_locked(2) [OF assms(1-3) named])
  qed (simp add: batches_evolve_def)
  show "recorded r w'" if "names_ok (bw_batches w)" "q = Inr (Some r)"
    using apply_and_save_locked(3) [OF assms(1-3) named] that by blast
qed

lemma mutate_runs:
  assumes "batch_mutate batch_id f w = (q, w')" and "keeps_rules f"
  obtains (raised) e where "q = Inl e" and "batches_evolve w w'"
  | (mutated) current v u where "batches_evolve w v" and "bw_locked v"
      and "current = None \<or> (\<exists>c. current = Some c \<and> map_of (bw_batches v) batch_id = Some (Document c))"
      and "apply_and_save f current v = (q, u)" and "batches_evolve v u" and "w' = release_lock (bw_locked w) u"
proof -
  obtain v0 u where part: "bw_locked v0" "batches_evolve w v0" "w' = release_lock (bw_locked w) u"
    and run: "bnd (batch_get batch_id) (apply_and_save f) v0 = (q, u)"
    using assms(1) unfolding batch_mutate_def by (rule exclusively_runs)
  have same: "batches_evolve u w'" using part(3) by (simp add: batches_evolve_def)
  from run show thesis
  proof (cases rule: bnd_runs)
    case (raised e)
    have "batches_evolve v0 u" using batch_get_locked(1) [OF part(1) raised(1)] by (rule still_evolves)
    with part(2) same have "batches_evolve w w'" by (blast intro: batches.R_trans)
    with raised that(1) show thesis by simp
  next
    case (went_on current v)
    note got = batch_get_locked [OF part(1) went_on(1)]
    have v: "bw_locked v" "bw_batches v = bw_batches v0" using got(1) part(1) by (simp_all add: batches_still_def)
    have cur: "current = None \<or> (\<exists>c. current = Some c \<and> map_of (bw_batches v) batch_id = Some (Document c))"
      using got(2) v(2) by (cases current) (simp_all add: dir_get_Some)
    then have docs: "c \<in> documents v" if "current = Some c" for c using that by (auto simp: documents_def)
    have "batches_evolve v u" by (rule apply_and_save_follows(1) [OF went_on(2) v(1) assms(2) docs])
    moreover have "batches_evolve w v" using part(2) still_evolves [OF got(1)] by (rule batches.R_trans)
    ultimately show thesis using that(2) v(1) cur went_on(2) part(3) by blast
  qed
qed

lemma mutate_follows: "keeps_rules f \<Longrightarrow> holds_along batches_evolve (batch_mutate batch_id f)"
  unfolding holds_along_def
proof
  fix w :: "'a batch_world_scheme"
  assume f: "keeps_rules f"
  obtain q w' where run: "batch_mutate batch_id f w = (q, w')" by (cases "batch_mutate batch_id f w")
  from run f have "batches_evolve w w'"
  proof (cases rule: mutate_runs)
    case (mutated current v u)
    then have "batches_evolve w u" by (blast intro: batches.R_trans)
    with mutated(6) show ?thesis by (simp add: batches_evolve_def)
  qed
  with run show "batches_evolve w (snd (batch_mutate batch_id f w))" by simp
qed

lemma mutate_by_job_follows:
  assumes "keeps_rules f"
  shows "holds_along batches_evolve (batch_mutate_by_job_id_diagnosed job_id f)"
  unfolding batch_mutate_by_job_id_diagnosed_def
proof (rule exclusively_follows)
  fix w :: "'a batch_world_scheme"
  assume lock: "bw_locked w"
  let ?m = "bnd (batch_find_by_job_id_or_diagnose job_id) (\<lambda>(current, uncertain).
       if current = None then ret (None, uncertain)
       else bnd (apply_and_save f current) (\<lambda>result. ret (result, False)))"
  obtain q w' where run: "?m w = (q, w')" by (cases "?m w")
  from run have "batches_evolve w w'"
  proof (cases rule: bnd_runs)
    case (raised e)
    with find_locked(1) [OF lock raised(1)] show ?thesis by (blast intro: still_evolves)
  next
    case (went_on found v)
    obtain current uncertain where found: "found = (current, uncertain)" by (cases found)
    note first = find_locked [OF lock went_on(1) [unfolded found]]
    have v: "bw_locked v" "documents v = documents w" using lock still_facts [OF first(1)] by simp_all
    show ?thesis
    proof (cases current)
      case None
      with went_on(2) found still_evolves [OF first(1)] show ?thesis by simp
    next
      case (Some c)
      obtain p u where save: "apply_and_save f current v = (p, u)" by (cases "apply_and_save f current v")
      have "u = w'" using went_on(2) found Some save by (auto simp: bnd_def split: sum.splits)
      moreover have "batches_evolve v u"
        using first(2) Some v(2) by (intro apply_and_save_follows(1) [OF save v(1) assms]) auto
      ultimately show ?thesis using still_evolves [OF first(1)] by (auto intro: batches.R_trans)
    qed
  qed
  with run show "batches_evolve w (snd (?m w))" by simp
qed

lemma mutate_recorded:
  assumes "batch_mutate batch_id f w = (Inr (Some r), w')" and "keeps_rules f" and "names_ok (bw_batches w)"
  shows "recorded r w'"
  using assms(1,2)
proof (cases rule: mutate_runs)
  case (mutated current v u)
  have "names_ok (bw_batches v)" using mutated(1) assms(3) by (simp add: batches_evolve_def)
  with mutated(3) have "recorded r u"
    by (intro apply_and_save_follows(2) [OF mutated(4,2) assms(2)]) (auto simp: documents_def)
  with mutated(6) show ?thesis by (simp add: recorded_def)
qed simp

end
