(* ===== verification/Batch_Expansion.thy ===== *)
theory Batch_Expansion imports Batch_Spec begin

text \<open>
  \<open>expand_items\<close> of \<open>core/batches/expansion.py\<close>: the cross product of a spec's axes turned into
  concrete requests, grouped by model and seeded by position.

  Python's text of a JSON value that is not a string, the model's coercion of a value that does
  not have a field's type, and \<open>random.sample\<close> are the library functions left abstract
  (\<open>expansion_env\<close>). A payload is the keyword dictionary of \<open>GenerationRequest\<close>, its \<open>params\<close>
  apart.
\<close>

section \<open>Dictionaries\<close>

fun deep_copy :: "json \<Rightarrow> json" where
  "deep_copy (JObj kvs) = JObj (map (\<lambda>(key, item). (key, deep_copy item)) kvs)"
| "deep_copy (JArr xs) = JArr (map deep_copy xs)"
| "deep_copy j = j"

definition copy_dict :: "dict \<Rightarrow> dict" where
  "copy_dict d = map (\<lambda>(key, item). (key, deep_copy item)) d"

fun deep_merge :: "dict \<Rightarrow> dict \<Rightarrow> dict" where
  "deep_merge base [] = base"
| "deep_merge base ((key, value) # patch) =
     deep_merge
       (dict_set key
          (case map_of base key of
             Some (JObj existing) \<Rightarrow>
               (case value of JObj nested \<Rightarrow> JObj (deep_merge existing nested) | _ \<Rightarrow> value)
           | _ \<Rightarrow> value) base)
       patch"

section \<open>Patches\<close>

record expansion_env =
  ee_str :: "json \<Rightarrow> string"
  ee_text :: "json \<Rightarrow> string option"
  ee_int :: "json \<Rightarrow> int option"
  ee_sample :: "int option \<Rightarrow> nat \<Rightarrow> nat \<Rightarrow> nat list"

record payload_dict =
  pl_media_type :: media_type
  pl_fields :: dict
  pl_params :: dict

definition TOP_LEVEL_KEYS :: "string list" where
  "TOP_LEVEL_KEYS = [''prompt'', ''negative_prompt'', ''model_id'', ''seed'', ''output_format'', ''task_type'']"

definition py_format :: "expansion_env \<Rightarrow> json \<Rightarrow> string" where
  "py_format env j = (case j of JStr s \<Rightarrow> s | _ \<Rightarrow> ee_str env j)"

definition strip_chars :: "string \<Rightarrow> string \<Rightarrow> string" where
  "strip_chars cs s = rev (dropWhile (\<lambda>c. c \<in> set cs) (rev (dropWhile (\<lambda>c. c \<in> set cs) s)))"

definition appended :: "expansion_env \<Rightarrow> json option \<Rightarrow> json \<Rightarrow> json" where
  "appended env existing value =
     (case existing of
        None \<Rightarrow> value
      | Some e \<Rightarrow>
          if json_truthy e
          then JStr (strip_chars '', '' (py_format env e @ '', '' @ py_format env value))
          else value)"

definition apply_entry ::
  "expansion_env \<Rightarrow> string list \<Rightarrow> string \<Rightarrow> string \<Rightarrow> string \<times> json \<Rightarrow> payload_dict \<Rightarrow> batch_error + payload_dict" where
  "apply_entry env locked axis_name value_label entry pl =
     (case entry of (key, value) \<Rightarrow>
        if sets_locked locked key then Inl (Locked_patch axis_name value_label key)
        else
          (case map_of PATCH_APPEND_KEYS key of
             Some target \<Rightarrow>
               Inr (pl\<lparr>pl_fields := dict_set target (appended env (map_of (pl_fields pl) target) value) (pl_fields pl)\<rparr>)
           | None \<Rightarrow>
               if key \<in> set TOP_LEVEL_KEYS then Inr (pl\<lparr>pl_fields := dict_set key value (pl_fields pl)\<rparr>)
               else
                 (case (key = ''params'', value) of
                    (True, JObj nested) \<Rightarrow> Inr (pl\<lparr>pl_params := deep_merge (pl_params pl) (copy_dict nested)\<rparr>)
                  | _ \<Rightarrow> Inr (pl\<lparr>pl_params := deep_merge (pl_params pl) [(key, deep_copy value)]\<rparr>))))"

fun apply_patch_dict ::
  "expansion_env \<Rightarrow> string list \<Rightarrow> string \<Rightarrow> string \<Rightarrow> dict \<Rightarrow> payload_dict \<Rightarrow> batch_error + payload_dict" where
  "apply_patch_dict env locked axis_name value_label [] pl = Inr pl"
| "apply_patch_dict env locked axis_name value_label (entry # patch) pl =
     and_then (apply_entry env locked axis_name value_label entry pl)
       (apply_patch_dict env locked axis_name value_label patch)"

section \<open>Building a request\<close>

definition axis_by_name :: "batch_spec \<Rightarrow> string \<Rightarrow> axis option" where
  "axis_by_name spec name = find (\<lambda>ax. ax_name ax = name) (bs_axes spec)"

definition value_patch :: "batch_spec \<Rightarrow> string \<times> string \<Rightarrow> dict option" where
  "value_patch spec choice =
     (case axis_by_name spec (fst choice) of
        None \<Rightarrow> None
      | Some ax \<Rightarrow> map_option av_patch (find (\<lambda>v. av_label v = snd choice) (ax_values ax)))"

definition axis_values_patch_seed :: "batch_spec \<Rightarrow> (string \<times> string) list \<Rightarrow> bool" where
  "axis_values_patch_seed spec axis_values =
     list_ex (\<lambda>choice. case value_patch spec choice of None \<Rightarrow> False | Some patch \<Rightarrow> ''seed'' \<in> fst ` set patch)
       axis_values"

definition resolve_seed :: "batch_spec \<Rightarrow> nat \<Rightarrow> int option" where
  "resolve_seed spec item_index =
     (if bs_seed_policy spec = ''shared'' then bs_seed spec
      else Some ((case bs_seed spec of None \<Rightarrow> 0 | Some s \<Rightarrow> s) + int item_index))"

definition text_field :: "string option \<Rightarrow> json" where
  "text_field t = (case t of None \<Rightarrow> JNull | Some s \<Rightarrow> JStr s)"

definition int_field :: "int option \<Rightarrow> json" where
  "int_field n = (case n of None \<Rightarrow> JNull | Some i \<Rightarrow> JInt i)"

definition base_payload :: "batch_spec \<Rightarrow> nat \<Rightarrow> int option \<Rightarrow> payload_dict" where
  "base_payload spec item_index inherited =
     \<lparr>pl_media_type = bs_media_type spec,
      pl_fields =
        [(''task_type'', text_field (bs_task_type spec)), (''prompt'', JStr (bs_prompt spec)),
         (''negative_prompt'', text_field (bs_negative_prompt spec)), (''model_id'', JStr (bs_model_id spec)),
         (''seed'', int_field (if inherited \<noteq> None then inherited else resolve_seed spec item_index)),
         (''output_format'', text_field (bs_output_format spec))],
      pl_params = copy_dict (bs_params spec)\<rparr>"

fun apply_axis_values ::
  "expansion_env \<Rightarrow> batch_spec \<Rightarrow> (string \<times> string) list \<Rightarrow> payload_dict \<times> dict \<Rightarrow> batch_error + payload_dict \<times> dict" where
  "apply_axis_values env spec [] state = Inr state"
| "apply_axis_values env spec (choice # choices) (pl, applied) =
     (case value_patch spec choice of
        None \<Rightarrow> apply_axis_values env spec choices (pl, applied)
      | Some patch \<Rightarrow>
          and_then (apply_patch_dict env (bs_locked_fields spec) (fst choice) (snd choice) patch pl)
            (\<lambda>pl'. apply_axis_values env spec choices
               (pl', dict_set (fst choice) (JObj (copy_dict patch)) applied)))"

definition final_params :: "batch_spec \<Rightarrow> stage \<Rightarrow> (string \<times> string) list \<Rightarrow> dict \<Rightarrow> dict \<Rightarrow> dict" where
  "final_params spec sg axis_values applied params =
     (let p1 = (if sg_param_overrides sg = [] then params
                else deep_merge params (copy_dict (sg_param_overrides sg)));
          p2 = (if bs_bible_refs spec = [] then p1
                else dict_set ''bible_refs'' (JArr (map JStr (bs_bible_refs spec))) p1);
          p3 = (if applied = [] then p2 else dict_set ''axis_values'' (JObj applied) p2);
          p4 = dict_set ''batch_axis_labels'' (JObj (map (\<lambda>(n, l). (n, JStr l)) axis_values)) p3
      in dict_set ''batch_stage'' (JStr (sg_name sg)) p4)"

text \<open>\<open>GenerationRequest(**payload)\<close>, field by field.\<close>

definition field_of :: "string \<Rightarrow> payload_dict \<Rightarrow> json" where
  "field_of key pl = (case map_of (pl_fields pl) key of None \<Rightarrow> JNull | Some j \<Rightarrow> j)"

definition optional_field :: "(json \<Rightarrow> 'a option) \<Rightarrow> json \<Rightarrow> 'a option option" where
  "optional_field f j = (if j = JNull then Some None else map_option Some (f j))"

definition accepted :: "'a option \<Rightarrow> batch_error + 'a" where
  "accepted x = (case x of None \<Rightarrow> Inl Request_invalid | Some y \<Rightarrow> Inr y)"

definition request_of_payload :: "expansion_env \<Rightarrow> payload_dict \<Rightarrow> batch_error + generation_request" where
  "request_of_payload env pl =
     and_then (accepted (optional_field (ee_text env) (field_of ''task_type'' pl))) (\<lambda>task.
     and_then (accepted (ee_text env (field_of ''prompt'' pl))) (\<lambda>prompt.
     and_then (accepted (optional_field (ee_text env) (field_of ''negative_prompt'' pl))) (\<lambda>negative.
     and_then (accepted (ee_text env (field_of ''model_id'' pl))) (\<lambda>model.
     and_then (accepted (optional_field (ee_int env) (field_of ''seed'' pl))) (\<lambda>seed.
     and_then (accepted (optional_field (ee_text env) (field_of ''output_format'' pl))) (\<lambda>format.
       Inr \<lparr>req_media_type = pl_media_type pl, req_task_type = task, req_prompt = prompt,
            req_negative_prompt = negative, req_model_id = model, req_seed = seed,
            req_output_format = format, req_params = pl_params pl, req_references = []\<rparr>))))))"

definition build_request ::
  "expansion_env \<Rightarrow> batch_spec \<Rightarrow> (string \<times> string) list \<Rightarrow> stage \<Rightarrow> nat \<Rightarrow> int option \<Rightarrow>
   batch_error + generation_request" where
  "build_request env spec axis_values sg item_index inherited =
     and_then (apply_axis_values env spec axis_values (base_payload spec item_index inherited, []))
       (\<lambda>(pl, applied).
          request_of_payload env (pl\<lparr>pl_params := final_params spec sg axis_values applied (pl_params pl)\<rparr>))"

section \<open>Combinations and items\<close>

text \<open>\<open>itertools.product\<close>: the first axis varies slowest, as in \<open>product_lists\<close>.\<close>

definition all_combinations :: "batch_spec \<Rightarrow> (string \<times> string) list list" where
  "all_combinations spec =
     product_lists (map (\<lambda>ax. map (\<lambda>v. (ax_name ax, av_label v)) (ax_values ax)) (bs_axes spec))"

definition sampled :: "expansion_env \<Rightarrow> batch_spec \<Rightarrow> batch_error + (string \<times> string) list list" where
  "sampled env spec =
     (let all_of = all_combinations spec in
      if bs_strategy spec \<noteq> ''sample'' then Inr all_of
      else
        (case bs_max_items spec of
           None \<Rightarrow> Inl No_max_items
         | Some n \<Rightarrow>
             if n < int (length all_of)
             then Inr (map (\<lambda>i. all_of ! i) (sort (ee_sample env (bs_sample_seed spec) (length all_of) (nat n))))
             else Inr all_of))"

definition combinations :: "expansion_env \<Rightarrow> batch_spec \<Rightarrow> batch_error + (string \<times> string) list list" where
  "combinations env spec =
     (if bs_axes spec = [] then Inr [[]]
      else
        and_then (sampled env spec)
          (\<lambda>chosen. if bs_limit spec < int (length chosen) then Inl (Over_limit (length chosen) (bs_limit spec))
             else Inr chosen))"

text \<open>\<open>dict(pairs)\<close>, in which a repeated key keeps its place and takes the last value.\<close>

definition dict_of_pairs :: "(string \<times> string) list \<Rightarrow> (string \<times> string) list" where
  "dict_of_pairs ps = fold (\<lambda>(k, v). AList.update k v) ps []"

text \<open>\<open>:03d\<close>.\<close>

definition pad3 :: "nat \<Rightarrow> string" where
  "pad3 n = replicate (3 - length (show_nat n)) (CHR ''0'') @ show_nat n"

fun join_text :: "string \<Rightarrow> string list \<Rightarrow> string" where
  "join_text sep [] = []"
| "join_text sep [w] = w"
| "join_text sep (w # ws) = w @ sep @ join_text sep ws"

definition build_label :: "(string \<times> string) list \<Rightarrow> nat \<Rightarrow> string" where
  "build_label axis_values position =
     (if axis_values = [] then ''item-'' @ pad3 position else join_text ''__'' (map snd axis_values))"

definition item_id :: "string \<Rightarrow> nat \<Rightarrow> nat \<Rightarrow> string" where
  "item_id prefix stage_index position = prefix @ ''_'' @ show_nat stage_index @ ''_'' @ pad3 position"

fun build_items ::
  "expansion_env \<Rightarrow> batch_spec \<Rightarrow> stage \<Rightarrow> nat \<Rightarrow> string \<Rightarrow> nat \<Rightarrow> ((string \<times> string) list \<times> int option) list \<Rightarrow>
   batch_error + batch_item list" where
  "build_items env spec sg stage_index prefix position [] = Inr []"
| "build_items env spec sg stage_index prefix position ((combination, inherited) # rest) =
     (let axis_values = dict_of_pairs combination in
      and_then (build_request env spec axis_values sg position inherited) (\<lambda>request.
      and_then (build_items env spec sg stage_index prefix (Suc position) rest) (\<lambda>items.
        Inr (new_item (item_id prefix stage_index position) position (build_label axis_values position)
               (sg_name sg) stage_index axis_values request # items))))"

definition item_key :: "batch_item \<Rightarrow> string \<times> nat" where
  "item_key item = (req_model_id (bi_request item), bi_index item)"

definition reseeds :: "batch_spec \<Rightarrow> batch_item list option \<Rightarrow> bool" where
  "reseeds spec seed_items \<longleftrightarrow> seed_items = None \<and> bs_seed_policy spec \<in> {''per_item'', ''sweep''}"

definition renumbered :: "batch_spec \<Rightarrow> bool \<Rightarrow> nat \<Rightarrow> batch_item \<Rightarrow> batch_item" where
  "renumbered spec reseed order item =
     (let item = item\<lparr>bi_index := order\<rparr> in
      if reseed \<and> \<not> axis_values_patch_seed spec (bi_axis_values item)
      then item\<lparr>bi_request := (bi_request item)\<lparr>req_seed := resolve_seed spec order\<rparr>\<rparr>
      else item)"

fun renumber_from :: "batch_spec \<Rightarrow> bool \<Rightarrow> nat \<Rightarrow> batch_item list \<Rightarrow> batch_item list" where
  "renumber_from spec reseed order [] = []"
| "renumber_from spec reseed order (item # items) =
     renumbered spec reseed order item # renumber_from spec reseed (Suc order) items"

definition expand_items ::
  "expansion_env \<Rightarrow> batch_spec \<Rightarrow> stage \<Rightarrow> nat \<Rightarrow> batch_item list option \<Rightarrow> string \<Rightarrow> batch_error + batch_item list" where
  "expand_items env spec sg stage_index seed_items prefix =
     and_then
       (case seed_items of
          None \<Rightarrow> and_then (combinations env spec) (\<lambda>cs. Inr (map (\<lambda>c. (c, None)) cs))
        | Some items \<Rightarrow> Inr (map (\<lambda>item. (bi_axis_values item, req_seed (bi_request item))) items))
       (\<lambda>sources. and_then (build_items env spec sg stage_index prefix 0 sources)
          (\<lambda>items. Inr (renumber_from spec (reseeds spec seed_items) 0 (sort_key item_key items))))"

end
