(* ===== verification/Batch_Service.thy ===== *)
theory Batch_Service imports Batch_Rules Batch_Expansion begin

text \<open>
  \<open>BatchService\<close> of \<open>core/batches/service.py\<close>: creating a batch's children, tracking them,
  advancing stages, cancelling.

  The job service and the expansion's library functions are the fields of \<open>batch_service\<close>. A
  closure that the code passes to \<open>BatchRepository.mutate\<close> is a program of its own; it runs while
  the lock is held. The random part of an id is the world's next fresh id.
\<close>

section \<open>Scores and the aggregate\<close>

text \<open>
  \<open>_extract_score\<close>. A boolean is an integer to Python; an integer beyond the floats does not
  convert.
\<close>

definition extract_score :: "dict \<Rightarrow> exn + rat option" where
  "extract_score metadata =
     (case map_of metadata ''quality_report'' of
        Some (JObj report) \<Rightarrow>
          (case map_of report ''quality_score'' of
             Some (JFloat x) \<Rightarrow> Inr (Some x)
           | Some (JInt n) \<Rightarrow> if float_overflow n then Inl Overflow_error else Inr (Some (fl (of_int n)))
           | Some (JBool b) \<Rightarrow> Inr (Some (if b then 1 else 0))
           | _ \<Rightarrow> Inr None)
      | _ \<Rightarrow> Inr None)"

text \<open>\<open>round(x, 2)\<close>: the nearest hundredth of the exact value, ties to even, as a float.\<close>

definition round_cents :: "rat \<Rightarrow> rat" where
  "round_cents x = fl (of_int (half_even (x * 100)) / 100)"

definition average_score :: "rat list \<Rightarrow> rat option" where
  "average_score scores =
     (if scores = [] then None
      else Some (round_cents (fl (foldl fadd 0 scores / of_nat (length scores)))))"

text \<open>\<open>max\<close> by score, then by the lower index; the first of equals stays.\<close>

definition beats :: "batch_item \<Rightarrow> batch_item \<Rightarrow> bool" where
  "beats i j \<longleftrightarrow>
     (case (bi_score i, bi_score j) of
        (Some s, Some t) \<Rightarrow> t < s \<or> (s = t \<and> bi_index i < bi_index j)
      | _ \<Rightarrow> False)"

fun best_item :: "batch_item list \<Rightarrow> batch_item option" where
  "best_item [] = None"
| "best_item (item # items) =
     Some (foldl (\<lambda>best i. if beats i best then i else best) item items)"

definition count_status :: "string \<Rightarrow> batch_item list \<Rightarrow> nat" where
  "count_status status items = length (filter (\<lambda>item. bi_status item = status) items)"

definition build_aggregate :: "batch_item list \<Rightarrow> batch_aggregate" where
  "build_aggregate items =
     \<lparr>ag_total = length items,
      ag_pending = count_status ITEM_STATUS_PENDING items,
      ag_running = length (filter (\<lambda>i. \<not> item_terminal i \<and> bi_status i \<noteq> ITEM_STATUS_PENDING) items),
      ag_succeeded = count_status (status_text Succeeded) items,
      ag_failed = count_status (status_text Failed) items,
      ag_cancelled = count_status (status_text Cancelled) items,
      ag_average_score = average_score (List.map_filter bi_score items),
      ag_best_item_id = map_option bi_id (best_item (filter (\<lambda>i. bi_score i \<noteq> None) items))\<rparr>"

definition derive_status :: "batch_record \<Rightarrow> string" where
  "derive_status record =
     (if br_advance_error record \<noteq> None then BATCH_STATUS_FAILED
      else if br_items record = [] then BATCH_STATUS_QUEUED
      else
        (let aggregate = br_aggregate record;
             has_further_stage = br_stage_index record + 1 < length (resolved_stages (br_spec record)) in
         if \<not> list_all item_terminal (br_items record) then
           (if ag_pending aggregate = ag_total aggregate then BATCH_STATUS_QUEUED else BATCH_STATUS_RUNNING)
         else if has_further_stage \<and> ag_succeeded aggregate \<noteq> 0 \<and> \<not> br_cancellation_requested record then
           BATCH_STATUS_RUNNING
         else if ag_succeeded aggregate = ag_total aggregate then
           (if has_further_stage \<and> br_cancellation_requested record then BATCH_STATUS_CANCELLED
            else BATCH_STATUS_SUCCEEDED)
         else if ag_succeeded aggregate \<noteq> 0 then BATCH_STATUS_PARTIAL
         else if ag_cancelled aggregate \<noteq> 0 then BATCH_STATUS_CANCELLED
         else BATCH_STATUS_FAILED))"

section \<open>Winners\<close>

text \<open>\<open>_axis_key\<close>.\<close>

definition axis_key :: "(string \<times> string) list \<Rightarrow> (string \<times> string) list" where
  "axis_key axis_values = sort axis_values"

definition rank_key :: "batch_item \<Rightarrow> rat \<times> nat" where
  "rank_key item = (- (case bi_score item of None \<Rightarrow> -1 | Some s \<Rightarrow> s), bi_index item)"

text \<open>\<open>xs[:n]\<close>.\<close>

definition py_take :: "int \<Rightarrow> 'a list \<Rightarrow> 'a list" where
  "py_take n xs = (if 0 \<le> n then take (nat n) xs else take (length xs - nat (- n)) xs)"

definition rank_winners :: "int option \<Rightarrow> batch_item list \<Rightarrow> batch_item list" where
  "rank_winners keep_top_n items =
     (let ranked = sort_key rank_key (filter (\<lambda>item. bi_status item = status_text Succeeded) items) in
      case keep_top_n of None \<Rightarrow> ranked | Some n \<Rightarrow> py_take n ranked)"

definition relabelled :: "batch_item list \<Rightarrow> stage \<Rightarrow> batch_item \<Rightarrow> batch_item" where
  "relabelled winners next_stage item =
     (case map_of (rev (map (\<lambda>w. (axis_key (bi_axis_values w), w)) winners)) (axis_key (bi_axis_values item)) of
        Some winner \<Rightarrow> item\<lparr>bi_label := bi_label winner @ ''__'' @ sg_name next_stage\<rparr>
      | None \<Rightarrow> item\<lparr>bi_label := bi_label item @ ''__'' @ sg_name next_stage\<rparr>)"

section \<open>The service\<close>

definition resolve_max_items_limit :: "int option \<Rightarrow> string \<Rightarrow> int" where
  "resolve_max_items_limit configured environment =
     (case configured of
        Some n \<Rightarrow> max 1 n
      | None \<Rightarrow>
          (let raw_value = py_strip environment in
           if raw_value = [] then DEFAULT_ITEM_LIMIT
           else (case py_int raw_value of Some n \<Rightarrow> max 1 n | None \<Rightarrow> DEFAULT_ITEM_LIMIT)))"

record 'y batch_service =
  bt_jobs :: "'y batch_world_ext service"
  bt_expansion :: expansion_env
  bt_max_items_limit :: int

definition MATERIALIZATION_FAILURE_PREFIX :: string where
  "MATERIALIZATION_FAILURE_PREFIX = ''Stage materialization failed (resumable): ''"

definition STARTUP_BATCH_SCAN_MAX_ATTEMPTS :: nat where
  "STARTUP_BATCH_SCAN_MAX_ATTEMPTS = 3"

text \<open>\<open>UnsupportedReferenceError\<close> and \<open>MissingReferenceAssetError\<close>; and \<open>ValueError\<close>, of which they are.\<close>

fun is_reference_refusal :: "exn \<Rightarrow> bool" where
  "is_reference_refusal (Reference_rejected (Ref_steps_overflow n)) = False"
| "is_reference_refusal (Reference_rejected e) = True"
| "is_reference_refusal _ = False"

fun is_value_error :: "exn \<Rightarrow> bool" where
  "is_value_error (Value_error s) = True"
| "is_value_error (Lane_error e) = True"
| "is_value_error (Queue_error e) = True"
| "is_value_error e = is_reference_refusal e"

definition mint_uuid :: "('y, string) batch_op" where
  "mint_uuid = (\<lambda>w. (Inr (bw_uuids w (bw_minted w)), w\<lparr>bw_minted := Suc (bw_minted w)\<rparr>))"

text \<open>\<open>None\<close> is a row that cannot be decoded.\<close>

definition get_or_poison :: "string \<Rightarrow> ('y, job_record option option) batch_op" where
  "get_or_poison job_id =
     catch (bnd (repo_get job_id) (\<lambda>job. ret (Some job)))
       (\<lambda>e. if is_decode_error e then ret None else raise e)"

section \<open>Recomputing a record\<close>

definition first_nonempty :: "string list \<Rightarrow> string option" where
  "first_nonempty texts = find (\<lambda>t. t \<noteq> []) texts"

definition reflect_result :: "generation_result \<Rightarrow> batch_item \<Rightarrow> exn + batch_item" where
  "reflect_result result item =
     (let output = first_nonempty (res_outputs result) in
      and_then (extract_score (res_metadata result)) (\<lambda>score.
        Inr (item\<lparr>bi_output_path := output,
                  bi_preview_path := (case first_nonempty (res_previews result) of Some p \<Rightarrow> Some p | None \<Rightarrow> output),
                  bi_score := score\<rparr>)))"

definition reflect_job :: "job_record \<Rightarrow> batch_item \<Rightarrow> exn + batch_item" where
  "reflect_job job item =
     (let item = item\<lparr>bi_status := status_text (jr_status job), bi_error_message := jr_error_message job\<rparr> in
      case jr_result job of None \<Rightarrow> Inr item | Some result \<Rightarrow> reflect_result result item)"

definition quarantined_message :: "job_status \<Rightarrow> string" where
  "quarantined_message s =
     ''Job row could not be decoded (quarantined); raw status is '' @ quoted (status_text s) @ ''.''"

definition reflect_poison :: "string \<Rightarrow> batch_item \<Rightarrow> ('y, batch_item) batch_op" where
  "reflect_poison job_id item =
     bnd (repo_get_raw_status job_id) (\<lambda>raw.
       case raw of
         Some (Known s) \<Rightarrow>
           if s \<in> {Failed, Cancelled} then
             bnd (repo_get_raw_error_message job_id) (\<lambda>message.
               ret (item\<lparr>bi_status := status_text s,
                         bi_error_message := Some (case message of Some m \<Rightarrow> m | None \<Rightarrow> quarantined_message s)\<rparr>))
           else ret item
       | _ \<Rightarrow> ret item)"

definition recompute_item :: "batch_item \<Rightarrow> ('y, batch_item) batch_op" where
  "recompute_item item =
     (case bi_job_id item of
        None \<Rightarrow> ret item
      | Some job_id \<Rightarrow>
          bnd (get_or_poison job_id) (\<lambda>found.
            case found of
              None \<Rightarrow> reflect_poison job_id item
            | Some None \<Rightarrow> ret item
            | Some (Some job) \<Rightarrow> lift_result (reflect_job job item)))"

definition rederived :: "batch_record \<Rightarrow> batch_item list \<Rightarrow> batch_record" where
  "rederived record items =
     (let counted = record\<lparr>br_items := items, br_aggregate := build_aggregate items\<rparr> in
      counted\<lparr>br_status := derive_status counted\<rparr>)"

definition recompute :: "batch_record \<Rightarrow> ('y, batch_record) batch_op" where
  "recompute record = bnd (collect recompute_item (br_items record)) (\<lambda>items. ret (rederived record items))"

text \<open>A closure on the record that is there.\<close>

definition when_present ::
  "(batch_record \<Rightarrow> ('y, batch_record) batch_op) \<Rightarrow> batch_record option \<Rightarrow> ('y, batch_record option) batch_op" where
  "when_present f record = (case record of None \<Rightarrow> ret None | Some r \<Rightarrow> bnd (f r) (\<lambda>r'. ret (Some r')))"

definition batch_reconcile :: "string \<Rightarrow> ('y, batch_record option) batch_op" where
  "batch_reconcile batch_id = batch_mutate batch_id (when_present recompute)"

section \<open>Materializing a stage\<close>

definition assign_id :: "nat \<Rightarrow> batch_item \<Rightarrow> ('y, batch_item) batch_op" where
  "assign_id stage_index item =
     (if bi_stage_index item \<noteq> stage_index \<or> bi_job_id item \<noteq> None then ret item
      else if item_terminal item then ret item
      else bnd mint_uuid (\<lambda>uuid. ret (item\<lparr>bi_job_id := Some (''job_'' @ uuid)\<rparr>)))"

definition assign_ids :: "nat \<Rightarrow> batch_record \<Rightarrow> ('y, batch_record) batch_op" where
  "assign_ids stage_index record =
     (if br_cancellation_requested record then ret record
      else bnd (collect (assign_id stage_index) (br_items record)) (\<lambda>items. ret (record\<lparr>br_items := items\<rparr>)))"

datatype batch_exposure =
  Expose_enqueued | Expose_not_queued | Expose_cancelled | Expose_absent | Expose_unreadable

definition authorize_and_expose ::
  "'y batch_service \<Rightarrow> string \<Rightarrow> string \<Rightarrow> job_status \<Rightarrow> ('y, batch_exposure) batch_op" where
  "authorize_and_expose bt batch_id job_id job_status =
     exclusively (bnd (batch_get_or_diagnose batch_id) (\<lambda>(record, uncertain).
       case record of
         None \<Rightarrow> ret (if uncertain then Expose_unreadable else Expose_absent)
       | Some r \<Rightarrow>
           if br_cancellation_requested r then ret Expose_cancelled
           else if job_status \<noteq> Queued then ret Expose_not_queued
           else bnd (service_enqueue_job (bt_jobs bt) job_id) (\<lambda>_. ret Expose_enqueued)))"

text \<open>The row of an item's stable id; none where it cannot be decoded.\<close>

definition materialize_row ::
  "'y batch_service \<Rightarrow> string \<Rightarrow> generation_request \<Rightarrow> string option \<Rightarrow> ('y, job_record option) batch_op" where
  "materialize_row bt job_id request project_id =
     catch (bnd (service_create_or_reuse_job_without_enqueue (bt_jobs bt) job_id request project_id)
              (\<lambda>(created, was_created). ret (Some created)))
       (\<lambda>e. if is_decode_error e then ret None else raise e)"

datatype stage_progress = Stage_completed | Stage_settled | Stage_ambiguous

fun materialize_items ::
  "'y batch_service \<Rightarrow> string \<Rightarrow> string option \<Rightarrow> batch_item list \<Rightarrow> ('y, stage_progress) batch_op" where
  "materialize_items bt batch_id project_id [] = ret Stage_completed"
| "materialize_items bt batch_id project_id (item # items) =
     (case bi_job_id item of
        None \<Rightarrow> materialize_items bt batch_id project_id items
      | Some job_id \<Rightarrow>
          if item_terminal item then materialize_items bt batch_id project_id items
          else
            bnd (batch_get batch_id) (\<lambda>current.
              case current of
                None \<Rightarrow> ret Stage_ambiguous
              | Some c \<Rightarrow>
                  if br_cancellation_requested c then ret Stage_settled
                  else
                    bnd (materialize_row bt job_id (bi_request item) project_id) (\<lambda>row.
                      case row of
                        None \<Rightarrow> materialize_items bt batch_id project_id items
                      | Some created \<Rightarrow>
                          bnd (authorize_and_expose bt batch_id (jr_id created) (jr_status created)) (\<lambda>decision.
                            if decision \<in> {Expose_cancelled, Expose_absent} then
                              bnd (if is_terminal_status (jr_status created) then ret None
                                   else service_cancel_job (bt_jobs bt) (jr_id created)) (\<lambda>_. ret Stage_settled)
                            else if decision = Expose_unreadable then ret Stage_ambiguous
                            else materialize_items bt batch_id project_id items))))"

definition clear_if_marked :: "batch_record \<Rightarrow> batch_record" where
  "clear_if_marked record =
     (case br_advance_error record of
        None \<Rightarrow> record
      | Some e \<Rightarrow>
          if take (length MATERIALIZATION_FAILURE_PREFIX) e = MATERIALIZATION_FAILURE_PREFIX
          then record\<lparr>br_advance_error := None\<rparr> else record)"

definition clear_stale_materialization_failure :: "string \<Rightarrow> ('y, unit) batch_op" where
  "clear_stale_materialization_failure batch_id =
     bnd (batch_mutate batch_id (when_present (\<lambda>r. ret (clear_if_marked r)))) (\<lambda>_. ret ())"

definition enqueue_stage :: "'y batch_service \<Rightarrow> string \<Rightarrow> nat \<Rightarrow> ('y, batch_record option) batch_op" where
  "enqueue_stage bt batch_id stage_index =
     bnd (batch_mutate batch_id (when_present (assign_ids stage_index))) (\<lambda>assigned.
       case assigned of
         None \<Rightarrow> ret None
       | Some record \<Rightarrow>
           if br_cancellation_requested record then ret (Some record)
           else
             bnd (materialize_items bt batch_id (bs_project_id (br_spec record)) (items_for_stage record stage_index)) (\<lambda>progress.
             bnd (if progress = Stage_completed then clear_stale_materialization_failure batch_id else ret ()) (\<lambda>_.
             bnd (batch_reconcile batch_id) (\<lambda>reconciled.
               ret (if progress = Stage_ambiguous then None else reconciled)))))"

end
