(* ===== verification/Batch_Control.thy ===== *)
theory Batch_Control imports Batch_Service begin

text \<open>
  The rest of \<open>core/batches/service.py\<close>: stage transitions, cancellation and its resumption, the
  startup passes over all batches, creation, and what reacts to a job's end.
\<close>

section \<open>Stage transitions\<close>

definition batch_result :: "batch_error + 'a \<Rightarrow> exn + 'a" where
  "batch_result r = (case r of Inl _ \<Rightarrow> Inl (Value_error ''invalid batch'') | Inr x \<Rightarrow> Inr x)"

definition expanded ::
  "'y batch_service \<Rightarrow> batch_spec \<Rightarrow> stage \<Rightarrow> nat \<Rightarrow> batch_item list option \<Rightarrow> string \<Rightarrow> ('y, batch_item list) batch_op" where
  "expanded bt spec sg stage_index seed_items batch_id =
     bnd (lift_result (batch_result
            (expand_items (bt_expansion bt) spec sg stage_index seed_items (batch_id @ ''_item'')))) (\<lambda>items.
     bnd (for_each (\<lambda>item. check_references (bt_jobs bt) (bi_request item) (bs_project_id spec)) items) (\<lambda>_.
       ret items))"

definition current_winners :: "batch_record \<Rightarrow> batch_item list" where
  "current_winners record =
     rank_winners (sg_keep_top_n (resolved_stages (br_spec record) ! br_stage_index record))
       (items_for_stage record (br_stage_index record))"

definition try_advance_in_place :: "'y batch_service \<Rightarrow> batch_record \<Rightarrow> ('y, batch_record) batch_op" where
  "try_advance_in_place bt record =
     (let stages = resolved_stages (br_spec record); next_index = br_stage_index record + 1 in
      if length stages \<le> next_index then ret record
      else if br_cancellation_requested record then ret record
      else if \<not> list_all item_terminal (items_for_stage record (br_stage_index record)) then ret record
      else if current_winners record = [] then ret record
      else
        bnd (expanded bt (br_spec record) (stages ! next_index) next_index (Some (current_winners record)) (br_id record)) (\<lambda>new_items.
          ret (record\<lparr>br_advance_error := None,
                      br_items := br_items record @ map (relabelled (current_winners record) (stages ! next_index)) new_items,
                      br_stage_index := next_index\<rparr>)))"

definition recompute_and_advance_raising :: "'y batch_service \<Rightarrow> batch_record \<Rightarrow> ('y, batch_record) batch_op" where
  "recompute_and_advance_raising bt record = bnd (recompute record) (try_advance_in_place bt)"

definition recompute_and_advance_capturing :: "'y batch_service \<Rightarrow> batch_record \<Rightarrow> ('y, batch_record) batch_op" where
  "recompute_and_advance_capturing bt record =
     bnd (recompute record) (\<lambda>r.
       catch (try_advance_in_place bt r) (\<lambda>e.
         if is_reference_refusal e
         then ret (r\<lparr>br_advance_error := Some (exn_text e), br_status := BATCH_STATUS_FAILED\<rparr>)
         else raise e))"

definition batch_advance :: "'y batch_service \<Rightarrow> string \<Rightarrow> ('y, batch_record option) batch_op" where
  "batch_advance bt batch_id =
     bnd (batch_mutate batch_id (when_present (recompute_and_advance_raising bt))) (\<lambda>advanced.
       case advanced of
         None \<Rightarrow> ret None
       | Some record \<Rightarrow>
           bnd (enqueue_stage bt (br_id record) (br_stage_index record)) (\<lambda>enqueued.
             if enqueued = None then
               bnd (batch_get_or_diagnose (br_id record)) (\<lambda>(still_exists, uncertain).
                 if still_exists = None \<and> \<not> uncertain then ret None
                 else raise (Stage_incomplete (br_id record)))
             else batch_reconcile batch_id))"

section \<open>What reacts to a job's end\<close>

datatype reconciliation_outcome = No_parent | Reconciled | Reconcile_later

definition reconcile_child_job ::
  "'y batch_service \<Rightarrow> string \<Rightarrow> ('y, batch_record option \<times> reconciliation_outcome) batch_op" where
  "reconcile_child_job bt job_id =
     bnd (batch_mutate_by_job_id_diagnosed job_id (when_present (recompute_and_advance_capturing bt)))
       (\<lambda>(refreshed, uncertain).
       case refreshed of
         None \<Rightarrow> ret (None, if uncertain then Reconcile_later else No_parent)
       | Some record \<Rightarrow>
           bnd (enqueue_stage bt (br_id record) (br_stage_index record)) (\<lambda>enqueued.
             case enqueued of
               Some r \<Rightarrow> ret (Some r, Reconciled)
             | None \<Rightarrow>
                 bnd (batch_get_or_diagnose (br_id record)) (\<lambda>(still_exists, still_uncertain).
                   ret (None, if still_exists = None \<and> \<not> still_uncertain then No_parent else Reconcile_later))))"

definition batch_handle_job_event :: "'y batch_service \<Rightarrow> job_event \<Rightarrow> ('y, unit) batch_op" where
  "batch_handle_job_event bt event =
     (if ev_type event \<notin> set TERMINAL_JOB_EVENT_TYPES then ret ()
      else (case map_of (ev_payload event) ''job_id'' of
              Some (JStr job_id) \<Rightarrow> bnd (attempt (reconcile_child_job bt job_id)) (\<lambda>_. ret ())
            | _ \<Rightarrow> ret ()))"

section \<open>Cancellation\<close>

definition UNDECODABLE_CANCEL_REASON :: string where
  "UNDECODABLE_CANCEL_REASON = ''Batch cancellation requested while this row was undecodable.''"

definition cancelled_item :: "batch_item \<Rightarrow> batch_item" where
  "cancelled_item item = item\<lparr>bi_status := status_text Cancelled\<rparr>"

definition cancel_intent_item :: "batch_item \<Rightarrow> ('y, batch_item) batch_op" where
  "cancel_intent_item item =
     (if bi_status item = status_text Cancelled then ret item
      else
        (case bi_job_id item of
           None \<Rightarrow> ret (cancelled_item item)
         | Some job_id \<Rightarrow>
             if item_terminal item then ret item
             else
               bnd (get_or_poison job_id) (\<lambda>found.
                 case found of
                   None \<Rightarrow>
                     bnd (repo_transition_if_status job_id [Queued] Cancelled (Some 1) (Some (Some UNDECODABLE_CANCEL_REASON)))
                       (\<lambda>ok. ret (if ok then cancelled_item item else item))
                 | Some None \<Rightarrow> ret (cancelled_item item)
                 | Some (Some _) \<Rightarrow> ret item)))"

definition apply_cancellation_intent :: "batch_record \<Rightarrow> ('y, batch_record) batch_op" where
  "apply_cancellation_intent record =
     bnd (collect cancel_intent_item (br_items record)) (\<lambda>items.
       ret (record\<lparr>br_cancellation_requested := True, br_items := items\<rparr>))"

definition signal_child_cancel :: "'y batch_service \<Rightarrow> batch_item \<Rightarrow> ('y, unit) batch_op" where
  "signal_child_cancel bt item =
     (case bi_job_id item of
        None \<Rightarrow> ret ()
      | Some job_id \<Rightarrow>
          if item_terminal item then ret ()
          else catch (bnd (service_cancel_job (bt_jobs bt) job_id) (\<lambda>_. ret ()))
                 (\<lambda>e. if is_decode_error e then ret () else raise e))"

definition batch_cancel :: "'y batch_service \<Rightarrow> string \<Rightarrow> ('y, batch_record option) batch_op" where
  "batch_cancel bt batch_id =
     bnd (batch_mutate batch_id (when_present apply_cancellation_intent)) (\<lambda>intended.
       case intended of
         None \<Rightarrow> ret None
       | Some record \<Rightarrow>
           bnd (for_each (signal_child_cancel bt) (br_items record)) (\<lambda>_. batch_reconcile batch_id))"

text \<open>The refreshed batches, and whether every intent that is on disk was applied again.\<close>

fun resume_cancelling :: "'y batch_service \<Rightarrow> batch_record list \<Rightarrow> ('y, batch_record list \<times> bool) batch_op" where
  "resume_cancelling bt [] = ret ([], True)"
| "resume_cancelling bt (record # records) =
     (if \<not> br_cancellation_requested record then resume_cancelling bt records
      else
        bnd (batch_cancel bt (br_id record)) (\<lambda>refreshed.
          case refreshed of
            Some r \<Rightarrow>
              bnd (resume_cancelling bt records) (\<lambda>(resumed, reliable). ret (r # resumed, reliable))
          | None \<Rightarrow>
              bnd (batch_get_or_diagnose (br_id record)) (\<lambda>(still_exists, uncertain).
              bnd (resume_cancelling bt records) (\<lambda>(resumed, reliable).
                ret (resumed, reliable \<and> still_exists = None \<and> \<not> uncertain)))))"

definition resume_pending_cancellations :: "'y batch_service \<Rightarrow> ('y, batch_record list \<times> bool) batch_op" where
  "resume_pending_cancellations bt =
     bnd (batch_list_all_tolerant None) (\<lambda>(records, malformed, scan_reliable).
     bnd (resume_cancelling bt records) (\<lambda>(resumed, applied).
       ret (resumed, scan_reliable \<and> malformed = [] \<and> applied)))"

section \<open>Resuming stages at startup\<close>

definition materialization_failed :: "exn \<Rightarrow> batch_record \<Rightarrow> batch_record" where
  "materialization_failed e record =
     record\<lparr>br_advance_error := Some (MATERIALIZATION_FAILURE_PREFIX @ exn_text e),
            br_status := BATCH_STATUS_FAILED\<rparr>"

definition persist_stage_materialization_failure :: "string \<Rightarrow> exn \<Rightarrow> ('y, unit) batch_op" where
  "persist_stage_materialization_failure batch_id e =
     bnd (batch_mutate batch_id (when_present (\<lambda>r. ret (materialization_failed e r)))) (\<lambda>_. ret ())"

datatype resume_verdict = Resumed batch_record | Resume_settled | Resume_unresolved

definition resume_one :: "'y batch_service \<Rightarrow> batch_record \<Rightarrow> ('y, resume_verdict) batch_op" where
  "resume_one bt record =
     bnd (attempt (enqueue_stage bt (br_id record) (br_stage_index record))) (\<lambda>result.
       case result of
         Inl e \<Rightarrow>
           if is_value_error e
           then bnd (persist_stage_materialization_failure (br_id record) e) (\<lambda>_. ret Resume_settled)
           else ret Resume_unresolved
       | Inr (Some refreshed) \<Rightarrow> ret (Resumed refreshed)
       | Inr None \<Rightarrow>
           bnd (batch_get_or_diagnose (br_id record)) (\<lambda>(still_exists, uncertain).
             ret (case still_exists of
                    None \<Rightarrow> if uncertain then Resume_unresolved else Resume_settled
                  | Some s \<Rightarrow> if br_cancellation_requested s then Resume_settled else Resume_unresolved)))"

text \<open>One attempt: what was resumed, the ids processed so far, whether something is unresolved.\<close>

fun resume_records ::
  "'y batch_service \<Rightarrow> string list \<Rightarrow> batch_record list \<Rightarrow> ('y, batch_record list \<times> string list \<times> bool) batch_op" where
  "resume_records bt processed [] = ret ([], processed, False)"
| "resume_records bt processed (record # records) =
     (if br_id record \<in> set processed then resume_records bt processed records
      else
        bnd (resume_one bt record) (\<lambda>verdict.
          case verdict of
            Resumed r \<Rightarrow>
              bnd (resume_records bt (br_id record # processed) records) (\<lambda>(resumed, processed', unresolved).
                ret (r # resumed, processed', unresolved))
          | Resume_settled \<Rightarrow> resume_records bt (br_id record # processed) records
          | Resume_unresolved \<Rightarrow>
              bnd (resume_records bt processed records) (\<lambda>(resumed, processed', unresolved).
                ret (resumed, processed', True))))"

fun resume_attempts :: "'y batch_service \<Rightarrow> nat \<Rightarrow> string list \<Rightarrow> ('y, batch_record list) batch_op" where
  "resume_attempts bt 0 processed = ret []"
| "resume_attempts bt (Suc n) processed =
     bnd (batch_list_all_tolerant None) (\<lambda>(records, malformed, reliable).
     bnd (resume_records bt processed records) (\<lambda>(resumed, processed', unresolved).
       if reliable \<and> \<not> unresolved then ret resumed
       else bnd (resume_attempts bt n processed') (\<lambda>more. ret (resumed @ more))))"

definition resume_current_stage_for_all_batches :: "'y batch_service \<Rightarrow> ('y, batch_record list) batch_op" where
  "resume_current_stage_for_all_batches bt = resume_attempts bt STARTUP_BATCH_SCAN_MAX_ATTEMPTS []"

section \<open>Reads\<close>

definition batch_or :: "batch_record \<Rightarrow> batch_record option \<Rightarrow> batch_record" where
  "batch_or record r = (case r of Some x \<Rightarrow> x | None \<Rightarrow> record)"

definition list_batches :: "string option \<Rightarrow> nat option \<Rightarrow> ('y, batch_record list) batch_op" where
  "list_batches project_id limit =
     bnd (batch_list_all project_id limit)
       (collect (\<lambda>record. bnd (batch_reconcile (br_id record)) (\<lambda>r. ret (batch_or record r))))"

definition reconcile_tolerant :: "batch_record \<Rightarrow> ('y, batch_record \<times> bool) batch_op" where
  "reconcile_tolerant record =
     bnd (attempt (batch_reconcile (br_id record))) (\<lambda>r.
       ret (case r of Inl e \<Rightarrow> (record, False) | Inr x \<Rightarrow> (batch_or record x, True)))"

definition list_batches_tolerant :: "string option \<Rightarrow> ('y, batch_record list \<times> bool) batch_op" where
  "list_batches_tolerant project_id =
     bnd (batch_list_all_tolerant project_id) (\<lambda>(records, malformed, scan_reliable).
     bnd (collect reconcile_tolerant records) (\<lambda>results.
       ret (map fst results, scan_reliable \<and> list_all snd results)))"

definition build_job_ownership_index :: "('y, ownership) batch_op" where
  "build_job_ownership_index =
     bnd (batch_list_all_tolerant None) (\<lambda>(records, malformed, scan_reliable).
       ret (List.map_filter bi_job_id (concat (map br_items records)), scan_reliable \<and> malformed = []))"

section \<open>Creation and promotion\<close>

text \<open>
  What a creation that got as far as saving the batch ends with: the record, a permanent refusal
  with the id of the batch that exists all the same, or the report that its children could not be
  confirmed with the best known record. An exception before that is the operation's own.
\<close>

datatype create_outcome =
  Batch_created batch_record
| Batch_refused exn string
| Batch_incomplete string batch_record

fun create_attempts ::
  "'y batch_service \<Rightarrow> string \<Rightarrow> nat \<Rightarrow> batch_record \<Rightarrow> ('y, create_outcome) batch_op" where
  "create_attempts bt batch_id 0 latest =
     bnd (batch_get batch_id) (\<lambda>known. ret (Batch_incomplete batch_id (batch_or latest known)))"
| "create_attempts bt batch_id (Suc n) latest =
     bnd (attempt (enqueue_stage bt batch_id 0)) (\<lambda>result.
       case result of
         Inr (Some enqueued) \<Rightarrow> ret (Batch_created enqueued)
       | Inr None \<Rightarrow> bnd (batch_get batch_id) (\<lambda>known. create_attempts bt batch_id n (batch_or latest known))
       | Inl e \<Rightarrow>
           if is_value_error e then ret (Batch_refused e batch_id)
           else bnd (batch_get batch_id) (\<lambda>known. create_attempts bt batch_id n (batch_or latest known)))"

definition empty_aggregate :: "nat \<Rightarrow> batch_aggregate" where
  "empty_aggregate n =
     \<lparr>ag_total = n, ag_pending = n, ag_running = 0, ag_succeeded = 0, ag_failed = 0, ag_cancelled = 0,
      ag_average_score = None, ag_best_item_id = None\<rparr>"

definition new_batch :: "string \<Rightarrow> batch_spec \<Rightarrow> batch_item list \<Rightarrow> string \<Rightarrow> batch_record" where
  "new_batch batch_id spec items now =
     \<lparr>br_id = batch_id, br_spec = spec, br_status = BATCH_STATUS_QUEUED, br_stage_index = 0, br_items = items,
      br_aggregate = empty_aggregate (length items), br_advance_error = None, br_cancellation_requested = False,
      br_created_at = now, br_updated_at = now\<rparr>"

definition create_batch :: "'y batch_service \<Rightarrow> batch_spec \<Rightarrow> ('y, create_outcome) batch_op" where
  "create_batch bt spec =
     (let effective = (if bt_max_items_limit bt < bs_limit spec then spec\<lparr>bs_limit := bt_max_items_limit bt\<rparr> else spec) in
      bnd mint_uuid (\<lambda>uuid.
      bnd (expanded bt effective (hd (resolved_stages effective)) 0 None (''batch_'' @ uuid)) (\<lambda>items.
      bnd read_now (\<lambda>now.
      bnd (batch_create (new_batch (''batch_'' @ uuid) effective items now)) (\<lambda>record.
        create_attempts bt (br_id record) STARTUP_BATCH_SCAN_MAX_ATTEMPTS record)))))"

text \<open>The first item of that id is the one that is promoted.\<close>

fun promote_first :: "string \<Rightarrow> batch_item list \<Rightarrow> batch_item list option" where
  "promote_first chosen [] = None"
| "promote_first chosen (item # items) =
     (if bi_id item = chosen then Some (item\<lparr>bi_promoted := True\<rparr> # items)
      else map_option ((#) item) (promote_first chosen items))"

definition mark_promoted_and_recompute :: "string \<Rightarrow> batch_record \<Rightarrow> ('y, batch_record) batch_op" where
  "mark_promoted_and_recompute chosen record =
     (case promote_first chosen (br_items record) of
        None \<Rightarrow> raise (Lookup_error (''Unknown batch item: '' @ chosen))
      | Some items \<Rightarrow> recompute (record\<lparr>br_items := items\<rparr>))"

definition batch_promote :: "string \<Rightarrow> string \<Rightarrow> ('y, batch_record option) batch_op" where
  "batch_promote batch_id chosen = batch_mutate batch_id (when_present (mark_promoted_and_recompute chosen))"

section \<open>The service as the recovery passes see it\<close>

definition batch_service_port :: "'y batch_service \<Rightarrow> 'y batch_world_ext batch_port" where
  "batch_service_port bt =
     \<lparr>bp_find_owner = (\<lambda>job_id. bnd (batch_find_by_job_id_or_diagnose job_id)
        (\<lambda>(owner, uncertain). ret (map_option br_cancellation_requested owner, uncertain))),
      bp_reconcile_child = (\<lambda>job_id. bnd (reconcile_child_job bt job_id) (\<lambda>(_, outcome). ret (outcome = Reconcile_later))),
      bp_ownership_index = build_job_ownership_index,
      bp_resume_cancellations = bnd (resume_pending_cancellations bt) (\<lambda>(resumed, reliable). ret (map br_id resumed, reliable)),
      bp_resume_stages = bnd (resume_current_stage_for_all_batches bt) (\<lambda>resumed. ret (map br_id resumed)),
      bp_list_tolerant = bnd (list_batches_tolerant None) (\<lambda>(_, reliable). ret reliable),
      bp_acquire = acquire_lock, bp_release = release_lock\<rparr>"

end
