(* ===== verification/Batch_Facts.thy ===== *)
theory Batch_Facts imports Batch_Control begin

text \<open>
  Every operation of the batch service keeps the pipeline's contract (\<open>evolves\<close>) and the rules of a
  batch (\<open>batches_evolve\<close>), whatever other threads do and wherever the storage fails.
\<close>

section \<open>The closures keep the rules\<close>

lemma collect_all2:
  assumes "\<And>x v y v'. body x v = (Inr y, v') \<Longrightarrow> P x y"
  shows "collect body xs w = (Inr ys, w') \<Longrightarrow> list_all2 P xs ys"
proof (induction xs arbitrary: w w' ys)
  case (Cons x xs)
  from Cons.prems obtain y v zs u where "body x w = (Inr y, v)" "collect body xs v = (Inr zs, u)" "ys = y # zs"
    by (auto elim!: bnd_runs)
  with Cons.IH assms show ?case by auto
qed simp

text \<open>Only what a job's state decides has changed.\<close>

definition same_child :: "batch_item \<Rightarrow> batch_item \<Rightarrow> bool" where
  "same_child i j \<longleftrightarrow> item_follows i j \<and> bi_job_id j = bi_job_id i"

definition same_batch :: "batch_record \<Rightarrow> batch_record \<Rightarrow> bool" where
  "same_batch a b \<longleftrightarrow>
     br_id b = br_id a \<and> br_spec b = br_spec a \<and> br_created_at b = br_created_at a \<and>
     br_stage_index b = br_stage_index a \<and> (br_cancellation_requested a \<longrightarrow> br_cancellation_requested b) \<and>
     list_all2 same_child (br_items a) (br_items b)"

lemma same_child_refl [simp]: "same_child i i"
  by (simp add: same_child_def)

lemma same_children_ids: "list_all2 same_child is js \<Longrightarrow> map bi_job_id js = map bi_job_id is"
  by (induction rule: list_all2_induct) (simp_all add: same_child_def)

lemma same_batch_follows:
  assumes "same_batch a b"
  shows "batch_follows a b"
proof -
  have len: "length (br_items b) = length (br_items a)"
    using assms list_all2_lengthD unfolding same_batch_def by metis
  have "list_all2 item_follows (br_items a) (br_items b)"
    using assms by (auto simp: same_batch_def same_child_def elim: list_all2_mono)
  then show ?thesis using assms len same_children_ids [of "br_items a" "br_items b"]
    by (simp add: batch_follows_def same_batch_def)
qed

lemma same_batch_refl [simp]: "same_batch a a"
  by (simp add: same_batch_def list.rel_refl)

lemma same_batch_items:
  "list_all2 same_child (br_items a) items \<Longrightarrow> same_batch a (rederived a items)"
  by (simp add: same_batch_def rederived_def Let_def)

definition closure_ok :: "(batch_record \<Rightarrow> ('y, batch_record) batch_op) \<Rightarrow> bool" where
  "closure_ok f \<longleftrightarrow>
     (\<forall>r. holds_along batches_still (f r)) \<and> (\<forall>r w r' w'. f r w = (Inr r', w') \<longrightarrow> batch_follows r r')"

lemma when_present_runs:
  assumes "when_present f record w = (Inr result, w')"
  obtains (absent) "record = None" and "result = None" and "w' = w"
  | (present) r r' where "record = Some r" and "result = Some r'" and "f r w = (Inr r', w')"
  using assms by (cases "record") (auto simp: when_present_def elim!: bnd_runs)

lemma closure_keeps: "closure_ok f \<Longrightarrow> keeps_rules (when_present f)"
  unfolding keeps_rules_def
proof (intro conjI allI impI)
  fix c
  assume ok: "closure_ok f"
  then show "holds_along batches_still (when_present f c)"
    unfolding when_present_def closure_ok_def by (intro batch_still.along_rules along_cases) simp
  show "r = None" if "when_present f None w = (Inr r, w')" for w r w'
    using that by (simp add: when_present_def)
  show "batch_follows a r" if "when_present f (Some a) w = (Inr (Some r), w')" for a w r w'
    using that(1) ok unfolding closure_ok_def by (cases rule: when_present_runs) (simp, blast)
qed

lemma closure_okI:
  "(\<And>r. holds_along batches_still (f r)) \<Longrightarrow> (\<And>r w r' w'. f r w = (Inr r', w') \<Longrightarrow> batch_follows r r') \<Longrightarrow> closure_ok f"
  by (simp add: closure_ok_def)

lemma when_present_along [along]: "(\<And>r. holds_along evolves (f r)) \<Longrightarrow> holds_along evolves (when_present f record)"
  unfolding when_present_def by (intro along_steps)

lemma still_mint: "holds_along batches_still mint_uuid"
  by (simp add: holds_along_def mint_uuid_def batches_still_def sources_kept_def others_names_def)

lemma mint_along [along]: "holds_along evolves mint_uuid"
  unfolding holds_along_def mint_uuid_def
  by (auto intro!: evolves_shape simp: keeps_shape_def)

lemma still_poison: "holds_along batches_still (get_or_poison job_id)"
  unfolding get_or_poison_def by (intro batch_still.frame_repo)

lemma poison_along [along]: "holds_along evolves (get_or_poison job_id)"
  unfolding get_or_poison_def by (intro along_steps along)

lemma reflect_same: "reflect_job job item = Inr item' \<Longrightarrow> bi_job_id item \<noteq> None \<Longrightarrow> same_child item item'"
  by (auto simp: reflect_job_def reflect_result_def and_then_def Let_def same_child_def item_follows_def
      split: option.splits sum.splits)

lemma poison_same:
  assumes "reflect_poison job_id item w = (Inr item', w')" and "bi_job_id item \<noteq> None"
  shows "same_child item item'"
  using assms
  by (auto simp: reflect_poison_def same_child_def item_follows_def elim!: bnd_runs
      split: option.splits raw_status.splits if_splits)

lemma recompute_item_same:
  assumes "recompute_item item w = (Inr item', w')"
  shows "same_child item item'"
proof (cases "bi_job_id item")
  case None
  with assms show ?thesis by (simp add: recompute_item_def)
next
  case (Some job_id)
  with assms obtain found v where rest: "(case found of
              None \<Rightarrow> reflect_poison job_id item
            | Some None \<Rightarrow> ret item
            | Some (Some job) \<Rightarrow> lift_result (reflect_job job item)) v = (Inr item', w')"
    by (auto simp: recompute_item_def elim: bnd_runs)
  show ?thesis
  proof (cases found)
    case None
    with rest Some show ?thesis by (auto intro: poison_same)
  next
    case (Some read)
    with rest \<open>bi_job_id item = Some job_id\<close> show ?thesis by (cases read) (auto intro!: reflect_same)
  qed
qed

lemma still_recompute: "holds_along batches_still (recompute record)"
  unfolding recompute_def recompute_item_def reflect_poison_def
  by (intro batch_still.frame_repo still_poison along_case_raw)

lemma recompute_same: "recompute record w = (Inr record', w') \<Longrightarrow> same_batch record record'"
  by (auto simp: recompute_def elim!: bnd_runs intro!: same_batch_items collect_all2 recompute_item_same)

lemma assign_id_follows: "assign_id stage_index item w = (Inr item', w') \<Longrightarrow> item_follows item item'"
  by (auto simp: assign_id_def item_follows_def item_terminal_def elim!: bnd_runs split: if_splits)

lemma children_follow:
  assumes "list_all2 item_follows (br_items a) items" and "\<not> br_cancellation_requested a"
  shows "batch_follows a (a\<lparr>br_items := items\<rparr>)"
  using assms list_all2_lengthD [OF assms(1)] by (simp add: batch_follows_def)

lemma assign_closure: "closure_ok (assign_ids stage_index)"
proof (rule closure_okI)
  show "holds_along batches_still (assign_ids stage_index r)" for r :: batch_record
    unfolding assign_ids_def assign_id_def by (intro batch_still.frame_repo still_mint)
  show "batch_follows r r'" if run: "assign_ids stage_index r w = (Inr r', w')"
    for r r' and w w' :: "'a batch_world_scheme"
  proof (cases "br_cancellation_requested r")
    case True
    with run show ?thesis by (simp add: assign_ids_def)
  next
    case False
    with run obtain items where items: "collect (assign_id stage_index) (br_items r) w = (Inr items, w')"
      and r': "r' = r\<lparr>br_items := items\<rparr>"
      by (auto simp: assign_ids_def elim!: bnd_runs)
    from items have "list_all2 item_follows (br_items r) items" by (rule collect_all2 [rotated]) (rule assign_id_follows)
    then show ?thesis unfolding r' using False by (rule children_follow)
  qed
qed

lemma recompute_closure: "closure_ok recompute"
  using still_recompute by (rule closure_okI) (blast intro: same_batch_follows recompute_same)

lemma pure_closure: "(\<And>r. same_batch r (f r)) \<Longrightarrow> closure_ok (\<lambda>r. ret (f r))"
  by (rule closure_okI) (auto intro: batch_still.along_ret same_batch_follows)

lemma clear_closure: "closure_ok (\<lambda>r. ret (clear_if_marked r))"
  by (intro pure_closure)
    (auto simp: clear_if_marked_def same_batch_def list.rel_refl split: option.split)

lemma failed_closure: "closure_ok (\<lambda>r. ret (materialization_failed e r))"
  by (intro pure_closure) (simp add: materialization_failed_def same_batch_def list.rel_refl)

lemma still_expanded: "holds_along batches_still (expanded bt spec sg k seeds batch_id)"
  unfolding expanded_def by (intro batch_still.along_rules batch_still.frame_check_references)

lemma still_advance: "holds_along batches_still (try_advance_in_place bt r)"
  unfolding try_advance_in_place_def Let_def by (intro batch_still.frame_repo still_expanded)

lemma advance_follows:
  assumes "try_advance_in_place bt r w = (Inr r', w')"
  shows "batch_follows r r'"
  using assms
  by (auto simp: try_advance_in_place_def Let_def batch_follows_def list.rel_refl elim!: bnd_runs split: if_splits)

lemma advance_closures:
  "closure_ok (recompute_and_advance_raising bt)" "closure_ok (recompute_and_advance_capturing bt)"
proof -
  show "closure_ok (recompute_and_advance_raising bt)"
  proof (rule closure_okI)
    show "holds_along batches_still (recompute_and_advance_raising bt r)" for r
      unfolding recompute_and_advance_raising_def by (intro batch_still.along_bnd still_recompute still_advance)
    show "batch_follows r r'" if "recompute_and_advance_raising bt r w = (Inr r', w')" for r w r' w'
      using that unfolding recompute_and_advance_raising_def
      by (cases rule: bnd_runs) (auto intro: batch_follows_trans same_batch_follows recompute_same advance_follows)
  qed
  show "closure_ok (recompute_and_advance_capturing bt)"
  proof (rule closure_okI)
    show "holds_along batches_still (recompute_and_advance_capturing bt r)" for r
      unfolding recompute_and_advance_capturing_def
      by (intro batch_still.along_rules along_cases still_recompute still_advance)
    show "batch_follows r r'" if run: "recompute_and_advance_capturing bt r w = (Inr r', w')" for r w r' w'
    proof -
      from run obtain a v where first: "recompute r w = (Inr a, v)"
        and rest: "catch (try_advance_in_place bt a) (\<lambda>e.
          if is_reference_refusal e
          then ret (a\<lparr>br_advance_error := Some (exn_text e), br_status := BATCH_STATUS_FAILED\<rparr>)
          else raise e) v = (Inr r', w')"
        unfolding recompute_and_advance_capturing_def by (elim bnd_runs) auto
      from rest have "batch_follows a r'"
      proof (cases rule: catch_runs)
        case (passed x)
        then show ?thesis using advance_follows by auto
      next
        case (handled e u)
        then show ?thesis by (auto simp: same_batch_def list.rel_refl intro!: same_batch_follows split: if_splits)
      qed
      with recompute_same [OF first] show ?thesis by (blast intro: batch_follows_trans same_batch_follows)
    qed
  qed
qed

lemma cancelled_item_same [simp]: "same_child item (cancelled_item item)"
  by (simp add: same_child_def item_follows_def cancelled_item_def item_terminal_def TERMINAL_JOB_STATUSES_def)

lemma cancel_item_same:
  assumes "cancel_intent_item item w = (Inr item', w')"
  shows "same_child item item'"
  using assms
  by (auto simp: cancel_intent_item_def elim!: bnd_runs split: if_splits option.splits)

lemma still_cancel: "holds_along batches_still (apply_cancellation_intent r)"
  unfolding apply_cancellation_intent_def cancel_intent_item_def by (intro batch_still.frame_repo still_poison)

lemma cancel_intent_runs:
  assumes "apply_cancellation_intent r w = (Inr r', w')"
  shows "same_batch r r'" and "br_cancellation_requested r'"
    and "\<And>i. i \<in> set (br_items r') \<Longrightarrow> bi_job_id i = None \<Longrightarrow> bi_status i = status_text Cancelled"
proof -
  obtain items where items: "collect cancel_intent_item (br_items r) w = (Inr items, w')"
    and r': "r' = r\<lparr>br_cancellation_requested := True, br_items := items\<rparr>"
    using assms by (auto simp: apply_cancellation_intent_def elim!: bnd_runs)
  have "list_all2 same_child (br_items r) items" using items cancel_item_same by (rule collect_all2 [rotated])
  with r' show "same_batch r r'" "br_cancellation_requested r'" by (simp_all add: same_batch_def)
  have "list_all2 (\<lambda>i j. bi_job_id j = None \<longrightarrow> bi_status j = status_text Cancelled) (br_items r) items"
  proof (rule collect_all2 [rotated, OF items])
    fix x v y v'
    assume run: "cancel_intent_item x v = (Inr y, v')"
    from cancel_item_same [OF run] have id: "bi_job_id y = bi_job_id x" by (simp add: same_child_def)
    show "bi_job_id y = None \<longrightarrow> bi_status y = status_text Cancelled"
    proof
      assume "bi_job_id y = None"
      with run id show "bi_status y = status_text Cancelled"
        by (auto simp: cancel_intent_item_def cancelled_item_def split: if_splits)
    qed
  qed
  then show "bi_status i = status_text Cancelled" if "i \<in> set (br_items r')" "bi_job_id i = None" for i
    using that r' by (auto simp: list_all2_conv_all_nth in_set_conv_nth)
qed

lemma cancel_closure: "closure_ok apply_cancellation_intent"
  using still_cancel by (rule closure_okI) (blast intro: same_batch_follows cancel_intent_runs(1))

lemma promote_first_same: "promote_first k items = Some items' \<Longrightarrow> list_all2 same_child items items'"
  by (induction items arbitrary: items')
    (auto simp: list.rel_refl same_child_def item_follows_def item_terminal_def split: if_splits)

lemma promote_closure: "closure_ok (mark_promoted_and_recompute k)"
proof (rule closure_okI)
  show "holds_along batches_still (mark_promoted_and_recompute k r)" for r
    unfolding mark_promoted_and_recompute_def by (intro batch_still.frame_repo still_recompute)
  show "batch_follows r r'" if run: "mark_promoted_and_recompute k r w = (Inr r', w')" for r w r' w'
  proof -
    from run obtain items where items: "promote_first k (br_items r) = Some items"
      and rest: "recompute (r\<lparr>br_items := items\<rparr>) w = (Inr r', w')"
      by (auto simp: mark_promoted_and_recompute_def split: option.splits)
    have "same_batch r (r\<lparr>br_items := items\<rparr>)" using promote_first_same [OF items] by (simp add: same_batch_def)
    with recompute_same [OF rest] show ?thesis by (blast intro: batch_follows_trans same_batch_follows)
  qed
qed

lemmas closures =
  assign_closure recompute_closure clear_closure failed_closure advance_closures cancel_closure promote_closure

section \<open>Every operation keeps what its mutations keep\<close>

lemma closures_along [along]:
  "holds_along evolves (recompute r)" "holds_along evolves (assign_ids stage_index r)"
  "holds_along evolves (apply_cancellation_intent r)" "holds_along evolves (mark_promoted_and_recompute chosen r)"
proof -
  show one: "holds_along evolves (recompute r)" for r
    unfolding recompute_def recompute_item_def reflect_poison_def by (intro along_steps along along_case_raw)
  show "holds_along evolves (assign_ids stage_index r)" "holds_along evolves (apply_cancellation_intent r)"
    "holds_along evolves (mark_promoted_and_recompute chosen r)"
    unfolding assign_ids_def assign_id_def apply_cancellation_intent_def cancel_intent_item_def
      mark_promoted_and_recompute_def
    by (intro along_steps along one)+
qed

lemma advance_along [along]:
  "holds_along evolves (expanded bt spec sg k seeds batch_id)" "holds_along evolves (try_advance_in_place bt r)"
  "holds_along evolves (recompute_and_advance_raising bt r)" "holds_along evolves (recompute_and_advance_capturing bt r)"
proof -
  show one: "holds_along evolves (expanded bt spec sg k seeds batch_id)" for spec sg k seeds batch_id
    unfolding expanded_def by (intro along_steps along)
  show two: "holds_along evolves (try_advance_in_place bt r)" for r
    unfolding try_advance_in_place_def Let_def by (intro along_steps one)
  show "holds_along evolves (recompute_and_advance_raising bt r)" "holds_along evolves (recompute_and_advance_capturing bt r)"
    unfolding recompute_and_advance_raising_def recompute_and_advance_capturing_def
    by (intro along_steps along two)+
qed

text \<open>
  The operations are built from reads, mutations by the closures above, and three operations on
  jobs. A relation that these keep is kept by all of them.
\<close>

locale batch_operations = step_preorder R for R :: "'y batch_world_scheme \<Rightarrow> 'y batch_world_scheme \<Rightarrow> bool" +
  fixes ok :: "'y batch_service \<Rightarrow> bool"
  assumes R_reads: "holds_along R (batch_get batch_id)" "holds_along R (batch_get_or_diagnose batch_id)"
      "holds_along R (batch_list_all project_id limit)" "holds_along R (batch_list_all_tolerant project_id)"
      "holds_along R (batch_find_by_job_id_or_diagnose job_id)"
    and R_mutate: "closure_ok f \<Longrightarrow> (\<And>r. holds_along evolves (f r)) \<Longrightarrow>
      holds_along R (batch_mutate batch_id (when_present f))"
    and R_mutate_owner: "closure_ok f \<Longrightarrow> (\<And>r. holds_along evolves (f r)) \<Longrightarrow>
      holds_along R (batch_mutate_by_job_id_diagnosed job_id (when_present f))"
    and R_row: "ok bt \<Longrightarrow> holds_along R (materialize_row bt job_id request project_id)"
    and R_expose: "ok bt \<Longrightarrow> holds_along R (authorize_and_expose bt batch_id job_id s)"
    and R_cancel_job: "ok bt \<Longrightarrow> holds_along R (service_cancel_job (bt_jobs bt) job_id)"
begin

lemmas steps = along_rules along_cases R_reads

lemma mutations:
  "holds_along R (batch_reconcile batch_id)" "holds_along R (clear_stale_materialization_failure batch_id)"
  "holds_along R (persist_stage_materialization_failure batch_id e)" "holds_along R (batch_promote batch_id chosen)"
  unfolding batch_reconcile_def clear_stale_materialization_failure_def
    persist_stage_materialization_failure_def batch_promote_def
  by (intro steps R_mutate closures along evolving.along_rules)+

lemma materialize: "ok bt \<Longrightarrow> holds_along R (materialize_items bt batch_id project_id items)"
proof (induction items)
  case (Cons item items)
  then show ?case
    unfolding materialize_items.simps by (intro steps R_row R_expose R_cancel_job)
qed (simp add: along_ret)

lemma staging: "ok bt \<Longrightarrow> holds_along R (enqueue_stage bt batch_id stage_index)"
  unfolding enqueue_stage_def by (intro steps R_mutate closures along mutations materialize)

lemma advancing: "ok bt \<Longrightarrow> holds_along R (batch_advance bt batch_id)"
  unfolding batch_advance_def by (intro steps R_mutate closures along mutations staging)

lemma child: "ok bt \<Longrightarrow> holds_along R (reconcile_child_job bt job_id)"
  unfolding reconcile_child_job_def by (intro steps R_mutate_owner closures along staging)

lemma along_case_json: "holds_along R m \<Longrightarrow> (\<And>s. holds_along R (f s)) \<Longrightarrow> holds_along R (case j of JStr s \<Rightarrow> f s | _ \<Rightarrow> m)"
  by (cases j) simp_all

lemma handler: "ok bt \<Longrightarrow> holds_along R (batch_handle_job_event bt event)"
  unfolding batch_handle_job_event_def by (intro steps along_case_json child)

lemma cancelling: "ok bt \<Longrightarrow> holds_along R (batch_cancel bt batch_id)"
  unfolding batch_cancel_def signal_child_cancel_def
  by (intro steps R_mutate closures along mutations R_cancel_job)

lemma resume_cancelling_R: "ok bt \<Longrightarrow> holds_along R (resume_cancelling bt rs)"
proof (induction rs)
  case (Cons r rs)
  then show ?case unfolding resume_cancelling.simps by (intro steps cancelling)
qed (simp add: along_ret)

lemma resume_records_R: "ok bt \<Longrightarrow> holds_along R (resume_records bt processed rs)"
proof (induction rs arbitrary: processed)
  case (Cons r rs)
  have one: "holds_along R (resume_one bt r)"
    unfolding resume_one_def by (intro steps mutations staging Cons.prems)
  have "holds_along R (case v of
      Resumed x \<Rightarrow> bnd (resume_records bt (br_id r # processed) rs) (\<lambda>(resumed, processed', unresolved).
                ret (x # resumed, processed', unresolved))
    | Resume_settled \<Rightarrow> resume_records bt (br_id r # processed) rs
    | Resume_unresolved \<Rightarrow> bnd (resume_records bt processed rs) (\<lambda>(resumed, processed', unresolved).
                ret (resumed, processed', True)))" for v
    by (cases v) (simp_all, (intro steps Cons.IH Cons.prems)+)
  then show ?case
    unfolding resume_records.simps by (intro steps one Cons.IH Cons.prems)
qed (simp add: along_ret)

lemma passes:
  assumes "ok bt"
  shows "holds_along R (resume_pending_cancellations bt)" "holds_along R (resume_current_stage_for_all_batches bt)"
    "holds_along R (create_attempts bt batch_id n latest)"
proof -
  show "holds_along R (resume_pending_cancellations bt)"
    unfolding resume_pending_cancellations_def by (intro steps resume_cancelling_R assms)
  have "holds_along R (resume_attempts bt k processed)" for k processed
  proof (induction k arbitrary: processed)
    case (Suc k)
    then show ?case unfolding resume_attempts.simps by (intro steps resume_records_R assms)
  qed (simp add: along_ret)
  then show "holds_along R (resume_current_stage_for_all_batches bt)"
    by (simp add: resume_current_stage_for_all_batches_def)
  show "holds_along R (create_attempts bt batch_id n latest)"
  proof (induction n arbitrary: latest)
    case (Suc n)
    then show ?case unfolding create_attempts.simps by (intro steps staging assms)
  qed (unfold create_attempts.simps, intro steps)
qed

lemma listings:
  "holds_along R (list_batches project_id limit)" "holds_along R (list_batches_tolerant project_id)"
  "holds_along R build_job_ownership_index"
  unfolding list_batches_def list_batches_tolerant_def reconcile_tolerant_def build_job_ownership_index_def
  by (intro steps mutations)+

lemmas operations = mutations staging advancing child handler cancelling passes listings

end

text \<open>The pipeline's contract.\<close>

interpretation kept: batch_operations evolves "\<lambda>bt. service_ok (bt_jobs bt)"
proof unfold_locales
  fix f :: "batch_record \<Rightarrow> ('a, batch_record) batch_op" and batch_id job_id
  assume f: "\<And>r. holds_along evolves (f r)"
  show "holds_along evolves (batch_mutate batch_id (when_present f))"
    "holds_along evolves (batch_mutate_by_job_id_diagnosed job_id (when_present f))"
    by (intro batch_mutate_along when_present_along f)+
next
  fix bt :: "'a batch_service" and batch_id job_id request project_id s
  assume "service_ok (bt_jobs bt)"
  then show "holds_along evolves (materialize_row bt job_id request project_id)"
    "holds_along evolves (authorize_and_expose bt batch_id job_id s)"
    unfolding materialize_row_def authorize_and_expose_def by (intro along_steps along | assumption)+
qed (rule along | assumption)+

text \<open>The rules of a batch.\<close>

lemma expose_follows:
  assumes "delivers_within batches_evolve (bt_jobs bt)"
  shows "holds_along batches_evolve (authorize_and_expose bt batch_id job_id s)"
  unfolding authorize_and_expose_def
proof (rule exclusively_follows)
  fix v
  let ?m = "bnd (batch_get_or_diagnose batch_id) (\<lambda>(record, uncertain).
       case record of
         None \<Rightarrow> ret (if uncertain then Expose_unreadable else Expose_absent)
       | Some r \<Rightarrow>
           if br_cancellation_requested r then ret Expose_cancelled
           else if s \<noteq> Queued then ret Expose_not_queued
           else bnd (service_enqueue_job (bt_jobs bt) job_id) (\<lambda>_. ret Expose_enqueued))"
  have "holds_along batches_evolve ?m"
    by (intro batches.along_rules along_cases reads_follow batches.frame_enqueue_job assms)
  then show "batches_evolve v (snd (?m v))" by (simp add: holds_along_def)
qed

interpretation ruled: batch_operations batches_evolve "\<lambda>bt. delivers_within batches_evolve (bt_jobs bt)"
proof unfold_locales
  fix f :: "batch_record \<Rightarrow> ('a, batch_record) batch_op" and batch_id job_id
  assume f: "closure_ok f"
  show "holds_along batches_evolve (batch_mutate batch_id (when_present f))"
    "holds_along batches_evolve (batch_mutate_by_job_id_diagnosed job_id (when_present f))"
    by (intro mutate_follows mutate_by_job_follows closure_keeps f)+
next
  fix bt :: "'a batch_service" and batch_id job_id request project_id s
  assume ok: "delivers_within batches_evolve (bt_jobs bt)"
  then show "holds_along batches_evolve (materialize_row bt job_id request project_id)"
    unfolding materialize_row_def by (intro batches.along_rules along_cases batches.frame_reuse)
  show "holds_along batches_evolve (authorize_and_expose bt batch_id job_id s)" using ok by (rule expose_follows)
  show "holds_along batches_evolve (service_cancel_job (bt_jobs bt) job_id)" using ok by (rule batches.frame_cancel_job)
qed (rule reads_follow)+

lemma lock_base: "same_base w (snd (acquire_lock w))" "same_base w (release_lock outer w)"
  by (simp_all add: same_base_def acquire_lock_def release_lock_def others_act_def world.defs)

lemma batch_port_ok: "service_ok (bt_jobs bt) \<Longrightarrow> port_ok (batch_service_port bt)"
  unfolding port_ok_def batch_service_port_def batch_port.simps
  by (intro conjI allI along_steps along kept.operations lock_base | assumption)+

end
