(* ===== verification/Batch_Grid.thy ===== *)
theory Batch_Grid imports Batch_Expansion "HOL-Library.Multiset" begin

text \<open>
  What a batch expands to: exactly the combinations of its axes, each once, grouped by model and
  seeded by position; later stages that reproduce what an earlier one rendered; and locked fields
  no axis value sets.
\<close>

section \<open>Dictionaries of labels\<close>

lemma dict_of_pairs_distinct: "distinct (map fst (dict_of_pairs ps))"
proof -
  have "distinct (map fst d) \<Longrightarrow> distinct (map fst (fold (\<lambda>(k, v). AList.update k v) ps d))" for d
    by (induction ps arbitrary: d) (auto simp: distinct_update)
  then show ?thesis by (simp add: dict_of_pairs_def)
qed

lemma dict_of_pairs_id: "distinct (map fst ps) \<Longrightarrow> dict_of_pairs ps = ps"
proof -
  have new: "k \<notin> fst ` set d \<Longrightarrow> AList.update k v d = d @ [(k, v)]" for k v and d :: "(string \<times> string) list"
    by (induction d) auto
  have "distinct (map fst ps) \<Longrightarrow> fst ` set d \<inter> fst ` set ps = {} \<Longrightarrow>
      fold (\<lambda>(k, v). AList.update k v) ps d = d @ ps" for d
    by (induction ps arbitrary: d) (auto simp: new)
  then show "distinct (map fst ps) \<Longrightarrow> dict_of_pairs ps = ps" by (simp add: dict_of_pairs_def)
qed

lemma deep_copy_id [simp]: "deep_copy j = j"
  by (induction j rule: deep_copy.induct) (auto intro!: map_idI)

lemma copy_dict_id [simp]: "copy_dict d = d"
  by (auto simp: copy_dict_def intro!: map_idI)

section \<open>What the patches do to the fields\<close>

definition fields_after :: "expansion_env \<Rightarrow> string \<times> json \<Rightarrow> (string \<rightharpoonup> json) \<Rightarrow> (string \<rightharpoonup> json)" where
  "fields_after env entry m =
     (case map_of PATCH_APPEND_KEYS (fst entry) of
        Some target \<Rightarrow> m(target \<mapsto> appended env (m target) (snd entry))
      | None \<Rightarrow> if fst entry \<in> set TOP_LEVEL_KEYS then m(fst entry \<mapsto> snd entry) else m)"

definition entries_of :: "batch_spec \<Rightarrow> (string \<times> string) list \<Rightarrow> dict" where
  "entries_of spec choices =
     concat (map (\<lambda>c. case value_patch spec c of None \<Rightarrow> [] | Some patch \<Rightarrow> patch) choices)"

lemma entries_of_simps [simp]:
  "entries_of spec [] = []"
  "entries_of spec (c # cs) = (case value_patch spec c of None \<Rightarrow> [] | Some patch \<Rightarrow> patch) @ entries_of spec cs"
  by (simp_all add: entries_of_def)

lemma apply_entry_Inr:
  "apply_entry env locked a l entry pl = Inr pl' \<Longrightarrow>
     \<not> sets_locked locked (fst entry) \<and> pl_media_type pl' = pl_media_type pl \<and>
     map_of (pl_fields pl') = fields_after env entry (map_of (pl_fields pl))"
  by (cases entry)
    (auto simp: apply_entry_def fields_after_def split: if_splits option.splits bool.splits json.splits)

lemma apply_patch_Inr:
  "apply_patch_dict env locked a l patch pl = Inr pl' \<Longrightarrow>
     (\<forall>key \<in> fst ` set patch. \<not> sets_locked locked key) \<and> pl_media_type pl' = pl_media_type pl \<and>
     map_of (pl_fields pl') = fold (fields_after env) patch (map_of (pl_fields pl))"
proof (induction patch arbitrary: pl)
  case (Cons entry patch)
  from Cons.prems obtain pl1 where "apply_entry env locked a l entry pl = Inr pl1"
    "apply_patch_dict env locked a l patch pl1 = Inr pl'"
    by (auto simp: and_then_Inr)
  with apply_entry_Inr [OF this(1)] Cons.IH [OF this(2)] show ?case by simp
qed simp

lemma apply_axis_values_Inr:
  "apply_axis_values env spec choices (pl, applied) = Inr (pl', applied') \<Longrightarrow>
     (\<forall>key \<in> fst ` set (entries_of spec choices). \<not> sets_locked (bs_locked_fields spec) key) \<and>
     pl_media_type pl' = pl_media_type pl \<and>
     map_of (pl_fields pl') = fold (fields_after env) (entries_of spec choices) (map_of (pl_fields pl))"
proof (induction choices arbitrary: pl applied)
  case (Cons c choices)
  show ?case
  proof (cases "value_patch spec c")
    case None
    with Cons show ?thesis by simp
  next
    case (Some patch)
    with Cons.prems obtain pl1 where
      one: "apply_patch_dict env (bs_locked_fields spec) (fst c) (snd c) patch pl = Inr pl1" and
      rest: "apply_axis_values env spec choices (pl1, dict_set (fst c) (JObj (copy_dict patch)) applied) = Inr (pl', applied')"
      by (auto simp: and_then_Inr)
    from apply_patch_Inr [OF one] Cons.IH [OF rest] Some show ?thesis by auto
  qed
qed simp

lemma patches_seed_iff: "axis_values_patch_seed spec choices \<longleftrightarrow> ''seed'' \<in> fst ` set (entries_of spec choices)"
  by (induction choices) (simp_all add: axis_values_patch_seed_def image_Un split: option.splits)

definition agree_but :: "string \<Rightarrow> (string \<rightharpoonup> json) \<Rightarrow> (string \<rightharpoonup> json) \<Rightarrow> bool" where
  "agree_but key m m' \<longleftrightarrow> (\<forall>k. k \<noteq> key \<longrightarrow> m k = m' k)"

lemma seed_appends_nowhere: "map_of PATCH_APPEND_KEYS k = Some target \<Longrightarrow> target \<noteq> ''seed''"
  by (auto simp: PATCH_APPEND_KEYS_def split: if_splits)

lemma fields_after_seed:
  assumes "agree_but ''seed'' m m'"
  shows "agree_but ''seed'' (fields_after env entry m) (fields_after env entry m')"
    and "fst entry = ''seed'' \<Longrightarrow> fields_after env entry m = fields_after env entry m'"
proof -
  show "agree_but ''seed'' (fields_after env entry m) (fields_after env entry m')"
    using assms by (auto simp: agree_but_def fields_after_def dest: seed_appends_nowhere split: option.splits)
  show "fst entry = ''seed'' \<Longrightarrow> fields_after env entry m = fields_after env entry m'"
    using assms by (auto simp: agree_but_def fields_after_def PATCH_APPEND_KEYS_def TOP_LEVEL_KEYS_def fun_eq_iff)
qed

text \<open>A field no entry names and no entry appends to keeps its value.\<close>

lemma fold_fields_other:
  "key \<notin> fst ` set es \<Longrightarrow> key \<notin> snd ` set PATCH_APPEND_KEYS \<Longrightarrow>
   fold (fields_after env) es m key = m key"
proof (induction es arbitrary: m)
  case (Cons e es)
  have "fields_after env e m key = m key"
    using Cons.prems by (force simp: fields_after_def dest: map_of_SomeD split: option.splits)
  with Cons show ?case by simp
qed simp

lemma fold_fields_seed:
  assumes "agree_but ''seed'' m m'"
  shows "agree_but ''seed'' (fold (fields_after env) es m) (fold (fields_after env) es m')"
    and "''seed'' \<in> fst ` set es \<Longrightarrow> fold (fields_after env) es m = fold (fields_after env) es m'"
proof -
  show "agree_but ''seed'' (fold (fields_after env) es m) (fold (fields_after env) es m')"
    using assms by (induction es arbitrary: m m') (simp_all add: fields_after_seed(1))
  show "''seed'' \<in> fst ` set es \<Longrightarrow> fold (fields_after env) es m = fold (fields_after env) es m'"
    using assms
  proof (induction es arbitrary: m m')
    case (Cons e es)
    show ?case
    proof (cases "fst e = ''seed''")
      case True
      with fields_after_seed(2) [OF Cons.prems(2)] show ?thesis by simp
    next
      case False
      with Cons.prems Cons.IH [of "fields_after env e m" "fields_after env e m'"] fields_after_seed(1)
      show ?thesis by auto
    qed
  qed simp
qed

section \<open>A request and its fields\<close>

definition reads_fields :: "expansion_env \<Rightarrow> media_type \<Rightarrow> (string \<rightharpoonup> json) \<Rightarrow> generation_request \<Rightarrow> bool" where
  "reads_fields env media m r \<longleftrightarrow>
     (let field = (\<lambda>key. case m key of None \<Rightarrow> JNull | Some j \<Rightarrow> j) in
      req_media_type r = media \<and> req_references r = [] \<and>
      optional_field (ee_text env) (field ''task_type'') = Some (req_task_type r) \<and>
      ee_text env (field ''prompt'') = Some (req_prompt r) \<and>
      optional_field (ee_text env) (field ''negative_prompt'') = Some (req_negative_prompt r) \<and>
      ee_text env (field ''model_id'') = Some (req_model_id r) \<and>
      optional_field (ee_int env) (field ''seed'') = Some (req_seed r) \<and>
      optional_field (ee_text env) (field ''output_format'') = Some (req_output_format r))"

lemma accepted_Inr: "accepted x = Inr y \<longleftrightarrow> x = Some y"
  by (simp add: accepted_def split: option.split)

lemma request_of_payload_Inr:
  "request_of_payload env pl = Inr r \<Longrightarrow> reads_fields env (pl_media_type pl) (map_of (pl_fields pl)) r"
  by (auto simp: request_of_payload_def and_then_Inr accepted_Inr reads_fields_def field_of_def Let_def)

definition patched_fields :: "expansion_env \<Rightarrow> batch_spec \<Rightarrow> (string \<times> string) list \<Rightarrow> nat \<Rightarrow> int option \<Rightarrow> (string \<rightharpoonup> json)" where
  "patched_fields env spec choices position inherited =
     fold (fields_after env) (entries_of spec choices) (map_of (pl_fields (base_payload spec position inherited)))"

lemma build_request_Inr:
  assumes "build_request env spec choices sg position inherited = Inr r"
  shows "reads_fields env (bs_media_type spec) (patched_fields env spec choices position inherited) r"
    and "key \<in> fst ` set (entries_of spec choices) \<Longrightarrow> \<not> sets_locked (bs_locked_fields spec) key"
proof -
  obtain pl applied where
    patched: "apply_axis_values env spec choices (base_payload spec position inherited, []) = Inr (pl, applied)" and
    request: "request_of_payload env (pl\<lparr>pl_params := final_params spec sg choices applied (pl_params pl)\<rparr>) = Inr r"
    using assms by (auto simp: build_request_def and_then_Inr)
  from apply_axis_values_Inr [OF patched] request_of_payload_Inr [OF request]
  show "reads_fields env (bs_media_type spec) (patched_fields env spec choices position inherited) r"
    by (simp add: patched_fields_def base_payload_def)
  show "key \<in> fst ` set (entries_of spec choices) \<Longrightarrow> \<not> sets_locked (bs_locked_fields spec) key"
    using apply_axis_values_Inr [OF patched] by blast
qed

section \<open>The items of an expansion\<close>

definition item_from ::
  "expansion_env \<Rightarrow> batch_spec \<Rightarrow> stage \<Rightarrow> (string \<times> string) list \<times> int option \<Rightarrow> batch_item \<Rightarrow> bool" where
  "item_from env spec sg source item \<longleftrightarrow>
     bi_axis_values item = dict_of_pairs (fst source) \<and>
     build_request env spec (dict_of_pairs (fst source)) sg (bi_index item) (snd source) = Inr (bi_request item)"

lemma build_items_Inr:
  "build_items env spec sg k prefix position sources = Inr items \<Longrightarrow>
   list_all2 (item_from env spec sg) sources items"
proof (induction sources arbitrary: position items)
  case (Cons source sources)
  then show ?case by (cases source) (auto simp: Let_def and_then_Inr item_from_def new_item_def)
qed simp

lemma length_renumber [simp]: "length (renumber_from spec b n items) = length items"
  by (induction items arbitrary: n) simp_all

lemma nth_renumber: "i < length items \<Longrightarrow> renumber_from spec b n items ! i = renumbered spec b (n + i) (items ! i)"
proof (induction items arbitrary: n i)
  case (Cons item items)
  then show ?case by (cases i) simp_all
qed simp

lemma renumbered_keeps [simp]:
  "bi_axis_values (renumbered spec b n item) = bi_axis_values item"
  "req_model_id (bi_request (renumbered spec b n item)) = req_model_id (bi_request item)"
  "bi_index (renumbered spec b n item) = n"
  by (simp_all add: renumbered_def Let_def)

lemma renumbered_seed:
  "req_seed (bi_request (renumbered spec b n item)) =
     (if b \<and> \<not> axis_values_patch_seed spec (bi_axis_values item) then resolve_seed spec n
      else req_seed (bi_request item))"
  by (simp add: renumbered_def Let_def)

lemma map_renumber:
  "(\<And>n item. f (renumbered spec b n item) = f item) \<Longrightarrow> map f (renumber_from spec b n items) = map f items"
  by (induction items arbitrary: n) simp_all

definition sources_of ::
  "expansion_env \<Rightarrow> batch_spec \<Rightarrow> batch_item list option \<Rightarrow> ((string \<times> string) list \<times> int option) list \<Rightarrow> bool" where
  "sources_of env spec seed_items sources \<longleftrightarrow>
     (case seed_items of
        None \<Rightarrow> (\<exists>cs. combinations env spec = Inr cs \<and> sources = map (\<lambda>c. (c, None)) cs)
      | Some items \<Rightarrow> sources = map (\<lambda>item. (bi_axis_values item, req_seed (bi_request item))) items)"

lemma expand_items_Inr:
  assumes "expand_items env spec sg k seed_items prefix = Inr items"
  obtains sources built where "sources_of env spec seed_items sources"
    and "build_items env spec sg k prefix 0 sources = Inr built"
    and "items = renumber_from spec (reseeds spec seed_items) 0 (sort_key item_key built)"
  using assms that by (auto simp: expand_items_def and_then_Inr sources_of_def split: option.splits)

lemma expanded_axis_values:
  assumes "sources_of env spec seed_items sources" and "build_items env spec sg k prefix 0 sources = Inr built"
  shows "mset (map bi_axis_values (renumber_from spec b 0 (sort_key item_key built))) =
     mset (map (dict_of_pairs \<circ> fst) sources)"
proof -
  have "list_all2 (\<lambda>source item. dict_of_pairs (fst source) = bi_axis_values item) sources built"
    using build_items_Inr [OF assms(2)] by (rule list_all2_mono) (simp add: item_from_def)
  then have "map bi_axis_values built = map (dict_of_pairs \<circ> fst) sources"
    by (induction rule: list_all2_induct) simp_all
  then show ?thesis by (metis map_renumber renumbered_keeps(1) mset_map mset_sort)
qed

section \<open>The combinations\<close>

definition is_combination :: "batch_spec \<Rightarrow> (string \<times> string) list \<Rightarrow> bool" where
  "is_combination spec c \<longleftrightarrow>
     list_all2 (\<lambda>(name, label) ax. name = ax_name ax \<and> label \<in> av_label ` set (ax_values ax)) c (bs_axes spec)"

definition grid_size :: "batch_spec \<Rightarrow> nat" where
  "grid_size spec = prod_list (map (length \<circ> ax_values) (bs_axes spec))"

definition expected_count :: "batch_spec \<Rightarrow> nat" where
  "expected_count spec =
     (case bs_max_items spec of
        None \<Rightarrow> grid_size spec
      | Some n \<Rightarrow> if bs_strategy spec = ''sample'' then min (nat n) (grid_size spec) else grid_size spec)"

text \<open>What the library documents of \<open>random.sample(range(n), k)\<close>.\<close>

definition sampler_ok :: "expansion_env \<Rightarrow> bool" where
  "sampler_ok env \<longleftrightarrow>
     (\<forall>seed n k. k \<le> n \<longrightarrow>
        length (ee_sample env seed n k) = k \<and> distinct (ee_sample env seed n k) \<and>
        set (ee_sample env seed n k) \<subseteq> {..<n})"

lemma all_combinations_set: "set (all_combinations spec) = {c. is_combination spec c}"
proof -
  have "list_all2 (\<lambda>x ys. x \<in> set ys) c (map (\<lambda>ax. map (\<lambda>v. (ax_name ax, av_label v)) (ax_values ax)) axes) \<longleftrightarrow>
      list_all2 (\<lambda>(name, label) ax. name = ax_name ax \<and> label \<in> av_label ` set (ax_values ax)) c axes"
    for c and axes :: "axis list"
    by (induction c axes rule: list_induct2') auto
  then show ?thesis by (simp add: all_combinations_def product_lists_set is_combination_def)
qed

lemma length_product_lists: "length (product_lists xss) = prod_list (map length xss)"
  by (induction xss) (simp_all add: length_concat comp_def sum_list_triv)

lemma length_all_combinations: "length (all_combinations spec) = grid_size spec"
  by (simp add: all_combinations_def length_product_lists grid_size_def comp_def)

lemma distinct_paired: "distinct (map (\<lambda>v. (n, f v)) vs) = distinct (map f vs)"
  by (induction vs) auto

lemma distinct_all_combinations: "spec_valid spec \<Longrightarrow> distinct (all_combinations spec)"
  unfolding all_combinations_def
  by (rule distinct_product_lists) (auto simp: distinct_paired dest!: spec_valid_facts(2))

lemma combination_keys: "is_combination spec c \<Longrightarrow> map fst c = map ax_name (bs_axes spec)"
  unfolding is_combination_def by (induction rule: list_all2_induct) auto

lemma sampled_Inr:
  assumes "spec_valid spec" and "sampler_ok env" and "sampled env spec = Inr cs"
  shows "distinct cs" and "set cs \<subseteq> {c. is_combination spec c}" and "length cs = expected_count spec"
    and "bs_strategy spec \<noteq> ''sample'' \<Longrightarrow> set cs = {c. is_combination spec c}"
proof -
  let ?all = "all_combinations spec"
  have whole: "distinct cs \<and> set cs = {c. is_combination spec c} \<and> length cs = grid_size spec" if "cs = ?all"
    using that distinct_all_combinations [OF assms(1)] all_combinations_set length_all_combinations by simp
  have "distinct cs \<and> set cs \<subseteq> {c. is_combination spec c} \<and> length cs = expected_count spec \<and>
      (bs_strategy spec \<noteq> ''sample'' \<longrightarrow> set cs = {c. is_combination spec c})"
  proof (cases "bs_strategy spec = ''sample''")
    case False
    with assms(3) whole show ?thesis
      by (auto simp: sampled_def Let_def expected_count_def split: option.splits)
  next
    case True
    with assms(3) obtain n where n: "bs_max_items spec = Some n"
      by (auto simp: sampled_def Let_def split: option.splits)
    show ?thesis
    proof (cases "n < int (length ?all)")
      case False
      then have "cs = ?all" using True n assms(3) by (simp add: sampled_def Let_def)
      with True n False whole show ?thesis by (simp add: expected_count_def length_all_combinations)
    next
      case small: True
      let ?chosen = "ee_sample env (bs_sample_seed spec) (length ?all) (nat n)"
      have chosen: "length ?chosen = nat n" "distinct ?chosen" "set ?chosen \<subseteq> {..<length ?all}"
        using assms(2) small by (simp_all add: sampler_ok_def nat_le_iff)
      have cs: "cs = map ((!) ?all) (sort ?chosen)" using True n small assms(3) by (simp add: sampled_def Let_def)
      have "inj_on ((!) ?all) (set ?chosen)"
        using chosen(3) distinct_all_combinations [OF assms(1)]
        by (intro inj_onI) (metis lessThan_iff nth_eq_iff_index_eq subsetD)
      then have "distinct cs" using chosen(2) by (simp add: cs distinct_map)
      moreover have "set cs \<subseteq> {c. is_combination spec c}"
        using chosen(3) unfolding cs all_combinations_set [symmetric] by auto
      moreover have "length cs = expected_count spec"
        using True n small chosen(1) by (simp add: cs expected_count_def length_all_combinations)
      ultimately show ?thesis using True by simp
    qed
  qed
  then show "distinct cs" "set cs \<subseteq> {c. is_combination spec c}" "length cs = expected_count spec"
    "bs_strategy spec \<noteq> ''sample'' \<Longrightarrow> set cs = {c. is_combination spec c}" by blast+
qed

lemma combinations_Inr:
  assumes "spec_valid spec" and "sampler_ok env" and "combinations env spec = Inr cs"
  shows "distinct cs" and "set cs \<subseteq> {c. is_combination spec c}" and "length cs = expected_count spec"
    and "int (length cs) \<le> bs_limit spec"
    and "bs_strategy spec \<noteq> ''sample'' \<Longrightarrow> set cs = {c. is_combination spec c}"
proof -
  have "distinct cs \<and> set cs \<subseteq> {c. is_combination spec c} \<and> length cs = expected_count spec \<and>
      int (length cs) \<le> bs_limit spec \<and> (bs_strategy spec \<noteq> ''sample'' \<longrightarrow> set cs = {c. is_combination spec c})"
  proof (cases "bs_axes spec = []")
    case True
    with assms(3) have "cs = [[]]" by (simp add: combinations_def)
    moreover have "is_combination spec c \<longleftrightarrow> c = []" for c using True by (simp add: is_combination_def)
    ultimately show ?thesis
      using True spec_valid_facts(3,5) [OF assms(1)]
      by (auto simp: expected_count_def grid_size_def split: option.splits)
  next
    case False
    with assms(3) have "sampled env spec = Inr cs" "int (length cs) \<le> bs_limit spec"
      by (auto simp: combinations_def and_then_Inr split: if_splits)
    with sampled_Inr [OF assms(1,2)] show ?thesis by blast
  qed
  then show "distinct cs" "set cs \<subseteq> {c. is_combination spec c}" "length cs = expected_count spec"
    "int (length cs) \<le> bs_limit spec" "bs_strategy spec \<noteq> ''sample'' \<Longrightarrow> set cs = {c. is_combination spec c}"
    by blast+
qed

text \<open>
  C33: a batch is exactly its combinations. The first stage of a spec that was constructed has one
  item for each combination of one label per axis, no combination twice and none missing; with
  the sample strategy it has as many distinct ones as \<open>max_items\<close> and the grid allow. It never has
  more items than the limit.
\<close>

theorem items_are_combinations:
  assumes "spec_valid spec" and "sampler_ok env" and "expand_items env spec sg k None prefix = Inr items"
  shows "distinct (map bi_axis_values items) \<and> set (map bi_axis_values items) \<subseteq> {c. is_combination spec c} \<and>
     (bs_strategy spec = ''sample'' \<or> set (map bi_axis_values items) = {c. is_combination spec c}) \<and>
     length items = expected_count spec \<and> int (length items) \<le> bs_limit spec"
proof -
  obtain sources built where sources: "sources_of env spec None sources"
    and built: "build_items env spec sg k prefix 0 sources = Inr built"
    and items: "items = renumber_from spec (reseeds spec None) 0 (sort_key item_key built)"
    using assms(3) by (rule expand_items_Inr)
  obtain cs where cs: "combinations env spec = Inr cs" "sources = map (\<lambda>c. (c, None)) cs"
    using sources by (auto simp: sources_of_def)
  note facts = combinations_Inr [OF assms(1,2) cs(1)]
  have "dict_of_pairs c = c" if "c \<in> set cs" for c
  proof -
    have "map fst c = map ax_name (bs_axes spec)" using facts(2) that combination_keys by blast
    with spec_valid_facts(1) [OF assms(1)] show ?thesis by (intro dict_of_pairs_id) simp
  qed
  then have "map (dict_of_pairs \<circ> fst) sources = cs" by (simp add: cs(2) comp_def map_idI)
  with expanded_axis_values [OF sources built, of "reseeds spec None"]
  have same: "mset (map bi_axis_values items) = mset cs" by (simp add: items)
  then have "distinct (map bi_axis_values items)" "set (map bi_axis_values items) = set cs"
    "length items = length cs"
    using facts(1) mset_eq_imp_distinct_iff mset_eq_setD mset_eq_length by (metis, metis, metis length_map)
  with facts show ?thesis by metis
qed

section \<open>Order and seeds\<close>

text \<open>What the models document of a value that has the field's type already.\<close>

definition reader_ok :: "expansion_env \<Rightarrow> bool" where
  "reader_ok env \<longleftrightarrow> (\<forall>s. ee_text env (JStr s) = Some s) \<and> (\<forall>n. ee_int env (JInt n) = Some n)"

lemma unpatched_seed:
  assumes "build_request env spec choices sg position inherited = Inr r" and "reader_ok env"
    and "\<not> axis_values_patch_seed spec choices"
  shows "req_seed r = (if inherited \<noteq> None then inherited else resolve_seed spec position)"
proof -
  let ?seed = "if inherited \<noteq> None then inherited else resolve_seed spec position"
  have "''seed'' \<notin> snd ` set PATCH_APPEND_KEYS" by (simp add: PATCH_APPEND_KEYS_def)
  then have "patched_fields env spec choices position inherited ''seed'' = Some (int_field ?seed)"
    using assms(3) by (simp add: patched_fields_def fold_fields_other patches_seed_iff base_payload_def)
  then have "optional_field (ee_int env) (int_field ?seed) = Some (req_seed r)"
    using build_request_Inr(1) [OF assms(1)] by (simp add: reads_fields_def Let_def)
  with assms(2) show ?thesis
    by (cases ?seed) (auto simp: optional_field_def int_field_def reader_ok_def)
qed

lemma renumber_indices: "map bi_index (renumber_from spec b n items) = [n ..< n + length items]"
  by (induction items arbitrary: n) (simp_all add: upt_rec)

lemma sorted_by_model: "sorted (map (\<lambda>item. req_model_id (bi_request item)) (sort_key item_key items))"
proof -
  have "sorted_wrt (\<lambda>x y. item_key x \<le> item_key y) (sort_key item_key items)"
    using sorted_sort_key [of item_key items] by (simp only: sorted_map)
  then have "sorted_wrt (\<lambda>x y. req_model_id (bi_request x) \<le> req_model_id (bi_request y)) (sort_key item_key items)"
    by (rule sorted_wrt_mono_rel [rotated]) (auto simp: item_key_def less_eq_prod_def)
  then show ?thesis by (simp only: sorted_map)
qed

lemma item_of_expansion:
  assumes "expand_items env spec sg k seed_items prefix = Inr items" and "i < length items"
  obtains sources source built where "sources_of env spec seed_items sources" and "source \<in> set sources"
    and "item_from env spec sg source built" and "items ! i = renumbered spec (reseeds spec seed_items) i built"
proof -
  obtain sources built where sources: "sources_of env spec seed_items sources"
    and built: "build_items env spec sg k prefix 0 sources = Inr built"
    and items: "items = renumber_from spec (reseeds spec seed_items) 0 (sort_key item_key built)"
    using assms(1) by (rule expand_items_Inr)
  let ?item = "sort_key item_key built ! i"
  have "?item \<in> set built" using assms(2) items by (metis length_renumber nth_mem set_sort)
  then obtain n where n: "n < length built" "?item = built ! n" by (metis in_set_conv_nth)
  then have "sources ! n \<in> set sources" "item_from env spec sg (sources ! n) ?item"
    using build_items_Inr [OF built] by (simp_all add: list_all2_conv_all_nth)
  moreover have "items ! i = renumbered spec (reseeds spec seed_items) i ?item"
    using assms(2) items nth_renumber [of i "sort_key item_key built" spec "reseeds spec seed_items" 0] by simp
  ultimately show thesis using sources that by blast
qed

text \<open>
  Item \<open>i\<close> of a batch has seed \<open>base + i\<close>. The items are numbered consecutively in an order
  that keeps the items of one model together, and after that reordering the seed of every item
  whose axis values do not set one is the spec's under the shared policy and the base seed plus
  the item's own index under the other two.
\<close>

theorem items_grouped_and_seeded:
  assumes "reader_ok env" and "bs_seed_policy spec \<in> set SEED_POLICIES"
    and "expand_items env spec sg k None prefix = Inr items"
  shows "map bi_index items = [0 ..< length items] \<and>
     sorted (map (\<lambda>item. req_model_id (bi_request item)) items) \<and>
     (\<forall>i \<in> {..<length items}. axis_values_patch_seed spec (bi_axis_values (items ! i)) \<or>
        req_seed (bi_request (items ! i)) =
          (if bs_seed_policy spec = ''shared'' then bs_seed spec
           else Some ((case bs_seed spec of None \<Rightarrow> 0 | Some s \<Rightarrow> s) + int i)))"
proof (intro conjI ballI)
  obtain sources built where
    items: "items = renumber_from spec (reseeds spec None) 0 (sort_key item_key built)"
    using assms(3) by (rule expand_items_Inr)
  show "map bi_index items = [0 ..< length items]" by (simp add: items renumber_indices)
  show "sorted (map (\<lambda>item. req_model_id (bi_request item)) items)"
    using sorted_by_model [of built] by (simp add: items map_renumber)
  fix i
  assume "i \<in> {..<length items}"
  then have "i < length items" by simp
  with assms(3) obtain sources source built where sources: "sources_of env spec None sources" "source \<in> set sources"
    and built: "item_from env spec sg source built" and item: "items ! i = renumbered spec (reseeds spec None) i built"
    by (rule item_of_expansion)
  have none: "snd source = None" using sources by (auto simp: sources_of_def)
  let ?choices = "bi_axis_values built"
  have request: "build_request env spec ?choices sg (bi_index built) None = Inr (bi_request built)"
    using built none by (simp add: item_from_def)
  have "req_seed (bi_request (items ! i)) = resolve_seed spec i" if "\<not> axis_values_patch_seed spec ?choices"
  proof (cases "reseeds spec None")
    case True
    with that show ?thesis by (simp add: item renumbered_def Let_def)
  next
    case False
    then have "bs_seed_policy spec = ''shared''" using assms(2) by (auto simp: reseeds_def SEED_POLICIES_def)
    with False unpatched_seed [OF request assms(1) that] show ?thesis
      by (simp add: item renumbered_def Let_def resolve_seed_def)
  qed
  then show "axis_values_patch_seed spec (bi_axis_values (items ! i)) \<or>
        req_seed (bi_request (items ! i)) =
          (if bs_seed_policy spec = ''shared'' then bs_seed spec
           else Some ((case bs_seed spec of None \<Rightarrow> 0 | Some s \<Rightarrow> s) + int i))"
    by (cases "axis_values_patch_seed spec ?choices") (simp_all add: item resolve_seed_def)
qed

section \<open>A later stage\<close>

lemma reads_fields_unique:
  assumes "reads_fields env media m r" and "reads_fields env media m' r'" and "agree_but ''seed'' m m'"
  shows "r' = r\<lparr>req_seed := req_seed r', req_params := req_params r'\<rparr>"
    and "m ''seed'' = m' ''seed'' \<Longrightarrow> req_seed r' = req_seed r"
  using assms by (auto simp: reads_fields_def agree_but_def Let_def)

text \<open>The parameters of a request depend on the axis values and the stage, not on the seed or the position.\<close>

lemma apply_entry_params:
  assumes "apply_entry env locked a l entry pl = Inr pl1" and "apply_entry env locked a l entry pl' = Inr pl2"
    and "pl_params pl = pl_params pl'"
  shows "pl_params pl1 = pl_params pl2"
  using assms by (cases entry) (auto simp: apply_entry_def split: if_splits option.splits bool.splits json.splits)

lemma apply_patch_params:
  assumes "apply_patch_dict env locked a l patch pl = Inr pl1" and "apply_patch_dict env locked a l patch pl' = Inr pl2"
    and "pl_params pl = pl_params pl'"
  shows "pl_params pl1 = pl_params pl2"
  using assms
proof (induction patch arbitrary: pl pl')
  case (Cons entry patch)
  from Cons.prems(1,2) obtain q q' where "apply_entry env locked a l entry pl = Inr q" "apply_entry env locked a l entry pl' = Inr q'"
    "apply_patch_dict env locked a l patch q = Inr pl1" "apply_patch_dict env locked a l patch q' = Inr pl2"
    by (auto simp: and_then_Inr)
  with apply_entry_params [OF this(1,2) Cons.prems(3)] Cons.IH show ?case by blast
qed simp

lemma apply_axis_params:
  assumes "apply_axis_values env spec choices (pl, applied) = Inr (pl1, applied1)"
    and "apply_axis_values env spec choices (pl', applied) = Inr (pl2, applied2)"
    and "pl_params pl = pl_params pl'"
  shows "pl_params pl1 = pl_params pl2 \<and> applied1 = applied2"
  using assms
proof (induction choices arbitrary: pl pl' applied)
  case (Cons c choices)
  show ?case
  proof (cases "value_patch spec c")
    case None
    with Cons show ?thesis by simp
  next
    case (Some patch)
    let ?applied = "dict_set (fst c) (JObj (copy_dict patch)) applied"
    from Some Cons.prems(1,2) obtain q q' where
      "apply_patch_dict env (bs_locked_fields spec) (fst c) (snd c) patch pl = Inr q"
      "apply_patch_dict env (bs_locked_fields spec) (fst c) (snd c) patch pl' = Inr q'"
      "apply_axis_values env spec choices (q, ?applied) = Inr (pl1, applied1)"
      "apply_axis_values env spec choices (q', ?applied) = Inr (pl2, applied2)"
      by (auto simp: and_then_Inr)
    with apply_patch_params [OF this(1,2) Cons.prems(3)] Cons.IH show ?thesis by blast
  qed
qed simp

lemma build_request_params:
  assumes "build_request env spec choices sg position inherited = Inr r"
    and "build_request env spec choices sg' position' inherited' = Inr r'"
  obtains applied params where "req_params r = final_params spec sg choices applied params"
    and "req_params r' = final_params spec sg' choices applied params"
proof -
  obtain pl applied pl' applied' where
    patched: "apply_axis_values env spec choices (base_payload spec position inherited, []) = Inr (pl, applied)"
      "apply_axis_values env spec choices (base_payload spec position' inherited', []) = Inr (pl', applied')" and
    request: "request_of_payload env (pl\<lparr>pl_params := final_params spec sg choices applied (pl_params pl)\<rparr>) = Inr r"
      "request_of_payload env (pl'\<lparr>pl_params := final_params spec sg' choices applied' (pl_params pl')\<rparr>) = Inr r'"
    using assms by (auto simp: build_request_def and_then_Inr)
  have "pl_params pl = pl_params pl' \<and> applied = applied'"
    by (rule apply_axis_params [OF patched]) (simp add: base_payload_def)
  with request show thesis by (intro that) (auto simp: request_of_payload_def and_then_Inr)
qed

lemma deep_merge_other: "key \<notin> fst ` set patch \<Longrightarrow> map_of (deep_merge base patch) key = map_of base key"
  by (induction patch arbitrary: base) auto

lemma deep_merge_sets:
  assumes "distinct (map fst patch)" and "(key, value) \<in> set patch" and "\<nexists>nested. value = JObj nested"
  shows "map_of (deep_merge base patch) key = Some value"
  using assms(1,2)
proof (induction patch arbitrary: base)
  case (Cons e patch)
  show ?case
  proof (cases "e = (key, value)")
    case True
    then have "key \<notin> fst ` set patch" using Cons.prems(1) by auto
    moreover have "(case map_of base key of Some (JObj existing) \<Rightarrow>
        (case value of JObj nested \<Rightarrow> JObj (deep_merge existing nested) | _ \<Rightarrow> value) | _ \<Rightarrow> value) = value"
      using assms(3) by (auto split: option.splits json.splits)
    ultimately show ?thesis using True by (simp add: deep_merge_other)
  next
    case False
    with Cons show ?thesis by (cases e) auto
  qed
qed simp

text \<open>The entries of the parameters the expansion writes itself.\<close>

definition OWN_KEYS :: "string list" where
  "OWN_KEYS = [''bible_refs'', ''axis_values'', ''batch_axis_labels'', ''batch_stage'']"

lemma own_entries_same:
  assumes "map_of p key = map_of q key" and "key \<noteq> stage_key"
  shows "map_of (dict_set stage_key x (dict_set k1 v1
      (if c then (if b then p else dict_set k3 v3 p) else dict_set k2 v2 (if b then p else dict_set k3 v3 p)))) key =
    map_of (dict_set stage_key y (dict_set k1 v1
      (if c then (if b then q else dict_set k3 v3 q) else dict_set k2 v2 (if b then q else dict_set k3 v3 q)))) key"
  using assms by auto

lemma final_params_other:
  assumes "key \<noteq> ''batch_stage''" and "key \<notin> fst ` set (sg_param_overrides sg)" and "key \<notin> fst ` set (sg_param_overrides sg')"
  shows "map_of (final_params spec sg choices applied params) key = map_of (final_params spec sg' choices applied params) key"
proof -
  have "map_of (if sg_param_overrides sg = [] then params else deep_merge params (copy_dict (sg_param_overrides sg))) key =
      map_of (if sg_param_overrides sg' = [] then params else deep_merge params (copy_dict (sg_param_overrides sg'))) key"
    using assms(2,3) by (simp add: deep_merge_other)
  from own_entries_same [OF this assms(1)] show ?thesis unfolding final_params_def Let_def .
qed

lemma final_params_stage: "map_of (final_params spec sg choices applied params) ''batch_stage'' = Some (JStr (sg_name sg))"
  by (simp add: final_params_def Let_def)

lemma final_params_set:
  assumes "distinct (map fst (sg_param_overrides sg))" and "(key, value) \<in> set (sg_param_overrides sg)"
    and "\<nexists>nested. value = JObj nested" and "key \<notin> set OWN_KEYS"
  shows "map_of (final_params spec sg choices applied params) key = Some value"
proof -
  have "sg_param_overrides sg \<noteq> []" using assms(2) by auto
  with assms(4) deep_merge_sets [OF assms(1,2,3), of params] show ?thesis
    by (simp add: final_params_def Let_def OWN_KEYS_def)
qed

text \<open>The requests of one stage: what differs from the other only as the two stages say.\<close>

definition refines_request :: "stage \<Rightarrow> stage \<Rightarrow> generation_request \<Rightarrow> generation_request \<Rightarrow> bool" where
  "refines_request sg0 sg winner r \<longleftrightarrow>
     r = winner\<lparr>req_params := req_params r\<rparr> \<and>
     map_of (req_params r) ''batch_stage'' = Some (JStr (sg_name sg)) \<and>
     (\<forall>key. key \<notin> insert ''batch_stage'' (fst ` set (sg_param_overrides sg0) \<union> fst ` set (sg_param_overrides sg)) \<longrightarrow>
        map_of (req_params r) key = map_of (req_params winner) key) \<and>
     (distinct (map fst (sg_param_overrides sg)) \<longrightarrow>
        (\<forall>(key, value) \<in> set (sg_param_overrides sg). (\<nexists>nested. value = JObj nested) \<and> key \<notin> set OWN_KEYS \<longrightarrow>
           map_of (req_params r) key = Some value))"

text \<open>
  The items a batch can hold: those of a first stage, and those of a stage seeded by winners of one it
  already holds.
\<close>

inductive staged :: "expansion_env \<Rightarrow> batch_spec \<Rightarrow> stage \<Rightarrow> batch_item list \<Rightarrow> bool" for env spec where
  staged_first: "expand_items env spec sg k None prefix = Inr items \<Longrightarrow> staged env spec sg items"
| staged_next: "staged env spec sg0 before \<Longrightarrow> set winners \<subseteq> set before \<Longrightarrow>
    expand_items env spec sg k (Some winners) prefix = Inr items \<Longrightarrow> staged env spec sg items"

text \<open>What holds of every item of a stage, whichever it is: its request, and a seed that is settled.\<close>

definition built_by :: "expansion_env \<Rightarrow> batch_spec \<Rightarrow> stage \<Rightarrow> batch_item \<Rightarrow> bool" where
  "built_by env spec sg item \<longleftrightarrow>
     dict_of_pairs (bi_axis_values item) = bi_axis_values item \<and>
     (\<exists>position inherited r. build_request env spec (bi_axis_values item) sg position inherited = Inr r \<and>
        bi_request item = r\<lparr>req_seed := req_seed (bi_request item)\<rparr> \<and>
        (axis_values_patch_seed spec (bi_axis_values item) \<longrightarrow> req_seed (bi_request item) = req_seed r)) \<and>
     (\<not> axis_values_patch_seed spec (bi_axis_values item) \<longrightarrow> req_seed (bi_request item) = None \<longrightarrow>
        (\<forall>position. resolve_seed spec position = None))"

lemma resolve_seed_None: "resolve_seed spec p = None \<Longrightarrow> resolve_seed spec q = None"
  by (auto simp: resolve_seed_def split: if_splits)

lemma first_built_by:
  assumes "reader_ok env" and "expand_items env spec sg k None prefix = Inr items" and "item \<in> set items"
  shows "built_by env spec sg item"
proof -
  obtain i where i: "i < length items" "item = items ! i" using assms(3) by (auto simp: in_set_conv_nth)
  obtain sources source built where sources: "sources_of env spec None sources" "source \<in> set sources"
    and built: "item_from env spec sg source built" and first: "items ! i = renumbered spec (reseeds spec None) i built"
    using assms(2) i(1) by (rule item_of_expansion)
  have none: "snd source = None" using sources by (auto simp: sources_of_def)
  have cs: "bi_axis_values item = dict_of_pairs (fst source)" "bi_axis_values built = bi_axis_values item"
    using built by (simp_all add: i(2) first item_from_def)
  have request: "build_request env spec (bi_axis_values item) sg (bi_index built) None = Inr (bi_request built)"
    using built cs none by (simp add: item_from_def)
  have seed: "req_seed (bi_request item) =
      (if reseeds spec None \<and> \<not> axis_values_patch_seed spec (bi_axis_values item) then resolve_seed spec i
       else req_seed (bi_request built))"
    by (simp add: i(2) first renumbered_seed)
  have same: "bi_request item = (bi_request built)\<lparr>req_seed := req_seed (bi_request item)\<rparr>"
    by (simp add: i(2) first renumbered_def Let_def)
  have settled: "\<forall>position. resolve_seed spec position = None"
    if "\<not> axis_values_patch_seed spec (bi_axis_values item)" "req_seed (bi_request item) = None"
    using unpatched_seed [OF request assms(1) that(1)] seed that resolve_seed_None by (metis (full_types))
  have "dict_of_pairs (bi_axis_values item) = bi_axis_values item"
    using dict_of_pairs_id [OF dict_of_pairs_distinct] by (simp add: cs(1))
  moreover have "axis_values_patch_seed spec (bi_axis_values item) \<longrightarrow> req_seed (bi_request item) = req_seed (bi_request built)"
    using seed by simp
  ultimately show ?thesis unfolding built_by_def using request same settled by blast
qed

lemma refined_built_by:
  assumes "reader_ok env" and "\<forall>winner \<in> set winners. built_by env spec sg0 winner"
    and "expand_items env spec sg k (Some winners) prefix = Inr refined" and "item \<in> set refined"
  shows "built_by env spec sg item \<and> (\<exists>winner \<in> set winners. bi_axis_values item = bi_axis_values winner \<and>
     refines_request sg0 sg (bi_request winner) (bi_request item))"
proof -
  obtain j where j: "j < length refined" "item = refined ! j" using assms(4) by (auto simp: in_set_conv_nth)
  obtain sources source built where sources: "sources_of env spec (Some winners) sources" "source \<in> set sources"
    and built: "item_from env spec sg source built" and refined: "refined ! j = renumbered spec (reseeds spec (Some winners)) j built"
    using assms(3) j(1) by (rule item_of_expansion)
  obtain winner where winner: "winner \<in> set winners" "source = (bi_axis_values winner, req_seed (bi_request winner))"
    using sources by (auto simp: sources_of_def)
  let ?cs = "bi_axis_values winner"
  have "built_by env spec sg0 winner" using assms(2) winner(1) by blast
  then obtain position inherited r where cs: "dict_of_pairs ?cs = ?cs"
    and before: "build_request env spec ?cs sg0 position inherited = Inr r"
    and same0: "bi_request winner = r\<lparr>req_seed := req_seed (bi_request winner)\<rparr>"
    and patched: "axis_values_patch_seed spec ?cs \<longrightarrow> req_seed (bi_request winner) = req_seed r"
    and settled: "\<not> axis_values_patch_seed spec ?cs \<longrightarrow> req_seed (bi_request winner) = None \<longrightarrow>
        (\<forall>position. resolve_seed spec position = None)"
    unfolding built_by_def by (elim conjE exE) (rule that)
  have after: "build_request env spec ?cs sg (bi_index built) (req_seed (bi_request winner)) = Inr (bi_request built)"
    using built cs winner(2) by (simp add: item_from_def)
  have here: "bi_axis_values item = ?cs" "bi_request item = bi_request built"
    using built winner(2) cs refined j(2) by (simp_all add: item_from_def renumbered_def reseeds_def)
  let ?m0 = "patched_fields env spec ?cs position inherited"
  let ?m1 = "patched_fields env spec ?cs (bi_index built) (req_seed (bi_request winner))"
  have base: "agree_but ''seed'' (map_of (pl_fields (base_payload spec p s))) (map_of (pl_fields (base_payload spec p' s')))"
    for p s p' s' by (simp add: agree_but_def base_payload_def)
  have agree: "agree_but ''seed'' ?m0 ?m1"
    unfolding patched_fields_def by (rule fold_fields_seed(1) [OF base])
  note same = reads_fields_unique [OF build_request_Inr(1) [OF before] build_request_Inr(1) [OF after] agree]
  have seed: "req_seed (bi_request built) = req_seed (bi_request winner)"
  proof (cases "axis_values_patch_seed spec ?cs")
    case True
    then have "?m0 = ?m1"
      unfolding patched_fields_def using patches_seed_iff by (intro fold_fields_seed(2) [OF base]) blast
    with same(2) True patched show ?thesis by simp
  next
    case False
    with unpatched_seed [OF after assms(1) False] settled show ?thesis
      by (cases "req_seed (bi_request winner)") simp_all
  qed
  have fields: "bi_request built = (bi_request winner)\<lparr>req_params := req_params (bi_request built)\<rparr>"
  proof -
    have "bi_request built = r\<lparr>req_seed := req_seed (bi_request winner), req_params := req_params (bi_request built)\<rparr>"
      using same(1) seed by simp
    also have "\<dots> = (bi_request winner)\<lparr>req_params := req_params (bi_request built)\<rparr>"
      using arg_cong [OF same0, of "\<lambda>q. q\<lparr>req_params := req_params (bi_request built)\<rparr>"] by simp
    finally show ?thesis .
  qed
  obtain applied params where params: "req_params r = final_params spec sg0 ?cs applied params"
      "req_params (bi_request built) = final_params spec sg ?cs applied params"
    using before after by (rule build_request_params)
  have winner_params: "req_params (bi_request winner) = final_params spec sg0 ?cs applied params"
    using arg_cong [OF same0, of req_params] params(1) by simp
  have "refines_request sg0 sg (bi_request winner) (bi_request item)"
    unfolding refines_request_def here(2) winner_params params(2)
  proof (intro conjI allI impI ballI)
    show "bi_request built = (bi_request winner)\<lparr>req_params := final_params spec sg ?cs applied params\<rparr>"
      using fields by (simp only: params(2))
    show "map_of (final_params spec sg ?cs applied params) ''batch_stage'' = Some (JStr (sg_name sg))"
      by (rule final_params_stage)
    show "map_of (final_params spec sg ?cs applied params) key = map_of (final_params spec sg0 ?cs applied params) key"
      if "key \<notin> insert ''batch_stage'' (fst ` set (sg_param_overrides sg0) \<union> fst ` set (sg_param_overrides sg))" for key
      using that by (intro final_params_other) auto
    show "case e of (key, value) \<Rightarrow> (\<nexists>nested. value = JObj nested) \<and> key \<notin> set OWN_KEYS \<longrightarrow>
        map_of (final_params spec sg ?cs applied params) key = Some value"
      if "distinct (map fst (sg_param_overrides sg))" "e \<in> set (sg_param_overrides sg)" for e
      using that final_params_set by (cases e) blast
  qed
  moreover have "built_by env spec sg item"
    unfolding built_by_def here
  proof (intro conjI impI allI exI)
    show "build_request env spec ?cs sg (bi_index built) (req_seed (bi_request winner)) = Inr (bi_request built)" by (rule after)
    show "resolve_seed spec q = None" if "\<not> axis_values_patch_seed spec ?cs" "req_seed (bi_request built) = None" for q
      using settled that seed by simp
  qed (simp_all add: cs)
  ultimately show ?thesis using here(1) winner(1) by blast
qed

lemma staged_built_by:
  assumes "reader_ok env" and "staged env spec sg items"
  shows "\<forall>item \<in> set items. built_by env spec sg item"
  using assms(2)
proof (induction rule: staged.induct)
  case (staged_first sg k prefix items)
  with first_built_by [OF assms(1)] show ?case by blast
next
  case (staged_next sg0 before winners sg k prefix items)
  then have "\<forall>winner \<in> set winners. built_by env spec sg0 winner" by blast
  with refined_built_by [OF assms(1)] staged_next.hyps(3) show ?case by blast
qed

text \<open>
  C34: a later stage reproduces what it refines. Take winners of any stage of a batch, the first or one
  that was itself seeded by winners. Every item of the stage they seed has a winner's axis values and
  asks for the winner's request: the same task, prompts, model, output format and seed, so that the
  refined picture is the selected one. Of the parameters, all that neither the winner's stage nor the
  new one overrides are the winner's, whether they come from the spec or from the axis values; the
  new stage's own values are set, and the request names the new stage. (An override that is itself an
  object is merged into what is there, and the expansion's own entries are written after the overrides.)
\<close>

theorem refine_reproduces_winner:
  assumes "reader_ok env" and "staged env spec sg0 items" and "set winners \<subseteq> set items"
    and "expand_items env spec sg k (Some winners) prefix = Inr refined" and "item \<in> set refined"
  shows "\<exists>winner \<in> set winners. bi_axis_values item = bi_axis_values winner \<and>
     refines_request sg0 sg (bi_request winner) (bi_request item)"
proof -
  have "\<forall>winner \<in> set winners. built_by env spec sg0 winner"
    using staged_built_by [OF assms(1,2)] assms(3) by blast
  from refined_built_by [OF assms(1) this assms(4,5)] show ?thesis by blast
qed

section \<open>Locked fields\<close>

lemma locked_field_kept:
  assumes "build_request env spec choices sg position inherited = Inr r" and "key \<in> set (bs_locked_fields spec)"
    and "map_of PATCH_APPEND_KEYS key = None" and "key \<notin> snd ` set PATCH_APPEND_KEYS"
  shows "key \<notin> fst ` set (entries_of spec choices)"
    and "patched_fields env spec choices position inherited key = map_of (pl_fields (base_payload spec position inherited)) key"
proof -
  show "key \<notin> fst ` set (entries_of spec choices)"
    using build_request_Inr(2) [OF assms(1)] assms(2,3) unfolding sets_locked_def by blast
  then show "patched_fields env spec choices position inherited key = map_of (pl_fields (base_payload spec position inherited)) key"
    using assms(4) by (simp add: patched_fields_def fold_fields_other)
qed

lemma read_text_field: "reader_ok env \<Longrightarrow> optional_field (ee_text env) (text_field t) = Some t"
  by (cases t) (auto simp: optional_field_def text_field_def reader_ok_def)

text \<open>
  No axis value sets a locked field. Whether or not the spec went through its own check (the
  templates' overrides skip it), an expansion that succeeds leaves the model, the output format and
  the task of every item as the spec has them where they are locked, and no item's axis values set
  the seed where that is.
\<close>

theorem locked_fields_stand:
  assumes "reader_ok env" and "expand_items env spec sg k None prefix = Inr items" and "item \<in> set items"
  shows "(''model_id'' \<in> set (bs_locked_fields spec) \<longrightarrow> req_model_id (bi_request item) = bs_model_id spec) \<and>
     (''output_format'' \<in> set (bs_locked_fields spec) \<longrightarrow> req_output_format (bi_request item) = bs_output_format spec) \<and>
     (''task_type'' \<in> set (bs_locked_fields spec) \<longrightarrow> req_task_type (bi_request item) = bs_task_type spec) \<and>
     (''seed'' \<in> set (bs_locked_fields spec) \<longrightarrow> \<not> axis_values_patch_seed spec (bi_axis_values item))"
proof -
  obtain i where "i < length items" and i: "item = items ! i" using assms(3) by (auto simp: in_set_conv_nth)
  with assms(2) obtain sources source built where sources: "sources_of env spec None sources" "source \<in> set sources"
    and built: "item_from env spec sg source built" and item: "items ! i = renumbered spec (reseeds spec None) i built"
    by (elim item_of_expansion)
  let ?r = "bi_request built"
  have request: "build_request env spec (bi_axis_values built) sg (bi_index built) (snd source) = Inr ?r"
    using built by (simp add: item_from_def)
  note reads = build_request_Inr(1) [OF request, unfolded reads_fields_def Let_def]
  note kept = locked_field_kept [OF request]
  have same: "req_model_id (bi_request item) = req_model_id ?r" "req_output_format (bi_request item) = req_output_format ?r"
    "req_task_type (bi_request item) = req_task_type ?r" "bi_axis_values item = bi_axis_values built"
    by (simp_all add: i item renumbered_def Let_def)
  have "req_model_id ?r = bs_model_id spec" if "''model_id'' \<in> set (bs_locked_fields spec)"
    using reads kept(2) [OF that] assms(1) by (simp add: PATCH_APPEND_KEYS_def base_payload_def reader_ok_def)
  moreover have "req_output_format ?r = bs_output_format spec" if "''output_format'' \<in> set (bs_locked_fields spec)"
    using reads kept(2) [OF that] read_text_field [OF assms(1)] by (simp add: PATCH_APPEND_KEYS_def base_payload_def)
  moreover have "req_task_type ?r = bs_task_type spec" if "''task_type'' \<in> set (bs_locked_fields spec)"
    using reads kept(2) [OF that] read_text_field [OF assms(1)] by (simp add: PATCH_APPEND_KEYS_def base_payload_def)
  moreover have "\<not> axis_values_patch_seed spec (bi_axis_values built)" if "''seed'' \<in> set (bs_locked_fields spec)"
    using kept(1) [OF that] by (simp add: PATCH_APPEND_KEYS_def patches_seed_iff)
  ultimately show ?thesis unfolding same by blast
qed

section \<open>An example\<close>

definition sample_reader :: expansion_env where
  "sample_reader =
     \<lparr>ee_str = (\<lambda>_. []), ee_text = (\<lambda>j. case j of JStr s \<Rightarrow> Some s | _ \<Rightarrow> None),
      ee_int = (\<lambda>j. case j of JInt n \<Rightarrow> Some n | _ \<Rightarrow> None), ee_sample = (\<lambda>_ n k. [0..<k])\<rparr>"

definition sample_stage :: stage where
  "sample_stage = \<lparr>sg_name = ''probe'', sg_param_overrides = [(''steps'', JInt 4)], sg_keep_top_n = Some 1\<rparr>"

definition sample_batch :: batch_spec where
  "sample_batch =
     \<lparr>bs_name = ''tea house'', bs_media_type = Media_image, bs_task_type = None, bs_model_id = ''m'',
      bs_project_id = None, bs_prompt = ''a tea house'', bs_negative_prompt = None, bs_seed = Some 7,
      bs_output_format = Some ''png'', bs_params = [(''steps'', JInt 30)],
      bs_axes =
        [\<lparr>ax_name = ''style'', ax_values =
            [\<lparr>av_label = ''ink'', av_patch = [(''prompt_suffix'', JStr ''ink''), (''model_id'', JStr ''z'')], av_tags = []\<rparr>,
             \<lparr>av_label = ''photo'', av_patch = [], av_tags = []\<rparr>]\<rparr>,
         \<lparr>ax_name = ''size'', ax_values =
            [\<lparr>av_label = ''small'', av_patch = [(''width'', JInt 512)], av_tags = []\<rparr>,
             \<lparr>av_label = ''large'', av_patch = [(''width'', JInt 1024)], av_tags = []\<rparr>]\<rparr>],
      bs_bible_refs = [], bs_strategy = ''grid'', bs_max_items = None, bs_sample_seed = None,
      bs_seed_policy = ''per_item'', bs_stages = [], bs_limit = 64, bs_locked_fields = [''output_format'', ''seed'']\<rparr>"

definition sample_items :: "batch_item list" where
  "sample_items =
     (case expand_items sample_reader sample_batch sample_stage 0 None ''item'' of Inl _ \<Rightarrow> [] | Inr items \<Rightarrow> items)"

lemma sample_reader_ok: "sampler_ok sample_reader" "reader_ok sample_reader"
  by (auto simp: sampler_ok_def reader_ok_def sample_reader_def)

lemma sample_batch_valid: "spec_valid sample_batch"
  by code_simp

lemma sample_expands: "expand_items sample_reader sample_batch sample_stage 0 None ''item'' = Inr sample_items"
proof -
  have "case expand_items sample_reader sample_batch sample_stage 0 None ''item'' of Inl _ \<Rightarrow> False | Inr _ \<Rightarrow> True"
    by code_simp
  then show ?thesis by (simp add: sample_items_def split: sum.splits)
qed

theorem items_are_combinations_witness:
  "length sample_items = 4 \<and> set (map bi_axis_values sample_items) = {c. is_combination sample_batch c}"
proof -
  have "expected_count sample_batch = 4" "bs_strategy sample_batch \<noteq> ''sample''" by code_simp+
  with items_are_combinations [OF sample_batch_valid sample_reader_ok(1) sample_expands] show ?thesis by auto
qed

theorem items_grouped_and_seeded_witness:
  "map (\<lambda>item. (bi_label item, req_model_id (bi_request item), req_seed (bi_request item))) sample_items =
     [(''photo__small'', ''m'', Some 7), (''photo__large'', ''m'', Some 8), (''ink__small'', ''z'', Some 9),
      (''ink__large'', ''z'', Some 10)] \<and>
   sorted (map (\<lambda>item. req_model_id (bi_request item)) sample_items)"
proof
  show "map (\<lambda>item. (bi_label item, req_model_id (bi_request item), req_seed (bi_request item))) sample_items =
     [(''photo__small'', ''m'', Some 7), (''photo__large'', ''m'', Some 8), (''ink__small'', ''z'', Some 9),
      (''ink__large'', ''z'', Some 10)]"
    by code_simp
  have "bs_seed_policy sample_batch \<in> set SEED_POLICIES" by code_simp
  with items_grouped_and_seeded [OF sample_reader_ok(2) _ sample_expands]
  show "sorted (map (\<lambda>item. req_model_id (bi_request item)) sample_items)" by blast
qed

theorem refine_reproduces_winner_witness:
  "\<exists>refined. expand_items sample_reader sample_batch sample_stage 1 (Some (drop 3 sample_items)) ''item'' = Inr refined \<and>
     map (\<lambda>item. (req_seed (bi_request item), map_of (req_params (bi_request item)) ''width'')) refined = [(Some 10, Some (JInt 1024))] \<and>
     (\<exists>winner \<in> set sample_items. refines_request sample_stage sample_stage (bi_request winner) (bi_request (hd refined)))"
proof -
  have eval: "case expand_items sample_reader sample_batch sample_stage 1 (Some (drop 3 sample_items)) ''item'' of
      Inl _ \<Rightarrow> False
    | Inr refined \<Rightarrow> map (\<lambda>item. (req_seed (bi_request item), map_of (req_params (bi_request item)) ''width'')) refined =
        [(Some 10, Some (JInt 1024))]"
    by code_simp
  then obtain refined where run: "expand_items sample_reader sample_batch sample_stage 1 (Some (drop 3 sample_items)) ''item'' = Inr refined"
    "map (\<lambda>item. (req_seed (bi_request item), map_of (req_params (bi_request item)) ''width'')) refined = [(Some 10, Some (JInt 1024))]"
    by (auto split: sum.splits)
  then have "hd refined \<in> set refined" by (cases refined) auto
  then obtain winner where winner: "winner \<in> set (drop 3 sample_items)"
    "refines_request sample_stage sample_stage (bi_request winner) (bi_request (hd refined))"
    using refine_reproduces_winner [OF sample_reader_ok(2) staged_first [OF sample_expands] set_drop_subset run(1)] by blast
  have "winner \<in> set sample_items" using winner(1) by (rule in_set_dropD)
  with run winner(2) show ?thesis by (intro exI [of _ refined] conjI bexI [of _ winner])
qed

theorem locked_fields_stand_witness:
  "map (\<lambda>item. req_output_format (bi_request item)) sample_items = replicate 4 (Some ''png'') \<and>
   req_output_format (bi_request (hd sample_items)) = bs_output_format sample_batch"
proof
  show png: "map (\<lambda>item. req_output_format (bi_request item)) sample_items = replicate 4 (Some ''png'')" by code_simp
  then have "sample_items \<noteq> []" by auto
  then have "hd sample_items \<in> set sample_items" by (rule hd_in_set)
  moreover have "''output_format'' \<in> set (bs_locked_fields sample_batch)" by code_simp
  ultimately show "req_output_format (bi_request (hd sample_items)) = bs_output_format sample_batch"
    using locked_fields_stand [OF sample_reader_ok(2) sample_expands] by blast
qed

text \<open>
  A patch may set a locked parameter all the same: the check looks at the outer key only, so a value
  under \<open>params\<close> passes both the spec's check and the expansion's.
\<close>

definition nested_batch :: batch_spec where
  "nested_batch = sample_batch\<lparr>bs_locked_fields := [''steps''], bs_seed_policy := ''shared'',
     bs_axes := [\<lparr>ax_name = ''cost'', ax_values =
       [\<lparr>av_label = ''cheap'', av_patch = [(''params'', JObj [(''steps'', JInt 1)])], av_tags = []\<rparr>]\<rparr>]\<rparr>"

lemma nested_params_pass_the_lock:
  "spec_valid nested_batch \<and>
   (case expand_items sample_reader nested_batch (sample_stage\<lparr>sg_param_overrides := []\<rparr>) 0 None ''item'' of
      Inl _ \<Rightarrow> [] | Inr items \<Rightarrow> map (\<lambda>item. map_of (req_params (bi_request item)) ''steps'') items) = [Some (JInt 1)]"
  by code_simp

end
