(* ===== verification/Batch_Lifecycle.thy ===== *)
theory Batch_Lifecycle imports Batch_Facts Batch_Grid begin

text \<open>
  What a batch can rely on: a cancelled batch stays cancelled and starts nothing, an id that was
  assigned stays, creating a batch touches no other one, and the status, the aggregate and the
  winners say what the items say.
\<close>

section \<open>Creation among the other batches\<close>

text \<open>
  The ids are those of \<open>uuid4\<close>: no two are equal, none is the name of a file that is there, and
  no other thread uses one that this thread is yet to mint.
\<close>

definition fresh_ids :: "'y batch_world_scheme \<Rightarrow> bool" where
  "fresh_ids w \<longleftrightarrow>
     inj (bw_uuids w) \<and>
     (\<forall>k. bw_minted w \<le> k \<longrightarrow>
        batch_name w k \<notin> dom (map_of (bw_batches w)) \<and> batch_name w k \<notin> others_names w)"

definition batches_durable :: "'y batch_world_scheme \<Rightarrow> 'y batch_world_scheme \<Rightarrow> bool" where
  "batches_durable w w' \<longleftrightarrow>
     (names_ok (bw_batches w) \<and> fresh_ids w \<longrightarrow>
        names_ok (bw_batches w') \<and> fresh_ids w' \<and> dir_follows (bw_batches w) (bw_batches w'))"

interpretation durable: step_preorder batches_durable
  by unfold_locales (auto simp: batches_durable_def intro: dir_follows_trans)

lemma same_names: "sources_kept w w' \<Longrightarrow> batch_name w' = batch_name w"
  by (simp add: sources_kept_def batch_name_def fun_eq_iff)

lemma evolve_durable:
  assumes "batches_evolve w w'"
  shows "batches_durable w w'"
  unfolding batches_durable_def
proof (intro impI, elim conjE)
  assume ok: "names_ok (bw_batches w)" "fresh_ids w"
  with assms have kept: "names_ok (bw_batches w')" "dir_follows (bw_batches w) (bw_batches w')" "sources_kept w w'"
    "new_files_known w w'"
    by (simp_all add: batches_evolve_def)
  have inj: "inj (bw_uuids w)" using ok(2) by (simp add: fresh_ids_def)
  have fresh: "batch_name w' k \<notin> dom (map_of (bw_batches w')) \<and> batch_name w' k \<notin> others_names w'"
    if "bw_minted w' \<le> k" for k
  proof
    have old: "batch_name w k \<notin> dom (map_of (bw_batches w))" "batch_name w k \<notin> others_names w"
      using ok(2) kept(3) that by (auto simp: fresh_ids_def sources_kept_def)
    have "batch_name w k \<noteq> batch_name w j" if "j < bw_minted w'" for j
      using inj \<open>bw_minted w' \<le> k\<close> that by (auto simp: batch_name_def dest: injD)
    with old kept(4) show "batch_name w' k \<notin> dom (map_of (bw_batches w'))"
      unfolding same_names [OF kept(3)] new_files_known_def by blast
    show "batch_name w' k \<notin> others_names w'"
      using old(2) kept(3) unfolding same_names [OF kept(3)] by (auto simp: sources_kept_def)
  qed
  with inj kept(3) have "fresh_ids w'" by (simp add: fresh_ids_def sources_kept_def)
  with kept show "names_ok (bw_batches w') \<and> fresh_ids w' \<and> dir_follows (bw_batches w) (bw_batches w')" by simp
qed

lemma fresh_name_is_new:
  assumes "names_ok (bw_batches w)" and "fresh_ids w" and "batches_still w v" and "bw_minted w < bw_minted v"
    and "batches_evolve v u"
  shows "batch_name w (bw_minted w) \<notin> dom (map_of (bw_batches u))"
proof -
  have v: "bw_batches v = bw_batches w" "others_names v \<subseteq> others_names w" "bw_uuids v = bw_uuids w"
    using assms(3) by (simp_all add: batches_still_def sources_kept_def)
  then have "new_files_known v u" using assms(1,5) by (simp add: batches_evolve_def)
  moreover have "batch_name w (bw_minted w) \<noteq> batch_name v k" if "bw_minted v \<le> k" for k
    using that assms(2,4) v(3) by (auto simp: fresh_ids_def batch_name_def dest: injD)
  moreover have "batch_name w (bw_minted w) \<notin> dom (map_of (bw_batches w))" "batch_name w (bw_minted w) \<notin> others_names w"
    using assms(2) by (simp_all add: fresh_ids_def)
  ultimately show ?thesis using v(1,2) unfolding new_files_known_def by auto
qed

lemma creation_durable:
  assumes still: "batches_still w v" and minted: "bw_minted w < bw_minted v" and id: "br_id r = batch_name w (bw_minted w)"
    and run: "batch_create r v = (q, w')"
  shows "batches_durable w w'"
  unfolding batches_durable_def
proof (intro impI, elim conjE)
  assume ok: "names_ok (bw_batches w)" "fresh_ids w"
  obtain v1 u where part: "bw_locked v1" "batches_evolve v v1" "w' = release_lock (bw_locked v) u"
    and m: "bnd (batch_write r) (\<lambda>_. ret r) v1 = (q, u)"
    using run unfolding batch_create_def by (rule exclusively_runs)
  obtain x where wr: "batch_write r v1 = (x, u)" using m by (auto elim: bnd_runs)
  note wrote = batch_write_locked [OF part(1) wr]
  have v1: "names_ok (bw_batches v1)" "fresh_ids v1" "dir_follows (bw_batches w) (bw_batches v1)"
    using ok durable.R_trans [OF evolve_durable [OF still_evolves [OF still]] evolve_durable [OF part(2)]]
    by (simp_all add: batches_durable_def)
  have new: "br_id r \<notin> dom (map_of (bw_batches v1))"
    unfolding id using ok still minted part(2) by (rule fresh_name_is_new)
  then have may: "may_write r (bw_batches v1)" by (simp add: may_write_def domIff)
  have less: "bw_minted w < bw_minted v1" and uuids: "bw_uuids v1 = bw_uuids w"
    using ok still minted part(2) by (simp_all add: batches_evolve_def batches_still_def sources_kept_def)
  have other: "batch_name v1 k \<noteq> br_id r" if "bw_minted v1 \<le> k" for k
    using that less uuids v1(2) unfolding id by (auto simp: fresh_ids_def batch_name_def dest: injD)
  have files: "bw_batches u = bw_batches v1 \<or> bw_batches u = dir_write (br_id r) r (bw_batches v1)"
    using wrote(3,4) by (cases "x = Inr ()") auto
  then have dirs: "names_ok (bw_batches u)" "dir_follows (bw_batches v1) (bw_batches u)"
    "dom (map_of (bw_batches u)) \<subseteq> insert (br_id r) (dom (map_of (bw_batches v1)))"
    using v1(1) write_follows [OF may] by (elim disjE; auto split: if_splits)+
  have fresh: "batch_name v1 k \<notin> dom (map_of (bw_batches u)) \<and> batch_name v1 k \<notin> others_names u"
    if "bw_minted u \<le> k" for k
  proof -
    have "bw_minted v1 \<le> k" "others_names u \<subseteq> others_names v1"
      using wrote(2) that by (simp_all add: sources_kept_def)
    with v1(2) other [of k] dirs(3) show ?thesis unfolding fresh_ids_def by blast
  qed
  moreover have "inj (bw_uuids u)" using v1(2) wrote(2) by (simp add: fresh_ids_def sources_kept_def)
  ultimately have "fresh_ids u" by (simp add: fresh_ids_def same_names [OF wrote(2)])
  moreover have "fresh_ids (release_lock outer u) = fresh_ids u" for outer
    by (simp add: fresh_ids_def release_lock_def batch_name_def)
  ultimately show "names_ok (bw_batches w') \<and> fresh_ids w' \<and> dir_follows (bw_batches w) (bw_batches w')"
    using dirs(1,2) v1(3) dir_follows_trans unfolding part(3) by auto
qed

lemma create_batch_durable:
  assumes "delivers_within batches_evolve (bt_jobs bt)"
  shows "holds_along batches_durable (create_batch bt spec)"
  unfolding holds_along_def
proof
  fix w
  obtain q w' where run: "create_batch bt spec w = (q, w')" by (cases "create_batch bt spec w")
  let ?spec = "if bt_max_items_limit bt < bs_limit spec then spec\<lparr>bs_limit := bt_max_items_limit bt\<rparr> else spec"
  let ?id = "batch_name w (bw_minted w)" and ?v = "w\<lparr>bw_minted := Suc (bw_minted w)\<rparr>"
  have v: "batches_still w ?v" by (simp add: batches_still_def sources_kept_def others_names_def)
  obtain p u where exp: "expanded bt ?spec (hd (resolved_stages ?spec)) 0 None ?id ?v = (p, u)" by fastforce
  have u: "batches_still w u" "batches_still ?v u"
    using v batch_still.frame_runs [OF still_expanded exp] by (auto intro: still_trans)
  show "batches_durable w (snd (create_batch bt spec w))"
  proof (cases p)
    case (Inl e)
    with run exp have "w' = u" by (simp add: create_batch_def Let_def bnd_def mint_uuid_def batch_name_def)
    with run u(1) show ?thesis by (auto intro: evolve_durable still_evolves)
  next
    case (Inr items)
    obtain now u1 where now: "read_now u = (Inr now, u1)" "u1 = interfere u" by (simp add: read_now_def atomic_def)
    have u1: "batches_still w u1" "bw_minted w < bw_minted u1"
      using u(2) now(2) still_trans [OF u(1) batch_still.R_interfere] by (simp_all add: batches_still_def sources_kept_def)
    let ?r = "new_batch ?id ?spec items now"
    obtain x u2 where made: "batch_create ?r u1 = (x, u2)" by fastforce
    have created: "batches_durable w u2" using u1 _ made by (rule creation_durable) (simp add: new_batch_def)
    show ?thesis
    proof (cases x)
      case Inl
      with run exp Inr now(1) made have "w' = u2"
        by (simp add: create_batch_def Let_def bnd_def mint_uuid_def batch_name_def)
      with run created show ?thesis by simp
    next
      case (Inr r)
      with run exp \<open>p = Inr items\<close> now(1) made
      have "create_attempts bt (br_id r) STARTUP_BATCH_SCAN_MAX_ATTEMPTS r u2 = (q, w')"
        by (simp add: create_batch_def Let_def bnd_def mint_uuid_def batch_name_def)
      with ruled.passes(3) [OF assms] have "batches_evolve u2 w'" by (rule batches.frame_runs)
      with created run show ?thesis by (auto intro: durable.R_trans evolve_durable)
    qed
  qed
qed

section \<open>Cancellation\<close>

definition cancelled_on_disk :: "string \<Rightarrow> 'y batch_world_scheme \<Rightarrow> bool" where
  "cancelled_on_disk batch_id w \<longleftrightarrow>
     (\<exists>b. map_of (bw_batches w) batch_id = Some (Document b) \<and> br_cancellation_requested b)"

lemma cancelled_kept:
  "dir_follows (bw_batches w) (bw_batches w') \<Longrightarrow> cancelled_on_disk batch_id w \<Longrightarrow> cancelled_on_disk batch_id w'"
  unfolding cancelled_on_disk_def dir_follows_def batch_follows_def by blast

lemma cancelled_evolves:
  "batches_evolve w w' \<Longrightarrow> names_ok (bw_batches w) \<Longrightarrow> cancelled_on_disk batch_id w \<Longrightarrow> cancelled_on_disk batch_id w'"
  by (auto simp: batches_evolve_def intro: cancelled_kept)

text \<open>The read of a record that is there, under the lock.\<close>

lemma diagnose_locked:
  assumes "bw_locked w" and "map_of (bw_batches w) batch_id = Some (Document b)"
  shows "(\<exists>u. batch_get_or_diagnose batch_id w = (Inr (None, True), u)) \<or>
    (\<exists>u. batch_get_or_diagnose batch_id w = (Inr (Some b, False), u))"
proof -
  obtain q u where run: "batch_get_or_diagnose batch_id w = (q, u)" by fastforce
  from batch_step_locked [OF assms(1) run [unfolded batch_get_or_diagnose_def]] run assms(2)
  show ?thesis by (auto simp: batch_read_def dir_get_def loaded_def split: if_splits)
qed

lemma cancelled_locked:
  assumes "names_ok (bw_batches w)" and "cancelled_on_disk batch_id w"
  obtains b where "map_of (bw_batches (snd (acquire_lock w))) batch_id = Some (Document b)" and "br_cancellation_requested b"
proof -
  have "batches_evolve w (snd (acquire_lock w))" using others_act_evolves [of w] by (simp add: batches_evolve_def)
  from cancelled_evolves [OF this assms] that show thesis by (auto simp: cancelled_on_disk_def)
qed

lemma cancelled_exposure:
  assumes "names_ok (bw_batches w)" and "cancelled_on_disk batch_id w"
  shows "\<exists>d u. d \<in> {Expose_cancelled, Expose_unreadable} \<and>
    (\<forall>bt job_id s. authorize_and_expose bt batch_id job_id s w = (Inr d, u))"
proof -
  let ?v = "snd (acquire_lock w)"
  obtain b where b: "map_of (bw_batches ?v) batch_id = Some (Document b)" "br_cancellation_requested b"
    using assms by (rule cancelled_locked)
  have "bw_locked ?v" by simp
  from diagnose_locked [OF this b(1)] show ?thesis
  proof (elim disjE exE)
    fix u
    assume "batch_get_or_diagnose batch_id ?v = (Inr (None, True), u)"
    then show ?thesis
      by (intro exI [of _ Expose_unreadable] exI [of _ "release_lock (bw_locked w) u"])
        (simp add: authorize_and_expose_def exclusively_def acquire_lock_def finally_do_def bnd_def ret_def)
  next
    fix u
    assume "batch_get_or_diagnose batch_id ?v = (Inr (Some b, False), u)"
    with b(2) show ?thesis
      by (intro exI [of _ Expose_cancelled] exI [of _ "release_lock (bw_locked w) u"])
        (simp add: authorize_and_expose_def exclusively_def acquire_lock_def finally_do_def bnd_def ret_def)
  qed
qed

text \<open>
  C15: an exposure is exclusive. Where a child was enqueued, it was enqueued while this thread held
  the lock, with no save of another thread since the read that found the batch on disk and not
  cancelled, and for a row that was queued.
\<close>

theorem exposure_is_exclusive:
  assumes "authorize_and_expose bt batch_id job_id s w = (Inr Expose_enqueued, w')"
  shows "s = Queued \<and>
    (\<exists>v b u x. bw_locked v \<and> batches_evolve w v \<and> map_of (bw_batches v) batch_id = Some (Document b) \<and>
       \<not> br_cancellation_requested b \<and> service_enqueue_job (bt_jobs bt) job_id v = (Inr x, u) \<and>
       w' = release_lock (bw_locked w) u)"
proof -
  obtain v0 u where part: "bw_locked v0" "batches_evolve w v0" "w' = release_lock (bw_locked w) u"
    and run: "bnd (batch_get_or_diagnose batch_id) (\<lambda>(record, uncertain).
       case record of
         None \<Rightarrow> ret (if uncertain then Expose_unreadable else Expose_absent)
       | Some r \<Rightarrow>
           if br_cancellation_requested r then ret Expose_cancelled
           else if s \<noteq> Queued then ret Expose_not_queued
           else bnd (service_enqueue_job (bt_jobs bt) job_id) (\<lambda>_. ret Expose_enqueued)) v0 = (Inr Expose_enqueued, u)"
    using assms unfolding authorize_and_expose_def by (rule exclusively_runs)
  from run obtain r v x where read: "batch_get_or_diagnose batch_id v0 = (Inr (Some r, False), v) \<or>
      batch_get_or_diagnose batch_id v0 = (Inr (Some r, True), v)"
    and rest: "\<not> br_cancellation_requested r" "s = Queued" "service_enqueue_job (bt_jobs bt) job_id v = (Inr x, u)"
    by (auto elim!: bnd_runs split: option.splits if_splits) metis+
  from read obtain c where read: "batch_get_or_diagnose batch_id v0 = (Inr (Some r, c), v)" by blast
  note step = batch_step_locked [OF part(1) read [unfolded batch_get_or_diagnose_def]]
  have "map_of (bw_batches v) batch_id = Some (Document r)" "batches_still v0 v"
    using step part(1) by (auto simp: batches_still_def batch_read_def dir_get_Some split: if_splits option.splits)
  with rest part step(3) still_evolves batches.R_trans show ?thesis by blast
qed

text \<open>A stage of a cancelled batch: the locked read, and nothing after it.\<close>

lemma apply_and_save_result:
  assumes "apply_and_save f current w = (Inr (Some r), w')"
  obtains s v where "f current w = (Inr (Some s), v)" and "\<exists>now. r = s \<or> r = s\<lparr>br_updated_at := now\<rparr>"
proof -
  from assms obtain updated v where run: "f current w = (Inr updated, v)" and rest: "(case updated of
         None \<Rightarrow> ret None
       | Some r \<Rightarrow>
           if (case current of None \<Rightarrow> False | Some snapshot \<Rightarrow> batch_eq r snapshot) then ret (Some r)
           else bnd (batch_save r) (\<lambda>saved. ret (Some saved))) v = (Inr (Some r), w')"
    unfolding apply_and_save_def by (elim bnd_runs) simp_all
  then obtain s where s: "updated = Some s" by (cases updated) auto
  have "\<exists>now. t = s\<lparr>br_updated_at := now\<rparr>" if "batch_save s v = (Inr t, u)" for t u
    using that by (auto simp: batch_save_def exclusively_def acquire_lock_def Let_def elim!: finally_runs bnd_runs)
  with rest s have "\<exists>now. r = s \<or> r = s\<lparr>br_updated_at := now\<rparr>"
    by (auto split: if_splits elim!: bnd_runs)
  with run s that show thesis by blast
qed

lemma mutation_result:
  assumes "batch_mutate batch_id (when_present f) w = (Inr (Some r), w')" and "closure_ok f"
  obtains c s v u now where "batches_evolve w v" and "map_of (bw_batches v) batch_id = Some (Document c)"
    and "f c v = (Inr s, u)" and "r = s \<or> r = s\<lparr>br_updated_at := now\<rparr>"
  using assms(1) closure_keeps [OF assms(2)]
proof (cases rule: mutate_runs)
  case (mutated current v u)
  from mutated(4) obtain s v1 where s: "when_present f current v = (Inr (Some s), v1)"
    and r: "\<exists>now. r = s \<or> r = s\<lparr>br_updated_at := now\<rparr>"
    by (rule apply_and_save_result)
  from s obtain c where c: "current = Some c" "f c v = (Inr s, v1)"
    by (cases rule: when_present_runs) auto
  from r obtain now where "r = s \<or> r = s\<lparr>br_updated_at := now\<rparr>" by blast
  with mutated(1) _ c(2) show thesis by (rule that) (use mutated(3) c(1) in simp)
qed simp

lemma assigning_cancelled:
  assumes "names_ok (bw_batches w)" and "cancelled_on_disk batch_id w"
    and "batch_mutate batch_id (when_present (assign_ids k)) w = (Inr (Some r), w')"
  shows "br_cancellation_requested r"
proof -
  obtain c s v u now where run: "batches_evolve w v" "map_of (bw_batches v) batch_id = Some (Document c)"
    "assign_ids k c v = (Inr s, u)" "r = s \<or> r = s\<lparr>br_updated_at := now\<rparr>"
    using assms(3) assign_closure by (rule mutation_result)
  have "br_cancellation_requested c" using cancelled_evolves [OF run(1) assms(1,2)] run(2) by (auto simp: cancelled_on_disk_def)
  with run(3,4) show ?thesis by (auto simp: assign_ids_def)
qed

text \<open>
  C14: a cancelled batch starts nothing. For a batch whose record is cancelled on disk, enqueueing a
  stage is its first locked mutation and nothing else, so no row is created and no job service is
  called; and the decision that would hand a child to the queue has one outcome, cancelled or
  unreadable, whatever the job service and the child are.
\<close>

theorem cancelled_batch_starts_nothing:
  assumes "names_ok (bw_batches w)" and "cancelled_on_disk batch_id w"
  shows "enqueue_stage bt batch_id k w = batch_mutate batch_id (when_present (assign_ids k)) w \<and>
    (\<exists>d u. d \<in> {Expose_cancelled, Expose_unreadable} \<and>
       (\<forall>bt job_id s. authorize_and_expose bt batch_id job_id s w = (Inr d, u)))"
proof (rule conjI [OF _ cancelled_exposure [OF assms]])
  obtain q v where run: "batch_mutate batch_id (when_present (assign_ids k)) w = (q, v)" by fastforce
  then show "enqueue_stage bt batch_id k w = batch_mutate batch_id (when_present (assign_ids k)) w"
    using assigning_cancelled [OF assms, of k _ v]
    by (auto simp: enqueue_stage_def bnd_def split: sum.splits option.splits)
qed

text \<open>What a cancellation leaves behind: the intent, and no item that could still get a job.\<close>

definition cancellation_settled :: "string \<Rightarrow> 'y batch_world_scheme \<Rightarrow> bool" where
  "cancellation_settled batch_id w \<longleftrightarrow>
     (\<exists>b. map_of (bw_batches w) batch_id = Some (Document b) \<and> br_cancellation_requested b \<and>
        (\<forall>item \<in> set (br_items b). bi_job_id item = None \<longrightarrow> item_terminal item))"

lemma list_all2_partner: "list_all2 P xs ys \<Longrightarrow> y \<in> set ys \<Longrightarrow> \<exists>x \<in> set xs. P x y"
  by (induction rule: list_all2_induct) auto

lemma settled_follows:
  assumes "batch_follows a b" and "br_cancellation_requested a"
    and "\<forall>item \<in> set (br_items a). bi_job_id item = None \<longrightarrow> item_terminal item"
  shows "br_cancellation_requested b \<and> (\<forall>item \<in> set (br_items b). bi_job_id item = None \<longrightarrow> item_terminal item)"
proof -
  have ids: "map bi_job_id (br_items b) = map bi_job_id (br_items a)" using assms(1,2) by (simp add: batch_follows_def)
  then have len: "length (br_items b) = length (br_items a)" by (metis length_map)
  with assms(1) have "list_all2 item_follows (br_items a) (br_items b)" by (simp add: batch_follows_def)
  then have "item_terminal j" if "j \<in> set (br_items b)" "bi_job_id j = None" for j
  proof -
    have "\<exists>i \<in> set (br_items a). item_follows i j"
      using \<open>list_all2 item_follows (br_items a) (br_items b)\<close> that(1) by (rule list_all2_partner)
    with that(2) assms(3) show ?thesis by (auto simp: item_follows_def)
  qed
  with assms(1,2) show ?thesis by (simp add: batch_follows_def)
qed

lemma settled_kept:
  "dir_follows (bw_batches w) (bw_batches w') \<Longrightarrow> cancellation_settled batch_id w \<Longrightarrow> cancellation_settled batch_id w'"
  unfolding cancellation_settled_def dir_follows_def using settled_follows by meson

lemma item_eq_parts: "item_eq i j \<Longrightarrow> bi_job_id j = bi_job_id i \<and> bi_status j = bi_status i"
proof -
  assume "item_eq i j"
  then have "i\<lparr>bi_axis_values := [], bi_request := bi_request j\<rparr> = j\<lparr>bi_axis_values := []\<rparr>" by (simp add: item_eq_def)
  from arg_cong [OF this, of bi_job_id] arg_cong [OF this, of bi_status] show ?thesis by simp
qed

lemma settled_recorded:
  assumes "recorded r w" and "br_id r = batch_id" and "br_cancellation_requested r"
    and "\<And>i. i \<in> set (br_items r) \<Longrightarrow> bi_job_id i = None \<Longrightarrow> item_terminal i"
  shows "cancellation_settled batch_id w"
proof -
  obtain d where d: "map_of (bw_batches w) (br_id r) = Some (Document d)" "d = r \<or> batch_eq r d"
    using assms(1) by (auto simp: recorded_def)
  have "br_cancellation_requested d \<and> (\<forall>i \<in> set (br_items d). bi_job_id i = None \<longrightarrow> item_terminal i)"
    using d(2)
  proof
    assume eq: "batch_eq r d"
    then have items: "list_all2 item_eq (br_items r) (br_items d)"
      and same: "r\<lparr>br_spec := br_spec d, br_items := []\<rparr> = d\<lparr>br_items := []\<rparr>"
      by (simp_all add: batch_eq_def)
    have "item_terminal j" if "j \<in> set (br_items d)" "bi_job_id j = None" for j
      using list_all2_partner [OF items that(1)] item_eq_parts assms(4) that(2) by (auto simp: item_terminal_def)
    with arg_cong [OF same, of br_cancellation_requested] assms(3) show ?thesis by simp
  qed (use assms(3,4) in auto)
  with d(1) assms(2) show ?thesis by (auto simp: cancellation_settled_def)
qed

lemma batch_cancel_settles:
  assumes ok: "delivers_within batches_evolve (bt_jobs bt)" and names: "names_ok (bw_batches w)"
    and run: "batch_cancel bt batch_id w = (Inr (Some r), w')"
  shows "cancellation_settled batch_id w'"
proof -
  from run obtain s v where intent: "batch_mutate batch_id (when_present apply_cancellation_intent) w = (Inr (Some s), v)"
    and rest: "bnd (for_each (signal_child_cancel bt) (br_items s)) (\<lambda>_. batch_reconcile batch_id) v = (Inr (Some r), w')"
    unfolding batch_cancel_def by (auto elim!: bnd_runs split: option.splits)
  have rules: "batches_evolve w v" using mutate_follows [OF closure_keeps [OF cancel_closure]] intent by (rule batches.frame_runs)
  obtain c t u u' now where t: "batches_evolve w u" "map_of (bw_batches u) batch_id = Some (Document c)"
    "apply_cancellation_intent c u = (Inr t, u')" "s = t \<or> s = t\<lparr>br_updated_at := now\<rparr>"
    using intent cancel_closure by (rule mutation_result)
  note facts = cancel_intent_runs [OF t(3)]
  have id: "br_id s = batch_id"
    using names t(1,2,4) facts(1) by (auto simp: batches_evolve_def names_ok_def same_batch_def)
  have "cancellation_settled batch_id v"
  proof (rule settled_recorded [OF _ id])
    show "recorded s v" using intent closure_keeps [OF cancel_closure] names by (rule mutate_recorded)
    show "br_cancellation_requested s" using facts(2) t(4) by auto
    show "item_terminal i" if "i \<in> set (br_items s)" "bi_job_id i = None" for i
      using facts(3) [of i] that t(4) by (auto simp: item_terminal_def TERMINAL_JOB_STATUSES_def)
  qed
  moreover have "holds_along batches_evolve (bnd (for_each (signal_child_cancel bt) (br_items s)) (\<lambda>_. batch_reconcile batch_id))"
    unfolding signal_child_cancel_def by (intro ruled.steps ruled.R_cancel_job ruled.mutations ok)
  then have "batches_evolve v w'" using rest by (rule batches.frame_runs)
  ultimately show ?thesis using rules names settled_kept by (auto simp: batches_evolve_def)
qed

section \<open>An example\<close>

definition sample_batch_record :: batch_record where
  "sample_batch_record =
     new_batch ''batch_a'' sample_batch
       [new_item ''item_1'' 0 ''ink'' ''main'' 0 [] sample_job_request,
        (new_item ''item_2'' 1 ''photo'' ''main'' 0 [] sample_job_request)
          \<lparr>bi_job_id := Some ''job_1'', bi_status := status_text Queued\<rparr>] ''t0''"

definition sample_batch_world :: "unit batch_world_scheme" where
  "sample_batch_world =
     world.extend sample_world
       \<lparr>bw_batches = [(''batch_a'', Document sample_batch_record)], bw_locked = False, bw_others = [],
        bw_uuids = (\<lambda>n. replicate n (CHR ''u'')), bw_minted = 1, \<dots> = ()\<rparr>"

definition sample_batch_service :: "unit batch_service" where
  "sample_batch_service =
     \<lparr>bt_jobs = sample_service, bt_expansion = sample_reader, bt_max_items_limit = 64\<rparr>"

lemma sample_uuids: "replicate k (CHR ''u'') \<noteq> ''a''"
  by (cases k) simp_all

lemma sample_batch_world_ok:
  "names_ok (bw_batches sample_batch_world)" "fresh_ids sample_batch_world"
  "map_of (bw_batches sample_batch_world) ''batch_a'' = Some (Document sample_batch_record)"
  by (auto simp: sample_batch_world_def world.defs names_ok_def fresh_ids_def others_names_def batch_name_def
      sample_batch_record_def new_batch_def inj_def sample_uuids split: if_splits)

lemma sample_exposes:
  "fst (authorize_and_expose sample_batch_service ''batch_a'' ''job_1'' Queued sample_batch_world) = Inr Expose_enqueued"
  by code_simp

theorem exposure_is_exclusive_witness:
  "\<exists>v b u x. bw_locked v \<and> batches_evolve sample_batch_world v \<and> map_of (bw_batches v) ''batch_a'' = Some (Document b) \<and>
     \<not> br_cancellation_requested b \<and> service_enqueue_job sample_service ''job_1'' v = (Inr x, u)"
proof -
  obtain w' where "authorize_and_expose sample_batch_service ''batch_a'' ''job_1'' Queued sample_batch_world = (Inr Expose_enqueued, w')"
    using sample_exposes by (metis prod.collapse)
  from exposure_is_exclusive [OF this] show ?thesis by (auto simp: sample_batch_service_def)
qed

definition sample_cancelled_world :: "unit batch_world_scheme" where
  "sample_cancelled_world =
     sample_batch_world\<lparr>bw_batches := [(''batch_a'', Document (sample_batch_record\<lparr>br_cancellation_requested := True\<rparr>))]\<rparr>"

lemma sample_cancelled:
  "names_ok (bw_batches sample_cancelled_world)" "cancelled_on_disk ''batch_a'' sample_cancelled_world"
  by (auto simp: sample_cancelled_world_def names_ok_def cancelled_on_disk_def sample_batch_record_def new_batch_def
      split: if_splits)

lemma sample_cancelled_exposure:
  "fst (authorize_and_expose sample_batch_service ''batch_a'' ''job_1'' Queued sample_cancelled_world) = Inr Expose_cancelled"
  by code_simp

theorem cancelled_batch_starts_nothing_witness:
  "enqueue_stage sample_batch_service ''batch_a'' 0 sample_cancelled_world =
     batch_mutate ''batch_a'' (when_present (assign_ids 0)) sample_cancelled_world \<and>
   fst (authorize_and_expose sample_batch_service ''batch_a'' ''job_1'' Queued sample_cancelled_world) = Inr Expose_cancelled"
  using cancelled_batch_starts_nothing [OF sample_cancelled] sample_cancelled_exposure by blast

end
