(* ===== verification/Batch_Outcomes.thy ===== *)
theory Batch_Outcomes imports Batch_Facts Batch_Grid "HOL-Library.Multiset" begin

text \<open>
  What a batch reports: the aggregate counts every item once, the status is decided by what the
  items ended with, and the winners of a stage are the best of those that succeeded.
\<close>

section \<open>The aggregate\<close>

lemmas item_status_texts = TERMINAL_JOB_STATUSES_def ITEM_STATUS_PENDING_def item_terminal_def

lemma build_aggregate_partition:
  "ag_pending (build_aggregate items) + ag_running (build_aggregate items) + ag_succeeded (build_aggregate items) +
   ag_failed (build_aggregate items) + ag_cancelled (build_aggregate items) = ag_total (build_aggregate items)"
  by (induction items) (auto simp: build_aggregate_def count_status_def item_status_texts)

text \<open>What \<open>beats\<close> orders, on items that have a score.\<close>

definition no_better :: "batch_item \<Rightarrow> batch_item \<Rightarrow> bool" where
  "no_better i b \<longleftrightarrow>
     (\<exists>s t. bi_score i = Some s \<and> bi_score b = Some t \<and> (s < t \<or> s = t \<and> bi_index b \<le> bi_index i))"

lemma no_better_refl: "bi_score i \<noteq> None \<Longrightarrow> no_better i i"
  by (auto simp: no_better_def)

lemma no_better_trans: "no_better i j \<Longrightarrow> no_better j k \<Longrightarrow> no_better i k"
  by (force simp: no_better_def)

lemma beats_or_not: "bi_score i \<noteq> None \<Longrightarrow> bi_score b \<noteq> None \<Longrightarrow> if beats i b then no_better b i else no_better i b"
  by (auto simp: beats_def no_better_def)

lemma foldl_best:
  assumes "bi_score b \<noteq> None" and "\<forall>i \<in> set items. bi_score i \<noteq> None"
  shows "foldl (\<lambda>best i. if beats i best then i else best) b items \<in> insert b (set items) \<and>
    (\<forall>i \<in> insert b (set items). no_better i (foldl (\<lambda>best i. if beats i best then i else best) b items))"
  using assms
proof (induction items arbitrary: b)
  case Nil
  then show ?case by (simp add: no_better_refl)
next
  case (Cons i items)
  let ?c = "if beats i b then i else b"
  have c: "bi_score ?c \<noteq> None" using Cons.prems by simp
  have "no_better b ?c" "no_better i ?c"
    using beats_or_not [of i b] Cons.prems no_better_refl by auto
  with Cons.IH [OF c] Cons.prems(2) show ?case
    by (auto intro: no_better_trans split: if_splits)
qed

lemma best_item_is_best:
  assumes "\<forall>i \<in> set items. bi_score i \<noteq> None" and "items \<noteq> []"
  shows "\<exists>b \<in> set items. best_item items = Some b \<and> (\<forall>i \<in> set items. no_better i b)"
  using assms foldl_best [of "hd items" "tl items"] by (cases items) auto

text \<open>
  C30: the aggregate counts every item exactly once, so the five counters add up to the total, and
  where an item has a score the best item is one of those: none has a higher score, and none with
  the same score has a lower index.
\<close>

theorem aggregate_counts_and_ranks:
  "ag_pending (build_aggregate items) + ag_running (build_aggregate items) + ag_succeeded (build_aggregate items) +
     ag_failed (build_aggregate items) + ag_cancelled (build_aggregate items) = length items \<and>
   (\<forall>i \<in> set items. bi_score i \<noteq> None \<longrightarrow>
      (\<exists>b \<in> set items. ag_best_item_id (build_aggregate items) = Some (bi_id b) \<and> no_better i b))"
proof (intro conjI ballI impI)
  show "ag_pending (build_aggregate items) + ag_running (build_aggregate items) + ag_succeeded (build_aggregate items) +
     ag_failed (build_aggregate items) + ag_cancelled (build_aggregate items) = length items"
    using build_aggregate_partition [of items] by (simp add: build_aggregate_def)
next
  fix i
  let ?scored = "filter (\<lambda>i. bi_score i \<noteq> None) items"
  assume i: "i \<in> set items" "bi_score i \<noteq> None"
  then have "?scored \<noteq> []" by (auto simp: filter_empty_conv)
  with best_item_is_best [of ?scored] obtain b where "b \<in> set items" "best_item ?scored = Some b"
    "\<forall>i \<in> set ?scored. no_better i b"
    by auto
  with i show "\<exists>b \<in> set items. ag_best_item_id (build_aggregate items) = Some (bi_id b) \<and> no_better i b"
    by (auto simp: build_aggregate_def)
qed

section \<open>The status\<close>

definition continues :: "batch_record \<Rightarrow> bool" where
  "continues r \<longleftrightarrow> br_stage_index r + 1 < length (resolved_stages (br_spec r))"

abbreviation "ended_with s item \<equiv> bi_status item = status_text s"

lemma count_zero: "count_status s items = 0 \<longleftrightarrow> (\<forall>i \<in> set items. bi_status i \<noteq> s)"
  by (auto simp: count_status_def filter_empty_conv)

lemma count_all: "count_status s items = length items \<longleftrightarrow> (\<forall>i \<in> set items. bi_status i = s)"
  using sum_length_filter_compl [of "\<lambda>i. bi_status i = s" items]
  by (auto simp: count_status_def filter_empty_conv)

lemma aggregate_decides:
  "ag_pending (build_aggregate items) = ag_total (build_aggregate items) \<longleftrightarrow>
     (\<forall>i \<in> set items. bi_status i = ITEM_STATUS_PENDING)"
  "ag_succeeded (build_aggregate items) = ag_total (build_aggregate items) \<longleftrightarrow>
     (\<forall>i \<in> set items. ended_with Succeeded i)"
  "0 < ag_succeeded (build_aggregate items) \<longleftrightarrow> (\<exists>i \<in> set items. ended_with Succeeded i)"
  "0 < ag_cancelled (build_aggregate items) \<longleftrightarrow> (\<exists>i \<in> set items. ended_with Cancelled i)"
  using count_all [of _ items] count_zero [of _ items] by (auto simp: build_aggregate_def simp flip: neq0_conv)

lemma terminal_cases: "item_terminal i \<longleftrightarrow> ended_with Succeeded i \<or> ended_with Failed i \<or> ended_with Cancelled i"
  by (auto simp: item_status_texts)

text \<open>The two orders in which the cases are asked for.\<close>

lemma table_cases:
  assumes "\<not> all_pending" and "all_failed \<longleftrightarrow> none_succeeded \<and> none_cancelled" and "all_succeeded \<Longrightarrow> \<not> none_succeeded"
  shows "(if goes_on \<and> \<not> none_succeeded \<and> \<not> cancelling then running
      else if all_succeeded then (if goes_on \<and> cancelling then cancelled else succeeded)
      else if \<not> none_succeeded then partial else if \<not> none_cancelled then cancelled else failed) =
    (if all_pending then queued else if all_failed then failed else if none_succeeded then cancelled
      else if goes_on \<and> \<not> cancelling then running else if \<not> all_succeeded then partial
      else if goes_on then cancelled else succeeded)"
  using assms by auto

text \<open>
  C25: the status of a refreshed batch is a function of how its children ended. Where no stage error
  is recorded and there are items: it is failed exactly when all failed; queued exactly when all are
  still pending; succeeded when all succeeded and no stage is left; partial when all ended, some
  succeeded and some did not, and no stage is left or cancellation was requested; cancelled when
  none succeeded and one was cancelled, or when a cancellation stopped it between two stages; and
  running otherwise.
\<close>

theorem status_table:
  assumes "br_advance_error r = None" and "items \<noteq> []"
  shows "br_status (rederived r items) =
    (let goes_on = continues r; cancelling = br_cancellation_requested r in
     if \<forall>i \<in> set items. bi_status i = ITEM_STATUS_PENDING then BATCH_STATUS_QUEUED
     else if \<not> (\<forall>i \<in> set items. item_terminal i) then BATCH_STATUS_RUNNING
     else if \<forall>i \<in> set items. ended_with Failed i then BATCH_STATUS_FAILED
     else if \<forall>i \<in> set items. \<not> ended_with Succeeded i then BATCH_STATUS_CANCELLED
     else if goes_on \<and> \<not> cancelling then BATCH_STATUS_RUNNING
     else if \<not> (\<forall>i \<in> set items. ended_with Succeeded i) then BATCH_STATUS_PARTIAL
     else if goes_on then BATCH_STATUS_CANCELLED else BATCH_STATUS_SUCCEEDED)"
proof -
  have pending: "\<not> (\<forall>i \<in> set items. item_terminal i)" if "\<forall>i \<in> set items. bi_status i = ITEM_STATUS_PENDING"
    using that assms(2) by (cases items) (auto simp: item_status_texts)
  have failed: "(\<forall>i \<in> set items. ended_with Failed i) \<longleftrightarrow>
      (\<forall>i \<in> set items. \<not> ended_with Succeeded i) \<and> (\<forall>i \<in> set items. \<not> ended_with Cancelled i)"
    if "\<forall>i \<in> set items. item_terminal i"
    using that by (auto simp: terminal_cases)
  have counted: "br_status (rederived r items) =
    (if \<not> (\<forall>i \<in> set items. item_terminal i) then
       (if \<forall>i \<in> set items. bi_status i = ITEM_STATUS_PENDING then BATCH_STATUS_QUEUED else BATCH_STATUS_RUNNING)
     else if continues r \<and> \<not> (\<forall>i \<in> set items. \<not> ended_with Succeeded i) \<and> \<not> br_cancellation_requested r then BATCH_STATUS_RUNNING
     else if \<forall>i \<in> set items. ended_with Succeeded i then
       (if continues r \<and> br_cancellation_requested r then BATCH_STATUS_CANCELLED else BATCH_STATUS_SUCCEEDED)
     else if \<not> (\<forall>i \<in> set items. \<not> ended_with Succeeded i) then BATCH_STATUS_PARTIAL
     else if \<not> (\<forall>i \<in> set items. \<not> ended_with Cancelled i) then BATCH_STATUS_CANCELLED
     else BATCH_STATUS_FAILED)"
    using assms by (simp add: rederived_def derive_status_def Let_def continues_def aggregate_decides list_all_iff) blast
  show ?thesis
  proof (cases "\<forall>i \<in> set items. item_terminal i")
    case False
    with counted show ?thesis by (simp only: Let_def if_True not_False_eq_True)
  next
    case True
    have one: "\<not> (\<forall>i \<in> set items. \<not> ended_with Succeeded i)" if "\<forall>i \<in> set items. ended_with Succeeded i"
      using assms(2) that by (cases items) auto
    have all: "(\<forall>i \<in> set items. item_terminal i) = True" using True by blast
    show ?thesis unfolding counted Let_def all not_True_eq_False if_False
      using pending True by (intro table_cases [OF _ failed [OF True] one]) blast+
  qed
qed

section \<open>Winners\<close>

lemma sorted_take_least:
  fixes f :: "'a \<Rightarrow> 'b :: linorder"
  assumes "sorted (map f xs)" and "x \<in> set (take n xs)" and "y \<in> set (drop n xs)"
  shows "f x \<le> f y"
proof -
  have "sorted (map f (take n xs) @ map f (drop n xs))" using assms(1) by (simp flip: map_append)
  then show ?thesis using assms(2,3) by (auto simp: sorted_append)
qed

text \<open>A higher score goes first, a missing one counts as minus one, and at the same score the lower index.\<close>

definition worth :: "batch_item \<Rightarrow> rat" where
  "worth item = (if bi_score item = None then -1 else the (bi_score item))"

definition goes_before :: "batch_item \<Rightarrow> batch_item \<Rightarrow> bool" where
  "goes_before x y \<longleftrightarrow> worth y < worth x \<or> (worth x = worth y \<and> bi_index x \<le> bi_index y)"

lemma rank_key_goes_before: "rank_key x \<le> rank_key y \<longleftrightarrow> goes_before x y"
  by (auto simp: rank_key_def goes_before_def worth_def less_eq_prod_def split: option.splits)

text \<open>
  C28: a stage goes on with its best. Of the items that succeeded, and only of those, as many are kept
  as \<open>keep_top_n\<close> says, all of them where there are fewer or it says nothing. A winner has a higher
  score than any item that is left out, or the same score and no higher index, where a missing score
  counts as minus one; and the winners are in that order.
\<close>

theorem winners_are_the_best:
  assumes "\<And>n. keep = Some n \<Longrightarrow> 0 \<le> n"
  shows "let won = rank_winners keep items; ran = filter (ended_with Succeeded) items in
    \<exists>out. mset won + mset out = mset ran \<and>
      length won = (case keep of None \<Rightarrow> length ran | Some n \<Rightarrow> min (nat n) (length ran)) \<and>
      sorted_wrt goes_before won \<and> (\<forall>x \<in> set won. \<forall>y \<in> set out. goes_before x y)"
proof -
  let ?ran = "filter (ended_with Succeeded) items"
  let ?ranked = "sort_key rank_key ?ran"
  let ?n = "case keep of None \<Rightarrow> length ?ran | Some n \<Rightarrow> nat n"
  have won: "rank_winners keep items = take ?n ?ranked"
    using assms by (auto simp: rank_winners_def py_take_def Let_def split: option.splits)
  have sorted: "sorted (map rank_key ?ranked)" by simp
  have "mset (take ?n ?ranked) + mset (drop ?n ?ranked) = mset ?ran"
    by (simp flip: mset_append)
  moreover have "sorted_wrt goes_before (take ?n ?ranked)"
    using sorted by (simp add: sorted_wrt_take sorted_map rank_key_goes_before flip: take_map)
  moreover have "length (take ?n ?ranked) = (case keep of None \<Rightarrow> length ?ran | Some n \<Rightarrow> min (nat n) (length ?ran))"
    by (simp add: min.commute split: option.splits)
  ultimately show ?thesis unfolding won Let_def using sorted_take_least [OF sorted] rank_key_goes_before by blast
qed

section \<open>An example\<close>

definition sample_child :: "nat \<Rightarrow> job_status \<Rightarrow> rat option \<Rightarrow> batch_item" where
  "sample_child k s score =
     (new_item (''item_'' @ pad3 k) k ''x'' ''main'' 0 [] sample_job_request)\<lparr>bi_status := status_text s, bi_score := score\<rparr>"

definition sample_children :: "batch_item list" where
  "sample_children =
     [sample_child 0 Succeeded (Some 40), sample_child 1 Failed None, sample_child 2 Succeeded (Some 75),
      sample_child 3 Succeeded (Some 75)]"

theorem aggregate_counts_and_ranks_witness:
  "ag_best_item_id (build_aggregate sample_children) = Some ''item_002'' \<and>
   (\<exists>b \<in> set sample_children. ag_best_item_id (build_aggregate sample_children) = Some (bi_id b) \<and>
      no_better (sample_child 3 Succeeded (Some 75)) b)"
proof -
  have "ag_best_item_id (build_aggregate sample_children) = Some ''item_002''" by code_simp
  moreover have "sample_child 3 Succeeded (Some 75) \<in> set sample_children" "bi_score (sample_child 3 Succeeded (Some 75)) \<noteq> None"
    by (simp_all add: sample_children_def sample_child_def)
  ultimately show ?thesis using aggregate_counts_and_ranks [of sample_children] by blast
qed

definition sample_parent :: batch_record where
  "sample_parent = new_batch ''batch_a'' sample_batch sample_children ''t0''"

theorem status_table_witness: "br_status (rederived sample_parent sample_children) = BATCH_STATUS_PARTIAL"
proof -
  have "br_advance_error sample_parent = None" "sample_children \<noteq> []"
    by (simp_all add: sample_parent_def new_batch_def sample_children_def)
  moreover have "\<not> continues sample_parent" by code_simp
  moreover have "\<not> (\<forall>i \<in> set sample_children. bi_status i = ITEM_STATUS_PENDING)"
    "\<forall>i \<in> set sample_children. item_terminal i" "\<not> (\<forall>i \<in> set sample_children. ended_with Failed i)"
    "\<not> (\<forall>i \<in> set sample_children. \<not> ended_with Succeeded i)" "\<not> (\<forall>i \<in> set sample_children. ended_with Succeeded i)"
    by code_simp+
  ultimately show ?thesis by (simp only: status_table Let_def if_False if_True simp_thms) (rule if_not_P, blast)
qed

theorem winners_are_the_best_witness:
  "map bi_id (rank_winners (Some 2) sample_children) = [''item_002'', ''item_003''] \<and>
   sorted_wrt goes_before (rank_winners (Some 2) sample_children) \<and> worth (hd (rank_winners (Some 2) sample_children)) = 75"
proof -
  have "map bi_id (rank_winners (Some 2) sample_children) = [''item_002'', ''item_003'']"
    "worth (hd (rank_winners (Some 2) sample_children)) = 75" by code_simp+
  with winners_are_the_best [of "Some 2" sample_children] show ?thesis by (auto simp: Let_def)
qed

end
