(* ===== verification/Studio.thy ===== *)
theory Studio imports Application Batch_Lifecycle Batch_Outcomes begin

text \<open>
  The whole studio: the process of \<open>Application\<close> with the batch service itself in the place of the
  parameters for it, so that nothing is assumed of any part of the program.

  The wiring is circular: the batch service calls the job service, whose events go to the batch
  service's own handler and to the converger, which calls the batch service. The circle is cut the
  way Python cuts it, by the depth of the call stack: \<open>studio_service st n\<close> is the job service as it
  behaves with \<open>n\<close> nested deliveries left, and a delivery beyond the last raises \<open>RecursionError\<close>.
  The theorems hold for every depth, however small.
\<close>

section \<open>Wiring\<close>

record studio =
  st_assets :: asset_env
  st_references :: reference_env
  st_expansion :: expansion_env
  st_batch_max_items :: string
  st_image :: generator
  st_text :: generator
  st_audio :: generator
  st_speech :: generator
  st_video :: generator
  st_assembly :: generator

definition studio_batches :: "studio \<Rightarrow> 'y batch_world_ext service \<Rightarrow> 'y batch_service" where
  "studio_batches st sv =
     \<lparr>bt_jobs = sv, bt_expansion = st_expansion st,
      bt_max_items_limit = resolve_max_items_limit None (st_batch_max_items st)\<rparr>"

definition studio_parts :: "studio \<Rightarrow> 'y batch_world_ext service \<Rightarrow> 'y batch_world_ext parts" where
  "studio_parts st sv =
     \<lparr>pa_assets = st_assets st, pa_references = st_references st,
      pa_batches = batch_service_port (studio_batches st sv),
      pa_batch_handler = batch_handle_job_event (studio_batches st sv),
      pa_image = st_image st, pa_text = st_text st, pa_audio = st_audio st, pa_speech = st_speech st,
      pa_video = st_video st, pa_assembly = st_assembly st\<rparr>"

fun studio_service :: "studio \<Rightarrow> nat \<Rightarrow> 'y batch_world_ext service" where
  "studio_service st 0 =
     wired_service (st_assets st) (st_references st)
       (\<lambda>_ _. raise (Runtime_error ''maximum recursion depth exceeded''))"
| "studio_service st (Suc n) = application_service (studio_parts st (studio_service st n))"

abbreviation wired_parts :: "studio \<Rightarrow> nat \<Rightarrow> 'y batch_world_ext parts" where
  "wired_parts st n \<equiv> studio_parts st (studio_service st n)"

abbreviation wired_batches :: "studio \<Rightarrow> nat \<Rightarrow> 'y batch_service" where
  "wired_batches st n \<equiv> studio_batches st (studio_service st n)"

section \<open>Calls\<close>

datatype studio_call =
  Studio_jobs app_call
| Studio_create_batch batch_spec
| Studio_get_batch string
| Studio_list_batches "string option" "nat option"
| Studio_advance_batch string
| Studio_cancel_batch string
| Studio_promote_item string string

fun studio_call_run :: "studio \<Rightarrow> nat \<Rightarrow> studio_call \<Rightarrow> ('y, unit) batch_op" where
  "studio_call_run st n (Studio_jobs c) = app_call_run (wired_parts st n) c"
| "studio_call_run st n (Studio_create_batch spec) = bnd (create_batch (wired_batches st n) spec) (\<lambda>_. ret ())"
| "studio_call_run st n (Studio_get_batch batch_id) = bnd (batch_reconcile batch_id) (\<lambda>_. ret ())"
| "studio_call_run st n (Studio_list_batches project_id limit) = bnd (list_batches project_id limit) (\<lambda>_. ret ())"
| "studio_call_run st n (Studio_advance_batch batch_id) = bnd (batch_advance (wired_batches st n) batch_id) (\<lambda>_. ret ())"
| "studio_call_run st n (Studio_cancel_batch batch_id) = bnd (batch_cancel (wired_batches st n) batch_id) (\<lambda>_. ret ())"
| "studio_call_run st n (Studio_promote_item batch_id chosen) = bnd (batch_promote batch_id chosen) (\<lambda>_. ret ())"

fun studio_calls_run :: "studio \<Rightarrow> nat \<Rightarrow> studio_call list \<Rightarrow> ('y, unit) batch_op" where
  "studio_calls_run st n [] = ret ()"
| "studio_calls_run st n (c # cs) = bnd (attempt (studio_call_run st n c)) (\<lambda>_. studio_calls_run st n cs)"

definition studio_startup :: "studio \<Rightarrow> nat \<Rightarrow> ('y, unit) batch_op" where
  "studio_startup st n = lifespan (wired_parts st n) []"

definition studio_lifespan :: "studio \<Rightarrow> nat \<Rightarrow> studio_call list \<Rightarrow> ('y, unit) batch_op" where
  "studio_lifespan st n calls = bnd (studio_startup st n) (\<lambda>_. studio_calls_run st n calls)"

text \<open>A new process has a new lock, which nobody holds.\<close>

definition start_studio :: "studio \<Rightarrow> nat \<Rightarrow> 'y batch_world_scheme \<Rightarrow> 'y batch_world_scheme" where
  "start_studio st n w = (start_application (wired_parts st n) w)\<lparr>bw_locked := False\<rparr>"

definition studio_lifetime :: "studio \<Rightarrow> nat \<Rightarrow> studio_call list \<Rightarrow> 'y batch_world_scheme \<Rightarrow> 'y batch_world_scheme" where
  "studio_lifetime st n calls w = snd (studio_lifespan st n calls (start_studio st n w))"

definition studio_lifetimes :: "studio \<Rightarrow> nat \<Rightarrow> studio_call list list \<Rightarrow> 'y batch_world_scheme \<Rightarrow> 'y batch_world_scheme" where
  "studio_lifetimes st n runs = fold (studio_lifetime st n) runs"

section \<open>The parts keep their contracts\<close>

lemma studio_parts_ok: "service_ok sv \<Longrightarrow> parts_ok (studio_parts st sv)"
  by (simp add: parts_ok_def studio_parts_def batch_port_ok kept.handler studio_batches_def)

lemma studio_service_ok: "service_ok (studio_service st n)"
proof (induction n)
  case 0
  show ?case unfolding studio_service.simps by (intro wired_service_ok evolving.along_rules)
next
  case (Suc n)
  then show ?case by (simp add: application_parts_ok studio_parts_ok)
qed

lemmas wired_parts_ok = studio_parts_ok [OF studio_service_ok]

lemma wired_batches_ok: "service_ok (bt_jobs (wired_batches st n))"
  by (simp add: studio_batches_def studio_service_ok)

lemma create_along: "service_ok (bt_jobs bt) \<Longrightarrow> holds_along evolves (create_batch bt spec)"
  unfolding create_batch_def Let_def by (intro along_steps along kept.operations | assumption)+

lemma along_studio_call: "holds_along evolves (studio_call_run st n c)"
  by (cases c)
    (simp_all add: evolving.along_rules along_app_call [OF wired_parts_ok] create_along [OF wired_batches_ok]
      kept.advancing [OF wired_batches_ok] kept.cancelling [OF wired_batches_ok] kept.mutations kept.listings)

lemma along_studio_lifespan: "holds_along evolves (studio_lifespan st n calls)"
proof -
  have "holds_along evolves (studio_calls_run st n calls)"
    by (induction calls) (auto intro!: evolving.along_rules along_studio_call)
  then show ?thesis
    unfolding studio_lifespan_def studio_startup_def by (intro evolving.along_bnd along_lifespan wired_parts_ok)
qed

lemma start_studio_jobs [simp]: "w_jobs (start_studio st n w) = w_jobs w"
  by (simp add: start_studio_def)

lemma studio_lifetimes_refine: "board_step\<^sup>*\<^sup>* (board_of w) (board_of (studio_lifetimes st n runs w))"
proof (induction runs arbitrary: w)
  case (Cons calls runs)
  have "board_step\<^sup>*\<^sup>* (board_of (start_studio st n w)) (board_of (studio_lifetime st n calls w))"
    unfolding studio_lifetime_def by (intro evolves_refines along_evolves along_studio_lifespan)
  moreover have "board_of (start_studio st n w) = board_of w" by (simp add: board_of_def fun_eq_iff)
  ultimately have "board_step\<^sup>*\<^sup>* (board_of w) (board_of (studio_lifetime st n calls w))" by simp
  also have "board_step\<^sup>*\<^sup>* \<dots> (board_of (studio_lifetimes st n runs (studio_lifetime st n calls w)))" by (rule Cons.IH)
  finally show ?case by (simp add: studio_lifetimes_def)
qed (simp add: studio_lifetimes_def)

section \<open>The parts keep the rules of the batches\<close>

lemma wired_within:
  assumes "\<And>s event. holds_along batches_evolve (deliver s event)"
  shows "delivers_within batches_evolve (wired_service assets references deliver)"
  using assms by (auto simp: delivers_within_def wired_service_def intro!: batches.frame_all)

lemma lock_within: "batches_evolve w (snd (acquire_lock w))" "batches_evolve w (release_lock outer w)"
  using others_act_evolves [of w] by (simp_all add: batches_evolve_def release_lock_def)

lemma port_within_rules:
  assumes "delivers_within batches_evolve (bt_jobs bt)"
  shows "port_within batches_evolve (batch_service_port bt)"
  unfolding port_within_def batch_service_port_def batch_port.simps
  by (intro conjI allI batches.along_rules along_cases reads_follow ruled.child ruled.passes ruled.listings
      lock_within assms)

lemma parts_within_rules:
  assumes "delivers_within batches_evolve sv"
  shows "delivers_within batches_evolve (application_service (studio_parts st sv))"
    and "port_within batches_evolve (pa_batches (studio_parts st sv))"
proof -
  have bt: "delivers_within batches_evolve (bt_jobs (studio_batches st sv))" using assms by (simp add: studio_batches_def)
  show port: "port_within batches_evolve (pa_batches (studio_parts st sv))"
    using port_within_rules [OF bt] by (simp add: studio_parts_def)
  have "holds_along batches_evolve (h event)" if "h \<in> set (application_handlers (studio_parts st sv))" for h event
    using that port ruled.handler [OF bt]
    by (auto simp: application_handlers_def studio_parts_def ports_within_def
        intro!: batches.frame_binder batches.frame_converger_event)
  then show "delivers_within batches_evolve (application_service (studio_parts st sv))"
    unfolding application_service_def by (intro wired_within) (simp add: application_deliver_def batches.along_rules)
qed

lemma studio_service_within: "delivers_within batches_evolve (studio_service st n)"
proof (induction n)
  case 0
  show ?case unfolding studio_service.simps by (intro wired_within batches.along_rules)
next
  case (Suc n)
  then show ?case by (simp add: parts_within_rules)
qed

lemma wired_within_rules:
  "delivers_within batches_evolve (application_service (wired_parts st n))"
  "port_within batches_evolve (pa_batches (wired_parts st n))"
  by (intro parts_within_rules studio_service_within)+

lemma wired_batches_within: "delivers_within batches_evolve (bt_jobs (wired_batches st n))"
  by (simp add: studio_batches_def studio_service_within)

lemma app_call_within: "holds_along batches_evolve (app_call_run (wired_parts st n) c)"
proof -
  let "holds_along _ (app_call_run ?p c)" = ?thesis
  note sv = wired_within_rules(1) [of st n]
  have rn: "delivers_within batches_evolve (rn_service (application_runner ?p))" using sv by (simp add: application_runner_def)
  have ports: "ports_within batches_evolve (Some (pa_batches ?p))" using wired_within_rules(2) by (simp add: ports_within_def)
  have cv: "converges_within batches_evolve (application_converger ?p)"
    using sv ports by (simp add: converges_within_def application_converger_def)
  then have cv': "ports_within batches_evolve (cv_batches (application_converger ?p))" by (simp add: converges_within_def)
  show ?thesis
    by (cases c)
      (simp_all add: batches.along_rules batches.frame_reuse [OF sv] batches.frame_enqueue_job [OF sv]
        batches.frame_cancel_job [OF sv] batches.frame_run_once [OF rn] batches.frame_annotations
        batches.frame_stories batches.frame_binder batches.frame_converge_job [OF cv'] batches.frame_retry [OF cv])
qed

lemma startup_within: "holds_along batches_evolve (studio_startup st n)"
proof -
  have "ports_within batches_evolve (Some (pa_batches (wired_parts st n)))" using wired_within_rules(2) by (simp add: ports_within_def)
  then show ?thesis
    unfolding studio_startup_def lifespan_def application_converger_def
    by (intro batches.along_rules batches.frame_startup wired_within_rules) (simp_all add: batches.along_rules)
qed

lemma along_durable: "holds_along batches_evolve m \<Longrightarrow> holds_along batches_durable m"
  by (simp add: holds_along_def evolve_durable)

lemma studio_call_durable: "holds_along batches_durable (studio_call_run st n c)"
proof (cases "\<exists>spec. c = Studio_create_batch spec")
  case True
  then show ?thesis by (auto intro!: durable.along_rules create_batch_durable wired_batches_within)
next
  case False
  then have "holds_along batches_evolve (studio_call_run st n c)"
    by (cases c)
      (simp_all add: batches.along_rules app_call_within ruled.mutations ruled.listings
        ruled.advancing [OF wired_batches_within] ruled.cancelling [OF wired_batches_within])
  then show ?thesis by (rule along_durable)
qed

lemma studio_lifespan_durable: "holds_along batches_durable (studio_lifespan st n calls)"
proof -
  have "holds_along batches_durable (studio_calls_run st n calls)"
    by (induction calls) (auto intro!: durable.along_rules studio_call_durable)
  moreover have "holds_along batches_durable (studio_startup st n)"
    by (rule along_durable [OF startup_within])
  ultimately show ?thesis unfolding studio_lifespan_def by (intro durable.along_rules)
qed

lemma start_studio_still: "batches_durable w (start_studio st n w)"
proof -
  have "world.more (start_application (wired_parts st n) w) = world.more w" by (simp add: start_application_def)
  then have "batches_evolve w (start_application (wired_parts st n) w)" by (intro still_evolves more_still)
  then have "batches_evolve w (start_studio st n w)" by (simp add: start_studio_def batches_evolve_def)
  then show ?thesis by (rule evolve_durable)
qed

lemma studio_lifetimes_durable: "batches_durable w (studio_lifetimes st n runs w)"
proof (induction runs arbitrary: w)
  case (Cons calls runs)
  have "batches_durable (start_studio st n w) (studio_lifetime st n calls w)"
    by (simp add: studio_lifetime_def studio_lifespan_durable [unfolded holds_along_def, rule_format])
  with start_studio_still have "batches_durable w (studio_lifetime st n calls w)" by (rule durable.R_trans)
  then show ?case using Cons.IH durable.R_trans by (fastforce simp: studio_lifetimes_def)
qed (simp add: studio_lifetimes_def durable.R_refl)

section \<open>The properties\<close>

text \<open>
  C1: the studio implements the job board. Over any number of lifetimes of the process with any
  calls on jobs, assets, stories and batches in any order, under every schedule of the other
  threads, every placement of storage failures and every depth of nested event deliveries, the jobs
  table only takes steps of the abstract board: a job is posted queued, moves along the transition
  contract, is written off when its status is not understood, is ticked off once it is terminal, and
  is never taken down. Nothing is assumed of the batch service, of the generators' outcomes or of
  what is on disk.
\<close>

theorem studio_refines_board: "board_step\<^sup>*\<^sup>* (board_of w) (board_of (studio_lifetimes st n runs w))"
  by (rule studio_lifetimes_refine)

text \<open>
  C23: no restart loses a job or its outcome. Whatever the studio does over any number of lifetimes,
  a job in the table stays in the table with the request it was created with; a job that had
  succeeded, failed or been cancelled keeps that status, and one whose completion was marked done
  keeps the mark.
\<close>

theorem studio_keeps_jobs:
  assumes "board_of w job_id = Some e"
  shows "\<exists>e'. board_of (studio_lifetimes st n runs w) job_id = Some e' \<and> entry_kept e e'"
  using studio_lifetimes_refine assms by (rule board_run_keeps)

text \<open>
  C39: the process's data stays well formed. From the start of a lifetime on, after recovery and any
  calls, batches included, under every schedule and failure, job ids are unique in the table, the
  queue has exactly the default lane and remembers the lane of exactly the jobs that wait in it, the
  registry's tokens are below its counter, and the event log is within its bound with distinct
  subscribers.
\<close>

theorem studio_structures_ok:
  assumes "ids_unique (w_jobs w)"
  shows "structures_ok (studio_lifetime st n calls w)"
proof -
  have "structures_ok (start_studio st n w)"
    using start_structures [OF assms] by (simp add: start_studio_def structures_ok_def)
  moreover have "evolves (start_studio st n w) (studio_lifetime st n calls w)"
    unfolding studio_lifetime_def by (intro along_evolves along_studio_lifespan)
  ultimately show ?thesis by (rule structures_evolve)
qed

text \<open>
  C5: batches are durable. Over any number of lifetimes with any calls, whatever the other threads
  save within the service's rules and wherever the storage fails, a batch that is on disk stays on
  disk with its plan: its spec and the identity of its items never change, its stage never goes
  back, an id once assigned to an item stays, an item that ended without a job never gets one, and
  once cancellation is requested it stays requested, the stage stays and no job id is assigned any
  more. Creating a batch replaces no other one.
\<close>

theorem batches_survive:
  assumes "names_ok (bw_batches w)" and "fresh_ids w" and "map_of (bw_batches w) batch_id = Some (Document b)"
  shows "\<exists>b'. map_of (bw_batches (studio_lifetimes st n runs w)) batch_id = Some (Document b') \<and> batch_follows b b'"
  using studio_lifetimes_durable [of w st n runs] assms by (simp add: batches_durable_def dir_follows_def)

text \<open>
  C6: a cancellation that was acknowledged is final. Once a cancel request has returned the batch,
  then after any further lifetimes with any calls the batch is on disk with its cancellation
  requested, and every one of its items that has no job has ended, so none will ever be started.
\<close>

theorem cancellation_is_final:
  assumes "names_ok (bw_batches w)" and "fresh_ids w"
    and "batch_cancel (wired_batches st n) batch_id w = (Inr (Some r), w')"
  shows "cancellation_settled batch_id (studio_lifetimes st n runs w')"
proof -
  have settled: "cancellation_settled batch_id w'" using wired_batches_within assms(1,3) by (rule batch_cancel_settles)
  have "batches_durable w w'"
    using assms(3) ruled.cancelling [OF wired_batches_within] by (blast intro: evolve_durable batches.frame_runs)
  then have "batches_durable w (studio_lifetimes st n runs w')" "batches_durable w' (studio_lifetimes st n runs w')"
    using studio_lifetimes_durable durable.R_trans by blast+
  with \<open>batches_durable w w'\<close> assms(1,2) settled show ?thesis by (auto simp: batches_durable_def intro: settled_kept)
qed

section \<open>Examples\<close>

definition sample_studio :: studio where
  "sample_studio =
     (let g = Plain_generator (\<lambda>request project_id. Gen_return sample_result) in
      \<lparr>st_assets = sample_assets, st_references = \<lparr>re_asset_project = None, re_bible = None, re_get_manifest = None\<rparr>,
       st_expansion = sample_reader, st_batch_max_items = [], st_image = g, st_text = g, st_audio = g, st_speech = g,
       st_video = g, st_assembly = g\<rparr>)"

definition sample_studio_runs :: "studio_call list list" where
  "sample_studio_runs = [[Studio_cancel_batch ''batch_a''], [Studio_jobs Call_run_once]]"

theorem studio_keeps_jobs_witness:
  "\<exists>e'. board_of (studio_lifetimes sample_studio 2 sample_studio_runs sample_batch_world) ''job_1'' = Some e' \<and>
     entry_kept (entry_of (record_to_row sample_job)) e'"
  by (rule studio_keeps_jobs)
    (simp add: board_of_def sample_batch_world_def sample_world_def world.defs row_find_def row_simps record_to_row_def sample_job_def)

theorem studio_structures_ok_witness:
  "structures_ok (studio_lifetime sample_studio 2 [Studio_create_batch sample_batch] sample_batch_world)"
  by (rule studio_structures_ok) (simp add: ids_unique_def sample_batch_world_def sample_world_def world.defs)

theorem batches_survive_witness:
  "\<exists>b'. map_of (bw_batches (studio_lifetimes sample_studio 2 [[Studio_create_batch sample_batch]] sample_batch_world)) ''batch_a'' =
     Some (Document b') \<and> batch_follows sample_batch_record b'"
  by (rule batches_survive) (rule sample_batch_world_ok)+

lemma sample_cancels:
  "\<exists>r w'. batch_cancel (wired_batches sample_studio 1) ''batch_a'' sample_batch_world = (Inr (Some r), w')"
proof -
  have "(case fst (batch_cancel (wired_batches sample_studio 1) ''batch_a'' sample_batch_world) of
      Inr (Some r) \<Rightarrow> True | _ \<Rightarrow> False)"
    by code_simp
  then show ?thesis
    by (cases "batch_cancel (wired_batches sample_studio 1) ''batch_a'' sample_batch_world")
      (auto split: sum.splits option.splits simp del: studio_service.simps)
qed

theorem cancellation_is_final_witness:
  "\<exists>r w'. batch_cancel (wired_batches sample_studio 1) ''batch_a'' sample_batch_world = (Inr (Some r), w') \<and>
     cancellation_settled ''batch_a'' (studio_lifetimes sample_studio 1 sample_studio_runs w')"
  using sample_cancels cancellation_is_final [OF sample_batch_world_ok(1,2)] by blast

end
