(* ===== verification/Model_Registry.thy ===== *)
theory Model_Registry imports Reference_Check Job_Store begin

text \<open>
  The catalogue of models: manifests (\<open>core/models/manifest.py\<close>), the registry that loads them
  (\<open>core/models/registry.py\<close>), the resolver of public ids and aliases (\<open>core/models/resolver.py\<close>) and
  the opt-in guard of cloud providers (\<open>core/models/cloud_guard.py\<close>).

  The registry and the resolver's index are built at first use and kept; here they are functions of
  the manifest files. Ids and environment variables are ASCII text.
\<close>

section \<open>Manifests\<close>

record manifest =
  mn_id :: string
  mn_public_id :: "string option"
  mn_display_name :: string
  mn_media_type :: media_type
  mn_task_type :: string
  mn_provider :: string
  mn_runtime :: string
  mn_local_path :: "string option"
  mn_remote_ref :: "string option"
  mn_loader :: string
  mn_dtype :: "string option"
  mn_revision :: "string option"
  mn_default_params :: "(string \<times> json) list"
  mn_aliases :: "string list"
  mn_tags :: "string list"
  mn_is_default :: bool
  mn_enabled :: bool
  mn_reference_capability :: "reference_capability option"

datatype model_error =
  Mm_lookup string
| Mm_invalid string
| Mm_duplicate string "string list" "string list"
| Mm_flag_collision string string string
| Mm_name_collision string string string
| Mm_cloud_disabled string

definition public_model_id :: "manifest \<Rightarrow> string" where
  "public_model_id m = (case mn_public_id m of Some p \<Rightarrow> if p = [] then mn_id m else p | None \<Rightarrow> mn_id m)"

definition ascii_upper :: "char \<Rightarrow> char" where
  "ascii_upper c = (if CHR ''a'' \<le> c \<and> c \<le> CHR ''z'' then char_of (code_point c - 32) else c)"

definition ascii_lower :: "char \<Rightarrow> char" where
  "ascii_lower c = (if CHR ''A'' \<le> c \<and> c \<le> CHR ''Z'' then char_of (code_point c + 32) else c)"

definition ascii_alnum :: "char \<Rightarrow> bool" where
  "ascii_alnum c \<longleftrightarrow> is_dec_digit c \<or> (CHR ''a'' \<le> c \<and> c \<le> CHR ''z'') \<or> (CHR ''A'' \<le> c \<and> c \<le> CHR ''Z'')"

definition LITERAL_CREDENTIAL_FIELD_NAMES :: "string list" where
  "LITERAL_CREDENTIAL_FIELD_NAMES =
     [''api_key'', ''apikey'', ''secret'', ''secret_key'', ''secretkey'', ''access_key'', ''access_token'', ''auth_token'',
      ''bearer_token'', ''token'', ''password'', ''credential'', ''credentials'', ''client_secret'']"

definition is_literal_credential :: "string \<Rightarrow> json \<Rightarrow> bool" where
  "is_literal_credential key value \<longleftrightarrow>
     map ascii_lower (py_strip key) \<in> set LITERAL_CREDENTIAL_FIELD_NAMES \<and>
     (case value of JStr s \<Rightarrow> s \<noteq> [] | _ \<Rightarrow> False)"

text \<open>The field the walk stops at, with its path.\<close>

fun find_credential :: "string \<Rightarrow> json \<Rightarrow> string option"
  and find_credential_fields :: "string \<Rightarrow> (string \<times> json) list \<Rightarrow> string option"
  and find_credential_items :: "string \<Rightarrow> nat \<Rightarrow> json list \<Rightarrow> string option" where
  "find_credential path (JObj kvs) = find_credential_fields path kvs"
| "find_credential path (JArr xs) = find_credential_items path 0 xs"
| "find_credential path _ = None"
| "find_credential_fields path [] = None"
| "find_credential_fields path ((key, value) # kvs) =
     (let key_path = (if path = [] then key else path @ ''.'' @ key) in
      if is_literal_credential key value then Some key_path
      else
        (case find_credential key_path value of
           Some p \<Rightarrow> Some p
         | None \<Rightarrow> find_credential_fields path kvs))"
| "find_credential_items path index [] = None"
| "find_credential_items path index (x # xs) =
     (case find_credential (path @ ''['' @ show_nat index @ '']'') x of
        Some p \<Rightarrow> Some p
      | None \<Rightarrow> find_credential_items path (Suc index) xs)"

definition absent :: "string option \<Rightarrow> bool" where "absent t \<longleftrightarrow> t = None \<or> t = Some []"

fun first_repeated :: "string list \<Rightarrow> string list \<Rightarrow> string option" where
  "first_repeated seen [] = None"
| "first_repeated seen (a # as) = (if a \<in> set seen then Some a else first_repeated (a # seen) as)"

text \<open>The validator that runs on a manifest whose fields have been read.\<close>

definition validate_manifest :: "manifest \<Rightarrow> model_error + manifest" where
  "validate_manifest m =
     (if absent (mn_local_path m) \<and> absent (mn_remote_ref m) then Inl (Mm_invalid ''Model manifest requires local_path or remote_ref.'')
      else
        (case first_repeated [] (mn_aliases m) of
           Some alias \<Rightarrow> Inl (Mm_invalid (''Duplicate model alias in manifest: '' @ alias))
         | None \<Rightarrow>
             if public_model_id m \<in> set (mn_aliases m) then
               Inl (Mm_invalid (''Public model id must not be duplicated in aliases: '' @ public_model_id m))
             else
               (case find_credential ''default_params'' (JObj (mn_default_params m)) of
                  Some path \<Rightarrow> Inl (Mm_invalid (''literal credential value in '' @ path))
                | None \<Rightarrow> Inr m)))"

section \<open>Cloud opt-in\<close>

definition cloud_provider_env_flag :: "string \<Rightarrow> string" where
  "cloud_provider_env_flag manifest_id =
     ''ALLOW_CLOUD_PROVIDER_'' @ map ascii_upper (map (\<lambda>c. if ascii_alnum c then c else CHR ''_'') manifest_id)"

definition switched_on :: "(string \<Rightarrow> string option) \<Rightarrow> string \<Rightarrow> bool" where
  "switched_on env name \<longleftrightarrow>
     map ascii_lower (py_strip (case env name of Some v \<Rightarrow> v | None \<Rightarrow> [])) = ''true''"

definition ensure_cloud_provider_enabled :: "(string \<Rightarrow> string option) \<Rightarrow> string \<Rightarrow> model_error + unit" where
  "ensure_cloud_provider_enabled env manifest_id =
     (if \<not> switched_on env ''ALLOW_CLOUD_PROVIDERS'' then Inl (Mm_cloud_disabled manifest_id)
      else if \<not> switched_on env (cloud_provider_env_flag manifest_id) then Inl (Mm_cloud_disabled manifest_id)
      else Inr ())"

section \<open>The registry\<close>

text \<open>
  A manifest file, at its path below the root: text from which no manifest can be read, with the
  message, or the fields that were read. \<open>sorted\<close> orders paths by their parts.
\<close>

datatype manifest_text = Unreadable string | Fields manifest

definition read_manifest :: "manifest_text \<Rightarrow> model_error + manifest" where
  "read_manifest t = (case t of Unreadable msg \<Rightarrow> Inl (Mm_invalid msg) | Fields m \<Rightarrow> validate_manifest m)"

definition is_duplicate_equivalent :: "manifest \<Rightarrow> manifest \<Rightarrow> bool" where
  "is_duplicate_equivalent l r \<longleftrightarrow>
     l\<lparr>mn_default_params := dump_fields (mn_default_params l)\<rparr> = r\<lparr>mn_default_params := dump_fields (mn_default_params r)\<rparr>"

text \<open>The manifests read so far, in the order of their files, each with the path it came from.\<close>

fun load_each ::
  "(string list \<times> manifest_text) list \<Rightarrow> (string list \<times> manifest) list \<Rightarrow> model_error + (string list \<times> manifest) list" where
  "load_each [] manifests = Inr manifests"
| "load_each ((path, t) # rest) manifests =
     (case read_manifest t of
        Inl e \<Rightarrow> Inl e
      | Inr m \<Rightarrow>
          (case find (\<lambda>(p, m'). mn_id m' = mn_id m) manifests of
             Some (original_path, original) \<Rightarrow>
               if is_duplicate_equivalent original m then load_each rest manifests
               else Inl (Mm_duplicate (mn_id m) original_path path)
           | None \<Rightarrow> load_each rest (manifests @ [(path, m)])))"

fun check_flag_collisions :: "(string \<times> string) list \<Rightarrow> manifest list \<Rightarrow> model_error + unit" where
  "check_flag_collisions seen [] = Inr ()"
| "check_flag_collisions seen (m # ms) =
     (if mn_provider m \<noteq> ''cloud'' then check_flag_collisions seen ms
      else
        (let flag = cloud_provider_env_flag (mn_id m) in
         case map_of seen flag of
           Some other \<Rightarrow>
             if other \<noteq> mn_id m then Inl (Mm_flag_collision other (mn_id m) flag)
             else check_flag_collisions ((flag, mn_id m) # seen) ms
         | None \<Rightarrow> check_flag_collisions ((flag, mn_id m) # seen) ms))"

definition load_all :: "(string list \<times> manifest_text) list \<Rightarrow> model_error + manifest list" where
  "load_all files =
     (case load_each (sort_key fst files) [] of
        Inl e \<Rightarrow> Inl e
      | Inr loaded \<Rightarrow>
          (case check_flag_collisions [] (map snd loaded) of
             Inl e \<Rightarrow> Inl e
           | Inr _ \<Rightarrow> Inr (map snd loaded)))"

definition registry_get :: "manifest list \<Rightarrow> string \<Rightarrow> model_error + manifest" where
  "registry_get registry model_id =
     (case find (\<lambda>m. mn_id m = model_id) registry of
        Some m \<Rightarrow> Inr m | None \<Rightarrow> Inl (Mm_lookup (''Unknown model_id: '' @ model_id)))"

definition registry_list_all :: "bool \<Rightarrow> manifest list \<Rightarrow> manifest list" where
  "registry_list_all enabled_only registry = (if enabled_only then filter mn_enabled registry else registry)"

definition list_by_media_type :: "media_type \<Rightarrow> bool \<Rightarrow> manifest list \<Rightarrow> manifest list" where
  "list_by_media_type media_type enabled_only registry =
     filter (\<lambda>m. mn_media_type m = media_type) (registry_list_all enabled_only registry)"

definition list_by_task_type :: "string \<Rightarrow> bool \<Rightarrow> manifest list \<Rightarrow> manifest list" where
  "list_by_task_type task_type enabled_only registry =
     filter (\<lambda>m. mn_task_type m = task_type) (registry_list_all enabled_only registry)"

definition get_default :: "manifest list \<Rightarrow> media_type \<Rightarrow> string option \<Rightarrow> manifest option" where
  "get_default registry media_type task_type =
     find mn_is_default
       (filter (\<lambda>m. case task_type of None \<Rightarrow> True | Some t \<Rightarrow> mn_task_type m = t)
          (list_by_media_type media_type True registry))"

section \<open>The resolver\<close>

fun register_names :: "string \<Rightarrow> string list \<Rightarrow> (string \<times> string) list \<Rightarrow> model_error + (string \<times> string) list" where
  "register_names manifest_id [] index = Inr index"
| "register_names manifest_id (requested # names) index =
     (case map_of index requested of
        Some existing \<Rightarrow>
          if existing \<noteq> manifest_id then Inl (Mm_name_collision requested existing manifest_id)
          else register_names manifest_id names ((requested, manifest_id) # index)
      | None \<Rightarrow> register_names manifest_id names ((requested, manifest_id) # index))"

fun build_index :: "manifest list \<Rightarrow> (string \<times> string) list \<Rightarrow> model_error + (string \<times> string) list" where
  "build_index [] index = Inr index"
| "build_index (m # ms) index =
     (case register_names (mn_id m) (public_model_id m # mn_aliases m) index of
        Inl e \<Rightarrow> Inl e | Inr index' \<Rightarrow> build_index ms index')"

definition resolve_manifest_id :: "manifest list \<Rightarrow> string \<Rightarrow> model_error + string" where
  "resolve_manifest_id registry model_id =
     (case build_index (registry_list_all False registry) [] of
        Inl e \<Rightarrow> Inl e
      | Inr index \<Rightarrow> Inr (case map_of index model_id of Some manifest_id \<Rightarrow> manifest_id | None \<Rightarrow> model_id))"

definition requested_manifest ::
  "manifest list \<Rightarrow> string option \<Rightarrow> media_type \<Rightarrow> string option \<Rightarrow> model_error + manifest" where
  "requested_manifest registry model_id media_type task_type =
     (if absent model_id then
        (case (case get_default registry media_type task_type of
                 Some m \<Rightarrow> Some m
               | None \<Rightarrow> if task_type \<noteq> None then get_default registry media_type None else None) of
           Some m \<Rightarrow> Inr m
         | None \<Rightarrow> Inl (Mm_lookup (''No default model for media_type='' @ media_text media_type)))
      else
        (case resolve_manifest_id registry (the model_id) of
           Inl e \<Rightarrow> Inl e | Inr manifest_id \<Rightarrow> registry_get registry manifest_id))"

definition resolve ::
  "manifest list \<Rightarrow> string option \<Rightarrow> media_type \<Rightarrow> string option \<Rightarrow> model_error + manifest" where
  "resolve registry model_id media_type task_type =
     (case requested_manifest registry model_id media_type task_type of
        Inl e \<Rightarrow> Inl e
      | Inr m \<Rightarrow>
          if \<not> mn_enabled m then Inl (Mm_lookup (''Model is disabled: '' @ mn_id m))
          else if mn_media_type m \<noteq> media_type then Inl (Mm_lookup (mn_id m @ '' does not support media_type''))
          else if (case task_type of None \<Rightarrow> False | Some t \<Rightarrow> mn_task_type m \<noteq> t) then
            Inl (Mm_lookup (mn_id m @ '' does not support task_type''))
          else Inr m)"

text \<open>\<open>ModelService.list_models\<close>.\<close>

definition list_models :: "manifest list \<Rightarrow> media_type option \<Rightarrow> string option \<Rightarrow> manifest list" where
  "list_models registry media_type task_type =
     filter (\<lambda>m. case task_type of None \<Rightarrow> True | Some t \<Rightarrow> mn_task_type m = t)
       (filter (\<lambda>m. case media_type of None \<Rightarrow> True | Some k \<Rightarrow> mn_media_type m = k) (registry_list_all True registry))"

section \<open>What a loaded catalogue satisfies\<close>

lemma validate_manifest_same: "validate_manifest m = Inr n \<Longrightarrow> n = m"
  by (auto simp: validate_manifest_def split: if_splits option.splits)

definition loaded_ok :: "(string list \<times> manifest) list \<Rightarrow> bool" where
  "loaded_ok acc \<longleftrightarrow> distinct (map (\<lambda>x. mn_id (snd x)) acc) \<and> (\<forall>x \<in> set acc. validate_manifest (snd x) = Inr (snd x))"

lemma read_manifest_fields: "read_manifest t = Inr m \<Longrightarrow> t = Fields m \<and> validate_manifest m = Inr m"
  by (auto simp: read_manifest_def split: manifest_text.splits dest: validate_manifest_same)

lemma loaded_ok_add:
  "loaded_ok acc \<Longrightarrow> find (\<lambda>(p, m'). mn_id m' = mn_id m) acc = None \<Longrightarrow> validate_manifest m = Inr m \<Longrightarrow>
   loaded_ok (acc @ [(path, m)])"
  by (force simp: loaded_ok_def find_None_iff)

text \<open>One file: it is kept, or dropped as equivalent to one kept before it.\<close>

lemma load_each_step:
  assumes "load_each ((path, t) # rest) acc = Inr out" and "loaded_ok acc"
  obtains m acc' where "t = Fields m" and "load_each rest acc' = Inr out" and "loaded_ok acc'"
    and "set acc \<subseteq> set acc'" and "set acc' \<subseteq> insert (path, m) (set acc)"
    and "\<exists>x \<in> set acc'. mn_id (snd x) = mn_id m \<and> is_duplicate_equivalent (snd x) m"
proof -
  from assms(1) obtain m where t: "read_manifest t = Inr m" by (auto split: sum.splits)
  note m = read_manifest_fields [OF t]
  show ?thesis
  proof (cases "find (\<lambda>(p, m'). mn_id m' = mn_id m) acc")
    case None
    with t assms m show ?thesis
      by (intro that [of m "acc @ [(path, m)]"]) (auto simp: loaded_ok_add is_duplicate_equivalent_def)
  next
    case (Some x)
    obtain p n where x: "x = (p, n)" by (cases x)
    from Some x have n: "(p, n) \<in> set acc" "mn_id n = mn_id m" by (auto simp: find_Some_iff in_set_conv_nth)
    from Some x t assms(1) have "is_duplicate_equivalent n m" "load_each rest acc = Inr out" by (auto split: if_splits)
    with n m assms(2) show ?thesis by (intro that [of m acc]) force+
  qed
qed

lemma load_each_keeps:
  assumes "load_each files acc = Inr out" and "loaded_ok acc"
  shows "loaded_ok out \<and> set acc \<subseteq> set out \<and> set out \<subseteq> set acc \<union> {(p, m). (p, Fields m) \<in> set files}"
  using assms
proof (induction files arbitrary: acc)
  case (Cons a rest)
  obtain path t where a: "a = (path, t)" by (cases a)
  obtain m acc' where step: "t = Fields m" "load_each rest acc' = Inr out" "loaded_ok acc'"
    "set acc \<subseteq> set acc'" "set acc' \<subseteq> insert (path, m) (set acc)"
    using Cons.prems unfolding a by (rule load_each_step)
  from Cons.IH [OF step(2,3)] have "loaded_ok out" "set acc' \<subseteq> set out"
    "set out \<subseteq> set acc' \<union> {(p, m). (p, Fields m) \<in> set rest}" by auto
  with step a show ?case by auto
qed simp

lemma load_each_covers:
  assumes "load_each files acc = Inr out" and "loaded_ok acc" and "(path, t) \<in> set files"
  shows "\<exists>m. t = Fields m \<and> (\<exists>x \<in> set out. mn_id (snd x) = mn_id m \<and> is_duplicate_equivalent (snd x) m)"
  using assms
proof (induction files arbitrary: acc)
  case (Cons a rest)
  obtain q u where a: "a = (q, u)" by (cases a)
  obtain m acc' where step: "u = Fields m" "load_each rest acc' = Inr out" "loaded_ok acc'"
    "\<exists>x \<in> set acc'. mn_id (snd x) = mn_id m \<and> is_duplicate_equivalent (snd x) m"
    using Cons.prems(1,2) unfolding a by (rule load_each_step)
  from load_each_keeps [OF step(2,3)] step(4)
  have "\<exists>x \<in> set out. mn_id (snd x) = mn_id m \<and> is_duplicate_equivalent (snd x) m" by blast
  with Cons.IH [OF step(2,3)] Cons.prems(3) a step(1) show ?case by auto
qed simp

lemma check_flag_collisions_sound:
  assumes "check_flag_collisions seen ms = Inr ()"
    and "m \<in> set ms" "mn_provider m = ''cloud''" and "map_of seen (cloud_provider_env_flag (mn_id m)) = Some other"
  shows "other = mn_id m"
  using assms
proof (induction seen ms arbitrary: other rule: check_flag_collisions.induct)
  case (2 seen n ms)
  show ?case
  proof (cases "mn_provider n = ''cloud''")
    case False
    with 2 show ?thesis by auto
  next
    case True
    define flag where "flag = cloud_provider_env_flag (mn_id n)"
    from True "2.prems"(1) have seen: "\<forall>x. map_of seen flag = Some x \<longrightarrow> x = mn_id n"
      and rest: "check_flag_collisions ((flag, mn_id n) # seen) ms = Inr ()"
      by (auto simp: flag_def Let_def split: option.splits if_splits)
    have IH: "m \<in> set ms \<Longrightarrow> map_of ((flag, mn_id n) # seen) (cloud_provider_env_flag (mn_id m)) = Some x \<Longrightarrow> x = mn_id m" for x
      using True "2.IH"(2) [of flag x] "2.IH"(3) [of flag _ x] rest "2.prems"(3) seen unfolding flag_def
      by (cases "map_of seen flag") (auto simp: flag_def)
    show ?thesis
    proof (cases "m \<in> set ms")
      case ms: True
      show ?thesis
      proof (cases "flag = cloud_provider_env_flag (mn_id m)")
        case True
        with IH [of "mn_id n"] ms have "mn_id n = mn_id m" by simp
        with seen True "2.prems"(4) show ?thesis by simp
      qed (use IH [of other] ms "2.prems"(4) in auto)
    next
      case False
      with "2.prems"(2) have "m = n" by simp
      with seen "2.prems"(4) show ?thesis by (simp add: flag_def)
    qed
  qed
qed simp

lemma check_flag_collisions_distinct:
  assumes "check_flag_collisions seen ms = Inr ()"
    and "m \<in> set ms" "mn_provider m = ''cloud''" "n \<in> set ms" "mn_provider n = ''cloud''"
    and "cloud_provider_env_flag (mn_id m) = cloud_provider_env_flag (mn_id n)"
  shows "mn_id m = mn_id n"
  using assms
proof (induction ms arbitrary: seen)
  case (Cons a ms)
  define flag where "flag = cloud_provider_env_flag (mn_id a)"
  from Cons.prems(1) obtain seen' where rest: "check_flag_collisions seen' ms = Inr ()"
    and first: "mn_provider a = ''cloud'' \<longrightarrow> map_of seen' flag = Some (mn_id a)"
    by (auto simp: flag_def Let_def split: if_splits option.splits)
  show ?case
  proof (cases "m \<in> set ms \<and> n \<in> set ms")
    case True
    with Cons.IH [OF rest] Cons.prems show ?thesis by blast
  next
    case False
    have later: "mn_id a = mn_id b" if "mn_provider a = ''cloud''" "b \<in> set ms" "mn_provider b = ''cloud''"
      "cloud_provider_env_flag (mn_id b) = flag" for b
      using check_flag_collisions_sound [OF rest that(2,3)] first that(1,4) by simp
    from False Cons.prems(2,4) consider "m = a" "n = a" | "m = a" "n \<in> set ms" | "n = a" "m \<in> set ms" by auto
    then show ?thesis
    proof cases
      case 2
      from later [of n] 2 Cons.prems(3,5) Cons.prems(6) [symmetric] show ?thesis unfolding flag_def by blast
    next
      case 3
      from later [of m] 3 Cons.prems(3,5,6) show ?thesis unfolding flag_def by metis
    qed simp
  qed
qed simp

section \<open>The index\<close>

definition names_of :: "manifest \<Rightarrow> string list" where
  "names_of m = public_model_id m # mn_aliases m"

lemma register_names_index:
  assumes "register_names i ns index = Inr index'"
  shows "map_of index' x = (if x \<in> set ns then Some i else map_of index x)"
  using assms by (induction i ns index rule: register_names.induct) (auto split: option.splits if_splits)

lemma register_names_consistent:
  "register_names i ns index = Inr index' \<Longrightarrow> x \<in> set ns \<Longrightarrow> map_of index x = Some j \<Longrightarrow> j = i"
proof (induction i ns index rule: register_names.induct)
  case (2 i n ns index)
  show ?case
  proof (cases "x = n")
    case True
    with 2 show ?thesis by (auto split: if_splits)
  next
    case False
    with 2 show ?thesis by (auto split: option.splits if_splits)
  qed
qed simp

lemma build_index_lookup:
  assumes "build_index ms index = Inr index'"
  shows "map_of index' x = Some i \<longleftrightarrow> map_of index x = Some i \<or> (\<exists>m \<in> set ms. x \<in> set (names_of m) \<and> mn_id m = i)"
  using assms
proof (induction ms index rule: build_index.induct)
  case (2 m ms index)
  from "2.prems" obtain mid where mid: "register_names (mn_id m) (names_of m) index = Inr mid" "build_index ms mid = Inr index'"
    by (auto simp: names_of_def split: sum.splits)
  have "map_of mid x = Some i \<longleftrightarrow> map_of index x = Some i \<or> (x \<in> set (names_of m) \<and> mn_id m = i)"
    using register_names_index [OF mid(1), of x] register_names_consistent [OF mid(1), of x] by auto
  with "2.IH" [OF mid(1) [unfolded names_of_def] mid(2)] show ?case by auto
qed simp

lemma registry_get_iff:
  assumes "distinct (map mn_id registry)"
  shows "registry_get registry i = Inr m \<longleftrightarrow> m \<in> set registry \<and> mn_id m = i"
proof (cases "find (\<lambda>m. mn_id m = i) registry")
  case None
  then have "\<forall>m \<in> set registry. mn_id m \<noteq> i" by (simp add: find_None_iff)
  with None show ?thesis by (auto simp: registry_get_def)
next
  case (Some n)
  then have "n \<in> set registry" "mn_id n = i" by (auto simp: find_Some_iff in_set_conv_nth)
  with assms Some show ?thesis by (auto simp: registry_get_def distinct_map dest: inj_onD)
qed

lemma load_all_distinct: "load_all files = Inr registry \<Longrightarrow> distinct (map mn_id registry)"
  using load_each_keeps [of "sort_key fst files" "[]"]
  by (auto simp: load_all_def loaded_ok_def comp_def split: sum.splits)

lemma resolve_iff:
  "resolve registry model_id media task = Inr m \<longleftrightarrow>
   requested_manifest registry model_id media task = Inr m \<and> mn_enabled m \<and> mn_media_type m = media \<and>
   (\<forall>t. task = Some t \<longrightarrow> mn_task_type m = t)"
  by (cases "requested_manifest registry model_id media task"; cases task) (auto simp: resolve_def)

section \<open>A catalogue\<close>

definition sample_manifest :: "string \<Rightarrow> string option \<Rightarrow> string list \<Rightarrow> string \<Rightarrow> manifest" where
  "sample_manifest i public aliases provider =
     \<lparr>mn_id = i, mn_public_id = public, mn_display_name = i, mn_media_type = Media_image,
      mn_task_type = ''txt2img'', mn_provider = provider, mn_runtime = ''diffusers'', mn_local_path = None,
      mn_remote_ref = Some ''hub'', mn_loader = ''sdxl'', mn_dtype = None, mn_revision = None,
      mn_default_params = [(''steps'', JInt 20)], mn_aliases = aliases, mn_tags = [], mn_is_default = True,
      mn_enabled = True, mn_reference_capability = None\<rparr>"

definition sample_files :: "(string list \<times> manifest_text) list" where
  "sample_files =
     [([''image'', ''sdxl.json''], Fields (sample_manifest ''stable-diffusion-xl'' (Some ''sdxl'') [''sdxl-local''] ''local'')),
      ([''cloud'', ''a.json''], Fields (sample_manifest ''vendor-a'' None [] ''cloud'')),
      ([''cloud'', ''b.json''], Fields (sample_manifest ''vendor-b'' None [] ''cloud''))]"

definition sample_registry :: "manifest list" where
  "sample_registry =
     [sample_manifest ''vendor-a'' None [] ''cloud'', sample_manifest ''vendor-b'' None [] ''cloud'',
      sample_manifest ''stable-diffusion-xl'' (Some ''sdxl'') [''sdxl-local''] ''local'']"

definition sample_index :: "(string \<times> string) list" where
  "sample_index =
     [(''sdxl-local'', ''stable-diffusion-xl''), (''sdxl'', ''stable-diffusion-xl''),
      (''vendor-b'', ''vendor-b''), (''vendor-a'', ''vendor-a'')]"

lemma sample_loads: "load_all sample_files = Inr sample_registry" by code_simp

lemma sample_indexed: "build_index sample_registry [] = Inr sample_index" by code_simp

section \<open>Claims\<close>

text \<open>
  C31: which manifest a request names. On a catalogue that loads and whose names do not collide, a
  non-empty model id resolves to a manifest exactly when that manifest is enabled, is of the
  requested media type and task, and either carries the id as its public id or alias, or has it as
  its own id while no manifest carries it as a name.
\<close>

theorem resolve_names_one_manifest:
  assumes "load_all files = Inr registry" and "build_index registry [] = Inr index" and "name \<noteq> []"
  shows "resolve registry (Some name) media task = Inr m \<longleftrightarrow>
    m \<in> set registry \<and> mn_enabled m \<and> mn_media_type m = media \<and> (\<forall>t. task = Some t \<longrightarrow> mn_task_type m = t) \<and>
    (name \<in> set (names_of m) \<or> mn_id m = name \<and> (\<forall>n \<in> set registry. name \<notin> set (names_of n)))"
proof -
  note get = registry_get_iff [OF load_all_distinct [OF assms(1)]]
  have unique: "\<And>m n. m \<in> set registry \<Longrightarrow> n \<in> set registry \<Longrightarrow> mn_id m = mn_id n \<Longrightarrow> m = n"
    using load_all_distinct [OF assms(1)] by (auto simp: distinct_map dest: inj_onD)
  have found: "map_of index name = Some i \<longleftrightarrow> (\<exists>m \<in> set registry. name \<in> set (names_of m) \<and> mn_id m = i)" for i
    using build_index_lookup [OF assms(2)] by simp
  have wanted: "requested_manifest registry (Some name) media task =
      registry_get registry (case map_of index name of Some i \<Rightarrow> i | None \<Rightarrow> name)"
    using assms(2,3) by (simp add: requested_manifest_def absent_def resolve_manifest_id_def registry_list_all_def)
  have "requested_manifest registry (Some name) media task = Inr m \<longleftrightarrow>
      m \<in> set registry \<and> (name \<in> set (names_of m) \<or> mn_id m = name \<and> (\<forall>n \<in> set registry. name \<notin> set (names_of n)))" for m
  proof (cases "map_of index name")
    case None
    with found have "\<forall>n \<in> set registry. name \<notin> set (names_of n)" by auto
    with None show ?thesis by (auto simp: wanted get)
  next
    case (Some i)
    from Some found have "\<exists>n \<in> set registry. name \<in> set (names_of n) \<and> mn_id n = i" by blast
    moreover have "mn_id n = i" if "n \<in> set registry" "name \<in> set (names_of n)" for n
      using Some found [of "mn_id n"] that by auto
    ultimately show ?thesis using Some unique by (simp add: wanted get) blast
  qed
  then show ?thesis unfolding resolve_iff by blast
qed

lemma resolve_names_one_manifest_witness:
  "resolve sample_registry (Some ''sdxl-local'') Media_image None =
     Inr (sample_manifest ''stable-diffusion-xl'' (Some ''sdxl'') [''sdxl-local''] ''local'')"
proof -
  have names: "sample_manifest ''stable-diffusion-xl'' (Some ''sdxl'') [''sdxl-local''] ''local'' \<in> set sample_registry \<and>
      ''sdxl-local'' \<in> set (names_of (sample_manifest ''stable-diffusion-xl'' (Some ''sdxl'') [''sdxl-local''] ''local''))"
    by (simp add: sample_registry_def names_of_def sample_manifest_def)
  then show ?thesis
    by (subst resolve_names_one_manifest [OF sample_loads sample_indexed]) (simp_all add: sample_manifest_def)
qed

text \<open>
  Opting into one cloud model never opts into another. When a catalogue loads, setting the
  global switch and the switch of one cloud manifest enables that manifest and no cloud manifest
  with another id.
\<close>

theorem cloud_switches_are_separate:
  assumes "load_all files = Inr registry" and "m \<in> set registry" "mn_provider m = ''cloud''"
    and "n \<in> set registry" "mn_provider n = ''cloud''"
  shows "ensure_cloud_provider_enabled
           ((\<lambda>_. None)(''ALLOW_CLOUD_PROVIDERS'' \<mapsto> ''true'', cloud_provider_env_flag (mn_id m) \<mapsto> ''true'')) (mn_id n) = Inr ()
     \<longleftrightarrow> mn_id n = mn_id m"
proof -
  from assms(1) have "check_flag_collisions [] registry = Inr ()"
    by (auto simp: load_all_def split: sum.splits)
  from check_flag_collisions_distinct [OF this assms(4,5,2,3)]
  have "cloud_provider_env_flag (mn_id n) = cloud_provider_env_flag (mn_id m) \<longleftrightarrow> mn_id n = mn_id m" by auto
  moreover have "cloud_provider_env_flag i \<noteq> ''ALLOW_CLOUD_PROVIDERS''" for i by (simp add: cloud_provider_env_flag_def)
  moreover have "map ascii_lower (py_strip ''true'') = ''true''" "map ascii_lower (py_strip []) = []" by code_simp+
  ultimately show ?thesis by (auto simp: ensure_cloud_provider_enabled_def switched_on_def)
qed

lemma cloud_switches_are_separate_witness:
  "ensure_cloud_provider_enabled
     ((\<lambda>_. None)(''ALLOW_CLOUD_PROVIDERS'' \<mapsto> ''true'', cloud_provider_env_flag ''vendor-a'' \<mapsto> ''true'')) ''vendor-b'' \<noteq> Inr ()"
proof -
  have "sample_manifest ''vendor-a'' None [] ''cloud'' \<in> set sample_registry"
    and "sample_manifest ''vendor-b'' None [] ''cloud'' \<in> set sample_registry" by (simp_all add: sample_registry_def)
  from cloud_switches_are_separate [OF sample_loads this(1) _ this(2)] show ?thesis by (simp add: sample_manifest_def)
qed

end
