(* ===== verification/Runtime_Cache.thy ===== *)
theory Runtime_Cache imports Model_Registry begin

text \<open>
  \<open>ModelRuntimeCache\<close> of \<open>core/models/cache.py\<close> and the vocabulary of \<open>core/models/runtime_lease.py\<close>:
  the slots of loaded models, their lease counts, their order of use and their budgets.

  The metadata lock is a condition variable: \<open>rc_waiters\<close> are the threads parked in its \<open>wait()\<close>. A
  parked thread moves again when \<open>notify_all()\<close> empties the list, or when its own time-out ends.

  The cache's methods do their slow work, loading and cleaning up, with the metadata lock free. Here
  every block under that lock is one function on the cache; the methods that consist of several
  such blocks are programs over them (\<open>Runtime_Programs\<close>).

  A \<open>RuntimeEntry\<close> is an object with an identity: \<open>en_ref\<close> is its address, which no two entries ever
  share, and \<open>current is entry\<close> compares addresses. A loaded runtime is known by its address only.
\<close>

section \<open>Entries\<close>

datatype runtime_state = Rt_loading | Rt_ready | Rt_invalid | Rt_retiring

record runtime_entry =
  en_ref :: nat
  en_canonical_id :: string
  en_media_bucket :: string
  en_state :: runtime_state
  en_runtime :: "nat option"
  en_lease_count :: nat
  en_generation :: nat
  en_admission_class :: string

definition is_pinned :: "runtime_entry \<Rightarrow> bool" where
  "is_pinned e \<longleftrightarrow> 0 < en_lease_count e"

text \<open>
  Exceptions. The first four are \<open>RuntimeBusyError\<close>s; the two private signals among them carry the
  address of the entry they are about. \<open>Rt_raised\<close> is whatever a loader or a callback raised,
  \<open>Rt_interrupt\<close> a \<open>BaseException\<close> that is no \<open>Exception\<close>. The last two mark where the bound of a
  modelled loop was reached.
\<close>

datatype rt_error =
  Rt_busy
| Rt_wait_timeout
| Rt_draining nat
| Rt_revalidation nat
| Rt_runtime_error string
| Rt_value_error string
| Rt_model model_error
| Rt_raised string
| Rt_interrupt
| Rt_out_of_rounds
| Rt_out_of_slices

fun is_busy_error :: "rt_error \<Rightarrow> bool" where
  "is_busy_error Rt_busy = True"
| "is_busy_error Rt_wait_timeout = True"
| "is_busy_error (Rt_draining r) = True"
| "is_busy_error (Rt_revalidation r) = True"
| "is_busy_error _ = False"

section \<open>The cache\<close>

record runtime_cache =
  rc_max_entries :: nat
  rc_media_limits :: "(string \<times> nat) list"
  rc_entries :: "(string \<times> runtime_entry) list"
  rc_last_generation :: "string \<Rightarrow> nat option"
  rc_next_ref :: nat
  rc_waiters :: "nat list"

definition DEFAULT_BUCKET :: string where "DEFAULT_BUCKET = ''__default__''"

definition EVICTABLE_STATES :: "runtime_state list" where "EVICTABLE_STATES = [Rt_ready, Rt_invalid]"

definition BUSY_FOR_UNLOAD_STATES :: "runtime_state list" where
  "BUSY_FOR_UNLOAD_STATES = [Rt_loading, Rt_retiring]"

definition init_cache :: "int \<Rightarrow> (string \<times> int) list \<Rightarrow> rt_error + runtime_cache" where
  "init_cache max_entries media_limits =
     (if max_entries < 1 then Inl (Rt_value_error ''max_entries must be at least 1.'')
      else
        (case find (\<lambda>(media_type, limit). limit < 1) media_limits of
           Some (media_type, limit) \<Rightarrow> Inl (Rt_value_error (''media_limits['' @ media_type @ ''] must be at least 1''))
         | None \<Rightarrow>
             Inr \<lparr>rc_max_entries = nat max_entries, rc_media_limits = map (apsnd nat) media_limits,
                  rc_entries = [], rc_last_generation = (\<lambda>_. None), rc_next_ref = 0, rc_waiters = []\<rparr>))"

definition entry_at :: "string \<Rightarrow> runtime_cache \<Rightarrow> runtime_entry option" where
  "entry_at canonical_id c = map_of (rc_entries c) canonical_id"

text \<open>\<open>self._entries.get(canonical_id) is entry\<close>.\<close>

definition is_current :: "string \<Rightarrow> nat \<Rightarrow> runtime_cache \<Rightarrow> bool" where
  "is_current canonical_id r c \<longleftrightarrow> (case entry_at canonical_id c of None \<Rightarrow> False | Some e \<Rightarrow> en_ref e = r)"

definition change_entry :: "string \<Rightarrow> (runtime_entry \<Rightarrow> runtime_entry) \<Rightarrow> runtime_cache \<Rightarrow> runtime_cache" where
  "change_entry canonical_id f c =
     c\<lparr>rc_entries := map (\<lambda>(k, e). (k, if k = canonical_id then f e else e)) (rc_entries c)\<rparr>"

definition move_to_end :: "string \<Rightarrow> runtime_cache \<Rightarrow> runtime_cache" where
  "move_to_end canonical_id c =
     c\<lparr>rc_entries := filter (\<lambda>(k, e). k \<noteq> canonical_id) (rc_entries c) @
                    filter (\<lambda>(k, e). k = canonical_id) (rc_entries c)\<rparr>"

definition delete_entry :: "string \<Rightarrow> runtime_cache \<Rightarrow> runtime_cache" where
  "delete_entry canonical_id c = c\<lparr>rc_entries := filter (\<lambda>(k, e). k \<noteq> canonical_id) (rc_entries c)\<rparr>"

definition next_generation :: "string \<Rightarrow> runtime_cache \<Rightarrow> nat" where
  "next_generation canonical_id c = (case rc_last_generation c canonical_id of None \<Rightarrow> 0 | Some g \<Rightarrow> Suc g)"

definition new_entry :: "string \<Rightarrow> string \<Rightarrow> runtime_state \<Rightarrow> nat option \<Rightarrow> runtime_cache \<Rightarrow> runtime_entry" where
  "new_entry canonical_id bucket state runtime c =
     \<lparr>en_ref = rc_next_ref c, en_canonical_id = canonical_id, en_media_bucket = bucket, en_state = state,
      en_runtime = runtime, en_lease_count = 0, en_generation = next_generation canonical_id c,
      en_admission_class = ''heavy''\<rparr>"

text \<open>\<open>self._entries[canonical_id] = RuntimeEntry(\<dots>)\<close>, for an id that is not there.\<close>

definition add_entry :: "string \<Rightarrow> string \<Rightarrow> runtime_state \<Rightarrow> nat option \<Rightarrow> runtime_cache \<Rightarrow> runtime_cache" where
  "add_entry canonical_id bucket state runtime c =
     c\<lparr>rc_entries := rc_entries c @ [(canonical_id, new_entry canonical_id bucket state runtime c)],
       rc_last_generation := (rc_last_generation c)(canonical_id \<mapsto> next_generation canonical_id c),
       rc_next_ref := Suc (rc_next_ref c)\<rparr>"

definition bucket_for :: "string option \<Rightarrow> runtime_cache \<Rightarrow> string" where
  "bucket_for media_type c =
     (case media_type of
        Some m \<Rightarrow> if m \<in> set (map fst (rc_media_limits c)) then m else DEFAULT_BUCKET
      | None \<Rightarrow> DEFAULT_BUCKET)"

definition budget_of :: "string \<Rightarrow> runtime_cache \<Rightarrow> nat" where
  "budget_of bucket c =
     (case map_of (rc_media_limits c) bucket of Some n \<Rightarrow> n | None \<Rightarrow> rc_max_entries c)"

definition bucket_entries :: "string \<Rightarrow> runtime_cache \<Rightarrow> (string \<times> runtime_entry) list" where
  "bucket_entries bucket c = filter (\<lambda>(k, e). en_media_bucket e = bucket) (rc_entries c)"

definition retiring_count :: "string \<Rightarrow> runtime_cache \<Rightarrow> nat" where
  "retiring_count bucket c = length (filter (\<lambda>(k, e). en_state e = Rt_retiring) (bucket_entries bucket c))"

definition evictable :: "runtime_entry \<Rightarrow> bool" where
  "evictable e \<longleftrightarrow> \<not> is_pinned e \<and> en_state e \<in> set EVICTABLE_STATES"

definition busy_for_unload :: "runtime_entry \<Rightarrow> bool" where
  "busy_for_unload e \<longleftrightarrow> is_pinned e \<or> en_state e \<in> set BUSY_FOR_UNLOAD_STATES"

definition retire :: "string \<Rightarrow> runtime_cache \<Rightarrow> runtime_cache" where
  "retire canonical_id = change_entry canonical_id (\<lambda>e. e\<lparr>en_state := Rt_retiring\<rparr>)"

text \<open>\<open>_select_capacity_victim_locked\<close>: no victim needed, the one to evict, or busy.\<close>

definition select_capacity_victim ::
  "string \<Rightarrow> runtime_cache \<Rightarrow> rt_error + (string \<times> runtime_entry) option" where
  "select_capacity_victim bucket c =
     (let budget = budget_of bucket c;
          occupied = length (bucket_entries bucket c);
          staying = occupied - retiring_count bucket c in
      if occupied < budget then Inr None
      else if staying < budget then Inl Rt_busy
      else
        (case filter (\<lambda>(k, e). evictable e) (bucket_entries bucket c) of
           [] \<Rightarrow> Inl Rt_busy
         | victim # _ \<Rightarrow> if budget \<le> staying - 1 then Inl Rt_busy else Inr (Some victim)))"

text \<open>\<open>_evict_bucket_overflow_locked\<close>: the victims, marked as retiring, in the order chosen.\<close>

definition staying_count :: "runtime_cache \<Rightarrow> nat" where
  "staying_count c = length (filter (\<lambda>(k, e). en_state e \<noteq> Rt_retiring) (rc_entries c))"

definition overflow_victim :: "string \<Rightarrow> string option \<Rightarrow> runtime_cache \<Rightarrow> (string \<times> runtime_entry) option" where
  "overflow_victim bucket exclude_id c =
     (if length (bucket_entries bucket c) - retiring_count bucket c \<le> budget_of bucket c then None
      else find (\<lambda>(k, e). Some k \<noteq> exclude_id \<and> evictable e) (bucket_entries bucket c))"

lemma retire_fewer:
  assumes "(k, e) \<in> set (rc_entries c)" and "en_state e \<noteq> Rt_retiring"
  shows "staying_count (retire k c) < staying_count c"
proof -
  have "length (filter (\<lambda>(k, e). en_state e \<noteq> Rt_retiring) (map (\<lambda>(j, e). (j, if j = k then e\<lparr>en_state := Rt_retiring\<rparr> else e)) xs))
      \<le> length (filter (\<lambda>(k, e). en_state e \<noteq> Rt_retiring) xs)" for xs
    by (induction xs) (auto split: if_splits)
  note le = this
  have "(k, e) \<in> set xs \<Longrightarrow>
    length (filter (\<lambda>(k, e). en_state e \<noteq> Rt_retiring) (map (\<lambda>(j, e). (j, if j = k then e\<lparr>en_state := Rt_retiring\<rparr> else e)) xs))
      < length (filter (\<lambda>(k, e). en_state e \<noteq> Rt_retiring) xs)" for xs
    using assms(2) le by (induction xs) (auto simp: less_Suc_eq_le split: prod.splits if_splits)
  with assms(1) show ?thesis by (simp add: staying_count_def retire_def change_entry_def)
qed

lemma overflow_victim_fewer:
  assumes "overflow_victim bucket exclude_id c = Some (k, e)"
  shows "staying_count (retire k c) < staying_count c"
  using assms
  by (intro retire_fewer [of k e])
    (auto simp: overflow_victim_def bucket_entries_def evictable_def EVICTABLE_STATES_def find_Some_iff in_set_conv_nth
      split: if_splits dest!: nth_mem)

function evict_bucket_overflow ::
  "string \<Rightarrow> string option \<Rightarrow> runtime_cache \<Rightarrow> (string \<times> runtime_entry) list \<times> runtime_cache" where
  "evict_bucket_overflow bucket exclude_id c =
     (case overflow_victim bucket exclude_id c of
        None \<Rightarrow> ([], c)
      | Some (k, e) \<Rightarrow>
          apfst ((#) (k, e\<lparr>en_state := Rt_retiring\<rparr>)) (evict_bucket_overflow bucket exclude_id (retire k c)))"
  by auto
termination by (relation "measure (\<lambda>(bucket, exclude_id, c). staying_count c)") (auto dest: overflow_victim_fewer)

declare evict_bucket_overflow.simps [simp del]

section \<open>Budgets from the environment\<close>

definition DEFAULT_MEDIA_TYPES :: "string list" where
  "DEFAULT_MEDIA_TYPES = [''image'', ''video'', ''audio'', ''text'']"

definition media_limit_from :: "(string \<Rightarrow> string option) \<Rightarrow> string \<Rightarrow> int option" where
  "media_limit_from env media_type =
     (case env (''MAX_CACHED_MODELS_'' @ map ascii_upper media_type) of
        None \<Rightarrow> None
      | Some raw_value \<Rightarrow>
          if raw_value = [] then None
          else
            (case py_int raw_value of
               None \<Rightarrow> None
             | Some parsed \<Rightarrow> if parsed < 1 then None else Some parsed))"

definition resolve_media_cache_limits :: "(string \<Rightarrow> string option) \<Rightarrow> string list \<Rightarrow> (string \<times> int) list" where
  "resolve_media_cache_limits env media_types =
     concat (map (\<lambda>m. case media_limit_from env m of Some n \<Rightarrow> [(m, n)] | None \<Rightarrow> []) media_types)"

section \<open>The methods' blocks under the metadata lock\<close>

type_synonym 'a cache_txn = "runtime_cache \<Rightarrow> (rt_error + 'a) \<times> runtime_cache"

definition cache_has :: "string \<Rightarrow> runtime_cache \<Rightarrow> bool" where
  "cache_has model_id c = (case entry_at model_id c of None \<Rightarrow> False | Some e \<Rightarrow> en_state e = Rt_ready)"

definition cache_get :: "string \<Rightarrow> runtime_cache \<Rightarrow> nat option \<times> runtime_cache" where
  "cache_get model_id c =
     (case entry_at model_id c of
        Some e \<Rightarrow> if en_state e = Rt_ready then (en_runtime e, move_to_end model_id c) else (None, c)
      | None \<Rightarrow> (None, c))"

definition loaded_ids :: "runtime_cache \<Rightarrow> string list" where
  "loaded_ids c = map fst (filter (\<lambda>(k, e). en_state e = Rt_ready) (rc_entries c))"

text \<open>\<open>put\<close>: the runtime that was replaced, and the entries that overflow the bucket.\<close>

definition put_placed ::
  "string \<Rightarrow> nat \<Rightarrow> string \<Rightarrow> runtime_cache \<Rightarrow> rt_error + (string \<times> nat) option \<times> runtime_cache" where
  "put_placed model_id runtime_obj bucket c =
     (case entry_at model_id c of
        None \<Rightarrow> Inr (None, add_entry model_id bucket Rt_ready (Some runtime_obj) c)
      | Some existing \<Rightarrow>
          if busy_for_unload existing then Inl Rt_busy
          else if en_runtime existing = Some runtime_obj then
            (if en_state existing = Rt_invalid then Inl Rt_busy
             else Inr (None, move_to_end model_id (change_entry model_id (\<lambda>e. e\<lparr>en_media_bucket := bucket\<rparr>) c)))
          else
            Inr (map_option (Pair model_id) (en_runtime existing),
                 add_entry model_id bucket Rt_ready (Some runtime_obj) (delete_entry model_id c)))"

definition cache_put ::
  "string \<Rightarrow> nat \<Rightarrow> string option \<Rightarrow> ((string \<times> nat) option \<times> (string \<times> runtime_entry) list) cache_txn" where
  "cache_put model_id runtime_obj media_type c =
     (let bucket = bucket_for media_type c in
      case put_placed model_id runtime_obj bucket c of
        Inl e \<Rightarrow> (Inl e, c)
      | Inr (replaced, placed) \<Rightarrow>
          (case evict_bucket_overflow bucket (Some model_id) placed of (victims, c') \<Rightarrow> (Inr (replaced, victims), c')))"

definition cache_unload :: "string \<Rightarrow> runtime_entry option cache_txn" where
  "cache_unload canonical_id c =
     (case entry_at canonical_id c of
        None \<Rightarrow> (Inr None, c)
      | Some e \<Rightarrow>
          if busy_for_unload e then (Inl Rt_busy, c)
          else (Inr (Some (e\<lparr>en_state := Rt_retiring\<rparr>)), retire canonical_id c))"

definition cache_unload_all :: "(string \<times> runtime_entry) list cache_txn" where
  "cache_unload_all c =
     (if list_ex (\<lambda>(k, e). busy_for_unload e) (rc_entries c) then (Inl Rt_busy, c)
      else
        (let targets = map (\<lambda>(k, e). (k, e\<lparr>en_state := Rt_retiring\<rparr>)) (rc_entries c)
         in (Inr targets, c\<lparr>rc_entries := targets\<rparr>)))"

text \<open>
  \<open>acquire_or_reserve\<close>: its first block pins a ready entry, reserves a slot, or picks the entry
  that must be retired first; its last block reserves after the retirement.
\<close>

datatype reservation = Pinned runtime_entry | Reserved runtime_entry | Evict string runtime_entry

definition reserved_slot :: "string \<Rightarrow> string \<Rightarrow> reservation cache_txn" where
  "reserved_slot canonical_id bucket c =
     (Inr (Reserved (new_entry canonical_id bucket Rt_loading None c)), add_entry canonical_id bucket Rt_loading None c)"

definition evicting :: "string \<Rightarrow> runtime_entry \<Rightarrow> reservation cache_txn" where
  "evicting victim_id victim c = (Inr (Evict victim_id (victim\<lparr>en_state := Rt_retiring\<rparr>)), retire victim_id c)"

definition cache_reserve :: "string \<Rightarrow> string option \<Rightarrow> reservation cache_txn" where
  "cache_reserve canonical_id media_type c =
     (let bucket = bucket_for media_type c in
      case entry_at canonical_id c of
        Some e \<Rightarrow>
          if en_state e = Rt_ready then
            (let pinned = e\<lparr>en_lease_count := Suc (en_lease_count e)\<rparr>
             in (Inr (Pinned pinned), move_to_end canonical_id (change_entry canonical_id (\<lambda>_. pinned) c)))
          else if en_state e \<in> set BUSY_FOR_UNLOAD_STATES then (Inl Rt_busy, c)
          else if is_pinned e then (Inl (Rt_draining (en_ref e)), c)
          else evicting canonical_id e c
      | None \<Rightarrow>
          (case select_capacity_victim bucket c of
             Inl e \<Rightarrow> (Inl e, c)
           | Inr None \<Rightarrow> reserved_slot canonical_id bucket c
           | Inr (Some (k, e)) \<Rightarrow> evicting k e c))"

definition cache_reserve_again :: "string \<Rightarrow> string option \<Rightarrow> reservation cache_txn" where
  "cache_reserve_again canonical_id media_type c =
     (let bucket = bucket_for media_type c in
      if entry_at canonical_id c \<noteq> None then (Inl Rt_busy, c)
      else
        (case select_capacity_victim bucket c of
           Inl e \<Rightarrow> (Inl e, c)
         | Inr (Some victim) \<Rightarrow> (Inl Rt_busy, c)
         | Inr None \<Rightarrow> reserved_slot canonical_id bucket c))"

definition cache_publish :: "string \<Rightarrow> nat \<Rightarrow> nat \<Rightarrow> unit cache_txn" where
  "cache_publish canonical_id r runtime_obj c =
     (if \<not> is_current canonical_id r c then (Inl Rt_busy, c)
      else (Inr (), move_to_end canonical_id (change_entry canonical_id
              (\<lambda>e. e\<lparr>en_runtime := Some runtime_obj, en_state := Rt_ready, en_lease_count := 1\<rparr>) c)))"

definition cache_abort :: "string \<Rightarrow> nat \<Rightarrow> runtime_cache \<Rightarrow> runtime_cache" where
  "cache_abort canonical_id r c = (if is_current canonical_id r c then delete_entry canonical_id c else c)"

text \<open>\<open>self._metadata_lock.notify_all()\<close>: every parked thread may look again.\<close>

definition notify_all :: "runtime_cache \<Rightarrow> runtime_cache" where
  "notify_all c = c\<lparr>rc_waiters := []\<rparr>"

definition cache_release_lease ::
  "string \<Rightarrow> nat \<Rightarrow> runtime_cache \<Rightarrow> (string \<times> runtime_entry) list \<times> runtime_cache" where
  "cache_release_lease canonical_id r c =
     (case entry_at canonical_id c of
        None \<Rightarrow> ([], c)
      | Some e \<Rightarrow>
          if en_ref e \<noteq> r then ([], c)
          else
            (let released = notify_all (change_entry canonical_id (\<lambda>e. e\<lparr>en_lease_count := en_lease_count e - 1\<rparr>) c) in
             if en_lease_count e - 1 = 0 then evict_bucket_overflow (en_media_bucket e) None released
             else ([], released)))"

definition cache_mark_invalid :: "string \<Rightarrow> nat \<Rightarrow> runtime_cache \<Rightarrow> runtime_cache" where
  "cache_mark_invalid canonical_id r c =
     (if is_current canonical_id r c
      then change_entry canonical_id (\<lambda>e. if en_state e = Rt_ready then e\<lparr>en_state := Rt_invalid\<rparr> else e) c
      else c)"

definition is_current_and_ready :: "string \<Rightarrow> nat \<Rightarrow> runtime_cache \<Rightarrow> bool" where
  "is_current_and_ready canonical_id r c \<longleftrightarrow>
     (case entry_at canonical_id c of None \<Rightarrow> False | Some e \<Rightarrow> en_ref e = r \<and> en_state e = Rt_ready)"

text \<open>
  \<open>wait_for_stale_entry_drain\<close>: \<open>_still_blocks\<close> is the predicate of its loop; a thread for which it
  holds parks itself, and one whose time-out ends takes itself off the list.
\<close>

definition still_blocks :: "string \<Rightarrow> nat \<Rightarrow> runtime_cache \<Rightarrow> bool" where
  "still_blocks canonical_id r c \<longleftrightarrow>
     (case entry_at canonical_id c of
        None \<Rightarrow> False | Some e \<Rightarrow> en_ref e = r \<and> (is_pinned e \<or> en_state e = Rt_retiring))"

definition cache_park :: "nat \<Rightarrow> runtime_cache \<Rightarrow> runtime_cache" where
  "cache_park t c = c\<lparr>rc_waiters := t # rc_waiters c\<rparr>"

definition cache_unpark :: "nat \<Rightarrow> runtime_cache \<Rightarrow> runtime_cache" where
  "cache_unpark t c = c\<lparr>rc_waiters := removeAll t (rc_waiters c)\<rparr>"

text \<open>The last block of \<open>_finish_retirement\<close>, which notifies whether or not the entry was still there.\<close>

definition cache_remove :: "string \<Rightarrow> nat \<Rightarrow> runtime_cache \<Rightarrow> runtime_cache" where
  "cache_remove canonical_id r c =
     notify_all (if is_current canonical_id r c then delete_entry canonical_id c else c)"

end
