(* ===== verification/Runtime_Programs.thy ===== *)
theory Runtime_Programs imports Runtime_Cache begin

text \<open>
  What a thread does with the runtimes: \<open>ModelService\<close>, \<open>RuntimeAdmissionController\<close> and
  \<open>RuntimeHandle\<close> of \<open>core/models/service.py\<close>, and the methods of the cache that take more than one
  block under the metadata lock.

  A thread's program is a tree of atomic acts: the blocks of \<open>Runtime_Cache\<close>, taking and
  releasing the locks G (admission), L (load, per id) and E (execution, per entry), loading, cleaning
  up, the blocks under a handle's guard. What an act gives back decides how the program goes on; what
  happens between two acts is up to the other threads.
\<close>

section \<open>Programs\<close>

record runtime_handle =
  hd_canonical_id :: string
  hd_entry :: nat
  hd_runtime :: "nat option"
  hd_owner :: nat
  hd_released :: bool
  hd_entered :: bool
  hd_pending_release :: bool
  hd_pending_invalidation :: bool

text \<open>
  The flag of a waiting act says whether it has a deadline. \<open>A_clock\<close> asks whether a deadline has
  passed, \<open>A_checkpoint\<close> runs the caller's wait callback.
\<close>

datatype rt_act =
  A_nested
| A_permit bool
| A_credit
| A_uncredit nat
| A_return_permit
| A_load_lock string bool
| A_load_unlock string
| A_exec_lock string nat bool
| A_exec_unlock nat
| A_reserve string "string option"
| A_reserve_again string "string option"
| A_load string
| A_publish string nat nat
| A_abort string nat
| A_release_lease string nat
| A_check_ready string nat
| A_wait_drain string nat bool
| A_get string
| A_put string nat "string option"
| A_unload string
| A_unload_all
| A_clean string nat
| A_remove string nat
| A_make_handle string nat
| A_enter nat
| A_invalidate nat
| A_begin_release nat bool
| A_begin_exit nat bool
| A_guard string
| A_clock
| A_checkpoint

datatype res =
  R_unit
| R_bool bool
| R_error rt_error
| R_runtime "nat option"
| R_reservation reservation
| R_victims "(string \<times> runtime_entry) list"
| R_put "(string \<times> nat) option" "(string \<times> runtime_entry) list"
| R_entry "runtime_entry option"
| R_handle nat
| R_teardown "runtime_handle option"

datatype 'a prog = Return "rt_error + 'a" | Do rt_act "res \<Rightarrow> 'a prog"

primrec continue :: "'a prog \<Rightarrow> (rt_error + 'a \<Rightarrow> 'b prog) \<Rightarrow> 'b prog" where
  "continue (Return r) f = f r"
| "continue (Do a k) f = Do a (\<lambda>r. continue (k r) f)"

definition done_with :: "'a \<Rightarrow> 'a prog" where "done_with x = Return (Inr x)"

definition throw :: "rt_error \<Rightarrow> 'a prog" where "throw e = Return (Inl e)"

definition seq :: "'a prog \<Rightarrow> ('a \<Rightarrow> 'b prog) \<Rightarrow> 'b prog" where
  "seq m f = continue m (\<lambda>r. case r of Inl e \<Rightarrow> throw e | Inr x \<Rightarrow> f x)"

text \<open>\<open>except BaseException: f; raise\<close> and \<open>finally: f\<close>; what \<open>f\<close> raises takes over.\<close>

definition on_error :: "'a prog \<Rightarrow> unit prog \<Rightarrow> 'a prog" where
  "on_error m f = continue m (\<lambda>r. case r of Inl e \<Rightarrow> seq f (\<lambda>_. throw e) | Inr x \<Rightarrow> done_with x)"

definition with_cleanup :: "'a prog \<Rightarrow> unit prog \<Rightarrow> 'a prog" where
  "with_cleanup m f = continue m (\<lambda>r. seq f (\<lambda>_. Return r))"

text \<open>The acts, by what they give back.\<close>

definition unexpected :: "'a prog" where "unexpected = throw (Rt_runtime_error ''unexpected'')"

definition perform_act :: "rt_act \<Rightarrow> unit prog" where
  "perform_act a = Do a (\<lambda>r. case r of R_unit \<Rightarrow> done_with () | R_error e \<Rightarrow> throw e | _ \<Rightarrow> unexpected)"

definition ask :: "rt_act \<Rightarrow> bool prog" where
  "ask a = Do a (\<lambda>r. case r of R_bool b \<Rightarrow> done_with b | _ \<Rightarrow> unexpected)"

definition fetch_runtime :: "rt_act \<Rightarrow> nat option prog" where
  "fetch_runtime a = Do a (\<lambda>r. case r of R_runtime x \<Rightarrow> done_with x | R_error e \<Rightarrow> throw e | _ \<Rightarrow> unexpected)"

definition fetch_reservation :: "rt_act \<Rightarrow> reservation prog" where
  "fetch_reservation a = Do a (\<lambda>r. case r of R_reservation x \<Rightarrow> done_with x | R_error e \<Rightarrow> throw e | _ \<Rightarrow> unexpected)"

definition fetch_victims :: "rt_act \<Rightarrow> (string \<times> runtime_entry) list prog" where
  "fetch_victims a = Do a (\<lambda>r. case r of R_victims vs \<Rightarrow> done_with vs | R_error e \<Rightarrow> throw e | _ \<Rightarrow> unexpected)"

definition fetch_teardown :: "rt_act \<Rightarrow> runtime_handle option prog" where
  "fetch_teardown a = Do a (\<lambda>r. case r of R_teardown x \<Rightarrow> done_with x | _ \<Rightarrow> unexpected)"

section \<open>The cache's longer methods\<close>

definition run_cleanup :: "string \<Rightarrow> nat \<Rightarrow> unit prog" where
  "run_cleanup model_id runtime_obj = perform_act (A_clean model_id runtime_obj)"

definition finish_retirement :: "string \<Rightarrow> runtime_entry \<Rightarrow> unit prog" where
  "finish_retirement canonical_id e =
     with_cleanup (case en_runtime e of Some x \<Rightarrow> run_cleanup canonical_id x | None \<Rightarrow> done_with ())
       (perform_act (A_remove canonical_id (en_ref e)))"

text \<open>Every target is finished, then the first exception is raised.\<close>

fun finish_each :: "(string \<times> runtime_entry) list \<Rightarrow> rt_error option \<Rightarrow> unit prog" where
  "finish_each [] first_exception = (case first_exception of None \<Rightarrow> done_with () | Some e \<Rightarrow> throw e)"
| "finish_each ((k, e) # targets) first_exception =
     continue (finish_retirement k e) (\<lambda>r.
       finish_each targets (case r of Inl x \<Rightarrow> Some (case first_exception of None \<Rightarrow> x | Some y \<Rightarrow> y) | Inr _ \<Rightarrow> first_exception))"

definition runtime_put :: "string \<Rightarrow> nat \<Rightarrow> string option \<Rightarrow> unit prog" where
  "runtime_put model_id runtime_obj media_type =
     Do (A_put model_id runtime_obj media_type) (\<lambda>r.
       case r of
         R_put replaced victims \<Rightarrow>
           continue (case replaced of Some (k, x) \<Rightarrow> run_cleanup k x | None \<Rightarrow> done_with ()) (\<lambda>q.
             finish_each victims (case q of Inl e \<Rightarrow> Some e | Inr _ \<Rightarrow> None))
       | R_error e \<Rightarrow> throw e
       | _ \<Rightarrow> unexpected)"

definition unload :: "string \<Rightarrow> unit prog" where
  "unload canonical_id =
     Do (A_unload canonical_id) (\<lambda>r.
       case r of
         R_entry (Some e) \<Rightarrow> finish_retirement canonical_id e
       | R_entry None \<Rightarrow> done_with ()
       | R_error e \<Rightarrow> throw e
       | _ \<Rightarrow> unexpected)"

definition unload_all :: "unit prog" where
  "unload_all = seq (fetch_victims A_unload_all) (\<lambda>targets. finish_each targets None)"

definition acquire_or_reserve :: "string \<Rightarrow> string option \<Rightarrow> runtime_entry prog" where
  "acquire_or_reserve canonical_id media_type =
     seq (fetch_reservation (A_reserve canonical_id media_type)) (\<lambda>found.
       case found of
         Pinned e \<Rightarrow> done_with e
       | Reserved e \<Rightarrow> done_with e
       | Evict victim_id victim \<Rightarrow>
           seq (finish_retirement victim_id victim) (\<lambda>_.
           seq (fetch_reservation (A_reserve_again canonical_id media_type)) (\<lambda>again.
             case again of Reserved e \<Rightarrow> done_with e | _ \<Rightarrow> unexpected)))"

definition release_lease :: "string \<Rightarrow> nat \<Rightarrow> unit prog" where
  "release_lease canonical_id r =
     seq (fetch_victims (A_release_lease canonical_id r)) (\<lambda>victims. finish_each victims None)"

section \<open>Admission\<close>

definition acquire_admission :: "bool \<Rightarrow> bool prog" where
  "acquire_admission bounded =
     seq (ask A_nested) (\<lambda>nested.
       if nested then throw (Rt_runtime_error ''Nested acquire_runtime() call detected'')
       else
         seq (ask (A_permit bounded)) (\<lambda>acquired.
           if acquired then seq (perform_act A_credit) (\<lambda>_. done_with True) else done_with False))"

definition release_admission :: "nat \<Rightarrow> unit prog" where
  "release_admission owner_thread =
     seq (perform_act (A_uncredit owner_thread)) (\<lambda>_. perform_act A_return_permit)"

section \<open>Acquiring a runtime\<close>

text \<open>
  A publication that fails leaves the entry loading: it becomes ready in the same block that gives
  back success. The loaded runtime is disposed of, and the reservation forgotten in any case.
\<close>

definition load_reserved :: "string \<Rightarrow> runtime_entry \<Rightarrow> runtime_entry prog" where
  "load_reserved canonical_id e =
     seq (on_error (fetch_runtime (A_load canonical_id)) (perform_act (A_abort canonical_id (en_ref e)))) (\<lambda>loaded.
       case loaded of
         None \<Rightarrow> unexpected
       | Some x \<Rightarrow>
           seq (on_error (perform_act (A_publish canonical_id (en_ref e) x))
                  (with_cleanup (run_cleanup canonical_id x) (perform_act (A_abort canonical_id (en_ref e))))) (\<lambda>_.
             done_with e))"

definition acquire_or_load_entry :: "string \<Rightarrow> string option \<Rightarrow> bool \<Rightarrow> runtime_entry prog" where
  "acquire_or_load_entry canonical_id media_type bounded =
     seq (ask (A_load_lock canonical_id bounded)) (\<lambda>locked.
       if \<not> locked then throw Rt_wait_timeout
       else
         with_cleanup
           (seq (acquire_or_reserve canonical_id media_type) (\<lambda>e.
              if en_state e = Rt_loading then load_reserved canonical_id e else done_with e))
           (perform_act (A_load_unlock canonical_id)))"

definition acquire_execution_lock :: "string \<Rightarrow> nat \<Rightarrow> bool \<Rightarrow> unit prog" where
  "acquire_execution_lock canonical_id r bounded =
     seq (ask (A_exec_lock canonical_id r bounded)) (\<lambda>locked.
       if \<not> locked then throw Rt_wait_timeout
       else
         on_error
           (seq (ask (A_check_ready canonical_id r)) (\<lambda>ready.
              if ready then done_with () else throw (Rt_revalidation r)))
           (perform_act (A_exec_unlock r)))"

definition acquire_entry_and_execution_lock :: "string \<Rightarrow> string option \<Rightarrow> bool \<Rightarrow> runtime_entry prog" where
  "acquire_entry_and_execution_lock canonical_id media_type bounded =
     seq (acquire_or_load_entry canonical_id media_type bounded) (\<lambda>e.
       seq (on_error (acquire_execution_lock canonical_id (en_ref e) bounded)
              (release_lease canonical_id (en_ref e))) (\<lambda>_.
         done_with e))"

text \<open>The loop after a lost revalidation; \<open>drain\<close> is the entry whose leases it may wait out.\<close>

fun acquire_entry_after_revalidation_failure ::
  "nat \<Rightarrow> string \<Rightarrow> string option \<Rightarrow> bool \<Rightarrow> nat \<Rightarrow> runtime_entry prog" where
  "acquire_entry_after_revalidation_failure 0 canonical_id media_type bounded drain = throw Rt_out_of_rounds"
| "acquire_entry_after_revalidation_failure (Suc n) canonical_id media_type bounded drain =
     continue (acquire_entry_and_execution_lock canonical_id media_type bounded) (\<lambda>r.
       case r of
         Inr e \<Rightarrow> done_with e
       | Inl (Rt_revalidation x) \<Rightarrow> throw Rt_busy
       | Inl (Rt_draining x) \<Rightarrow>
           if x \<noteq> drain then throw Rt_busy
           else
             seq (ask (A_wait_drain canonical_id drain bounded)) (\<lambda>drained.
               if drained then acquire_entry_after_revalidation_failure n canonical_id media_type bounded drain
               else throw Rt_wait_timeout)
       | Inl e \<Rightarrow> throw e)"

definition DRAIN_ROUNDS :: nat where "DRAIN_ROUNDS = 2"

text \<open>
  \<open>_acquire_entry_with_execution_lock\<close>. The drain that one \<open>acquire_runtime\<close> call has armed outlives a
  slice that timed out, so it is given back beside the outcome.
\<close>

definition acquire_entry_with_execution_lock ::
  "string \<Rightarrow> string option \<Rightarrow> bool \<Rightarrow> nat option \<Rightarrow> ((rt_error + runtime_entry) \<times> nat option) prog" where
  "acquire_entry_with_execution_lock canonical_id media_type bounded drain =
     continue (acquire_entry_and_execution_lock canonical_id media_type bounded) (\<lambda>r.
       let resume = (\<lambda>x. continue
             (acquire_entry_after_revalidation_failure DRAIN_ROUNDS canonical_id media_type bounded x)
             (\<lambda>q. done_with (q, Some x))) in
       case r of
         Inr e \<Rightarrow> done_with (Inr e, drain)
       | Inl (Rt_draining x) \<Rightarrow> if drain = Some x then resume x else done_with (Inl Rt_busy, drain)
       | Inl (Rt_revalidation x) \<Rightarrow> if drain = None then resume x else done_with (Inl Rt_busy, drain)
       | Inl e \<Rightarrow> done_with (Inl e, drain))"

definition make_handle :: "string \<Rightarrow> nat \<Rightarrow> nat prog" where
  "make_handle canonical_id r =
     Do (A_make_handle canonical_id r) (\<lambda>x. case x of R_handle h \<Rightarrow> done_with h | _ \<Rightarrow> unexpected)"

definition acquire_runtime_slice ::
  "nat \<Rightarrow> string \<Rightarrow> string option \<Rightarrow> bool \<Rightarrow> nat option \<Rightarrow> ((rt_error + nat) \<times> nat option) prog" where
  "acquire_runtime_slice owner_thread canonical_id media_type bounded drain =
     seq (acquire_admission bounded) (\<lambda>admitted.
       if \<not> admitted then done_with (Inl Rt_wait_timeout, drain)
       else
         seq (acquire_entry_with_execution_lock canonical_id media_type bounded drain) (\<lambda>(r, drain').
           case r of
             Inr e \<Rightarrow> seq (make_handle canonical_id (en_ref e)) (\<lambda>h. done_with (Inr h, drain'))
           | Inl e \<Rightarrow>
               seq (release_admission owner_thread) (\<lambda>_.
                 done_with (Inl (if e = Rt_wait_timeout then e else if is_busy_error e then Rt_busy else e), drain'))))"

text \<open>
  \<open>acquire_runtime\<close>: one slice, or with a wait callback as many bounded slices as it takes; \<open>n\<close> bounds
  their number in the model. The manifest is resolved first; the opt-in of a cloud provider is
  checked before every slice.
\<close>

definition cloud_guard :: "manifest \<Rightarrow> unit prog" where
  "cloud_guard m = (if mn_provider m = ''cloud'' then perform_act (A_guard (mn_id m)) else done_with ())"

definition with_manifest :: "manifest list \<Rightarrow> string option \<Rightarrow> media_type \<Rightarrow> string option \<Rightarrow> (manifest \<Rightarrow> 'a prog) \<Rightarrow> 'a prog" where
  "with_manifest registry model_id media_type task_type f =
     (case resolve registry model_id media_type task_type of Inl e \<Rightarrow> throw (Rt_model e) | Inr m \<Rightarrow> f m)"

definition acquire_runtime ::
  "manifest list \<Rightarrow> nat \<Rightarrow> string option \<Rightarrow> media_type \<Rightarrow> string option \<Rightarrow> bool \<Rightarrow> nat prog" where
  "acquire_runtime registry owner_thread model_id media_type task_type bounded =
     with_manifest registry model_id media_type task_type (\<lambda>m.
       seq (cloud_guard m) (\<lambda>_.
       seq (acquire_runtime_slice owner_thread (mn_id m) (Some (media_text media_type)) bounded None) (\<lambda>(r, _).
         Return r)))"

fun acquire_runtime_slices :: "nat \<Rightarrow> nat \<Rightarrow> manifest \<Rightarrow> media_type \<Rightarrow> bool \<Rightarrow> nat option \<Rightarrow> nat prog" where
  "acquire_runtime_slices 0 owner_thread m media_type bounded drain = throw Rt_out_of_slices"
| "acquire_runtime_slices (Suc n) owner_thread m media_type bounded drain =
     seq (cloud_guard m) (\<lambda>_.
     seq (acquire_runtime_slice owner_thread (mn_id m) (Some (media_text media_type)) True drain) (\<lambda>(r, drain').
       case r of
         Inr h \<Rightarrow> done_with h
       | Inl e \<Rightarrow>
           if e \<noteq> Rt_wait_timeout then throw e
           else
             seq (if bounded then ask A_clock else done_with False) (\<lambda>expired.
               if expired then throw Rt_wait_timeout
               else
                 seq (perform_act A_checkpoint) (\<lambda>_.
                   acquire_runtime_slices n owner_thread m media_type bounded drain'))))"

definition acquire_runtime_with_checkpoints ::
  "manifest list \<Rightarrow> nat \<Rightarrow> nat \<Rightarrow> string option \<Rightarrow> media_type \<Rightarrow> string option \<Rightarrow> bool \<Rightarrow> nat prog" where
  "acquire_runtime_with_checkpoints registry n owner_thread model_id media_type task_type bounded =
     seq (perform_act A_checkpoint) (\<lambda>_.
       with_manifest registry model_id media_type task_type (\<lambda>m.
         acquire_runtime_slices n owner_thread m media_type bounded None))"

definition unload_model :: "manifest list \<Rightarrow> string \<Rightarrow> unit prog" where
  "unload_model registry model_id =
     (case resolve_manifest_id registry model_id of Inl e \<Rightarrow> throw (Rt_model e) | Inr canonical_id \<Rightarrow> unload canonical_id)"

section \<open>Handles\<close>

definition teardown :: "runtime_handle \<Rightarrow> unit prog" where
  "teardown h =
     with_cleanup (perform_act (A_exec_unlock (hd_entry h)))
       (with_cleanup (release_lease (hd_canonical_id h) (hd_entry h)) (release_admission (hd_owner h)))"

definition handle_release :: "nat \<Rightarrow> bool \<Rightarrow> unit prog" where
  "handle_release h had_exception =
     seq (if had_exception then perform_act (A_invalidate h) else done_with ()) (\<lambda>_.
     seq (fetch_teardown (A_begin_release h had_exception)) (\<lambda>mine.
       case mine of None \<Rightarrow> done_with () | Some x \<Rightarrow> teardown x))"

definition handle_exit :: "nat \<Rightarrow> bool \<Rightarrow> unit prog" where
  "handle_exit h had_exception =
     seq (fetch_teardown (A_begin_exit h had_exception)) (\<lambda>mine.
       case mine of None \<Rightarrow> done_with () | Some x \<Rightarrow> teardown x)"

definition handle_enter :: "nat \<Rightarrow> unit prog" where
  "handle_enter h = perform_act (A_enter h)"

section \<open>The old interface\<close>

definition load_and_put :: "string \<Rightarrow> string option \<Rightarrow> nat prog" where
  "load_and_put canonical_id media_type =
     seq (fetch_runtime (A_load canonical_id)) (\<lambda>loaded.
       case loaded of
         None \<Rightarrow> unexpected
       | Some x \<Rightarrow>
           continue (runtime_put canonical_id x media_type) (\<lambda>r.
             case r of
               Inr _ \<Rightarrow> done_with x
             | Inl e \<Rightarrow> if is_busy_error e then seq (run_cleanup canonical_id x) (\<lambda>_. throw e) else throw e))"

definition resolve_runtime :: "manifest list \<Rightarrow> string option \<Rightarrow> media_type \<Rightarrow> string option \<Rightarrow> nat prog" where
  "resolve_runtime registry model_id media_type task_type =
     with_manifest registry model_id media_type task_type (\<lambda>m.
       seq (cloud_guard m) (\<lambda>_.
       seq (fetch_runtime (A_get (mn_id m))) (\<lambda>cached.
         case cached of
           Some x \<Rightarrow> done_with x
         | None \<Rightarrow>
             seq (ask (A_load_lock (mn_id m) False)) (\<lambda>_.
               with_cleanup
                 (seq (fetch_runtime (A_get (mn_id m))) (\<lambda>cached.
                    case cached of
                      Some x \<Rightarrow> done_with x
                    | None \<Rightarrow> load_and_put (mn_id m) (Some (media_text media_type))))
                 (perform_act (A_load_unlock (mn_id m)))))))"

end
