(* ===== verification/Runtime_System.thy ===== *)
theory Runtime_System imports Runtime_Programs begin

text \<open>
  The runtimes of one process: the shared state, what each act does to it, and the threads that run
  the programs of \<open>Runtime_Programs\<close> against it, interleaved act by act in any order.

  A semaphore is its free permits, a lock the fact that it is held. The environment chooses what the
  code does not decide: whether a deadline passes first, and what a loader, the eviction hook or a
  wait callback raises.
\<close>

section \<open>The shared state\<close>

record runtime_system =
  ss_registry :: "manifest list"
  ss_env :: "string \<Rightarrow> string option"
  ss_cache :: runtime_cache
  ss_load_locks :: "string \<Rightarrow> bool"
  ss_exec_locks :: "nat \<Rightarrow> bool"
  ss_capacity :: nat
  ss_permits :: nat
  ss_held :: "nat \<Rightarrow> nat"
  ss_handles :: "runtime_handle list"
  ss_next_runtime :: nat
  ss_cleaned :: "nat list"

text \<open>\<open>RuntimeAdmissionController\<close> refuses a capacity below one.\<close>

definition init_system ::
  "manifest list \<Rightarrow> (string \<Rightarrow> string option) \<Rightarrow> runtime_cache \<Rightarrow> int \<Rightarrow> rt_error + runtime_system" where
  "init_system registry env c capacity =
     (if capacity < 1 then Inl (Rt_value_error ''admission capacity must be at least 1'')
      else
        Inr \<lparr>ss_registry = registry, ss_env = env, ss_cache = c, ss_load_locks = (\<lambda>_. False),
             ss_exec_locks = (\<lambda>_. False), ss_capacity = nat capacity, ss_permits = nat capacity,
             ss_held = (\<lambda>_. 0), ss_handles = [], ss_next_runtime = 0, ss_cleaned = []\<rparr>)"

definition DEFAULT_ADMISSION_CAPACITY :: int where "DEFAULT_ADMISSION_CAPACITY = 1"

datatype env_choice = Go | Expire | Raise string | Interrupt

section \<open>Acts on the cache\<close>

definition on_cache :: "(runtime_cache \<Rightarrow> 'a \<times> runtime_cache) \<Rightarrow> ('a \<Rightarrow> res) \<Rightarrow> runtime_system \<Rightarrow> (res \<times> runtime_system) option" where
  "on_cache f g s = (case f (ss_cache s) of (x, c) \<Rightarrow> Some (g x, s\<lparr>ss_cache := c\<rparr>))"

definition as_res :: "('a \<Rightarrow> res) \<Rightarrow> rt_error + 'a \<Rightarrow> res" where
  "as_res g r = (case r of Inl e \<Rightarrow> R_error e | Inr x \<Rightarrow> g x)"

section \<open>Acts on a handle\<close>

definition handle_at :: "nat \<Rightarrow> runtime_system \<Rightarrow> runtime_handle option" where
  "handle_at h s = (if h < length (ss_handles s) then Some (ss_handles s ! h) else None)"

definition set_handle :: "nat \<Rightarrow> runtime_handle \<Rightarrow> runtime_system \<Rightarrow> runtime_system" where
  "set_handle h x s = s\<lparr>ss_handles := (ss_handles s)[h := x]\<rparr>"

definition new_handle :: "nat \<Rightarrow> string \<Rightarrow> nat \<Rightarrow> runtime_system \<Rightarrow> res \<times> runtime_system" where
  "new_handle owner_thread canonical_id r s =
     (R_handle (length (ss_handles s)),
      s\<lparr>ss_handles := ss_handles s @
         [\<lparr>hd_canonical_id = canonical_id, hd_entry = r,
           hd_runtime = (case entry_at canonical_id (ss_cache s) of Some e \<Rightarrow> en_runtime e | None \<Rightarrow> None),
           hd_owner = owner_thread, hd_released = False, hd_entered = False,
           hd_pending_release = False, hd_pending_invalidation = False\<rparr>]\<rparr>)"

definition enter_handle :: "nat \<Rightarrow> nat \<Rightarrow> runtime_system \<Rightarrow> res \<times> runtime_system" where
  "enter_handle t h s =
     (case handle_at h s of
        None \<Rightarrow> (R_unit, s)
      | Some x \<Rightarrow>
          if hd_released x then (R_error (Rt_runtime_error ''re-entered after release''), s)
          else if hd_entered x then (R_error (Rt_runtime_error ''nested with blocks''), s)
          else if hd_owner x \<noteq> t then (R_error (Rt_runtime_error ''entered on another thread''), s)
          else (R_unit, set_handle h (x\<lparr>hd_entered := True\<rparr>) s))"

definition invalidate_handle :: "nat \<Rightarrow> runtime_system \<Rightarrow> runtime_system" where
  "invalidate_handle h s =
     (case handle_at h s of
        None \<Rightarrow> s
      | Some x \<Rightarrow> s\<lparr>ss_cache := cache_mark_invalid (hd_canonical_id x) (hd_entry x) (ss_cache s)\<rparr>)"

definition begin_release :: "nat \<Rightarrow> bool \<Rightarrow> runtime_system \<Rightarrow> res \<times> runtime_system" where
  "begin_release h had_exception s =
     (case handle_at h s of
        None \<Rightarrow> (R_teardown None, s)
      | Some x \<Rightarrow>
          if hd_released x then (R_teardown None, s)
          else
            (let x' = (if had_exception then x\<lparr>hd_pending_invalidation := True\<rparr> else x) in
             if hd_entered x then (R_teardown None, set_handle h (x'\<lparr>hd_pending_release := True\<rparr>) s)
             else (R_teardown (Some x), set_handle h (x'\<lparr>hd_released := True\<rparr>) s)))"

definition begin_exit :: "nat \<Rightarrow> bool \<Rightarrow> runtime_system \<Rightarrow> res \<times> runtime_system" where
  "begin_exit h had_exception s =
     (case handle_at h s of
        None \<Rightarrow> (R_teardown None, s)
      | Some x \<Rightarrow>
          if hd_released x then (R_teardown None, s)
          else
            (let s' = set_handle h (x\<lparr>hd_released := True\<rparr>) s in
             (R_teardown (Some x), if had_exception \<or> hd_pending_invalidation x then invalidate_handle h s' else s')))"

section \<open>One act\<close>

definition wait_for :: "bool \<Rightarrow> bool \<Rightarrow> env_choice \<Rightarrow> runtime_system \<Rightarrow> runtime_system \<Rightarrow> (res \<times> runtime_system) option" where
  "wait_for available bounded ch s taken =
     (if ch \<noteq> Go then (if bounded then Some (R_bool False, s) else None)
      else if available then Some (R_bool True, taken)
      else None)"

fun exec :: "nat \<Rightarrow> rt_act \<Rightarrow> env_choice \<Rightarrow> runtime_system \<Rightarrow> (res \<times> runtime_system) option" where
  "exec t A_nested ch s = Some (R_bool (1 \<le> ss_held s t), s)"
| "exec t (A_permit bounded) ch s =
     wait_for (0 < ss_permits s) bounded ch s (s\<lparr>ss_permits := ss_permits s - 1\<rparr>)"
| "exec t A_credit ch s = Some (R_unit, s\<lparr>ss_held := (ss_held s)(t := ss_held s t + 1)\<rparr>)"
| "exec t (A_uncredit u) ch s = Some (R_unit, s\<lparr>ss_held := (ss_held s)(u := ss_held s u - 1)\<rparr>)"
| "exec t A_return_permit ch s = Some (R_unit, s\<lparr>ss_permits := ss_permits s + 1\<rparr>)"
| "exec t (A_load_lock k bounded) ch s =
     wait_for (\<not> ss_load_locks s k) bounded ch s (s\<lparr>ss_load_locks := (ss_load_locks s)(k := True)\<rparr>)"
| "exec t (A_load_unlock k) ch s =
     Some (if ss_load_locks s k then (R_unit, s\<lparr>ss_load_locks := (ss_load_locks s)(k := False)\<rparr>)
           else (R_error (Rt_runtime_error ''release unlocked lock''), s))"
| "exec t (A_exec_lock k r bounded) ch s =
     wait_for (\<not> ss_exec_locks s r) bounded ch s (s\<lparr>ss_exec_locks := (ss_exec_locks s)(r := True)\<rparr>)"
| "exec t (A_exec_unlock r) ch s =
     Some (if ss_exec_locks s r then (R_unit, s\<lparr>ss_exec_locks := (ss_exec_locks s)(r := False)\<rparr>)
           else (R_error (Rt_runtime_error ''release unlocked lock''), s))"
| "exec t (A_reserve k media) ch s = on_cache (cache_reserve k media) (as_res R_reservation) s"
| "exec t (A_reserve_again k media) ch s = on_cache (cache_reserve_again k media) (as_res R_reservation) s"
| "exec t (A_load k) ch s =
     (case ch of
        Raise e \<Rightarrow> Some (R_error (Rt_raised e), s)
      | Interrupt \<Rightarrow> Some (R_error Rt_interrupt, s)
      | _ \<Rightarrow> Some (R_runtime (Some (ss_next_runtime s)), s\<lparr>ss_next_runtime := Suc (ss_next_runtime s)\<rparr>))"
| "exec t (A_publish k r x) ch s = on_cache (cache_publish k r x) (as_res (\<lambda>_. R_unit)) s"
| "exec t (A_abort k r) ch s = Some (R_unit, s\<lparr>ss_cache := cache_abort k r (ss_cache s)\<rparr>)"
| "exec t (A_release_lease k r) ch s = on_cache (cache_release_lease k r) R_victims s"
| "exec t (A_check_ready k r) ch s = Some (R_bool (is_current_and_ready k r (ss_cache s)), s)"
| "exec t (A_wait_drain k r bounded) ch s =
     (if t \<in> set (rc_waiters (ss_cache s)) then
        (if bounded \<and> ch \<noteq> Go
         then Some (R_bool (\<not> still_blocks k r (ss_cache s)), s\<lparr>ss_cache := cache_unpark t (ss_cache s)\<rparr>)
         else None)
      else if \<not> still_blocks k r (ss_cache s) then Some (R_bool True, s)
      else if bounded \<and> ch \<noteq> Go then Some (R_bool False, s)
      else None)"
| "exec t (A_get k) ch s = on_cache (cache_get k) R_runtime s"
| "exec t (A_put k x media) ch s = on_cache (cache_put k x media) (as_res (\<lambda>(replaced, victims). R_put replaced victims)) s"
| "exec t (A_unload k) ch s = on_cache (cache_unload k) (as_res R_entry) s"
| "exec t A_unload_all ch s = on_cache cache_unload_all (as_res R_victims) s"
| "exec t (A_clean k x) ch s =
     Some (if ch = Interrupt then R_error Rt_interrupt else R_unit, s\<lparr>ss_cleaned := x # ss_cleaned s\<rparr>)"
| "exec t (A_remove k r) ch s = Some (R_unit, s\<lparr>ss_cache := cache_remove k r (ss_cache s)\<rparr>)"
| "exec t (A_make_handle k r) ch s = Some (new_handle t k r s)"
| "exec t (A_enter h) ch s = Some (enter_handle t h s)"
| "exec t (A_invalidate h) ch s = Some (R_unit, invalidate_handle h s)"
| "exec t (A_begin_release h had_exception) ch s = Some (begin_release h had_exception s)"
| "exec t (A_begin_exit h had_exception) ch s = Some (begin_exit h had_exception s)"
| "exec t (A_guard i) ch s =
     Some (case ensure_cloud_provider_enabled (ss_env s) i of Inl e \<Rightarrow> R_error (Rt_model e) | Inr _ \<Rightarrow> R_unit, s)"
| "exec t A_clock ch s = Some (R_bool (ch = Expire), s)"
| "exec t A_checkpoint ch s =
     Some (case ch of Raise e \<Rightarrow> R_error (Rt_raised e) | Interrupt \<Rightarrow> R_error Rt_interrupt | _ \<Rightarrow> R_unit, s)"

text \<open>
  The one act that suspends its thread instead of answering: the loop of \<open>wait_for_stale_entry_drain\<close>
  finds its predicate true before its deadline and calls \<open>wait()\<close>. The thread then stays at the act,
  parked: \<open>exec\<close> answers it again only after a notification, or when its time-out ends, and then the
  predicate is looked at anew.
\<close>

fun parks :: "nat \<Rightarrow> rt_act \<Rightarrow> env_choice \<Rightarrow> runtime_system \<Rightarrow> bool" where
  "parks t (A_wait_drain k r bounded) ch s =
     (t \<notin> set (rc_waiters (ss_cache s)) \<and> still_blocks k r (ss_cache s) \<and> \<not> (bounded \<and> ch \<noteq> Go))"
| "parks t _ ch s = False"

definition park :: "nat \<Rightarrow> runtime_system \<Rightarrow> runtime_system" where
  "park t s = s\<lparr>ss_cache := cache_park t (ss_cache s)\<rparr>"

section \<open>Threads\<close>

text \<open>What a caller may ask of a thread that has nothing else to do.\<close>

datatype runtime_call =
  Call_acquire "string option" media_type "string option" bool
| Call_acquire_checked nat "string option" media_type "string option" bool
| Call_enter nat
| Call_exit nat bool
| Call_release nat bool
| Call_unload string
| Call_unload_all
| Call_resolve "string option" media_type "string option"

definition forget :: "'a prog \<Rightarrow> unit prog" where "forget m = seq m (\<lambda>_. done_with ())"

fun call_program :: "manifest list \<Rightarrow> nat \<Rightarrow> runtime_call \<Rightarrow> unit prog" where
  "call_program registry t (Call_acquire m media task bounded) = forget (acquire_runtime registry t m media task bounded)"
| "call_program registry t (Call_acquire_checked n m media task bounded) =
     forget (acquire_runtime_with_checkpoints registry n t m media task bounded)"
| "call_program registry t (Call_enter h) = handle_enter h"
| "call_program registry t (Call_exit h had_exception) = handle_exit h had_exception"
| "call_program registry t (Call_release h had_exception) = handle_release h had_exception"
| "call_program registry t (Call_unload m) = unload_model registry m"
| "call_program registry t Call_unload_all = unload_all"
| "call_program registry t (Call_resolve m media task) = forget (resolve_runtime registry m media task)"

record runtime_process =
  pr_system :: runtime_system
  pr_threads :: "unit prog list"

datatype runtime_event = Call nat runtime_call | Step nat env_choice | Setenv string "string option"

definition idle_thread :: "unit prog \<Rightarrow> bool" where
  "idle_thread p = (case p of Return _ \<Rightarrow> True | Do a k \<Rightarrow> False)"

fun happen :: "runtime_event \<Rightarrow> runtime_process \<Rightarrow> runtime_process option" where
  "happen (Call t call) p =
     (if t < length (pr_threads p) \<and> idle_thread (pr_threads p ! t)
      then Some (p\<lparr>pr_threads := (pr_threads p)[t := call_program (ss_registry (pr_system p)) t call]\<rparr>)
      else None)"
| "happen (Step t ch) p =
     (if t < length (pr_threads p) then
        (case pr_threads p ! t of
           Return r \<Rightarrow> None
         | Do a k \<Rightarrow>
             if parks t a ch (pr_system p) then Some (p\<lparr>pr_system := park t (pr_system p)\<rparr>)
             else map_option (\<lambda>(r, s). p\<lparr>pr_system := s, pr_threads := (pr_threads p)[t := k r]\<rparr>) (exec t a ch (pr_system p)))
      else None)"
| "happen (Setenv name v) p =
     Some (p\<lparr>pr_system := pr_system p\<lparr>ss_env := (ss_env (pr_system p))(name := v)\<rparr>\<rparr>)"

fun run :: "runtime_event list \<Rightarrow> runtime_process \<Rightarrow> runtime_process option" where
  "run [] p = Some p"
| "run (ev # evs) p = (case happen ev p of None \<Rightarrow> None | Some p' \<Rightarrow> run evs p')"

text \<open>A process that starts with an empty cache and \<open>n\<close> threads.\<close>

definition start_process ::
  "manifest list \<Rightarrow> (string \<Rightarrow> string option) \<Rightarrow> int \<Rightarrow> (string \<times> int) list \<Rightarrow> int \<Rightarrow> nat \<Rightarrow> rt_error + runtime_process" where
  "start_process registry env max_entries media_limits capacity n =
     (case init_cache max_entries media_limits of
        Inl e \<Rightarrow> Inl e
      | Inr c \<Rightarrow>
          (case init_system registry env c capacity of
             Inl e \<Rightarrow> Inl e
           | Inr s \<Rightarrow> Inr \<lparr>pr_system = s, pr_threads = replicate n (Return (Inr ()))\<rparr>))"

lemma happen_stepE:
  assumes "happen (Step t ch) p = Some p'"
  obtains (parked) a k where "t < length (pr_threads p)" "pr_threads p ! t = Do a k" "parks t a ch (pr_system p)"
      "p' = p\<lparr>pr_system := park t (pr_system p)\<rparr>"
    | (answered) a k r s' where "t < length (pr_threads p)" "pr_threads p ! t = Do a k"
      "exec t a ch (pr_system p) = Some (r, s')" "p' = p\<lparr>pr_system := s', pr_threads := (pr_threads p)[t := k r]\<rparr>"
  using assms by (auto split: if_splits prog.splits)

definition live_handle :: "runtime_process \<Rightarrow> nat \<Rightarrow> bool" where
  "live_handle p h \<longleftrightarrow> (case handle_at h (pr_system p) of Some x \<Rightarrow> \<not> hd_released x | None \<Rightarrow> False)"

section \<open>A run\<close>

text \<open>
  A process with two threads, one cache entry and one permit: a thread acquires a runtime and keeps its
  handle, the other starts to acquire and waits for admission. In the longer run the first thread
  releases its handle and the second gets the same runtime and releases it too.
\<close>

definition sample_steps :: "nat \<Rightarrow> nat \<Rightarrow> runtime_event list" where
  "sample_steps t n = replicate n (Step t Go)"

definition sample_acquire :: "string \<Rightarrow> runtime_call" where
  "sample_acquire name = Call_acquire (Some name) Media_image None False"

definition sample_events :: "runtime_event list" where
  "sample_events = Call 0 (sample_acquire ''sdxl'') # sample_steps 0 11 @ [Call 1 (sample_acquire ''sdxl-local'')]"

definition sample_ending :: "runtime_event list" where
  "sample_ending =
     sample_events @ Call 0 (Call_release 0 False) # sample_steps 0 5 @ sample_steps 1 9 @ Call 1 (Call_release 1 False) # sample_steps 1 5"

definition sample_run :: "runtime_event list \<Rightarrow> runtime_process option" where
  "sample_run evs =
     (case start_process sample_registry (\<lambda>_. None) 1 [] 1 2 of Inl e \<Rightarrow> None | Inr p \<Rightarrow> run evs p)"

text \<open>
  Three threads that are all admitted: one has the runtime and fails with it while the other two wait
  for it with a lease each; the first of them finds the runtime invalid, gives its lease back and parks
  until the other does the same.
\<close>

definition sample_contention :: "runtime_event list" where
  "sample_contention =
     Call 0 (sample_acquire ''sdxl'') # sample_steps 0 11 @ Call 1 (sample_acquire ''sdxl-local'') # sample_steps 1 6 @
     Call 2 (sample_acquire ''sdxl-local'') # sample_steps 2 6 @ Call 0 (Call_release 0 True) # sample_steps 0 5 @ sample_steps 1 8"

definition sample_contended :: "runtime_process option" where
  "sample_contended =
     (case start_process sample_registry (\<lambda>_. None) 1 [] 3 3 of Inl e \<Rightarrow> None | Inr p \<Rightarrow> run sample_contention p)"

end
