(* ===== verification/Runtime_Tokens.thy ===== *)
theory Runtime_Tokens imports Runtime_System "HOL-Library.Multiset" begin

text \<open>
  What a thread may hold of the shared state: permits, locks, leases, reservations, retirements and
  loaded runtimes, as tokens. The state says how many tokens of each kind are out; every block of the
  cache moves tokens between the state and the thread that runs it, and never loses or doubles one.
\<close>

section \<open>Tokens\<close>

datatype token =
  T_permit
| T_credit nat
| T_load string
| T_exec nat
| T_lease string nat
| T_reserved string nat
| T_retiring string nat
| T_runtime nat

text \<open>
  What an entry has given out: a lease token for every lease, the right to publish or to remove it
  while it is loading or retiring. A runtime that is in the cache is not in anybody's hands.
\<close>

fun entry_issue :: "string \<times> runtime_entry \<Rightarrow> token \<Rightarrow> int" where
  "entry_issue (k, e) (T_lease k' r) = (if k' = k \<and> r = en_ref e then int (en_lease_count e) else 0)"
| "entry_issue (k, e) (T_reserved k' r) = of_bool (k' = k \<and> r = en_ref e \<and> en_state e = Rt_loading)"
| "entry_issue (k, e) (T_retiring k' r) = of_bool (k' = k \<and> r = en_ref e \<and> en_state e = Rt_retiring)"
| "entry_issue (k, e) (T_runtime x) = - of_bool (en_state e \<noteq> Rt_retiring \<and> en_runtime e = Some x)"
| "entry_issue _ _ = 0"

definition cache_issue :: "runtime_cache \<Rightarrow> token \<Rightarrow> int" where
  "cache_issue c x = sum_list (map (\<lambda>p. entry_issue p x) (rc_entries c))"

definition entry_ok :: "string \<times> runtime_entry \<Rightarrow> bool" where
  "entry_ok p \<longleftrightarrow>
     (en_state (snd p) = Rt_loading \<longleftrightarrow> en_runtime (snd p) = None) \<and>
     (en_state (snd p) \<in> {Rt_loading, Rt_retiring} \<longrightarrow> en_lease_count (snd p) = 0)"

definition cache_ok :: "runtime_cache \<Rightarrow> bool" where
  "cache_ok c \<longleftrightarrow>
     distinct (map fst (rc_entries c)) \<and> distinct (map (\<lambda>p. en_ref (snd p)) (rc_entries c)) \<and>
     (\<forall>p \<in> set (rc_entries c). entry_ok p \<and> en_ref (snd p) < rc_next_ref c)"

definition runtime_token :: "nat option \<Rightarrow> token multiset" where
  "runtime_token r = (case r of Some x \<Rightarrow> {#T_runtime x#} | None \<Rightarrow> {#})"

text \<open>What the thread that retires an entry receives.\<close>

definition retire_tokens :: "string \<times> runtime_entry \<Rightarrow> token multiset" where
  "retire_tokens p = {#T_retiring (fst p) (en_ref (snd p))#} + runtime_token (en_runtime (snd p))"

text \<open>How an entry may change, or leave, while its address is in use.\<close>

definition entry_evolves :: "runtime_entry \<Rightarrow> runtime_entry \<Rightarrow> bool" where
  "entry_evolves e e' \<longleftrightarrow>
     en_ref e' = en_ref e \<and>
     (en_state e \<noteq> Rt_loading \<longrightarrow> en_runtime e' = en_runtime e \<and> en_state e' \<noteq> Rt_loading) \<and>
     (en_state e \<in> {Rt_invalid, Rt_retiring} \<longrightarrow>
        en_state e' \<in> {Rt_invalid, Rt_retiring} \<and> en_lease_count e' \<le> en_lease_count e)"

definition cache_evolves :: "runtime_cache \<Rightarrow> runtime_cache \<Rightarrow> bool" where
  "cache_evolves c c' \<longleftrightarrow>
     rc_next_ref c \<le> rc_next_ref c' \<and> rc_max_entries c' = rc_max_entries c \<and> rc_media_limits c' = rc_media_limits c \<and>
     (\<forall>(k, e') \<in> set (rc_entries c').
        rc_next_ref c \<le> en_ref e' \<or> (\<exists>e. (k, e) \<in> set (rc_entries c) \<and> entry_evolves e e'))"

lemma entry_evolves_refl [simp]: "entry_evolves e e"
  by (simp add: entry_evolves_def)

lemma entry_evolves_trans: "entry_evolves e f \<Longrightarrow> entry_evolves f g \<Longrightarrow> entry_evolves e g"
  by (auto simp: entry_evolves_def)

lemma cache_evolves_refl [simp]: "cache_evolves c c"
  by (auto simp: cache_evolves_def)

lemma cache_evolves_trans: "cache_evolves c d \<Longrightarrow> cache_evolves d f \<Longrightarrow> cache_evolves c f"
  unfolding cache_evolves_def
  by (clarsimp, drule (1) bspec, clarsimp) (fastforce dest: entry_evolves_trans simp: entry_evolves_def)

text \<open>A block of the cache: it gives out \<open>gv\<close>, takes back \<open>tk\<close>, and keeps the cache well formed.\<close>

definition moves :: "runtime_cache \<Rightarrow> token multiset \<Rightarrow> token multiset \<Rightarrow> runtime_cache \<Rightarrow> bool" where
  "moves c tk gv c' \<longleftrightarrow>
     cache_ok c' \<and> cache_evolves c c' \<and>
     (\<forall>x. cache_issue c' x = cache_issue c x + int (count gv x) - int (count tk x))"

lemma moves_refl: "cache_ok c \<Longrightarrow> moves c {#} {#} c"
  by (simp add: moves_def)

lemma moves_trans: "moves c tk gv d \<Longrightarrow> moves d tk' gv' f \<Longrightarrow> moves c (tk + tk') (gv + gv') f"
  unfolding moves_def using cache_evolves_trans by fastforce

lemma moves_ok: "moves c tk gv c' \<Longrightarrow> cache_ok c'" by (simp add: moves_def)

text \<open>Who is parked makes no difference to the tokens.\<close>

lemma waiters_immaterial [simp]:
  "moves c tk gv (notify_all c') = moves c tk gv c'" "moves c tk gv (cache_park t c') = moves c tk gv c'"
  "moves c tk gv (cache_unpark t c') = moves c tk gv c'" "cache_issue (cache_park t c) x = cache_issue c x"
  "cache_ok (cache_park t c) = cache_ok c"
  by (simp_all add: moves_def cache_ok_def cache_evolves_def cache_issue_def notify_all_def cache_park_def cache_unpark_def)

section \<open>Changing one entry\<close>

lemma entry_at_split:
  assumes "cache_ok c" and "entry_at k c = Some e"
  obtains xs ys where "rc_entries c = xs @ (k, e) # ys" and "k \<notin> fst ` set xs" and "k \<notin> fst ` set ys"
proof -
  from assms(2) have "(k, e) \<in> set (rc_entries c)" by (auto simp: entry_at_def dest: map_of_SomeD)
  then obtain xs ys where s: "rc_entries c = xs @ (k, e) # ys" by (meson split_list)
  with assms(1) show ?thesis by (intro that [OF s]) (auto simp: cache_ok_def)
qed

lemma untouched_keys:
  "k \<notin> fst ` set xs \<Longrightarrow> map (\<lambda>(j, e). (j, if j = k then f e else e)) xs = xs"
  "k \<notin> fst ` set xs \<Longrightarrow> filter (\<lambda>(j, e). j \<noteq> k) xs = xs"
  "k \<notin> fst ` set xs \<Longrightarrow> filter (\<lambda>(j, e). j = k) xs = []"
  by (induction xs) auto

lemma cache_issue_split: "rc_entries c = xs @ p # ys \<Longrightarrow>
    cache_issue c x = sum_list (map (\<lambda>p. entry_issue p x) xs) + entry_issue p x + sum_list (map (\<lambda>p. entry_issue p x) ys)"
  by (simp add: cache_issue_def)

text \<open>The entry at \<open>k\<close> replaced by one with the same address, and moved to the end or not.\<close>

lemma moves_change:
  assumes "cache_ok c" and "entry_at k c = Some e"
    and "rc_entries c' = rc_entries (change_entry k (\<lambda>_. e') c) \<or> rc_entries c' = rc_entries (move_to_end k (change_entry k (\<lambda>_. e') c))"
    and "rc_next_ref c' = rc_next_ref c" "rc_max_entries c' = rc_max_entries c" "rc_media_limits c' = rc_media_limits c"
    and "entry_ok (k, e')" and "entry_evolves e e'"
    and "\<And>x. entry_issue (k, e') x = entry_issue (k, e) x + int (count gv x) - int (count tk x)"
  shows "moves c tk gv c'"
proof -
  obtain xs ys where s: "rc_entries c = xs @ (k, e) # ys" "k \<notin> fst ` set xs" "k \<notin> fst ` set ys"
    using assms(1,2) by (rule entry_at_split)
  have r: "en_ref e' = en_ref e" using assms(8) by (simp add: entry_evolves_def)
  from s assms(3) consider "rc_entries c' = xs @ (k, e') # ys" | "rc_entries c' = xs @ ys @ [(k, e')]"
    by (auto simp: change_entry_def move_to_end_def untouched_keys)
  then have "cache_ok c' \<and> cache_evolves c c' \<and>
      cache_issue c' x = sum_list (map (\<lambda>p. entry_issue p x) xs) + entry_issue (k, e') x + sum_list (map (\<lambda>p. entry_issue p x) ys)" for x
    using s r assms(1,4-8) by cases (auto simp: cache_ok_def cache_evolves_def cache_issue_def)
  then show ?thesis by (simp add: moves_def cache_issue_split [OF s(1)] assms(9))
qed

lemma moves_delete:
  assumes "cache_ok c" and "entry_at k c = Some e"
    and "\<And>x. 0 = entry_issue (k, e) x + int (count gv x) - int (count tk x)"
  shows "moves c tk gv (delete_entry k c)"
proof -
  obtain xs ys where s: "rc_entries c = xs @ (k, e) # ys" "k \<notin> fst ` set xs" "k \<notin> fst ` set ys"
    using assms(1,2) by (rule entry_at_split)
  then have d: "rc_entries (delete_entry k c) = xs @ ys" by (simp add: delete_entry_def untouched_keys)
  have same: "rc_next_ref (delete_entry k c) = rc_next_ref c" "rc_max_entries (delete_entry k c) = rc_max_entries c"
    "rc_media_limits (delete_entry k c) = rc_media_limits c" by (simp_all add: delete_entry_def)
  have ok: "cache_ok (delete_entry k c)" using assms(1) s(1) by (auto simp: cache_ok_def d same)
  have "cache_evolves c (delete_entry k c)" by (auto simp: cache_evolves_def d same s(1))
  moreover have "cache_issue (delete_entry k c) x = cache_issue c x + int (count gv x) - int (count tk x)" for x
    using assms(3) [of x] by (simp add: cache_issue_split [OF s(1)]) (simp add: cache_issue_def d)
  ultimately show ?thesis using ok by (simp add: moves_def)
qed

lemma moves_add:
  assumes "cache_ok c" and "entry_at k c = None" and "entry_ok (k, new_entry k bucket state runtime c)"
    and "\<And>x. entry_issue (k, new_entry k bucket state runtime c) x = int (count gv x) - int (count tk x)"
  shows "moves c tk gv (add_entry k bucket state runtime c)"
proof -
  have new: "k \<notin> fst ` set (rc_entries c)" using assms(2) by (simp add: entry_at_def map_of_eq_None_iff)
  have "cache_ok (add_entry k bucket state runtime c)"
    using assms(1,3) new by (auto simp: cache_ok_def add_entry_def new_entry_def)
  moreover have "cache_evolves c (add_entry k bucket state runtime c)"
    by (auto simp: cache_evolves_def add_entry_def new_entry_def)
  ultimately show ?thesis using assms(4) by (simp add: moves_def cache_issue_def add_entry_def)
qed

end
