(* ===== verification/Runtime_Blocks.thy ===== *)
theory Runtime_Blocks imports Runtime_Tokens begin

text \<open>
  Every block of the cache moves exactly the tokens its caller accounts for, in every state of the
  cache and on every branch.
\<close>

definition victim_tokens :: "(string \<times> runtime_entry) list \<Rightarrow> token multiset" where
  "victim_tokens vs = sum_list (map retire_tokens vs)"

lemma victim_tokens_simps [simp]:
  "victim_tokens [] = {#}" "victim_tokens (v # vs) = retire_tokens v + victim_tokens vs"
  by (simp_all add: victim_tokens_def)

lemma retire_tokens_state [simp]: "retire_tokens (k, e\<lparr>en_state := st\<rparr>) = retire_tokens (k, e)"
  by (simp add: retire_tokens_def)

lemma runtime_token_simps [simp]: "runtime_token None = {#}" "runtime_token (Some x) = {#T_runtime x#}"
  by (simp_all add: runtime_token_def)

lemma change_entry_at:
  assumes "cache_ok c" and "entry_at k c = Some e"
  shows "change_entry k f c = change_entry k (\<lambda>_. f e) c"
proof -
  obtain xs ys where "rc_entries c = xs @ (k, e) # ys" "k \<notin> fst ` set xs" "k \<notin> fst ` set ys"
    using assms by (rule entry_at_split)
  then show ?thesis by (simp add: change_entry_def untouched_keys)
qed

lemma entry_at_ok: "cache_ok c \<Longrightarrow> entry_at k c = Some e \<Longrightarrow> entry_ok (k, e) \<and> en_ref e < rc_next_ref c"
  by (force simp: cache_ok_def entry_at_def dest: map_of_SomeD)

lemma change_entry_same [simp]:
  "rc_next_ref (change_entry k f c) = rc_next_ref c" "rc_max_entries (change_entry k f c) = rc_max_entries c"
  "rc_media_limits (change_entry k f c) = rc_media_limits c"
  by (simp_all add: change_entry_def)

lemma move_to_end_same [simp]:
  "rc_next_ref (move_to_end k c) = rc_next_ref c" "rc_max_entries (move_to_end k c) = rc_max_entries c"
  "rc_media_limits (move_to_end k c) = rc_media_limits c"
  by (simp_all add: move_to_end_def)

lemma change_entry_id: "cache_ok c \<Longrightarrow> entry_at k c = Some e \<Longrightarrow> change_entry k (\<lambda>_. e) c = c"
  by (elim entry_at_split) (auto simp: change_entry_def untouched_keys intro: runtime_cache.equality)

lemma evictable_states: "evictable e \<longleftrightarrow> en_lease_count e = 0 \<and> (en_state e = Rt_ready \<or> en_state e = Rt_invalid)"
  by (auto simp: evictable_def is_pinned_def EVICTABLE_STATES_def)

lemma not_busy_evictable: "\<not> busy_for_unload e \<longleftrightarrow> evictable e"
  by (cases "en_state e") (auto simp: evictable_states busy_for_unload_def is_pinned_def BUSY_FOR_UNLOAD_STATES_def)

lemma moves_retire:
  assumes "cache_ok c" and "entry_at k c = Some e" and "evictable e"
  shows "moves c {#} (retire_tokens (k, e)) (retire k c)"
proof (rule moves_change [OF assms(1,2), of _ "e\<lparr>en_state := Rt_retiring\<rparr>"])
  show "entry_issue (k, e\<lparr>en_state := Rt_retiring\<rparr>) x =
      entry_issue (k, e) x + int (count (retire_tokens (k, e)) x) - int (count {#} x)" for x
    using assms(3) by (cases x; cases "en_runtime e") (auto simp: retire_tokens_def evictable_states)
  show "entry_ok (k, e\<lparr>en_state := Rt_retiring\<rparr>)" "entry_evolves e (e\<lparr>en_state := Rt_retiring\<rparr>)"
    using assms(3) entry_at_ok [OF assms(1,2)] by (auto simp: entry_ok_def entry_evolves_def evictable_states)
qed (simp_all add: retire_def change_entry_at [OF assms(1,2), of "\<lambda>e. e\<lparr>en_state := Rt_retiring\<rparr>"])

lemma moves_touch: "cache_ok c \<Longrightarrow> entry_at k c = Some e \<Longrightarrow> moves c {#} {#} (move_to_end k c)"
  by (rule moves_change [of _ k e _ e]) (auto simp: change_entry_id dest: entry_at_ok)

lemma moves_get: "cache_ok c \<Longrightarrow> moves c {#} {#} (snd (cache_get k c))"
  by (auto simp: cache_get_def moves_refl moves_touch split: option.splits)

lemma moves_mark_invalid:
  assumes "cache_ok c"
  shows "moves c {#} {#} (cache_mark_invalid k r c)"
proof (cases "is_current k r c")
  case False
  then show ?thesis by (simp add: cache_mark_invalid_def moves_refl assms)
next
  case True
  then obtain e where e: "entry_at k c = Some e" by (auto simp: is_current_def split: option.splits)
  have "moves c {#} {#} (change_entry k (\<lambda>e. if en_state e = Rt_ready then e\<lparr>en_state := Rt_invalid\<rparr> else e) c)"
  proof (rule moves_change [OF assms e])
    let ?e = "if en_state e = Rt_ready then e\<lparr>en_state := Rt_invalid\<rparr> else e"
    show "entry_issue (k, ?e) x = entry_issue (k, e) x + int (count {#} x) - int (count {#} x)" for x
      by (cases x) auto
    show "entry_ok (k, ?e)" "entry_evolves e ?e"
      using entry_at_ok [OF assms e] by (auto simp: entry_ok_def entry_evolves_def)
  qed (simp_all add: change_entry_at [OF assms e, of "\<lambda>e. if en_state e = Rt_ready then e\<lparr>en_state := Rt_invalid\<rparr> else e"])
  with True show ?thesis by (simp add: cache_mark_invalid_def)
qed

lemma bucket_candidate:
  "cache_ok c \<Longrightarrow> (k, e) \<in> set (bucket_entries b c) \<Longrightarrow> entry_at k c = Some e \<and> en_media_bucket e = b"
  by (auto simp: bucket_entries_def entry_at_def cache_ok_def)

lemma overflow_victim_at:
  assumes "cache_ok c" and "overflow_victim b ex c = Some (k, e)"
  shows "entry_at k c = Some e \<and> evictable e"
proof -
  from assms(2) have "(k, e) \<in> set (bucket_entries b c) \<and> evictable e"
    by (auto simp: overflow_victim_def find_Some_iff dest: nth_mem split: if_splits)
  with bucket_candidate [OF assms(1)] show ?thesis by blast
qed

lemma moves_evict_overflow:
  "cache_ok c \<Longrightarrow> evict_bucket_overflow b ex c = (vs, c') \<Longrightarrow> moves c {#} (victim_tokens vs) c'"
proof (induction b ex c arbitrary: vs c' rule: evict_bucket_overflow.induct)
  case (1 b ex c)
  show ?case
  proof (cases "overflow_victim b ex c")
    case None
    with "1.prems" show ?thesis by (auto simp: evict_bucket_overflow.simps moves_refl)
  next
    case (Some p)
    obtain k e where p: "p = (k, e)" by (cases p)
    obtain us d where rest: "evict_bucket_overflow b ex (retire k c) = (us, d)" by (cases "evict_bucket_overflow b ex (retire k c)")
    note at = overflow_victim_at [OF "1.prems"(1) Some [unfolded p]]
    from at have first: "moves c {#} (retire_tokens (k, e)) (retire k c)" using moves_retire "1.prems"(1) by blast
    from "1.IH" [OF Some p [symmetric] moves_ok [OF first] rest] moves_trans [OF first]
    have "moves c {#} (retire_tokens (k, e) + victim_tokens us) d" by force
    with rest Some p "1.prems"(2) show ?thesis by (subst (asm) evict_bucket_overflow.simps) auto
  qed
qed

section \<open>Reservations\<close>

fun reservation_tokens :: "string \<Rightarrow> reservation \<Rightarrow> token multiset" where
  "reservation_tokens k (Pinned e) = {#T_lease k (en_ref e)#}"
| "reservation_tokens k (Reserved e) = {#T_reserved k (en_ref e)#}"
| "reservation_tokens k (Evict j e) = retire_tokens (j, e)"

fun reservation_state :: "reservation \<Rightarrow> bool" where
  "reservation_state (Pinned e) = (en_state e = Rt_ready)"
| "reservation_state (Reserved e) = (en_state e = Rt_loading)"
| "reservation_state (Evict j e) = (en_state e = Rt_retiring)"

lemma moves_reserved_slot:
  assumes "cache_ok c" and "entry_at k c = None"
  shows "moves c {#} {#T_reserved k (en_ref (new_entry k b Rt_loading None c))#} (add_entry k b Rt_loading None c)"
  using assms(1,2)
proof (rule moves_add)
  show "entry_issue (k, new_entry k b Rt_loading None c) x =
      int (count {#T_reserved k (en_ref (new_entry k b Rt_loading None c))#} x) - int (count {#} x)" for x
    by (cases x) (auto simp: new_entry_def)
qed (simp add: entry_ok_def new_entry_def)

lemma select_victim_at:
  assumes "cache_ok c" and "select_capacity_victim b c = Inr (Some (k, e))"
  shows "entry_at k c = Some e \<and> evictable e"
proof -
  from assms(2) obtain vs where "filter (\<lambda>(k, e). evictable e) (bucket_entries b c) = (k, e) # vs"
    by (auto simp: select_capacity_victim_def Let_def split: if_splits list.splits)
  then have "(k, e) \<in> set (filter (\<lambda>(k, e). evictable e) (bucket_entries b c))" by simp
  with bucket_candidate [OF assms(1)] show ?thesis by auto
qed

lemma select_victim_error: "select_capacity_victim b c = Inl e \<Longrightarrow> e = Rt_busy"
  by (auto simp: select_capacity_victim_def Let_def split: if_splits list.splits)

lemma moves_evicting:
  assumes "cache_ok c" and "entry_at k c = Some e" and "evictable e" and "evicting k e c = (r, c')"
  obtains v where "r = Inr v" and "reservation_state v" and "moves c {#} (reservation_tokens j v) c'"
  using moves_retire [OF assms(1-3)] assms(4)
  by (intro that [of "Evict k (e\<lparr>en_state := Rt_retiring\<rparr>)"]) (auto simp: evicting_def)

lemma moves_pin:
  assumes "cache_ok c" and "entry_at k c = Some e" and "en_state e = Rt_ready"
  shows "moves c {#} {#T_lease k (en_ref e)#}
    (move_to_end k (change_entry k (\<lambda>_. e\<lparr>en_lease_count := Suc (en_lease_count e)\<rparr>) c))"
proof (rule moves_change [OF assms(1,2)])
  let ?e = "e\<lparr>en_lease_count := Suc (en_lease_count e)\<rparr>"
  show "entry_issue (k, ?e) x = entry_issue (k, e) x + int (count {#T_lease k (en_ref e)#} x) - int (count {#} x)" for x
    by (cases x) auto
  show "entry_ok (k, ?e)" "entry_evolves e ?e"
    using entry_at_ok [OF assms(1,2)] assms(3) by (auto simp: entry_ok_def entry_evolves_def)
qed simp_all

text \<open>An entry that can still be refused as draining is invalid and pinned.\<close>

lemma moves_reserve:
  assumes "cache_ok c" and "cache_reserve k media c = (r, c')"
  shows "(\<exists>v. r = Inr v \<and> reservation_state v \<and> moves c {#} (reservation_tokens k v) c') \<or>
    c' = c \<and> (r = Inl Rt_busy \<or> (\<exists>e. r = Inl (Rt_draining (en_ref e)) \<and> (k, e) \<in> set (rc_entries c) \<and>
      en_state e = Rt_invalid \<and> 0 < en_lease_count e))"
proof (cases "entry_at k c")
  case None
  show ?thesis
  proof (cases "select_capacity_victim (bucket_for media c) c")
    case (Inl e)
    with None assms(2) select_victim_error [OF Inl] show ?thesis by (simp add: cache_reserve_def)
  next
    case (Inr v)
    show ?thesis
    proof (cases v)
      case None
      with Inr \<open>entry_at k c = None\<close> assms(2) moves_reserved_slot [OF assms(1), of k] show ?thesis
        by (auto simp: cache_reserve_def reserved_slot_def new_entry_def Let_def)
    next
      case (Some p)
      with Inr \<open>entry_at k c = None\<close> assms(2) have run: "evicting (fst p) (snd p) c = (r, c')"
        by (simp add: cache_reserve_def Let_def case_prod_beta)
      from select_victim_at [OF assms(1), of "bucket_for media c" "fst p" "snd p"] Inr Some
      have "entry_at (fst p) c = Some (snd p)" "evictable (snd p)" by simp_all
      from moves_evicting [OF assms(1) this run, of k] show ?thesis by blast
    qed
  qed
next
  case (Some e)
  have mem: "(k, e) \<in> set (rc_entries c)" using Some by (auto simp: entry_at_def dest: map_of_SomeD)
  show ?thesis
  proof (cases "en_state e")
    case Rt_invalid
    show ?thesis
    proof (cases "is_pinned e")
      case True
      with Some Rt_invalid assms(2) mem show ?thesis
        by (auto simp: cache_reserve_def Let_def BUSY_FOR_UNLOAD_STATES_def is_pinned_def)
    next
      case False
      with Some Rt_invalid assms(2) have run: "evicting k e c = (r, c')"
        by (simp add: cache_reserve_def Let_def BUSY_FOR_UNLOAD_STATES_def)
      have "evictable e" using False Rt_invalid by (simp add: evictable_states is_pinned_def)
      from moves_evicting [OF assms(1) Some this run, of k] show ?thesis by blast
    qed
  next
    case Rt_ready
    with Some assms moves_pin [OF assms(1) Some Rt_ready] show ?thesis
      by (auto simp: cache_reserve_def Let_def)
  qed (use Some assms(2) in \<open>auto simp: cache_reserve_def Let_def BUSY_FOR_UNLOAD_STATES_def\<close>)
qed

lemma moves_reserve_again:
  assumes "cache_ok c" and "cache_reserve_again k media c = (r, c')"
  shows "(\<exists>e. r = Inr (Reserved e) \<and> en_state e = Rt_loading \<and> moves c {#} {#T_reserved k (en_ref e)#} c') \<or>
    c' = c \<and> r = Inl Rt_busy"
proof (cases "select_capacity_victim (bucket_for media c) c")
  case (Inl e)
  with assms(2) select_victim_error [OF Inl] show ?thesis
    by (auto simp: cache_reserve_again_def Let_def split: if_splits)
next
  case (Inr v)
  with assms(2) moves_reserved_slot [OF assms(1), of k] show ?thesis
    by (cases v; cases "entry_at k c")
      (auto simp: cache_reserve_again_def reserved_slot_def new_entry_def Let_def)
qed

section \<open>What a token says of the cache\<close>

lemma sum_list_pos: "0 < sum_list (map f xs) \<Longrightarrow> \<exists>p \<in> set xs. 0 < (f p :: int)"
  by (induction xs) force+

lemma issued_at:
  assumes "cache_ok c" and "0 < cache_issue c x"
  obtains k e where "entry_at k c = Some e" and "0 < entry_issue (k, e) x"
proof -
  from assms(2) obtain k e where "(k, e) \<in> set (rc_entries c)" "0 < entry_issue (k, e) x"
    using sum_list_pos by (fastforce simp: cache_issue_def)
  with assms(1) show ?thesis by (intro that [of k e]) (simp_all add: entry_at_def cache_ok_def)
qed

lemma issued_reserved:
  "cache_ok c \<Longrightarrow> 0 < cache_issue c (T_reserved k r) \<Longrightarrow>
   \<exists>e. entry_at k c = Some e \<and> en_ref e = r \<and> en_state e = Rt_loading"
  by (erule (1) issued_at) (auto split: if_splits)

lemma issued_retiring:
  "cache_ok c \<Longrightarrow> 0 < cache_issue c (T_retiring k r) \<Longrightarrow>
   \<exists>e. entry_at k c = Some e \<and> en_ref e = r \<and> en_state e = Rt_retiring"
  by (erule (1) issued_at) (auto split: if_splits)

lemma issued_lease:
  assumes "cache_ok c" and "0 < cache_issue c (T_lease k r)"
  shows "\<exists>e. entry_at k c = Some e \<and> en_ref e = r \<and> 0 < en_lease_count e \<and> en_state e \<in> {Rt_ready, Rt_invalid} \<and> en_runtime e \<noteq> None"
proof -
  from issued_at [OF assms] obtain k' e where at: "entry_at k' c = Some e" and pos: "0 < entry_issue (k', e) (T_lease k r)" .
  from entry_at_ok [OF assms(1) at] pos at show ?thesis
    by (cases "en_state e") (auto simp: entry_ok_def split: if_splits)
qed

lemma issued_runtime_nonpos: "cache_issue c (T_runtime x) \<le> 0"
proof -
  have "sum_list (map (\<lambda>p. entry_issue p (T_runtime x)) ps) \<le> 0" for ps by (induction ps) auto
  then show ?thesis by (simp add: cache_issue_def)
qed

lemma not_resident:
  assumes "cache_issue c (T_runtime x) = 0" and "entry_at k c = Some e" and "en_state e \<noteq> Rt_retiring"
  shows "en_runtime e \<noteq> Some x"
proof
  assume x: "en_runtime e = Some x"
  have le: "sum_list (map (\<lambda>p. entry_issue p (T_runtime x)) ps) \<le> 0" for ps by (induction ps) auto
  have "(k, e) \<in> set (rc_entries c)" using assms(2) by (auto simp: entry_at_def dest: map_of_SomeD)
  then obtain xs ys where "rc_entries c = xs @ (k, e) # ys" by (meson split_list)
  from cache_issue_split [OF this, of "T_runtime x"] le [of xs] le [of ys] assms x show False by simp
qed

section \<open>The other blocks\<close>

lemma is_current_at: "entry_at k c = Some e \<Longrightarrow> is_current k r c \<longleftrightarrow> en_ref e = r"
  by (simp add: is_current_def)

lemma moves_publish:
  assumes "cache_ok c" and "0 < cache_issue c (T_reserved k r)" and "cache_publish k r x c = (res, c')"
  shows "res = Inr () \<and> moves c {#T_reserved k r, T_runtime x#} {#T_lease k r#} c'"
proof -
  from issued_reserved [OF assms(1,2)] obtain e where e: "entry_at k c = Some e" "en_ref e = r" "en_state e = Rt_loading" by blast
  let ?f = "\<lambda>e. e\<lparr>en_runtime := Some x, en_state := Rt_ready, en_lease_count := 1\<rparr>"
  note ok = entry_at_ok [OF assms(1) e(1)]
  have "moves c {#T_reserved k r, T_runtime x#} {#T_lease k r#} (move_to_end k (change_entry k ?f c))"
  proof (rule moves_change [OF assms(1) e(1)])
    show "entry_issue (k, ?f e) y = entry_issue (k, e) y + int (count {#T_lease k r#} y) - int (count {#T_reserved k r, T_runtime x#} y)" for y
      using ok e by (cases y) (auto simp: entry_ok_def)
    show "entry_ok (k, ?f e)" "entry_evolves e (?f e)" using e(3) by (simp_all add: entry_ok_def entry_evolves_def)
  qed (simp_all del: One_nat_def add: change_entry_at [OF assms(1) e(1), of ?f])
  with assms(3) e show ?thesis by (auto simp: cache_publish_def is_current_at [OF e(1)])
qed

lemma moves_abort:
  assumes "cache_ok c" and "0 < cache_issue c (T_reserved k r)"
  shows "moves c {#T_reserved k r#} {#} (cache_abort k r c)"
proof -
  from issued_reserved [OF assms] obtain e where e: "entry_at k c = Some e" "en_ref e = r" "en_state e = Rt_loading" by blast
  note ok = entry_at_ok [OF assms(1) e(1)]
  have "moves c {#T_reserved k r#} {#} (delete_entry k c)"
  proof (rule moves_delete [OF assms(1) e(1)])
    show "0 = entry_issue (k, e) y + int (count {#} y) - int (count {#T_reserved k r#} y)" for y
      using ok e by (cases y) (auto simp: entry_ok_def)
  qed
  with e show ?thesis by (simp add: cache_abort_def is_current_at [OF e(1)])
qed

lemma moves_remove:
  assumes "cache_ok c" and "0 < cache_issue c (T_retiring k r)"
  shows "moves c {#T_retiring k r#} {#} (cache_remove k r c)"
proof -
  from issued_retiring [OF assms] obtain e where e: "entry_at k c = Some e" "en_ref e = r" "en_state e = Rt_retiring" by blast
  note ok = entry_at_ok [OF assms(1) e(1)]
  have "moves c {#T_retiring k r#} {#} (delete_entry k c)"
  proof (rule moves_delete [OF assms(1) e(1)])
    show "0 = entry_issue (k, e) y + int (count {#} y) - int (count {#T_retiring k r#} y)" for y
      using ok e by (cases y) (auto simp: entry_ok_def)
  qed
  with e show ?thesis by (simp add: cache_remove_def is_current_at [OF e(1)])
qed

lemma moves_release_lease:
  assumes "cache_ok c" and "0 < cache_issue c (T_lease k r)" and "cache_release_lease k r c = (vs, c')"
  shows "moves c {#T_lease k r#} (victim_tokens vs) c'"
proof -
  from issued_lease [OF assms(1,2)] obtain e where e: "entry_at k c = Some e" "en_ref e = r" "0 < en_lease_count e"
    "en_state e \<in> {Rt_ready, Rt_invalid}" by blast
  let ?f = "\<lambda>e. e\<lparr>en_lease_count := en_lease_count e - 1\<rparr>"
  note ok = entry_at_ok [OF assms(1) e(1)]
  have "moves c {#T_lease k r#} {#} (change_entry k ?f c)"
  proof (rule moves_change [OF assms(1) e(1)])
    show "entry_issue (k, ?f e) y = entry_issue (k, e) y + int (count {#} y) - int (count {#T_lease k r#} y)" for y
      using e by (cases y) (auto simp: of_nat_diff)
    show "entry_ok (k, ?f e)" "entry_evolves e (?f e)" using ok e(4) by (auto simp: entry_ok_def entry_evolves_def)
  qed (simp_all del: One_nat_def add: change_entry_at [OF assms(1) e(1), of ?f])
  then have first: "moves c {#T_lease k r#} {#} (notify_all (change_entry k ?f c))" by simp
  show ?thesis
  proof (cases "en_lease_count e - 1 = 0")
    case True
    with assms(3) e have "evict_bucket_overflow (en_media_bucket e) None (notify_all (change_entry k ?f c)) = (vs, c')"
      by (simp add: cache_release_lease_def Let_def)
    from moves_trans [OF first moves_evict_overflow [OF moves_ok [OF first] this]] show ?thesis by simp
  next
    case False
    with assms(3) e first show ?thesis by (auto simp: cache_release_lease_def Let_def)
  qed
qed

lemma moves_unload:
  assumes "cache_ok c" and "cache_unload k c = (r, c')"
  shows "r = Inl Rt_busy \<and> c' = c \<or> r = Inr None \<and> c' = c \<or>
    (\<exists>e. r = Inr (Some e) \<and> en_state e = Rt_retiring \<and> moves c {#} (retire_tokens (k, e)) c')"
  using assms moves_retire [OF assms(1), of k]
  by (auto simp: cache_unload_def not_busy_evictable [symmetric] split: option.splits if_splits)

lemma retire_all:
  assumes "\<forall>p \<in> set ps. \<not> busy_for_unload (snd p)"
  shows "sum_list (map (\<lambda>p. entry_issue p x) (map (\<lambda>(k, e). (k, e\<lparr>en_state := Rt_retiring\<rparr>)) ps)) =
    sum_list (map (\<lambda>p. entry_issue p x) ps) + int (count (victim_tokens (map (\<lambda>(k, e). (k, e\<lparr>en_state := Rt_retiring\<rparr>)) ps)) x)"
  using assms
proof (induction ps)
  case (Cons p ps)
  obtain k e where p: "p = (k, e)" by (cases p)
  with Cons.prems have "evictable e" using not_busy_evictable [of e] by simp
  then have "entry_issue (k, e\<lparr>en_state := Rt_retiring\<rparr>) x = entry_issue (k, e) x + int (count (retire_tokens (k, e)) x)"
    by (cases x; cases "en_runtime e") (auto simp: retire_tokens_def evictable_states)
  with Cons p show ?case by simp
qed simp

lemma moves_unload_all:
  assumes "cache_ok c" and "cache_unload_all c = (r, c')"
  shows "r = Inl Rt_busy \<and> c' = c \<or>
    (\<exists>vs. r = Inr vs \<and> (\<forall>p \<in> set vs. en_state (snd p) = Rt_retiring) \<and> moves c {#} (victim_tokens vs) c')"
proof (cases "list_ex (\<lambda>(k, e). busy_for_unload e) (rc_entries c)")
  case True
  with assms(2) show ?thesis by (simp add: cache_unload_all_def)
next
  case False
  then have idle: "\<forall>p \<in> set (rc_entries c). \<not> busy_for_unload (snd p)" by (auto simp: list_ex_iff)
  let ?vs = "map (\<lambda>(k, e). (k, e\<lparr>en_state := Rt_retiring\<rparr>)) (rc_entries c)"
  from False assms(2) have r: "r = Inr ?vs" "c' = c\<lparr>rc_entries := ?vs\<rparr>" by (auto simp: cache_unload_all_def Let_def)
  have "cache_ok c'" using assms(1) idle
    by (fastforce simp: cache_ok_def r entry_ok_def comp_def case_prod_beta not_busy_evictable evictable_states)
  moreover have "cache_evolves c c'"
    using idle by (force simp: cache_evolves_def r entry_evolves_def not_busy_evictable evictable_states)
  moreover have "cache_issue c' x = cache_issue c x + int (count (victim_tokens ?vs) x)" for x
    using retire_all [OF idle] by (simp add: cache_issue_def r)
  ultimately show ?thesis by (auto simp: moves_def r)
qed

lemma moves_put:
  assumes "cache_ok c" and "cache_issue c (T_runtime x) = 0" and "cache_put k x media c = (r, c')"
  shows "r = Inl Rt_busy \<and> c' = c \<or>
    (\<exists>replaced vs. r = Inr (replaced, vs) \<and>
       moves c {#T_runtime x#} (runtime_token (map_option snd replaced) + victim_tokens vs) c')"
proof -
  let ?b = "bucket_for media c"
  have new: "moves d {#T_runtime x#} {#} (add_entry k ?b Rt_ready (Some x) d)"
    if "cache_ok d" "entry_at k d = None" for d
    using that
  proof (rule moves_add)
    show "entry_issue (k, new_entry k ?b Rt_ready (Some x) d) y = int (count {#} y) - int (count {#T_runtime x#} y)" for y
      by (cases y) (auto simp: new_entry_def)
  qed (simp add: entry_ok_def new_entry_def)
  have placed: "moves c {#T_runtime x#} (runtime_token (map_option snd replaced)) d"
    if "put_placed k x ?b c = Inr (replaced, d)" for replaced d
  proof (cases "entry_at k c")
    case None
    with that new [OF assms(1)] show ?thesis by (auto simp: put_placed_def)
  next
    case (Some e)
    with that have idle: "evictable e" by (auto simp: put_placed_def not_busy_evictable [symmetric] split: if_splits)
    with not_resident [OF assms(2) Some] have "en_runtime e \<noteq> Some x" by (auto simp: evictable_states)
    with that Some idle have d: "replaced = map_option (Pair k) (en_runtime e)"
      "d = add_entry k ?b Rt_ready (Some x) (delete_entry k c)"
      by (auto simp: put_placed_def not_busy_evictable [symmetric] split: if_splits)
    have first: "moves c {#} (runtime_token (en_runtime e)) (delete_entry k c)"
    proof (rule moves_delete [OF assms(1) Some])
      show "0 = entry_issue (k, e) y + int (count (runtime_token (en_runtime e)) y) - int (count {#} y)" for y
        using idle by (cases y; cases "en_runtime e") (auto simp: evictable_states)
    qed
    have "entry_at k (delete_entry k c) = None"
      by (auto simp: entry_at_def delete_entry_def map_of_eq_None_iff)
    from moves_trans [OF first new [OF moves_ok [OF first] this]] show ?thesis
      by (simp add: d option.map_comp comp_def option.map_ident)
  qed
  show ?thesis
  proof (cases "put_placed k x ?b c")
    case (Inl e)
    with assms(3) show ?thesis
      by (auto simp: cache_put_def Let_def put_placed_def split: option.splits if_splits)
  next
    case (Inr p)
    obtain replaced d where p: "p = (replaced, d)" by (cases p)
    obtain vs d' where e: "evict_bucket_overflow ?b (Some k) d = (vs, d')" by (cases "evict_bucket_overflow ?b (Some k) d")
    note first = placed [OF Inr [unfolded p]]
    from moves_trans [OF first moves_evict_overflow [OF moves_ok [OF first] e]] Inr p e assms(3)
    show ?thesis by (auto simp: cache_put_def Let_def)
  qed
qed

end
