(* ===== verification/Runtime_Protocol.thy ===== *)
theory Runtime_Protocol imports Runtime_Blocks begin

text \<open>
  The protocol every thread follows: what an act requires and hands over, in which order the blocking
  resources may be taken, and what its answer tells. \<open>exec_sound\<close> shows that the shared state keeps
  its side: an act performed by the protocol moves the tokens it says and answers as it says.
\<close>

section \<open>The state's side\<close>

definition handle_tokens :: "runtime_handle \<Rightarrow> token multiset" where
  "handle_tokens h =
     (if hd_released h then {#}
      else {#T_permit, T_credit (hd_owner h), T_lease (hd_canonical_id h) (hd_entry h), T_exec (hd_entry h)#})"

definition handles_hold :: "runtime_system \<Rightarrow> token multiset" where
  "handles_hold s = sum_list (map handle_tokens (ss_handles s))"

fun issue :: "runtime_system \<Rightarrow> token \<Rightarrow> int" where
  "issue s T_permit = int (ss_capacity s) - int (ss_permits s)"
| "issue s (T_credit t) = int (ss_held s t)"
| "issue s (T_load k) = of_bool (ss_load_locks s k)"
| "issue s (T_exec r) = of_bool (ss_exec_locks s r)"
| "issue s (T_runtime x) =
     of_bool (x < ss_next_runtime s) - int (count_list (ss_cleaned s) x) + cache_issue (ss_cache s) (T_runtime x)"
| "issue s x = cache_issue (ss_cache s) x"

definition handle_ok :: "runtime_cache \<Rightarrow> runtime_handle \<Rightarrow> bool" where
  "handle_ok c h \<longleftrightarrow>
     hd_entry h < rc_next_ref c \<and>
     (\<forall>(k, e) \<in> set (rc_entries c). en_ref e = hd_entry h \<longrightarrow> en_state e \<noteq> Rt_loading \<and> en_runtime e = hd_runtime h)"

definition consistent :: "runtime_system \<Rightarrow> token multiset \<Rightarrow> bool" where
  "consistent s T \<longleftrightarrow>
     cache_ok (ss_cache s) \<and> ss_permits s \<le> ss_capacity s \<and> (\<forall>t. ss_held s t \<le> 1) \<and>
     (\<forall>h \<in> set (ss_handles s). handle_ok (ss_cache s) h) \<and>
     (\<forall>x. int (count T x) + int (count (handles_hold s) x) = issue s x)"

section \<open>What a thread may know\<close>

text \<open>
  Its own credit is not there; an entry is beyond use for good, or beyond use and out of everybody's
  hands for good.
\<close>

datatype fact = F_unheld | F_spoiled string nat | F_drained nat

definition spoiled :: "string \<Rightarrow> nat \<Rightarrow> runtime_cache \<Rightarrow> bool" where
  "spoiled k r c \<longleftrightarrow>
     r < rc_next_ref c \<and>
     (\<forall>(j, e) \<in> set (rc_entries c). en_ref e = r \<longrightarrow> j = k \<and> en_state e \<in> {Rt_invalid, Rt_retiring})"

definition drained :: "nat \<Rightarrow> runtime_cache \<Rightarrow> bool" where
  "drained r c \<longleftrightarrow>
     r < rc_next_ref c \<and>
     (\<forall>(j, e) \<in> set (rc_entries c). en_ref e = r \<longrightarrow> en_state e \<in> {Rt_invalid, Rt_retiring} \<and> en_lease_count e = 0)"

fun fact_holds :: "nat \<Rightarrow> runtime_system \<Rightarrow> fact \<Rightarrow> bool" where
  "fact_holds t s F_unheld = (ss_held s t = 0)"
| "fact_holds t s (F_spoiled k r) = spoiled k r (ss_cache s)"
| "fact_holds t s (F_drained r) = drained r (ss_cache s)"

definition system_evolves :: "nat \<Rightarrow> runtime_system \<Rightarrow> runtime_system \<Rightarrow> bool" where
  "system_evolves t s s' \<longleftrightarrow> cache_evolves (ss_cache s) (ss_cache s') \<and> (\<forall>u. u \<noteq> t \<longrightarrow> ss_held s' u \<le> ss_held s u)"

lemma evolves_entry:
  "cache_evolves c c' \<Longrightarrow> (k, e') \<in> set (rc_entries c') \<Longrightarrow> en_ref e' < rc_next_ref c \<Longrightarrow>
   \<exists>e. (k, e) \<in> set (rc_entries c) \<and> entry_evolves e e'"
  by (force simp: cache_evolves_def)

lemma evolves_ref: "cache_evolves c c' \<Longrightarrow> r < rc_next_ref c \<Longrightarrow> r < rc_next_ref c'"
  by (simp add: cache_evolves_def)

lemma spoiled_evolves:
  assumes "cache_evolves c c'" and "spoiled k r c" shows "spoiled k r c'"
proof -
  have "j = k \<and> en_state e' \<in> {Rt_invalid, Rt_retiring}" if "(j, e') \<in> set (rc_entries c')" "en_ref e' = r" for j e'
    using evolves_entry [OF assms(1) that(1)] that(2) assms(2) by (fastforce simp: spoiled_def entry_evolves_def)
  with assms show ?thesis by (auto simp: spoiled_def dest: evolves_ref)
qed

lemma drained_evolves:
  assumes "cache_evolves c c'" and "drained r c" shows "drained r c'"
proof -
  have "en_state e' \<in> {Rt_invalid, Rt_retiring} \<and> en_lease_count e' = 0"
    if "(j, e') \<in> set (rc_entries c')" "en_ref e' = r" for j e'
    using evolves_entry [OF assms(1) that(1)] that(2) assms(2) by (fastforce simp: drained_def entry_evolves_def)
  with assms show ?thesis by (auto simp: drained_def dest: evolves_ref)
qed

lemma handle_ok_evolves:
  assumes "cache_evolves c c'" and "handle_ok c h" shows "handle_ok c' h"
proof -
  have "en_state e' \<noteq> Rt_loading \<and> en_runtime e' = hd_runtime h"
    if "(k, e') \<in> set (rc_entries c')" "en_ref e' = hd_entry h" for k e'
    using evolves_entry [OF assms(1) that(1)] that(2) assms(2) by (fastforce simp: handle_ok_def entry_evolves_def)
  with assms show ?thesis by (auto simp: handle_ok_def dest: evolves_ref)
qed

lemma fact_stays: "system_evolves t s s' \<Longrightarrow> u \<noteq> t \<Longrightarrow> fact_holds u s f \<Longrightarrow> fact_holds u s' f"
  by (cases f) (auto simp: system_evolves_def spoiled_evolves drained_evolves)

section \<open>The thread's side\<close>

fun needs :: "nat \<Rightarrow> rt_act \<Rightarrow> token multiset" where
  "needs t (A_uncredit u) = {#T_credit u#}"
| "needs t A_return_permit = {#T_permit#}"
| "needs t (A_load_unlock k) = {#T_load k#}"
| "needs t (A_exec_lock k r bounded) = {#T_lease k r#}"
| "needs t (A_exec_unlock r) = {#T_exec r#}"
| "needs t (A_publish k r x) = {#T_reserved k r, T_runtime x#}"
| "needs t (A_abort k r) = {#T_reserved k r#}"
| "needs t (A_release_lease k r) = {#T_lease k r#}"
| "needs t (A_check_ready k r) = {#T_lease k r#}"
| "needs t (A_put k x media) = {#T_runtime x#}"
| "needs t (A_clean k x) = {#T_runtime x#}"
| "needs t (A_remove k r) = {#T_retiring k r#}"
| "needs t (A_make_handle k r) = {#T_permit, T_credit t, T_lease k r, T_exec r#}"
| "needs t _ = {#}"

fun keeps_needs :: "rt_act \<Rightarrow> res \<Rightarrow> bool" where
  "keeps_needs (A_exec_lock k e bounded) r = True"
| "keeps_needs (A_check_ready k e) r = True"
| "keeps_needs (A_put k x media) r = (r = R_error Rt_busy)"
| "keeps_needs _ r = False"

definition takes :: "nat \<Rightarrow> rt_act \<Rightarrow> res \<Rightarrow> token multiset" where
  "takes t a r = (if keeps_needs a r then {#} else needs t a)"

fun gives :: "nat \<Rightarrow> rt_act \<Rightarrow> res \<Rightarrow> token multiset" where
  "gives t (A_permit bounded) r = (if r = R_bool True then {#T_permit#} else {#})"
| "gives t A_credit r = {#T_credit t#}"
| "gives t (A_load_lock k bounded) r = (if r = R_bool True then {#T_load k#} else {#})"
| "gives t (A_exec_lock k e bounded) r = (if r = R_bool True then {#T_exec e#} else {#})"
| "gives t (A_reserve k media) r = (case r of R_reservation v \<Rightarrow> reservation_tokens k v | _ \<Rightarrow> {#})"
| "gives t (A_reserve_again k media) r = (case r of R_reservation v \<Rightarrow> reservation_tokens k v | _ \<Rightarrow> {#})"
| "gives t (A_load k) r = (case r of R_runtime x \<Rightarrow> runtime_token x | _ \<Rightarrow> {#})"
| "gives t (A_publish k e x) r = {#T_lease k e#}"
| "gives t (A_release_lease k e) r = (case r of R_victims vs \<Rightarrow> victim_tokens vs | _ \<Rightarrow> {#})"
| "gives t (A_put k x media) r =
     (case r of R_put replaced vs \<Rightarrow> runtime_token (map_option snd replaced) + victim_tokens vs | _ \<Rightarrow> {#})"
| "gives t (A_unload k) r = (case r of R_entry (Some e) \<Rightarrow> retire_tokens (k, e) | _ \<Rightarrow> {#})"
| "gives t A_unload_all r = (case r of R_victims vs \<Rightarrow> victim_tokens vs | _ \<Rightarrow> {#})"
| "gives t (A_begin_release h b) r = (case r of R_teardown (Some x) \<Rightarrow> handle_tokens x | _ \<Rightarrow> {#})"
| "gives t (A_begin_exit h b) r = (case r of R_teardown (Some x) \<Rightarrow> handle_tokens x | _ \<Rightarrow> {#})"
| "gives t _ r = {#}"

text \<open>
  The order G, L, E: a permit is awaited with empty hands, a load lock and a drain with nothing but
  the permit, an execution lock with a lease and neither a lock nor a slot. A callback runs with
  empty hands.
\<close>

definition calm :: "token multiset \<Rightarrow> bool" where
  "calm H \<longleftrightarrow> (\<forall>x \<in># H. x = T_permit \<or> (\<exists>t. x = T_credit t))"

fun leased_only :: "token \<Rightarrow> bool" where
  "leased_only (T_load k) = False"
| "leased_only (T_exec r) = False"
| "leased_only (T_reserved k r) = False"
| "leased_only (T_retiring k r) = False"
| "leased_only _ = True"

fun in_order :: "rt_act \<Rightarrow> token multiset \<Rightarrow> bool" where
  "in_order (A_permit bounded) H = (H = {#})"
| "in_order (A_load_lock k bounded) H = calm H"
| "in_order (A_exec_lock k r bounded) H = (\<forall>x \<in># H. leased_only x)"
| "in_order (A_wait_drain k r bounded) H = calm H"
| "in_order A_checkpoint H = (H = {#})"
| "in_order _ H = True"

fun fact_needed :: "rt_act \<Rightarrow> fact set \<Rightarrow> bool" where
  "fact_needed A_credit F = (F_unheld \<in> F)"
| "fact_needed _ F = True"

definition allowed :: "nat \<Rightarrow> rt_act \<Rightarrow> token multiset \<Rightarrow> fact set \<Rightarrow> bool" where
  "allowed t a H F \<longleftrightarrow> needs t a \<subseteq># H \<and> in_order a H \<and> fact_needed a F"

text \<open>What an act may answer.\<close>

fun possible :: "rt_act \<Rightarrow> fact set \<Rightarrow> res \<Rightarrow> bool" where
  "possible A_nested F r = (\<exists>b. r = R_bool b)"
| "possible (A_permit bounded) F r = (\<exists>b. r = R_bool b \<and> (b \<or> bounded))"
| "possible (A_load_lock k bounded) F r = (\<exists>b. r = R_bool b \<and> (b \<or> bounded))"
| "possible (A_exec_lock k e bounded) F r = (\<exists>b. r = R_bool b \<and> (b \<or> bounded))"
| "possible (A_wait_drain k e bounded) F r = (\<exists>b. r = R_bool b \<and> (b \<or> bounded))"
| "possible (A_reserve k media) F r =
     (r = R_error Rt_busy \<or> (\<exists>x. r = R_error (Rt_draining x) \<and> F_drained x \<notin> F) \<or>
      (\<exists>v. r = R_reservation v \<and> reservation_state v))"
| "possible (A_reserve_again k media) F r =
     (r = R_error Rt_busy \<or> (\<exists>e. r = R_reservation (Reserved e) \<and> en_state e = Rt_loading))"
| "possible (A_load k) F r =
     ((\<exists>x. r = R_runtime (Some x)) \<or> (\<exists>e. r = R_error (Rt_raised e)) \<or> r = R_error Rt_interrupt)"
| "possible (A_release_lease k e) F r = (\<exists>vs. r = R_victims vs)"
| "possible (A_check_ready k e) F r = (\<exists>b. r = R_bool b)"
| "possible (A_get k) F r = (\<exists>x. r = R_runtime x)"
| "possible (A_put k x media) F r = (r = R_error Rt_busy \<or> (\<exists>replaced vs. r = R_put replaced vs))"
| "possible (A_unload k) F r = (r = R_error Rt_busy \<or> (\<exists>e. r = R_entry e))"
| "possible A_unload_all F r = (r = R_error Rt_busy \<or> (\<exists>vs. r = R_victims vs))"
| "possible (A_clean k x) F r = (r = R_unit \<or> r = R_error Rt_interrupt)"
| "possible (A_make_handle k e) F r = (\<exists>h. r = R_handle h)"
| "possible (A_enter h) F r = (r = R_unit \<or> (\<exists>msg. r = R_error (Rt_runtime_error msg)))"
| "possible (A_begin_release h b) F r = (\<exists>x. r = R_teardown x \<and> (case x of Some y \<Rightarrow> \<not> hd_released y | None \<Rightarrow> True))"
| "possible (A_begin_exit h b) F r = (\<exists>x. r = R_teardown x \<and> (case x of Some y \<Rightarrow> \<not> hd_released y | None \<Rightarrow> True))"
| "possible (A_guard i) F r = (r = R_unit \<or> (\<exists>e. r = R_error (Rt_model e)))"
| "possible A_clock F r = (\<exists>b. r = R_bool b)"
| "possible A_checkpoint F r = (r = R_unit \<or> (\<exists>e. r = R_error (Rt_raised e)) \<or> r = R_error Rt_interrupt)"
| "possible _ F r = (r = R_unit)"

fun learns :: "rt_act \<Rightarrow> res \<Rightarrow> fact set \<Rightarrow> fact set" where
  "learns A_nested r F = (if r = R_bool False then insert F_unheld F else F)"
| "learns A_credit r F = F - {F_unheld}"
| "learns (A_reserve k media) r F = (case r of R_error (Rt_draining x) \<Rightarrow> insert (F_spoiled k x) F | _ \<Rightarrow> F)"
| "learns (A_check_ready k e) r F = (if r = R_bool False then insert (F_spoiled k e) F else F)"
| "learns (A_wait_drain k e bounded) r F = (if r = R_bool True \<and> F_spoiled k e \<in> F then insert (F_drained e) F else F)"
| "learns _ r F = F"

primrec obeys :: "nat \<Rightarrow> (rt_error + 'a \<Rightarrow> token multiset \<Rightarrow> fact set \<Rightarrow> bool) \<Rightarrow> 'a prog \<Rightarrow> token multiset \<Rightarrow> fact set \<Rightarrow> bool" where
  "obeys t Q (Return r) H F = Q r H F"
| "obeys t Q (Do a k) H F =
     (allowed t a H F \<and> (\<forall>r. possible a F r \<longrightarrow> obeys t Q (k r) (H - takes t a r + gives t a r) (learns a r F)))"

lemma obeys_continue [simp]: "obeys t Q (continue m f) H F = obeys t (\<lambda>r H F. obeys t Q (f r) H F) m H F"
  by (induction m arbitrary: H F) simp_all

lemma obeys_mono: "obeys t Q m H F \<Longrightarrow> (\<And>r H F. Q r H F \<Longrightarrow> R r H F) \<Longrightarrow> obeys t R m H F"
  by (induction m arbitrary: H F) auto

end
