(* ===== verification/Runtime_Soundness.thy ===== *)
theory Runtime_Soundness imports Runtime_Protocol begin

text \<open>
  The shared state keeps its side of the protocol: whatever act a thread performs by the rules, the
  tokens move as declared, the answer is one of the declared ones and what is learnt is true.
\<close>

section \<open>Tokens in hand\<close>

lemma token_issued: "consistent s T \<Longrightarrow> x \<in># T \<Longrightarrow> 0 < issue s x"
proof -
  assume "consistent s T" "x \<in># T"
  then have "int (count T x) + int (count (handles_hold s) x) = issue s x" "0 < count T x"
    by (auto simp: consistent_def)
  then show ?thesis by linarith
qed

lemma runtime_in_hand:
  assumes "consistent s T" and "T_runtime x \<in># T"
  shows "x < ss_next_runtime s \<and> count_list (ss_cleaned s) x = 0 \<and> cache_issue (ss_cache s) (T_runtime x) = 0"
  using token_issued [OF assms] issued_runtime_nonpos [of "ss_cache s" x] by (auto simp: of_bool_def split: if_splits)

lemma diff_add_rest: "tk \<subseteq># H \<Longrightarrow> H + R - tk + gv = H - tk + gv + (R :: 'a multiset)"
  by (auto simp: subset_mset.le_iff_add ac_simps)

lemma consistent_step:
  assumes "consistent s T" and "tk \<subseteq># T"
    and "cache_ok (ss_cache s')" and "ss_permits s' \<le> ss_capacity s'" and "\<forall>u. ss_held s' u \<le> 1"
    and "\<forall>h \<in> set (ss_handles s'). handle_ok (ss_cache s') h"
    and "\<And>x. issue s' x - int (count (handles_hold s') x) =
           issue s x - int (count (handles_hold s) x) + int (count gv x) - int (count tk x)"
  shows "consistent s' (T - tk + gv)"
proof -
  have "int (count (T - tk + gv) x) + int (count (handles_hold s') x) = issue s' x" for x
  proof -
    have "count tk x \<le> count T x" using assms(2) by (rule mset_subset_eq_count)
    moreover have "int (count T x) + int (count (handles_hold s) x) = issue s x"
      using assms(1) by (simp add: consistent_def)
    ultimately show ?thesis using assms(7) [of x] by (simp add: of_nat_diff)
  qed
  with assms(3-6) show ?thesis by (simp add: consistent_def)
qed

lemma cache_issue_other [simp]:
  "cache_issue c T_permit = 0" "cache_issue c (T_credit t) = 0" "cache_issue c (T_load k) = 0" "cache_issue c (T_exec r) = 0"
proof -
  have "sum_list (map (\<lambda>p. entry_issue p x) ps) = 0" if "\<And>p. entry_issue p x = 0" for x ps
    by (induction ps) (simp_all add: that)
  then show "cache_issue c T_permit = 0" "cache_issue c (T_credit t) = 0" "cache_issue c (T_load k) = 0"
    "cache_issue c (T_exec r) = 0" by (auto simp: cache_issue_def)
qed

lemma issue_cache:
  assumes "moves (ss_cache s) tk gv c'"
  shows "issue (s\<lparr>ss_cache := c'\<rparr>) x = issue s x + int (count gv x) - int (count tk x)"
proof -
  have "cache_issue c' x = cache_issue (ss_cache s) x + int (count gv x) - int (count tk x)"
    using assms by (simp add: moves_def)
  then show ?thesis by (cases x) simp_all
qed

lemma cache_step:
  assumes "consistent s T" and "moves (ss_cache s) tk gv c'" and "tk \<subseteq># T"
  shows "consistent (s\<lparr>ss_cache := c'\<rparr>) (T - tk + gv)"
  using assms(1,3)
proof (rule consistent_step)
  have "cache_evolves (ss_cache s) c'" using assms(2) by (simp add: moves_def)
  with assms(1) show "\<forall>h \<in> set (ss_handles (s\<lparr>ss_cache := c'\<rparr>)). handle_ok (ss_cache (s\<lparr>ss_cache := c'\<rparr>)) h"
    by (auto simp: consistent_def intro: handle_ok_evolves)
  show "issue (s\<lparr>ss_cache := c'\<rparr>) x - int (count (handles_hold (s\<lparr>ss_cache := c'\<rparr>)) x) =
      issue s x - int (count (handles_hold s) x) + int (count gv x) - int (count tk x)" for x
    by (simp add: issue_cache [OF assms(2)] handles_hold_def)
qed (use assms in \<open>auto simp: consistent_def moves_def\<close>)

text \<open>What \<open>exec_sound\<close> states of one act.\<close>

definition sound ::
  "nat \<Rightarrow> rt_act \<Rightarrow> token multiset \<Rightarrow> token multiset \<Rightarrow> fact set \<Rightarrow> res \<Rightarrow> runtime_system \<Rightarrow> runtime_system \<Rightarrow> bool" where
  "sound t a H R F r s s' \<longleftrightarrow>
     possible a F r \<and> consistent s' (H - takes t a r + gives t a r + R) \<and> system_evolves t s s' \<and>
     (\<forall>f \<in> learns a r F. fact_holds t s' f)"

lemma own_facts:
  assumes "\<forall>f \<in> F. fact_holds t s f" and "cache_evolves (ss_cache s) (ss_cache s')" and "ss_held s' t \<le> ss_held s t"
  shows "\<forall>f \<in> F. fact_holds t s' f"
proof
  fix f assume "f \<in> F"
  with assms show "fact_holds t s' f" by (cases f) (auto simp: spoiled_evolves drained_evolves)
qed

text \<open>An act that only changes the cache.\<close>

lemma sound_cache:
  assumes "consistent s (H + R)" and "\<forall>f \<in> F. fact_holds t s f"
    and "moves (ss_cache s) (takes t a r) (gives t a r) c'" and "needs t a \<subseteq># H"
    and "possible a F r" and "\<And>f. f \<in> learns a r F \<Longrightarrow> f \<notin> F \<Longrightarrow> fact_holds t (s\<lparr>ss_cache := c'\<rparr>) f"
  shows "sound t a H R F r s (s\<lparr>ss_cache := c'\<rparr>)"
proof -
  have tk: "takes t a r \<subseteq># H" using assms(4) by (simp add: takes_def)
  then have "takes t a r \<subseteq># H + R" by (simp add: subset_mset.add_increasing2)
  from cache_step [OF assms(1,3) this] have "consistent (s\<lparr>ss_cache := c'\<rparr>) (H - takes t a r + gives t a r + R)"
    by (simp add: diff_add_rest [OF tk])
  moreover have "system_evolves t s (s\<lparr>ss_cache := c'\<rparr>)" using assms(3) by (simp add: system_evolves_def moves_def)
  moreover have "\<forall>f \<in> F. fact_holds t (s\<lparr>ss_cache := c'\<rparr>) f"
    using assms(3) by (intro own_facts [OF assms(2)]) (simp_all add: moves_def)
  ultimately show ?thesis using assms(5,6) by (auto simp: sound_def)
qed

text \<open>An act that changes nothing.\<close>

lemma sound_still:
  assumes "consistent s (H + R)" and "\<forall>f \<in> F. fact_holds t s f"
    and "takes t a r = {#}" "gives t a r = {#}" "possible a F r"
    and "\<And>f. f \<in> learns a r F \<Longrightarrow> f \<notin> F \<Longrightarrow> fact_holds t s f"
  shows "sound t a H R F r s s"
  using assms by (auto simp: sound_def system_evolves_def)

lemma sound_stillI:
  assumes "consistent s (H + R)" and "\<forall>f \<in> F. fact_holds t s f" and "exec t a ch s = Some (r, s')"
    and "s' = s" "takes t a r = {#}" "gives t a r = {#}" "possible a F r"
    and "\<And>f. f \<in> learns a r F \<Longrightarrow> f \<notin> F \<Longrightarrow> fact_holds t s f"
  shows "sound t a H R F r s s'"
  unfolding assms(4) by (rule sound_still [OF assms(1,2,5-8)])

text \<open>An act that changes locks, permits, credits, handles or runtimes.\<close>

lemma sound_other:
  assumes "consistent s (H + R)" and "\<forall>f \<in> F. fact_holds t s f" and "needs t a \<subseteq># H" and "possible a F r"
    and "ss_cache s' = ss_cache s" "ss_permits s' \<le> ss_capacity s'" "\<forall>u. ss_held s' u \<le> 1"
    and "\<forall>u. u \<noteq> t \<or> a \<noteq> A_credit \<longrightarrow> ss_held s' u \<le> ss_held s u"
    and "\<forall>h \<in> set (ss_handles s'). handle_ok (ss_cache s) h"
    and "\<And>x. issue s' x - int (count (handles_hold s') x) =
           issue s x - int (count (handles_hold s) x) + int (count (gives t a r) x) - int (count (takes t a r) x)"
    and "learns a r F = F \<or> a = A_credit"
  shows "sound t a H R F r s s'"
proof -
  have tk: "takes t a r \<subseteq># H" using assms(3) by (simp add: takes_def)
  then have "takes t a r \<subseteq># H + R" by (simp add: subset_mset.add_increasing2)
  with assms(1) have "consistent s' (H + R - takes t a r + gives t a r)"
    by (rule consistent_step) (use assms in \<open>simp_all add: consistent_def\<close>)
  moreover have "system_evolves t s s'" using assms(5,8) by (simp add: system_evolves_def)
  moreover have "\<forall>f \<in> learns a r F. fact_holds t s' f"
  proof (cases "a = A_credit")
    case True
    then have "\<forall>f \<in> learns a r F. f \<noteq> F_unheld \<and> f \<in> F" by simp
    with assms(2,5) show ?thesis by (metis fact_holds.elims(1) fact.distinct(1,3) fact_holds.simps(2,3))
  next
    case False
    with assms(2,5,8,11) show ?thesis by (simp add: own_facts)
  qed
  ultimately show ?thesis using assms(4) by (simp add: sound_def diff_add_rest [OF tk])
qed

section \<open>The cases\<close>

lemma allowedD: "allowed t a H F \<Longrightarrow> needs t a \<subseteq># H \<and> in_order a H \<and> fact_needed a F"
  by (simp add: allowed_def)

lemma needs_in: "allowed t a H F \<Longrightarrow> x \<in># needs t a \<Longrightarrow> x \<in># H"
  by (auto simp: allowed_def dest: mset_subset_eqD)

lemma on_cache_Some: "on_cache f g s = Some (r, s') \<Longrightarrow> \<exists>x c. f (ss_cache s) = (x, c) \<and> r = g x \<and> s' = s\<lparr>ss_cache := c\<rparr>"
  by (auto simp: on_cache_def split: prod.splits)

lemma cache_same [simp]: "s\<lparr>ss_cache := ss_cache s\<rparr> = s" by simp

lemma exec_wait:
  assumes "wait_for available bounded ch s taken = Some (r, s')"
  shows "r = R_bool False \<and> bounded \<and> s' = s \<or> r = R_bool True \<and> available \<and> s' = taken"
  using assms by (auto simp: wait_for_def split: if_splits)

lemma consistentD:
  assumes "consistent s T"
  shows "cache_ok (ss_cache s)" "ss_permits s \<le> ss_capacity s" "\<forall>t. ss_held s t \<le> 1"
    "\<forall>h \<in> set (ss_handles s). handle_ok (ss_cache s) h"
  using assms by (auto simp: consistent_def)

definition sound_act :: "rt_act \<Rightarrow> bool" where
  "sound_act a \<longleftrightarrow>
     (\<forall>t H R F ch s r s'. consistent s (H + R) \<longrightarrow> (\<forall>f \<in> F. fact_holds t s f) \<longrightarrow> allowed t a H F \<longrightarrow>
        exec t a ch s = Some (r, s') \<longrightarrow> sound t a H R F r s s')"

lemma sound_actI:
  "(\<And>t H R F ch s r s'. consistent s (H + R) \<Longrightarrow> \<forall>f \<in> F. fact_holds t s f \<Longrightarrow> allowed t a H F \<Longrightarrow>
      exec t a ch s = Some (r, s') \<Longrightarrow> sound t a H R F r s s') \<Longrightarrow> sound_act a"
  unfolding sound_act_def by blast

lemma in_hand:
  "consistent s (H + R) \<Longrightarrow> allowed t a H F \<Longrightarrow> x \<in># needs t a \<Longrightarrow> 0 < issue s x"
  using needs_in token_issued by fastforce

lemma needed: "allowed t a H F \<Longrightarrow> needs t a \<subseteq># H"
  by (simp add: allowed_def)

lemma sound_questions:
  "sound_act A_nested" "sound_act (A_guard i)" "sound_act A_clock" "sound_act A_checkpoint"
proof (rule_tac [!] sound_actI)
  fix t H R F ch s r s'
  assume base: "consistent s (H + R)" "\<forall>f \<in> F. fact_holds t s f"
  show "exec t A_nested ch s = Some (r, s') \<Longrightarrow> sound t A_nested H R F r s s'"
    by (rule sound_stillI [OF base]) (auto simp: takes_def split: if_splits)
  show "exec t (A_guard i) ch s = Some (r, s') \<Longrightarrow> sound t (A_guard i) H R F r s s'"
    using sound_still [OF base, of "A_guard i" r] by (auto simp: takes_def split: sum.splits)
  show "exec t A_clock ch s = Some (r, s') \<Longrightarrow> sound t A_clock H R F r s s'"
    using sound_still [OF base, of A_clock r] by (auto simp: takes_def)
  show "exec t A_checkpoint ch s = Some (r, s') \<Longrightarrow> sound t A_checkpoint H R F r s s'"
    using sound_still [OF base, of A_checkpoint r] by (auto simp: takes_def split: env_choice.splits)
qed

text \<open>The balance of an act that changes what the state has issued of one token.\<close>

lemma sound_permit: "sound_act (A_permit bounded)"
proof (rule sound_actI)
  fix t H R F ch s r s'
  assume base: "consistent s (H + R)" "\<forall>f \<in> F. fact_holds t s f" and ok: "allowed t (A_permit bounded) H F"
    and "exec t (A_permit bounded) ch s = Some (r, s')"
  then consider "r = R_bool False" "bounded" "s' = s" | "r = R_bool True" "0 < ss_permits s" "s' = s\<lparr>ss_permits := ss_permits s - 1\<rparr>"
    using exec_wait by fastforce
  then show "sound t (A_permit bounded) H R F r s s'"
  proof cases
    case 1
    then show ?thesis by (auto intro!: sound_still [OF base] simp: takes_def)
  next
    case 2
    from base(1) ok show ?thesis
    proof (rule sound_other [OF _ base(2) needed])
      show "issue s' x - int (count (handles_hold s') x) = issue s x - int (count (handles_hold s) x) +
          int (count (gives t (A_permit bounded) r) x) - int (count (takes t (A_permit bounded) r) x)" for x
        using 2 by (cases x) (auto simp: takes_def handles_hold_def of_nat_diff)
    qed (use 2 consistentD [OF base(1)] in auto)
  qed
qed

lemma sound_load_lock: "sound_act (A_load_lock k bounded)"
proof (rule sound_actI)
  fix t H R F ch s r s'
  assume base: "consistent s (H + R)" "\<forall>f \<in> F. fact_holds t s f" and ok: "allowed t (A_load_lock k bounded) H F"
    and "exec t (A_load_lock k bounded) ch s = Some (r, s')"
  then consider "r = R_bool False" "bounded" "s' = s"
    | "r = R_bool True" "\<not> ss_load_locks s k" "s' = s\<lparr>ss_load_locks := (ss_load_locks s)(k := True)\<rparr>"
    using exec_wait by fastforce
  then show "sound t (A_load_lock k bounded) H R F r s s'"
  proof cases
    case 1
    then show ?thesis by (auto intro!: sound_still [OF base] simp: takes_def)
  next
    case 2
    from base(1) ok show ?thesis
    proof (rule sound_other [OF _ base(2) needed])
      show "issue s' x - int (count (handles_hold s') x) = issue s x - int (count (handles_hold s) x) +
          int (count (gives t (A_load_lock k bounded) r) x) - int (count (takes t (A_load_lock k bounded) r) x)" for x
        using 2 by (cases x) (auto simp: takes_def handles_hold_def)
    qed (use 2 consistentD [OF base(1)] in auto)
  qed
qed

lemma sound_exec_lock: "sound_act (A_exec_lock k e bounded)"
proof (rule sound_actI)
  fix t H R F ch s r s'
  assume base: "consistent s (H + R)" "\<forall>f \<in> F. fact_holds t s f" and ok: "allowed t (A_exec_lock k e bounded) H F"
    and "exec t (A_exec_lock k e bounded) ch s = Some (r, s')"
  then consider "r = R_bool False" "bounded" "s' = s"
    | "r = R_bool True" "\<not> ss_exec_locks s e" "s' = s\<lparr>ss_exec_locks := (ss_exec_locks s)(e := True)\<rparr>"
    using exec_wait by fastforce
  then show "sound t (A_exec_lock k e bounded) H R F r s s'"
  proof cases
    case 1
    then show ?thesis by (auto intro!: sound_still [OF base] simp: takes_def)
  next
    case 2
    from base(1) ok show ?thesis
    proof (rule sound_other [OF _ base(2) needed])
      show "issue s' x - int (count (handles_hold s') x) = issue s x - int (count (handles_hold s) x) +
          int (count (gives t (A_exec_lock k e bounded) r) x) - int (count (takes t (A_exec_lock k e bounded) r) x)" for x
        using 2 by (cases x) (auto simp: takes_def handles_hold_def)
    qed (use 2 consistentD [OF base(1)] in auto)
  qed
qed

lemma sound_credit: "sound_act A_credit"
proof (rule sound_actI)
  fix t H R F ch s r s'
  assume base: "consistent s (H + R)" "\<forall>f \<in> F. fact_holds t s f" and ok: "allowed t A_credit H F"
    and run: "exec t A_credit ch s = Some (r, s')"
  from ok base(2) have free: "ss_held s t = 0" by (auto simp: allowed_def)
  from base(1) ok show "sound t A_credit H R F r s s'"
  proof (rule sound_other [OF _ base(2) needed])
    show "issue s' x - int (count (handles_hold s') x) = issue s x - int (count (handles_hold s) x) +
        int (count (gives t A_credit r) x) - int (count (takes t A_credit r) x)" for x
      using run by (cases x) (auto simp: takes_def handles_hold_def)
  qed (use run free consistentD [OF base(1)] in auto)
qed

lemma sound_releases:
  "sound_act (A_uncredit u)" "sound_act A_return_permit" "sound_act (A_load_unlock k)" "sound_act (A_exec_unlock e)"
proof (rule_tac [!] sound_actI)
  fix t H R F ch s r s'
  assume base: "consistent s (H + R)" "\<forall>f \<in> F. fact_holds t s f"
  note state = consistentD [OF base(1)]
  show "sound t (A_uncredit u) H R F r s s'"
    if ok: "allowed t (A_uncredit u) H F" and run: "exec t (A_uncredit u) ch s = Some (r, s')"
    using base(1) ok
  proof (rule sound_other [OF _ base(2) needed])
    show "issue s' x - int (count (handles_hold s') x) = issue s x - int (count (handles_hold s) x) +
        int (count (gives t (A_uncredit u) r) x) - int (count (takes t (A_uncredit u) r) x)" for x
      using run in_hand [OF base(1) ok, of "T_credit u"] by (cases x) (auto simp: takes_def handles_hold_def of_nat_diff)
  qed (use run state in \<open>auto intro: order_trans [OF diff_le_self]\<close>)
  show "sound t A_return_permit H R F r s s'"
    if ok: "allowed t A_return_permit H F" and run: "exec t A_return_permit ch s = Some (r, s')"
    using base(1) ok
  proof (rule sound_other [OF _ base(2) needed])
    show "issue s' x - int (count (handles_hold s') x) = issue s x - int (count (handles_hold s) x) +
        int (count (gives t A_return_permit r) x) - int (count (takes t A_return_permit r) x)" for x
      using run by (cases x) (auto simp: takes_def handles_hold_def)
  qed (use run state in_hand [OF base(1) ok, of T_permit] in auto)
  show "sound t (A_load_unlock k) H R F r s s'"
    if ok: "allowed t (A_load_unlock k) H F" and run: "exec t (A_load_unlock k) ch s = Some (r, s')"
    using base(1) ok
  proof (rule sound_other [OF _ base(2) needed])
    show "issue s' x - int (count (handles_hold s') x) = issue s x - int (count (handles_hold s) x) +
        int (count (gives t (A_load_unlock k) r) x) - int (count (takes t (A_load_unlock k) r) x)" for x
      using run in_hand [OF base(1) ok, of "T_load k"] by (cases x) (auto simp: takes_def handles_hold_def split: if_splits)
  qed (use run state in_hand [OF base(1) ok, of "T_load k"] in \<open>auto split: if_splits\<close>)
  show "sound t (A_exec_unlock e) H R F r s s'"
    if ok: "allowed t (A_exec_unlock e) H F" and run: "exec t (A_exec_unlock e) ch s = Some (r, s')"
    using base(1) ok
  proof (rule sound_other [OF _ base(2) needed])
    show "issue s' x - int (count (handles_hold s') x) = issue s x - int (count (handles_hold s) x) +
        int (count (gives t (A_exec_unlock e) r) x) - int (count (takes t (A_exec_unlock e) r) x)" for x
      using run in_hand [OF base(1) ok, of "T_exec e"] by (cases x) (auto simp: takes_def handles_hold_def split: if_splits)
  qed (use run state in_hand [OF base(1) ok, of "T_exec e"] in \<open>auto split: if_splits\<close>)
qed

lemma sound_runtimes: "sound_act (A_load k)" "sound_act (A_clean k x)"
proof (rule_tac [!] sound_actI)
  fix t H R F ch s r s'
  assume base: "consistent s (H + R)" "\<forall>f \<in> F. fact_holds t s f"
  note state = consistentD [OF base(1)]
  show "sound t (A_load k) H R F r s s'"
    if ok: "allowed t (A_load k) H F" and run: "exec t (A_load k) ch s = Some (r, s')"
    using base(1) ok
  proof (rule sound_other [OF _ base(2) needed])
    show "issue s' y - int (count (handles_hold s') y) = issue s y - int (count (handles_hold s) y) +
        int (count (gives t (A_load k) r) y) - int (count (takes t (A_load k) r) y)" for y
      using run by (cases y; cases ch) (auto simp: takes_def handles_hold_def)
  qed (use run state in \<open>auto split: env_choice.splits\<close>)
  show "sound t (A_clean k x) H R F r s s'"
    if ok: "allowed t (A_clean k x) H F" and run: "exec t (A_clean k x) ch s = Some (r, s')"
    using base(1) ok
  proof (rule sound_other [OF _ base(2) needed])
    show "issue s' y - int (count (handles_hold s') y) = issue s y - int (count (handles_hold s) y) +
        int (count (gives t (A_clean k x) r) y) - int (count (takes t (A_clean k x) r) y)" for y
      using run by (cases y) (auto simp: takes_def handles_hold_def)
  qed (use run state in auto)
qed

section \<open>Acts on the cache\<close>

lemma entry_unique:
  "cache_ok c \<Longrightarrow> (k, e) \<in> set (rc_entries c) \<Longrightarrow> (j, f) \<in> set (rc_entries c) \<Longrightarrow> en_ref f = en_ref e \<Longrightarrow> j = k \<and> f = e"
  by (auto simp: cache_ok_def distinct_map dest: inj_onD [of _ _ "(j, f)" "(k, e)"])

lemma sound_reserve: "sound_act (A_reserve k media)"
proof (rule sound_actI)
  fix t H R F ch s r s'
  assume base: "consistent s (H + R)" "\<forall>f \<in> F. fact_holds t s f" and ok: "allowed t (A_reserve k media) H F"
    and "exec t (A_reserve k media) ch s = Some (r, s')"
  then obtain x c where run: "cache_reserve k media (ss_cache s) = (x, c)" "r = as_res R_reservation x" "s' = s\<lparr>ss_cache := c\<rparr>"
    using on_cache_Some by fastforce
  note c = consistentD(1) [OF base(1)]
  from moves_reserve [OF c run(1)] consider v where "x = Inr v" "reservation_state v" "moves (ss_cache s) {#} (reservation_tokens k v) c"
    | "c = ss_cache s" "x = Inl Rt_busy"
    | e where "c = ss_cache s" "x = Inl (Rt_draining (en_ref e))" "(k, e) \<in> set (rc_entries (ss_cache s))"
        "en_state e = Rt_invalid" "0 < en_lease_count e" by blast
  then show "sound t (A_reserve k media) H R F r s s'"
  proof cases
    case 1
    with run show ?thesis
      by (auto intro!: sound_cache [OF base] simp: takes_def as_res_def)
  next
    case 2
    with run show ?thesis by (auto intro!: sound_still [OF base] simp: takes_def as_res_def)
  next
    case (3 e)
    note unique = entry_unique [OF c 3(3)]
    from 3(3) c have "en_ref e < rc_next_ref (ss_cache s)" by (auto simp: cache_ok_def)
    with 3(4) unique have "spoiled k (en_ref e) (ss_cache s)" unfolding spoiled_def by blast
    moreover have "F_drained (en_ref e) \<notin> F"
    proof
      assume "F_drained (en_ref e) \<in> F"
      with base(2) have "drained (en_ref e) (ss_cache s)" by (metis fact_holds.simps(3))
      with 3 show False by (auto simp: drained_def)
    qed
    ultimately show ?thesis
      using run 3 by (auto intro!: sound_still [OF base] simp: takes_def as_res_def)
  qed
qed

lemma sound_reserve_again: "sound_act (A_reserve_again k media)"
proof (rule sound_actI)
  fix t H R F ch s r s'
  assume base: "consistent s (H + R)" "\<forall>f \<in> F. fact_holds t s f" and ok: "allowed t (A_reserve_again k media) H F"
    and "exec t (A_reserve_again k media) ch s = Some (r, s')"
  then obtain x c where run: "cache_reserve_again k media (ss_cache s) = (x, c)" "r = as_res R_reservation x" "s' = s\<lparr>ss_cache := c\<rparr>"
    using on_cache_Some by fastforce
  from moves_reserve_again [OF consistentD(1) [OF base(1)] run(1)] show "sound t (A_reserve_again k media) H R F r s s'"
  proof
    assume "\<exists>e. x = Inr (Reserved e) \<and> en_state e = Rt_loading \<and> moves (ss_cache s) {#} {#T_reserved k (en_ref e)#} c"
    with run show ?thesis by (auto intro!: sound_cache [OF base] simp: takes_def as_res_def)
  next
    assume "c = ss_cache s \<and> x = Inl Rt_busy"
    with run show ?thesis by (auto intro!: sound_still [OF base] simp: takes_def as_res_def)
  qed
qed

lemma sound_slots: "sound_act (A_publish k e x)" "sound_act (A_abort k e)" "sound_act (A_remove k e)"
proof (rule_tac [!] sound_actI)
  fix t H R F ch s r s'
  assume base: "consistent s (H + R)" "\<forall>f \<in> F. fact_holds t s f"
  note c = consistentD(1) [OF base(1)]
  show "sound t (A_publish k e x) H R F r s s'"
    if ok: "allowed t (A_publish k e x) H F" and run: "exec t (A_publish k e x) ch s = Some (r, s')"
  proof -
    from run obtain y c' where y: "cache_publish k e x (ss_cache s) = (y, c')" "r = as_res (\<lambda>_. R_unit) y" "s' = s\<lparr>ss_cache := c'\<rparr>"
      using on_cache_Some by fastforce
    have "0 < cache_issue (ss_cache s) (T_reserved k e)" using in_hand [OF base(1) ok, of "T_reserved k e"] by simp
    from moves_publish [OF c this y(1)] y needed [OF ok] show ?thesis
      by (auto intro!: sound_cache [OF base] simp: takes_def as_res_def)
  qed
  show "sound t (A_abort k e) H R F r s s'"
    if ok: "allowed t (A_abort k e) H F" and run: "exec t (A_abort k e) ch s = Some (r, s')"
    using run needed [OF ok] moves_abort [OF c] in_hand [OF base(1) ok, of "T_reserved k e"]
    by (auto intro!: sound_cache [OF base] simp: takes_def)
  show "sound t (A_remove k e) H R F r s s'"
    if ok: "allowed t (A_remove k e) H F" and run: "exec t (A_remove k e) ch s = Some (r, s')"
    using run needed [OF ok] moves_remove [OF c] in_hand [OF base(1) ok, of "T_retiring k e"]
    by (auto intro!: sound_cache [OF base] simp: takes_def)
qed

lemma sound_release_lease: "sound_act (A_release_lease k e)"
proof (rule sound_actI)
  fix t H R F ch s r s'
  assume base: "consistent s (H + R)" "\<forall>f \<in> F. fact_holds t s f" and ok: "allowed t (A_release_lease k e) H F"
    and "exec t (A_release_lease k e) ch s = Some (r, s')"
  then obtain vs c where run: "cache_release_lease k e (ss_cache s) = (vs, c)" "r = R_victims vs" "s' = s\<lparr>ss_cache := c\<rparr>"
    using on_cache_Some by fastforce
  have "0 < cache_issue (ss_cache s) (T_lease k e)" using in_hand [OF base(1) ok, of "T_lease k e"] by simp
  from moves_release_lease [OF consistentD(1) [OF base(1)] this run(1)] run needed [OF ok]
  show "sound t (A_release_lease k e) H R F r s s'" by (auto intro!: sound_cache [OF base] simp: takes_def)
qed

lemma sound_check_ready: "sound_act (A_check_ready k e)"
proof (rule sound_actI)
  fix t H R F ch s r s'
  assume base: "consistent s (H + R)" "\<forall>f \<in> F. fact_holds t s f" and ok: "allowed t (A_check_ready k e) H F"
    and run: "exec t (A_check_ready k e) ch s = Some (r, s')"
  note c = consistentD(1) [OF base(1)]
  have "0 < cache_issue (ss_cache s) (T_lease k e)" using in_hand [OF base(1) ok, of "T_lease k e"] by simp
  from issued_lease [OF c this] obtain x where x: "entry_at k (ss_cache s) = Some x" "en_ref x = e" "en_state x \<in> {Rt_ready, Rt_invalid}"
    by blast
  then have mem: "(k, x) \<in> set (rc_entries (ss_cache s))" by (auto simp: entry_at_def dest: map_of_SomeD)
  note unique = entry_unique [OF c mem]
  have "spoiled k e (ss_cache s)" if "\<not> is_current_and_ready k e (ss_cache s)"
  proof -
    from that x have "en_state x = Rt_invalid" by (auto simp: is_current_and_ready_def)
    moreover from mem c x(2) have "e < rc_next_ref (ss_cache s)" by (auto simp: cache_ok_def)
    moreover have "j = k \<and> f = x" if "(j, f) \<in> set (rc_entries (ss_cache s))" "en_ref f = e" for j f
      using unique [OF that(1)] that(2) x(2) by simp
    ultimately show ?thesis unfolding spoiled_def by blast
  qed
  with run show "sound t (A_check_ready k e) H R F r s s'"
    by (intro sound_stillI [OF base run]) (auto simp: takes_def split: if_splits)
qed

lemma sound_wait_drain: "sound_act (A_wait_drain k e bounded)"
proof (rule sound_actI)
  fix t H R F ch s r s'
  assume base: "consistent s (H + R)" "\<forall>f \<in> F. fact_holds t s f" and ok: "allowed t (A_wait_drain k e bounded) H F"
    and run: "exec t (A_wait_drain k e bounded) ch s = Some (r, s')"
  have "drained e (ss_cache s)" if "\<not> still_blocks k e (ss_cache s)" "F_spoiled k e \<in> F"
  proof -
    from base(2) that(2) have sp: "spoiled k e (ss_cache s)" by (metis fact_holds.simps(2))
    have "en_state x = Rt_invalid \<and> en_lease_count x = 0" if "(j, x) \<in> set (rc_entries (ss_cache s))" "en_ref x = e" for j x
    proof -
      from that sp have jx: "j = k" "en_state x \<in> {Rt_invalid, Rt_retiring}" by (auto simp: spoiled_def)
      with that(1) consistentD(1) [OF base(1)] have "entry_at k (ss_cache s) = Some x"
        by (simp add: entry_at_def cache_ok_def)
      with jx that(2) \<open>\<not> still_blocks k e (ss_cache s)\<close> show ?thesis by (auto simp: still_blocks_def is_pinned_def)
    qed
    with sp show ?thesis by (auto simp: drained_def spoiled_def)
  qed
  note drained = this
  show "sound t (A_wait_drain k e bounded) H R F r s s'"
  proof (cases "t \<in> set (rc_waiters (ss_cache s))")
    case True
    with run have b: "bounded" "r = R_bool (\<not> still_blocks k e (ss_cache s))" "s' = s\<lparr>ss_cache := cache_unpark t (ss_cache s)\<rparr>"
      by (auto split: if_splits)
    have "drained e (cache_unpark t c) = drained e c" for c by (simp add: drained_def cache_unpark_def)
    with drained b(1,2) moves_refl [OF consistentD(1) [OF base(1)]] show ?thesis unfolding b(3)
      by (intro sound_cache [OF base]) (auto simp: takes_def split: if_splits)
  next
    case False
    with run drained show ?thesis by (intro sound_stillI [OF base run]) (auto simp: takes_def split: if_splits)
  qed
qed

lemma sound_get: "sound_act (A_get k)"
proof (rule sound_actI)
  fix t H R F ch s r s'
  assume base: "consistent s (H + R)" "\<forall>f \<in> F. fact_holds t s f" and ok: "allowed t (A_get k) H F"
    and "exec t (A_get k) ch s = Some (r, s')"
  then obtain x c where run: "cache_get k (ss_cache s) = (x, c)" "r = R_runtime x" "s' = s\<lparr>ss_cache := c\<rparr>"
    using on_cache_Some by fastforce
  from moves_get [OF consistentD(1) [OF base(1)], of k] run show "sound t (A_get k) H R F r s s'"
    by (auto intro!: sound_cache [OF base] simp: takes_def)
qed

lemma sound_put: "sound_act (A_put k x media)"
proof (rule sound_actI)
  fix t H R F ch s r s'
  assume base: "consistent s (H + R)" "\<forall>f \<in> F. fact_holds t s f" and ok: "allowed t (A_put k x media) H F"
    and "exec t (A_put k x media) ch s = Some (r, s')"
  then obtain y c where run: "cache_put k x media (ss_cache s) = (y, c)" "s' = s\<lparr>ss_cache := c\<rparr>"
    "r = as_res (\<lambda>(replaced, victims). R_put replaced victims) y"
    using on_cache_Some by fastforce
  have "T_runtime x \<in># H + R" using needs_in [OF ok, of "T_runtime x"] by simp
  from runtime_in_hand [OF base(1) this] have "cache_issue (ss_cache s) (T_runtime x) = 0" by simp
  from moves_put [OF consistentD(1) [OF base(1)] this run(1)] show "sound t (A_put k x media) H R F r s s'"
  proof
    assume "y = Inl Rt_busy \<and> c = ss_cache s"
    with run show ?thesis by (auto intro!: sound_still [OF base] simp: takes_def as_res_def)
  next
    assume "\<exists>replaced vs. y = Inr (replaced, vs) \<and>
      moves (ss_cache s) {#T_runtime x#} (runtime_token (map_option snd replaced) + victim_tokens vs) c"
    with run needed [OF ok] show ?thesis by (auto intro!: sound_cache [OF base] simp: takes_def as_res_def)
  qed
qed

lemma sound_unload: "sound_act (A_unload k)"
proof (rule sound_actI)
  fix t H R F ch s r s'
  assume base: "consistent s (H + R)" "\<forall>f \<in> F. fact_holds t s f" and ok: "allowed t (A_unload k) H F"
    and "exec t (A_unload k) ch s = Some (r, s')"
  then obtain y c where run: "cache_unload k (ss_cache s) = (y, c)" "r = as_res R_entry y" "s' = s\<lparr>ss_cache := c\<rparr>"
    using on_cache_Some by fastforce
  from moves_unload [OF consistentD(1) [OF base(1)] run(1)]
  consider "y = Inl Rt_busy \<or> y = Inr None" "c = ss_cache s"
    | e where "y = Inr (Some e)" "moves (ss_cache s) {#} (retire_tokens (k, e)) c" by blast
  then show "sound t (A_unload k) H R F r s s'"
  proof cases
    case 1
    with run show ?thesis by (auto intro!: sound_still [OF base] simp: takes_def as_res_def)
  next
    case 2
    with run show ?thesis by (auto intro!: sound_cache [OF base] simp: takes_def as_res_def)
  qed
qed

lemma sound_unload_all: "sound_act A_unload_all"
proof (rule sound_actI)
  fix t H R F ch s r s'
  assume base: "consistent s (H + R)" "\<forall>f \<in> F. fact_holds t s f" and ok: "allowed t A_unload_all H F"
    and "exec t A_unload_all ch s = Some (r, s')"
  then obtain y c where run: "cache_unload_all (ss_cache s) = (y, c)" "r = as_res R_victims y" "s' = s\<lparr>ss_cache := c\<rparr>"
    using on_cache_Some by fastforce
  from moves_unload_all [OF consistentD(1) [OF base(1)] run(1)]
  consider "y = Inl Rt_busy" "c = ss_cache s" | vs where "y = Inr vs" "moves (ss_cache s) {#} (victim_tokens vs) c" by blast
  then show "sound t A_unload_all H R F r s s'"
  proof cases
    case 1
    with run show ?thesis by (auto intro!: sound_still [OF base] simp: takes_def as_res_def)
  next
    case 2
    with run show ?thesis by (auto intro!: sound_cache [OF base] simp: takes_def as_res_def)
  qed
qed

section \<open>Acts on handles\<close>

lemma sum_list_change:
  "h < length xs \<Longrightarrow> sum_list (xs[h := z]) + xs ! h = sum_list xs + (z :: 'a multiset)"
proof (induction xs arbitrary: h)
  case (Cons x xs)
  then show ?case by (cases h) (auto simp: ac_simps)
qed simp

lemma member_subset_sum_list: "x \<in> set xs \<Longrightarrow> x \<subseteq># (sum_list xs :: 'a multiset)"
  by (induction xs) (auto intro: subset_mset.add_increasing)

lemma handles_hold_set:
  assumes "handle_at h s = Some x"
  shows "handles_hold (set_handle h y s) = handles_hold s - handle_tokens x + handle_tokens y"
    and "handle_tokens x \<subseteq># handles_hold s"
proof -
  from assms have h: "h < length (ss_handles s)" "ss_handles s ! h = x" by (auto simp: handle_at_def split: if_splits)
  then have "handles_hold (set_handle h y s) + handle_tokens x = handles_hold s + handle_tokens y"
    using sum_list_change [of h "map handle_tokens (ss_handles s)" "handle_tokens y"]
    by (simp add: handles_hold_def set_handle_def map_update)
  moreover show "handle_tokens x \<subseteq># handles_hold s"
    using h by (auto simp: handles_hold_def intro!: member_subset_sum_list)
  ultimately show "handles_hold (set_handle h y s) = handles_hold s - handle_tokens x + handle_tokens y"
    by (metis add.commute add_diff_cancel_right' subset_mset.add_diff_assoc2)
qed

lemma handle_at_in: "handle_at h s = Some x \<Longrightarrow> x \<in> set (ss_handles s)"
  by (auto simp: handle_at_def split: if_splits)

text \<open>A handle that keeps its entry and runtime; what it no longer holds goes to the thread.\<close>

lemma sound_set_handle:
  assumes base: "consistent s (H + R)" "\<forall>f \<in> F. fact_holds t s f" and at: "handle_at h s = Some x"
    and same: "hd_entry y = hd_entry x" "hd_runtime y = hd_runtime x"
    and tokens: "handle_tokens y + gives t a r = handle_tokens x" and "needs t a = {#}" "possible a F r" "learns a r F = F"
  shows "sound t a H R F r s (set_handle h y s)"
  using base
proof (rule sound_other)
  show "issue (set_handle h y s) z - int (count (handles_hold (set_handle h y s)) z) =
      issue s z - int (count (handles_hold s) z) + int (count (gives t a r) z) - int (count (takes t a r) z)" for z
  proof -
    have "count (handle_tokens x) z \<le> count (handles_hold s) z" using handles_hold_set(2) [OF at] by (rule mset_subset_eq_count)
    moreover have "count (handle_tokens y) z + count (gives t a r) z = count (handle_tokens x) z"
      by (metis tokens count_union)
    moreover have "issue (set_handle h y s) z = issue s z" by (cases z) (simp_all add: set_handle_def)
    moreover have "takes t a r = {#}" by (simp add: takes_def assms(7))
    ultimately show ?thesis by (simp add: handles_hold_set(1) [OF at] of_nat_diff)
  qed
  have "handle_ok (ss_cache s) y"
    using consistentD(4) [OF base(1)] handle_at_in [OF at] same by (auto simp: handle_ok_def)
  then show "\<forall>z \<in> set (ss_handles (set_handle h y s)). handle_ok (ss_cache s) z"
    using consistentD(4) [OF base(1)] by (auto simp: set_handle_def dest!: set_update_subset_insert [THEN subsetD])
qed (use consistentD [OF base(1)] assms in \<open>auto simp: set_handle_def\<close>)

lemma sound_enter: "sound_act (A_enter h)"
proof (rule sound_actI)
  fix t H R F ch s r s'
  assume base: "consistent s (H + R)" "\<forall>f \<in> F. fact_holds t s f" and run: "exec t (A_enter h) ch s = Some (r, s')"
  show "sound t (A_enter h) H R F r s s'"
  proof (cases "r = R_unit \<and> (\<exists>x. handle_at h s = Some x)")
    case True
    with run obtain x where x: "handle_at h s = Some x" "s' = set_handle h (x\<lparr>hd_entered := True\<rparr>) s"
      by (auto simp: enter_handle_def split: if_splits)
    show ?thesis unfolding x(2)
      by (rule sound_set_handle [OF base x(1)]) (use True in \<open>auto simp: handle_tokens_def\<close>)
  next
    case False
    with run have "s' = s" "possible (A_enter h) F r" by (auto simp: enter_handle_def split: option.splits if_splits)
    then show ?thesis by (intro sound_stillI [OF base run]) (auto simp: takes_def)
  qed
qed

lemma moves_invalidate:
  "cache_ok (ss_cache s) \<Longrightarrow> \<exists>c. invalidate_handle h s = s\<lparr>ss_cache := c\<rparr> \<and> moves (ss_cache s) {#} {#} c"
  by (cases "handle_at h s") (auto simp: invalidate_handle_def intro: moves_mark_invalid moves_refl exI [of _ "ss_cache s"])

lemma sound_invalidate: "sound_act (A_invalidate h)"
proof (rule sound_actI)
  fix t H R F ch s r s'
  assume base: "consistent s (H + R)" "\<forall>f \<in> F. fact_holds t s f" and run: "exec t (A_invalidate h) ch s = Some (r, s')"
  from moves_invalidate [OF consistentD(1) [OF base(1)]] obtain c
    where "invalidate_handle h s = s\<lparr>ss_cache := c\<rparr>" "moves (ss_cache s) {#} {#} c" by blast
  with run have r: "r = R_unit" and s': "s' = s\<lparr>ss_cache := c\<rparr>" by simp_all
  show "sound t (A_invalidate h) H R F r s s'" unfolding s'
    by (rule sound_cache [OF base]) (use r \<open>moves (ss_cache s) {#} {#} c\<close> in \<open>auto simp: takes_def\<close>)
qed

lemma sound_begin_release: "sound_act (A_begin_release h had_exception)"
proof (rule sound_actI)
  fix t H R F ch s r s'
  assume base: "consistent s (H + R)" "\<forall>f \<in> F. fact_holds t s f"
    and run: "exec t (A_begin_release h had_exception) ch s = Some (r, s')"
  show "sound t (A_begin_release h had_exception) H R F r s s'"
  proof (cases "\<exists>x. handle_at h s = Some x \<and> \<not> hd_released x")
    case False
    with run have "s' = s" "r = R_teardown None" by (auto simp: begin_release_def split: option.splits)
    then show ?thesis by (intro sound_stillI [OF base run]) (auto simp: takes_def)
  next
    case True
    then obtain x where x: "handle_at h s = Some x" "\<not> hd_released x" by blast
    define y where "y = (if had_exception then x\<lparr>hd_pending_invalidation := True\<rparr> else x)"
    have y: "hd_entry y = hd_entry x" "hd_runtime y = hd_runtime x" "hd_owner y = hd_owner x"
      "hd_canonical_id y = hd_canonical_id x" "hd_released y = hd_released x" by (simp_all add: y_def)
    from run x consider "r = R_teardown None" "s' = set_handle h (y\<lparr>hd_pending_release := True\<rparr>) s"
      | "r = R_teardown (Some x)" "s' = set_handle h (y\<lparr>hd_released := True\<rparr>) s"
      by (auto simp: begin_release_def y_def Let_def split: if_splits)
    then show ?thesis
      by cases (auto intro!: sound_set_handle [OF base x(1)] simp: y handle_tokens_def x(2))
  qed
qed

lemma system_evolves_trans: "system_evolves t s s' \<Longrightarrow> system_evolves t s' s'' \<Longrightarrow> system_evolves t s s''"
  by (auto simp: system_evolves_def intro: cache_evolves_trans order_trans)

lemma sound_begin_exit: "sound_act (A_begin_exit h had_exception)"
proof (rule sound_actI)
  fix t H R F ch s r s'
  assume base: "consistent s (H + R)" "\<forall>f \<in> F. fact_holds t s f"
    and run: "exec t (A_begin_exit h had_exception) ch s = Some (r, s')"
  show "sound t (A_begin_exit h had_exception) H R F r s s'"
  proof (cases "\<exists>x. handle_at h s = Some x \<and> \<not> hd_released x")
    case False
    with run have "s' = s" "r = R_teardown None" by (auto simp: begin_exit_def split: option.splits)
    then show ?thesis by (intro sound_stillI [OF base run]) (auto simp: takes_def)
  next
    case True
    then obtain x where x: "handle_at h s = Some x" "\<not> hd_released x" by blast
    let ?s = "set_handle h (x\<lparr>hd_released := True\<rparr>) s"
    from run x have r: "r = R_teardown (Some x)" and s': "s' = ?s \<or> s' = invalidate_handle h ?s"
      by (auto simp: begin_exit_def Let_def split: if_splits)
    have first: "sound t (A_begin_exit h had_exception) H R F r s ?s"
      by (rule sound_set_handle [OF base x(1)]) (auto simp: handle_tokens_def x(2) r)
    then have mid: "consistent ?s ((H + handle_tokens x) + R)" "\<forall>f \<in> F. fact_holds t ?s f"
      by (simp_all add: sound_def takes_def r)
    from moves_invalidate [OF consistentD(1) [OF mid(1)]] obtain c
      where c: "invalidate_handle h ?s = ?s\<lparr>ss_cache := c\<rparr>" "moves (ss_cache ?s) {#} {#} c" by blast
    have "sound t (A_invalidate h) (H + handle_tokens x) R F R_unit ?s (?s\<lparr>ss_cache := c\<rparr>)"
      by (rule sound_cache [OF mid]) (use c in \<open>auto simp: takes_def\<close>)
    with first have "sound t (A_begin_exit h had_exception) H R F r s (invalidate_handle h ?s)"
      by (auto simp: sound_def takes_def r c(1) intro: system_evolves_trans)
    with first s' show ?thesis by blast
  qed
qed

lemma sound_make_handle: "sound_act (A_make_handle k e)"
proof (rule sound_actI)
  fix t H R F ch s r s'
  assume base: "consistent s (H + R)" "\<forall>f \<in> F. fact_holds t s f" and ok: "allowed t (A_make_handle k e) H F"
    and run: "exec t (A_make_handle k e) ch s = Some (r, s')"
  note state = consistentD [OF base(1)]
  have "0 < cache_issue (ss_cache s) (T_lease k e)" using in_hand [OF base(1) ok, of "T_lease k e"] by simp
  from issued_lease [OF state(1) this] obtain x where x: "entry_at k (ss_cache s) = Some x" "en_ref x = e"
    "en_state x \<in> {Rt_ready, Rt_invalid}" by blast
  then have mem: "(k, x) \<in> set (rc_entries (ss_cache s))" by (auto simp: entry_at_def dest: map_of_SomeD)
  from run obtain y where y: "s' = s\<lparr>ss_handles := ss_handles s @ [y]\<rparr>" "r = R_handle (length (ss_handles s))"
    "hd_entry y = e" "hd_runtime y = en_runtime x" "\<not> hd_released y" "hd_owner y = t" "hd_canonical_id y = k"
    by (auto simp: new_handle_def x(1))
  have "en_state f \<noteq> Rt_loading \<and> en_runtime f = en_runtime x" if "(j, f) \<in> set (rc_entries (ss_cache s))" "en_ref f = e" for j f
    using entry_unique [OF state(1) mem that(1)] that(2) x(2,3) by auto
  moreover from mem state(1) x(2) have "e < rc_next_ref (ss_cache s)" by (auto simp: cache_ok_def)
  ultimately have "handle_ok (ss_cache s) y" by (auto simp: handle_ok_def y)
  show "sound t (A_make_handle k e) H R F r s s'"
    using base needed [OF ok]
  proof (rule sound_other)
    show "issue s' z - int (count (handles_hold s') z) = issue s z - int (count (handles_hold s) z) +
        int (count (gives t (A_make_handle k e) r) z) - int (count (takes t (A_make_handle k e) r) z)" for z
    proof -
      have "handles_hold s' = handles_hold s + needs t (A_make_handle k e)" by (simp add: handles_hold_def handle_tokens_def y)
      moreover have "issue s' z = issue s z" by (cases z) (simp_all add: y)
      ultimately show ?thesis by (simp add: takes_def)
    qed
  qed (use y state \<open>handle_ok (ss_cache s) y\<close> in auto)
qed

section \<open>All acts\<close>

theorem exec_sound:
  assumes "consistent s (H + R)" and "\<forall>f \<in> F. fact_holds t s f" and "allowed t a H F"
    and "exec t a ch s = Some (r, s')"
  shows "sound t a H R F r s s'"
proof -
  have "sound_act a"
    by (cases a) (simp_all add: sound_questions sound_permit sound_load_lock sound_exec_lock sound_credit sound_releases
      sound_runtimes sound_reserve sound_reserve_again sound_slots sound_release_lease sound_check_ready sound_wait_drain
      sound_get sound_put sound_unload sound_unload_all sound_enter sound_invalidate sound_begin_release sound_begin_exit
      sound_make_handle)
  with assms show ?thesis by (simp add: sound_act_def)
qed

end
