(* ===== verification/Runtime_Obedience.thy ===== *)
theory Runtime_Obedience imports Runtime_Soundness begin

text \<open>
  Every program a thread may run follows the protocol: started with empty hands it ends with empty
  hands, on every path, and the wait for a drain never needs more than the rounds the model allows.
\<close>

section \<open>Programs, piece by piece\<close>

lemma obeys_done [simp]: "obeys t Q (done_with x) H F = Q (Inr x) H F"
  by (simp add: done_with_def)

lemma obeys_throw [simp]: "obeys t Q (throw e) H F = Q (Inl e) H F"
  by (simp add: throw_def)

lemma obeys_sum_case [simp]:
  "obeys t Q (case r of Inl e \<Rightarrow> f e | Inr x \<Rightarrow> g x) H F =
   (case r of Inl e \<Rightarrow> obeys t Q (f e) H F | Inr x \<Rightarrow> obeys t Q (g x) H F)"
  by (cases r) simp_all

lemma obeys_seq [simp]:
  "obeys t Q (seq m f) H F =
   obeys t (\<lambda>r H F. case r of Inl e \<Rightarrow> Q (Inl e) H F | Inr x \<Rightarrow> obeys t Q (f x) H F) m H F"
  by (simp add: seq_def cong: sum.case_cong)

lemma obeys_finally [simp]:
  "obeys t Q (with_cleanup m g) H F =
   obeys t (\<lambda>r H F. obeys t (\<lambda>q H F. case q of Inl e \<Rightarrow> Q (Inl e) H F | Inr _ \<Rightarrow> Q r H F) g H F) m H F"
  by (simp add: with_cleanup_def cong: sum.case_cong)

lemma obeys_on_error [simp]:
  "obeys t Q (on_error m g) H F =
   obeys t (\<lambda>r H F. case r of
       Inl e \<Rightarrow> obeys t (\<lambda>q H F. case q of Inl e' \<Rightarrow> Q (Inl e') H F | Inr _ \<Rightarrow> Q (Inl e) H F) g H F
     | Inr x \<Rightarrow> Q (Inr x) H F) m H F"
  by (simp add: on_error_def cong: sum.case_cong)

lemma obeys_perform [simp]:
  "obeys t Q (perform_act a) H F =
   (allowed t a H F \<and> (\<forall>r. possible a F r \<longrightarrow>
      obeys t Q (case r of R_unit \<Rightarrow> done_with () | R_error e \<Rightarrow> throw e | _ \<Rightarrow> unexpected)
        (H - takes t a r + gives t a r) (learns a r F)))"
  by (simp add: perform_act_def)

lemma obeys_ask [simp]:
  "obeys t Q (ask a) H F =
   (allowed t a H F \<and> (\<forall>r. possible a F r \<longrightarrow>
      obeys t Q (case r of R_bool b \<Rightarrow> done_with b | _ \<Rightarrow> unexpected)
        (H - takes t a r + gives t a r) (learns a r F)))"
  by (simp add: ask_def)

lemma obeys_clean:
  "Q (Inr ()) H F \<Longrightarrow> Q (Inl Rt_interrupt) H F \<Longrightarrow> obeys t Q (run_cleanup k x) (add_mset (T_runtime x) H) F"
  by (auto simp: run_cleanup_def allowed_def takes_def)

lemma obeys_remove: "Q (Inr ()) H F \<Longrightarrow> obeys t Q (perform_act (A_remove k r)) (add_mset (T_retiring k r) H) F"
  by (simp add: allowed_def takes_def)

lemma obeys_finish_retirement:
  assumes "Q (Inr ()) H F" and "Q (Inl Rt_interrupt) H F"
  shows "obeys t Q (finish_retirement k e) (retire_tokens (k, e) + H) F"
proof (cases "en_runtime e")
  case None
  with assms show ?thesis by (simp add: finish_retirement_def retire_tokens_def allowed_def takes_def)
next
  case (Some x)
  have "obeys t (\<lambda>r H F. obeys t (\<lambda>q H F. case q of Inl e \<Rightarrow> Q (Inl e) H F | Inr _ \<Rightarrow> Q r H F)
      (perform_act (A_remove k (en_ref e))) H F) (run_cleanup k x) (add_mset (T_runtime x) (add_mset (T_retiring k (en_ref e)) H)) F"
    using assms by (intro obeys_clean obeys_remove) simp_all
  with Some show ?thesis by (simp add: finish_retirement_def retire_tokens_def add_mset_commute)
qed

lemma obeys_finish_each:
  assumes "fe = None \<Longrightarrow> Q (Inr ()) H F" and "fe = None \<Longrightarrow> Q (Inl Rt_interrupt) H F" and "\<And>e. fe = Some e \<Longrightarrow> Q (Inl e) H F"
  shows "obeys t Q (finish_each vs fe) (victim_tokens vs + H) F"
  using assms
proof (induction vs arbitrary: fe)
  case Nil
  then show ?case by (cases fe) simp_all
next
  case (Cons p vs)
  obtain k e where p: "p = (k, e)" by (cases p)
  define later :: "rt_error + unit \<Rightarrow> rt_error option"
    where "later r = (case r of Inl x \<Rightarrow> Some (case fe of None \<Rightarrow> x | Some y \<Rightarrow> y) | Inr _ \<Rightarrow> fe)" for r
  have "obeys t Q (finish_each vs (later (Inr ()))) (victim_tokens vs + H) F"
    using Cons by (simp add: later_def)
  moreover have "obeys t Q (finish_each vs (later (Inl Rt_interrupt))) (victim_tokens vs + H) F"
    using Cons.prems by (intro Cons.IH) (auto simp: later_def split: option.splits)
  ultimately have "obeys t (\<lambda>r. obeys t Q (finish_each vs (later r)))
      (finish_retirement k e) (retire_tokens (k, e) + (victim_tokens vs + H)) F"
    by (intro obeys_finish_retirement)
  then show ?case by (simp add: p later_def ac_simps)
qed

lemma obeys_release_lease:
  assumes "Q (Inr ()) H F" and "Q (Inl Rt_interrupt) H F"
  shows "obeys t Q (release_lease k r) (add_mset (T_lease k r) H) F"
proof -
  have "obeys t Q (finish_each vs None) (H + victim_tokens vs) F" for vs
    using obeys_finish_each [of None Q H F t vs] assms by (simp add: add.commute)
  then show ?thesis by (auto simp: release_lease_def fetch_victims_def allowed_def takes_def)
qed

lemma obeys_acquire_or_reserve:
  assumes "\<And>e. en_state e = Rt_ready \<Longrightarrow> Q (Inr e) (add_mset (T_lease k (en_ref e)) H) F"
    and "\<And>e. en_state e = Rt_loading \<Longrightarrow> Q (Inr e) (add_mset (T_reserved k (en_ref e)) H) F"
    and "Q (Inl Rt_busy) H F" and "Q (Inl Rt_interrupt) H F"
    and "\<And>x. F_drained x \<notin> F \<Longrightarrow> Q (Inl (Rt_draining x)) H (insert (F_spoiled k x) F)"
  shows "obeys t Q (acquire_or_reserve k media) H F"
proof -
  have again: "obeys t (\<lambda>r H F. case r of Inl e \<Rightarrow> Q (Inl e) H F
      | Inr v \<Rightarrow> obeys t Q (case v of Reserved e \<Rightarrow> done_with e | _ \<Rightarrow> unexpected) H F) (fetch_reservation (A_reserve_again k media)) H F"
    using assms(2,3) by (auto simp: fetch_reservation_def allowed_def takes_def)
  have evict: "obeys t (\<lambda>r H F. case r of Inl e \<Rightarrow> Q (Inl e) H F
      | Inr _ \<Rightarrow> obeys t (\<lambda>r H F. case r of Inl e \<Rightarrow> Q (Inl e) H F
          | Inr v \<Rightarrow> obeys t Q (case v of Reserved e \<Rightarrow> done_with e | _ \<Rightarrow> unexpected) H F)
          (fetch_reservation (A_reserve_again k media)) H F) (finish_retirement j e) (H + retire_tokens (j, e)) F" for j e
    using obeys_finish_retirement [of _ H F t j e] again assms(4) by (simp add: add.commute)
  have "obeys t Q (case v of Pinned e \<Rightarrow> done_with e | Reserved e \<Rightarrow> done_with e
      | Evict victim_id victim \<Rightarrow> seq (finish_retirement victim_id victim) (\<lambda>_.
          seq (fetch_reservation (A_reserve_again k media)) (\<lambda>again. case again of Reserved e \<Rightarrow> done_with e | _ \<Rightarrow> unexpected)))
      (H + reservation_tokens k v) F" if "reservation_state v" for v
    using that assms(1,2) evict by (cases v) (simp_all cong: sum.case_cong)
  with assms(3,5) show ?thesis
    by (auto simp: acquire_or_reserve_def fetch_reservation_def [of "A_reserve k media"] allowed_def takes_def)
qed

lemma obeys_load_reserved:
  assumes "Q (Inr e) (add_mset (T_lease k (en_ref e)) H) F" and "\<And>msg. Q (Inl (Rt_raised msg)) H F" and "Q (Inl Rt_interrupt) H F"
  shows "obeys t Q (load_reserved k e) (add_mset (T_reserved k (en_ref e)) H) F"
  using assms by (auto simp: load_reserved_def fetch_runtime_def allowed_def takes_def run_cleanup_def)

section \<open>One attempt\<close>

text \<open>The errors of one attempt, and what a caller that meets one has learnt.\<close>

definition attempt_error :: "string \<Rightarrow> fact set \<Rightarrow> fact set \<Rightarrow> rt_error \<Rightarrow> bool" where
  "attempt_error k F F' e \<longleftrightarrow>
     F \<subseteq> F' \<and>
     (e \<in> {Rt_busy, Rt_wait_timeout, Rt_interrupt} \<or> (\<exists>msg. e = Rt_raised msg) \<or>
      (\<exists>x. e = Rt_draining x \<and> F_drained x \<notin> F \<and> F_spoiled k x \<in> F') \<or>
      (\<exists>x. e = Rt_revalidation x \<and> F_spoiled k x \<in> F'))"

lemma calm_simps:
  "calm H \<Longrightarrow> T_load k \<notin># H" "calm H \<Longrightarrow> T_exec r \<notin># H" "calm {#}"
  by (auto simp: calm_def)

lemma calm_leased: "calm H \<Longrightarrow> x \<in># H \<Longrightarrow> leased_only x"
  by (auto simp: calm_def)

lemma obeys_acquire_or_load_entry:
  assumes "calm H" and "\<And>e F'. F \<subseteq> F' \<Longrightarrow> Q (Inr e) (add_mset (T_lease k (en_ref e)) H) F'"
    and "\<And>e F'. attempt_error k F F' e \<Longrightarrow> Q (Inl e) H F'"
  shows "obeys t Q (acquire_or_load_entry k media bounded) H F"
proof -
  let ?unlock = "\<lambda>r. obeys t (\<lambda>q H F. case q of Inl e \<Rightarrow> Q (Inl e) H F | Inr _ \<Rightarrow> Q r H F) (perform_act (A_load_unlock k))"
  have unlock: "?unlock r (add_mset (T_load k) X) F'" if "Q r X F'" for r X F'
    using that by (simp add: allowed_def takes_def)
  have failed: "?unlock (Inl e) (add_mset (T_load k) H) F'" if "attempt_error k F F' e" for e F'
    by (rule unlock) (rule assms(3) [OF that])
  have got: "?unlock (Inr e) (add_mset (T_lease k (en_ref e)) (add_mset (T_load k) H)) F" for e
    using unlock [OF assms(2), of F e] by (simp add: add_mset_commute)
  have "obeys t ?unlock (load_reserved k e) (add_mset (T_reserved k (en_ref e)) (add_mset (T_load k) H)) F" for e
    by (intro obeys_load_reserved got failed) (auto simp: attempt_error_def)
  then have body: "obeys t ?unlock (seq (acquire_or_reserve k media) (\<lambda>e. if en_state e = Rt_loading then load_reserved k e else done_with e))
      (add_mset (T_load k) H) F"
    unfolding obeys_seq
    by (intro obeys_acquire_or_reserve) (auto intro!: got [simplified] failed [simplified] simp: attempt_error_def)
  have "obeys t Q (with_cleanup (seq (acquire_or_reserve k media) (\<lambda>e. if en_state e = Rt_loading then load_reserved k e else done_with e))
      (perform_act (A_load_unlock k))) (add_mset (T_load k) H) F"
    unfolding obeys_finally by (rule body)
  moreover have "Q (Inl Rt_wait_timeout) H F" by (rule assms(3)) (simp add: attempt_error_def)
  ultimately show ?thesis
    using assms(1) by (auto simp: acquire_or_load_entry_def allowed_def takes_def simp del: obeys_finally)
qed

lemma obeys_acquire_execution_lock:
  assumes "calm H" and "Q (Inr ()) (add_mset (T_lease k r) (add_mset (T_exec r) H)) F"
    and "Q (Inl Rt_wait_timeout) (add_mset (T_lease k r) H) F"
    and "Q (Inl (Rt_revalidation r)) (add_mset (T_lease k r) H) (insert (F_spoiled k r) F)"
  shows "obeys t Q (acquire_execution_lock k r bounded) (add_mset (T_lease k r) H) F"
  using assms by (auto simp: acquire_execution_lock_def allowed_def takes_def dest: calm_leased)

lemma obeys_acquire_entry_and_execution_lock:
  assumes "calm H"
    and "\<And>e F'. F \<subseteq> F' \<Longrightarrow> Q (Inr e) (add_mset (T_lease k (en_ref e)) (add_mset (T_exec (en_ref e)) H)) F'"
    and "\<And>e F'. attempt_error k F F' e \<Longrightarrow> Q (Inl e) H F'"
  shows "obeys t Q (acquire_entry_and_execution_lock k media bounded) H F"
proof -
  have release: "obeys t (\<lambda>q H F. case q of Inl e' \<Rightarrow> Q (Inl e') H F | Inr _ \<Rightarrow> Q (Inl e) H F)
      (release_lease k r) (add_mset (T_lease k r) H) F'" if "attempt_error k F F' e" for e r F'
    using assms(3) [OF that] assms(3) [of F' Rt_interrupt] that
    by (intro obeys_release_lease) (auto simp: attempt_error_def)
  have "obeys t (\<lambda>r H F. case r of Inl e \<Rightarrow> Q (Inl e) H F | Inr _ \<Rightarrow> Q (Inr e) H F)
      (on_error (acquire_execution_lock k (en_ref e) bounded) (release_lease k (en_ref e))) (add_mset (T_lease k (en_ref e)) H) F'"
    if "F \<subseteq> F'" for e F'
  proof -
    have timeout: "attempt_error k F F' Rt_wait_timeout"
      and lost: "attempt_error k F (insert (F_spoiled k (en_ref e)) F') (Rt_revalidation (en_ref e))"
      using that by (auto simp: attempt_error_def)
    show ?thesis
      unfolding obeys_on_error
    proof (rule obeys_acquire_execution_lock [OF assms(1)], goal_cases)
      case 1
      from assms(2) [OF that] show ?case by simp
    next
      case 2
      from release [OF timeout] show ?case by (simp only: sum.case cong: sum.case_cong)
    next
      case 3
      from release [OF lost] show ?case by (simp only: sum.case cong: sum.case_cong)
    qed
  qed
  note lock = this
  show ?thesis
    unfolding acquire_entry_and_execution_lock_def obeys_seq [of _ _ "acquire_or_load_entry k media bounded"]
  proof (rule obeys_acquire_or_load_entry [OF assms(1)], goal_cases)
    case (1 e F')
    from lock [OF 1, of e] show ?case by (simp only: sum.case obeys_seq obeys_done)
  next
    case (2 e F')
    from assms(3) [OF 2] show ?case by simp
  qed
qed

section \<open>Waiting out a drain\<close>

definition plain_error :: "rt_error \<Rightarrow> bool" where
  "plain_error e \<longleftrightarrow> e \<in> {Rt_busy, Rt_wait_timeout, Rt_interrupt} \<or> (\<exists>msg. e = Rt_raised msg)"

lemma attempt_error_cases:
  assumes "attempt_error k F F' e"
  obtains "plain_error e" "F \<subseteq> F'"
    | x where "e = Rt_draining x" "F_drained x \<notin> F" "F_spoiled k x \<in> F'" "F \<subseteq> F'"
    | x where "e = Rt_revalidation x" "F_spoiled k x \<in> F'" "F \<subseteq> F'"
  using assms by (auto simp: attempt_error_def plain_error_def)

text \<open>Once the entry is drained it is never drained again: the loop does not come round.\<close>

lemma obeys_drained_round:
  assumes "calm H" and "F_drained x \<in> F"
    and "\<And>e F'. F \<subseteq> F' \<Longrightarrow> Q (Inr e) (add_mset (T_lease k (en_ref e)) (add_mset (T_exec (en_ref e)) H)) F'"
    and "\<And>e F'. F \<subseteq> F' \<Longrightarrow> plain_error e \<Longrightarrow> Q (Inl e) H F'"
  shows "obeys t Q (acquire_entry_after_revalidation_failure (Suc n) k media bounded x) H F"
proof -
  have busy: "plain_error Rt_busy" by (simp add: plain_error_def)
  show ?thesis
    unfolding acquire_entry_after_revalidation_failure.simps obeys_continue
  proof (rule obeys_acquire_entry_and_execution_lock [OF assms(1)], goal_cases)
    case (1 e F')
    with assms(3) show ?case by simp
  next
    case (2 e F')
    then show ?case
    proof (cases rule: attempt_error_cases)
      case 1
      then show ?thesis using assms(4) by (auto simp: plain_error_def)
    next
      case (2 y)
      with assms(2) have "y \<noteq> x" by auto
      with 2 assms(4) [OF _ busy] show ?thesis by simp
    next
      case (3 y)
      with assms(4) [OF _ busy] show ?thesis by simp
    qed
  qed
qed

lemma obeys_after_revalidation_failure:
  assumes "calm H" and "F_spoiled k x \<in> F"
    and "\<And>e F'. F \<subseteq> F' \<Longrightarrow> Q (Inr e) (add_mset (T_lease k (en_ref e)) (add_mset (T_exec (en_ref e)) H)) F'"
    and "\<And>e F'. F \<subseteq> F' \<Longrightarrow> plain_error e \<Longrightarrow> Q (Inl e) H F'"
  shows "obeys t Q (acquire_entry_after_revalidation_failure DRAIN_ROUNDS k media bounded x) H F"
proof -
  have errors: "plain_error Rt_busy" "plain_error Rt_wait_timeout" by (simp_all add: plain_error_def)
  have again: "obeys t Q (acquire_entry_after_revalidation_failure (Suc 0) k media bounded x) H (insert (F_drained x) F')"
    if "F \<subseteq> F'" for F'
    using that assms(3,4) by (intro obeys_drained_round [OF assms(1)]) auto
  show ?thesis
    unfolding DRAIN_ROUNDS_def numeral_2_eq_2 acquire_entry_after_revalidation_failure.simps(2) [of "Suc 0"] obeys_continue
  proof (rule obeys_acquire_entry_and_execution_lock [OF assms(1)], goal_cases)
    case (1 e F')
    with assms(3) show ?case by simp
  next
    case (2 e F')
    then show ?case
    proof (cases rule: attempt_error_cases)
      case 1
      then show ?thesis using assms(4) by (auto simp: plain_error_def)
    next
      case (2 y)
      from 2(4) assms(2) have known: "F_spoiled k x \<in> F'" by blast
      from 2 again [OF 2(4)] assms(1) assms(4) [OF 2(4) errors(1)] assms(4) [OF 2(4) errors(2)] show ?thesis
        by (auto simp: allowed_def takes_def known simp del: acquire_entry_after_revalidation_failure.simps)
    next
      case (3 y)
      with assms(4) [OF _ errors(1)] show ?thesis by simp
    qed
  qed
qed

section \<open>Slices\<close>

text \<open>The drain a call has armed is an entry it knows to be beyond use.\<close>

definition armed_ok :: "string \<Rightarrow> nat option \<Rightarrow> fact set \<Rightarrow> bool" where
  "armed_ok k drain F \<longleftrightarrow> (case drain of None \<Rightarrow> True | Some x \<Rightarrow> F_spoiled k x \<in> F)"

lemma armed_ok_mono: "armed_ok k drain F \<Longrightarrow> F \<subseteq> F' \<Longrightarrow> armed_ok k drain F'"
  by (auto simp: armed_ok_def split: option.splits)

lemma obeys_acquire_entry_with_execution_lock:
  assumes "calm H" and "armed_ok k drain F"
    and "\<And>e d F'. armed_ok k d F' \<Longrightarrow> Q (Inr (Inr e, d)) (add_mset (T_lease k (en_ref e)) (add_mset (T_exec (en_ref e)) H)) F'"
    and "\<And>e d F'. armed_ok k d F' \<Longrightarrow> plain_error e \<Longrightarrow> Q (Inr (Inl e, d)) H F'"
  shows "obeys t Q (acquire_entry_with_execution_lock k media bounded drain) H F"
proof -
  have resume: "obeys t Q (continue (acquire_entry_after_revalidation_failure DRAIN_ROUNDS k media bounded x) (\<lambda>q. done_with (q, Some x))) H F'"
    if "F_spoiled k x \<in> F'" for x F'
    unfolding obeys_continue
    by (rule obeys_after_revalidation_failure [OF assms(1) that])
      (use that in \<open>auto intro!: assms(3,4) simp: armed_ok_def\<close>)
  have plain: "obeys t Q (done_with (Inl e, drain)) H F'" if "F \<subseteq> F'" "plain_error e" for e F'
    using assms(4) [OF armed_ok_mono [OF assms(2) that(1)] that(2)] by simp
  have busy: "plain_error Rt_busy" by (simp add: plain_error_def)
  show ?thesis
    unfolding acquire_entry_with_execution_lock_def Let_def obeys_continue
  proof (rule obeys_acquire_entry_and_execution_lock [OF assms(1)], goal_cases)
    case (1 e F')
    with assms(3) [OF armed_ok_mono [OF assms(2)]] show ?case by simp
  next
    case (2 e F')
    then show ?case
    proof (cases rule: attempt_error_cases)
      case 1
      with plain [of F' e] show ?thesis by (auto simp: plain_error_def)
    next
      case (2 y)
      with resume [of y F'] plain [OF _ busy] show ?thesis by (simp del: obeys_continue)
    next
      case (3 y)
      with resume [of y F'] plain [OF _ busy] show ?thesis by (simp del: obeys_continue)
    qed
  qed
qed

lemma obeys_acquire_admission:
  assumes "\<And>msg. Q (Inl (Rt_runtime_error msg)) {#} F" and "Q (Inr False) {#} (insert F_unheld F)"
    and "Q (Inr True) {#T_permit, T_credit t#} (F - {F_unheld})"
  shows "obeys t Q (acquire_admission bounded) {#} F"
  using assms by (auto simp: acquire_admission_def allowed_def takes_def add_mset_commute)

lemma obeys_release_admission:
  "Q (Inr ()) H F \<Longrightarrow> obeys t Q (release_admission u) (add_mset T_permit (add_mset (T_credit u) H)) F"
  by (simp add: release_admission_def allowed_def takes_def)

lemma obeys_make_handle:
  assumes "\<And>h. Q (Inr h) {#} F"
  shows "obeys t Q (make_handle k r) {#T_lease k r, T_exec r, T_permit, T_credit t#} F"
proof -
  have "{#T_permit, T_credit t, T_lease k r, T_exec r#} = {#T_lease k r, T_exec r, T_permit, T_credit t#}"
    by (simp add: add_mset_commute)
  then show ?thesis using assms by (auto simp: make_handle_def allowed_def takes_def)
qed

lemma obeys_acquire_runtime_slice:
  assumes "armed_ok k drain F"
    and "\<And>e F'. e \<noteq> Rt_out_of_rounds \<Longrightarrow> Q (Inl e) {#} F'"
    and "\<And>h d F'. armed_ok k d F' \<Longrightarrow> Q (Inr (Inr h, d)) {#} F'"
    and "\<And>e d F'. armed_ok k d F' \<Longrightarrow> e \<noteq> Rt_out_of_rounds \<Longrightarrow> Q (Inr (Inl e, d)) {#} F'"
  shows "obeys t Q (acquire_runtime_slice t k media bounded drain) {#} F"
  unfolding acquire_runtime_slice_def obeys_seq [of _ _ "acquire_admission bounded"]
proof (rule obeys_acquire_admission, goal_cases)
  case (1 msg)
  show ?case by (simp add: assms(2))
next
  case 2
  have "armed_ok k drain (insert F_unheld F)" using assms(1) by (rule armed_ok_mono) blast
  then show ?case by (simp add: assms(4))
next
  case 3
  let ?H = "{#T_permit, T_credit t#}"
  have calm: "calm ?H" by (simp add: calm_def)
  have armed: "armed_ok k drain (F - {F_unheld})" using assms(1) by (auto simp: armed_ok_def split: option.splits)
  have failed: "obeys t Q (seq (release_admission t) (\<lambda>_. done_with (Inl e, d))) ?H F'"
    if "armed_ok k d F'" "e \<noteq> Rt_out_of_rounds" for e d F'
    unfolding obeys_seq by (rule obeys_release_admission) (simp add: assms(4) that)
  show ?case
    unfolding sum.case if_not_P if_P not_True_eq_False if_False obeys_seq [of _ _ "acquire_entry_with_execution_lock k media bounded drain"]
  proof (rule obeys_acquire_entry_with_execution_lock [OF calm armed], goal_cases)
    case (1 e d F')
    have "obeys t Q (seq (make_handle k (en_ref e)) (\<lambda>h. done_with (Inr h, d))) {#T_lease k (en_ref e), T_exec (en_ref e), T_permit, T_credit t#} F'"
      unfolding obeys_seq by (rule obeys_make_handle) (simp add: assms(3) 1)
    then show ?case by (simp only: sum.case prod.case)
  next
    case (2 e d F')
    have "(if e = Rt_wait_timeout then e else if is_busy_error e then Rt_busy else e) \<noteq> Rt_out_of_rounds"
      using 2(2) by (auto simp: plain_error_def)
    from failed [OF 2(1) this] show ?case by (simp only: sum.case prod.case)
  qed
qed

section \<open>Calls\<close>

text \<open>How every call ends: with empty hands, and never at the bound of the drain loop.\<close>

definition ended :: "rt_error + 'a \<Rightarrow> token multiset \<Rightarrow> fact set \<Rightarrow> bool" where
  "ended r H F \<longleftrightarrow> H = {#} \<and> r \<noteq> Inl Rt_out_of_rounds"

lemma ended_simps [simp]: "ended (Inr x) {#} F" "ended (Inl e) {#} F = (e \<noteq> Rt_out_of_rounds)"
  by (simp_all add: ended_def)

lemma obeys_cloud_guard:
  "(\<And>e. e \<noteq> Rt_out_of_rounds \<Longrightarrow> Q (Inl e) H F) \<Longrightarrow> Q (Inr ()) H F \<Longrightarrow> obeys t Q (cloud_guard m) H F"
  by (auto simp: cloud_guard_def allowed_def takes_def)

lemma obeys_with_manifest:
  "(\<And>e. e \<noteq> Rt_out_of_rounds \<Longrightarrow> Q (Inl e) H F) \<Longrightarrow> (\<And>m. obeys t Q (f m) H F) \<Longrightarrow>
   obeys t Q (with_manifest registry model_id media task f) H F"
  by (auto simp: with_manifest_def split: sum.splits)

lemma obeys_acquire_runtime: "obeys t ended (acquire_runtime registry t model_id media task bounded) {#} F"
proof -
  have "obeys t ended (seq (acquire_runtime_slice t k media' bounded None) (\<lambda>(r, _). Return r)) {#} F" for k media'
    unfolding obeys_seq by (rule obeys_acquire_runtime_slice) (auto simp: ended_def armed_ok_def)
  then have "obeys t ended (seq (cloud_guard m) (\<lambda>_. seq (acquire_runtime_slice t k media' bounded None) (\<lambda>(r, _). Return r))) {#} F" for k media' m
    unfolding obeys_seq [of _ _ "cloud_guard m"] by (intro obeys_cloud_guard) (simp_all add: ended_def del: obeys_seq)
  then show ?thesis
    unfolding acquire_runtime_def by (intro obeys_with_manifest) (simp_all add: ended_def del: obeys_seq)
qed

lemma obeys_acquire_runtime_slices:
  "armed_ok (mn_id m) drain F \<Longrightarrow> obeys t ended (acquire_runtime_slices n t m media bounded drain) {#} F"
proof (induction n arbitrary: drain F)
  case 0
  then show ?case by (simp add: ended_def)
next
  case (Suc n)
  have clock: "obeys t ended (seq (if bounded then ask A_clock else done_with False) (\<lambda>expired.
      if expired then throw Rt_wait_timeout
      else seq (perform_act A_checkpoint) (\<lambda>_. acquire_runtime_slices n t m media bounded d))) {#} F'"
    if "armed_ok (mn_id m) d F'" for d F'
    using Suc.IH [OF that] by (auto simp: allowed_def takes_def)
  have "obeys t ended (seq (acquire_runtime_slice t (mn_id m) (Some (media_text media)) True drain) (\<lambda>(r, drain').
       case r of
         Inr h \<Rightarrow> done_with h
       | Inl e \<Rightarrow>
           if e \<noteq> Rt_wait_timeout then throw e
           else
             seq (if bounded then ask A_clock else done_with False) (\<lambda>expired.
               if expired then throw Rt_wait_timeout
               else
                 seq (perform_act A_checkpoint) (\<lambda>_.
                   acquire_runtime_slices n t m media bounded drain')))) {#} F"
    unfolding obeys_seq [of _ _ "acquire_runtime_slice t (mn_id m) (Some (media_text media)) True drain"]
    by (rule obeys_acquire_runtime_slice [OF Suc.prems])
      (use clock in \<open>simp_all add: ended_def del: obeys_seq\<close>)
  then show ?case
    unfolding acquire_runtime_slices.simps obeys_seq [of _ _ "cloud_guard m"]
    by (intro obeys_cloud_guard) (simp_all add: ended_def del: obeys_seq)
qed

lemma obeys_acquire_with_checkpoints:
  "obeys t ended (acquire_runtime_with_checkpoints registry n t model_id media task bounded) {#} F"
proof -
  have "obeys t ended (with_manifest registry model_id media task (\<lambda>m. acquire_runtime_slices n t m media bounded None)) {#} F"
    by (intro obeys_with_manifest obeys_acquire_runtime_slices) (simp_all add: ended_def armed_ok_def)
  then show ?thesis by (auto simp: acquire_runtime_with_checkpoints_def allowed_def takes_def ended_def)
qed

lemma obeys_teardown:
  assumes "\<And>r. r = Inr () \<or> r = Inl Rt_interrupt \<Longrightarrow> Q r H F" and "\<not> hd_released h"
  shows "obeys t Q (teardown h) (handle_tokens h + H) F"
proof -
  let ?k = "hd_canonical_id h" and ?r = "hd_entry h" and ?u = "hd_owner h"
  have "obeys t Q (with_cleanup (release_lease ?k ?r) (release_admission ?u)) (add_mset (T_lease ?k ?r) (add_mset T_permit (add_mset (T_credit ?u) H))) F"
    unfolding obeys_finally
    by (intro obeys_release_lease obeys_release_admission) (simp_all add: assms(1))
  then have "obeys t Q (with_cleanup (perform_act (A_exec_unlock ?r)) (with_cleanup (release_lease ?k ?r) (release_admission ?u)))
      (add_mset (T_exec ?r) (add_mset (T_lease ?k ?r) (add_mset T_permit (add_mset (T_credit ?u) H)))) F"
    unfolding obeys_finally [of _ _ "perform_act (A_exec_unlock ?r)"]
    by (auto simp: allowed_def takes_def simp del: obeys_finally elim: obeys_mono split: sum.splits)
  moreover have eq: "handle_tokens h + H = add_mset (T_exec ?r) (add_mset (T_lease ?k ?r) (add_mset T_permit (add_mset (T_credit ?u) H)))"
    using assms(2) by (simp add: handle_tokens_def add_mset_commute)
  ultimately show ?thesis unfolding teardown_def eq by blast
qed

lemma obeys_teardown_call:
  assumes "\<not> hd_released h"
  shows "obeys t ended (teardown h) (handle_tokens h) F"
  using obeys_teardown [of ended "{#}" F h t] assms by (auto simp: ended_def)

lemma obeys_handle_release: "obeys t ended (handle_release h had_exception) {#} F"
  by (auto simp: handle_release_def fetch_teardown_def allowed_def takes_def ended_def [symmetric] obeys_teardown_call
      split: option.splits)

lemma obeys_handle_exit: "obeys t ended (handle_exit h had_exception) {#} F"
  by (auto simp: handle_exit_def fetch_teardown_def allowed_def takes_def obeys_teardown_call split: option.splits)

lemma obeys_handle_enter: "obeys t ended (handle_enter h) {#} F"
  by (auto simp: handle_enter_def allowed_def takes_def)

lemma obeys_unload: "obeys t ended (unload k) {#} F"
proof -
  have "obeys t ended (finish_retirement k e) (retire_tokens (k, e)) F" for e
    using obeys_finish_retirement [of ended "{#}" F t k e] by simp
  then show ?thesis by (auto simp: unload_def allowed_def takes_def split: option.splits)
qed

lemma obeys_unload_all: "obeys t ended unload_all {#} F"
proof -
  have "obeys t ended (finish_each vs None) (victim_tokens vs) F" for vs
    using obeys_finish_each [of None ended "{#}" F t vs] by simp
  then show ?thesis by (auto simp: unload_all_def fetch_victims_def allowed_def takes_def)
qed

lemma obeys_runtime_put:
  assumes "Q (Inr ()) H F" and "Q (Inl Rt_interrupt) H F" and "Q (Inl Rt_busy) (add_mset (T_runtime x) H) F"
  shows "obeys t Q (runtime_put k x media) (add_mset (T_runtime x) H) F"
proof -
  have each: "obeys t Q (finish_each vs (case q of Inl e \<Rightarrow> Some e | Inr _ \<Rightarrow> None)) (victim_tokens vs + H) F"
    if "q = Inr () \<or> q = Inl Rt_interrupt" for q :: "rt_error + unit" and vs
    using that assms(1,2) by (intro obeys_finish_each) auto
  have "obeys t (\<lambda>q. obeys t Q (finish_each vs (case q of Inl e \<Rightarrow> Some e | Inr _ \<Rightarrow> None)))
      (case replaced of Some (j, y) \<Rightarrow> run_cleanup j y | None \<Rightarrow> done_with ())
      (H + (runtime_token (map_option snd replaced) + victim_tokens vs)) F" for replaced vs
  proof (cases replaced)
    case None
    with each [of "Inr ()" vs] show ?thesis by (simp add: add.commute)
  next
    case (Some p)
    obtain j y where p: "p = (j, y)" by (cases p)
    have "obeys t (\<lambda>q. obeys t Q (finish_each vs (case q of Inl e \<Rightarrow> Some e | Inr _ \<Rightarrow> None)))
        (run_cleanup j y) (add_mset (T_runtime y) (victim_tokens vs + H)) F"
      using each [of _ vs] by (intro obeys_clean) blast+
    with Some p show ?thesis by (simp add: ac_simps)
  qed
  with assms(3) show ?thesis by (auto simp: runtime_put_def allowed_def takes_def)
qed

lemma obeys_load_and_put:
  assumes "\<And>x. Q (Inr x) H F" and "\<And>e. e \<noteq> Rt_out_of_rounds \<Longrightarrow> Q (Inl e) H F"
  shows "obeys t Q (load_and_put k media) H F"
proof -
  have "obeys t (\<lambda>r. obeys t Q (case r of Inr _ \<Rightarrow> done_with x
      | Inl e \<Rightarrow> if is_busy_error e then seq (run_cleanup k x) (\<lambda>_. throw e) else throw e))
      (runtime_put k x media) (add_mset (T_runtime x) H) F" for x
  proof (rule obeys_runtime_put, goal_cases)
    case 3
    have "obeys t Q (seq (run_cleanup k x) (\<lambda>_. throw Rt_busy)) (add_mset (T_runtime x) H) F"
      unfolding obeys_seq by (intro obeys_clean) (simp_all add: assms(2))
    then show ?case by (simp del: obeys_seq)
  qed (simp_all add: assms)
  with assms(2) show ?thesis
    by (auto simp: load_and_put_def fetch_runtime_def allowed_def takes_def simp del: obeys_sum_case)
qed

lemma obeys_get: "(\<And>x. Q (Inr x) H F) \<Longrightarrow> obeys t Q (fetch_runtime (A_get k)) H F"
  by (auto simp: fetch_runtime_def allowed_def takes_def)

lemma obeys_resolve_runtime: "obeys t ended (resolve_runtime registry model_id media task) {#} F"
proof -
  have unlock: "obeys t (\<lambda>q H F. case q of Inl e \<Rightarrow> ended (Inl e) H F | Inr _ \<Rightarrow> ended r H F) (perform_act (A_load_unlock k)) {#T_load k#} F"
    if "r \<noteq> Inl Rt_out_of_rounds" for r :: "rt_error + nat" and k
    using that by (auto simp: allowed_def takes_def ended_def)
  have put: "obeys t (\<lambda>r. obeys t (\<lambda>q H F. case q of Inl e \<Rightarrow> ended (Inl e) H F | Inr _ \<Rightarrow> ended r H F) (perform_act (A_load_unlock k)))
      (load_and_put k media') {#T_load k#} F" for k media'
    by (intro obeys_load_and_put unlock) auto
  have locked: "obeys t ended (with_cleanup (seq (fetch_runtime (A_get k)) (\<lambda>cached.
        case cached of Some x \<Rightarrow> done_with x | None \<Rightarrow> load_and_put k media')) (perform_act (A_load_unlock k))) {#T_load k#} F"
    for k media'
    unfolding obeys_finally obeys_seq
    by (rule obeys_get) (auto simp: put unlock simp del: obeys_perform split: option.splits)
  have "obeys t ended (seq (fetch_runtime (A_get k)) (\<lambda>cached.
         case cached of
           Some x \<Rightarrow> done_with x
         | None \<Rightarrow>
             seq (ask (A_load_lock k False)) (\<lambda>_.
               with_cleanup
                 (seq (fetch_runtime (A_get k)) (\<lambda>cached.
                    case cached of Some x \<Rightarrow> done_with x | None \<Rightarrow> load_and_put k media'))
                 (perform_act (A_load_unlock k))))) {#} F" for k media'
    unfolding obeys_seq [of _ _ "fetch_runtime (A_get k)"]
    by (rule obeys_get) (auto simp: allowed_def takes_def calm_def locked simp del: obeys_finally split: option.splits)
  then show ?thesis
    unfolding resolve_runtime_def
    by (intro obeys_with_manifest) (simp_all add: obeys_seq [of _ _ "cloud_guard _"] obeys_cloud_guard del: obeys_seq)
qed

theorem calls_obey: "obeys t ended (call_program registry t call) {#} F"
proof -
  have forget: "obeys t ended (forget m) {#} F" if "obeys t ended m {#} F" for m :: "nat prog"
    using that by (auto simp: forget_def ended_def elim!: obeys_mono split: sum.splits)
  show ?thesis
    by (cases call)
      (auto simp: unload_model_def obeys_unload obeys_unload_all obeys_handle_enter obeys_handle_exit obeys_handle_release
        intro!: forget obeys_acquire_runtime obeys_acquire_with_checkpoints obeys_resolve_runtime split: sum.splits)
qed

end
