(* ===== verification/Runtime_Waiting.thy ===== *)
theory Runtime_Waiting imports Runtime_Obedience begin

text \<open>
  No wake-up is lost. A thread that is parked in \<open>wait_for_stale_entry_drain\<close> waits for an entry that
  still blocks it: every block of the cache that can end the blocking notifies, and every other block
  leaves a blocking entry blocking.
\<close>

section \<open>Blocks that keep an entry blocking\<close>

definition blocking :: "runtime_entry \<Rightarrow> bool" where
  "blocking e \<longleftrightarrow> is_pinned e \<or> en_state e = Rt_retiring"

definition keeps_blocking :: "runtime_cache \<Rightarrow> runtime_cache \<Rightarrow> bool" where
  "keeps_blocking c c' \<longleftrightarrow> rc_waiters c' = rc_waiters c \<and> (\<forall>k r. still_blocks k r c \<longrightarrow> still_blocks k r c')"

lemma still_blocks_blocking:
  "still_blocks k r c \<longleftrightarrow> (case entry_at k c of None \<Rightarrow> False | Some e \<Rightarrow> en_ref e = r \<and> blocking e)"
  by (simp add: still_blocks_def blocking_def split: option.splits)

lemma keeps_blocking_refl [simp]: "keeps_blocking c c" by (simp add: keeps_blocking_def)

lemma keeps_blocking_trans: "keeps_blocking c d \<Longrightarrow> keeps_blocking d f \<Longrightarrow> keeps_blocking c f"
  by (auto simp: keeps_blocking_def)

lemma entry_at_change: "entry_at j (change_entry k f c) = map_option (\<lambda>e. if j = k then f e else e) (entry_at j c)"
proof -
  have "map_of (map (\<lambda>(j, e). (j, if j = k then f e else e)) xs) j = map_option (\<lambda>e. if j = k then f e else e) (map_of xs j)" for xs
    by (induction xs) auto
  then show ?thesis by (simp add: entry_at_def change_entry_def)
qed

lemma map_of_filter_keys:
  "map_of (filter (\<lambda>(i, e). i \<noteq> k) xs) j = (if j = k then None else map_of xs j)"
  "map_of (filter (\<lambda>(i, e). i = k) xs) j = (if j = k then map_of xs j else None)"
  by (induction xs) auto

lemma entry_at_move: "entry_at j (move_to_end k c) = entry_at j c"
  by (auto simp: entry_at_def move_to_end_def map_add_def map_of_filter_keys split: option.splits)

lemma entry_at_delete: "entry_at j (delete_entry k c) = (if j = k then None else entry_at j c)"
  by (simp add: entry_at_def delete_entry_def map_of_filter_keys)

lemma keeps_change:
  assumes "\<And>e. entry_at k c = Some e \<Longrightarrow> blocking e \<Longrightarrow> en_ref (f e) = en_ref e \<and> blocking (f e)"
  shows "keeps_blocking c (change_entry k f c)"
  using assms by (auto simp: keeps_blocking_def still_blocks_blocking entry_at_change split: option.splits)
    (simp add: change_entry_def)

lemma keeps_move: "keeps_blocking c (move_to_end k c)"
  by (simp add: keeps_blocking_def still_blocks_def entry_at_move) (simp add: move_to_end_def)

lemma keeps_delete:
  assumes "\<And>e. entry_at k c = Some e \<Longrightarrow> \<not> blocking e"
  shows "keeps_blocking c (delete_entry k c)"
  using assms by (auto simp: keeps_blocking_def still_blocks_blocking entry_at_delete split: option.splits)
    (simp add: delete_entry_def)

lemma keeps_add: "keeps_blocking c (add_entry k b st rt c)"
  by (auto simp: keeps_blocking_def still_blocks_def entry_at_def add_entry_def map_add_def split: option.splits)

lemma keeps_retire: "keeps_blocking c (retire k c)"
  unfolding retire_def by (rule keeps_change) (simp add: blocking_def)

lemma keeps_overflow: "keeps_blocking c (snd (evict_bucket_overflow b ex c))"
proof (induction b ex c rule: evict_bucket_overflow.induct)
  case (1 b ex c)
  show ?case
  proof (cases "overflow_victim b ex c")
    case None
    then show ?thesis by (simp add: evict_bucket_overflow.simps)
  next
    case (Some p)
    obtain k e where p: "p = (k, e)" by (cases p)
    from keeps_blocking_trans [OF keeps_retire "1.IH" [OF Some p [symmetric]]] Some p show ?thesis
      by (subst evict_bucket_overflow.simps) simp
  qed
qed

lemma busy_blocking: "\<not> busy_for_unload e \<Longrightarrow> \<not> blocking e"
  by (auto simp: busy_for_unload_def blocking_def BUSY_FOR_UNLOAD_STATES_def)

lemma keeps_put: "keeps_blocking c (snd (cache_put k x media c))"
proof -
  have placed: "keeps_blocking c d" if "put_placed k x b c = Inr (replaced, d)" for b replaced d
  proof (cases "entry_at k c")
    case None
    with that show ?thesis by (auto simp: put_placed_def keeps_add)
  next
    case (Some e)
    with that have idle: "\<not> blocking e" by (auto simp: put_placed_def busy_blocking split: if_splits)
    with Some have "keeps_blocking c (add_entry k b Rt_ready (Some x) (delete_entry k c))"
      by (intro keeps_blocking_trans [OF keeps_delete keeps_add]) simp
    moreover have "keeps_blocking c (move_to_end k (change_entry k (\<lambda>e. e\<lparr>en_media_bucket := b\<rparr>) c))"
      by (intro keeps_blocking_trans [OF keeps_change keeps_move]) (simp add: blocking_def is_pinned_def)
    ultimately show ?thesis using Some that by (auto simp: put_placed_def split: if_splits)
  qed
  show ?thesis
  proof (cases "put_placed k x (bucket_for media c) c")
    case (Inl e)
    then show ?thesis by (simp add: cache_put_def Let_def)
  next
    case (Inr p)
    obtain replaced d where p: "p = (replaced, d)" by (cases p)
    obtain vs d' where e: "evict_bucket_overflow (bucket_for media c) (Some k) d = (vs, d')"
      by (cases "evict_bucket_overflow (bucket_for media c) (Some k) d")
    have "keeps_blocking c d'"
      using keeps_blocking_trans [OF placed [OF Inr [unfolded p]] keeps_overflow [of d "bucket_for media c" "Some k"]] e by simp
    with Inr p e show ?thesis by (simp add: cache_put_def Let_def)
  qed
qed

lemma keeps_reserve:
  "keeps_blocking c (snd (cache_reserve k media c))" "keeps_blocking c (snd (cache_reserve_again k media c))"
proof -
  have pin: "keeps_blocking c (move_to_end k (change_entry k (\<lambda>_. e\<lparr>en_lease_count := Suc (en_lease_count e)\<rparr>) c))"
    if "entry_at k c = Some e" for e
    using that by (intro keeps_blocking_trans [OF keeps_change keeps_move]) (simp add: blocking_def is_pinned_def)
  show "keeps_blocking c (snd (cache_reserve k media c))"
    using pin by (auto simp: cache_reserve_def Let_def evicting_def reserved_slot_def keeps_retire keeps_add
        split: option.splits sum.splits)
  show "keeps_blocking c (snd (cache_reserve_again k media c))"
    by (auto simp: cache_reserve_again_def Let_def reserved_slot_def keeps_add split: option.splits sum.splits)
qed

lemma keeps_unload:
  "keeps_blocking c (snd (cache_unload k c))" "keeps_blocking c (snd (cache_unload_all c))"
proof -
  show "keeps_blocking c (snd (cache_unload k c))" by (auto simp: cache_unload_def keeps_retire split: option.splits)
  have "map_of (map (\<lambda>(k, e). (k, e\<lparr>en_state := Rt_retiring\<rparr>)) xs) j = map_option (\<lambda>e. e\<lparr>en_state := Rt_retiring\<rparr>) (map_of xs j)"
    for j and xs :: "(string \<times> runtime_entry) list" by (induction xs) auto
  then show "keeps_blocking c (snd (cache_unload_all c))"
    by (auto simp: cache_unload_all_def Let_def keeps_blocking_def still_blocks_def entry_at_def split: option.splits)
qed

lemma keeps_mark_invalid: "keeps_blocking c (cache_mark_invalid k r c)"
  by (auto simp: cache_mark_invalid_def blocking_def is_pinned_def intro!: keeps_change)

lemma keeps_get: "keeps_blocking c (snd (cache_get k c))"
  by (auto simp: cache_get_def keeps_move split: option.splits)

lemma keeps_publish: "keeps_blocking c (snd (cache_publish k r x c))"
  by (auto simp: cache_publish_def blocking_def is_pinned_def intro!: keeps_blocking_trans [OF keeps_change keeps_move])

text \<open>A reservation that is given up was never blocking.\<close>

lemma keeps_abort:
  assumes "cache_ok c" and "0 < cache_issue c (T_reserved k r)"
  shows "keeps_blocking c (cache_abort k r c)"
proof -
  from issued_reserved [OF assms] obtain e where e: "entry_at k c = Some e" "en_state e = Rt_loading" by blast
  with entry_at_ok [OF assms(1) e(1)] have "\<not> blocking e" by (auto simp: blocking_def is_pinned_def entry_ok_def)
  with e(1) show ?thesis by (auto simp: cache_abort_def intro: keeps_delete)
qed

text \<open>The two blocks that may end a blocking, and what they do for it.\<close>

lemma remove_notifies: "rc_waiters (cache_remove k r c) = []"
  by (simp add: cache_remove_def notify_all_def)

lemma release_notifies:
  "cache_release_lease k r c = (vs, c') \<Longrightarrow> c' = c \<or> rc_waiters c' = []"
proof -
  have "rc_waiters (snd (evict_bucket_overflow b ex (notify_all d))) = []" for b ex d
    using keeps_overflow [of "notify_all d" b ex] by (simp add: keeps_blocking_def notify_all_def)
  then have "rc_waiters d' = []" if "evict_bucket_overflow b ex (notify_all d) = (us, d')" for b ex d us d'
    using that by (metis snd_conv)
  moreover have "rc_waiters (notify_all d) = []" for d by (simp add: notify_all_def)
  ultimately show "cache_release_lease k r c = (vs, c') \<Longrightarrow> c' = c \<or> rc_waiters c' = []"
    by (cases "entry_at k c") (auto simp: cache_release_lease_def Let_def split: if_splits)
qed

section \<open>One act\<close>

definition waits_keep :: "runtime_system \<Rightarrow> runtime_system \<Rightarrow> bool" where
  "waits_keep s s' \<longleftrightarrow> rc_waiters (ss_cache s') = [] \<or> keeps_blocking (ss_cache s) (ss_cache s')"

lemma waits_keep_same [simp]: "ss_cache s' = ss_cache s \<Longrightarrow> waits_keep s s'"
  by (simp add: waits_keep_def)

lemma on_cache_keeps:
  assumes "on_cache f g s = Some (r, s')" and "\<And>c. keeps_blocking c (snd (f c))"
  shows "waits_keep s s'"
  using assms(1) assms(2) [of "ss_cache s"] by (auto simp: on_cache_def waits_keep_def split: prod.splits)

definition is_wait :: "rt_act \<Rightarrow> bool" where
  "is_wait a \<longleftrightarrow> (\<exists>k r bounded. a = A_wait_drain k r bounded)"

lemma exec_waits_keep:
  assumes "consistent s (H + R)" and "allowed t a H F" and "exec t a ch s = Some (r, s')" and "\<not> is_wait a"
  shows "waits_keep s s'"
proof (cases a)
  case (A_abort k e)
  with in_hand [OF assms(1,2), of "T_reserved k e"] have "0 < cache_issue (ss_cache s) (T_reserved k e)" by simp
  with keeps_abort [OF consistentD(1) [OF assms(1)]] A_abort assms(3) show ?thesis by (auto simp: waits_keep_def)
next
  case (A_release_lease k e)
  with assms(3) release_notifies [of k e "ss_cache s"] show ?thesis by (auto simp: on_cache_def waits_keep_def split: prod.splits)
next
  case (A_begin_exit h b)
  with assms(3) show ?thesis
    by (auto simp: begin_exit_def set_handle_def invalidate_handle_def waits_keep_def keeps_mark_invalid Let_def handle_at_def
        split: option.splits if_splits)
next
  case (A_wait_drain k e bounded)
  with assms(4) show ?thesis by (simp add: is_wait_def)
qed (use assms(3) in \<open>auto simp: wait_for_def new_handle_def enter_handle_def begin_release_def set_handle_def invalidate_handle_def
      Let_def keeps_mark_invalid waits_keep_def remove_notifies
      dest!: on_cache_keeps [OF _ keeps_reserve(1)] on_cache_keeps [OF _ keeps_reserve(2)] on_cache_keeps [OF _ keeps_publish]
        on_cache_keeps [OF _ keeps_get] on_cache_keeps [OF _ keeps_put] on_cache_keeps [OF _ keeps_unload(1)] on_cache_keeps [OF _ keeps_unload(2)]
      split: option.splits if_splits env_choice.splits\<close>)

text \<open>A waiting thread that gets its answer is no longer parked, and nobody else is affected.\<close>

lemma exec_wait_unparks:
  assumes "exec t (A_wait_drain k e bounded) ch s = Some (r, s')"
  shows "set (rc_waiters (ss_cache s')) = set (rc_waiters (ss_cache s)) - {t} \<and>
    (\<forall>j x. still_blocks j x (ss_cache s') = still_blocks j x (ss_cache s))"
proof -
  have "still_blocks j x (cache_unpark t c) = still_blocks j x c" for j x c
    by (simp add: still_blocks_def entry_at_def cache_unpark_def)
  with assms show ?thesis by (auto simp: cache_unpark_def split: if_splits)
qed

section \<open>The invariant of the wait set\<close>

definition parked_ok :: "runtime_process \<Rightarrow> bool" where
  "parked_ok p \<longleftrightarrow>
     (\<forall>t \<in> set (rc_waiters (ss_cache (pr_system p))).
        t < length (pr_threads p) \<and>
        (\<exists>k r bounded f. pr_threads p ! t = Do (A_wait_drain k r bounded) f \<and> still_blocks k r (ss_cache (pr_system p))))"

lemma parked_okD:
  assumes "parked_ok p" and "t \<in> set (rc_waiters (ss_cache (pr_system p)))"
  obtains k r bounded f where "t < length (pr_threads p)" "pr_threads p ! t = Do (A_wait_drain k r bounded) f"
    "still_blocks k r (ss_cache (pr_system p))"
  using assms unfolding parked_ok_def by blast

lemma parked_ok_park:
  assumes "parked_ok p" and "t < length (pr_threads p)" and "pr_threads p ! t = Do a f" and "parks t a ch (pr_system p)"
  shows "parked_ok (p\<lparr>pr_system := park t (pr_system p)\<rparr>)"
proof -
  have "still_blocks k r (cache_park t c) = still_blocks k r c" "rc_waiters (cache_park t c) = t # rc_waiters c" for k r c
    by (simp_all add: still_blocks_def entry_at_def cache_park_def)
  moreover from assms(4) obtain k r bounded where "a = A_wait_drain k r bounded" "still_blocks k r (ss_cache (pr_system p))"
    by (cases a) auto
  ultimately show ?thesis using assms(1-3) by (auto simp: parked_ok_def park_def)
qed

lemma parked_ok_answer:
  assumes ok: "parked_ok p" and t: "t < length (pr_threads p)" "pr_threads p ! t = Do a f"
    and run: "exec t a ch (pr_system p) = Some (r, s')"
    and keep: "\<not> is_wait a \<Longrightarrow> waits_keep (pr_system p) s'"
  shows "parked_ok (p\<lparr>pr_system := s', pr_threads := (pr_threads p)[t := f r]\<rparr>)"
proof -
  let ?s = "pr_system p"
  have still: "u \<noteq> t \<and> u \<in> set (rc_waiters (ss_cache ?s)) \<and>
      (\<forall>j x. still_blocks j x (ss_cache ?s) \<longrightarrow> still_blocks j x (ss_cache s'))"
    if u: "u \<in> set (rc_waiters (ss_cache s'))" for u
  proof (cases "is_wait a")
    case True
    with exec_wait_unparks run u show ?thesis unfolding is_wait_def by blast
  next
    case False
    with keep u have "keeps_blocking (ss_cache ?s) (ss_cache s')" by (auto simp: waits_keep_def)
    then have k: "u \<in> set (rc_waiters (ss_cache ?s))" "\<forall>j x. still_blocks j x (ss_cache ?s) \<longrightarrow> still_blocks j x (ss_cache s')"
      using u by (auto simp: keeps_blocking_def)
    from parked_okD [OF ok k(1)] False t(2) have "u \<noteq> t" unfolding is_wait_def by (metis prog.inject(2))
    with k show ?thesis by blast
  qed
  have "\<exists>k x bounded g. (pr_threads p)[t := f r] ! u = Do (A_wait_drain k x bounded) g \<and> still_blocks k x (ss_cache s')"
    and "u < length (pr_threads p)" if u: "u \<in> set (rc_waiters (ss_cache s'))" for u
  proof -
    note old = still [OF u]
    from old obtain k x bounded g where w: "u < length (pr_threads p)" "pr_threads p ! u = Do (A_wait_drain k x bounded) g"
      "still_blocks k x (ss_cache ?s)" using parked_okD [OF ok] by metis
    with old have "(pr_threads p)[t := f r] ! u = Do (A_wait_drain k x bounded) g" "still_blocks k x (ss_cache s')" by simp_all
    then show "\<exists>k x bounded g. (pr_threads p)[t := f r] ! u = Do (A_wait_drain k x bounded) g \<and> still_blocks k x (ss_cache s')"
      by blast
    show "u < length (pr_threads p)" by (rule w(1))
  qed
  then show ?thesis by (simp add: parked_ok_def)
qed

end
