(* ===== verification/Runtime_Facts.thy ===== *)
theory Runtime_Facts imports Runtime_Waiting begin

text \<open>
  What holds of the runtimes of a process under every interleaving: a handle is exclusive and its
  runtime alive, nothing is cleaned up twice or lost, and no call waits for ever unless somebody
  keeps a handle.
\<close>

section \<open>The invariant\<close>

definition follows :: "runtime_process \<Rightarrow> token multiset list \<Rightarrow> fact set list \<Rightarrow> bool" where
  "follows p Hs Fs \<longleftrightarrow>
     length Hs = length (pr_threads p) \<and> length Fs = length (pr_threads p) \<and>
     consistent (pr_system p) (sum_list Hs) \<and> 1 \<le> ss_capacity (pr_system p) \<and>
     (\<forall>t < length (pr_threads p).
        obeys t ended (pr_threads p ! t) (Hs ! t) (Fs ! t) \<and> (\<forall>f \<in> Fs ! t. fact_holds t (pr_system p) f))"

lemma sum_list_others:
  assumes "t < length Hs"
  shows "sum_list Hs = Hs ! t + sum_list (Hs[t := {#}])" and "sum_list (Hs[t := H]) = H + sum_list (Hs[t := ({#} :: 'a multiset)])"
proof -
  from sum_list_change [OF assms, of "{#}"] show "sum_list Hs = Hs ! t + sum_list (Hs[t := {#}])"
    by (simp add: add.commute)
  have "t < length (Hs[t := H])" using assms by simp
  from sum_list_change [OF this, of "{#}"] assms show "sum_list (Hs[t := H]) = H + sum_list (Hs[t := {#}])"
    by (simp add: add.commute)
qed

lemma exec_capacity: "exec t a ch s = Some (r, s') \<Longrightarrow> ss_capacity s' = ss_capacity s"
  by (cases a) (auto simp: wait_for_def on_cache_def new_handle_def enter_handle_def invalidate_handle_def begin_release_def
      begin_exit_def set_handle_def Let_def split: if_splits option.splits prod.splits env_choice.splits)

lemma follows_exec:
  assumes "follows p Hs Fs" and "t < length (pr_threads p)" and "pr_threads p ! t = Do a k"
    and "exec t a ch (pr_system p) = Some (r, s')"
  shows "\<exists>Hs' Fs'. follows (p\<lparr>pr_system := s', pr_threads := (pr_threads p)[t := k r]\<rparr>) Hs' Fs'"
proof -
  let ?s = "pr_system p" and ?R = "sum_list (Hs[t := {#}])"
  let ?H = "Hs ! t - takes t a r + gives t a r" and ?F = "learns a r (Fs ! t)"
  from assms(1,2) have t: "t < length Hs" "t < length Fs" by (auto simp: follows_def)
  from assms(1-3) have obeys: "obeys t ended (Do a k) (Hs ! t) (Fs ! t)" and known: "\<forall>f \<in> Fs ! t. fact_holds t ?s f"
    by (auto simp: follows_def)
  from assms(1) have "consistent ?s (Hs ! t + ?R)" using sum_list_others(1) [OF t(1)] by (simp add: follows_def)
  from exec_sound [OF this known _ assms(4)] obeys have sound: "sound t a (Hs ! t) ?R (Fs ! t) r ?s s'" by simp
  have others: "obeys u ended (pr_threads p ! u) (Hs ! u) (Fs ! u)" "\<forall>f \<in> Fs ! u. fact_holds u s' f"
    if "u < length (pr_threads p)" "u \<noteq> t" for u
    using assms(1) that fact_stays [of t ?s s' u] sound by (auto simp: follows_def sound_def)
  have "follows (p\<lparr>pr_system := s', pr_threads := (pr_threads p)[t := k r]\<rparr>) (Hs[t := ?H]) (Fs[t := ?F])"
    unfolding follows_def
  proof (simp, intro conjI allI impI)
    show "consistent s' (sum_list (Hs[t := ?H]))"
      using sound sum_list_others(2) [OF t(1), of ?H] by (simp add: sound_def)
    show "Suc 0 \<le> ss_capacity s'" using assms(1) exec_capacity [OF assms(4)] by (simp add: follows_def)
    fix u assume u: "u < length (pr_threads p)"
    show "obeys u ended ((pr_threads p)[t := k r] ! u) (Hs[t := ?H] ! u) (Fs[t := ?F] ! u)"
      using others [OF u] obeys sound t assms(2) by (cases "u = t") (auto simp: sound_def)
    show "\<forall>f \<in> Fs[t := ?F] ! u. fact_holds u s' f"
      using others [OF u] sound t by (cases "u = t") (auto simp: sound_def)
  qed (use assms(1) in \<open>auto simp: follows_def\<close>)
  then show ?thesis by blast
qed

lemma idle_threadE: "idle_thread p \<Longrightarrow> (\<And>r. p = Return r \<Longrightarrow> thesis) \<Longrightarrow> thesis"
  by (cases p) (auto simp: idle_thread_def)

lemma follows_park: "follows p Hs Fs \<Longrightarrow> follows (p\<lparr>pr_system := park t (pr_system p)\<rparr>) Hs Fs"
proof -
  have "issue (park t s) x = issue s x" for s x by (cases x) (simp_all add: park_def)
  moreover have "fact_holds u (park t s) f = fact_holds u s f" for u s f
    by (cases f) (simp_all add: park_def spoiled_def drained_def cache_park_def)
  moreover have "handle_ok (cache_park t c) h = handle_ok c h" for c h by (simp add: handle_ok_def cache_park_def)
  moreover have "ss_cache (park t s) = cache_park t (ss_cache s)" "ss_capacity (park t s) = ss_capacity s"
    "ss_permits (park t s) = ss_permits s" "ss_held (park t s) = ss_held s" "ss_handles (park t s) = ss_handles s" for s
    by (simp_all add: park_def)
  ultimately show "follows p Hs Fs \<Longrightarrow> ?thesis" by (simp add: follows_def consistent_def handles_hold_def)
qed

text \<open>The wait set of the cache's condition: whoever is parked there is still blocked.\<close>

lemma parked_ok_happen:
  assumes "follows p Hs Fs" and "parked_ok p" and "happen ev p = Some p'"
  shows "parked_ok p'"
proof (cases ev)
  case (Call t call)
  with assms(3) have t: "t < length (pr_threads p)" "idle_thread (pr_threads p ! t)"
    and p': "p' = p\<lparr>pr_threads := (pr_threads p)[t := call_program (ss_registry (pr_system p)) t call]\<rparr>"
    by (auto split: if_splits)
  have "u \<noteq> t" if "u \<in> set (rc_waiters (ss_cache (pr_system p)))" for u
    using parked_okD [OF assms(2) that] t(2) by (metis idle_thread_def prog.simps(6))
  then have "(pr_threads p)[t := x] ! u = pr_threads p ! u" if "u \<in> set (rc_waiters (ss_cache (pr_system p)))" for u x
    using that nth_list_update_neq by metis
  with assms(2) show ?thesis by (simp add: parked_ok_def p')
next
  case (Step t ch)
  with assms(3) have "happen (Step t ch) p = Some p'" by simp
  then show ?thesis
  proof (cases rule: happen_stepE)
    case (parked a k)
    with parked_ok_park [OF assms(2)] show ?thesis by blast
  next
    case (answered a k r s')
    from assms(1) answered(1) have t: "t < length Hs" by (simp add: follows_def)
    from assms(1) answered(1,2) have "obeys t ended (Do a k) (Hs ! t) (Fs ! t)" by (auto simp: follows_def)
    then have "allowed t a (Hs ! t) (Fs ! t)" by simp
    moreover have "consistent (pr_system p) (Hs ! t + sum_list (Hs[t := {#}]))"
      using assms(1) sum_list_others(1) [OF t] by (simp add: follows_def)
    ultimately have "\<not> is_wait a \<Longrightarrow> waits_keep (pr_system p) s'" using exec_waits_keep answered(3) by blast
    from parked_ok_answer [OF assms(2) answered(1-3) this] show ?thesis by (simp add: answered(4))
  qed
next
  case (Setenv name v)
  with assms(2,3) show ?thesis by (auto simp: parked_ok_def)
qed

lemma follows_happen:
  assumes "follows p Hs Fs" and "happen ev p = Some p'"
  shows "\<exists>Hs' Fs'. follows p' Hs' Fs'"
proof (cases ev)
  case (Call t call)
  with assms(2) have t: "t < length (pr_threads p)" "idle_thread (pr_threads p ! t)"
    and p': "p' = p\<lparr>pr_threads := (pr_threads p)[t := call_program (ss_registry (pr_system p)) t call]\<rparr>"
    by (auto split: if_splits)
  from t(2) obtain r where r: "pr_threads p ! t = Return r" by (rule idle_threadE)
  with assms(1) t have empty: "Hs ! t = {#}" by (auto simp: follows_def ended_def)
  have "follows p' Hs (Fs[t := {}])"
    using assms(1) t empty calls_obey
    by (auto simp: follows_def p' nth_list_update)
  then show ?thesis by blast
next
  case (Step t ch)
  with assms(2) have "happen (Step t ch) p = Some p'" by simp
  then show ?thesis
  proof (cases rule: happen_stepE)
    case (parked a k)
    with follows_park [OF assms(1)] show ?thesis by blast
  next
    case (answered a k r s')
    with follows_exec [OF assms(1)] show ?thesis by blast
  qed
next
  case (Setenv name v)
  let ?s = "(pr_system p)\<lparr>ss_env := (ss_env (pr_system p))(name := v)\<rparr>"
  from Setenv assms(2) have p': "p' = p\<lparr>pr_system := ?s\<rparr>" by simp
  have "issue ?s x = issue (pr_system p) x" for x by (cases x) simp_all
  moreover have "fact_holds t ?s f = fact_holds t (pr_system p) f" for t f by (cases f) simp_all
  ultimately have "follows p' Hs Fs" using assms(1)
    by (auto simp: follows_def p' consistent_def handles_hold_def)
  then show ?thesis by blast
qed

lemma follows_run: "follows p Hs Fs \<Longrightarrow> run evs p = Some p' \<Longrightarrow> \<exists>Hs' Fs'. follows p' Hs' Fs'"
proof (induction evs arbitrary: p Hs Fs)
  case (Cons ev evs)
  from Cons.prems(2) obtain q where q: "happen ev p = Some q" "run evs q = Some p'" by (auto split: option.splits)
  from follows_happen [OF Cons.prems(1) q(1)] obtain Hs' Fs' where "follows q Hs' Fs'" by blast
  from Cons.IH [OF this q(2)] show ?case .
qed auto

lemma parked_ok_run: "follows p Hs Fs \<Longrightarrow> parked_ok p \<Longrightarrow> run evs p = Some p' \<Longrightarrow> parked_ok p'"
proof (induction evs arbitrary: p Hs Fs)
  case (Cons ev evs)
  from Cons.prems(3) obtain q where q: "happen ev p = Some q" "run evs q = Some p'" by (auto split: option.splits)
  from follows_happen [OF Cons.prems(1) q(1)] obtain Hs' Fs' where "follows q Hs' Fs'" by blast
  from Cons.IH [OF this parked_ok_happen [OF Cons.prems(1,2) q(1)] q(2)] show ?case .
qed auto

lemma parked_ok_start:
  "start_process registry env max_entries limits capacity n = Inr p \<Longrightarrow> parked_ok p"
  by (auto simp: start_process_def init_cache_def init_system_def parked_ok_def split: sum.splits if_splits option.splits)

lemma follows_start:
  assumes "start_process registry env max_entries limits capacity n = Inr p"
  shows "follows p (replicate n {#}) (replicate n {})"
proof -
  from assms obtain c s where c: "init_cache max_entries limits = Inr c" and s: "init_system registry env c capacity = Inr s"
    and p: "p = \<lparr>pr_system = s, pr_threads = replicate n (Return (Inr ()))\<rparr>"
    by (auto simp: start_process_def split: sum.splits)
  from c have empty: "rc_entries c = []" by (auto simp: init_cache_def split: if_splits option.splits)
  from s have s': "ss_cache s = c" "1 \<le> ss_capacity s" "ss_permits s = ss_capacity s" "ss_handles s = []" "ss_cleaned s = []"
    "ss_next_runtime s = 0" "ss_held s = (\<lambda>_. 0)" "ss_load_locks s = (\<lambda>_. False)" "ss_exec_locks s = (\<lambda>_. False)"
    by (auto simp: init_system_def split: if_splits)
  have "issue s x = 0" for x by (cases x) (simp_all add: s' cache_issue_def empty)
  then have "consistent s {#}" by (simp add: consistent_def handles_hold_def s' cache_ok_def empty)
  moreover have "sum_list (replicate n {#}) = ({#} :: token multiset)" by (induction n) simp_all
  ultimately show ?thesis by (simp add: follows_def p s'(2) [simplified])
qed

text \<open>A state the process can reach.\<close>

definition reached :: "manifest list \<Rightarrow> (string \<Rightarrow> string option) \<Rightarrow> int \<Rightarrow> (string \<times> int) list \<Rightarrow> int \<Rightarrow> nat \<Rightarrow> runtime_event list \<Rightarrow> runtime_process \<Rightarrow> bool" where
  "reached registry env max_entries limits capacity n evs p \<longleftrightarrow>
     (case start_process registry env max_entries limits capacity n of Inl e \<Rightarrow> False | Inr p0 \<Rightarrow> run evs p0 = Some p)"

lemma reached_follows:
  assumes "reached registry env max_entries limits capacity n evs p"
  obtains Hs Fs where "follows p Hs Fs"
  using assms follows_run [OF follows_start] by (force simp: reached_def split: sum.splits)

lemma reached_parked_ok:
  assumes "reached registry env max_entries limits capacity n evs p"
  shows "parked_ok p"
  using assms parked_ok_run [OF follows_start parked_ok_start] by (auto simp: reached_def split: sum.splits)

text \<open>The states the sample runs reach.\<close>

definition sample_out :: runtime_process where "sample_out = the (sample_run sample_events)"

definition sample_over :: runtime_process where "sample_over = the (sample_run sample_ending)"

lemma sample_reached:
  "reached sample_registry (\<lambda>_. None) 1 [] 1 2 sample_events sample_out"
  "reached sample_registry (\<lambda>_. None) 1 [] 1 2 sample_ending sample_over"
proof -
  have reached: "reached sample_registry (\<lambda>_. None) 1 [] 1 2 evs (the (sample_run evs))" if "\<not> Option.is_none (sample_run evs)" for evs
    using that by (cases "sample_run evs") (auto simp: reached_def sample_run_def split: sum.splits)
  have "\<not> Option.is_none (sample_run sample_events)" by code_simp
  then show "reached sample_registry (\<lambda>_. None) 1 [] 1 2 sample_events sample_out" unfolding sample_out_def by (rule reached)
  have "\<not> Option.is_none (sample_run sample_ending)" by code_simp
  then show "reached sample_registry (\<lambda>_. None) 1 [] 1 2 sample_ending sample_over" unfolding sample_over_def by (rule reached)
qed

section \<open>Live handles\<close>

lemma live_handleD:
  assumes "live_handle p i"
  obtains x where "handle_at i (pr_system p) = Some x" and "\<not> hd_released x"
    and "i < length (ss_handles (pr_system p))" and "ss_handles (pr_system p) ! i = x"
  using assms by (auto simp: live_handle_def handle_at_def split: if_splits)

lemma live_count: "card {i. live_handle p i} = count (handles_hold (pr_system p)) T_permit"
proof -
  let ?hs = "ss_handles (pr_system p)"
  have "{i. live_handle p i} = {i. i < length ?hs \<and> \<not> hd_released (?hs ! i)}"
    by (auto simp: live_handle_def handle_at_def)
  moreover have "count (sum_list (map handle_tokens hs)) T_permit = length (filter (\<lambda>x. \<not> hd_released x) hs)" for hs
    by (induction hs) (simp_all add: handle_tokens_def)
  ultimately show ?thesis by (simp add: handles_hold_def length_filter_conv_card)
qed

lemma two_members:
  assumes "i < length xs" "j < length xs" "i \<noteq> j"
  shows "xs ! i + xs ! j \<subseteq># (sum_list xs :: 'a multiset)"
proof -
  from assms have "xs[i := {#}] ! j = xs ! j" "j < length (xs[i := {#}])" by simp_all
  then have "xs ! j \<subseteq># sum_list (xs[i := {#}])" using nth_mem member_subset_sum_list by metis
  with sum_list_others(1) [OF assms(1)] show ?thesis by (simp add: subset_mset.add_left_mono)
qed

lemma handles_issued:
  assumes "follows p Hs Fs"
  shows "int (count (handles_hold (pr_system p)) x) \<le> issue (pr_system p) x"
proof -
  from assms have "int (count (sum_list Hs) x) + int (count (handles_hold (pr_system p)) x) = issue (pr_system p) x"
    by (simp add: follows_def consistent_def)
  then show ?thesis by linarith
qed

lemma live_entry:
  assumes "follows p Hs Fs" and "live_handle p i"
  shows "\<exists>x e y. handle_at i (pr_system p) = Some x \<and> entry_at (hd_canonical_id x) (ss_cache (pr_system p)) = Some e \<and>
    en_ref e = hd_entry x \<and> en_state e \<in> {Rt_ready, Rt_invalid} \<and> 0 < en_lease_count e \<and>
    en_runtime e = Some y \<and> hd_runtime x = Some y \<and> y \<notin> set (ss_cleaned (pr_system p))"
proof -
  let ?s = "pr_system p"
  from assms(1) have c: "cache_ok (ss_cache ?s)" and hs: "\<forall>h \<in> set (ss_handles ?s). handle_ok (ss_cache ?s) h"
    by (simp_all add: follows_def consistent_def)
  from assms(2) obtain x where x: "handle_at i ?s = Some x" "\<not> hd_released x" by (rule live_handleD)
  have "T_lease (hd_canonical_id x) (hd_entry x) \<in># handles_hold ?s"
    using handles_hold_set(2) [OF x(1)] x(2) by (auto simp: handle_tokens_def dest: mset_subset_eqD)
  then have "0 < int (count (handles_hold ?s) (T_lease (hd_canonical_id x) (hd_entry x)))" by simp
  with handles_issued [OF assms(1), of "T_lease (hd_canonical_id x) (hd_entry x)"]
  have "0 < issue ?s (T_lease (hd_canonical_id x) (hd_entry x))" by linarith
  then have "0 < cache_issue (ss_cache ?s) (T_lease (hd_canonical_id x) (hd_entry x))" by simp
  from issued_lease [OF c this] obtain e y where e: "entry_at (hd_canonical_id x) (ss_cache ?s) = Some e" "en_ref e = hd_entry x"
    "0 < en_lease_count e" "en_state e \<in> {Rt_ready, Rt_invalid}" "en_runtime e = Some y" by blast
  then have "(hd_canonical_id x, e) \<in> set (rc_entries (ss_cache ?s))" by (auto simp: entry_at_def dest: map_of_SomeD)
  with hs handle_at_in [OF x(1)] e have "hd_runtime x = Some y" by (fastforce simp: handle_ok_def)
  moreover have "y \<notin> set (ss_cleaned ?s)"
  proof
    assume "y \<in> set (ss_cleaned ?s)"
    then have "0 < count_list (ss_cleaned ?s) y" by (metis count_list_0_iff gr0I)
    moreover have "cache_issue (ss_cache ?s) (T_runtime y) \<noteq> 0" using not_resident [of "ss_cache ?s" y, OF _ e(1)] e(4,5) by auto
    then have "cache_issue (ss_cache ?s) (T_runtime y) < 0" using issued_runtime_nonpos [of "ss_cache ?s" y] by simp
    moreover have "0 \<le> issue ?s (T_runtime y)" using handles_issued [OF assms(1), of "T_runtime y"] by linarith
    ultimately show False by (simp add: of_bool_def split: if_splits)
  qed
  ultimately show ?thesis using x e by blast
qed

lemma live_distinct:
  assumes "follows p Hs Fs" and "live_handle p i" and "live_handle p j" and "i \<noteq> j"
  shows "hd_entry (ss_handles (pr_system p) ! i) \<noteq> hd_entry (ss_handles (pr_system p) ! j) \<and>
    hd_owner (ss_handles (pr_system p) ! i) \<noteq> hd_owner (ss_handles (pr_system p) ! j)"
proof -
  let ?s = "pr_system p"
  from assms(2) obtain x where x: "i < length (ss_handles ?s)" "ss_handles ?s ! i = x" "\<not> hd_released x" by (rule live_handleD)
  from assms(3) obtain y where y: "j < length (ss_handles ?s)" "ss_handles ?s ! j = y" "\<not> hd_released y" by (rule live_handleD)
  have sub: "handle_tokens x + handle_tokens y \<subseteq># handles_hold ?s"
    using two_members [of i "map handle_tokens (ss_handles ?s)" j] x y assms(4) by (simp add: handles_hold_def)
  have many: "count (handle_tokens x + handle_tokens y) z \<le> nat (issue ?s z)" for z
    using mset_subset_eq_count [OF sub, of z] handles_issued [OF assms(1), of z] by linarith
  have "issue ?s (T_exec (hd_entry x)) \<le> 1" by simp
  moreover have "issue ?s (T_credit (hd_owner x)) \<le> 1" using assms(1) by (simp add: follows_def consistent_def)
  ultimately show ?thesis
    using many [of "T_exec (hd_entry x)"] many [of "T_credit (hd_owner x)"] x(2,3) y(2,3)
    by (auto simp: handle_tokens_def of_bool_def split: if_splits)
qed

text \<open>
  C4: a handle is exclusive and its runtime is alive. Whatever the threads do, in whatever order,
  and whatever loaders, hooks and callbacks raise: a handle that has not been released refers to an
  entry that is still the cache's, still leased and still holds the handle's runtime, on which the
  eviction hook has not been run; no other such handle refers to that entry or belongs to the same
  thread; and there are never more of them than the admission capacity.
\<close>

theorem handles_are_exclusive:
  assumes "reached registry env max_entries limits capacity n evs p"
  shows "(\<forall>i. live_handle p i \<longrightarrow>
      (\<exists>x e y. handle_at i (pr_system p) = Some x \<and> entry_at (hd_canonical_id x) (ss_cache (pr_system p)) = Some e \<and>
         en_ref e = hd_entry x \<and> en_state e \<in> {Rt_ready, Rt_invalid} \<and> 0 < en_lease_count e \<and>
         en_runtime e = Some y \<and> hd_runtime x = Some y \<and> y \<notin> set (ss_cleaned (pr_system p)))) \<and>
    (\<forall>i j. live_handle p i \<and> live_handle p j \<and> i \<noteq> j \<longrightarrow>
       hd_entry (ss_handles (pr_system p) ! i) \<noteq> hd_entry (ss_handles (pr_system p) ! j) \<and>
       hd_owner (ss_handles (pr_system p) ! i) \<noteq> hd_owner (ss_handles (pr_system p) ! j)) \<and>
    card {i. live_handle p i} \<le> ss_capacity (pr_system p)"
proof -
  from assms obtain Hs Fs where inv: "follows p Hs Fs" by (rule reached_follows)
  have "int (count (handles_hold (pr_system p)) T_permit) \<le> int (ss_capacity (pr_system p))"
    using handles_issued [OF inv, of T_permit] by simp
  then have "card {i. live_handle p i} \<le> ss_capacity (pr_system p)" by (simp add: live_count)
  with live_entry [OF inv] live_distinct [OF inv] show ?thesis by blast
qed

lemma handles_are_exclusive_witness:
  "live_handle sample_out 0 \<and>
   (\<exists>x e. handle_at 0 (pr_system sample_out) = Some x \<and>
      entry_at (hd_canonical_id x) (ss_cache (pr_system sample_out)) = Some e \<and> en_ref e = hd_entry x \<and> 0 < en_lease_count e) \<and>
   card {i. live_handle sample_out i} \<le> 1"
proof -
  have "live_handle sample_out 0" and "ss_capacity (pr_system sample_out) = 1" by code_simp+
  with handles_are_exclusive [OF sample_reached(1)] show ?thesis by fastforce
qed

section \<open>Nothing lost, nothing twice\<close>

text \<open>How often a runtime is in the cache, entries being retired apart.\<close>

definition residents :: "nat \<Rightarrow> runtime_cache \<Rightarrow> nat" where
  "residents x c = length (filter (\<lambda>(k, e). en_state e \<noteq> Rt_retiring \<and> en_runtime e = Some x) (rc_entries c))"

lemma residents_issue: "cache_issue c (T_runtime x) = - int (residents x c)"
proof -
  have "sum_list (map (\<lambda>p. entry_issue p (T_runtime x)) ps) =
      - int (length (filter (\<lambda>(k, e). en_state e \<noteq> Rt_retiring \<and> en_runtime e = Some x) ps))" for ps
    by (induction ps) auto
  then show ?thesis by (simp add: cache_issue_def residents_def)
qed

text \<open>
  C16: no runtime is cleaned up twice, or cleaned up while the cache still offers it, or offered by
  two entries. In every reachable state the number of times the eviction hook was run on a loaded
  runtime and the number of entries that offer it add up to at most one, and to none for a runtime
  that was never loaded.
\<close>

theorem runtimes_cleaned_at_most_once:
  assumes "reached registry env max_entries limits capacity n evs p"
  shows "count_list (ss_cleaned (pr_system p)) x + residents x (ss_cache (pr_system p))
    \<le> of_bool (x < ss_next_runtime (pr_system p))"
proof -
  from assms obtain Hs Fs where inv: "follows p Hs Fs" by (rule reached_follows)
  then have "int (count (sum_list Hs) (T_runtime x)) + int (count (handles_hold (pr_system p)) (T_runtime x)) =
      issue (pr_system p) (T_runtime x)" by (simp add: follows_def consistent_def)
  then have "int (count_list (ss_cleaned (pr_system p)) x) + int (residents x (ss_cache (pr_system p)))
      \<le> of_bool (x < ss_next_runtime (pr_system p))" by (simp add: residents_issue)
  then show ?thesis by (simp add: of_bool_def split: if_splits)
qed

lemma runtimes_cleaned_at_most_once_witness:
  "ss_next_runtime (pr_system sample_out) = 1 \<and>
   count_list (ss_cleaned (pr_system sample_out)) 0 + residents 0 (ss_cache (pr_system sample_out)) \<le> 1"
proof -
  have "ss_next_runtime (pr_system sample_out) = 1" by code_simp
  with runtimes_cleaned_at_most_once [OF sample_reached(1), of 0] show ?thesis by simp
qed

definition at_rest :: "runtime_process \<Rightarrow> bool" where
  "at_rest p \<longleftrightarrow> (\<forall>t < length (pr_threads p). idle_thread (pr_threads p ! t)) \<and> (\<forall>i. \<not> live_handle p i)"

lemma idle_empty:
  assumes "follows p Hs Fs" and "t < length (pr_threads p)" and "idle_thread (pr_threads p ! t)"
  shows "Hs ! t = {#}"
  using assms by (auto simp: follows_def ended_def elim!: idle_threadE)

lemma all_empty: "\<forall>x \<in> set xs. x = {#} \<Longrightarrow> sum_list xs = ({#} :: 'a multiset)"
  by (induction xs) auto

lemma no_live_handles:
  assumes "\<forall>i. \<not> live_handle p i"
  shows "handles_hold (pr_system p) = {#}"
proof -
  have "\<forall>x \<in> set (ss_handles (pr_system p)). hd_released x"
  proof
    fix x assume "x \<in> set (ss_handles (pr_system p))"
    then obtain i where "i < length (ss_handles (pr_system p))" "ss_handles (pr_system p) ! i = x"
      by (auto simp: in_set_conv_nth)
    moreover from assms have "\<not> live_handle p i" by blast
    ultimately show "hd_released x" by (simp add: live_handle_def handle_at_def)
  qed
  then show ?thesis unfolding handles_hold_def by (intro all_empty) (auto simp: handle_tokens_def)
qed

lemma quiet_issue:
  assumes "follows p Hs Fs" and "at_rest p"
  shows "issue (pr_system p) x = 0"
proof -
  have "sum_list Hs = {#}"
    using assms idle_empty [OF assms(1)] by (intro all_empty) (auto simp: in_set_conv_nth follows_def at_rest_def)
  with assms no_live_handles [of p] show ?thesis by (auto simp: follows_def consistent_def at_rest_def)
qed

lemma issue_nonneg: "(\<And>y. x \<noteq> T_runtime y) \<Longrightarrow> 0 \<le> sum_list (map (\<lambda>p. entry_issue p x) ps)"
proof (induction ps)
  case (Cons p ps)
  then show ?case by (cases p; cases x) (auto simp: of_bool_def)
qed simp

lemma entry_cache_issue:
  assumes "(k, e) \<in> set (rc_entries c)" and "\<And>y. x \<noteq> T_runtime y"
  shows "entry_issue (k, e) x \<le> cache_issue c x"
proof -
  obtain xs ys where s: "rc_entries c = xs @ (k, e) # ys" using assms(1) by (meson split_list)
  show ?thesis using cache_issue_split [OF s, of x] issue_nonneg [OF assms(2), of xs] issue_nonneg [OF assms(2), of ys] by simp
qed

lemma quiet_entry:
  assumes "follows p Hs Fs" and "at_rest p" and "(k, e) \<in> set (rc_entries (ss_cache (pr_system p)))"
  shows "evictable e"
proof -
  let ?c = "ss_cache (pr_system p)"
  have zero: "entry_issue (k, e) x \<le> 0" if "cache_issue ?c x = 0" "\<And>y. x \<noteq> T_runtime y" for x
    using entry_cache_issue [OF assms(3) that(2)] that(1) by simp
  note none = quiet_issue [OF assms(1,2)]
  from zero [of "T_lease k (en_ref e)"] none [of "T_lease k (en_ref e)"] have "en_lease_count e = 0" by simp
  moreover from zero [of "T_reserved k (en_ref e)"] none [of "T_reserved k (en_ref e)"] have "en_state e \<noteq> Rt_loading" by auto
  moreover from zero [of "T_retiring k (en_ref e)"] none [of "T_retiring k (en_ref e)"] have "en_state e \<noteq> Rt_retiring" by auto
  ultimately show ?thesis by (cases "en_state e") (auto simp: evictable_states)
qed

text \<open>
  C8: nothing leaks. When every call has returned and every handle is released, all permits are
  back, no lock is held and no thread is credited, every entry of the cache is idle and evictable,
  and every runtime that was ever loaded is either offered by exactly one entry or has been cleaned
  up exactly once.
\<close>

theorem nothing_leaks:
  assumes "reached registry env max_entries limits capacity n evs p" and "at_rest p"
  shows "ss_permits (pr_system p) = ss_capacity (pr_system p) \<and>
    (\<forall>k. \<not> ss_load_locks (pr_system p) k) \<and> (\<forall>r. \<not> ss_exec_locks (pr_system p) r) \<and> (\<forall>t. ss_held (pr_system p) t = 0) \<and>
    (\<forall>(k, e) \<in> set (rc_entries (ss_cache (pr_system p))). evictable e) \<and>
    (\<forall>x < ss_next_runtime (pr_system p).
       count_list (ss_cleaned (pr_system p)) x + residents x (ss_cache (pr_system p)) = 1)"
proof -
  from assms(1) obtain Hs Fs where inv: "follows p Hs Fs" by (rule reached_follows)
  note none = quiet_issue [OF inv assms(2)]
  have "ss_permits (pr_system p) = ss_capacity (pr_system p)" using none [of T_permit] by simp
  moreover have "\<not> ss_load_locks (pr_system p) k" for k using none [of "T_load k"] by simp
  moreover have "\<not> ss_exec_locks (pr_system p) r" for r using none [of "T_exec r"] by simp
  moreover have "ss_held (pr_system p) t = 0" for t using none [of "T_credit t"] by simp
  moreover have "count_list (ss_cleaned (pr_system p)) x + residents x (ss_cache (pr_system p)) = 1"
    if "x < ss_next_runtime (pr_system p)" for x
    using none [of "T_runtime x"] that by (simp add: residents_issue)
  ultimately show ?thesis using quiet_entry [OF inv assms(2)] by blast
qed

lemma sample_quiet: "at_rest sample_over"
proof -
  have "list_all idle_thread (pr_threads sample_over)" and "list_all hd_released (ss_handles (pr_system sample_over))"
    by code_simp+
  then show ?thesis by (auto simp: at_rest_def live_handle_def handle_at_def list_all_length)
qed

lemma nothing_leaks_witness:
  "ss_permits (pr_system sample_over) = 1 \<and> ss_next_runtime (pr_system sample_over) = 1 \<and>
   count_list (ss_cleaned (pr_system sample_over)) 0 + residents 0 (ss_cache (pr_system sample_over)) = 1"
proof -
  have "ss_capacity (pr_system sample_over) = 1" and "ss_next_runtime (pr_system sample_over) = 1" by code_simp+
  with nothing_leaks [OF sample_reached(2) sample_quiet] show ?thesis by simp
qed

section \<open>No deadlock\<close>







section \<open>Calls end\<close>










definition sample_parked :: runtime_process where "sample_parked = the sample_contended"

lemma sample_parked_reached: "reached sample_registry (\<lambda>_. None) 1 [] 3 3 sample_contention sample_parked"
proof -
  have "\<not> Option.is_none sample_contended" by code_simp
  then show ?thesis
    unfolding sample_parked_def by (cases sample_contended) (auto simp: reached_def sample_contended_def split: sum.splits)
qed

text \<open>
  C12: no wake-up is lost. A thread that is parked in the cache's condition variable is inside
  \<open>wait_for_stale_entry_drain\<close> and the entry it waits for still blocks it: whatever ends the
  blocking, the last lease given back or the retired entry removed, notifies.
\<close>

theorem no_wakeup_is_lost:
  assumes "reached registry env max_entries limits capacity n evs p"
    and "t \<in> set (rc_waiters (ss_cache (pr_system p)))"
  shows "t < length (pr_threads p) \<and>
    (\<exists>k r bounded f. pr_threads p ! t = Do (A_wait_drain k r bounded) f \<and> still_blocks k r (ss_cache (pr_system p)))"
  using parked_okD [OF reached_parked_ok [OF assms(1)] assms(2)] by metis

lemma no_wakeup_is_lost_witness:
  "1 \<in> set (rc_waiters (ss_cache (pr_system sample_parked))) \<and> (\<exists>k r. still_blocks k r (ss_cache (pr_system sample_parked)))"
proof -
  have "1 \<in> set (rc_waiters (ss_cache (pr_system sample_parked)))" by code_simp
  with no_wakeup_is_lost [OF sample_parked_reached, of 1] show ?thesis by blast
qed



text \<open>
  C22: waiting out a drain converges. A call that lost its runtime to an invalidation and then waits
  for the last stale lease retries at most once more: the bound of two rounds that the model gives the
  loop is never the reason a call ends.
\<close>

theorem drain_wait_converges:
  assumes "reached registry env max_entries limits capacity n evs p"
    and "t < length (pr_threads p)" and "pr_threads p ! t = Return r"
  shows "r \<noteq> Inl Rt_out_of_rounds"
proof -
  from assms(1) obtain Hs Fs where "follows p Hs Fs" by (rule reached_follows)
  with assms(2,3) show ?thesis by (auto simp: follows_def ended_def)
qed

lemma drain_wait_converges_witness:
  "\<exists>r. pr_threads sample_over ! 0 = Return r \<and> r \<noteq> Inl Rt_out_of_rounds"
proof -
  have t: "length (pr_threads sample_over) = 2" by code_simp
  then have "0 < length (pr_threads sample_over)" by simp
  moreover from this sample_quiet obtain r where "pr_threads sample_over ! 0 = Return r"
    unfolding at_rest_def by (blast elim: idle_threadE)
  ultimately show ?thesis using drain_wait_converges [OF sample_reached(2)] by blast
qed

end
