(* ===== verification/Runtime_Capacity.thy ===== *)
theory Runtime_Capacity imports Runtime_Facts begin

text \<open>
  The budgets of the cache: whom an overflow retires, and that acquisitions never put more runtimes
  into a bucket than its budget allows.
\<close>

section \<open>Overflow\<close>

definition candidate :: "string option \<Rightarrow> string \<times> runtime_entry \<Rightarrow> bool" where
  "candidate ex p \<longleftrightarrow> Some (fst p) \<noteq> ex \<and> evictable (snd p)"

definition staying :: "string \<Rightarrow> runtime_cache \<Rightarrow> nat" where
  "staying b c = length (filter (\<lambda>p. en_media_bucket (snd p) = b \<and> en_state (snd p) \<noteq> Rt_retiring) (rc_entries c))"

lemma staying_diff: "length (bucket_entries b c) - retiring_count b c = staying b c"
proof -
  have "length (filter (\<lambda>(k, e). en_media_bucket e = b) ps) =
      length (filter (\<lambda>(k, e). en_state e = Rt_retiring) (filter (\<lambda>(k, e). en_media_bucket e = b) ps)) +
      length (filter (\<lambda>p. en_media_bucket (snd p) = b \<and> en_state (snd p) \<noteq> Rt_retiring) ps)" for ps
    by (induction ps) auto
  from this [of "rc_entries c"] show ?thesis by (simp add: bucket_entries_def retiring_count_def staying_def)
qed

lemma find_filter: "find P xs = (case filter P xs of [] \<Rightarrow> None | x # _ \<Rightarrow> Some x)"
  by (induction xs) auto

definition candidates :: "string \<Rightarrow> string option \<Rightarrow> runtime_cache \<Rightarrow> (string \<times> runtime_entry) list" where
  "candidates b ex c = filter (candidate ex) (bucket_entries b c)"

lemma overflow_victim_first:
  "overflow_victim b ex c =
    (if staying b c \<le> budget_of b c then None
     else case candidates b ex c of [] \<Rightarrow> None | v # _ \<Rightarrow> Some v)"
proof -
  have "(\<lambda>(k, e). Some k \<noteq> ex \<and> evictable e) = candidate ex" by (auto simp: candidate_def fun_eq_iff)
  then show ?thesis by (simp add: overflow_victim_def staying_diff candidates_def find_filter)
qed

lemma retire_first:
  assumes "cache_ok c" and "candidates b ex c = (k, e) # vs"
  shows "candidates b ex (retire k c) = vs" and "staying b c = Suc (staying b (retire k c))"
    and "budget_of b (retire k c) = budget_of b c"
proof -
  have "(k, e) \<in> set (candidates b ex c)" using assms(2) by simp
  then have mem: "(k, e) \<in> set (bucket_entries b c)" "candidate ex (k, e)" by (auto simp: candidates_def)
  note at = bucket_candidate [OF assms(1) mem(1)]
  obtain xs ys where s: "rc_entries c = xs @ (k, e) # ys" "k \<notin> fst ` set xs" "k \<notin> fst ` set ys"
    using assms(1) conjunct1 [OF at] by (rule entry_at_split)
  then have r: "rc_entries (retire k c) = xs @ (k, e\<lparr>en_state := Rt_retiring\<rparr>) # ys"
    by (simp add: retire_def change_entry_def untouched_keys)
  define pick where "pick = (\<lambda>ps. filter (candidate ex) (filter (\<lambda>(k, e). en_media_bucket e = b) ps))"
  have "pick xs @ (k, e) # pick ys = (k, e) # vs"
    using assms(2) at mem(2) by (simp add: candidates_def bucket_entries_def s(1) pick_def)
  moreover have "(k, e) \<notin> set (pick xs)" using s(2) by (force simp: pick_def)
  ultimately have "pick xs = [] \<and> pick ys = vs" by (cases "pick xs") auto
  then show "candidates b ex (retire k c) = vs"
    by (simp add: candidates_def bucket_entries_def r candidate_def evictable_states pick_def)
  show "staying b c = Suc (staying b (retire k c))"
    using at mem(2) by (auto simp: staying_def s(1) r candidate_def evictable_states)
  show "budget_of b (retire k c) = budget_of b c" by (simp add: budget_of_def retire_def change_entry_def split: option.split)
qed

definition retired :: "string \<times> runtime_entry \<Rightarrow> string \<times> runtime_entry" where
  "retired p = (fst p, (snd p)\<lparr>en_state := Rt_retiring\<rparr>)"

text \<open>
  C29: an overflow retires exactly the excess. The loop that looks for one victim after the other
  picks the oldest idle entries of the bucket, in order of use, as many as the bucket is over budget
  once the entries already being retired have left, or all of them when there are fewer; the entry
  that was just inserted is not among them.
\<close>

theorem overflow_retires_the_excess:
  assumes "cache_ok c"
  shows "fst (evict_bucket_overflow b ex c) =
    map retired (take (staying b c - budget_of b c) (filter (candidate ex) (bucket_entries b c)))"
proof -
  have "fst (evict_bucket_overflow b ex c) = map retired (take (staying b c - budget_of b c) (candidates b ex c))"
    using assms
  proof (induction b ex c rule: evict_bucket_overflow.induct)
    case (1 b ex c)
    show ?case
    proof (cases "overflow_victim b ex c")
      case None
      then have "staying b c \<le> budget_of b c \<or> candidates b ex c = []"
        by (auto simp: overflow_victim_first split: if_splits list.splits)
      with None show ?thesis by (auto simp: evict_bucket_overflow.simps)
    next
      case (Some p)
      obtain k e where p: "p = (k, e)" by (cases p)
      from Some p obtain vs where over: "budget_of b c < staying b c" and vs: "candidates b ex c = (k, e) # vs"
        by (auto simp: overflow_victim_first split: if_splits list.splits)
      note first = retire_first [OF "1.prems" vs]
      have "cache_ok (retire k c)"
        using overflow_victim_at [OF "1.prems" Some [unfolded p]] moves_retire "1.prems" moves_ok by blast
      from "1.IH" [OF Some p [symmetric] this] first over vs
      have "fst (evict_bucket_overflow b ex (retire k c)) = map retired (take (staying b c - Suc (budget_of b c)) vs)" by simp
      moreover have "staying b c - budget_of b c = Suc (staying b c - Suc (budget_of b c))" using over by simp
      ultimately show ?thesis
        using Some p vs by (subst evict_bucket_overflow.simps) (simp add: retired_def)
    qed
  qed
  then show ?thesis by (simp add: candidates_def)
qed

text \<open>A bucket that is two over its budget and whose oldest entry is pinned.\<close>

definition sample_entry :: "string \<Rightarrow> nat \<Rightarrow> nat \<Rightarrow> runtime_entry" where
  "sample_entry k r leases =
     \<lparr>en_ref = r, en_canonical_id = k, en_media_bucket = ''image'', en_state = Rt_ready, en_runtime = Some r,
      en_lease_count = leases, en_generation = 1, en_admission_class = ''default''\<rparr>"

definition sample_cache :: runtime_cache where
  "sample_cache =
     \<lparr>rc_max_entries = 2, rc_media_limits = [(''image'', 1)],
      rc_entries = map (\<lambda>(k, r, leases). (k, sample_entry k r leases)) [(''a'', 0, 1), (''b'', 1, 0), (''c'', 2, 0)],
      rc_last_generation = (\<lambda>_. None), rc_next_ref = 3, rc_waiters = []\<rparr>"

lemma overflow_retires_the_excess_witness:
  "map fst (fst (evict_bucket_overflow ''image'' (Some ''c'') sample_cache)) = [''b'']"
proof -
  have "cache_ok sample_cache" by (simp add: cache_ok_def entry_ok_def sample_cache_def sample_entry_def)
  moreover have "staying ''image'' sample_cache - budget_of ''image'' sample_cache = 2" by code_simp
  moreover have "filter (candidate (Some ''c'')) (bucket_entries ''image'' sample_cache) = [(''b'', sample_entry ''b'' 1 0)]"
    by (simp add: bucket_entries_def sample_cache_def sample_entry_def candidate_def evictable_states is_pinned_def)
  ultimately show ?thesis using overflow_retires_the_excess [of sample_cache "''image''" "Some ''c''"] by (simp add: retired_def)
qed

section \<open>Budgets\<close>

definition within_budget :: "runtime_cache \<Rightarrow> bool" where
  "within_budget c \<longleftrightarrow> (\<forall>b. length (bucket_entries b c) \<le> budget_of b c)"

text \<open>A block that leaves the budgets alone and lets no bucket grow.\<close>

definition no_larger :: "runtime_cache \<Rightarrow> runtime_cache \<Rightarrow> bool" where
  "no_larger c c' \<longleftrightarrow>
     rc_media_limits c' = rc_media_limits c \<and> rc_max_entries c' = rc_max_entries c \<and>
     (\<forall>b. length (bucket_entries b c') \<le> length (bucket_entries b c))"

lemma no_larger_refl [simp]: "no_larger c c" by (simp add: no_larger_def)

lemma no_larger_trans: "no_larger c d \<Longrightarrow> no_larger d e \<Longrightarrow> no_larger c e"
  by (auto simp: no_larger_def intro: order_trans)

lemma no_larger_budget:
  assumes "no_larger c c'" and "within_budget c" shows "within_budget c'"
  unfolding within_budget_def
proof
  fix b
  have "budget_of b c' = budget_of b c" using assms(1) by (simp add: no_larger_def budget_of_def cong: option.case_cong)
  moreover have "length (bucket_entries b c') \<le> length (bucket_entries b c)" using assms(1) by (simp add: no_larger_def)
  ultimately show "length (bucket_entries b c') \<le> budget_of b c'"
    using assms(2) order_trans unfolding within_budget_def by metis
qed

text \<open>Who is parked does not matter to the budgets.\<close>

lemma waiters_no_size [simp]:
  "no_larger c (notify_all c') = no_larger c c'" "within_budget (cache_park t c) = within_budget c"
  "within_budget (cache_unpark t c) = within_budget c"
  by (simp_all add: no_larger_def within_budget_def bucket_entries_def budget_of_def notify_all_def cache_park_def
      cache_unpark_def cong: option.case_cong)

lemma no_larger_change:
  assumes "\<And>e. en_media_bucket (f e) = en_media_bucket e"
  shows "no_larger c (change_entry k f c)"
proof -
  have "length (filter (\<lambda>(k, e). en_media_bucket e = b) (map (\<lambda>(j, e). (j, if j = k then f e else e)) ps)) =
      length (filter (\<lambda>(k, e). en_media_bucket e = b) ps)" for b ps
  proof (induction ps)
    case (Cons p ps)
    then show ?case by (cases p) (simp add: assms del: filter_map)
  qed simp
  from this [of _ "rc_entries c"] show ?thesis
    by (simp add: no_larger_def bucket_entries_def change_entry_def del: filter_map)
qed

lemma no_larger_move: "no_larger c (move_to_end k c)"
proof -
  have "length (filter (\<lambda>(k, e). en_media_bucket e = b) (filter (\<lambda>(j, e). j \<noteq> k) ps)) +
      length (filter (\<lambda>(k, e). en_media_bucket e = b) (filter (\<lambda>(j, e). j = k) ps)) =
      length (filter (\<lambda>(k, e). en_media_bucket e = b) ps)" for b ps
    by (induction ps) auto
  from this [of _ "rc_entries c"] show ?thesis
    by (simp add: no_larger_def bucket_entries_def move_to_end_def del: filter_filter)
qed

lemma no_larger_delete: "no_larger c (delete_entry k c)"
proof -
  have "length (filter (\<lambda>(k, e). en_media_bucket e = b) (filter (\<lambda>(j, e). j \<noteq> k) ps)) \<le>
      length (filter (\<lambda>(k, e). en_media_bucket e = b) ps)" for b ps
    by (induction ps) auto
  from this [of _ "rc_entries c"] show ?thesis
    by (simp add: no_larger_def bucket_entries_def delete_entry_def del: filter_filter)
qed

lemma no_larger_retire: "no_larger c (retire k c)"
  unfolding retire_def by (rule no_larger_change) simp

lemma no_larger_overflow: "no_larger c (snd (evict_bucket_overflow b ex c))"
proof (induction b ex c rule: evict_bucket_overflow.induct)
  case (1 b ex c)
  show ?case
  proof (cases "overflow_victim b ex c")
    case None
    then show ?thesis by (simp add: evict_bucket_overflow.simps)
  next
    case (Some p)
    obtain k e where p: "p = (k, e)" by (cases p)
    from no_larger_trans [OF no_larger_retire "1.IH" [OF Some p [symmetric]]] Some p show ?thesis
      by (subst evict_bucket_overflow.simps) simp
  qed
qed

lemma within_budget_add:
  assumes "within_budget c" and "select_capacity_victim b c = Inr None"
  shows "within_budget (add_entry k b state runtime c)"
proof -
  from assms(2) have "length (bucket_entries b c) < budget_of b c"
    by (auto simp: select_capacity_victim_def Let_def split: if_splits list.splits)
  moreover have "budget_of d (add_entry k b state runtime c) = budget_of d c" for d
    by (simp add: budget_of_def add_entry_def cong: option.case_cong)
  moreover have "length (bucket_entries d (add_entry k b state runtime c)) =
      (if d = b then Suc (length (bucket_entries d c)) else length (bucket_entries d c))" for d
    by (simp add: bucket_entries_def add_entry_def new_entry_def)
  ultimately show ?thesis using assms(1) by (auto simp: within_budget_def Suc_le_eq)
qed

lemma pin_within:
  assumes "cache_ok c" and "within_budget c" and "entry_at k c = Some e"
  shows "within_budget (move_to_end k (change_entry k (\<lambda>_. e\<lparr>en_lease_count := n\<rparr>) c))"
proof -
  have "change_entry k (\<lambda>_. e\<lparr>en_lease_count := n\<rparr>) c = change_entry k (\<lambda>e. e\<lparr>en_lease_count := n\<rparr>) c"
    using change_entry_at [OF assms(1,3), of "\<lambda>e. e\<lparr>en_lease_count := n\<rparr>"] by simp
  moreover have "no_larger c (change_entry k (\<lambda>e. e\<lparr>en_lease_count := n\<rparr>) c)" by (rule no_larger_change) simp
  ultimately show ?thesis using no_larger_trans no_larger_move no_larger_budget [OF _ assms(2)] by metis
qed

lemma reserve_within:
  assumes "cache_ok c" and "within_budget c"
  shows "within_budget (snd (cache_reserve k media c))" and "within_budget (snd (cache_reserve_again k media c))"
proof -
  have retire: "within_budget (retire j c)" for j using no_larger_budget [OF no_larger_retire assms(2)] .
  note facts = assms(2) retire pin_within [OF assms] within_budget_add [OF assms(2)]
  show "within_budget (snd (cache_reserve k media c))"
    by (auto simp: cache_reserve_def Let_def evicting_def reserved_slot_def facts split: option.splits sum.splits)
  show "within_budget (snd (cache_reserve_again k media c))"
    by (auto simp: cache_reserve_again_def Let_def reserved_slot_def facts split: option.splits sum.splits)
qed

lemma cache_block_no_larger:
  "no_larger c (snd (cache_publish k r x c))" "no_larger c (cache_abort k r c)" "no_larger c (cache_remove k r c)"
  "no_larger c (snd (cache_release_lease k r c))" "no_larger c (snd (cache_get k c))" "no_larger c (snd (cache_unload k c))"
  "no_larger c (cache_mark_invalid k r c)" "no_larger c (snd (cache_unload_all c))"
proof -
  show "no_larger c (snd (cache_publish k r x c))"
    using no_larger_trans [OF no_larger_change no_larger_move] by (auto simp: cache_publish_def)
  show "no_larger c (cache_abort k r c)" "no_larger c (cache_remove k r c)"
    by (auto simp: cache_abort_def cache_remove_def no_larger_delete no_larger_refl)
  show "no_larger c (snd (cache_release_lease k r c))"
    using no_larger_trans [OF _ no_larger_overflow, of c "notify_all (change_entry _ _ c)"]
    by (auto simp: cache_release_lease_def Let_def no_larger_change split: option.splits)
  show "no_larger c (snd (cache_get k c))" by (auto simp: cache_get_def no_larger_move split: option.splits)
  show "no_larger c (snd (cache_unload k c))" by (auto simp: cache_unload_def no_larger_retire split: option.splits)
  show "no_larger c (cache_mark_invalid k r c)" by (auto simp: cache_mark_invalid_def intro!: no_larger_change)
  have "length (filter (\<lambda>(k, e). en_media_bucket e = b) (map (\<lambda>(k, e). (k, e\<lparr>en_state := Rt_retiring\<rparr>)) ps)) =
      length (filter (\<lambda>(k, e). en_media_bucket e = b) ps)" for b ps
    by (induction ps) auto
  from this [of _ "rc_entries c"] show "no_larger c (snd (cache_unload_all c))"
    by (auto simp: cache_unload_all_def Let_def no_larger_def bucket_entries_def simp del: filter_map)
qed

lemma on_cache_within:
  "on_cache f g s = Some (r, s') \<Longrightarrow> within_budget (snd (f (ss_cache s))) \<Longrightarrow> within_budget (ss_cache s')"
  by (auto simp: on_cache_def split: prod.splits)

lemma invalidate_within: "within_budget (ss_cache s) \<Longrightarrow> within_budget (ss_cache (invalidate_handle h s))"
  by (auto simp: invalidate_handle_def intro: no_larger_budget cache_block_no_larger split: option.splits)

fun is_put :: "rt_act \<Rightarrow> bool" where
  "is_put (A_put k x media) = True"
| "is_put _ = False"

lemma exec_within:
  assumes "cache_ok (ss_cache s)" and "within_budget (ss_cache s)" and "\<not> is_put a" and "exec t a ch s = Some (r, s')"
  shows "within_budget (ss_cache s')"
proof -
  note blocks = no_larger_budget [OF cache_block_no_larger(1) assms(2)] no_larger_budget [OF cache_block_no_larger(2) assms(2)]
    no_larger_budget [OF cache_block_no_larger(3) assms(2)] no_larger_budget [OF cache_block_no_larger(4) assms(2)]
    no_larger_budget [OF cache_block_no_larger(5) assms(2)] no_larger_budget [OF cache_block_no_larger(6) assms(2)]
    no_larger_budget [OF cache_block_no_larger(8) assms(2)] reserve_within [OF assms(1,2)]
  have same: "within_budget (ss_cache s')" if "ss_cache s' = ss_cache s" using that assms(2) by simp
  show ?thesis
  proof (cases a)
    case (A_begin_exit h b)
    with assms(2,4) show ?thesis
      by (auto simp: begin_exit_def set_handle_def Let_def split: option.splits if_splits intro!: invalidate_within)
  qed (use assms in \<open>auto simp: wait_for_def new_handle_def enter_handle_def begin_release_def set_handle_def Let_def
      blocks invalidate_within dest!: on_cache_within split: option.splits if_splits env_choice.splits\<close>)
qed

section \<open>Programs that put nothing into the cache\<close>

primrec put_free :: "'a prog \<Rightarrow> bool" where
  "put_free (Return r) = True"
| "put_free (Do a k) = (\<not> is_put a \<and> (\<forall>r. put_free (k r)))"

lemma put_free_continue: "put_free m \<Longrightarrow> (\<And>r. put_free (f r)) \<Longrightarrow> put_free (continue m f)"
  by (induction m) auto

lemma put_free_plain [simp, intro]: "put_free (done_with x)" "put_free (throw e)" "put_free unexpected"
  by (simp_all add: done_with_def throw_def unexpected_def)

lemma put_free_bind [intro]:
  "put_free m \<Longrightarrow> (\<And>x. put_free (f x)) \<Longrightarrow> put_free (seq m f)"
  "put_free m \<Longrightarrow> put_free g \<Longrightarrow> put_free (with_cleanup m g)"
  "put_free m \<Longrightarrow> put_free g \<Longrightarrow> put_free (on_error m g)"
  by (auto simp: seq_def with_cleanup_def on_error_def intro!: put_free_continue split: sum.splits)

lemma put_free_acts [simp, intro]:
  "\<not> is_put a \<Longrightarrow> put_free (perform_act a)" "\<not> is_put a \<Longrightarrow> put_free (ask a)" "\<not> is_put a \<Longrightarrow> put_free (fetch_runtime a)"
  "\<not> is_put a \<Longrightarrow> put_free (fetch_reservation a)" "\<not> is_put a \<Longrightarrow> put_free (fetch_victims a)"
  "\<not> is_put a \<Longrightarrow> put_free (fetch_teardown a)"
  by (auto simp: perform_act_def ask_def fetch_runtime_def fetch_reservation_def fetch_victims_def fetch_teardown_def
      split: res.splits)

lemma put_free_cache [intro]:
  "put_free (finish_retirement k e)" "put_free (finish_each vs fe)" "put_free (release_lease k r)" "put_free (unload k)"
  "put_free unload_all" "put_free (acquire_or_reserve k media)" "put_free (load_reserved k e)"
proof -
  show finish: "put_free (finish_retirement k e)" for k e
    by (auto simp: finish_retirement_def run_cleanup_def split: option.splits)
  show each: "put_free (finish_each vs fe)" for vs fe
    by (induction vs fe rule: finish_each.induct) (auto intro!: put_free_continue finish split: option.splits)
  show "put_free (release_lease k r)" "put_free unload_all"
    by (auto simp: release_lease_def unload_all_def each)
  show "put_free (unload k)" by (auto simp: unload_def finish split: res.splits option.splits)
  show "put_free (acquire_or_reserve k media)"
    by (auto simp: acquire_or_reserve_def finish intro!: put_free_bind split: reservation.splits)
  show "put_free (load_reserved k e)"
    by (auto simp: load_reserved_def run_cleanup_def intro!: put_free_bind split: option.splits)
qed

lemma put_free_entry [intro]:
  "put_free (acquire_entry_and_execution_lock k media bounded)"
  "put_free (acquire_entry_after_revalidation_failure n k media bounded x)"
  "put_free (acquire_entry_with_execution_lock k media bounded drain)"
proof -
  have load: "put_free (acquire_or_load_entry k media bounded)"
    by (auto simp: acquire_or_load_entry_def intro!: put_free_bind put_free_cache)
  have lock: "put_free (acquire_execution_lock k r bounded)" for r
    by (auto simp: acquire_execution_lock_def intro!: put_free_bind)
  show entry: "put_free (acquire_entry_and_execution_lock k media bounded)"
    using load lock by (auto simp: acquire_entry_and_execution_lock_def intro!: put_free_bind)
  show again: "put_free (acquire_entry_after_revalidation_failure n k media bounded x)" for n x
    by (induction n) (auto intro!: put_free_continue entry put_free_bind split: sum.splits rt_error.splits)
  show "put_free (acquire_entry_with_execution_lock k media bounded drain)"
    by (auto simp: acquire_entry_with_execution_lock_def Let_def intro!: put_free_continue entry again
        split: sum.splits rt_error.splits)
qed

lemma put_free_calls:
  assumes "\<forall>m media task. call \<noteq> Call_resolve m media task"
  shows "put_free (call_program registry t call)"
proof -
  have admission: "put_free (release_admission u)" "put_free (acquire_admission bounded)" for u bounded
    by (auto simp: release_admission_def acquire_admission_def intro!: put_free_bind)
  have handle: "put_free (make_handle k r)" for k r by (auto simp: make_handle_def split: res.splits)
  have slice: "put_free (acquire_runtime_slice u k media bounded drain)" for u k media bounded drain
    unfolding acquire_runtime_slice_def
    by (auto intro!: put_free_bind put_free_entry put_free_cache admission handle split: sum.splits prod.splits)
  have guard: "put_free (cloud_guard m)" for m by (auto simp: cloud_guard_def)
  have slices: "put_free (acquire_runtime_slices n u m media bounded drain)" for n u m media bounded drain
    by (induction n arbitrary: drain) (auto intro!: put_free_bind guard slice split: sum.splits prod.splits)
  have manifest: "(\<And>m. put_free (f m)) \<Longrightarrow> put_free (with_manifest registry i media task f)" for f :: "manifest \<Rightarrow> nat prog" and i media task
    by (auto simp: with_manifest_def split: sum.splits)
  have teardown: "put_free (teardown h)" for h by (auto simp: teardown_def intro!: put_free_bind admission)
  have forget: "put_free m \<Longrightarrow> put_free (forget m)" for m :: "nat prog" by (auto simp: forget_def)
  from assms show ?thesis
    by (cases call)
      (auto simp: acquire_runtime_def acquire_runtime_with_checkpoints_def handle_enter_def handle_exit_def handle_release_def
        unload_model_def intro!: forget manifest put_free_bind guard slice slices teardown split: sum.splits prod.splits option.splits)
qed

text \<open>
  C19: acquisitions never overfill the cache. As long as nobody uses the old interface that puts
  runtimes into the cache by hand, no bucket ever holds more entries, loading and retiring ones
  included, than its budget, however the calls interleave.
\<close>

theorem budgets_are_kept:
  assumes "reached registry env max_entries limits capacity n evs p"
    and "\<forall>t m media task. Call t (Call_resolve m media task) \<notin> set evs"
  shows "length (bucket_entries b (ss_cache (pr_system p))) \<le> budget_of b (ss_cache (pr_system p))"
proof -
  define tame where "tame q \<longleftrightarrow> (\<exists>Hs Fs. follows q Hs Fs) \<and> within_budget (ss_cache (pr_system q)) \<and>
    (\<forall>t < length (pr_threads q). put_free (pr_threads q ! t))" for q
  have step: "tame q'" if tame: "tame q" and "ev \<in> set evs" and run: "happen ev q = Some q'" for ev q q'
  proof -
    from tame obtain Hs Fs where inv: "follows q Hs Fs" by (auto simp: tame_def)
    then have ok: "cache_ok (ss_cache (pr_system q))" by (simp add: follows_def consistent_def)
    show ?thesis
    proof (cases ev)
      case (Call t call)
      with assms(2) that(2) have "\<forall>m media task. call \<noteq> Call_resolve m media task" by blast
      from put_free_calls [OF this] Call run tame follows_happen [OF inv run] show ?thesis
        by (auto simp: tame_def nth_list_update split: if_splits)
    next
      case (Step t ch)
      with run have "happen (Step t ch) q = Some q'" by simp
      then show ?thesis
      proof (cases rule: happen_stepE)
        case (parked a k)
        with tame follows_happen [OF inv run] show ?thesis
          by (auto simp: tame_def park_def)
      next
        case s: (answered a k r s')
        from tame s have "put_free (Do a k)" by (metis tame_def)
        with exec_within [OF ok _ _ s(3)] tame s follows_happen [OF inv run] show ?thesis
          by (auto simp: tame_def nth_list_update)
      qed
    next
      case (Setenv name v)
      with run tame follows_happen [OF inv run] show ?thesis by (auto simp: tame_def)
    qed
  qed
  have "tame q \<Longrightarrow> set es \<subseteq> set evs \<Longrightarrow> run es q = Some p \<Longrightarrow> tame p" for es q
    by (induction es arbitrary: q) (auto split: option.splits intro: step)
  moreover obtain p0 where p0: "start_process registry env max_entries limits capacity n = Inr p0" "run evs p0 = Some p"
    using assms(1) by (auto simp: reached_def split: sum.splits)
  moreover have "tame p0"
  proof -
    from p0(1) have "rc_entries (ss_cache (pr_system p0)) = []" "pr_threads p0 = replicate n (Return (Inr ()))"
      by (auto simp: start_process_def init_system_def init_cache_def split: sum.splits if_splits option.splits)
    with follows_start [OF p0(1)] show ?thesis by (auto simp: tame_def within_budget_def bucket_entries_def)
  qed
  ultimately show ?thesis by (auto simp: tame_def within_budget_def)
qed

lemma budgets_are_kept_witness:
  "length (bucket_entries DEFAULT_BUCKET (ss_cache (pr_system sample_out))) = 1"
proof -
  have none: "\<forall>t m media task. Call t (Call_resolve m media task) \<notin> set sample_events"
    by (auto simp: sample_events_def sample_steps_def sample_acquire_def)
  have "budget_of DEFAULT_BUCKET (ss_cache (pr_system sample_out)) = 1"
    and "0 < length (bucket_entries DEFAULT_BUCKET (ss_cache (pr_system sample_out)))" by code_simp+
  with budgets_are_kept [OF sample_reached(1) none, of DEFAULT_BUCKET] show ?thesis by linarith
qed

end
