(* ===== verification/Text_Units.thy ===== *)
theory Text_Units imports Py_Float "HOL-Library.Sublist" begin

text \<open>
  \<open>core/story/text_utils.py\<close>: measuring, re-joining and splitting narration, which is Japanese or
  Latin text. A text is the list of its code points.

  Which code points are alphanumeric or decimal digits is the Unicode database's business and a
  parameter; which are whitespace, and which of the script ranges are punctuation, is written out.
  \<open>textwrap\<close> of the standard library is modelled as far as it is used: \<open>_split\<close> and
  \<open>_wrap_chunks\<close> of Python 3.11, with the default options and without indentation. Its treatment of
  tabs is left out, because \<open>collapse_whitespace\<close> leaves no whitespace but single spaces.
\<close>

type_synonym utext = "int list"

record unicode_data =
  ud_alnum :: "int \<Rightarrow> bool"
  ud_decimal :: "int \<Rightarrow> bool"

definition py_space :: "int \<Rightarrow> bool" where
  "py_space c \<longleftrightarrow>
     9 \<le> c \<and> c \<le> 13 \<or> 28 \<le> c \<and> c \<le> 32 \<or> c = 133 \<or> c = 160 \<or> c = 5760 \<or> 8192 \<le> c \<and> c \<le> 8202 \<or>
     c = 8232 \<or> c = 8233 \<or> c = 8239 \<or> c = 8287 \<or> c = 12288"

definition u_strip :: "utext \<Rightarrow> utext" where
  "u_strip t = rev (dropWhile py_space (rev (dropWhile py_space t)))"

text \<open>\<open>str.split()\<close>.\<close>

fun u_words_from :: "utext \<Rightarrow> utext \<Rightarrow> utext list" where
  "u_words_from word [] = (if word = [] then [] else [word])"
| "u_words_from word (c # t) =
     (if py_space c then (if word = [] then u_words_from [] t else word # u_words_from [] t)
      else u_words_from (word @ [c]) t)"

definition u_words :: "utext \<Rightarrow> utext list" where "u_words t = u_words_from [] t"

section \<open>Scripts without spaces\<close>

definition CJK_RANGES :: "(int \<times> int) list" where
  "CJK_RANGES =
     [(0x3040, 0x309F), (0x30A0, 0x30FF), (0x3400, 0x4DBF), (0x4E00, 0x9FFF), (0xAC00, 0xD7A3),
      (0xF900, 0xFAFF), (0xFF66, 0xFF9D), (0x20000, 0x2A6DF)]"

definition in_cjk_ranges :: "int \<Rightarrow> bool" where
  "in_cjk_ranges c \<longleftrightarrow> list_ex (\<lambda>(low, high). low \<le> c \<and> c \<le> high) CJK_RANGES"

text \<open>The two code points of these ranges that are punctuation (category P) are no words.\<close>

definition is_cjk_char :: "int \<Rightarrow> bool" where
  "is_cjk_char c \<longleftrightarrow> c \<notin> {0x30A0, 0x30FB} \<and> in_cjk_ranges c"

definition is_cjk_context_char :: "int \<Rightarrow> bool" where
  "is_cjk_context_char c \<longleftrightarrow> 0x3000 \<le> c \<and> c \<le> 0x303F \<or> 0xFF01 \<le> c \<and> c \<le> 0xFF65 \<or> in_cjk_ranges c"

definition CJK_TEXT_THRESHOLD :: rat where "CJK_TEXT_THRESHOLD = fl (3 / 10)"

definition SUBTITLE_MAX_CHARS_LATIN :: int where "SUBTITLE_MAX_CHARS_LATIN = 42"

definition SUBTITLE_MAX_CHARS_CJK :: int where "SUBTITLE_MAX_CHARS_CJK = 20"

definition SENTENCE_BREAKS :: utext where
  "SENTENCE_BREAKS = [0x3002, 0xFF0E, 0xFF01, 0xFF1F, 0x21, 0x3F, 0x2026]"

definition SOFT_BREAKS :: utext where
  "SOFT_BREAKS =
     [0x3001, 0xFF0C, 0x2C, 0xFF1B, 0x3B, 0xFF1A, 0x3A, 0xFF09, 0x300D, 0x300F, 0x3011, 0x3009, 0xBB]"

definition cjk_ratio :: "utext \<Rightarrow> rat" where
  "cjk_ratio t =
     (let visible = filter (\<lambda>c. \<not> py_space c) t in
      if visible = [] then 0
      else fl (of_nat (length (filter is_cjk_char visible)) / of_nat (length visible)))"

definition is_cjk_text :: "utext \<Rightarrow> bool" where "is_cjk_text t \<longleftrightarrow> CJK_TEXT_THRESHOLD \<le> cjk_ratio t"

definition count_words :: "unicode_data \<Rightarrow> utext \<Rightarrow> nat" where
  "count_words ud t =
     length (filter is_cjk_char t) +
     length (filter (list_ex (ud_alnum ud)) (u_words (map (\<lambda>c. if is_cjk_char c then 32 else c) t)))"

fun join_tokens :: "utext \<Rightarrow> utext list \<Rightarrow> utext" where
  "join_tokens joined [] = joined"
| "join_tokens joined (token # tokens) =
     join_tokens
       (if is_cjk_context_char (last joined) \<and> is_cjk_context_char (hd token) then joined @ token
        else joined @ [32] @ token) tokens"

definition collapse_whitespace :: "utext \<Rightarrow> utext" where
  "collapse_whitespace t = (case u_words t of [] \<Rightarrow> [] | token # tokens \<Rightarrow> join_tokens token tokens)"

section \<open>Wrapping text without spaces\<close>

text \<open>
  The loop of \<open>_split_cjk_lines\<close>: \<open>current\<close> is the line being filled, \<open>soft_break_at\<close> the length of its
  part up to the last soft break.
\<close>

fun cjk_lines :: "int \<Rightarrow> utext \<Rightarrow> nat \<Rightarrow> utext \<Rightarrow> utext list" where
  "cjk_lines limit current soft_break_at [] = (if current = [] then [] else [current])"
| "cjk_lines limit current soft_break_at (c # t) =
     (let line = current @ [c] in
      if c \<in> set SENTENCE_BREAKS then line # cjk_lines limit [] 0 t
      else
        (let soft = (if c \<in> set SOFT_BREAKS then length line else soft_break_at) in
         if limit \<le> int (length line) then
           (if max 1 (limit div 2) \<le> int soft then take soft line # cjk_lines limit (drop soft line) 0 t
            else line # cjk_lines limit [] 0 t)
         else cjk_lines limit line soft t))"

definition split_cjk_lines :: "utext \<Rightarrow> int \<Rightarrow> utext list" where
  "split_cjk_lines t limit = filter (\<lambda>l. l \<noteq> []) (map u_strip (cjk_lines limit [] 0 t))"

section \<open>\<open>textwrap\<close>\<close>

text \<open>ASCII whitespace, the only kind at which \<open>textwrap\<close> splits.\<close>

definition tw_space :: "int \<Rightarrow> bool" where "tw_space c \<longleftrightarrow> 9 \<le> c \<and> c \<le> 13 \<or> c = 32"

function simple_chunks :: "utext \<Rightarrow> utext list" where
  "simple_chunks [] = []"
| "simple_chunks (c # t) =
     (c # takeWhile (\<lambda>d. tw_space d = tw_space c) t) # simple_chunks (dropWhile (\<lambda>d. tw_space d = tw_space c) t)"
  by pat_completeness auto
termination by (relation "measure length") (auto simp: less_Suc_eq_le length_dropWhile_le)

text \<open>
  \<open>wordsep_re\<close>: where a chunk that starts behind the characters \<open>before\<close> (the last one first) ends.
  \<open>word_ends\<close> is the lazy part, with the characters consumed so far added to \<open>before\<close>.
\<close>

definition tw_word :: "unicode_data \<Rightarrow> int \<Rightarrow> bool" where "tw_word ud c \<longleftrightarrow> ud_alnum ud c \<or> c = 0x5F"

definition tw_letter :: "unicode_data \<Rightarrow> int \<Rightarrow> bool" where "tw_letter ud c \<longleftrightarrow> tw_word ud c \<and> \<not> ud_decimal ud c"

definition tw_punct :: "unicode_data \<Rightarrow> int \<Rightarrow> bool" where
  "tw_punct ud c \<longleftrightarrow> tw_word ud c \<or> c \<in> {0x21, 0x22, 0x27, 0x26, 0x2E, 0x2C, 0x3F}"

definition dash_run :: "unicode_data \<Rightarrow> utext \<Rightarrow> bool" where
  "dash_run ud t \<longleftrightarrow>
     2 \<le> length (takeWhile ((=) 0x2D) t) \<and>
     (case dropWhile ((=) 0x2D) t of [] \<Rightarrow> False | c # _ \<Rightarrow> tw_word ud c)"

definition hyphenated :: "unicode_data \<Rightarrow> utext \<Rightarrow> utext \<Rightarrow> bool" where
  "hyphenated ud before t \<longleftrightarrow>
     (case t of
        [] \<Rightarrow> False
      | c # rest \<Rightarrow>
          c = 0x2D \<and>
          (case before of
             b # a # _ \<Rightarrow> tw_letter ud b \<and> tw_letter ud a \<or>
               (case before of b # h # a # _ \<Rightarrow> tw_letter ud b \<and> h = 0x2D \<and> tw_letter ud a | _ \<Rightarrow> False)
           | _ \<Rightarrow> False) \<and>
          (case rest of
             x # y # rest2 \<Rightarrow> tw_letter ud x \<and>
               (tw_letter ud y \<or> y = 0x2D \<and> (case rest2 of z # _ \<Rightarrow> tw_letter ud z | [] \<Rightarrow> False))
           | _ \<Rightarrow> False))"

fun word_ends :: "unicode_data \<Rightarrow> utext \<Rightarrow> utext \<Rightarrow> nat" where
  "word_ends ud before [] = 0"
| "word_ends ud before (c # t) =
     (if hyphenated ud before (c # t) then 1
      else if tw_space c then 0
      else if (case before of b # _ \<Rightarrow> tw_punct ud b | [] \<Rightarrow> False) \<and> dash_run ud (c # t) then 0
      else Suc (word_ends ud (c # before) t))"

fun chunk_size :: "unicode_data \<Rightarrow> utext \<Rightarrow> utext \<Rightarrow> nat" where
  "chunk_size ud before [] = 0"
| "chunk_size ud before (c # t) =
     (if tw_space c then Suc (length (takeWhile tw_space t))
      else if (case before of b # _ \<Rightarrow> tw_punct ud b | [] \<Rightarrow> False) \<and> dash_run ud (c # t)
      then length (takeWhile ((=) 0x2D) (c # t))
      else Suc (word_ends ud (c # before) t))"

lemma chunk_size_pos: "0 < chunk_size ud before (c # t)"
  by (auto simp: dash_run_def)

function hyphen_chunks :: "unicode_data \<Rightarrow> utext \<Rightarrow> utext \<Rightarrow> utext list" where
  "hyphen_chunks ud before [] = []"
| "hyphen_chunks ud before (c # t) =
     (let n = chunk_size ud before (c # t) in
      take n (c # t) # hyphen_chunks ud (rev (take n (c # t)) @ before) (drop n (c # t)))"
  by pat_completeness auto
termination
  by (relation "measure (\<lambda>(ud, before, t). length t)") (use chunk_size_pos in \<open>auto simp del: chunk_size.simps\<close>)

text \<open>\<open>chunk.rfind('-', 0, n)\<close>, as the number of characters up to and with the hyphen found.\<close>

definition hyphen_before :: "nat \<Rightarrow> utext \<Rightarrow> nat" where
  "hyphen_before n chunk = length (dropWhile (\<lambda>c. c \<noteq> 0x2D) (rev (take n chunk)))"

definition long_word_cut :: "bool \<Rightarrow> utext \<Rightarrow> nat \<Rightarrow> nat" where
  "long_word_cut on_hyphens chunk space_left =
     (let h = hyphen_before space_left chunk in
      if on_hyphens \<and> space_left < length chunk \<and> 1 < h \<and> list_ex (\<lambda>c. c \<noteq> 0x2D) (take (h - 1) chunk)
      then h else space_left)"

definition blank :: "utext \<Rightarrow> bool" where "blank t \<longleftrightarrow> list_all py_space t"

text \<open>The inner loop: the chunks that fit, and the rest.\<close>

fun fitting :: "nat \<Rightarrow> utext list \<Rightarrow> utext list \<times> utext list" where
  "fitting room [] = ([], [])"
| "fitting room (chunk # chunks) =
     (if length chunk \<le> room then apfst ((#) chunk) (fitting (room - length chunk) chunks) else ([], chunk # chunks))"

definition drop_blank_end :: "utext list \<Rightarrow> utext list" where
  "drop_blank_end chunks = (if chunks \<noteq> [] \<and> blank (last chunks) then butlast chunks else chunks)"

text \<open>One round of the outer loop: the pieces of the line, and what is left.\<close>

definition next_line :: "bool \<Rightarrow> nat \<Rightarrow> utext list \<Rightarrow> utext list \<times> utext list" where
  "next_line on_hyphens width chunks =
     (case fitting width chunks of
        (pieces, []) \<Rightarrow> (pieces, [])
      | (pieces, chunk # rest) \<Rightarrow>
          if width < length chunk then
            (let cut = long_word_cut on_hyphens chunk (width - length (concat pieces))
             in (pieces @ [take cut chunk], drop cut chunk # rest))
          else (pieces, chunk # rest))"


lemma fitting_append: "concat (fst (fitting n chunks) @ snd (fitting n chunks)) = concat chunks"
  by (induction n chunks rule: fitting.induct) auto

lemma fitting_lengths: "length (fst (fitting n chunks)) + length (snd (fitting n chunks)) = length chunks"
  by (induction n chunks rule: fitting.induct) auto

lemma fitting_room: "length (concat (fst (fitting n chunks))) \<le> n"
  by (induction n chunks rule: fitting.induct) auto

lemma fitting_full: "snd (fitting n chunks) = chunk # rest \<Longrightarrow> n < length (concat (fst (fitting n chunks))) + length chunk"
  by (induction n chunks rule: fitting.induct) auto

lemma hyphen_before_le: "hyphen_before n chunk \<le> n"
  unfolding hyphen_before_def by (rule order_trans [OF length_dropWhile_le]) simp

lemma long_word_cut_le: "long_word_cut on_hyphens chunk n \<le> n"
  by (simp add: long_word_cut_def Let_def hyphen_before_le)

lemma long_word_cut_pos: "0 < n \<Longrightarrow> 0 < long_word_cut on_hyphens chunk n"
  by (auto simp: long_word_cut_def Let_def)

definition chunks_size :: "utext list \<Rightarrow> nat" where "chunks_size chunks = length (concat chunks) + length chunks"

lemma next_line_less:
  assumes "chunks \<noteq> []" and "0 < width"
  shows "chunks_size (snd (next_line on_hyphens width chunks)) < chunks_size chunks"
proof -
  obtain pieces rest where f: "fitting width chunks = (pieces, rest)" by fastforce
  note append = fitting_append [of width chunks, unfolded f] and lengths = fitting_lengths [of width chunks, unfolded f]
  show ?thesis
  proof (cases rest)
    case Nil
    with f assms append lengths show ?thesis by (auto simp: next_line_def chunks_size_def)
  next
    case (Cons chunk more)
    let ?cut = "long_word_cut on_hyphens chunk (width - length (concat pieces))"
    have "length (concat chunks) = length (concat pieces) + length chunk + length (concat more)"
      using arg_cong [OF append, of length] by (simp add: Cons)
    moreover have "length chunks = length pieces + Suc (length more)" using lengths Cons by simp
    moreover have "pieces = [] \<Longrightarrow> 0 < ?cut" using assms(2) long_word_cut_pos by simp
    moreover have "pieces = [] \<Longrightarrow> width < length chunk" using fitting_full [of width chunks chunk more] f Cons by auto
    moreover have "length chunk - ?cut \<le> length chunk" by simp
    ultimately show ?thesis using f by (cases pieces) (auto simp: next_line_def chunks_size_def Cons Let_def)
  qed
qed

lemma next_line_le: "0 < width \<Longrightarrow> chunks_size (snd (next_line on_hyphens width chunks)) \<le> chunks_size chunks"
  using next_line_less [of chunks width on_hyphens] by (cases "chunks = []") (auto simp: next_line_def)

lemma wrap_round_less:
  assumes "0 < width \<and> chunks \<noteq> []"
    and "(pieces, rest) = next_line on_hyphens width (if started \<and> blank (hd chunks) then tl chunks else chunks)"
  shows "chunks_size rest < chunks_size chunks"
proof -
  have "chunks_size (tl chunks) < chunks_size chunks" using assms(1) by (cases chunks) (auto simp: chunks_size_def)
  then have "chunks_size (snd (next_line on_hyphens width (if started \<and> blank (hd chunks) then tl chunks else chunks))) < chunks_size chunks"
    using assms(1) next_line_le [of width on_hyphens "tl chunks"] next_line_less [of chunks width on_hyphens] by auto
  then show ?thesis unfolding assms(2) [symmetric] by simp
qed

function wrap_lines :: "bool \<Rightarrow> nat \<Rightarrow> bool \<Rightarrow> utext list \<Rightarrow> utext list" where
  "wrap_lines on_hyphens width started chunks =
     (if width = 0 \<or> chunks = [] then []
      else
        (case next_line on_hyphens width (if started \<and> blank (hd chunks) then tl chunks else chunks) of
           (pieces, rest) \<Rightarrow>
             (let line = drop_blank_end pieces in
              if line = [] then wrap_lines on_hyphens width started rest
              else concat line # wrap_lines on_hyphens width True rest)))"
  by pat_completeness auto
termination
  by (relation "measure (\<lambda>(on_hyphens, width, started, chunks). chunks_size chunks)")
    (simp_all, (erule (1) wrap_round_less)+)

declare wrap_lines.simps [simp del]

definition tw_wrap :: "bool \<Rightarrow> utext list \<Rightarrow> int \<Rightarrow> string + utext list" where
  "tw_wrap on_hyphens chunks width =
     (if width \<le> 0 then Inl ''invalid width'' else Inr (wrap_lines on_hyphens (nat width) False chunks))"

section \<open>Subtitle lines\<close>

definition split_subtitle_lines :: "unicode_data \<Rightarrow> utext \<Rightarrow> int option \<Rightarrow> string + utext list" where
  "split_subtitle_lines ud t max_chars =
     (let normalized = collapse_whitespace t;
          limit = (\<lambda>d. case max_chars of Some n \<Rightarrow> if n = 0 then d else n | None \<Rightarrow> d) in
      if normalized = [] then Inr []
      else if is_cjk_text normalized then Inr (split_cjk_lines normalized (limit SUBTITLE_MAX_CHARS_CJK))
      else tw_wrap True (hyphen_chunks ud [] normalized) (limit SUBTITLE_MAX_CHARS_LATIN))"

section \<open>What the text functions keep\<close>

text \<open>Splitting and joining may add and drop whitespace, but no other character.\<close>

definition visible :: "utext \<Rightarrow> utext" where "visible t = filter (\<lambda>c. \<not> py_space c) t"

lemma visible_simps [simp]:
  "visible [] = []" "visible (c # t) = (if py_space c then visible t else c # visible t)"
  "visible (s @ t) = visible s @ visible t"
  by (simp_all add: visible_def)

lemma visible_blank: "blank t \<Longrightarrow> visible t = []"
  by (simp add: blank_def visible_def list_all_iff)

lemma visible_eq_Nil: "visible t = [] \<longleftrightarrow> blank t"
  by (auto simp: blank_def visible_def filter_empty_conv list_all_iff)

lemma visible_concat_map: "(\<And>t. t \<in> set ts \<Longrightarrow> visible (f t) = visible t) \<Longrightarrow> visible (concat (map f ts)) = visible (concat ts)"
  by (induction ts) auto

lemma visible_dropWhile [simp]: "visible (dropWhile py_space t) = visible t"
  by (induction t) auto

lemma visible_rev: "visible (rev t) = rev (visible t)"
  by (simp add: visible_def rev_filter)

lemma visible_strip [simp]: "visible (u_strip t) = visible t"
  by (simp add: u_strip_def visible_rev)

lemma visible_nonempty_lines: "visible (concat (filter (\<lambda>l. l \<noteq> []) ls)) = visible (concat ls)"
  by (induction ls) auto

lemma words_from_concat: "concat (u_words_from word t) = word @ visible t"
  by (induction word t rule: u_words_from.induct) auto

lemma words_from_good:
  "list_all (\<lambda>c. \<not> py_space c) word \<Longrightarrow> w \<in> set (u_words_from word t) \<Longrightarrow> w \<noteq> [] \<and> list_all (\<lambda>c. \<not> py_space c) w"
  by (induction word t rule: u_words_from.induct) (auto split: if_splits)

lemma u_words_concat: "concat (u_words t) = visible t"
  by (simp add: u_words_def words_from_concat)

lemma visible_join_tokens: "visible (join_tokens joined tokens) = visible joined @ visible (concat tokens)"
  by (induction joined tokens rule: join_tokens.induct) (auto simp: py_space_def)

lemma visible_collapse [simp]: "visible (collapse_whitespace t) = visible t"
proof -
  have "visible (visible t) = visible t" by (simp add: visible_def)
  with u_words_concat [of t] show ?thesis
    by (cases "u_words t") (auto simp: collapse_whitespace_def visible_join_tokens simp flip: visible_simps(3))
qed

lemma join_tokens_ne: "joined \<noteq> [] \<Longrightarrow> join_tokens joined tokens \<noteq> []"
  by (induction joined tokens rule: join_tokens.induct) auto

lemma collapse_eq_Nil: "collapse_whitespace t = [] \<longleftrightarrow> blank t"
proof -
  have "w \<noteq> []" if "w \<in> set (u_words t)" for w using that words_from_good [of "[]" w t] by (simp add: u_words_def)
  then show ?thesis
    using u_words_concat [of t] visible_eq_Nil [of t] join_tokens_ne
    by (cases "u_words t") (auto simp: collapse_whitespace_def)
qed

lemma take_drop_append: "take n xs @ drop n xs @ ys = xs @ ys"
  using append_take_drop_id [of n xs] by (metis append_assoc)

lemma cjk_lines_concat: "concat (cjk_lines limit current soft t) = current @ t"
  by (induction limit current soft t rule: cjk_lines.induct)
    (auto simp: Let_def take_drop_append simp del: take_append drop_append)

lemma cjk_lines_bound:
  assumes "int (length current) < limit" and "l \<in> set (cjk_lines limit current soft t)"
  shows "int (length l) \<le> limit"
  using assms
proof (induction limit current soft t rule: cjk_lines.induct)
  case (2 limit current soft c t)
  then show ?case by (auto simp: Let_def split: if_splits)
qed (auto split: if_splits)

lemma cjk_lines_ne: "l \<in> set (cjk_lines limit current soft t) \<Longrightarrow> l \<noteq> []"
  by (induction limit current soft t rule: cjk_lines.induct) (auto simp: Let_def split: if_splits)

lemma visible_split_cjk: "visible (concat (split_cjk_lines t limit)) = visible t"
  by (simp add: split_cjk_lines_def visible_nonempty_lines visible_concat_map cjk_lines_concat)

lemma simple_chunks_concat: "concat (simple_chunks t) = t"
  by (induction t rule: simple_chunks.induct) simp_all

lemma hyphen_chunks_concat: "concat (hyphen_chunks ud before t) = t"
  by (induction ud before t rule: hyphen_chunks.induct) (simp_all add: Let_def del: chunk_size.simps)

lemma next_line_concat:
  assumes "next_line on_hyphens width chunks = (pieces, rest)"
  shows "concat pieces @ concat rest = concat chunks"
  using assms fitting_append [of width chunks]
  by (auto simp: next_line_def Let_def take_drop_append split: prod.splits list.splits if_splits)

lemma next_line_room:
  assumes "next_line on_hyphens width chunks = (pieces, rest)"
  shows "length (concat pieces) \<le> width"
proof -
  have "length (take (long_word_cut on_hyphens chunk (width - n)) chunk) \<le> width - n" for chunk n
    using long_word_cut_le [of on_hyphens chunk "width - n"] by simp
  then show ?thesis
    using assms fitting_room [of width chunks]
    by (auto simp: next_line_def Let_def split: prod.splits list.splits if_splits) (metis add_le_mono le_add_diff_inverse order_refl)
qed

lemma drop_blank_end_visible: "visible (concat (drop_blank_end pieces)) = visible (concat pieces)"
  by (cases pieces rule: rev_cases) (auto simp: drop_blank_end_def visible_blank)

lemma drop_blank_end_short: "length (concat (drop_blank_end pieces)) \<le> length (concat pieces)"
  by (cases pieces rule: rev_cases) (auto simp: drop_blank_end_def)

lemma visible_wrap_lines: "0 < width \<Longrightarrow> visible (concat (wrap_lines on_hyphens width started chunks)) = visible (concat chunks)"
proof (induction on_hyphens width started chunks rule: wrap_lines.induct)
  case (1 on_hyphens width started chunks)
  let ?cs = "if started \<and> blank (hd chunks) then tl chunks else chunks"
  obtain pieces rest where n: "next_line on_hyphens width ?cs = (pieces, rest)" by fastforce
  show ?case
  proof (cases "chunks = []")
    case True
    then show ?thesis by (simp add: wrap_lines.simps)
  next
    case False
    then have "visible (concat ?cs) = visible (concat chunks)" by (cases chunks) (auto simp: visible_blank)
    then have "visible (concat chunks) = visible (concat (drop_blank_end pieces)) @ visible (concat rest)"
      using next_line_concat [OF n] by (simp add: drop_blank_end_visible flip: visible_simps(3))
    with 1 n False show ?thesis
      by (subst wrap_lines.simps) (auto simp: Let_def)
  qed
qed

lemma wrap_lines_bound: "l \<in> set (wrap_lines on_hyphens width started chunks) \<Longrightarrow> length l \<le> width"
proof (induction on_hyphens width started chunks rule: wrap_lines.induct)
  case (1 on_hyphens width started chunks)
  let ?cs = "if started \<and> blank (hd chunks) then tl chunks else chunks"
  obtain pieces rest where n: "next_line on_hyphens width ?cs = (pieces, rest)" by fastforce
  have "length (concat (drop_blank_end pieces)) \<le> width"
    using next_line_room [OF n] drop_blank_end_short [of pieces] by linarith
  with 1 n show ?case
    by (subst (asm) wrap_lines.simps) (auto simp: Let_def split: if_splits)
qed

lemma fitting_subset: "set (fst (fitting n chunks)) \<union> set (snd (fitting n chunks)) = set chunks"
  by (induction n chunks rule: fitting.induct) auto

lemma next_line_full:
  assumes "next_line on_hyphens width chunks = (pieces, rest)" and "[] \<notin> set chunks"
  shows "[] \<notin> set rest" and "drop_blank_end pieces \<noteq> [] \<Longrightarrow> concat (drop_blank_end pieces) \<noteq> []"
proof -
  obtain ps cs where f: "fitting width chunks = (ps, cs)" by fastforce
  with assms(2) fitting_subset [of width chunks] have full: "[] \<notin> set ps" "[] \<notin> set cs" by auto
  have cut: "long_word_cut on_hyphens chunk (width - n) < length chunk" if "width < length chunk" for chunk n
    using long_word_cut_le [of on_hyphens chunk "width - n"] that by linarith
  show "[] \<notin> set rest"
    using assms(1) f full by (auto simp: next_line_def Let_def split: list.splits if_splits) (meson cut leD)
  have last: "concat ds \<noteq> []" if "ds \<noteq> []" "last ds \<noteq> []" for ds :: "utext list"
    using that by (cases ds rule: rev_cases) auto
  obtain tail where "pieces = ps @ tail" "length tail \<le> 1"
    using assms(1) f by (cases cs) (auto simp: next_line_def Let_def split: if_splits)
  then have "[] \<notin> set (butlast pieces)" using full(1) in_set_butlastD [of "[]" ps] by (cases tail) (auto simp: butlast_append)
  then have "butlast pieces \<noteq> [] \<Longrightarrow> last (butlast pieces) \<noteq> []" using last_in_set by metis
  moreover have "\<not> blank (last pieces) \<Longrightarrow> last pieces \<noteq> []" by (auto simp: blank_def)
  ultimately show "concat (drop_blank_end pieces) \<noteq> []" if "drop_blank_end pieces \<noteq> []"
    using that last by (simp add: drop_blank_end_def del: concat_eq_Nil_conv split: if_splits)
qed

lemma wrap_lines_full: "[] \<notin> set chunks \<Longrightarrow> l \<in> set (wrap_lines on_hyphens width started chunks) \<Longrightarrow> l \<noteq> []"
proof (induction on_hyphens width started chunks rule: wrap_lines.induct)
  case (1 on_hyphens width started chunks)
  let ?cs = "if started \<and> blank (hd chunks) then tl chunks else chunks"
  obtain pieces rest where n: "next_line on_hyphens width ?cs = (pieces, rest)" by fastforce
  have "[] \<notin> set ?cs" using "1.prems"(1) by (cases chunks) auto
  note next_line_full [OF n this]
  with 1 n show ?case
    by (subst (asm) (3) wrap_lines.simps) (auto simp: Let_def split: if_splits)
qed

lemma simple_chunks_full: "[] \<notin> set (simple_chunks t)"
  by (induction t rule: simple_chunks.induct) simp_all

end
