(* ===== verification/Subtitle_Lines.thy ===== *)
theory Subtitle_Lines imports Text_Units begin

text \<open>
  \<open>generators/video/subtitle_line_breaking.py\<close>: subtitle lines, and the line-breaking rules that
  repair where they begin and end.
\<close>

definition LINE_START_PROHIBITED :: "int list" where
  "LINE_START_PROHIBITED =
     [12289, 12290, 65292, 65294, 12539, 12301, 12303, 65289, 12305, 12297, 12299, 12309, 12313, 12311,
      65281, 65311, 33, 63, 12353, 12355, 12357, 12359, 12361, 12387, 12419, 12421, 12423, 12430,
      12449, 12451, 12453, 12455, 12457, 12483, 12515, 12517, 12519, 12526, 12540, 12445, 12446,
      8230, 8229, 65306, 65307, 58, 59, 41, 93, 125, 44, 46]"

definition LINE_END_PROHIBITED :: "int list" where
  "LINE_END_PROHIBITED = [12300, 12302, 65288, 12304, 12296, 12298, 12308, 12312, 12310, 40, 91, 123]"

definition is_line_start_prohibited :: "int \<Rightarrow> bool" where
  "is_line_start_prohibited c \<longleftrightarrow> c \<in> set LINE_START_PROHIBITED"

definition is_line_end_prohibited :: "int \<Rightarrow> bool" where
  "is_line_end_prohibited c \<longleftrightarrow> c \<in> set LINE_END_PROHIBITED"

section \<open>The rules\<close>

text \<open>One boundary: first pull what may not begin the lower line, then push what may not end the upper.\<close>

fun pull :: "utext \<Rightarrow> utext \<Rightarrow> utext \<times> utext" where
  "pull upper [] = (upper, [])"
| "pull upper (c # lower) = (if is_line_start_prohibited c then pull (upper @ [c]) lower else (upper, c # lower))"

function push :: "utext \<Rightarrow> utext \<Rightarrow> utext \<times> utext" where
  "push upper lower =
     (if upper \<noteq> [] \<and> is_line_end_prohibited (last upper) then push (butlast upper) (last upper # lower)
      else (upper, lower))"
  by pat_completeness auto
termination by (relation "measure (\<lambda>(upper, lower). length upper)") auto

declare push.simps [simp del]

lemma push_step: "upper \<noteq> [] \<and> is_line_end_prohibited (last upper) \<Longrightarrow> push upper lower = push (butlast upper) (last upper # lower)"
  by (subst push.simps) simp

lemma push_stop: "\<not> (upper \<noteq> [] \<and> is_line_end_prohibited (last upper)) \<Longrightarrow> push upper lower = (upper, lower)"
  by (subst push.simps) (rule if_not_P)

text \<open>The loop over the boundaries, from left to right.\<close>

fun kinsoku_pass :: "utext list \<Rightarrow> utext list" where
  "kinsoku_pass (upper # lower # lines) =
     (case pull upper lower of (upper, lower) \<Rightarrow>
        (case push upper lower of (upper, lower) \<Rightarrow> upper # kinsoku_pass (lower # lines)))"
| "kinsoku_pass lines = lines"

definition apply_kinsoku_rules :: "utext list \<Rightarrow> utext list" where
  "apply_kinsoku_rules lines = filter (\<lambda>l. l \<noteq> []) (kinsoku_pass lines)"

section \<open>Lines of a subtitle\<close>

text \<open>\<open>text.replace(CR LF, LF).replace(CR, LF).split(LF)\<close>.\<close>

fun unify_breaks :: "bool \<Rightarrow> utext \<Rightarrow> utext" where
  "unify_breaks after_cr [] = []"
| "unify_breaks after_cr (c # t) =
     (if c = 13 then 10 # unify_breaks True t
      else if c = 10 \<and> after_cr then unify_breaks False t
      else c # unify_breaks False t)"

fun break_segments :: "utext \<Rightarrow> utext list" where
  "break_segments [] = [[]]"
| "break_segments (c # t) =
     (if c = 10 then [] # break_segments t
      else (case break_segments t of [] \<Rightarrow> [[c]] | s # ss \<Rightarrow> (c # s) # ss))"

definition text_segments :: "utext \<Rightarrow> utext list" where
  "text_segments t = break_segments (unify_breaks False t)"

definition wrap_cjk :: "utext \<Rightarrow> int \<Rightarrow> utext list" where "wrap_cjk t limit = cjk_lines limit [] 0 t"

definition wrap_latin :: "utext \<Rightarrow> int \<Rightarrow> string + utext list" where
  "wrap_latin t limit = tw_wrap False (simple_chunks t) limit"

definition wrap_segment :: "int option \<Rightarrow> utext \<Rightarrow> string + utext list" where
  "wrap_segment max_chars cleaned =
     (if is_cjk_text cleaned
      then Inr (wrap_cjk cleaned (case max_chars of Some n \<Rightarrow> n | None \<Rightarrow> SUBTITLE_MAX_CHARS_CJK))
      else wrap_latin cleaned (case max_chars of Some n \<Rightarrow> n | None \<Rightarrow> SUBTITLE_MAX_CHARS_LATIN))"

fun wrap_segments :: "int option \<Rightarrow> utext list \<Rightarrow> string + utext list" where
  "wrap_segments max_chars [] = Inr []"
| "wrap_segments max_chars (segment # segments) =
     (let cleaned = collapse_whitespace segment in
      if cleaned = [] then wrap_segments max_chars segments
      else
        (case wrap_segment max_chars cleaned of
           Inl e \<Rightarrow> Inl e
         | Inr lines \<Rightarrow>
             (case wrap_segments max_chars segments of Inl e \<Rightarrow> Inl e | Inr others \<Rightarrow> Inr (lines @ others))))"

definition break_subtitle_lines :: "utext \<Rightarrow> int option \<Rightarrow> string + utext list" where
  "break_subtitle_lines t max_chars =
     (if (case max_chars of Some n \<Rightarrow> n \<le> 0 | None \<Rightarrow> False) then Inl ''max_chars must be a positive integer''
      else (case wrap_segments max_chars (text_segments t) of Inl e \<Rightarrow> Inl e | Inr lines \<Rightarrow> Inr (apply_kinsoku_rules lines)))"

section \<open>What the rules do\<close>

lemma pull_append: "pull upper lower = (u, l) \<Longrightarrow> u @ l = upper @ lower"
  by (induction upper lower rule: pull.induct) (auto split: if_splits)

lemma push_append: "push upper lower = (u, l) \<Longrightarrow> u @ l = upper @ lower"
proof (induction upper lower rule: push.induct)
  case (1 upper lower)
  show ?case
  proof (cases "upper \<noteq> [] \<and> is_line_end_prohibited (last upper)")
    case True
    with 1 have "u @ l = butlast upper @ last upper # lower" by (simp add: push_step [OF True])
    with True show ?thesis by (metis append.assoc append_Cons append_Nil append_butlast_last_id)
  next
    case False
    with 1 show ?thesis by (simp add: push_stop [OF False])
  qed
qed

lemma kinsoku_pass_concat: "concat (kinsoku_pass lines) = concat lines"
proof (induction lines rule: kinsoku_pass.induct)
  case (1 upper lower lines)
  obtain u l where p: "pull upper lower = (u, l)" by fastforce
  obtain v m where q: "push u l = (v, m)" by fastforce
  from 1 [OF p [symmetric] q [symmetric]] pull_append [OF p] push_append [OF q] p q show ?case
    by simp
qed auto

lemma concat_nonempty: "concat (filter (\<lambda>l. l \<noteq> []) ls) = concat ls"
  by (induction ls) auto

lemma kinsoku_concat: "concat (apply_kinsoku_rules lines) = concat lines"
  by (simp add: apply_kinsoku_rules_def concat_nonempty kinsoku_pass_concat)

lemma pull_lower: "pull upper lower = (u, l) \<Longrightarrow> l \<noteq> [] \<Longrightarrow> \<not> is_line_start_prohibited (hd l)"
  by (induction upper lower rule: pull.induct) (auto split: if_splits)

lemma pull_upper: "pull upper lower = (u, l) \<Longrightarrow> upper = u \<or> (u \<noteq> [] \<and> is_line_start_prohibited (last u))"
  by (induction upper lower rule: pull.induct) (auto split: if_splits)

lemma pull_hd: "pull upper lower = (u, l) \<Longrightarrow> upper \<noteq> [] \<Longrightarrow> u \<noteq> [] \<and> hd u = hd upper"
  by (induction upper lower rule: pull.induct) (auto split: if_splits)

lemma pull_Nil: "pull upper lower = (u, l) \<Longrightarrow> l = [] \<longleftrightarrow> list_all is_line_start_prohibited lower"
  by (induction upper lower rule: pull.induct) (auto split: if_splits)

lemma pull_nothing: "lower = [] \<or> \<not> is_line_start_prohibited (hd lower) \<Longrightarrow> pull upper lower = (upper, lower)"
  by (cases lower) auto

lemma sets_disjoint: "is_line_end_prohibited c \<Longrightarrow> \<not> is_line_start_prohibited c"
  by (auto simp: is_line_start_prohibited_def is_line_end_prohibited_def LINE_START_PROHIBITED_def LINE_END_PROHIBITED_def)

lemma push_upper: "push upper lower = (u, l) \<Longrightarrow> u = [] \<or> \<not> is_line_end_prohibited (last u)"
proof (induction upper lower rule: push.induct)
  case (1 upper lower)
  show ?case
  proof (cases "upper \<noteq> [] \<and> is_line_end_prohibited (last upper)")
    case True
    from 1 show ?thesis by (simp add: push_step [OF True] True)
  next
    case False
    with "1.prems" show ?thesis unfolding push_stop [OF False] by auto
  qed
qed

lemma push_lower:
  assumes "push upper lower = (u, l)" and "lower = [] \<or> \<not> is_line_start_prohibited (hd lower)"
  shows "l = [] \<or> \<not> is_line_start_prohibited (hd l)"
  using assms
proof (induction upper lower rule: push.induct)
  case (1 upper lower)
  show ?case
  proof (cases "upper \<noteq> [] \<and> is_line_end_prohibited (last upper)")
    case True
    from 1 show ?thesis using sets_disjoint by (simp add: push_step [OF True] True)
  next
    case False
    from 1 show ?thesis by (auto simp: push_stop [OF False])
  qed
qed

lemma push_hd: "push upper lower = (u, l) \<Longrightarrow> u \<noteq> [] \<Longrightarrow> hd u = hd upper"
proof (induction upper lower rule: push.induct)
  case (1 upper lower)
  show ?case
  proof (cases "upper \<noteq> [] \<and> is_line_end_prohibited (last upper)")
    case True
    with 1 have u: "push (butlast upper) (last upper # lower) = (u, l)" "hd u = hd (butlast upper)"
      by (simp_all add: push_step [OF True])
    have "butlast upper \<noteq> []"
    proof
      assume "butlast upper = []"
      with u(1) "1.prems"(2) show False by (simp add: push_stop)
    qed
    with u(2) show ?thesis by (cases upper) (auto split: if_splits)
  next
    case False
    from 1 show ?thesis by (simp add: push_stop [OF False])
  qed
qed

lemma push_ne: "push upper lower = (u, l) \<Longrightarrow> lower \<noteq> [] \<Longrightarrow> l \<noteq> []"
proof (induction upper lower rule: push.induct)
  case (1 upper lower)
  show ?case
  proof (cases "upper \<noteq> [] \<and> is_line_end_prohibited (last upper)")
    case True
    from 1 show ?thesis by (simp add: push_step [OF True] True)
  next
    case False
    with "1.prems" show ?thesis unfolding push_stop [OF False] by auto
  qed
qed

lemma push_nothing: "upper = [] \<or> \<not> is_line_end_prohibited (last upper) \<Longrightarrow> push upper lower = (upper, lower)"
  by (rule push_stop) auto

text \<open>The upper line keeps its beginning, and what becomes of the lower line depends on its own.\<close>

lemma boundary:
  assumes "pull upper lower = (u, l)" and "push u l = (v, m)"
  shows "v = [] \<or> \<not> is_line_end_prohibited (last v)"
    and "upper \<noteq> [] \<Longrightarrow> v \<noteq> [] \<Longrightarrow> hd v = hd upper"
    and "m \<noteq> [] \<Longrightarrow> \<not> is_line_start_prohibited (hd m)"
    and "lower \<noteq> [] \<Longrightarrow> m = [] \<Longrightarrow> list_all is_line_start_prohibited lower"
  using push_upper [OF assms(2)] pull_hd [OF assms(1)] push_hd [OF assms(2)] push_lower [OF assms(2)] pull_lower [OF assms(1)]
    push_ne [OF assms(2)] pull_Nil [OF assms(1)]
  by auto

lemma kinsoku_ends: "l \<in> set (butlast (kinsoku_pass lines)) \<Longrightarrow> l \<noteq> [] \<Longrightarrow> \<not> is_line_end_prohibited (last l)"
proof (induction lines rule: kinsoku_pass.induct)
  case (1 upper lower lines)
  obtain u l' where p: "pull upper lower = (u, l')" by fastforce
  obtain v m where q: "push u l' = (v, m)" by fastforce
  have "kinsoku_pass (m # lines) \<noteq> []" by (cases lines) (auto split: prod.splits)
  with 1 p q boundary(1) [OF p q] show ?case by auto
qed auto

text \<open>What the rules need: a line, not the first, that they pull up whole is not followed by another of its kind.\<close>

definition well_spaced :: "utext list \<Rightarrow> bool" where
  "well_spaced lines \<longleftrightarrow> [] \<notin> set lines \<and>
     successively (\<lambda>a b. list_all is_line_start_prohibited a \<longrightarrow> \<not> is_line_start_prohibited (hd b)) lines"

lemma kinsoku_starts:
  assumes "x \<noteq> [] \<and> \<not> is_line_start_prohibited (hd x) \<or>
      x = [] \<and> (lines \<noteq> [] \<longrightarrow> \<not> is_line_start_prohibited (hd (hd lines)))"
    and "well_spaced lines"
    and "l \<in> set (kinsoku_pass (x # lines))" and "l \<noteq> []"
  shows "\<not> is_line_start_prohibited (hd l)"
  using assms
proof (induction lines arbitrary: x)
  case (Cons lower lines)
  obtain u l' where p: "pull x lower = (u, l')" by fastforce
  obtain v m where q: "push u l' = (v, m)" by fastforce
  have lower: "lower \<noteq> []" and well_spaced: "well_spaced lines" using Cons.prems(2) by (auto simp: well_spaced_def successively_Cons)
  have v: "\<not> is_line_start_prohibited (hd v)" if "v \<noteq> []"
  proof (cases "x = []")
    case True
    with Cons.prems(1) have "pull x lower = ([], lower)" by (simp add: pull_nothing)
    with p q that show ?thesis by (simp add: push_nothing)
  next
    case False
    with Cons.prems(1) boundary(2) [OF p q] that show ?thesis by auto
  qed
  have m: "m \<noteq> [] \<and> \<not> is_line_start_prohibited (hd m) \<or>
      m = [] \<and> (lines \<noteq> [] \<longrightarrow> \<not> is_line_start_prohibited (hd (hd lines)))"
    using boundary(3,4) [OF p q] lower Cons.prems(2) by (cases lines) (auto simp: well_spaced_def)
  from Cons.prems(3) p q consider "l = v" | "l \<in> set (kinsoku_pass (m # lines))" by auto
  then show ?case using v Cons.prems(4) Cons.IH [OF m well_spaced] by cases auto
qed auto

lemma filter_butlast: "l \<in> set (butlast (filter P xs)) \<Longrightarrow> l \<in> set (butlast xs) \<and> P l"
  by (induction xs) (auto split: if_splits)

lemma set_tl: "x \<in> set (tl xs) \<Longrightarrow> x \<in> set xs"
  by (cases xs) auto

lemma filter_tl: "l \<in> set (tl (filter P xs)) \<Longrightarrow> l \<in> set (tl xs) \<and> P l"
  by (induction xs) (auto split: if_splits dest: set_tl)

lemma rules_ends: "l \<in> set (butlast (apply_kinsoku_rules lines)) \<Longrightarrow> \<not> is_line_end_prohibited (last l)"
  using kinsoku_ends [of l lines] filter_butlast [of l "\<lambda>l. l \<noteq> []" "kinsoku_pass lines"]
  by (simp add: apply_kinsoku_rules_def)

lemma rules_starts:
  assumes "well_spaced (tl lines)" and "l \<in> set (tl (apply_kinsoku_rules lines))"
  shows "\<not> is_line_start_prohibited (hd l)"
proof -
  from assms(2) have l: "l \<in> set (tl (kinsoku_pass lines))" "l \<noteq> []"
    using filter_tl [of l "\<lambda>l. l \<noteq> []" "kinsoku_pass lines"] by (auto simp: apply_kinsoku_rules_def)
  then obtain upper lower rest where lines: "lines = upper # lower # rest"
    by (cases lines rule: kinsoku_pass.cases) auto
  obtain u l' where p: "pull upper lower = (u, l')" by fastforce
  obtain v m where q: "push u l' = (v, m)" by fastforce
  from lines p q l have "l \<in> set (kinsoku_pass (m # rest))" by simp
  moreover have "m \<noteq> [] \<and> \<not> is_line_start_prohibited (hd m) \<or>
      m = [] \<and> (rest \<noteq> [] \<longrightarrow> \<not> is_line_start_prohibited (hd (hd rest)))" and "well_spaced rest"
    using boundary(3,4) [OF p q] assms(1) lines by (cases rest; auto simp: well_spaced_def)+
  ultimately show ?thesis using kinsoku_starts l(2) by blast
qed

section \<open>Wrapping and the rules together\<close>

text \<open>What the rules need of a wrapper: it loses no visible character, and no line is empty.\<close>

locale text_wrapper =
  fixes wrap :: "utext \<Rightarrow> utext list"
  assumes keeps: "visible (concat (wrap t)) = visible t"
    and full: "l \<in> set (wrap t) \<Longrightarrow> l \<noteq> []"
begin

definition wrap_all :: "utext list \<Rightarrow> utext list" where "wrap_all ts = concat (map wrap ts)"

lemma wrap_all_keeps: "visible (concat (wrap_all ts)) = visible (concat ts)"
  by (induction ts) (simp_all add: wrap_all_def keeps)

lemma wrap_all_full: "[] \<notin> set (wrap_all ts)"
  using full by (auto simp: wrap_all_def)

end

lemma start_visible: "is_line_start_prohibited c \<Longrightarrow> \<not> py_space c"
  by (auto simp: is_line_start_prohibited_def LINE_START_PROHIBITED_def py_space_def)

definition unpaired :: "utext \<Rightarrow> bool" where
  "unpaired t \<longleftrightarrow> successively (\<lambda>c d. \<not> (is_line_start_prohibited c \<and> is_line_start_prohibited d)) t"

lemma unpaired_append: "unpaired (s @ t) \<Longrightarrow> unpaired t"
  by (auto simp: unpaired_def successively_append_iff)

lemma unpaired_spaced:
  assumes "[] \<notin> set lines" and "unpaired (visible (concat lines))"
  shows "well_spaced lines"
  using assms
proof (induction lines)
  case (Cons a lines)
  then have "well_spaced lines" using unpaired_append by simp
  moreover have "\<not> is_line_start_prohibited (hd (hd lines))" if ne: "lines \<noteq> []" and all: "list_all is_line_start_prohibited a"
  proof
    assume start: "is_line_start_prohibited (hd (hd lines))"
    obtain b ls where lines: "lines = b # ls" using ne by (cases lines) auto
    obtain c d a' b' where "a = a' @ [c]" "b = d # b'" using Cons.prems(1) lines by (cases a rule: rev_cases; cases b) auto
    with Cons.prems(2) all start lines show False
      by (auto simp: unpaired_def successively_append_iff start_visible)
  qed
  ultimately show ?case using Cons.prems(1) by (auto simp: well_spaced_def successively_Cons)
qed (simp add: well_spaced_def)

interpretation cjk: text_wrapper "\<lambda>t. wrap_cjk t limit" for limit
  by unfold_locales (auto simp: wrap_cjk_def cjk_lines_concat dest: cjk_lines_ne)

interpretation latin: text_wrapper "\<lambda>t. wrap_lines False (Suc n) False (simple_chunks t)" for n
  by unfold_locales (auto simp: visible_wrap_lines simple_chunks_concat dest: wrap_lines_full [OF simple_chunks_full])

text \<open>A segment, at a measure that is the default or positive.\<close>

definition good_measure :: "int option \<Rightarrow> bool" where
  "good_measure max_chars \<longleftrightarrow> (case max_chars of Some n \<Rightarrow> 0 < n | None \<Rightarrow> True)"

definition segment_lines :: "int option \<Rightarrow> utext \<Rightarrow> utext list" where
  "segment_lines max_chars t =
     (case max_chars of
        Some n \<Rightarrow> if is_cjk_text t then wrap_cjk t n else wrap_lines False (Suc (nat n - 1)) False (simple_chunks t)
      | None \<Rightarrow> if is_cjk_text t then wrap_cjk t SUBTITLE_MAX_CHARS_CJK else wrap_lines False (Suc (nat SUBTITLE_MAX_CHARS_LATIN - 1)) False (simple_chunks t))"

lemma wrap_segment_lines: "good_measure max_chars \<Longrightarrow> wrap_segment max_chars t = Inr (segment_lines max_chars t)"
  by (auto simp: wrap_segment_def segment_lines_def wrap_latin_def tw_wrap_def good_measure_def SUBTITLE_MAX_CHARS_LATIN_def split: option.splits)

interpretation segment: text_wrapper "segment_lines max_chars" for max_chars
  by unfold_locales
    (auto simp: segment_lines_def cjk.keeps latin.keeps dest: cjk.full latin.full split: option.splits if_splits)

lemma wrap_segments_lines:
  "good_measure max_chars \<Longrightarrow>
   wrap_segments max_chars ts = Inr (segment.wrap_all max_chars (filter (\<lambda>t. t \<noteq> []) (map collapse_whitespace ts)))"
  by (induction ts) (auto simp: Let_def wrap_segment_lines segment.wrap_all_def)

lemma visible_unify: "visible (unify_breaks after_cr t) = visible t"
  by (induction after_cr t rule: unify_breaks.induct) (auto simp: py_space_def)

lemma visible_segments: "visible (concat (break_segments t)) = visible t"
proof (induction t)
  case (Cons c t)
  moreover have "break_segments t \<noteq> []" by (cases t) (auto split: list.splits)
  ultimately show ?case by (auto simp: py_space_def split: list.splits)
qed simp

lemma break_subtitle_wrapped:
  assumes "break_subtitle_lines t max_chars = Inr lines"
  obtains wrapped where "lines = apply_kinsoku_rules wrapped" and "[] \<notin> set wrapped" and "visible (concat wrapped) = visible t"
proof -
  from assms have good: "good_measure max_chars" by (auto simp: break_subtitle_lines_def good_measure_def split: if_splits option.splits)
  let ?ts = "filter (\<lambda>t. t \<noteq> []) (map collapse_whitespace (text_segments t))"
  have "visible (concat ?ts) = visible t"
    by (simp add: visible_nonempty_lines visible_concat_map text_segments_def visible_segments visible_unify)
  with assms wrap_segments_lines [OF good, of "text_segments t"] that [of "segment.wrap_all max_chars ?ts"]
    segment.wrap_all_keeps segment.wrap_all_full
  show ?thesis by (auto simp: break_subtitle_lines_def split: if_splits)
qed

text \<open>
  C36: a subtitle loses no character, and its lines break where they may. Wrapping and repairing keep
  every character but whitespace, in order, and no line but the last ends with an opening bracket;
  when no two characters that may not begin a line follow each other in what remains of the text with
  all whitespace left out, line breaks too, no line but the first begins with one.
\<close>

theorem subtitles_break_cleanly:
  assumes "break_subtitle_lines t max_chars = Inr lines"
  shows "visible (concat lines) = visible t \<and> [] \<notin> set lines \<and>
    (\<forall>l \<in> set (butlast lines). \<not> is_line_end_prohibited (last l)) \<and>
    (unpaired (visible t) \<longrightarrow> (\<forall>l \<in> set (tl lines). \<not> is_line_start_prohibited (hd l)))"
proof -
  from break_subtitle_wrapped [OF assms] obtain wrapped where w: "lines = apply_kinsoku_rules wrapped"
    "[] \<notin> set wrapped" "visible (concat wrapped) = visible t" .
  have "well_spaced (tl wrapped)" if "unpaired (visible t)"
  proof (rule unpaired_spaced)
    show "[] \<notin> set (tl wrapped)" using w(2) set_tl by metis
    show "unpaired (visible (concat (tl wrapped)))"
      using that w(3) unpaired_append [of "visible (hd wrapped)" "visible (concat (tl wrapped))"] by (cases wrapped) auto
  qed
  then have "\<not> is_line_start_prohibited (hd l)" if "unpaired (visible t)" "l \<in> set (tl lines)" for l
    using rules_starts that w(1) by blast
  moreover have "[] \<notin> set lines" by (simp add: w(1) apply_kinsoku_rules_def)
  ultimately show ?thesis using w rules_ends by (auto simp: kinsoku_concat)
qed

text \<open>
  A line that says thank you and closes its quotation mark at the measure: the mark, which would begin
  the second line, moves up.
\<close>

definition sample_text :: utext where
  "sample_text = [12300, 12354, 12426, 12364, 12392, 12358, 12301, 12392, 35328, 12387, 12383]"

lemma subtitles_break_cleanly_witness:
  "break_subtitle_lines sample_text (Some 6) = Inr [take 7 sample_text, drop 7 sample_text] \<and>
   \<not> is_line_start_prohibited (hd (drop 7 sample_text))"
proof -
  have lines: "break_subtitle_lines sample_text (Some 6) = Inr [take 7 sample_text, drop 7 sample_text]" by code_simp
  moreover have "unpaired (visible sample_text)" by code_simp
  ultimately show ?thesis using subtitles_break_cleanly [OF lines] by simp
qed

text \<open>
  The condition cannot be dropped: an exclamation that ends in an ellipsis of two characters and a full stop,
  as is common in Japanese, ends up with the full stop alone on a line of its own.
\<close>

lemma rules_miss_runs:
  "break_subtitle_lines [12360, 12360, 8230, 8230, 12290] None = Inr [[12360, 12360, 8230, 8230], [12290]] \<and>
   is_line_start_prohibited 12290"
  by code_simp

end
