(* ===== verification/Continuity.thy ===== *)
theory Continuity imports Media_Schemas begin

text \<open>
  Continuity memory: what later chapters must remember. The records of \<open>core/story/continuity.py\<close>
  with what their validators reject, and \<open>core/story/continuity_builder.py\<close>, which folds the facts of a
  completed chapter into the memory of the chapters before it.

  A conflict is recorded with its data; its English text is left out.
\<close>

section \<open>Records\<close>

definition MAX_CHAPTER_SUMMARIES :: nat where "MAX_CHAPTER_SUMMARIES = 200"
definition MAX_CANON_FACTS :: nat where "MAX_CANON_FACTS = 500"
definition MAX_TIMELINE_FACTS :: nat where "MAX_TIMELINE_FACTS = 500"
definition MAX_UNRESOLVED_THREADS :: nat where "MAX_UNRESOLVED_THREADS = 200"
definition MAX_RESOLVED_THREADS :: nat where "MAX_RESOLVED_THREADS = 200"
definition MAX_SUMMARY_CHARS :: nat where "MAX_SUMMARY_CHARS = 4000"
definition MAX_FACT_CHARS :: nat where "MAX_FACT_CHARS = 1000"

record chapter_summary =
  cs_chapter_id :: string
  cs_order :: int
  cs_summary :: string

record canon_fact =
  cf_id :: string
  cf_subject :: string
  cf_fact :: string
  cf_order :: int
  cf_source_chapter_id :: "string option"

record timeline_fact =
  tf_id :: string
  tf_description :: string
  tf_order :: int
  tf_source_chapter_id :: "string option"

record unresolved_thread =
  ut_id :: string
  ut_description :: string
  ut_order :: int
  ut_introduced_chapter_id :: "string option"

record resolved_thread =
  rd_id :: string
  rd_description :: string
  rd_order :: int
  rd_introduced_chapter_id :: "string option"
  rd_resolved_chapter_id :: "string option"

record continuity_memory =
  cm_id :: string
  cm_story_id :: string
  cm_as_of_chapter_id :: "string option"
  cm_chapter_summaries :: "chapter_summary list"
  cm_canon_facts :: "canon_fact list"
  cm_timeline_facts :: "timeline_fact list"
  cm_unresolved_threads :: "unresolved_thread list"
  cm_resolved_threads :: "resolved_thread list"
  cm_created_at :: string
  cm_updated_at :: string

text \<open>What the model classes validate, each its own fields.\<close>

definition text_within :: "nat \<Rightarrow> string \<Rightarrow> bool" where
  "text_within most t \<longleftrightarrow> t \<noteq> [] \<and> length t \<le> most"

definition valid_summary :: "chapter_summary \<Rightarrow> bool" where
  "valid_summary s \<longleftrightarrow> cs_chapter_id s \<noteq> [] \<and> 0 \<le> cs_order s \<and> text_within MAX_SUMMARY_CHARS (cs_summary s)"

definition valid_canon_fact :: "canon_fact \<Rightarrow> bool" where
  "valid_canon_fact f \<longleftrightarrow>
     cf_id f \<noteq> [] \<and> cf_subject f \<noteq> [] \<and> text_within MAX_FACT_CHARS (cf_fact f) \<and> 0 \<le> cf_order f"

definition valid_timeline_fact :: "timeline_fact \<Rightarrow> bool" where
  "valid_timeline_fact f \<longleftrightarrow> tf_id f \<noteq> [] \<and> text_within MAX_FACT_CHARS (tf_description f) \<and> 0 \<le> tf_order f"

definition valid_unresolved :: "unresolved_thread \<Rightarrow> bool" where
  "valid_unresolved t \<longleftrightarrow> ut_id t \<noteq> [] \<and> text_within MAX_FACT_CHARS (ut_description t) \<and> 0 \<le> ut_order t"

definition valid_resolved :: "resolved_thread \<Rightarrow> bool" where
  "valid_resolved t \<longleftrightarrow> rd_id t \<noteq> [] \<and> text_within MAX_FACT_CHARS (rd_description t) \<and> 0 \<le> rd_order t"

text \<open>\<open>_require_unique\<close> of one list under its key, and its length.\<close>

definition listed :: "nat \<Rightarrow> ('a \<Rightarrow> bool) \<Rightarrow> ('a \<Rightarrow> string) \<Rightarrow> 'a list \<Rightarrow> bool" where
  "listed most valid key xs \<longleftrightarrow> length xs \<le> most \<and> list_all valid xs \<and> distinct (map key xs)"

definition valid_memory :: "continuity_memory \<Rightarrow> bool" where
  "valid_memory m \<longleftrightarrow>
     cm_id m \<noteq> [] \<and> cm_story_id m \<noteq> [] \<and>
     listed MAX_CHAPTER_SUMMARIES valid_summary cs_chapter_id (cm_chapter_summaries m) \<and>
     listed MAX_CANON_FACTS valid_canon_fact cf_id (cm_canon_facts m) \<and>
     listed MAX_TIMELINE_FACTS valid_timeline_fact tf_id (cm_timeline_facts m) \<and>
     listed MAX_UNRESOLVED_THREADS valid_unresolved ut_id (cm_unresolved_threads m) \<and>
     listed MAX_RESOLVED_THREADS valid_resolved rd_id (cm_resolved_threads m)"

text \<open>The \<open>ordered_\<dots>\<close> accessors: by order, ties by id.\<close>

definition ordered_chapter_summaries :: "chapter_summary list \<Rightarrow> chapter_summary list" where
  "ordered_chapter_summaries = sort_key (\<lambda>s. (cs_order s, cs_chapter_id s))"

definition ordered_canon_facts :: "canon_fact list \<Rightarrow> canon_fact list" where
  "ordered_canon_facts = sort_key (\<lambda>f. (cf_order f, cf_id f))"

definition ordered_timeline_facts :: "timeline_fact list \<Rightarrow> timeline_fact list" where
  "ordered_timeline_facts = sort_key (\<lambda>f. (tf_order f, tf_id f))"

definition ordered_unresolved_threads :: "unresolved_thread list \<Rightarrow> unresolved_thread list" where
  "ordered_unresolved_threads = sort_key (\<lambda>t. (ut_order t, ut_id t))"

definition ordered_resolved_threads :: "resolved_thread list \<Rightarrow> resolved_thread list" where
  "ordered_resolved_threads = sort_key (\<lambda>t. (rd_order t, rd_id t))"

section \<open>A completed chapter\<close>

record proposed_canon_fact =
  pc_id :: string
  pc_subject :: string
  pc_fact :: string

record proposed_text =
  pt_id :: string
  pt_description :: string

record chapter_completion =
  cc_chapter_id :: string
  cc_order :: int
  cc_summary :: string
  cc_canon_facts :: "proposed_canon_fact list"
  cc_timeline_facts :: "proposed_text list"
  cc_threads_introduced :: "proposed_text list"
  cc_threads_resolved :: "string list"

definition valid_completion :: "chapter_completion \<Rightarrow> bool" where
  "valid_completion c \<longleftrightarrow>
     cc_chapter_id c \<noteq> [] \<and> 0 \<le> cc_order c \<and> text_within MAX_SUMMARY_CHARS (cc_summary c) \<and>
     list_all (\<lambda>p. pc_id p \<noteq> [] \<and> pc_subject p \<noteq> [] \<and> pc_fact p \<noteq> []) (cc_canon_facts c) \<and>
     list_all (\<lambda>p. pt_id p \<noteq> [] \<and> pt_description p \<noteq> []) (cc_timeline_facts c @ cc_threads_introduced c)"

datatype merge_conflict =
  Fact_kept proposed_canon_fact canon_fact
| Time_kept proposed_text timeline_fact
| Thread_closed proposed_text resolved_thread
| Thread_kept proposed_text unresolved_thread
| Thread_unknown string

datatype continuity_error = Story_id_missing | Story_id_mismatch | Not_valid string

section \<open>Merging\<close>

definition next_order :: "int list \<Rightarrow> int" where
  "next_order orders = (if orders = [] then 0 else Max (set orders) + 1)"

definition upsert_chapter_summary ::
  "chapter_summary list \<Rightarrow> chapter_completion \<Rightarrow> continuity_error + chapter_summary list" where
  "upsert_chapter_summary existing c =
     (let s = \<lparr>cs_chapter_id = cc_chapter_id c, cs_order = cc_order c, cs_summary = cc_summary c\<rparr> in
      if valid_summary s then Inr (filter (\<lambda>x. cs_chapter_id x \<noteq> cc_chapter_id c) existing @ [s])
      else Inl (Not_valid ''ChapterSummary''))"

text \<open>
  The dictionary \<open>by_id\<close> of the three merges: the last item with an id. An item is added only under an
  id that is not there, so the dictionary is read off the list built so far.
\<close>

definition by_id :: "('a \<Rightarrow> string) \<Rightarrow> 'a list \<Rightarrow> string \<Rightarrow> 'a option" where
  "by_id key xs i = find (\<lambda>x. key x = i) (rev xs)"

definition new_canon_fact :: "string \<Rightarrow> int \<Rightarrow> proposed_canon_fact \<Rightarrow> canon_fact" where
  "new_canon_fact chapter_id order p =
     \<lparr>cf_id = pc_id p, cf_subject = pc_subject p, cf_fact = pc_fact p, cf_order = order,
      cf_source_chapter_id = Some chapter_id\<rparr>"

definition new_timeline_fact :: "string \<Rightarrow> int \<Rightarrow> proposed_text \<Rightarrow> timeline_fact" where
  "new_timeline_fact chapter_id order p =
     \<lparr>tf_id = pt_id p, tf_description = pt_description p, tf_order = order, tf_source_chapter_id = Some chapter_id\<rparr>"

definition new_thread :: "string \<Rightarrow> int \<Rightarrow> proposed_text \<Rightarrow> unresolved_thread" where
  "new_thread chapter_id order p =
     \<lparr>ut_id = pt_id p, ut_description = pt_description p, ut_order = order, ut_introduced_chapter_id = Some chapter_id\<rparr>"

fun merge_canon_facts ::
  "string \<Rightarrow> int \<Rightarrow> canon_fact list \<Rightarrow> proposed_canon_fact list
    \<Rightarrow> continuity_error + (canon_fact list \<times> merge_conflict list)" where
  "merge_canon_facts chapter_id order result [] = Inr (result, [])"
| "merge_canon_facts chapter_id order result (p # ps) =
     (case by_id cf_id result (pc_id p) of
        None \<Rightarrow>
          if valid_canon_fact (new_canon_fact chapter_id order p)
          then merge_canon_facts chapter_id (order + 1) (result @ [new_canon_fact chapter_id order p]) ps
          else Inl (Not_valid ''CanonFact'')
      | Some current \<Rightarrow>
          if cf_subject current = pc_subject p \<and> cf_fact current = pc_fact p
          then merge_canon_facts chapter_id order result ps
          else
            (case merge_canon_facts chapter_id order result ps of
               Inl e \<Rightarrow> Inl e | Inr (facts, conflicts) \<Rightarrow> Inr (facts, Fact_kept p current # conflicts)))"

fun merge_timeline_facts ::
  "string \<Rightarrow> int \<Rightarrow> timeline_fact list \<Rightarrow> proposed_text list
    \<Rightarrow> continuity_error + (timeline_fact list \<times> merge_conflict list)" where
  "merge_timeline_facts chapter_id order result [] = Inr (result, [])"
| "merge_timeline_facts chapter_id order result (p # ps) =
     (case by_id tf_id result (pt_id p) of
        None \<Rightarrow>
          if valid_timeline_fact (new_timeline_fact chapter_id order p)
          then merge_timeline_facts chapter_id (order + 1) (result @ [new_timeline_fact chapter_id order p]) ps
          else Inl (Not_valid ''TimelineFact'')
      | Some current \<Rightarrow>
          if tf_description current = pt_description p then merge_timeline_facts chapter_id order result ps
          else
            (case merge_timeline_facts chapter_id order result ps of
               Inl e \<Rightarrow> Inl e | Inr (facts, conflicts) \<Rightarrow> Inr (facts, Time_kept p current # conflicts)))"

fun merge_threads_introduced ::
  "string \<Rightarrow> resolved_thread list \<Rightarrow> int \<Rightarrow> unresolved_thread list \<Rightarrow> proposed_text list
    \<Rightarrow> continuity_error + (unresolved_thread list \<times> merge_conflict list)" where
  "merge_threads_introduced chapter_id resolved order result [] = Inr (result, [])"
| "merge_threads_introduced chapter_id resolved order result (p # ps) =
     (let continue = (\<lambda>conflicts.
            case merge_threads_introduced chapter_id resolved order result ps of
              Inl e \<Rightarrow> Inl e | Inr (threads, others) \<Rightarrow> Inr (threads, conflicts @ others)) in
      case by_id rd_id resolved (pt_id p) of
        Some ended \<Rightarrow> continue (if rd_description ended = pt_description p then [] else [Thread_closed p ended])
      | None \<Rightarrow>
          (case by_id ut_id result (pt_id p) of
             None \<Rightarrow>
               if valid_unresolved (new_thread chapter_id order p)
               then merge_threads_introduced chapter_id resolved (order + 1) (result @ [new_thread chapter_id order p]) ps
               else Inl (Not_valid ''UnresolvedThread'')
           | Some current \<Rightarrow> continue (if ut_description current = pt_description p then [] else [Thread_kept p current])))"

definition closed_thread :: "string \<Rightarrow> unresolved_thread \<Rightarrow> resolved_thread" where
  "closed_thread chapter_id t =
     \<lparr>rd_id = ut_id t, rd_description = ut_description t, rd_order = ut_order t,
      rd_introduced_chapter_id = ut_introduced_chapter_id t, rd_resolved_chapter_id = Some chapter_id\<rparr>"

fun apply_thread_resolutions ::
  "string \<Rightarrow> unresolved_thread list \<Rightarrow> resolved_thread list \<Rightarrow> string list
    \<Rightarrow> continuity_error + (unresolved_thread list \<times> resolved_thread list \<times> merge_conflict list)" where
  "apply_thread_resolutions chapter_id open_ts resolved [] = Inr (open_ts, resolved, [])"
| "apply_thread_resolutions chapter_id open_ts resolved (i # is) =
     (case find (\<lambda>t. ut_id t = i) open_ts of
        Some t \<Rightarrow>
          if valid_resolved (closed_thread chapter_id t)
          then apply_thread_resolutions chapter_id (filter (\<lambda>t. ut_id t \<noteq> i) open_ts) (resolved @ [closed_thread chapter_id t]) is
          else Inl (Not_valid ''ResolvedThread'')
      | None \<Rightarrow>
          if i \<in> set (map rd_id resolved) then apply_thread_resolutions chapter_id open_ts resolved is
          else
            (case apply_thread_resolutions chapter_id open_ts resolved is of
               Inl e \<Rightarrow> Inl e
             | Inr (open_ts, resolved, conflicts) \<Rightarrow> Inr (open_ts, resolved, Thread_unknown i # conflicts)))"

definition empty_memory :: "string \<Rightarrow> string \<Rightarrow> string \<Rightarrow> continuity_memory" where
  "empty_memory memory_id story_id now =
     \<lparr>cm_id = memory_id, cm_story_id = story_id, cm_as_of_chapter_id = None, cm_chapter_summaries = [],
      cm_canon_facts = [], cm_timeline_facts = [], cm_unresolved_threads = [], cm_resolved_threads = [],
      cm_created_at = now, cm_updated_at = now\<rparr>"

text \<open>What the update starts from: the memory there is, or the fields of a new one.\<close>

definition memory_before ::
  "continuity_memory option \<Rightarrow> string option \<Rightarrow> string option \<Rightarrow> string \<Rightarrow> continuity_error + continuity_memory" where
  "memory_before memory story_id memory_id now =
     (case memory of
        None \<Rightarrow>
          (case story_id of
             None \<Rightarrow> Inl Story_id_missing
           | Some s \<Rightarrow>
               if s = [] then Inl Story_id_missing
               else
                 Inr (empty_memory
                   (case memory_id of Some i \<Rightarrow> if i = [] then ''continuity_'' @ s else i | None \<Rightarrow> ''continuity_'' @ s) s now))
      | Some m \<Rightarrow>
          if story_id \<noteq> None \<and> story_id \<noteq> Some (cm_story_id m) then Inl Story_id_mismatch else Inr m)"

definition merged_memory :: "continuity_memory \<Rightarrow> chapter_completion \<Rightarrow> string \<Rightarrow> continuity_error + (continuity_memory \<times> merge_conflict list)" where
  "merged_memory m c now =
     (case upsert_chapter_summary (cm_chapter_summaries m) c of
        Inl e \<Rightarrow> Inl e
      | Inr summaries \<Rightarrow>
     (case merge_canon_facts (cc_chapter_id c) (next_order (map cf_order (cm_canon_facts m))) (cm_canon_facts m) (cc_canon_facts c) of
        Inl e \<Rightarrow> Inl e
      | Inr (facts, fact_conflicts) \<Rightarrow>
     (case merge_timeline_facts (cc_chapter_id c) (next_order (map tf_order (cm_timeline_facts m))) (cm_timeline_facts m)
             (cc_timeline_facts c) of
        Inl e \<Rightarrow> Inl e
      | Inr (timings, time_conflicts) \<Rightarrow>
     (case merge_threads_introduced (cc_chapter_id c) (cm_resolved_threads m)
             (next_order (map ut_order (cm_unresolved_threads m))) (cm_unresolved_threads m) (cc_threads_introduced c) of
        Inl e \<Rightarrow> Inl e
      | Inr (introduced, introduce_conflicts) \<Rightarrow>
     (case apply_thread_resolutions (cc_chapter_id c) introduced (cm_resolved_threads m) (cc_threads_resolved c) of
        Inl e \<Rightarrow> Inl e
      | Inr (open_ts, resolved, resolve_conflicts) \<Rightarrow>
          (let sorted_summaries = ordered_chapter_summaries summaries in
           Inr
             (m\<lparr>cm_as_of_chapter_id :=
                  (if sorted_summaries = [] then None else Some (cs_chapter_id (last sorted_summaries))),
                cm_chapter_summaries := sorted_summaries,
                cm_canon_facts := ordered_canon_facts facts,
                cm_timeline_facts := ordered_timeline_facts timings,
                cm_unresolved_threads := ordered_unresolved_threads open_ts,
                cm_resolved_threads := ordered_resolved_threads resolved,
                cm_updated_at := now\<rparr>,
              fact_conflicts @ time_conflicts @ introduce_conflicts @ resolve_conflicts)))))))"

definition update_continuity_memory ::
  "continuity_memory option \<Rightarrow> chapter_completion \<Rightarrow> string option \<Rightarrow> string option \<Rightarrow> string
    \<Rightarrow> continuity_error + (continuity_memory \<times> merge_conflict list)" where
  "update_continuity_memory memory c story_id memory_id now =
     (case memory_before memory story_id memory_id now of
        Inl e \<Rightarrow> Inl e
      | Inr m \<Rightarrow>
          (case merged_memory m c now of
             Inl e \<Rightarrow> Inl e
           | Inr (m1, conflicts) \<Rightarrow> if valid_memory m1 then Inr (m1, conflicts) else Inl (Not_valid ''ContinuityMemory'')))"

section \<open>The loop behind the three merges\<close>

definition because :: "'c list \<Rightarrow> 'e + ('a \<times> 'c list) \<Rightarrow> 'e + ('a \<times> 'c list)" where
  "because cs r = (case r of Inl e \<Rightarrow> Inl e | Inr (x, others) \<Rightarrow> Inr (x, cs @ others))"

fun merge_loop ::
  "('a \<Rightarrow> string) \<Rightarrow> ('p \<Rightarrow> string) \<Rightarrow> ('p \<Rightarrow> 'c list option) \<Rightarrow> ('a \<Rightarrow> 'p \<Rightarrow> bool) \<Rightarrow> ('a \<Rightarrow> bool) \<Rightarrow> (int \<Rightarrow> 'p \<Rightarrow> 'a)
    \<Rightarrow> ('p \<Rightarrow> 'a \<Rightarrow> 'c) \<Rightarrow> 'e \<Rightarrow> int \<Rightarrow> 'a list \<Rightarrow> 'p list \<Rightarrow> 'e + ('a list \<times> 'c list)" where
  "merge_loop key pkey settled same valid mk clash err order result [] = Inr (result, [])"
| "merge_loop key pkey settled same valid mk clash err order result (p # ps) =
     (case settled p of
        Some cs \<Rightarrow> because cs (merge_loop key pkey settled same valid mk clash err order result ps)
      | None \<Rightarrow>
          (case by_id key result (pkey p) of
             None \<Rightarrow>
               if valid (mk order p)
               then merge_loop key pkey settled same valid mk clash err (order + 1) (result @ [mk order p]) ps
               else Inl err
           | Some current \<Rightarrow>
               because (if same current p then [] else [clash p current])
                 (merge_loop key pkey settled same valid mk clash err order result ps)))"

definition found_conflict ::
  "('a \<Rightarrow> string) \<Rightarrow> ('p \<Rightarrow> string) \<Rightarrow> ('p \<Rightarrow> 'c list option) \<Rightarrow> ('a \<Rightarrow> 'p \<Rightarrow> bool) \<Rightarrow> ('p \<Rightarrow> 'a \<Rightarrow> 'c) \<Rightarrow> 'a list \<Rightarrow> 'p \<Rightarrow> 'c list" where
  "found_conflict key pkey settled same clash result p =
     (case settled p of
        Some cs \<Rightarrow> cs
      | None \<Rightarrow>
          (case by_id key result (pkey p) of None \<Rightarrow> [] | Some current \<Rightarrow> if same current p then [] else [clash p current]))"

definition thread_settled :: "resolved_thread list \<Rightarrow> proposed_text \<Rightarrow> merge_conflict list option" where
  "thread_settled resolved p =
     map_option (\<lambda>ended. if rd_description ended = pt_description p then [] else [Thread_closed p ended])
       (by_id rd_id resolved (pt_id p))"

lemma merge_canon_facts_loop:
  "merge_canon_facts chapter_id order result ps =
   merge_loop cf_id pc_id (\<lambda>_. None) (\<lambda>f p. cf_subject f = pc_subject p \<and> cf_fact f = pc_fact p) valid_canon_fact
     (new_canon_fact chapter_id) Fact_kept (Not_valid ''CanonFact'') order result ps"
  by (induction chapter_id order result ps rule: merge_canon_facts.induct) (auto simp: because_def split: option.splits sum.splits)

lemma merge_timeline_facts_loop:
  "merge_timeline_facts chapter_id order result ps =
   merge_loop tf_id pt_id (\<lambda>_. None) (\<lambda>f p. tf_description f = pt_description p) valid_timeline_fact
     (new_timeline_fact chapter_id) Time_kept (Not_valid ''TimelineFact'') order result ps"
  by (induction chapter_id order result ps rule: merge_timeline_facts.induct) (auto simp: because_def split: option.splits sum.splits)

lemma merge_threads_introduced_loop:
  "merge_threads_introduced chapter_id resolved order result ps =
   merge_loop ut_id pt_id (thread_settled resolved) (\<lambda>t p. ut_description t = pt_description p) valid_unresolved
     (new_thread chapter_id) Thread_kept (Not_valid ''UnresolvedThread'') order result ps"
  by (induction chapter_id resolved order result ps rule: merge_threads_introduced.induct)
    (auto simp: because_def thread_settled_def Let_def split: option.splits sum.splits)

lemma by_id_Nil [simp]: "by_id key [] i = None"
  by (simp add: by_id_def)

lemma by_id_append:
  "by_id key (xs @ [x]) i = (if key x = i then Some x else by_id key xs i)"
  by (simp add: by_id_def)

lemma by_id_appends:
  "by_id key (xs @ ys) i = (case by_id key ys i of None \<Rightarrow> by_id key xs i | Some y \<Rightarrow> Some y)"
proof (induction ys rule: rev_induct)
  case (snoc y ys)
  then show ?case unfolding append_assoc [symmetric] by_id_append by simp
qed simp

lemma by_id_None: "by_id key xs i = None \<longleftrightarrow> i \<notin> key ` set xs"
  by (auto simp: by_id_def find_None_iff)

lemma by_id_SomeD: "by_id key xs i = Some x \<Longrightarrow> x \<in> set xs \<and> key x = i"
  by (induction xs rule: rev_induct) (auto simp: by_id_append split: if_splits)

lemma by_id_distinct: "distinct (map key xs) \<Longrightarrow> x \<in> set xs \<Longrightarrow> by_id key xs (key x) = Some x"
proof (cases "by_id key xs (key x)")
  case (Some y)
  assume "distinct (map key xs)" "x \<in> set xs"
  with by_id_SomeD [OF Some] Some show ?thesis by (auto simp: distinct_map inj_on_def)
qed (auto simp: by_id_None)

lemma by_id_iff: "distinct (map key xs) \<Longrightarrow> by_id key xs i = Some x \<longleftrightarrow> x \<in> set xs \<and> key x = i"
  using by_id_SomeD by_id_distinct by metis

lemma by_id_same_set:
  assumes "distinct (map key xs)" and "distinct (map key ys)" and "set xs = set ys"
  shows "by_id key xs i = by_id key ys i"
proof (cases "by_id key xs i")
  case None
  then have "by_id key ys i = None" by (simp add: by_id_None assms(3))
  with None show ?thesis by simp
next
  case (Some x)
  then have "by_id key ys i = Some x" using assms by (simp add: by_id_iff)
  with Some show ?thesis by simp
qed

locale item_merge =
  fixes key :: "'a \<Rightarrow> string"
    and pkey :: "'p \<Rightarrow> string"
    and same :: "'a \<Rightarrow> 'p \<Rightarrow> bool"
    and mk :: "int \<Rightarrow> 'p \<Rightarrow> 'a"
  assumes mk_key: "key (mk n p) = pkey p"
    and mk_same: "same (mk n p) p"
begin

abbreviation loop where
  "loop settled valid clash err \<equiv> merge_loop key pkey settled same valid mk clash err"

text \<open>A run of the loop only appends, under new ids, and reports what the final list says of each proposal.\<close>

lemma loop_more:
  assumes "\<exists>new. final = result @ new \<and> distinct (map key new) \<and> key ` set new \<inter> key ` set result = {} \<and>
        list_all valid new \<and> (\<forall>x \<in> set new. \<exists>n. \<exists>p \<in> set ps. settled p = None \<and> x = mk n p)"
  shows "\<exists>new. final = result @ new \<and> distinct (map key new) \<and> key ` set new \<inter> key ` set result = {} \<and>
        list_all valid new \<and> (\<forall>x \<in> set new. \<exists>n. \<exists>q \<in> set (p # ps). settled q = None \<and> x = mk n q)"
proof -
  from assms obtain new where n: "final = result @ new" "distinct (map key new)" "key ` set new \<inter> key ` set result = {}"
    "list_all valid new" "\<forall>x \<in> set new. \<exists>n. \<exists>p \<in> set ps. settled p = None \<and> x = mk n p" by blast
  have "\<forall>x \<in> set new. \<exists>n. \<exists>q \<in> set (p # ps). settled q = None \<and> x = mk n q"
    using n(5) by (metis list.set_intros(2))
  with n(1-4) show ?thesis by blast
qed

lemma loop_result:
  assumes "loop settled valid clash err order result ps = Inr (final, cs)"
  shows "(\<exists>new. final = result @ new \<and> distinct (map key new) \<and> key ` set new \<inter> key ` set result = {} \<and>
        list_all valid new \<and> (\<forall>x \<in> set new. \<exists>n. \<exists>p \<in> set ps. settled p = None \<and> x = mk n p)) \<and>
      cs = concat (map (found_conflict key pkey settled same clash final) ps) \<and>
      (\<forall>p \<in> set ps. settled p = None \<longrightarrow> by_id key final (pkey p) \<noteq> None)"
  using assms
proof (induction ps arbitrary: order result cs)
  case (Cons p ps)
  show ?case
  proof (cases "settled p")
    case (Some c)
    with Cons.prems obtain cs' where l: "loop settled valid clash err order result ps = Inr (final, cs')" "cs = c @ cs'"
      by (auto simp: because_def split: sum.splits)
    from Some l(2) show ?thesis
      by (intro conjI loop_more [OF Cons.IH [OF l(1), THEN conjunct1]])
        (use Cons.IH [OF l(1)] in \<open>simp_all add: found_conflict_def [of key pkey settled same clash final p]\<close>)
  next
    case None
    show ?thesis
    proof (cases "by_id key result (pkey p)")
      case new: None
      with None Cons.prems have v: "valid (mk order p)"
        and l: "loop settled valid clash err (order + 1) (result @ [mk order p]) ps = Inr (final, cs)"
        by (auto split: if_splits)
      from Cons.IH [OF l] obtain new where n: "final = (result @ [mk order p]) @ new" "distinct (map key new)"
        "key ` set new \<inter> key ` set (result @ [mk order p]) = {}" "list_all valid new"
        "\<forall>x \<in> set new. \<exists>n. \<exists>p \<in> set ps. settled p = None \<and> x = mk n p"
        "cs = concat (map (found_conflict key pkey settled same clash final) ps)"
        "\<forall>p \<in> set ps. settled p = None \<longrightarrow> by_id key final (pkey p) \<noteq> None"
        by blast
      have "by_id key new (pkey p) = None" using n(3) by (auto simp: by_id_None mk_key)
      then have found: "by_id key final (pkey p) = Some (mk order p)"
        
        by (simp only: n(1) by_id_appends [of key "result @ [mk order p]" new] by_id_append mk_key option.case simp_thms if_True)
      have "\<exists>new. final = result @ new \<and> distinct (map key new) \<and> key ` set new \<inter> key ` set result = {} \<and>
        list_all valid new \<and> (\<forall>x \<in> set new. \<exists>n. \<exists>q \<in> set (p # ps). settled q = None \<and> x = mk n q)"
      proof (intro exI [of _ "mk order p # new"] conjI)
        show "\<forall>x \<in> set (mk order p # new). \<exists>n. \<exists>q \<in> set (p # ps). settled q = None \<and> x = mk n q"
          using n(5) None by (metis list.set_intros set_ConsD)
      qed (use n(1-4) v new in \<open>auto simp: by_id_None mk_key\<close>)
      then show ?thesis using n(6,7) found None mk_same [of order p] by (simp add: found_conflict_def [of key pkey settled same clash final p])
    next
      case (Some current)
      with None Cons.prems obtain cs' where l: "loop settled valid clash err order result ps = Inr (final, cs')"
        "cs = (if same current p then [] else [clash p current]) @ cs'"
        by (auto simp: because_def split: sum.splits)
      from Cons.IH [OF l(1)] obtain new where n: "final = result @ new" "key ` set new \<inter> key ` set result = {}" by blast
      with by_id_SomeD [OF Some] have "pkey p \<notin> key ` set new" by (metis disjoint_iff imageI)
      then have "by_id key new (pkey p) = None" by (simp only: by_id_None simp_thms)
      then have found: "by_id key final (pkey p) = Some current" by (simp add: n(1) by_id_appends Some)
      from l(2) found None show ?thesis
        by (intro conjI loop_more [OF Cons.IH [OF l(1), THEN conjunct1]])
          (use Cons.IH [OF l(1)] in \<open>simp_all add: found_conflict_def [of key pkey settled same clash final p]\<close>)
    qed
  qed
qed simp

lemma loop_known:
  assumes "\<And>p. p \<in> set ps \<Longrightarrow> settled p = None \<Longrightarrow> by_id key result (pkey p) \<noteq> None"
  shows "loop settled valid clash err order result ps =
     Inr (result, concat (map (found_conflict key pkey settled same clash result) ps))"
  using assms
proof (induction ps)
  case (Cons p ps)
  from Cons.IH Cons.prems have l: "loop settled valid clash err order result ps =
     Inr (result, concat (map (found_conflict key pkey settled same clash result) ps))" by simp
  from Cons.prems [of p] show ?case
    by (cases "settled p"; cases "by_id key result (pkey p)") (simp_all add: l because_def found_conflict_def [of key pkey settled same clash result p])
qed simp

lemma loop_keeps:
  assumes "loop settled valid clash err order result ps = Inr (final, cs)"
  shows "set result \<subseteq> set final"
    and "distinct (map key result) \<Longrightarrow> distinct (map key final)"
    and "p \<in> set ps \<Longrightarrow> settled p = None \<Longrightarrow> \<exists>x \<in> set final. key x = pkey p \<and> (same x p \<or> clash p x \<in> set cs)"
proof -
  from loop_result [OF assms] obtain new where n: "final = result @ new" "distinct (map key new)" "key ` set new \<inter> key ` set result = {}"
    and cs: "cs = concat (map (found_conflict key pkey settled same clash final) ps)"
    and found: "\<forall>p \<in> set ps. settled p = None \<longrightarrow> by_id key final (pkey p) \<noteq> None" by blast
  show "set result \<subseteq> set final" by (simp add: n(1))
  show "distinct (map key final)" if "distinct (map key result)" using n that by auto
  show "\<exists>x \<in> set final. key x = pkey p \<and> (same x p \<or> clash p x \<in> set cs)" if p: "p \<in> set ps" "settled p = None"
  proof -
    from found p obtain x where x: "by_id key final (pkey p) = Some x" by blast
    then have "same x p \<or> clash p x \<in> set (found_conflict key pkey settled same clash final p)"
      by (simp add: found_conflict_def p(2))
    then show ?thesis using by_id_SomeD [OF x] p(1) cs by auto
  qed
qed

text \<open>A second run over what the first one left, in whatever order, adds nothing and reports the same.\<close>

lemma loop_again:
  assumes "loop settled valid clash err order result ps = Inr (final, cs)"
    and "distinct (map key final)" and "distinct (map key again)" and "set again = set final"
  shows "loop settled valid clash err order' again ps = Inr (again, cs)"
proof -
  have same_find: "by_id key again = by_id key final"
    using by_id_same_set assms(2-4) by (metis ext)
  then have "found_conflict key pkey settled same clash again = found_conflict key pkey settled same clash final"
    by (intro ext) (simp only: found_conflict_def)
  moreover note loop_result [OF assms(1)]
  ultimately show ?thesis by (subst loop_known) (auto simp: same_find)
qed

end

interpretation canon: item_merge cf_id pc_id "\<lambda>f p. cf_subject f = pc_subject p \<and> cf_fact f = pc_fact p" "new_canon_fact chapter_id"
  for chapter_id by unfold_locales (simp_all add: new_canon_fact_def)

interpretation timeline: item_merge tf_id pt_id "\<lambda>f p. tf_description f = pt_description p" "new_timeline_fact chapter_id"
  for chapter_id by unfold_locales (simp_all add: new_timeline_fact_def)

interpretation threads: item_merge ut_id pt_id "\<lambda>t p. ut_description t = pt_description p" "new_thread chapter_id"
  for chapter_id by unfold_locales (simp_all add: new_thread_def)

end
