(* ===== verification/Continuity_Facts.thy ===== *)
theory Continuity_Facts imports Continuity "HOL-Library.Multiset" begin

text \<open>What folding a chapter into the continuity memory keeps, and what folding it in twice changes.\<close>

section \<open>Closing threads\<close>

lemma resolutions_result:
  assumes "apply_thread_resolutions chapter_id open_ts resolved ids = Inr (open_ts', resolved', cs)"
    and "distinct (map ut_id open_ts)"
  shows "open_ts' = filter (\<lambda>t. ut_id t \<notin> set ids) open_ts \<and>
    (\<exists>ended. resolved' = resolved @ map (closed_thread chapter_id) ended \<and>
       set ended = {t \<in> set open_ts. ut_id t \<in> set ids}) \<and>
    cs = map Thread_unknown (filter (\<lambda>i. i \<notin> ut_id ` set open_ts \<union> rd_id ` set resolved) ids)"
  using assms
proof (induction ids arbitrary: open_ts resolved cs)
  case (Cons i ids)
  show ?case
  proof (cases "find (\<lambda>t. ut_id t = i) open_ts")
    case None
    then have i: "i \<notin> ut_id ` set open_ts" by (auto simp: find_None_iff)
    from None Cons.prems(1) obtain cs' where "apply_thread_resolutions chapter_id open_ts resolved ids = Inr (open_ts', resolved', cs')"
      and cs: "cs = (if i \<in> set (map rd_id resolved) then cs' else Thread_unknown i # cs')"
      by (auto split: if_splits sum.splits)
    from Cons.IH [OF this(1) Cons.prems(2)] cs i show ?thesis
      by (auto intro!: filter_cong)
  next
    case (Some t)
    then have t: "t \<in> set open_ts" "ut_id t = i" by (auto simp: find_Some_iff)
    with Cons.prems(2) have only: "x \<in> set open_ts \<Longrightarrow> ut_id x = i \<Longrightarrow> x = t" for x by (auto simp: distinct_map inj_on_def)
    let ?rest = "filter (\<lambda>t. ut_id t \<noteq> i) open_ts"
    from Some Cons.prems(1)
    have "apply_thread_resolutions chapter_id ?rest (resolved @ [closed_thread chapter_id t]) ids = Inr (open_ts', resolved', cs)"
      by (auto split: if_splits)
    moreover have "distinct (map ut_id ?rest)" using Cons.prems(2) by (simp add: distinct_map inj_on_def)
    ultimately obtain ended where o: "open_ts' = filter (\<lambda>t. ut_id t \<notin> set ids) ?rest"
      and r: "resolved' = (resolved @ [closed_thread chapter_id t]) @ map (closed_thread chapter_id) ended"
      and e: "set ended = {t \<in> set ?rest. ut_id t \<in> set ids}"
      and c: "cs = map Thread_unknown (filter (\<lambda>i. i \<notin> ut_id ` set ?rest \<union> rd_id ` set (resolved @ [closed_thread chapter_id t])) ids)"
      using Cons.IH by blast
    have "resolved' = resolved @ map (closed_thread chapter_id) (t # ended)" by (simp add: r)
    moreover have "set (t # ended) = {t \<in> set open_ts. ut_id t \<in> set (i # ids)}"
    proof (intro set_eqI)
      show "x \<in> set (t # ended) \<longleftrightarrow> x \<in> {t \<in> set open_ts. ut_id t \<in> set (i # ids)}" for x
        using t only [of x] by (cases "ut_id x = i") (simp_all add: e, blast+)
    qed
    moreover have "ut_id ` set ?rest \<union> rd_id ` set (resolved @ [closed_thread chapter_id t]) = ut_id ` set open_ts \<union> rd_id ` set resolved"
      using t by (auto simp: closed_thread_def)
    then have "cs = map Thread_unknown (filter (\<lambda>i. i \<notin> ut_id ` set open_ts \<union> rd_id ` set resolved) (i # ids))"
      using c t by simp blast
    moreover have "open_ts' = filter (\<lambda>t. ut_id t \<notin> set (i # ids)) open_ts" unfolding o by (auto intro: filter_cong)
    ultimately show ?thesis by blast
  qed
qed simp

lemma resolutions_again:
  assumes "\<forall>i \<in> set ids. i \<notin> ut_id ` set open_ts"
  shows "apply_thread_resolutions chapter_id open_ts resolved ids =
    Inr (open_ts, resolved, map Thread_unknown (filter (\<lambda>i. i \<notin> rd_id ` set resolved) ids))"
  using assms
proof (induction ids)
  case (Cons i ids)
  then have "find (\<lambda>t. ut_id t = i) open_ts = None" by (auto simp: find_None_iff)
  with Cons show ?case by auto
qed simp

section \<open>Order\<close>

lemma distinct_sort_key [simp]: "distinct (map f (sort_key k xs)) = distinct (map f xs)"
  by (metis mset_eq_imp_distinct_iff mset_map mset_sort)

lemma sort_key_same:
  assumes "distinct (map key xs)" and "distinct (map key ys)" and "set xs = set ys"
  shows "sort_key (\<lambda>x. (ord x, key x)) xs = sort_key (\<lambda>x. (ord x, key x)) ys"
proof (rule sort_key_inj_key_eq)
  show "mset xs = mset (sort_key (\<lambda>x. (ord x, key x)) ys)"
    using assms by (simp add: set_eq_iff_mset_eq_distinct [symmetric] distinct_map)
  show "inj_on (\<lambda>x. (ord x, key x)) (set xs)" using assms(1) by (auto simp: distinct_map inj_on_def)
qed simp

section \<open>The update\<close>

text \<open>The keys of every list are distinct, as in every valid memory.\<close>

definition unique_ids :: "continuity_memory \<Rightarrow> bool" where
  "unique_ids m \<longleftrightarrow>
     distinct (map cs_chapter_id (cm_chapter_summaries m)) \<and> distinct (map cf_id (cm_canon_facts m)) \<and>
     distinct (map tf_id (cm_timeline_facts m)) \<and> distinct (map ut_id (cm_unresolved_threads m)) \<and>
     distinct (map rd_id (cm_resolved_threads m))"

lemma valid_unique: "valid_memory m \<Longrightarrow> unique_ids m"
  by (simp add: valid_memory_def unique_ids_def listed_def)

text \<open>The five steps of a merge that succeeds.\<close>

definition merge_steps ::
  "continuity_memory \<Rightarrow> chapter_completion \<Rightarrow> chapter_summary list \<Rightarrow> canon_fact list \<Rightarrow> timeline_fact list \<Rightarrow>
   unresolved_thread list \<Rightarrow> unresolved_thread list \<Rightarrow> resolved_thread list \<Rightarrow> merge_conflict list list \<Rightarrow> bool" where
  "merge_steps m c summaries facts timings introduced open_ts resolved css \<longleftrightarrow>
     upsert_chapter_summary (cm_chapter_summaries m) c = Inr summaries \<and> length css = 4 \<and>
     merge_canon_facts (cc_chapter_id c) (next_order (map cf_order (cm_canon_facts m))) (cm_canon_facts m) (cc_canon_facts c)
       = Inr (facts, css ! 0) \<and>
     merge_timeline_facts (cc_chapter_id c) (next_order (map tf_order (cm_timeline_facts m))) (cm_timeline_facts m)
       (cc_timeline_facts c) = Inr (timings, css ! 1) \<and>
     merge_threads_introduced (cc_chapter_id c) (cm_resolved_threads m)
       (next_order (map ut_order (cm_unresolved_threads m))) (cm_unresolved_threads m) (cc_threads_introduced c)
       = Inr (introduced, css ! 2) \<and>
     apply_thread_resolutions (cc_chapter_id c) introduced (cm_resolved_threads m) (cc_threads_resolved c)
       = Inr (open_ts, resolved, css ! 3)"

definition rebuilt ::
  "continuity_memory \<Rightarrow> string \<Rightarrow> chapter_summary list \<Rightarrow> canon_fact list \<Rightarrow> timeline_fact list \<Rightarrow>
   unresolved_thread list \<Rightarrow> resolved_thread list \<Rightarrow> continuity_memory" where
  "rebuilt m now summaries facts timings open_ts resolved =
     (let sorted_summaries = ordered_chapter_summaries summaries in
      m\<lparr>cm_as_of_chapter_id := (if sorted_summaries = [] then None else Some (cs_chapter_id (last sorted_summaries))),
        cm_chapter_summaries := sorted_summaries, cm_canon_facts := ordered_canon_facts facts,
        cm_timeline_facts := ordered_timeline_facts timings, cm_unresolved_threads := ordered_unresolved_threads open_ts,
        cm_resolved_threads := ordered_resolved_threads resolved, cm_updated_at := now\<rparr>)"

lemma merged_memory_iff:
  "merged_memory m c now = Inr (m1, cs) \<longleftrightarrow>
   (\<exists>summaries facts timings introduced open_ts resolved css.
      merge_steps m c summaries facts timings introduced open_ts resolved css \<and> cs = concat css \<and>
      m1 = rebuilt m now summaries facts timings open_ts resolved)" (is "?l \<longleftrightarrow> ?r")
proof
  assume ?l
  then obtain summaries facts timings introduced open_ts resolved c1 c2 c3 c4 where
    "upsert_chapter_summary (cm_chapter_summaries m) c = Inr summaries"
    "merge_canon_facts (cc_chapter_id c) (next_order (map cf_order (cm_canon_facts m))) (cm_canon_facts m) (cc_canon_facts c)
       = Inr (facts, c1)"
    "merge_timeline_facts (cc_chapter_id c) (next_order (map tf_order (cm_timeline_facts m))) (cm_timeline_facts m)
       (cc_timeline_facts c) = Inr (timings, c2)"
    "merge_threads_introduced (cc_chapter_id c) (cm_resolved_threads m)
       (next_order (map ut_order (cm_unresolved_threads m))) (cm_unresolved_threads m) (cc_threads_introduced c)
       = Inr (introduced, c3)"
    "apply_thread_resolutions (cc_chapter_id c) introduced (cm_resolved_threads m) (cc_threads_resolved c) = Inr (open_ts, resolved, c4)"
    "cs = c1 @ c2 @ c3 @ c4" "m1 = rebuilt m now summaries facts timings open_ts resolved"
    unfolding merged_memory_def rebuilt_def Let_def by (auto split: sum.splits prod.splits)
  then have "merge_steps m c summaries facts timings introduced open_ts resolved [c1, c2, c3, c4]"
    "cs = concat [c1, c2, c3, c4]" "m1 = rebuilt m now summaries facts timings open_ts resolved"
    by (simp_all add: merge_steps_def numeral_2_eq_2 numeral_3_eq_3)
  then show ?r by blast
next
  assume ?r
  then obtain summaries facts timings introduced open_ts resolved css where
    s: "merge_steps m c summaries facts timings introduced open_ts resolved css" and cs: "cs = concat css"
    and m1: "m1 = rebuilt m now summaries facts timings open_ts resolved" by blast
  then obtain c1 c2 c3 c4 where "css = [c1, c2, c3, c4]"
    by (auto simp: merge_steps_def numeral_eq_Suc length_Suc_conv)
  with s cs m1 show ?l
    by (simp add: merge_steps_def merged_memory_def rebuilt_def numeral_2_eq_2 numeral_3_eq_3 Let_def)
qed

lemma ordered_sets [simp]:
  "set (ordered_chapter_summaries ss) = set ss" "set (ordered_canon_facts fs) = set fs"
  "set (ordered_timeline_facts ts) = set ts" "set (ordered_unresolved_threads us) = set us"
  "set (ordered_resolved_threads rs) = set rs"
  by (simp_all add: ordered_chapter_summaries_def ordered_canon_facts_def ordered_timeline_facts_def
      ordered_unresolved_threads_def ordered_resolved_threads_def)

lemma ordered_ids [simp]:
  "distinct (map cs_chapter_id (ordered_chapter_summaries ss)) = distinct (map cs_chapter_id ss)"
  "distinct (map cf_id (ordered_canon_facts fs)) = distinct (map cf_id fs)"
  "distinct (map tf_id (ordered_timeline_facts ts)) = distinct (map tf_id ts)"
  "distinct (map ut_id (ordered_unresolved_threads us)) = distinct (map ut_id us)"
  "distinct (map rd_id (ordered_resolved_threads rs)) = distinct (map rd_id rs)"
  by (simp_all add: ordered_chapter_summaries_def ordered_canon_facts_def ordered_timeline_facts_def
      ordered_unresolved_threads_def ordered_resolved_threads_def)

lemma ordered_again [simp]:
  "ordered_canon_facts (ordered_canon_facts fs) = ordered_canon_facts fs"
  "ordered_timeline_facts (ordered_timeline_facts ts) = ordered_timeline_facts ts"
  "ordered_unresolved_threads (ordered_unresolved_threads us) = ordered_unresolved_threads us"
  "ordered_resolved_threads (ordered_resolved_threads rs) = ordered_resolved_threads rs"
  by (simp_all add: ordered_canon_facts_def ordered_timeline_facts_def ordered_unresolved_threads_def ordered_resolved_threads_def
      sort_key_id_if_sorted)

lemma upsert_again:
  assumes "upsert_chapter_summary existing c = Inr summaries" and "distinct (map cs_chapter_id summaries)"
  shows "\<exists>again. upsert_chapter_summary (ordered_chapter_summaries summaries) c = Inr again \<and>
    ordered_chapter_summaries again = ordered_chapter_summaries summaries"
proof -
  let ?s = "\<lparr>cs_chapter_id = cc_chapter_id c, cs_order = cc_order c, cs_summary = cc_summary c\<rparr>"
  let ?kept = "\<lambda>xs. filter (\<lambda>x. cs_chapter_id x \<noteq> cc_chapter_id c) xs @ [?s]"
  from assms(1) have ok: "valid_summary ?s" and summaries: "summaries = ?kept existing"
    by (auto simp: upsert_chapter_summary_def Let_def split: if_splits)
  have again: "set (?kept (ordered_chapter_summaries summaries)) = set summaries" by (auto simp: summaries)
  have "inj_on cs_chapter_id (set summaries)" "distinct (ordered_chapter_summaries summaries)"
    using assms(2) by (simp_all add: distinct_map ordered_chapter_summaries_def)
  then have "distinct (map cs_chapter_id (?kept (ordered_chapter_summaries summaries)))"
    by (auto simp: distinct_map inj_on_def)
  then have "ordered_chapter_summaries (?kept (ordered_chapter_summaries summaries)) = ordered_chapter_summaries summaries"
    using assms(2) again sort_key_same [of cs_chapter_id "?kept (ordered_chapter_summaries summaries)" summaries cs_order]
    by (simp add: ordered_chapter_summaries_def)
  with ok show ?thesis by (simp add: upsert_chapter_summary_def)
qed

lemma closed_thread_sel [simp]:
  "rd_id (closed_thread chapter_id t) = ut_id t" "rd_description (closed_thread chapter_id t) = ut_description t"
  by (simp_all add: closed_thread_def)

text \<open>
  What is reported the second time: a conflict with a thread that was kept open and that the same
  chapter then closed is now a conflict with a closed thread; every other conflict is the same.
\<close>

definition reported_again :: "string \<Rightarrow> string set \<Rightarrow> merge_conflict \<Rightarrow> merge_conflict" where
  "reported_again chapter_id ids conflict =
     (case conflict of
        Thread_kept p t \<Rightarrow> if ut_id t \<in> ids then Thread_closed p (closed_thread chapter_id t) else conflict
      | _ \<Rightarrow> conflict)"

lemma reported_again_simps [simp]:
  "reported_again chapter_id ids (Fact_kept pc f) = Fact_kept pc f" "reported_again chapter_id ids (Time_kept p g) = Time_kept p g"
  "reported_again chapter_id ids (Thread_closed p d) = Thread_closed p d" "reported_again chapter_id ids (Thread_unknown i) = Thread_unknown i"
  "reported_again chapter_id ids (Thread_kept p t) =
    (if ut_id t \<in> ids then Thread_closed p (closed_thread chapter_id t) else Thread_kept p t)"
  by (simp_all add: reported_again_def)

text \<open>What a thread's proposal meets the second time.\<close>

lemma thread_again:
  assumes resolved': "set resolved' = set resolved \<union> closed_thread chapter_id ` {t \<in> set introduced. ut_id t \<in> ids}"
    and open': "set open' = {t \<in> set introduced. ut_id t \<notin> ids}"
    and unique: "distinct (map rd_id resolved')" "distinct (map ut_id open')"
    and found: "thread_settled resolved p = None \<Longrightarrow> by_id ut_id introduced (pt_id p) \<noteq> None"
  shows "thread_settled resolved' p = None \<Longrightarrow> by_id ut_id open' (pt_id p) \<noteq> None"
    and "found_conflict ut_id pt_id (thread_settled resolved') (\<lambda>t p. ut_description t = pt_description p) Thread_kept open' p =
         map (reported_again chapter_id ids)
           (found_conflict ut_id pt_id (thread_settled resolved) (\<lambda>t p. ut_description t = pt_description p) Thread_kept introduced p)"
proof -
  have "(thread_settled resolved' p = None \<longrightarrow> by_id ut_id open' (pt_id p) \<noteq> None) \<and>
      found_conflict ut_id pt_id (thread_settled resolved') (\<lambda>t p. ut_description t = pt_description p) Thread_kept open' p =
      map (reported_again chapter_id ids)
        (found_conflict ut_id pt_id (thread_settled resolved) (\<lambda>t p. ut_description t = pt_description p) Thread_kept introduced p)"
  proof (cases "by_id rd_id resolved (pt_id p)")
    case (Some ended)
    then have "by_id rd_id resolved' (pt_id p) = Some ended"
      using by_id_SomeD [OF Some] by (simp add: by_id_iff unique resolved')
    with Some show ?thesis by (simp add: found_conflict_def thread_settled_def)
  next
    case None
    then obtain x where x: "by_id ut_id introduced (pt_id p) = Some x" using found by (auto simp: thread_settled_def)
    then have x': "x \<in> set introduced" "ut_id x = pt_id p" using by_id_SomeD by metis+
    show ?thesis
    proof (cases "pt_id p \<in> ids")
      case True
      then have "by_id rd_id resolved' (pt_id p) = Some (closed_thread chapter_id x)"
        using x' by (auto simp: by_id_iff unique resolved')
      with None x x' True show ?thesis by (simp add: found_conflict_def thread_settled_def)
    next
      case False
      then have "by_id rd_id resolved' (pt_id p) = None"
        using None by (auto simp: by_id_None resolved' closed_thread_def)
      moreover have "by_id ut_id open' (pt_id p) = Some x" using False x' by (simp add: by_id_iff unique open')
      ultimately show ?thesis using None x x' False by (simp add: found_conflict_def thread_settled_def)
    qed
  qed
  then show "thread_settled resolved' p = None \<Longrightarrow> by_id ut_id open' (pt_id p) \<noteq> None"
    and "found_conflict ut_id pt_id (thread_settled resolved') (\<lambda>t p. ut_description t = pt_description p) Thread_kept open' p =
         map (reported_again chapter_id ids)
           (found_conflict ut_id pt_id (thread_settled resolved) (\<lambda>t p. ut_description t = pt_description p) Thread_kept introduced p)"
    by auto
qed

lemma merge_again:
  assumes s: "merge_steps m c summaries facts timings introduced open_ts resolved css"
    and m: "unique_ids m" and m1: "m1 = rebuilt m now summaries facts timings open_ts resolved" and unique: "unique_ids m1"
  shows "merged_memory m1 c now = Inr (m1, map (reported_again (cc_chapter_id c) (set (cc_threads_resolved c))) (concat css))"
proof -
  let ?ids = "set (cc_threads_resolved c)"
  let ?again = "reported_again (cc_chapter_id c) ?ids"
  have ids: "distinct (map cs_chapter_id summaries)" "distinct (map cf_id facts)" "distinct (map tf_id timings)"
    "distinct (map ut_id open_ts)" "distinct (map rd_id resolved)"
    using unique by (simp_all add: unique_ids_def m1 rebuilt_def Let_def)
  obtain c1 c2 c3 c4 where css: "css = [c1, c2, c3, c4]"
    using s by (auto simp: merge_steps_def numeral_eq_Suc length_Suc_conv)
  note s = s [unfolded merge_steps_def css, simplified numeral_2_eq_2 numeral_3_eq_3 list.size nth.simps nat.case]
  obtain again where u: "upsert_chapter_summary (ordered_chapter_summaries summaries) c = Inr again"
    "ordered_chapter_summaries again = ordered_chapter_summaries summaries"
    using upsert_again s ids(1) by blast
  have facts: "merge_canon_facts (cc_chapter_id c) n (ordered_canon_facts facts) (cc_canon_facts c) = Inr (ordered_canon_facts facts, c1)" for n
    using s unfolding merge_canon_facts_loop by (auto intro!: canon.loop_again simp: ids)
  have timings: "merge_timeline_facts (cc_chapter_id c) n (ordered_timeline_facts timings) (cc_timeline_facts c) = Inr (ordered_timeline_facts timings, c2)" for n
    using s unfolding merge_timeline_facts_loop by (auto intro!: timeline.loop_again simp: ids)
  have canon_loop: "merge_loop cf_id pc_id (\<lambda>_. None) (\<lambda>f p. cf_subject f = pc_subject p \<and> cf_fact f = pc_fact p) valid_canon_fact
     (new_canon_fact (cc_chapter_id c)) Fact_kept (Not_valid ''CanonFact'') (next_order (map cf_order (cm_canon_facts m)))
     (cm_canon_facts m) (cc_canon_facts c) = Inr (facts, c1)"
    and timeline_loop: "merge_loop tf_id pt_id (\<lambda>_. None) (\<lambda>f p. tf_description f = pt_description p) valid_timeline_fact
     (new_timeline_fact (cc_chapter_id c)) Time_kept (Not_valid ''TimelineFact'') (next_order (map tf_order (cm_timeline_facts m)))
     (cm_timeline_facts m) (cc_timeline_facts c) = Inr (timings, c2)"
    using s by (simp_all add: merge_canon_facts_loop merge_timeline_facts_loop)
  have intro: "merge_loop ut_id pt_id (thread_settled (cm_resolved_threads m)) (\<lambda>t p. ut_description t = pt_description p) valid_unresolved
     (new_thread (cc_chapter_id c)) Thread_kept (Not_valid ''UnresolvedThread'')
     (next_order (map ut_order (cm_unresolved_threads m))) (cm_unresolved_threads m) (cc_threads_introduced c) = Inr (introduced, c3)"
    using s by (simp add: merge_threads_introduced_loop)
  have "distinct (map ut_id introduced)" using threads.loop_keeps(2) [OF intro] m by (simp add: unique_ids_def)
  with s resolutions_result obtain ended where o: "open_ts = filter (\<lambda>t. ut_id t \<notin> ?ids) introduced"
    and r: "resolved = cm_resolved_threads m @ map (closed_thread (cc_chapter_id c)) ended"
    and e: "set ended = {t \<in> set introduced. ut_id t \<in> ?ids}"
    and c4: "c4 = map Thread_unknown (filter (\<lambda>i. i \<notin> ut_id ` set introduced \<union> rd_id ` set (cm_resolved_threads m)) (cc_threads_resolved c))"
    by blast
  have o': "set (ordered_unresolved_threads open_ts) = {t \<in> set introduced. ut_id t \<notin> ?ids}" by (simp add: o)
  have r': "set (ordered_resolved_threads resolved) =
      set (cm_resolved_threads m) \<union> closed_thread (cc_chapter_id c) ` {t \<in> set introduced. ut_id t \<in> ?ids}" by (simp add: r e)
  let ?found = "\<lambda>R I. found_conflict ut_id pt_id (thread_settled R) (\<lambda>t p. ut_description t = pt_description p) Thread_kept I"
  let ?c3 = "concat (map (?found (ordered_resolved_threads resolved) (ordered_unresolved_threads open_ts)) (cc_threads_introduced c))"
  note intro_result = threads.loop_result [OF intro]
  have known: "thread_settled (ordered_resolved_threads resolved) p = None \<Longrightarrow>
      by_id ut_id (ordered_unresolved_threads open_ts) (pt_id p) \<noteq> None"
    and len: "?found (ordered_resolved_threads resolved) (ordered_unresolved_threads open_ts) p =
      map ?again (?found (cm_resolved_threads m) introduced p)" if "p \<in> set (cc_threads_introduced c)" for p
    using thread_again [OF r' o', of p] intro_result that ids by simp_all
  have threads: "merge_threads_introduced (cc_chapter_id c) (ordered_resolved_threads resolved) n (ordered_unresolved_threads open_ts)
      (cc_threads_introduced c) = Inr (ordered_unresolved_threads open_ts, ?c3)" for n
    unfolding merge_threads_introduced_loop by (rule threads.loop_known) (rule known)
  have "?c3 = map ?again c3"
  proof -
    have "c3 = concat (map (?found (cm_resolved_threads m) introduced) (cc_threads_introduced c))" using intro_result by blast
    then show ?thesis using len by (simp add: map_concat o_def cong: map_cong)
  qed
  moreover have "apply_thread_resolutions (cc_chapter_id c) (ordered_unresolved_threads open_ts) (ordered_resolved_threads resolved)
      (cc_threads_resolved c) = Inr (ordered_unresolved_threads open_ts, ordered_resolved_threads resolved, c4)"
  proof -
    have "i \<in> rd_id ` set (ordered_resolved_threads resolved) \<longleftrightarrow> i \<in> ut_id ` set introduced \<union> rd_id ` set (cm_resolved_threads m)"
      if "i \<in> ?ids" for i unfolding r' using that by (force simp: closed_thread_def)
    then have "filter (\<lambda>i. i \<notin> rd_id ` set (ordered_resolved_threads resolved)) (cc_threads_resolved c) =
        filter (\<lambda>i. i \<notin> ut_id ` set introduced \<union> rd_id ` set (cm_resolved_threads m)) (cc_threads_resolved c)"
      by (intro filter_cong) auto
    then show ?thesis by (subst resolutions_again) (auto simp: c4 o)
  qed
  ultimately have steps: "merge_steps m1 c again (ordered_canon_facts facts) (ordered_timeline_facts timings)
      (ordered_unresolved_threads open_ts) (ordered_unresolved_threads open_ts) (ordered_resolved_threads resolved) [c1, c2, ?c3, c4]"
    and c3: "?c3 = map ?again c3"
    using u facts timings threads by (simp_all add: merge_steps_def m1 rebuilt_def Let_def numeral_2_eq_2 numeral_3_eq_3)
  have m1': "m1 = rebuilt m1 now again (ordered_canon_facts facts) (ordered_timeline_facts timings)
      (ordered_unresolved_threads open_ts) (ordered_resolved_threads resolved)"
    by (simp add: m1 rebuilt_def Let_def u(2))
  have same: "map ?again c1 = c1" "map ?again c2 = c2" "map ?again c4 = c4"
  proof -
    have found: "map ?again (found_conflict cf_id pc_id (\<lambda>_. None) same Fact_kept fs p) = found_conflict cf_id pc_id (\<lambda>_. None) same Fact_kept fs p"
      "map ?again (found_conflict tf_id pt_id (\<lambda>_. None) same' Time_kept ts q) = found_conflict tf_id pt_id (\<lambda>_. None) same' Time_kept ts q"
      for same same' fs ts p q
      by (simp_all add: found_conflict_def split: option.splits)
    have "\<exists>same fs ps. c1 = concat (map (found_conflict cf_id pc_id (\<lambda>_. None) same Fact_kept fs) ps)"
      using canon.loop_result [OF canon_loop] by blast
    then show "map ?again c1 = c1" by (auto simp: map_concat o_def found)
    have "\<exists>same ts ps. c2 = concat (map (found_conflict tf_id pt_id (\<lambda>_. None) same Time_kept ts) ps)"
      using timeline.loop_result [OF timeline_loop] by blast
    then show "map ?again c2 = c2" by (auto simp: map_concat o_def found)
    show "map ?again c4 = c4" by (simp add: c4)
  qed
  have "concat [c1, c2, ?c3, c4] = map ?again (concat css)" by (simp add: css same c3)
  then show ?thesis unfolding merged_memory_iff using steps m1' by metis
qed

lemma threads_merge:
  assumes "merge_threads_introduced chapter_id resolved n open_ts ps = Inr (introduced, cs)"
    and "apply_thread_resolutions chapter_id introduced resolved ids = Inr (open', resolved', cs')"
    and "distinct (map ut_id open_ts)"
  shows "set resolved \<subseteq> set resolved'"
    and "t \<in> set open_ts \<Longrightarrow> if ut_id t \<in> set ids then closed_thread chapter_id t \<in> set resolved' else t \<in> set open'"
    and "p \<in> set ps \<Longrightarrow>
       (\<exists>t. (t \<in> set open' \<or> closed_thread chapter_id t \<in> set resolved') \<and>
            ut_id t = pt_id p \<and> (ut_description t = pt_description p \<or> Thread_kept p t \<in> set cs)) \<or>
       (\<exists>r \<in> set resolved'. rd_id r = pt_id p \<and> (rd_description r = pt_description p \<or> Thread_closed p r \<in> set cs))"
    and "ut_id ` set open_ts \<inter> rd_id ` set resolved = {} \<Longrightarrow> ut_id ` set open' \<inter> rd_id ` set resolved' = {}"
proof -
  note intro = assms(1) [unfolded merge_threads_introduced_loop]
  note result = threads.loop_result [OF intro]
  have "distinct (map ut_id introduced)" using threads.loop_keeps(2) [OF intro assms(3)] .
  from resolutions_result [OF assms(2) this] obtain ended where o: "open' = filter (\<lambda>t. ut_id t \<notin> set ids) introduced"
    and r: "resolved' = resolved @ map (closed_thread chapter_id) ended"
    and e: "set ended = {t \<in> set introduced. ut_id t \<in> set ids}" by blast
  have kept: "t \<in> set open' \<or> closed_thread chapter_id t \<in> set resolved'" if "t \<in> set introduced" for t
    using that by (auto simp: o r e)
  show "set resolved \<subseteq> set resolved'" by (simp add: r)
  show "if ut_id t \<in> set ids then closed_thread chapter_id t \<in> set resolved' else t \<in> set open'" if "t \<in> set open_ts"
    using that threads.loop_keeps(1) [OF intro] by (auto simp: o r e)
  show "(\<exists>t. (t \<in> set open' \<or> closed_thread chapter_id t \<in> set resolved') \<and>
            ut_id t = pt_id p \<and> (ut_description t = pt_description p \<or> Thread_kept p t \<in> set cs)) \<or>
       (\<exists>r \<in> set resolved'. rd_id r = pt_id p \<and> (rd_description r = pt_description p \<or> Thread_closed p r \<in> set cs))"
    if p: "p \<in> set ps"
  proof (cases "by_id rd_id resolved (pt_id p)")
    case None
    then show ?thesis using threads.loop_keeps(3) [OF intro p] kept by (auto simp: thread_settled_def)
  next
    case (Some r')
    have "cs = concat (map (found_conflict ut_id pt_id (thread_settled resolved) (\<lambda>t p. ut_description t = pt_description p)
        Thread_kept introduced) ps)" using result by blast
    then have "rd_description r' = pt_description p \<or> Thread_closed p r' \<in> set cs"
      using p by (auto simp: found_conflict_def thread_settled_def Some intro!: bexI [of _ p])
    moreover have "r' \<in> set resolved'" "rd_id r' = pt_id p" using by_id_SomeD [OF Some] by (simp_all add: r)
    ultimately show ?thesis by blast
  qed
  show "ut_id ` set open' \<inter> rd_id ` set resolved' = {}" if apart: "ut_id ` set open_ts \<inter> rd_id ` set resolved = {}"
  proof -
    from result obtain new where i: "introduced = open_ts @ new"
      "\<forall>x \<in> set new. \<exists>n. \<exists>p \<in> set ps. thread_settled resolved p = None \<and> x = new_thread chapter_id n p" by blast
    have "ut_id x \<notin> rd_id ` set resolved" if "x \<in> set new" for x
      using i(2) that by (fastforce simp: thread_settled_def by_id_None new_thread_def)
    then have "ut_id ` set introduced \<inter> rd_id ` set resolved = {}" using apart by (auto simp: i(1))
    then show ?thesis by (auto simp: o r e)
  qed
qed

section \<open>Folding in a chapter\<close>

definition threads_apart :: "continuity_memory \<Rightarrow> bool" where
  "threads_apart m \<longleftrightarrow> ut_id ` set (cm_unresolved_threads m) \<inter> rd_id ` set (cm_resolved_threads m) = {}"

lemma merged_memory_later:
  "merged_memory m c now = Inr (m1, cs) \<Longrightarrow> merged_memory m c later = Inr (m1\<lparr>cm_updated_at := later\<rparr>, cs)"
  by (auto simp: merged_memory_def Let_def split: sum.splits prod.splits)

lemma valid_memory_later [simp]: "valid_memory (m\<lparr>cm_updated_at := later\<rparr>) \<longleftrightarrow> valid_memory m"
  by (simp add: valid_memory_def)

text \<open>
  C27: folding a chapter into the memory a second time, whenever that is, changes nothing but the time of
  the last update, whatever the memory was before and however facts and threads clash. The same conflicts
  are reported in the same order, with one exception: a conflict with an open thread that was kept, and
  that this very chapter then closed, is reported the second time as a conflict with the closed thread.
\<close>

theorem continuity_idempotent:
  assumes "update_continuity_memory memory c story_id memory_id now = Inr (m1, cs)"
    and "\<And>m. memory = Some m \<Longrightarrow> valid_memory m"
  shows "update_continuity_memory (Some m1) c story_id memory_id' later =
    Inr (m1\<lparr>cm_updated_at := later\<rparr>, map (reported_again (cc_chapter_id c) (set (cc_threads_resolved c))) cs)"
proof -
  from assms(1) obtain m where m: "memory_before memory story_id memory_id now = Inr m" and merged: "merged_memory m c now = Inr (m1, cs)"
    and valid: "valid_memory m1"
    by (auto simp: update_continuity_memory_def split: sum.splits if_splits)
  have "unique_ids m"
    using m assms(2) valid_unique
    by (auto simp: memory_before_def unique_ids_def empty_memory_def split: option.splits if_splits)
  with merged valid_unique [OF valid] have again: "merged_memory m1 c now =
      Inr (m1, map (reported_again (cc_chapter_id c) (set (cc_threads_resolved c))) cs)"
    unfolding merged_memory_iff [of m] using merge_again by blast
  have "cm_story_id m1 = cm_story_id m" using merged by (auto simp: merged_memory_iff rebuilt_def Let_def)
  moreover have "story_id = None \<or> story_id = Some (cm_story_id m)"
    using m by (auto simp: memory_before_def empty_memory_def split: option.splits if_splits)
  ultimately have "memory_before (Some m1) story_id memory_id' later = Inr m1" by (auto simp: memory_before_def)
  with merged_memory_later [OF again] valid show ?thesis by (simp add: update_continuity_memory_def)
qed

text \<open>
  C26: a merge loses no fact and no thread and silences no clash between them. In a valid memory in which
  no thread is both open and closed: other chapters' summaries, all facts and all closed threads
  stay as they are; an open thread stays open or is recorded as closed by this chapter; every fact and
  thread the chapter proposes is in the memory afterwards, as proposed, or the conflict with the one
  that is kept is reported. The record is valid again, and no thread is both open and closed.
\<close>

theorem continuity_loses_nothing:
  assumes "update_continuity_memory (Some m) c story_id memory_id now = Inr (m1, cs)" and "valid_memory m" and "threads_apart m"
  shows "(\<forall>s \<in> set (cm_chapter_summaries m). cs_chapter_id s = cc_chapter_id c \<or> s \<in> set (cm_chapter_summaries m1)) \<and>
    set (cm_canon_facts m) \<subseteq> set (cm_canon_facts m1) \<and> set (cm_timeline_facts m) \<subseteq> set (cm_timeline_facts m1) \<and>
    set (cm_resolved_threads m) \<subseteq> set (cm_resolved_threads m1) \<and>
    (\<forall>t \<in> set (cm_unresolved_threads m).
       if ut_id t \<in> set (cc_threads_resolved c) then closed_thread (cc_chapter_id c) t \<in> set (cm_resolved_threads m1)
       else t \<in> set (cm_unresolved_threads m1)) \<and>
    (\<forall>p \<in> set (cc_canon_facts c). \<exists>f \<in> set (cm_canon_facts m1). cf_id f = pc_id p \<and>
       ((cf_subject f = pc_subject p \<and> cf_fact f = pc_fact p) \<or> Fact_kept p f \<in> set cs)) \<and>
    (\<forall>p \<in> set (cc_timeline_facts c). \<exists>f \<in> set (cm_timeline_facts m1). tf_id f = pt_id p \<and>
       (tf_description f = pt_description p \<or> Time_kept p f \<in> set cs)) \<and>
    (\<forall>p \<in> set (cc_threads_introduced c).
       (\<exists>t. (t \<in> set (cm_unresolved_threads m1) \<or> closed_thread (cc_chapter_id c) t \<in> set (cm_resolved_threads m1)) \<and>
            ut_id t = pt_id p \<and> (ut_description t = pt_description p \<or> Thread_kept p t \<in> set cs)) \<or>
       (\<exists>r \<in> set (cm_resolved_threads m1). rd_id r = pt_id p \<and>
            (rd_description r = pt_description p \<or> Thread_closed p r \<in> set cs))) \<and>
    valid_memory m1 \<and> threads_apart m1"
proof -
  from assms(1) have merged: "merged_memory m c now = Inr (m1, cs)" and valid: "valid_memory m1"
    by (auto simp: update_continuity_memory_def memory_before_def split: sum.splits if_splits)
  then obtain summaries facts timings introduced open_ts resolved css where
    s: "merge_steps m c summaries facts timings introduced open_ts resolved css" and cs: "cs = concat css"
    and m1: "m1 = rebuilt m now summaries facts timings open_ts resolved" unfolding merged_memory_iff by blast
  have unique: "unique_ids m" by (rule valid_unique [OF assms(2)])
  obtain c1 c2 c3 c4 where css: "css = [c1, c2, c3, c4]"
    using s by (auto simp: merge_steps_def numeral_eq_Suc length_Suc_conv)
  note s = s [unfolded merge_steps_def css, simplified numeral_2_eq_2 numeral_3_eq_3 list.size nth.simps nat.case]
  have canon: "merge_loop cf_id pc_id (\<lambda>_. None) (\<lambda>f p. cf_subject f = pc_subject p \<and> cf_fact f = pc_fact p) valid_canon_fact
     (new_canon_fact (cc_chapter_id c)) Fact_kept (Not_valid ''CanonFact'') (next_order (map cf_order (cm_canon_facts m)))
     (cm_canon_facts m) (cc_canon_facts c) = Inr (facts, c1)"
    and timeline: "merge_loop tf_id pt_id (\<lambda>_. None) (\<lambda>f p. tf_description f = pt_description p) valid_timeline_fact
     (new_timeline_fact (cc_chapter_id c)) Time_kept (Not_valid ''TimelineFact'') (next_order (map tf_order (cm_timeline_facts m)))
     (cm_timeline_facts m) (cc_timeline_facts c) = Inr (timings, c2)"
    using s by (simp_all add: merge_canon_facts_loop merge_timeline_facts_loop)
  have threads: "merge_threads_introduced (cc_chapter_id c) (cm_resolved_threads m)
      (next_order (map ut_order (cm_unresolved_threads m))) (cm_unresolved_threads m) (cc_threads_introduced c) = Inr (introduced, c3)"
    "apply_thread_resolutions (cc_chapter_id c) introduced (cm_resolved_threads m) (cc_threads_resolved c) = Inr (open_ts, resolved, c4)"
    "distinct (map ut_id (cm_unresolved_threads m))"
    using s unique by (simp_all add: unique_ids_def)
  note threads = threads_merge [OF threads]
  have lists: "set (cm_chapter_summaries m1) = set summaries" "set (cm_canon_facts m1) = set facts"
    "set (cm_timeline_facts m1) = set timings" "set (cm_unresolved_threads m1) = set open_ts"
    "set (cm_resolved_threads m1) = set resolved" "set cs = set c1 \<union> set c2 \<union> set c3 \<union> set c4"
    by (auto simp: m1 rebuilt_def Let_def cs css)
  have 1: "\<forall>s \<in> set (cm_chapter_summaries m). cs_chapter_id s = cc_chapter_id c \<or> s \<in> set summaries"
    using s by (auto simp: upsert_chapter_summary_def Let_def split: if_splits)
  have 2: "\<forall>p \<in> set (cc_canon_facts c). \<exists>f \<in> set facts. cf_id f = pc_id p \<and>
       ((cf_subject f = pc_subject p \<and> cf_fact f = pc_fact p) \<or> Fact_kept p f \<in> set cs)"
    using canon.loop_keeps(3) [OF canon] unfolding lists(6) by fastforce
  have 3: "\<forall>p \<in> set (cc_timeline_facts c). \<exists>f \<in> set timings. tf_id f = pt_id p \<and>
       (tf_description f = pt_description p \<or> Time_kept p f \<in> set cs)"
    using timeline.loop_keeps(3) [OF timeline] unfolding lists(6) by fastforce
  have 4: "\<forall>p \<in> set (cc_threads_introduced c).
       (\<exists>t. (t \<in> set open_ts \<or> closed_thread (cc_chapter_id c) t \<in> set resolved) \<and>
            ut_id t = pt_id p \<and> (ut_description t = pt_description p \<or> Thread_kept p t \<in> set cs)) \<or>
       (\<exists>r \<in> set resolved. rd_id r = pt_id p \<and>
            (rd_description r = pt_description p \<or> Thread_closed p r \<in> set cs))"
    using threads(3) unfolding lists(6) by (metis UnI1 UnI2)
  have 5: "\<forall>t \<in> set (cm_unresolved_threads m).
       if ut_id t \<in> set (cc_threads_resolved c) then closed_thread (cc_chapter_id c) t \<in> set resolved else t \<in> set open_ts"
    using threads(2) by blast
  have 6: "ut_id ` set open_ts \<inter> rd_id ` set resolved = {}" using threads(4) assms(3) by (simp add: threads_apart_def)
  show ?thesis unfolding threads_apart_def lists(1-5)
    by (intro conjI 1 2 3 4 5 6 valid canon.loop_keeps(1) [OF canon] timeline.loop_keeps(1) [OF timeline] threads(1))
qed

text \<open>
  A memory with a fact and an open thread, and a chapter that contradicts the one, closes the other, opens
  and closes a thread of its own and claims to close one that was never opened.
\<close>

definition sample_memory :: continuity_memory where
  "sample_memory =
     (empty_memory ''m'' ''s'' ''t0'')
       \<lparr>cm_canon_facts := [\<lparr>cf_id = ''eyes'', cf_subject = ''Mika'', cf_fact = ''grey'', cf_order = 0, cf_source_chapter_id = Some ''c1''\<rparr>],
        cm_unresolved_threads := [\<lparr>ut_id = ''letter'', ut_description = ''who wrote it'', ut_order = 0, ut_introduced_chapter_id = Some ''c1''\<rparr>]\<rparr>"

definition sample_completion :: chapter_completion where
  "sample_completion =
     \<lparr>cc_chapter_id = ''c2'', cc_order = 1, cc_summary = ''They meet.'',
      cc_canon_facts = [\<lparr>pc_id = ''eyes'', pc_subject = ''Mika'', pc_fact = ''green''\<rparr>],
      cc_timeline_facts = [], cc_threads_introduced = [\<lparr>pt_id = ''key'', pt_description = ''what it opens''\<rparr>],
      cc_threads_resolved = [''letter'', ''key'', ''dog'']\<rparr>"

definition sample_merged :: continuity_memory where
  "sample_merged = sample_memory
     \<lparr>cm_as_of_chapter_id := Some ''c2'',
      cm_chapter_summaries := [\<lparr>cs_chapter_id = ''c2'', cs_order = 1, cs_summary = ''They meet.''\<rparr>],
      cm_unresolved_threads := [],
      cm_resolved_threads :=
        map (closed_thread ''c2'')
          (cm_unresolved_threads sample_memory @
           [\<lparr>ut_id = ''key'', ut_description = ''what it opens'', ut_order = 1, ut_introduced_chapter_id = Some ''c2''\<rparr>]),
      cm_updated_at := ''t1''\<rparr>"

definition sample_conflicts :: "merge_conflict list" where
  "sample_conflicts =
     [Fact_kept (hd (cc_canon_facts sample_completion)) (hd (cm_canon_facts sample_memory)), Thread_unknown ''dog'']"

lemma sample_update:
  "update_continuity_memory (Some sample_memory) sample_completion None None ''t1'' = Inr (sample_merged, sample_conflicts)"
  by code_simp

text \<open>
  A chapter that describes an open thread anew and closes it: the re-run reports another conflict than
  the first run, although the module promises byte-identical output.
\<close>

definition closing_completion :: chapter_completion where
  "closing_completion = sample_completion
     \<lparr>cc_canon_facts := [], cc_threads_introduced := [\<lparr>pt_id = ''letter'', pt_description = ''who sent it''\<rparr>],
      cc_threads_resolved := [''letter'']\<rparr>"

definition rerun_reports :: "merge_conflict list option \<times> merge_conflict list option" where
  "rerun_reports =
     (case update_continuity_memory (Some sample_memory) closing_completion None None ''t1'' of
        Inl e \<Rightarrow> (None, None)
      | Inr (m1, cs) \<Rightarrow>
          (Some cs,
           case update_continuity_memory (Some m1) closing_completion None None ''t1'' of
             Inl e \<Rightarrow> None | Inr (m2, again) \<Rightarrow> Some again))"

lemma rerun_reports_another_conflict:
  "rerun_reports =
     (let p = hd (cc_threads_introduced closing_completion); t = hd (cm_unresolved_threads sample_memory)
      in (Some [Thread_kept p t], Some [Thread_closed p (closed_thread ''c2'' t)]))"
  by code_simp

lemma continuity_idempotent_witness:
  "update_continuity_memory (Some sample_merged) sample_completion None None ''t2'' =
     Inr (sample_merged\<lparr>cm_updated_at := ''t2''\<rparr>, sample_conflicts)"
proof -
  have "valid_memory sample_memory" by code_simp
  with continuity_idempotent [OF sample_update] show ?thesis by (simp add: sample_conflicts_def)
qed

lemma continuity_loses_nothing_witness:
  "closed_thread ''c2'' (hd (cm_unresolved_threads sample_memory)) \<in> set (cm_resolved_threads sample_merged) \<and>
   threads_apart sample_merged"
proof -
  have "valid_memory sample_memory" "threads_apart sample_memory" by code_simp+
  note continuity_loses_nothing [OF sample_update this]
  then show ?thesis by (simp add: sample_memory_def sample_completion_def)
qed

text \<open>
  The update's comment promises the same record for the same facts merged in any order. Facts are numbered as
  they arrive, so the order of the chapters' merges stays visible.
\<close>

definition lone_fact :: "string \<Rightarrow> chapter_completion" where
  "lone_fact i =
     \<lparr>cc_chapter_id = i, cc_order = 0, cc_summary = ''.'', cc_canon_facts = [\<lparr>pc_id = i, pc_subject = ''x'', pc_fact = ''y''\<rparr>],
      cc_timeline_facts = [], cc_threads_introduced = [], cc_threads_resolved = []\<rparr>"

definition merged_in_order :: "chapter_completion list \<Rightarrow> (string \<times> int) list" where
  "merged_in_order completions =
     (case foldl (\<lambda>m c. case m of
          Inl e \<Rightarrow> Inl e
        | Inr m \<Rightarrow> map_sum id fst (update_continuity_memory (Some m) c None None ''t''))
        (Inr (empty_memory ''m'' ''s'' ''t'')) completions of
      Inl e \<Rightarrow> [] | Inr m \<Rightarrow> map (\<lambda>f. (cf_id f, cf_order f)) (cm_canon_facts m))"

lemma merge_order_shows:
  "merged_in_order [lone_fact ''a'', lone_fact ''b''] = [(''a'', 0), (''b'', 1)]"
  "merged_in_order [lone_fact ''b'', lone_fact ''a''] = [(''b'', 0), (''a'', 1)]"
  by code_simp+

text \<open>
  One overlong fact fails the chapter's whole merge, although a bad extraction is to be recorded as a
  conflict: nothing bounds a proposed fact, and the fact it becomes is bounded.
\<close>

lemma overlong_fact_fails:
  assumes "memory_before memory story_id memory_id now = Inr m" and "valid_completion c"
    and "cc_canon_facts c = p # ps" and "pc_id p \<notin> cf_id ` set (cm_canon_facts m)" and "MAX_FACT_CHARS < length (pc_fact p)"
  shows "update_continuity_memory memory c story_id memory_id now = Inl (Not_valid ''CanonFact'')"
proof -
  have "upsert_chapter_summary (cm_chapter_summaries m) c =
      Inr (filter (\<lambda>x. cs_chapter_id x \<noteq> cc_chapter_id c) (cm_chapter_summaries m) @
        [\<lparr>cs_chapter_id = cc_chapter_id c, cs_order = cc_order c, cs_summary = cc_summary c\<rparr>])"
    using assms(2) by (simp add: upsert_chapter_summary_def valid_completion_def valid_summary_def)
  moreover have "by_id cf_id (cm_canon_facts m) (pc_id p) = None" using assms(4) by (simp only: by_id_None not_False_eq_True)
  then have "merge_canon_facts (cc_chapter_id c) n (cm_canon_facts m) (cc_canon_facts c) = Inl (Not_valid ''CanonFact'')" for n
    using assms(5) by (simp add: assms(3) valid_canon_fact_def new_canon_fact_def text_within_def)
  ultimately show ?thesis by (simp add: update_continuity_memory_def assms(1) merged_memory_def)
qed

end
