(* ===== verification/Continuity_Context.thy ===== *)
theory Continuity_Context imports Continuity_Facts Py_Text begin

text \<open>
  \<open>core/story/continuity_context.py\<close>: the part of a story's continuity memory that the prompt of its next chapter
  gets, within a budget of characters, and its text; \<open>core/story/continuity_repository.py\<close>: the records on disk.
\<close>

section \<open>Selection\<close>

definition DEFAULT_CONTEXT_CHARACTER_BUDGET :: int where "DEFAULT_CONTEXT_CHARACTER_BUDGET = 4000"

definition CONTINUITY_PROMPT_HEADING :: string where "CONTINUITY_PROMPT_HEADING = ''### CONTINUITY MEMORY''"

record continuity_context =
  cx_story_id :: string
  cx_as_of_chapter_id :: "string option"
  cx_character_budget :: int
  cx_chapter_summary :: "chapter_summary option"
  cx_unresolved_threads :: "unresolved_thread list"
  cx_canon_facts :: "canon_fact list"
  cx_timeline_facts :: "timeline_fact list"
  cx_omitted_counts :: "(string \<times> int) list"

definition context_is_empty :: "continuity_context \<Rightarrow> bool" where
  "context_is_empty x \<longleftrightarrow>
     cx_chapter_summary x = None \<and> cx_unresolved_threads x = [] \<and> cx_canon_facts x = [] \<and> cx_timeline_facts x = [] \<and>
     cx_omitted_counts x = []"

datatype context_error = Budget_not_positive int | Other_story string string | Context_not_valid

datatype memory_item =
  Candidate_summary chapter_summary
| Candidate_thread unresolved_thread
| Candidate_canon canon_fact
| Candidate_time timeline_fact

fun candidate_field :: "memory_item \<Rightarrow> string" where
  "candidate_field (Candidate_summary s) = ''chapter_summary''"
| "candidate_field (Candidate_thread t) = ''unresolved_threads''"
| "candidate_field (Candidate_canon f) = ''canon_facts''"
| "candidate_field (Candidate_time f) = ''timeline_facts''"

fun candidate_text :: "memory_item \<Rightarrow> string" where
  "candidate_text (Candidate_summary s) = cs_summary s"
| "candidate_text (Candidate_thread t) = ut_description t"
| "candidate_text (Candidate_canon f) = cf_fact f"
| "candidate_text (Candidate_time f) = tf_description f"

definition context_candidates :: "continuity_memory \<Rightarrow> memory_item list" where
  "context_candidates m =
     (let summaries = ordered_chapter_summaries (cm_chapter_summaries m) in
      (if summaries = [] then [] else [Candidate_summary (last summaries)]) @
      map Candidate_thread (ordered_unresolved_threads (cm_unresolved_threads m)) @
      map Candidate_canon (ordered_canon_facts (cm_canon_facts m)) @
      map Candidate_time (ordered_timeline_facts (cm_timeline_facts m)))"

definition count_up :: "string \<Rightarrow> (string \<times> int) list \<Rightarrow> (string \<times> int) list" where
  "count_up name counts = AList.update name (case map_of counts name of None \<Rightarrow> 1 | Some n \<Rightarrow> n + 1) counts"

text \<open>The loop: what is kept, in order, and the counts of what is not.\<close>

fun fill_budget :: "int \<Rightarrow> bool \<Rightarrow> memory_item list \<Rightarrow> (string \<times> int) list \<Rightarrow> memory_item list \<times> (string \<times> int) list" where
  "fill_budget remaining truncated [] omitted = ([], omitted)"
| "fill_budget remaining truncated (c # cs) omitted =
     (if \<not> truncated \<and> int (length (candidate_text c)) \<le> remaining
      then apfst ((#) c) (fill_budget (remaining - int (length (candidate_text c))) truncated cs omitted)
      else fill_budget remaining True cs (count_up (candidate_field c) omitted))"

definition empty_context :: "string \<Rightarrow> int \<Rightarrow> continuity_context" where
  "empty_context story_id budget =
     \<lparr>cx_story_id = story_id, cx_as_of_chapter_id = None, cx_character_budget = budget, cx_chapter_summary = None,
      cx_unresolved_threads = [], cx_canon_facts = [], cx_timeline_facts = [], cx_omitted_counts = []\<rparr>"

definition kept_summaries :: "memory_item list \<Rightarrow> chapter_summary list" where
  "kept_summaries cs = List.map_filter (\<lambda>c. case c of Candidate_summary s \<Rightarrow> Some s | _ \<Rightarrow> None) cs"

definition kept_threads :: "memory_item list \<Rightarrow> unresolved_thread list" where
  "kept_threads cs = List.map_filter (\<lambda>c. case c of Candidate_thread s \<Rightarrow> Some s | _ \<Rightarrow> None) cs"

definition kept_canon :: "memory_item list \<Rightarrow> canon_fact list" where
  "kept_canon cs = List.map_filter (\<lambda>c. case c of Candidate_canon s \<Rightarrow> Some s | _ \<Rightarrow> None) cs"

definition kept_timeline :: "memory_item list \<Rightarrow> timeline_fact list" where
  "kept_timeline cs = List.map_filter (\<lambda>c. case c of Candidate_time s \<Rightarrow> Some s | _ \<Rightarrow> None) cs"

definition build_continuity_context ::
  "continuity_memory option \<Rightarrow> string \<Rightarrow> int \<Rightarrow> context_error + continuity_context" where
  "build_continuity_context memory story_id budget =
     (if budget \<le> 0 then Inl (Budget_not_positive budget)
      else
        (case memory of
           None \<Rightarrow> if story_id = [] then Inl Context_not_valid else Inr (empty_context story_id budget)
         | Some m \<Rightarrow>
             if cm_story_id m \<noteq> story_id then Inl (Other_story (cm_story_id m) story_id)
             else
               (case fill_budget budget False (context_candidates m) [] of
                  (kept, omitted) \<Rightarrow>
                    if story_id = [] then Inl Context_not_valid
                    else
                      Inr ((empty_context story_id budget)
                        \<lparr>cx_as_of_chapter_id := cm_as_of_chapter_id m,
                         cx_chapter_summary := (case kept_summaries kept of [] \<Rightarrow> None | s # _ \<Rightarrow> Some s),
                         cx_unresolved_threads := kept_threads kept,
                         cx_canon_facts := kept_canon kept,
                         cx_timeline_facts := kept_timeline kept,
                         cx_omitted_counts := omitted\<rparr>))))"

section \<open>The prompt\<close>

definition int_text :: "int \<Rightarrow> string" where
  "int_text n = (if n < 0 then ''-'' @ show_nat (nat (- n)) else show_nat (nat n))"

definition context_lines :: "continuity_context \<Rightarrow> string list" where
  "context_lines x =
     [CONTINUITY_PROMPT_HEADING] @
     (case cx_chapter_summary x of None \<Rightarrow> [] | Some s \<Rightarrow> [''Previous chapter summary: '' @ cs_summary s]) @
     (if cx_unresolved_threads x = [] then []
      else ''Unresolved threads the story still owes the reader:'' #
        map (\<lambda>t. ''- '' @ ut_description t) (cx_unresolved_threads x)) @
     (if cx_canon_facts x = [] then []
      else ''Established facts this chapter must not contradict:'' #
        map (\<lambda>f. ''- '' @ cf_subject f @ '': '' @ cf_fact f) (cx_canon_facts x)) @
     (if cx_timeline_facts x = [] then []
      else ''Timeline established so far:'' # map (\<lambda>f. ''- '' @ tf_description f) (cx_timeline_facts x)) @
     (let omitted_total = sum_list (map snd (cx_omitted_counts x)) in
      if omitted_total = 0 then []
      else [''('' @ int_text omitted_total @ '' additional continuity item(s) omitted to fit the '' @
            int_text (cx_character_budget x) @ ''-character continuity budget.)''])"

definition render_continuity_prompt_block :: "continuity_context \<Rightarrow> string" where
  "render_continuity_prompt_block x = (if context_is_empty x then [] else py_join (CHR 0x0A) (context_lines x))"

section \<open>Records on disk\<close>

text \<open>One file per story; a file that cannot be read or does not parse counts as no memory.\<close>

definition continuity_get_for_story :: "bool \<Rightarrow> string \<Rightarrow> continuity_memory directory \<Rightarrow> continuity_memory option" where
  "continuity_get_for_story unreadable story_id dir = (if unreadable then None else dir_get story_id dir)"

definition continuity_save :: "continuity_memory \<Rightarrow> continuity_memory directory \<Rightarrow> continuity_memory \<times> continuity_memory directory" where
  "continuity_save m dir = (m, dir_write (cm_story_id m) m dir)"

definition continuity_delete_for_story :: "string \<Rightarrow> continuity_memory directory \<Rightarrow> bool \<times> continuity_memory directory" where
  "continuity_delete_for_story story_id dir =
     (if map_of dir story_id = None then (False, dir) else (True, AList.delete story_id dir))"

section \<open>A prefix within the budget\<close>

definition texts_size :: "memory_item list \<Rightarrow> int" where
  "texts_size cs = sum_list (map (\<lambda>c. int (length (candidate_text c))) cs)"

definition omitted_of :: "string \<Rightarrow> (string \<times> int) list \<Rightarrow> int" where
  "omitted_of name counts = (case map_of counts name of None \<Rightarrow> 0 | Some n \<Rightarrow> n)"

lemma omitted_count_up: "omitted_of name (count_up other counts) = omitted_of name counts + (if name = other then 1 else 0)"
  by (auto simp: omitted_of_def count_up_def update_conv' split: option.splits)

lemma fill_truncated:
  "fill_budget remaining True cs omitted = (kept, omitted') \<Longrightarrow>
   kept = [] \<and> omitted_of name omitted' = omitted_of name omitted + int (length (filter (\<lambda>c. candidate_field c = name) cs))"
  by (induction remaining True cs omitted rule: fill_budget.induct) (auto simp: omitted_count_up)

lemma fill_prefix:
  assumes "fill_budget remaining False cs omitted = (kept, omitted')" and "0 \<le> remaining"
  shows "\<exists>n \<le> length cs. kept = take n cs \<and> texts_size kept \<le> remaining \<and>
    (n < length cs \<longrightarrow> remaining < texts_size (take (Suc n) cs)) \<and>
    (\<forall>name. omitted_of name omitted' = omitted_of name omitted + int (length (filter (\<lambda>c. candidate_field c = name) (drop n cs))))"
  using assms
proof (induction cs arbitrary: remaining kept)
  case (Cons c cs)
  let ?size = "int (length (candidate_text c))"
  show ?case
  proof (cases "?size \<le> remaining")
    case True
    with Cons.prems obtain kept' where k: "fill_budget (remaining - ?size) False cs omitted = (kept', omitted')" "kept = c # kept'"
      by (auto simp: apfst_def map_prod_def split: prod.splits)
    from Cons.IH [OF k(1)] True obtain n where "n \<le> length cs" "kept' = take n cs" "texts_size kept' \<le> remaining - ?size"
      "n < length cs \<longrightarrow> remaining - ?size < texts_size (take (Suc n) cs)"
      "\<forall>name. omitted_of name omitted' = omitted_of name omitted + int (length (filter (\<lambda>c. candidate_field c = name) (drop n cs)))"
      by auto
    then show ?thesis using k(2) by (intro exI [of _ "Suc n"]) (auto simp: texts_size_def)
  next
    case False
    with Cons.prems have k: "fill_budget remaining True (c # cs) omitted = (kept, omitted')" by simp
    have "kept = []" using fill_truncated [OF k] by blast
    moreover have "omitted_of name omitted' = omitted_of name omitted + int (length (filter (\<lambda>c. candidate_field c = name) (c # cs)))" for name
      using fill_truncated [OF k] by blast
    ultimately show ?thesis using False Cons.prems(2) by (intro exI [of _ 0]) (simp add: texts_size_def)
  qed
qed (auto simp: texts_size_def)

text \<open>The candidates a context holds, in the order of their priority.\<close>

definition chosen :: "continuity_context \<Rightarrow> memory_item list" where
  "chosen x =
     (case cx_chapter_summary x of None \<Rightarrow> [] | Some s \<Rightarrow> [Candidate_summary s]) @
     map Candidate_thread (cx_unresolved_threads x) @ map Candidate_canon (cx_canon_facts x) @
     map Candidate_time (cx_timeline_facts x)"

lemmas kept_defs = kept_summaries_def kept_threads_def kept_canon_def kept_timeline_def

lemma map_filter_append [simp]: "List.map_filter f (xs @ ys) = List.map_filter f xs @ List.map_filter f ys"
  by (simp add: List.map_filter_def)

lemma map_filter_none: "(\<And>x. f (g x) = None) \<Longrightarrow> List.map_filter f (map g xs) = []"
  by (auto simp: List.map_filter_def filter_empty_conv)

lemma map_filter_all: "(\<And>x. f (g x) = Some x) \<Longrightarrow> List.map_filter f (map g xs) = xs"
  by (simp add: List.map_filter_def o_def)

lemma kept_grouped:
  assumes "cs = map Candidate_summary ss @ map Candidate_thread ts @ map Candidate_canon fs @ map Candidate_time es"
  shows "kept_summaries cs = ss" "kept_threads cs = ts" "kept_canon cs = fs" "kept_timeline cs = es"
  unfolding assms kept_defs by (simp_all add: map_filter_none map_filter_all)

lemma chosen_kept:
  "chosen ((empty_context story_id budget)\<lparr>cx_as_of_chapter_id := a,
      cx_chapter_summary := (case kept_summaries (take n (context_candidates m)) of [] \<Rightarrow> None | s # _ \<Rightarrow> Some s),
      cx_unresolved_threads := kept_threads (take n (context_candidates m)),
      cx_canon_facts := kept_canon (take n (context_candidates m)),
      cx_timeline_facts := kept_timeline (take n (context_candidates m)),
      cx_omitted_counts := omitted\<rparr>) = take n (context_candidates m)"
proof -
  let ?ss = "if ordered_chapter_summaries (cm_chapter_summaries m) = [] then []
    else [last (ordered_chapter_summaries (cm_chapter_summaries m))]"
  let ?ts = "ordered_unresolved_threads (cm_unresolved_threads m)" and ?fs = "ordered_canon_facts (cm_canon_facts m)"
    and ?es = "ordered_timeline_facts (cm_timeline_facts m)"
  have "context_candidates m = map Candidate_summary ?ss @ map Candidate_thread ?ts @ map Candidate_canon ?fs @ map Candidate_time ?es"
    by (simp add: context_candidates_def Let_def)
  then have "take n (context_candidates m) =
      map Candidate_summary (take n ?ss) @ map Candidate_thread (take (n - length ?ss) ?ts) @
      map Candidate_canon (take (n - length ?ss - length ?ts) ?fs) @
      map Candidate_time (take (n - length ?ss - length ?ts - length ?fs) ?es)"
    by (simp only: take_append take_map length_map diff_diff_left length_append)
  then obtain ss ts fs es where c: "take n (context_candidates m) =
      map Candidate_summary ss @ map Candidate_thread ts @ map Candidate_canon fs @ map Candidate_time es"
    and ss: "ss = take n ?ss" by blast
  then have "length ss \<le> 1" by auto
  then show ?thesis unfolding chosen_def c kept_grouped [OF refl] by (cases ss) (auto simp: empty_context_def)
qed

lemma lines_ne: "py_join c (CONTINUITY_PROMPT_HEADING # ls) \<noteq> []"
  by (cases ls) (auto simp: CONTINUITY_PROMPT_HEADING_def)

text \<open>
  C35: the context of a prompt is the longest prefix of the candidates, in the order of their priority, that
  fits the budget; the counts say exactly how many of each kind are left out; and the prompt says
  something whenever there is something to remember, even if nothing of it fits.
\<close>

theorem context_is_longest_prefix:
  assumes "build_continuity_context (Some m) story_id budget = Inr x"
  shows "\<exists>n \<le> length (context_candidates m).
    chosen x = take n (context_candidates m) \<and> texts_size (chosen x) \<le> budget \<and>
    (n < length (context_candidates m) \<longrightarrow> budget < texts_size (take (Suc n) (context_candidates m))) \<and>
    (\<forall>name. omitted_of name (cx_omitted_counts x) =
       int (length (filter (\<lambda>c. candidate_field c = name) (drop n (context_candidates m))))) \<and>
    (render_continuity_prompt_block x = [] \<longleftrightarrow> context_candidates m = [])"
proof -
  obtain kept omitted where f: "fill_budget budget False (context_candidates m) [] = (kept, omitted)" by fastforce
  with assms have budget: "0 < budget"
    and x: "x = (empty_context story_id budget)\<lparr>cx_as_of_chapter_id := cm_as_of_chapter_id m,
                 cx_chapter_summary := (case kept_summaries kept of [] \<Rightarrow> None | s # _ \<Rightarrow> Some s),
                 cx_unresolved_threads := kept_threads kept, cx_canon_facts := kept_canon kept,
                 cx_timeline_facts := kept_timeline kept, cx_omitted_counts := omitted\<rparr>"
    by (auto simp: build_continuity_context_def split: if_splits)
  from fill_prefix [OF f] budget obtain n where n: "n \<le> length (context_candidates m)" "kept = take n (context_candidates m)"
    "texts_size kept \<le> budget" "n < length (context_candidates m) \<longrightarrow> budget < texts_size (take (Suc n) (context_candidates m))"
    and omitted: "\<forall>name. omitted_of name omitted = int (length (filter (\<lambda>c. candidate_field c = name) (drop n (context_candidates m))))"
    by (auto simp: omitted_of_def)
  have chosen: "chosen x = take n (context_candidates m)" unfolding x n(2) by (rule chosen_kept)
  have "context_is_empty x \<longleftrightarrow> chosen x = [] \<and> omitted = []"
    by (auto simp: context_is_empty_def chosen_def x split: option.splits)
  moreover have "omitted \<noteq> []" if "n = 0" "context_candidates m \<noteq> []"
  proof
    assume "omitted = []"
    with omitted that have "\<forall>name. filter (\<lambda>c. candidate_field c = name) (context_candidates m) = []" by (simp add: omitted_of_def)
    with that(2) show False by (cases "context_candidates m") (auto split: if_splits)
  qed
  moreover have "omitted = []" if "context_candidates m = []" using f that by simp
  ultimately have "context_is_empty x \<longleftrightarrow> context_candidates m = []" using chosen n(1) by auto
  moreover have "render_continuity_prompt_block x = [] \<longleftrightarrow> context_is_empty x"
    using lines_ne by (simp add: render_continuity_prompt_block_def context_lines_def)
  ultimately show ?thesis using n omitted chosen by (intro exI [of _ n]) (auto simp: x)
qed

text \<open>Twelve characters take the open thread of the sample and stop at the fact.\<close>

definition sample_context :: continuity_context where
  "sample_context = (empty_context ''s'' 12)
     \<lparr>cx_unresolved_threads := cm_unresolved_threads sample_memory, cx_omitted_counts := [(''canon_facts'', 1)]\<rparr>"

lemma context_is_longest_prefix_witness:
  "\<exists>n \<le> length (context_candidates sample_memory). chosen sample_context = take n (context_candidates sample_memory) \<and>
     texts_size (chosen sample_context) \<le> 12"
proof -
  have "build_continuity_context (Some sample_memory) ''s'' 12 = Inr sample_context" by code_simp
  from context_is_longest_prefix [OF this] show ?thesis by blast
qed

end
