(* ===== verification/Spec2Isabelle.thy ===== *)
theory Spec2Isabelle imports Studio Batch_Grid Runtime_Capacity Subtitle_Lines Continuity_Context begin

text \<open>
  A verification library for the core of Creative AI Studio (Python, \<open>src/core/\<close>,
  \<open>src/generators/registry.py\<close>, \<open>src/bootstrap/\<close>): how a request becomes a job, how a job is
  queued, claimed, generated, cancelled, finished and followed up, what survives a crash, how
  a batch becomes requests, is staged, tracked and cancelled, and how the jobs' threads share the
  loaded models.

  \<^bold>\<open>The program.\<close> A request is checked (\<open>core/reference_capabilities.py\<close>,
  \<open>JobService.validate_references\<close>), stored as a row of the SQLite table \<open>jobs\<close>
  (\<open>core/storage/repositories/job_repository.py\<close>) and put into an in-memory queue with one lane per
  kind of work (\<open>core/jobs/queue.py\<close>, \<open>lanes.py\<close>). A worker (\<open>runner.py\<close>, \<open>worker_pool.py\<close>) takes it,
  claims it by a compare-and-set, runs the generator of its media type and task, and publishes
  events (\<open>events.py\<close>). Subscribers bind the result to a story's scene (\<open>core/story/binding.py\<close>) and
  converge what a finished job still owes (\<open>completion.py\<close>): asset records (\<open>core/assets\<close>), the
  scene, the owning batch. After a crash, \<open>startup_recovery.py\<close> reconciles every row before the
  first worker starts. Batches (\<open>core/batches\<close>) expand a declarative spec into requests,
  turn them into jobs stage by stage, and follow the jobs' ends.

  \<^bold>\<open>The shared world.\<close> \<open>Job_World\<close> holds the state that threads share as one record: the table, the
  queue, the event bus, the cancellation registry, the asset and story directories. An operation is
  a program in the state-and-exception monad of \<open>Studio_Monad\<close>; its atomic steps are the SQL
  transactions and the methods that hold a lock. A schedule (\<open>w_ticks\<close>) says for every step which
  operations other threads completed just before it, whether the storage fails it, whether a file
  is unreadable and what the clocks show. A theorem about every world is therefore about every
  interleaving and every placement of failures. \<open>evolves\<close> is what all steps of all threads keep: rows
  follow the transition contract and are born queued, ids stay unique, the queue, the registry and
  the bus stay well formed. Each operation has a lemma \<open>holds_along evolves \<dots>\<close> in the collection
  \<open>along\<close>; the locales of \<open>World_Frames\<close> do the same for what an operation does not touch.

  \<^bold>\<open>Theories.\<close> In the order in which they build on each other:
  \<^item> \<open>Studio_Monad\<close>, \<open>Py_Text\<close>, \<open>Py_Float\<close>: the monad with its Hoare rules, Python's text and integer
    parsing, binary64 rounding on exact rationals.
  \<^item> \<open>Job_Status\<close> (\<open>statuses.py\<close>, \<open>recovery.py\<close>): the statuses, the transition table, histories.
  \<^item> \<open>Job_Lanes\<close> (\<open>lanes.py\<close>), \<open>Job_Queue\<close> (\<open>queue.py\<close>): configuration parsing, the FIFO per lane.
  \<^item> \<open>Job_Schemas\<close>, \<open>Media_Schemas\<close>, \<open>Json_Store\<close>: requests, results, job records, assets, stories, JSON
    values and directories of documents (\<open>core/schemas\<close>, \<open>core/jobs/schemas.py\<close>, \<open>json_files.py\<close>).
  \<^item> \<open>Reference_Check\<close>: the reference-image preflight of \<open>reference_capabilities.py\<close> and the service.
  \<^item> \<open>Job_Signals\<close> (\<open>cancellation.py\<close>, \<open>events.py\<close>, \<open>context.py\<close>): registry, bus, progress throttling.
  \<^item> \<open>Job_Store\<close>, \<open>Job_World\<close>, \<open>Job_Repository\<close>, \<open>Job_Facts\<close>: rows and what makes one undecodable, the
    SQL statements, the world, the repository's methods, and what a thread may conclude from them.
  \<^item> \<open>Job_Service\<close> (\<open>service.py\<close>): create, reuse, enqueue, cancel, finish.
  \<^item> \<open>Generators\<close>, \<open>Job_Runner\<close>, \<open>Runner_Delivery\<close>, \<open>Worker_Pool\<close>: the generator registry, a run of a
    generator as an interaction tree, \<open>run_once\<close> and \<open>run_forever\<close>, no loss between queue and table,
    the threads of the lanes.
  \<^item> \<open>Asset_Repository\<close>, \<open>Asset_Sync\<close> (\<open>core/assets\<close>), \<open>Story_Repository\<close>, \<open>Scene_Binding\<close>,
    \<open>Replay_Selection\<close> (\<open>core/story\<close>): records of outputs, documents under a lock, live binding and the
    choice of the one winner after a restart.
  \<^item> \<open>Poison_Quarantine\<close>, \<open>Completion\<close>, \<open>Completion_Facts\<close>, \<open>Startup_Recovery\<close>, \<open>Startup_Facts\<close>:
    undecodable rows, completion convergence and its retry loop, the startup pass.
  \<^item> \<open>Process_Frames\<close>: every operation of the pipeline keeps a relation that does not look at its tables,
    as long as the subscribers and the batch service keep it; the batches are such a bystander.
  \<^item> \<open>Job_Board\<close>, \<open>Application\<close>: the abstract job board, the wiring of \<open>bootstrap/factories.py\<close>, process
    lifetimes, and the refinement between them, with the batch service as a parameter.
  \<^item> \<open>Batch_Spec\<close>, \<open>Batch_Expansion\<close>, \<open>Batch_Grid\<close>: batch specs, their expansion, what it guarantees.
  \<^item> \<open>Batch_Repository\<close>, \<open>Batch_Rules\<close> (\<open>core/batches/repository.py\<close>): records under a reentrant lock, the
    saves of other threads, and the rules between two saved versions of a record (\<open>batch_follows\<close>).
  \<^item> \<open>Batch_Service\<close>, \<open>Batch_Control\<close> (\<open>core/batches/service.py\<close>): recomputing, materializing a stage,
    advancing, cancelling, resuming, creating, promoting. \<open>Batch_Facts\<close>: every closure keeps the rules, and
    the locale \<open>batch_operations\<close> lifts that to every operation. \<open>Batch_Lifecycle\<close>, \<open>Batch_Outcomes\<close>:
    creation, cancellation and exposure; the aggregate, the status and the winners.
  \<^item> \<open>Studio\<close>: the process with the batch service in it, so that its theorems assume nothing of any part.
  \<^item> \<open>Model_Registry\<close> (\<open>core/models/manifest.py\<close>, \<open>registry.py\<close>, \<open>resolver.py\<close>, \<open>cloud_guard.py\<close>):
    manifests, the catalogue, the names of models, the switches of cloud providers.
  \<^item> \<open>Runtime_Cache\<close> (\<open>cache.py\<close>, \<open>runtime_lease.py\<close>): the slots of loaded models; every block under the
    metadata lock is one function. \<open>Runtime_Programs\<close> (\<open>service.py\<close>): admission, acquisition, handles,
    unloading as programs of atomic acts. \<open>Runtime_System\<close>: the shared state, what each act does to
    it, and any number of threads interleaving them.
    The metadata lock is a condition variable: a thread in \<open>wait()\<close> parks itself in \<open>rc_waiters\<close> and moves
    again when a \<open>notify_all()\<close> empties the list or its own time-out ends. Python permits spurious
    wake-ups; since a woken thread only looks again, they are left out.
  \<^item> \<open>Runtime_Tokens\<close>, \<open>Runtime_Blocks\<close>, \<open>Runtime_Protocol\<close>, \<open>Runtime_Soundness\<close>, \<open>Runtime_Obedience\<close>: who
    holds what, as tokens (permits, locks, leases, reservations, entries being retired, runtimes not
    yet published); the state issues exactly the tokens held, whatever act a thread performs by the
    rules (\<open>exec_sound\<close>), and every program keeps the rules (\<open>calls_obey\<close>).
  \<^item> \<open>Runtime_Waiting\<close>: whatever block of the cache can end what a parked thread waits for, notifies.
  \<^item> \<open>Runtime_Facts\<close>, \<open>Runtime_Capacity\<close>: what follows for every run.
  \<^item> \<open>Text_Units\<close> (\<open>core/story/text_utils.py\<close>), \<open>Subtitle_Lines\<close>
    (\<open>generators/video/subtitle_line_breaking.py\<close>): measuring, joining and wrapping Japanese and Latin
    text, as lists of code points, and the rules for where a subtitle line may begin and end.
  \<^item> \<open>Continuity\<close>, \<open>Continuity_Facts\<close>, \<open>Continuity_Context\<close> (\<open>core/story/continuity*.py\<close>): what later
    chapters must remember, how a chapter is folded into it, and what of it a prompt gets.

  \<^bold>\<open>What the lemmas show.\<close> Status histories are finite and final statuses final; lanes are FIFO and
  nobody's job is lost or run twice (one winner per claim, redelivery on failure, a registration
  ends with its run); cancelling and creating settle under any interference; the completion mark
  tells the truth; a replay never overwrites and only the chosen winner writes; what a startup pass
  reports is true under every schedule, and a pass that runs alone, without a batch service, leaves
  every row in the status its classification says; synchronising assets is idempotent and keeps
  annotations while nobody else writes them; the table refines the board over any number of lifetimes of the
  whole studio; a batch is exactly its grid, seeded by position, reproducible in later stages; its
  plan, its ids and its cancellation survive everything, and a cancelled batch starts nothing. A
  handle owns its runtime alone and alive, runtimes are cleaned up once and nothing leaks, only
  a handle that is out can keep a call waiting and no wake-up is lost, buckets stay within their budgets, a name means one model. Subtitle
  lines lose no character; the memory of a story loses nothing and folding a
  chapter in twice changes no more than the update time (the second report may name another conflict:
  \<open>rerun_reports_another_conflict\<close>). Where a theorem needs that no other thread writes some files or that
  storage is sound, its text says so, and what goes wrong otherwise is often a lemma beside it.

  \<^bold>\<open>Bounds and fuel.\<close> \<open>cancel_rounds\<close> is the \<open>while True\<close> of \<open>cancel_job\<close> with a count; \<open>CANCEL_ROUNDS = 5\<close>
  is enough because a lost round means that the row moved up in \<open>status_rank\<close>, which is at most 5,
  and \<open>cancel_job_terminates\<close> proves that the count is never used up. The loops of the worker and of
  the retry thread run until a stop event; they take the number of their rounds, and the theorems
  hold for every number. \<open>studio_service st n\<close> allows \<open>n\<close> nested event deliveries and raises
  \<open>RecursionError\<close> beyond, as Python's call stack does; its theorems hold for every \<open>n\<close>. The loop of
  \<open>_acquire_entry_after_revalidation_failure\<close> takes \<open>DRAIN_ROUNDS = 2\<close> rounds: \<open>drain_wait_converges\<close>
  proves that they are never used up, because an entry that no longer blocks is never met again.
  The loop over wait slices takes a number of slices and ends in \<open>Rt_out_of_slices\<close> beyond it; the
  theorems hold for every number. Everything else terminates by structure or by a size.

  \<^bold>\<open>Parameters.\<close> Code that is not in the repository is an argument: generators (arbitrary programs
  over the calls the runner hands them), SHA-1, Python's text of a non-string JSON value, the model
  validation of ill-typed JSON, which code points are letters or digits (\<open>unicode_data\<close>), \<open>random.sample\<close>, \<open>uuid4\<close> (a sequence of texts; \<open>fresh_ids\<close> states that they
  are distinct and unused, where that matters).

  \<^bold>\<open>Not modelled.\<close> The catalogue of batch templates; chapter merge, timelines and visual planning of
  stories; prompt composition and the bible; quality evaluation; loaders and readiness probes; generators themselves (calls into diffusers, torch, ffmpeg); HTTP
  routes beyond the calls they make; the desktop shell, the web client and scripts. Strings are
  sequences of characters below 256, floats have no infinities, timestamps are opaque texts ordered
  as texts, and a column of the jobs table holds the value it encodes: \<open>model_dump\<close>, \<open>json.dumps\<close>, ISO
  dates and \<open>_normalize_timestamp\<close>, which gives a date without a zone UTC's, are not modelled (only
  that the keys of objects get sorted, \<open>json_dump\<close>, and which cells do not decode). Besides, how long a wait lasts is not modelled: a bounded wait may end at any time, by a choice
  of the environment. Exceptions come from calls, not from between two statements. Model ids and
  environment variables are ASCII. \<open>sum\<close> adds floats one by one, as the Python
  of the project's CI (3.10) does. A deleted batch file (\<open>BatchRepository.delete\<close>, which nothing but tests
  calls) is outside the rules that other threads' saves follow.
\<close>

end
